(* ===== verification/Prelude.thy ===== *)
theory Prelude
  imports Complex_Main "HOL-Library.Char_ord" "HOL-Library.List_Lexorder"
    "HOL-Library.Product_Lexorder"
begin

text \<open>
  Shared vocabulary of the development: the sum type used for Python exceptions and its
  sequencing, the list operations several components share (first-occurrence collapse of a
  keyed sequence, insertion-ordered dictionaries), and the simp collections the component
  theories extend.  Python strings are \<open>string\<close> (lists of 8-bit characters: code points
  beyond Latin-1 are not represented), Python ints are \<open>int\<close> or \<open>nat\<close>, and Python floats
  are \<open>real\<close> (no rounding, no infinities).
\<close>

named_theorems result_simps \<open>sequencing of fallible computations\<close>
named_theorems dict_simps \<open>lookup and update of insertion-ordered dictionaries\<close>

section \<open>Fallible computations\<close>

text \<open>\<open>Inl e\<close> is a raised exception, \<open>Inr v\<close> a returned value.\<close>

definition and_then :: "'e + 'a \<Rightarrow> ('a \<Rightarrow> 'e + 'b) \<Rightarrow> 'e + 'b" where
  "and_then r f = (case r of Inl e \<Rightarrow> Inl e | Inr v \<Rightarrow> f v)"

fun each :: "('a \<Rightarrow> 'e + 'b) \<Rightarrow> 'a list \<Rightarrow> 'e + 'b list" where
  "each f [] = Inr []"
| "each f (x # xs) = and_then (f x) (\<lambda>y. and_then (each f xs) (\<lambda>ys. Inr (y # ys)))"

lemma and_then_simps [simp, result_simps]:
  "and_then (Inl e) f = Inl e"
  "and_then (Inr v) f = f v"
  by (simp_all add: and_then_def)

lemma and_then_eq_Inr [result_simps]:
  "and_then r f = Inr w \<longleftrightarrow> (\<exists>v. r = Inr v \<and> f v = Inr w)"
  by (cases r) auto

lemma and_then_eq_Inl [result_simps]:
  "and_then r f = Inl e \<longleftrightarrow> r = Inl e \<or> (\<exists>v. r = Inr v \<and> f v = Inl e)"
  by (cases r) auto

lemma each_Inr_length: "each f xs = Inr ys \<Longrightarrow> length ys = length xs"
  by (induction xs arbitrary: ys) (auto simp: result_simps)

lemma each_Inr_nth:
  "each f xs = Inr ys \<Longrightarrow> i < length xs \<Longrightarrow> f (xs ! i) = Inr (ys ! i)"
  by (induction xs arbitrary: ys i) (auto simp: result_simps nth_Cons split: nat.splits)

section \<open>Keeping the first entry of each key\<close>

text \<open>
  \<open>d = {}; for x in xs: d.setdefault(key(x), x); list(d.values())\<close>: the first element of each
  key, in the order the keys first appear.
\<close>

fun firsts_by :: "('a \<Rightarrow> 'k) \<Rightarrow> 'k list \<Rightarrow> 'a list \<Rightarrow> 'a list" where
  "firsts_by key seen [] = []"
| "firsts_by key seen (x # xs) =
     (if key x \<in> set seen then firsts_by key seen xs
      else x # firsts_by key (key x # seen) xs)"

lemma firsts_by_subset: "set (firsts_by key seen xs) \<subseteq> set xs"
  by (induction key seen xs rule: firsts_by.induct) auto

lemma firsts_by_keys:
  "key ` set (firsts_by key seen xs) = key ` set xs - set seen"
  by (induction key seen xs rule: firsts_by.induct) auto

lemma firsts_by_distinct: "distinct (map key (firsts_by key seen xs))"
proof (induction key seen xs rule: firsts_by.induct)
  case (2 key seen x xs)
  have "key ` set (firsts_by key (key x # seen) xs) = key ` set xs - set (key x # seen)"
    by (rule firsts_by_keys)
  then have "key x \<notin> key ` set (firsts_by key (key x # seen) xs)" by simp
  with 2 show ?case by auto
qed simp

lemma firsts_by_Nil_iff [simp]: "firsts_by key [] xs = [] \<longleftrightarrow> xs = []"
  by (cases xs) auto

lemma firsts_by_length: "length (firsts_by key seen xs) \<le> length xs"
  by (induction key seen xs rule: firsts_by.induct) auto

lemma firsts_by_id:
  "distinct (map key xs) \<Longrightarrow> key ` set xs \<inter> set seen = {} \<Longrightarrow> firsts_by key seen xs = xs"
  by (induction key seen xs rule: firsts_by.induct) auto

section \<open>Insertion-ordered dictionaries\<close>

text \<open>
  A Python \<open>dict\<close> whose iteration order matters is an association list with distinct keys:
  assigning to a present key keeps its position, a new key goes last.
\<close>

type_synonym ('k, 'v) dict = "('k \<times> 'v) list"

fun dict_put :: "'k \<Rightarrow> 'v \<Rightarrow> ('k, 'v) dict \<Rightarrow> ('k, 'v) dict" where
  "dict_put k v [] = [(k, v)]"
| "dict_put k v ((k', v') # d) = (if k = k' then (k, v) # d else (k', v') # dict_put k v d)"

definition dict_get :: "('k, 'v) dict \<Rightarrow> 'k \<Rightarrow> 'v option" where
  "dict_get d k = map_of d k"

definition dict_wf :: "('k, 'v) dict \<Rightarrow> bool" where
  "dict_wf d \<longleftrightarrow> distinct (map fst d)"

lemma dict_get_put [simp, dict_simps]:
  "dict_get (dict_put k v d) k' = (if k' = k then Some v else dict_get d k')"
  by (induction k v d rule: dict_put.induct) (auto simp: dict_get_def)

lemma dict_keys_put [dict_simps]: "fst ` set (dict_put k v d) = insert k (fst ` set d)"
  by (induction k v d rule: dict_put.induct) auto

lemma dict_wf_put [simp, dict_simps]: "dict_wf d \<Longrightarrow> dict_wf (dict_put k v d)"
proof (induction k v d rule: dict_put.induct)
  case (2 k v k' v' d)
  then show ?case
    using dict_keys_put [of k v d] by (auto simp: dict_wf_def)
qed (simp add: dict_wf_def)

lemma dict_wf_Nil [simp]: "dict_wf []"
  by (simp add: dict_wf_def)

lemma dict_get_Nil [simp]: "dict_get [] k = None"
  by (simp add: dict_get_def)

lemma dict_get_iff: "dict_wf d \<Longrightarrow> dict_get d k = Some v \<longleftrightarrow> (k, v) \<in> set d"
  by (simp add: dict_get_def dict_wf_def)

lemma dict_get_None_iff: "dict_get d k = None \<longleftrightarrow> k \<notin> fst ` set d"
  by (simp add: dict_get_def map_of_eq_None_iff)

definition dict_del :: "'k \<Rightarrow> ('k, 'v) dict \<Rightarrow> ('k, 'v) dict" where
  "dict_del k d = [p \<leftarrow> d. fst p \<noteq> k]"

lemma dict_get_del [simp, dict_simps]: "dict_get (dict_del k d) k' = (if k' = k then None else dict_get d k')"
  by (induction d) (auto simp: dict_get_def dict_del_def)

lemma dict_wf_del [simp, dict_simps]: "dict_wf d \<Longrightarrow> dict_wf (dict_del k d)"
  by (simp add: dict_wf_def dict_del_def distinct_map_filter)

lemma dict_keys_del [dict_simps]: "fst ` set (dict_del k d) = fst ` set d - {k}"
  by (auto simp: dict_del_def)

lemma dict_del_absent: "dict_get d k = None \<Longrightarrow> dict_del k d = d"
  unfolding dict_get_None_iff dict_del_def by (rule filter_True) force

lemma dict_put_absent: "dict_get d k = None \<Longrightarrow> dict_put k v d = d @ [(k, v)]"
  by (induction k v d rule: dict_put.induct) (auto simp: dict_get_def split: if_splits)

lemma dict_put_same: "dict_get d k = Some v \<Longrightarrow> dict_put k v d = d"
  by (induction k v d rule: dict_put.induct) (auto simp: dict_get_def split: if_splits)

section \<open>Python sequence indexing\<close>

text \<open>\<open>xs[i]\<close> with negative indices counted from the end; \<open>None\<close> is \<open>IndexError\<close>.\<close>

definition py_index :: "'a list \<Rightarrow> int \<Rightarrow> 'a option" where
  "py_index xs i =
     (if - int (length xs) \<le> i \<and> i < int (length xs)
      then Some (xs ! nat (if i < 0 then i + int (length xs) else i)) else None)"

lemma py_index_mem: "py_index xs i = Some x \<Longrightarrow> x \<in> set xs"
  by (auto simp: py_index_def split: if_splits)

lemma py_index_None_iff:
  "py_index xs i = None \<longleftrightarrow> i < - int (length xs) \<or> int (length xs) \<le> i"
  by (auto simp: py_index_def)

lemma find_Some_mem: "List.find P xs = Some x \<Longrightarrow> x \<in> set xs \<and> P x"
  by (induction xs) (auto split: if_splits)

section \<open>Grouping by a key\<close>

text \<open>\<open>d.setdefault(key(x), []).append(x)\<close> over a list: groups in order of first appearance.\<close>

definition group_add :: "('a \<Rightarrow> 'k) \<Rightarrow> 'a \<Rightarrow> ('k, 'a list) dict \<Rightarrow> ('k, 'a list) dict" where
  "group_add key x d =
     dict_put (key x) ((case dict_get d (key x) of None \<Rightarrow> [] | Some xs \<Rightarrow> xs) @ [x]) d"

definition group_by :: "('a \<Rightarrow> 'k) \<Rightarrow> 'a list \<Rightarrow> ('k, 'a list) dict" where
  "group_by key xs = fold (group_add key) xs []"

lemma filter_key_absent: "k \<notin> key ` set xs \<Longrightarrow> [x \<leftarrow> xs. key x = k] = []"
  by (auto simp: filter_empty_conv)

lemma group_fold:
  "dict_get (fold (group_add key) xs d) k =
     (if k \<in> key ` set xs then Some ((case dict_get d k of None \<Rightarrow> [] | Some ys \<Rightarrow> ys) @ [x \<leftarrow> xs. key x = k])
      else dict_get d k)"
proof (induction xs arbitrary: d)
  case (Cons x xs)
  show ?case
    by (simp add: Cons) (auto simp: group_add_def filter_key_absent split: option.splits)
qed simp

lemma dict_get_group_by [dict_simps]:
  "dict_get (group_by key xs) k = (if k \<in> key ` set xs then Some [x \<leftarrow> xs. key x = k] else None)"
  by (simp add: group_by_def group_fold)

lemma group_by_wf: "dict_wf (group_by key xs)"
proof -
  have "dict_wf d \<Longrightarrow> dict_wf (fold (group_add key) xs d)" for d
    by (induction xs arbitrary: d) (auto simp: group_add_def)
  then show ?thesis by (simp add: group_by_def)
qed

lemma group_by_mem:
  "(k, g) \<in> set (group_by key xs) \<longleftrightarrow> k \<in> key ` set xs \<and> g = [x \<leftarrow> xs. key x = k]"
  using dict_get_iff [OF group_by_wf, of key xs k g] by (auto simp: dict_get_group_by split: if_splits)

lemma group_by_groups_distinct: "distinct (map snd (group_by key xs))"
proof -
  have "inj_on snd (set (group_by key xs))"
  proof (rule inj_onI)
    fix p q assume pq: "p \<in> set (group_by key xs)" "q \<in> set (group_by key xs)" "snd p = snd q"
    obtain k g l where p: "p = (k, g)" and q: "q = (l, g)" using pq(3) by (cases p; cases q) auto
    have k: "k \<in> key ` set xs" "g = [x \<leftarrow> xs. key x = k]" and l: "g = [x \<leftarrow> xs. key x = l]"
      using pq(1,2) unfolding p q group_by_mem by auto
    obtain x where "x \<in> set xs" "key x = k" using k(1) by blast
    then have "x \<in> set g" using k(2) by simp
    then have "key x = l" using l by simp
    with \<open>key x = k\<close> show "p = q" unfolding p q by simp
  qed
  moreover have "distinct (group_by key xs)"
    using group_by_wf [of key xs] by (simp add: dict_wf_def distinct_map)
  ultimately show ?thesis by (simp add: distinct_map)
qed

section \<open>Decimal numerals and joined strings\<close>

function show_nat :: "nat \<Rightarrow> string" where
  "show_nat n = (if n < 10 then [char_of (48 + n)] else show_nat (n div 10) @ [char_of (48 + n mod 10)])"
  by pat_completeness auto
termination
  by (relation "measure id") auto

declare show_nat.simps [simp del]

fun join :: "string \<Rightarrow> string list \<Rightarrow> string" where
  "join sep [] = []"
| "join sep [s] = s"
| "join sep (s # t # ss) = s @ sep @ join sep (t # ss)"

section \<open>Substrings and letter case\<close>

text \<open>\<open>p in s\<close> on strings, and the lower case of an ASCII letter.\<close>

fun substring :: "string \<Rightarrow> string \<Rightarrow> bool" where
  "substring p [] = (p = [])"
| "substring p (c # s) = (take (length p) (c # s) = p \<or> substring p s)"

lemma substring_iff: "substring p s \<longleftrightarrow> (\<exists>u v. s = u @ p @ v)"
proof (induction s)
  case (Cons c s)
  have "take (length p) (c # s) = p \<longleftrightarrow> (\<exists>v. c # s = p @ v)"
    by (metis append_eq_conv_conj append_take_drop_id)
  with Cons have "substring p (c # s) \<longleftrightarrow> (\<exists>v. c # s = p @ v) \<or> (\<exists>u v. s = u @ p @ v)" by simp
  also have "\<dots> \<longleftrightarrow> (\<exists>u v. c # s = u @ p @ v)" by (metis append_Cons append_Nil append_eq_Cons_conv)
  finally show ?case .
qed simp

definition lower_char :: "char \<Rightarrow> char" where
  "lower_char c =
     (if CHR ''A'' \<le> c \<and> c \<le> CHR ''Z'' then char_of ((of_char c :: nat) + 32) else c)"

section \<open>First success in a list\<close>

fun first_some :: "('a \<Rightarrow> 'b option) \<Rightarrow> 'a list \<Rightarrow> 'b option" where
  "first_some f [] = None"
| "first_some f (x # xs) = (case f x of Some y \<Rightarrow> Some y | None \<Rightarrow> first_some f xs)"

lemma or_else_None: "(case x of None \<Rightarrow> y | Some m \<Rightarrow> Some m) = None \<longleftrightarrow> x = None \<and> y = None"
  by (cases x) auto

lemma first_some_Some: "first_some f xs = Some y \<Longrightarrow> \<exists>x\<in>set xs. f x = Some y"
  by (induction xs) (auto split: option.splits)

lemma first_some_None: "first_some f xs = None \<longleftrightarrow> (\<forall>x\<in>set xs. f x = None)"
  by (induction xs) (auto split: option.splits)

section \<open>Digits and white space\<close>

definition is_digit :: "char \<Rightarrow> bool" where
  "is_digit c \<longleftrightarrow> CHR ''0'' \<le> c \<and> c \<le> CHR ''9''"

text \<open>The white space \<open>str.strip\<close> and \<open>str.split\<close> recognise (below U+0100).\<close>

definition is_blank :: "char \<Rightarrow> bool" where
  "is_blank c \<longleftrightarrow> (let n = (of_char c :: nat) in (9 \<le> n \<and> n \<le> 13) \<or> (28 \<le> n \<and> n \<le> 32) \<or> n = 133 \<or> n = 160)"

definition strip :: "string \<Rightarrow> string" where
  "strip s = rev (dropWhile is_blank (rev (dropWhile is_blank s)))"


end
