(* ===== verification/Versions.thy ===== *)
theory Versions
  imports Prelude
begin

text \<open>
  Version ranges in npm's grammar, for the device conditions a target declares
  (\<open>src/bajutsu/common/devices/version.py\<close>): versions and their order, one comparator set
  as an interval, the expansion of tilde, caret, x-ranges and hyphen ranges, and the reader of
  the concrete syntax.  The fixed regular expressions of the module are written out as
  recognisers over characters; digits and white space are those of Latin-1.
\<close>

section \<open>Versions\<close>

datatype version = Version (major: nat) (minor: nat) (patch: nat)

instantiation version :: linorder
begin

definition less_version :: "version \<Rightarrow> version \<Rightarrow> bool" where
  "less_version a b \<longleftrightarrow> major a < major b \<or> major a = major b \<and>
     (minor a < minor b \<or> minor a = minor b \<and> patch a < patch b)"

definition less_eq_version :: "version \<Rightarrow> version \<Rightarrow> bool" where
  "less_eq_version a b \<longleftrightarrow> a < b \<or> a = (b::version)"

instance
proof
  fix x y z :: version
  show "(x < y) = (x \<le> y \<and> \<not> y \<le> x)"
    by (auto simp: less_eq_version_def less_version_def)
  show "x \<le> x" by (simp add: less_eq_version_def)
  show "x \<le> y \<Longrightarrow> y \<le> z \<Longrightarrow> x \<le> z"
    by (auto simp: less_eq_version_def less_version_def)
  show "x \<le> y \<Longrightarrow> y \<le> x \<Longrightarrow> x = y"
    by (auto simp: less_eq_version_def less_version_def)
  show "x \<le> y \<or> y \<le> x"
    by (cases x; cases y) (auto simp: less_eq_version_def less_version_def)
qed

end

lemma version_less [simp]:
  "Version a b c < Version a' b' c' \<longleftrightarrow> a < a' \<or> a = a' \<and> (b < b' \<or> b = b' \<and> c < c')"
  by (simp add: less_version_def)

lemma version_le [simp]:
  "Version a b c \<le> Version a' b' c' \<longleftrightarrow> a < a' \<or> a = a' \<and> (b < b' \<or> b = b' \<and> c \<le> c')"
  by (auto simp: less_eq_version_def)

section \<open>One comparator set as an interval\<close>

datatype cmp_op = Lt | Le | Gt | Ge | Eq

fun satisfies :: "cmp_op \<Rightarrow> version \<Rightarrow> version \<Rightarrow> bool" where
  "satisfies Lt c v = (v < c)"
| "satisfies Le c v = (v \<le> c)"
| "satisfies Gt c v = (v > c)"
| "satisfies Ge c v = (v \<ge> c)"
| "satisfies Eq c v = (v = c)"

record bound =
  bd_version :: version
  bd_inclusive :: bool

record version_range =
  vr_lower :: "bound option"
  vr_upper :: "bound option"
  vr_empty :: bool

definition vr_bounded :: "version_range \<Rightarrow> bool" where
  "vr_bounded r \<longleftrightarrow> vr_empty r \<or> (vr_lower r \<noteq> None \<and> vr_upper r \<noteq> None)"

definition above :: "bound option \<Rightarrow> version \<Rightarrow> bool" where
  "above lo v = (case lo of None \<Rightarrow> True
     | Some b \<Rightarrow> \<not> (v < bd_version b \<or> (v = bd_version b \<and> \<not> bd_inclusive b)))"

definition below :: "bound option \<Rightarrow> version \<Rightarrow> bool" where
  "below hi v = (case hi of None \<Rightarrow> True
     | Some b \<Rightarrow> \<not> (v > bd_version b \<or> (v = bd_version b \<and> \<not> bd_inclusive b)))"

definition vr_contains :: "version_range \<Rightarrow> version \<Rightarrow> bool" where
  "vr_contains r v \<longleftrightarrow> \<not> vr_empty r \<and> above (vr_lower r) v \<and> below (vr_upper r) v"

datatype version_error = NotAVersion string | NamesPrerelease string | CannotRead string | OpenRange

definition vr_majors :: "version_range \<Rightarrow> version_error + nat list" where
  "vr_majors r =
     (if vr_empty r then Inr []
      else case (vr_lower r, vr_upper r) of
        (Some lo, Some hi) \<Rightarrow>
          (let m = major (bd_version hi)
           in if \<not> bd_inclusive hi \<and> bd_version hi = Version m 0 0
              then Inr [major (bd_version lo)..<m]
              else Inr [major (bd_version lo)..<Suc m])
      | _ \<Rightarrow> Inl OpenRange)"

text \<open>The loop body of \<open>_intersect\<close>: the tighter bound wins on each side.\<close>

definition tighter_lower :: "bound option \<Rightarrow> bound \<Rightarrow> bound option" where
  "tighter_lower lo c = (case lo of None \<Rightarrow> Some c
     | Some b \<Rightarrow> if bd_version c > bd_version b \<or>
                    (bd_version c = bd_version b \<and> \<not> bd_inclusive c \<and> bd_inclusive b)
                 then Some c else Some b)"

definition tighter_upper :: "bound option \<Rightarrow> bound \<Rightarrow> bound option" where
  "tighter_upper hi c = (case hi of None \<Rightarrow> Some c
     | Some b \<Rightarrow> if bd_version c < bd_version b \<or>
                    (bd_version c = bd_version b \<and> \<not> bd_inclusive c \<and> bd_inclusive b)
                 then Some c else Some b)"

fun add_comparator :: "cmp_op \<times> version \<Rightarrow> bound option \<times> bound option \<Rightarrow> bound option \<times> bound option" where
  "add_comparator (op, v) (lo, hi) =
     (if op \<in> {Gt, Ge, Eq} then tighter_lower lo \<lparr>bd_version = v, bd_inclusive = (op \<noteq> Gt)\<rparr> else lo,
      if op \<in> {Lt, Le, Eq} then tighter_upper hi \<lparr>bd_version = v, bd_inclusive = (op \<noteq> Lt)\<rparr> else hi)"

fun interval_empty :: "bound option \<times> bound option \<Rightarrow> bool" where
  "interval_empty (Some lo, Some hi) =
     (let l = bd_version lo;
          least = (if bd_inclusive lo then l else Version (major l) (minor l) (Suc (patch l)))
      in least > bd_version hi \<or> (least = bd_version hi \<and> \<not> bd_inclusive hi))"
| "interval_empty _ = False"

definition intersect :: "(cmp_op \<times> version) list \<Rightarrow> version_range" where
  "intersect cs =
     (let (lo, hi) = fold add_comparator cs (None, None)
      in \<lparr>vr_lower = lo, vr_upper = hi, vr_empty = interval_empty (lo, hi)\<rparr>)"

lemma above_tighter: "above (tighter_lower lo c) v \<longleftrightarrow> above lo v \<and> above (Some c) v"
  by (cases lo) (auto simp: above_def tighter_lower_def)

lemma below_tighter: "below (tighter_upper hi c) v \<longleftrightarrow> below hi v \<and> below (Some c) v"
  by (cases hi) (auto simp: below_def tighter_upper_def)

definition in_interval :: "bound option \<times> bound option \<Rightarrow> version \<Rightarrow> bool" where
  "in_interval b v \<longleftrightarrow> above (fst b) v \<and> below (snd b) v"

lemma in_interval_add: "in_interval (add_comparator (op, c) b) v \<longleftrightarrow> in_interval b v \<and> satisfies op c v"
  by (cases b; cases op)
    (auto simp: in_interval_def above_tighter below_tighter, auto simp: above_def below_def)

lemma in_interval_fold:
  "in_interval (fold add_comparator cs b) v \<longleftrightarrow> in_interval b v \<and> (\<forall>(op, c)\<in>set cs. satisfies op c v)"
proof (induction cs arbitrary: b)
  case (Cons x cs)
  then show ?case by (cases x) (auto simp: in_interval_add simp del: add_comparator.simps)
qed simp

lemma successor_least: "v > l \<longleftrightarrow> v \<ge> Version (major l) (minor l) (Suc (patch l))"
  by (cases v; cases l) auto

lemma interval_empty_iff:
  "interval_empty (Some lo, Some hi) \<longleftrightarrow> (\<forall>v. \<not> in_interval (Some lo, Some hi) v)"
proof -
  define l where "l = bd_version lo"
  define least where "least = (if bd_inclusive lo then l else Version (major l) (minor l) (Suc (patch l)))"
  have lower: "above (Some lo) v \<longleftrightarrow> least \<le> v" for v
    using successor_least [of l v] by (auto simp: above_def least_def l_def)
  have "interval_empty (Some lo, Some hi) \<longleftrightarrow> \<not> below (Some hi) least"
    by (simp add: below_def least_def l_def Let_def)
  moreover have "below (Some hi) v \<Longrightarrow> least \<le> v \<Longrightarrow> below (Some hi) least" for v
    by (auto simp: below_def)
  ultimately show ?thesis by (auto simp: in_interval_def lower)
qed

lemma interval_empty_none: "interval_empty b \<Longrightarrow> \<not> in_interval b v"
  by (cases b rule: interval_empty.cases) (auto simp: interval_empty_iff simp del: interval_empty.simps(1))

lemma intersect_contains: "vr_contains (intersect cs) v \<longleftrightarrow> (\<forall>(op, c)\<in>set cs. satisfies op c v)"
proof -
  obtain b where b: "fold add_comparator cs (None, None) = b" by simp
  have "vr_contains (intersect cs) v \<longleftrightarrow> \<not> interval_empty b \<and> in_interval b v"
    by (cases b) (simp add: intersect_def b vr_contains_def in_interval_def)
  also have "\<dots> \<longleftrightarrow> in_interval b v" using interval_empty_none by blast
  also have "\<dots> \<longleftrightarrow> (\<forall>(op, c)\<in>set cs. satisfies op c v)"
    using in_interval_fold [of cs "(None, None)" v] by (simp add: b in_interval_def above_def below_def)
  finally show ?thesis .
qed

section \<open>Partial versions and the operators\<close>

text \<open>The numbers present; a wildcard or an absent part is \<open>None\<close>, and so is every later one.\<close>

type_synonym partial = "nat option \<times> nat option \<times> nat option"

definition or0 :: "nat option \<Rightarrow> nat" where
  "or0 p = (case p of None \<Rightarrow> 0 | Some n \<Rightarrow> n)"

text \<open>The operators as written; \<open>OpNone\<close> is a bare version.\<close>

datatype range_op = OpNone | OpEq | OpTilde | OpTildeGt | OpCaret | OpLt | OpLe | OpGt | OpGe

text \<open>\<open>None\<close> is a comparator that matches nothing.\<close>

fun desugar :: "range_op \<Rightarrow> partial \<Rightarrow> (cmp_op \<times> version) list option" where
  "desugar op (None, mi, pa) = (if op \<in> {OpLt, OpGt} then None else Some [])"
| "desugar op (Some ma, mi, pa) =
     (if op = OpTilde \<or> op = OpTildeGt then
        Some [(Ge, Version ma (or0 mi) (or0 pa)),
              (Lt, case mi of None \<Rightarrow> Version (Suc ma) 0 0 | Some n \<Rightarrow> Version ma (Suc n) 0)]
      else if op = OpCaret then
        Some [(Ge, Version ma (or0 mi) (or0 pa)),
              (Lt, if ma \<noteq> 0 \<or> mi = None then Version (Suc ma) 0 0
                   else if or0 mi \<noteq> 0 \<or> pa = None then Version 0 (Suc (or0 mi)) 0
                   else Version 0 0 (Suc (or0 pa)))]
      else if op = OpNone \<or> op = OpEq then
        (case mi of
           None \<Rightarrow> Some [(Ge, Version ma 0 0), (Lt, Version (Suc ma) 0 0)]
         | Some n \<Rightarrow>
             (case pa of
                None \<Rightarrow> Some [(Ge, Version ma n 0), (Lt, Version ma (Suc n) 0)]
              | Some p \<Rightarrow> Some [(Eq, Version ma n p)]))
      else if pa = None \<and> (op = OpGt \<or> op = OpLe) then
        Some [(if op = OpGt then Ge else Lt,
               case mi of None \<Rightarrow> Version (Suc ma) 0 0 | Some n \<Rightarrow> Version ma (Suc n) 0)]
      else Some [(if op = OpLt then Lt else if op = OpLe then Le else if op = OpGt then Gt else Ge,
                  Version ma (or0 mi) (or0 pa))])"

fun hyphen :: "partial \<Rightarrow> partial \<Rightarrow> (cmp_op \<times> version) list" where
  "hyphen (lma, lmi, lpa) (hma, hmi, hpa) =
     (case lma of None \<Rightarrow> [] | Some m \<Rightarrow> [(Ge, Version m (or0 lmi) (or0 lpa))]) @
     (case hma of None \<Rightarrow> []
      | Some m \<Rightarrow>
          (case hmi of
             None \<Rightarrow> [(Lt, Version (Suc m) 0 0)]
           | Some n \<Rightarrow>
               (case hpa of None \<Rightarrow> [(Lt, Version m (Suc n) 0)] | Some p \<Rightarrow> [(Le, Version m n p)])))"

text \<open>What the operators mean, without intervals: agreement with the numbers written.\<close>

definition partial_wf :: "partial \<Rightarrow> bool" where
  "partial_wf p = (case p of (ma, mi, pa) \<Rightarrow> (ma = None \<longrightarrow> mi = None) \<and> (mi = None \<longrightarrow> pa = None))"

definition agrees :: "nat option \<Rightarrow> nat \<Rightarrow> bool" where
  "agrees p n = (case p of None \<Rightarrow> True | Some m \<Rightarrow> n = m)"

fun covers :: "partial \<Rightarrow> version \<Rightarrow> bool" where
  "covers (ma, mi, pa) v \<longleftrightarrow> agrees ma (major v) \<and> agrees mi (minor v) \<and> agrees pa (patch v)"

fun floor_of :: "partial \<Rightarrow> version" where
  "floor_of (ma, mi, pa) = Version (or0 ma) (or0 mi) (or0 pa)"

text \<open>The part of a caret version up to its first number that is not zero.\<close>

fun caret_prefix :: "partial \<Rightarrow> partial" where
  "caret_prefix (Some ma, Some mi, Some pa) =
     (if ma \<noteq> 0 then (Some ma, None, None)
      else if mi \<noteq> 0 then (Some ma, Some mi, None) else (Some ma, Some mi, Some pa))"
| "caret_prefix (Some ma, Some mi, None) =
     (if ma \<noteq> 0 then (Some ma, None, None) else (Some ma, Some mi, None))"
| "caret_prefix (ma, mi, pa) = (ma, None, None)"

fun op_meaning :: "range_op \<Rightarrow> partial \<Rightarrow> version \<Rightarrow> bool" where
  "op_meaning OpNone p v = covers p v"
| "op_meaning OpEq p v = covers p v"
| "op_meaning OpTilde p v = (v \<ge> floor_of p \<and> covers (fst p, fst (snd p), None) v)"
| "op_meaning OpTildeGt p v = (v \<ge> floor_of p \<and> covers (fst p, fst (snd p), None) v)"
| "op_meaning OpCaret p v = (v \<ge> floor_of p \<and> covers (caret_prefix p) v)"
| "op_meaning OpLt p v = (fst p \<noteq> None \<and> v < floor_of p)"
| "op_meaning OpLe p v = (v < floor_of p \<or> covers p v)"
| "op_meaning OpGt p v = (v > floor_of p \<and> \<not> covers p v)"
| "op_meaning OpGe p v = (v \<ge> floor_of p)"

definition expands_to :: "(cmp_op \<times> version) list option \<Rightarrow> version \<Rightarrow> bool" where
  "expands_to cs v = (case cs of None \<Rightarrow> False | Some cs \<Rightarrow> (\<forall>(op, c)\<in>set cs. satisfies op c v))"

lemma desugar_meaning_lemma:
  assumes "partial_wf (ma, mi, pa)"
  shows "expands_to (desugar op (ma, mi, pa)) v \<longleftrightarrow> op_meaning op (ma, mi, pa) v"
proof -
  obtain a b c where v: "v = Version a b c" by (cases v)
  consider "ma = None" "mi = None" "pa = None"
    | m where "ma = Some m" "mi = None" "pa = None"
    | m n where "ma = Some m" "mi = Some n" "pa = None"
    | m n p where "ma = Some m" "mi = Some n" "pa = Some p"
    using assms by (cases ma; cases mi; cases pa) (auto simp: partial_wf_def)
  then show ?thesis
    by cases (cases op; auto simp: v expands_to_def agrees_def or0_def)+
qed

section \<open>The major versions a range covers\<close>

lemma least_above:
  assumes "least = (if bd_inclusive lo then bd_version lo
    else Version (major (bd_version lo)) (minor (bd_version lo)) (Suc (patch (bd_version lo))))"
  shows "above (Some lo) v \<longleftrightarrow> least \<le> v" and "major least = major (bd_version lo)"
  using successor_least [of "bd_version lo" v] assms by (auto simp: above_def)

lemma major_mono: "a \<le> b \<Longrightarrow> major a \<le> major (b::version)"
  by (cases a; cases b) auto

lemma majors_of_bounds:
  assumes ne: "\<not> interval_empty (Some lo, Some hi)"
  defines "M \<equiv> major (bd_version hi)"
  defines "stop \<equiv> (if \<not> bd_inclusive hi \<and> bd_version hi = Version M 0 0 then M else Suc M)"
  shows "major (bd_version lo) \<le> m \<and> m < stop \<longleftrightarrow>
    (\<exists>v. major v = m \<and> in_interval (Some lo, Some hi) v)"
proof -
  define least where "least = (if bd_inclusive lo then bd_version lo
    else Version (major (bd_version lo)) (minor (bd_version lo)) (Suc (patch (bd_version lo))))"
  have lower: "above (Some lo) v \<longleftrightarrow> least \<le> v" for v
    using least_above(1) [OF least_def] .
  have least_major: "major least = major (bd_version lo)"
    using least_above(2) [OF least_def] .
  obtain w where w: "in_interval (Some lo, Some hi) w"
    using ne by (auto simp: interval_empty_iff simp del: interval_empty.simps)
  then have least_in: "below (Some hi) least"
    by (auto simp: in_interval_def lower) (auto simp: below_def)
  show ?thesis
  proof
    assume m: "major (bd_version lo) \<le> m \<and> m < stop"
    show "\<exists>v. major v = m \<and> in_interval (Some lo, Some hi) v"
    proof (cases "m = major (bd_version lo)")
      case True
      then show ?thesis
        using least_in least_major by (intro exI [of _ least]) (auto simp: in_interval_def lower)
    next
      case False
      with m have "least \<le> Version m 0 0"
        using least_major by (cases least) auto
      moreover have "below (Some hi) (Version m 0 0)"
        using m unfolding stop_def M_def
        by (cases "bd_version hi") (auto simp: below_def split: if_splits)
      ultimately show ?thesis
        by (intro exI [of _ "Version m 0 0"]) (auto simp: in_interval_def lower)
    qed
  next
    assume "\<exists>v. major v = m \<and> in_interval (Some lo, Some hi) v"
    then obtain v where v: "major v = m" "least \<le> v" "below (Some hi) v"
      by (auto simp: in_interval_def lower)
    then have "major (bd_version lo) \<le> m" using major_mono [of least v] least_major by simp
    moreover have "m < stop"
      using v(1,3) unfolding stop_def M_def
      by (cases v; cases "bd_version hi") (auto simp: below_def)
    ultimately show "major (bd_version lo) \<le> m \<and> m < stop" by simp
  qed
qed

lemma vr_contains_interval:
  "vr_empty r = interval_empty (vr_lower r, vr_upper r) \<Longrightarrow>
     vr_contains r v \<longleftrightarrow> in_interval (vr_lower r, vr_upper r) v"
  using interval_empty_none [of "(vr_lower r, vr_upper r)" v]
  by (auto simp: vr_contains_def in_interval_def)

lemma intersect_empty_flag:
  "vr_empty (intersect cs) = interval_empty (vr_lower (intersect cs), vr_upper (intersect cs))"
  by (simp add: intersect_def split: prod.splits)

lemma intersect_majors:
  assumes "vr_majors (intersect cs) = Inr ms"
  shows "m \<in> set ms \<longleftrightarrow> (\<exists>v. major v = m \<and> vr_contains (intersect cs) v)"
proof -
  define r where "r = intersect cs"
  have flag: "vr_empty r = interval_empty (vr_lower r, vr_upper r)"
    by (simp add: r_def intersect_empty_flag)
  have ms: "vr_majors r = Inr ms" using assms by (simp add: r_def)
  show ?thesis
  proof (cases "vr_empty r")
    case True
    with ms show ?thesis by (simp add: vr_majors_def r_def vr_contains_def)
  next
    case False
    with ms obtain lo hi where b: "vr_lower r = Some lo" "vr_upper r = Some hi"
      by (auto simp: vr_majors_def split: option.splits)
    have "m \<in> set ms \<longleftrightarrow> major (bd_version lo) \<le> m \<and>
        m < (if \<not> bd_inclusive hi \<and> bd_version hi = Version (major (bd_version hi)) 0 0
             then major (bd_version hi) else Suc (major (bd_version hi)))"
      using ms False b by (auto simp: vr_majors_def Let_def split: if_splits)
    also have "\<dots> \<longleftrightarrow> (\<exists>v. major v = m \<and> in_interval (Some lo, Some hi) v)"
      using False flag b majors_of_bounds [of lo hi m] by simp
    also have "\<dots> \<longleftrightarrow> (\<exists>v. major v = m \<and> vr_contains r v)"
      using vr_contains_interval [OF flag] b by simp
    finally show ?thesis by (simp add: r_def)
  qed
qed

lemma vr_majors_sorted: "vr_majors r = Inr ms \<Longrightarrow> sorted ms \<and> distinct ms"
  by (auto simp: vr_majors_def Let_def simp del: upt_Suc split: if_splits option.splits)

section \<open>The concrete syntax\<close>

definition is_wild :: "char \<Rightarrow> bool" where
  "is_wild c \<longleftrightarrow> c \<in> {CHR ''x'', CHR ''X'', CHR ''*''}"

definition is_tag_char :: "char \<Rightarrow> bool" where
  "is_tag_char c \<longleftrightarrow> is_digit c \<or> (CHR ''A'' \<le> c \<and> c \<le> CHR ''Z'') \<or> (CHR ''a'' \<le> c \<and> c \<le> CHR ''z'') \<or>
     c \<in> {CHR ''.'', CHR ''-''}"

fun int_of_digits :: "string \<Rightarrow> nat \<Rightarrow> nat" where
  "int_of_digits [] n = n"
| "int_of_digits (c # cs) n = int_of_digits cs (10 * n + ((of_char c :: nat) - 48))"

text \<open>\<open>_OBSERVED_RE\<close>: white space, an optional \<open>v\<close>, one to three dotted numbers, anything after.\<close>

definition drop_v :: "string \<Rightarrow> string" where
  "drop_v cs = (if cs \<noteq> [] \<and> hd cs = CHR ''v'' then tl cs else cs)"

definition dotted_number :: "string \<Rightarrow> (nat \<times> string) option" where
  "dotted_number cs =
     (if cs \<noteq> [] \<and> hd cs = CHR ''.'' \<and> takeWhile is_digit (tl cs) \<noteq> []
      then Some (int_of_digits (takeWhile is_digit (tl cs)) 0, dropWhile is_digit (tl cs)) else None)"

definition version_parse :: "string \<Rightarrow> version_error + version" where
  "version_parse text =
     (let cs = drop_v (dropWhile is_blank text)
      in if takeWhile is_digit cs = [] then Inl (NotAVersion text)
         else let ma = int_of_digits (takeWhile is_digit cs) 0; r1 = dropWhile is_digit cs
              in case dotted_number r1 of
                   None \<Rightarrow> Inr (Version ma 0 0)
                 | Some (mi, r2) \<Rightarrow>
                     (case dotted_number r2 of
                        None \<Rightarrow> Inr (Version ma mi 0)
                      | Some (pa, _) \<Rightarrow> Inr (Version ma mi pa)))"

text \<open>
  \<open>_XVERSION\<close>: up to three dotted parts, each a number without leading zeros or a wildcard,
  then an optional prerelease and optional build metadata.
\<close>

definition part_ok :: "string \<Rightarrow> bool" where
  "part_ok p \<longleftrightarrow> p = ''0'' \<or> (\<exists>c\<in>set (take 1 p). is_wild c \<and> length p = 1) \<or>
     (p \<noteq> [] \<and> list_all is_digit p \<and> hd p \<noteq> CHR ''0'')"

definition part_value :: "string \<Rightarrow> nat option" where
  "part_value p = (if list_all is_digit p then Some (int_of_digits p 0) else None)"

fun split_on :: "char \<Rightarrow> string \<Rightarrow> string list" where
  "split_on c [] = [[]]"
| "split_on c (x # xs) =
     (case split_on c xs of
        [] \<Rightarrow> [[x]]
      | w # ws \<Rightarrow> (if x = c then [] # w # ws else (x # w) # ws))"

text \<open>The parts, and the prerelease when there is one; \<open>None\<close> when the text is no version.\<close>

definition read_xversion :: "string \<Rightarrow> (string list \<times> string option) option" where
  "read_xversion text =
     (let cs = drop_v text;
          core = takeWhile (\<lambda>c. c \<noteq> CHR ''-'' \<and> c \<noteq> CHR ''+'') cs;
          rest = dropWhile (\<lambda>c. c \<noteq> CHR ''-'' \<and> c \<noteq> CHR ''+'') cs;
          parts = split_on (CHR ''.'') core;
          pre = (if rest \<noteq> [] \<and> hd rest = CHR ''-'' then Some (takeWhile (\<lambda>c. c \<noteq> CHR ''+'') (tl rest)) else None);
          after = dropWhile (\<lambda>c. c \<noteq> CHR ''+'') rest;
          tag_ok = (\<lambda>t. t \<noteq> [] \<and> list_all is_tag_char t)
      in if length parts \<le> 3 \<and> list_all part_ok parts \<and>
            (case pre of None \<Rightarrow> True | Some p \<Rightarrow> tag_ok p) \<and> (after = [] \<or> tag_ok (tl after))
         then Some (parts, pre) else None)"

text \<open>\<open>_partial\<close>: npm reads every component after a wildcard as a wildcard too.\<close>

fun wild_after :: "string list \<Rightarrow> nat option list" where
  "wild_after [] = []"
| "wild_after (p # ps) =
     (case part_value p of
        None \<Rightarrow> map (\<lambda>_. None) (p # ps)
      | Some n \<Rightarrow> Some n # wild_after ps)"

fun first3 :: "nat option list \<Rightarrow> partial" where
  "first3 [] = (None, None, None)"
| "first3 [a] = (a, None, None)"
| "first3 [a, b] = (a, b, None)"
| "first3 (a # b # c # ns) = (a, b, c)"

definition to_partial :: "string list \<times> string option \<Rightarrow> version_error + partial" where
  "to_partial m =
     (case snd m of
        Some pre \<Rightarrow> Inl (NamesPrerelease pre)
      | None \<Rightarrow> Inr (first3 (wild_after (fst m))))"

definition op_chars :: "char set" where
  "op_chars = {CHR ''~'', CHR ''^'', CHR ''<'', CHR ''>'', CHR ''=''}"

fun read_op :: "string \<Rightarrow> range_op \<times> string" where
  "read_op [] = (OpNone, [])"
| "read_op (c # cs) =
     (let d = (if cs = [] then c else hd cs)
      in if c = CHR ''~'' then (if d = CHR ''>'' then (OpTildeGt, tl cs) else (OpTilde, cs))
         else if c = CHR ''^'' then (OpCaret, cs)
         else if c = CHR ''<'' then (if cs \<noteq> [] \<and> d = CHR ''='' then (OpLe, tl cs) else (OpLt, cs))
         else if c = CHR ''>'' then (if cs \<noteq> [] \<and> d = CHR ''='' then (OpGe, tl cs) else (OpGt, cs))
         else if c = CHR ''='' then (OpEq, cs)
         else (OpNone, c # cs))"

text \<open>\<open>str.split()\<close>, and the joining of an operator with the version after it.\<close>

fun words_of :: "string \<Rightarrow> string list" where
  "words_of [] = []"
| "words_of (c # cs) =
     (if is_blank c then words_of cs
      else (case cs of
              [] \<Rightarrow> [[c]]
            | d # _ \<Rightarrow> (if is_blank d then [c] # words_of cs
                       else case words_of cs of [] \<Rightarrow> [[c]] | w # ws \<Rightarrow> (c # w) # ws)))"

fun join_ops :: "string \<Rightarrow> string list \<Rightarrow> string list" where
  "join_ops w [] = [w]"
| "join_ops w (w' # ws) =
     (if w \<noteq> [] \<and> last w \<in> op_chars then join_ops (w @ w') ws else w # join_ops w' ws)"

definition comparator_tokens :: "string list \<Rightarrow> string list" where
  "comparator_tokens ws = (case ws of [] \<Rightarrow> [] | w # ws' \<Rightarrow> join_ops w ws')"

text \<open>The comparator loop: \<open>None\<close> inside \<open>Inr\<close> is a comparator that matches nothing.\<close>

fun read_comparators :: "string list \<Rightarrow> version_error + (cmp_op \<times> version) list option" where
  "read_comparators [] = Inr (Some [])"
| "read_comparators (tok # toks) =
     (let (op, rest) = read_op tok
      in case read_xversion rest of
           None \<Rightarrow> Inl (CannotRead tok)
         | Some m \<Rightarrow>
             and_then (to_partial m) (\<lambda>p.
               (case desugar op p of
                  None \<Rightarrow> Inr None
                | Some cs \<Rightarrow>
                    and_then (read_comparators toks) (\<lambda>r. Inr (map_option (\<lambda>ds. cs @ ds) r)))))"

definition hyphen_ends :: "string list
    \<Rightarrow> ((string list \<times> string option) \<times> (string list \<times> string option)) option" where
  "hyphen_ends ws =
     (case ws of
        [l, h, r] \<Rightarrow>
          (if h = ''-'' then
             (case (read_xversion l, read_xversion r) of
                (Some a, Some b) \<Rightarrow> Some (a, b) | _ \<Rightarrow> None)
           else None)
      | _ \<Rightarrow> None)"

definition parse_set :: "string \<Rightarrow> version_error + version_range" where
  "parse_set part =
     (let ws = words_of part
      in case hyphen_ends ws of
           Some (a, b) \<Rightarrow>
             and_then (to_partial a) (\<lambda>lo. and_then (to_partial b) (\<lambda>hi. Inr (intersect (hyphen lo hi))))
         | None \<Rightarrow>
             and_then (read_comparators (comparator_tokens ws)) (\<lambda>r.
               Inr (case r of
                      None \<Rightarrow> \<lparr>vr_lower = None, vr_upper = None, vr_empty = True\<rparr>
                    | Some cs \<Rightarrow> intersect cs)))"

text \<open>\<open>text.split("||")\<close>.\<close>

fun split_bars :: "string \<Rightarrow> string list" where
  "split_bars [] = [[]]"
| "split_bars [c] = [[c]]"
| "split_bars (c # d # cs) =
     (if c = CHR ''|'' \<and> d = CHR ''|'' then [] # split_bars cs
      else (case split_bars (d # cs) of [] \<Rightarrow> [[c]] | w # ws \<Rightarrow> (c # w) # ws))"

record version_spec =
  vs_text :: string
  vs_alternatives :: "version_range list"

definition spec_parse :: "string \<Rightarrow> version_error + version_spec" where
  "spec_parse text =
     and_then (each parse_set (split_bars text))
       (\<lambda>alts. Inr \<lparr>vs_text = text, vs_alternatives = alts\<rparr>)"

definition spec_contains :: "version_spec \<Rightarrow> version \<Rightarrow> bool" where
  "spec_contains s v \<longleftrightarrow> (\<exists>alt\<in>set (vs_alternatives s). vr_contains alt v)"

definition spec_bounded :: "version_spec \<Rightarrow> bool" where
  "spec_bounded s \<longleftrightarrow> (\<forall>alt\<in>set (vs_alternatives s). vr_bounded alt)"

definition spec_majors :: "version_spec \<Rightarrow> nat list" where
  "spec_majors s =
     sort (remdups (concat (map (\<lambda>alt. case vr_majors alt of Inl _ \<Rightarrow> [] | Inr ms \<Rightarrow> ms)
       [alt \<leftarrow> vs_alternatives s. vr_bounded alt])))"

section \<open>Reading preserves the operators' meaning\<close>

definition token_meaning :: "string \<Rightarrow> version \<Rightarrow> bool" where
  "token_meaning tok v =
     (let (op, rest) = read_op tok
      in case read_xversion rest of
           None \<Rightarrow> False
         | Some m \<Rightarrow> (case to_partial m of Inl _ \<Rightarrow> False | Inr p \<Rightarrow> op_meaning op p v))"

lemma to_partial_wf: "to_partial m = Inr p \<Longrightarrow> partial_wf p"
proof -
  have "partial_wf (first3 (wild_after ps))" for ps
    by (cases ps; cases "tl ps"; cases "tl (tl ps)") (auto simp: partial_wf_def split: option.splits)
  moreover assume "to_partial m = Inr p"
  ultimately show ?thesis by (auto simp: to_partial_def split: option.splits)
qed

lemma desugar_meaning: "partial_wf p \<Longrightarrow> expands_to (desugar op p) v \<longleftrightarrow> op_meaning op p v"
  by (cases p) (simp add: desugar_meaning_lemma)

lemma expands_to_append:
  "expands_to (map_option (\<lambda>ds. cs @ ds) r) v \<longleftrightarrow> expands_to (Some cs) v \<and> expands_to r v"
  by (cases r) (auto simp: expands_to_def)

lemma read_comparators_meaning:
  "read_comparators toks = Inr r \<Longrightarrow> expands_to r v \<longleftrightarrow> (\<forall>tok\<in>set toks. token_meaning tok v)"
proof (induction toks arbitrary: r)
  case Nil
  then show ?case by (auto simp: expands_to_def)
next
  case (Cons tok toks)
  obtain op rest where op: "read_op tok = (op, rest)" by fastforce
  with Cons.prems obtain m where m: "read_xversion rest = Some m" by (auto split: option.splits)
  with op Cons.prems obtain p where p: "to_partial m = Inr p" by (auto simp: result_simps)
  have tok: "token_meaning tok v \<longleftrightarrow> expands_to (desugar op p) v"
    using desugar_meaning [OF to_partial_wf [OF p]] by (simp add: token_meaning_def op m p)
  show ?case
  proof (cases "desugar op p")
    case None
    with Cons.prems op m p tok show ?thesis by (auto simp: expands_to_def)
  next
    case (Some cs)
    with Cons.prems op m p obtain r' where r': "read_comparators toks = Inr r'"
      "r = map_option (\<lambda>ds. cs @ ds) r'" by (auto simp: result_simps)
    from Cons.IH [OF r'(1)] Some tok show ?thesis by (simp add: r'(2) expands_to_append)
  qed
qed

lemma hyphen_meaning:
  assumes "partial_wf lo" "partial_wf hi"
  shows "(\<forall>(op, c)\<in>set (hyphen lo hi). satisfies op c v) \<longleftrightarrow>
    v \<ge> floor_of lo \<and> (v < floor_of hi \<or> covers hi v)"
proof -
  obtain a b c where v: "v = Version a b c" by (cases v)
  obtain lma lmi lpa hma hmi hpa where p: "lo = (lma, lmi, lpa)" "hi = (hma, hmi, hpa)"
    by (metis prod_cases3)
  have lower: "(\<forall>(op, c)\<in>set (case lma of None \<Rightarrow> [] | Some m \<Rightarrow> [(Ge, Version m (or0 lmi) (or0 lpa))]).
      satisfies op c v) \<longleftrightarrow> v \<ge> floor_of lo"
    using assms(1) by (auto simp: p v partial_wf_def or0_def split: option.splits)
  have upper: "(\<forall>(op, c)\<in>set (case hma of None \<Rightarrow> [] | Some m \<Rightarrow>
      (case hmi of None \<Rightarrow> [(Lt, Version (Suc m) 0 0)] | Some n \<Rightarrow>
        (case hpa of None \<Rightarrow> [(Lt, Version m (Suc n) 0)] | Some p \<Rightarrow> [(Le, Version m n p)]))).
      satisfies op c v) \<longleftrightarrow> v < floor_of hi \<or> covers hi v"
    using assms(2) by (auto simp: p v partial_wf_def or0_def agrees_def split: option.splits)
  show ?thesis
    unfolding lower [symmetric] upper [symmetric] by (simp add: p ball_Un)
qed

text \<open>What one comparator set admits: a hyphen range, or every comparator.\<close>

definition set_meaning :: "string \<Rightarrow> version \<Rightarrow> bool" where
  "set_meaning part v =
     (case hyphen_ends (words_of part) of
        Some (a, b) \<Rightarrow>
          (case (to_partial a, to_partial b) of
             (Inr lo, Inr hi) \<Rightarrow> v \<ge> floor_of lo \<and> (v < floor_of hi \<or> covers hi v)
           | _ \<Rightarrow> False)
      | None \<Rightarrow> (\<forall>tok\<in>set (comparator_tokens (words_of part)). token_meaning tok v))"

lemma parse_set_meaning:
  assumes "parse_set part = Inr r"
  shows "vr_contains r v \<longleftrightarrow> set_meaning part v"
proof (cases "hyphen_ends (words_of part)")
  case None
  with assms obtain c where c: "read_comparators (comparator_tokens (words_of part)) = Inr c"
    and r: "r = (case c of None \<Rightarrow> \<lparr>vr_lower = None, vr_upper = None, vr_empty = True\<rparr> | Some cs \<Rightarrow> intersect cs)"
    by (auto simp: parse_set_def result_simps)
  have "vr_contains r v \<longleftrightarrow> expands_to c v"
    by (cases c) (simp_all add: r expands_to_def intersect_contains, simp add: vr_contains_def)
  with read_comparators_meaning [OF c] None show ?thesis by (simp add: set_meaning_def)
next
  case (Some ab)
  obtain a b where ab: "ab = (a, b)" by (cases ab)
  with Some assms obtain lo hi where lo: "to_partial a = Inr lo" and hi: "to_partial b = Inr hi"
    and r: "r = intersect (hyphen lo hi)"
    by (auto simp: parse_set_def result_simps)
  show ?thesis
    using hyphen_meaning [OF to_partial_wf [OF lo] to_partial_wf [OF hi], of v] Some ab lo hi
    by (simp add: set_meaning_def r intersect_contains)
qed

lemma parse_set_majors:
  assumes "parse_set part = Inr r" "vr_majors r = Inr ms"
  shows "m \<in> set ms \<longleftrightarrow> (\<exists>v. major v = m \<and> vr_contains r v)"
proof (cases "vr_empty r \<and> vr_lower r = None")
  case True
  with assms(2) show ?thesis by (auto simp: vr_majors_def vr_contains_def)
next
  case False
  with assms(1) obtain cs where "r = intersect cs"
    by (auto simp: parse_set_def Let_def result_simps simp del: hyphen.simps split: option.splits)
  with intersect_majors assms(2) show ?thesis by blast
qed

lemma each_Inr_set: "each f xs = Inr ys \<Longrightarrow> set ys = {y. \<exists>x\<in>set xs. f x = Inr y}"
  by (induction xs arbitrary: ys) (auto simp: result_simps)

lemma vr_majors_bounded: "vr_bounded r \<Longrightarrow> \<exists>ms. vr_majors r = Inr ms"
  by (auto simp: vr_bounded_def vr_majors_def Let_def)

section \<open>Properties\<close>

text \<open>C14: A range that parses admits a version exactly when one of its alternatives does, and an
  alternative admits exactly what npm's grammar says of its comparators (tilde, caret, wildcards,
  partial versions and hyphen ranges), read without intervals; no version is lost by the tighter
  bounds kept or by the emptiness test.\<close>
theorem range_means_what_it_says:
  assumes "spec_parse text = Inr s"
  shows "spec_contains s v \<longleftrightarrow> (\<exists>part\<in>set (split_bars text). set_meaning part v)"
proof -
  obtain alts where alts: "each parse_set (split_bars text) = Inr alts" and s: "vs_alternatives s = alts"
    using assms by (auto simp: spec_parse_def result_simps)
  have total: "\<exists>r. parse_set part = Inr r" if "part \<in> set (split_bars text)" for part
    using each_Inr_nth [OF alts] that by (metis in_set_conv_nth)
  show ?thesis
    unfolding spec_contains_def s each_Inr_set [OF alts] using parse_set_meaning total by blast
qed

theorem range_means_what_it_says_witness:
  "\<exists>s. spec_parse ''>=17 || ~16.4'' = Inr s \<and> spec_contains s (Version 16 4 1) \<and> \<not> spec_contains s (Version 16 5 0)"
proof -
  obtain s where s: "spec_parse ''>=17 || ~16.4'' = Inr s"
    by (cases "spec_parse ''>=17 || ~16.4''") (code_simp, simp)
  have "(\<exists>part\<in>set (split_bars ''>=17 || ~16.4''). set_meaning part (Version 16 4 1)) \<and>
     \<not> (\<exists>part\<in>set (split_bars ''>=17 || ~16.4''). set_meaning part (Version 16 5 0))"
    by code_simp
  then show ?thesis using range_means_what_it_says [OF s] s by metis
qed

text \<open>The major versions a range forms runs for are exactly those a bounded alternative admits
  some version of, listed once each in ascending order.\<close>
theorem range_majors_exact:
  assumes "spec_parse text = Inr s"
  shows "sorted (spec_majors s) \<and> distinct (spec_majors s) \<and>
    (m \<in> set (spec_majors s) \<longleftrightarrow>
      (\<exists>alt\<in>set (vs_alternatives s). vr_bounded alt \<and> (\<exists>v. major v = m \<and> vr_contains alt v)))"
proof -
  obtain alts where alts: "each parse_set (split_bars text) = Inr alts" and s: "vs_alternatives s = alts"
    using assms by (auto simp: spec_parse_def result_simps)
  have one: "m \<in> set (case vr_majors alt of Inl _ \<Rightarrow> [] | Inr ms \<Rightarrow> ms) \<longleftrightarrow>
      (\<exists>v. major v = m \<and> vr_contains alt v)" if alt: "alt \<in> set alts" "vr_bounded alt" for alt
  proof -
    obtain part where part: "parse_set part = Inr alt" using alt(1) each_Inr_set [OF alts] by blast
    obtain ms where ms: "vr_majors alt = Inr ms" using vr_majors_bounded [OF alt(2)] by blast
    show ?thesis using parse_set_majors [OF part ms, of m] by (simp add: ms)
  qed
  have "m \<in> set (spec_majors s) \<longleftrightarrow>
      (\<exists>alt\<in>set alts. vr_bounded alt \<and> m \<in> set (case vr_majors alt of Inl _ \<Rightarrow> [] | Inr ms \<Rightarrow> ms))"
    unfolding spec_majors_def s by auto
  also have "\<dots> \<longleftrightarrow> (\<exists>alt\<in>set alts. vr_bounded alt \<and> (\<exists>v. major v = m \<and> vr_contains alt v))"
    using one by blast
  finally show ?thesis by (simp add: spec_majors_def s)
qed

theorem range_majors_exact_witness:
  "\<exists>s. spec_parse ''^17 || <=3'' = Inr s \<and> spec_majors s = [17] \<and> sorted (spec_majors s)"
proof -
  obtain s where s: "spec_parse ''^17 || <=3'' = Inr s"
    by (cases "spec_parse ''^17 || <=3''") (code_simp, simp)
  have "map_sum id spec_majors (spec_parse ''^17 || <=3'') = (Inr [17] :: version_error + nat list)"
    by code_simp
  then have "spec_majors s = [17]" by (simp add: s)
  then show ?thesis using range_majors_exact [OF s] s by blast
qed

end
