(* ===== verification/Device_Runs.thy ===== *)
theory Device_Runs
  imports Versions "HOL-Library.Multiset"
begin

text \<open>
  A scenario's runs from its \<open>runsOn\<close> conditions, and the devices each run takes
  (\<open>src/bajutsu/common/devices/runs.py\<close>).  A device carries its release already parsed
  (\<open>df_version\<close>): a release that does not parse raises in the code and is outside the model.
  A run's reason is kept as data (which condition, which devices were seen), not as message text.
\<close>

section \<open>Devices, conditions and target runs\<close>

record device_facts =
  df_udid :: string
  df_platform :: string
  df_model :: string
  df_version :: version
  df_avd :: "string option"
  df_family :: "string option"
  df_physical :: bool

datatype cond = OneC string | ManyC "string list"
type_synonym conditions = "(string, cond) dict"

datatype outcome = Run | Failed | NotApplicable

datatype run_reason =
    NoReason
  | KindMissing string string "device_facts list"
  | ModelMissing string string string "device_facts list"
  | FamilyMiss string "string option" "string list" "device_facts list"
  | VersionMissing string string version_spec "device_facts list"
  | BrowserVersion version_spec device_facts

record target_run =
  tr_target :: string
  tr_platform :: string
  tr_model :: "string option"
  tr_spec :: "version_spec option"
  tr_major :: "nat option"
  tr_engine :: "string option"
  tr_kind :: "string option"
  tr_family :: "string option"
  tr_coordinates :: "(string \<times> string) list"
  tr_outcome :: outcome
  tr_reason :: run_reason
  tr_conditioned :: bool

definition target_run0 :: "string \<Rightarrow> string \<Rightarrow> target_run" where
  "target_run0 target platform =
     \<lparr>tr_target = target, tr_platform = platform, tr_model = None, tr_spec = None, tr_major = None,
      tr_engine = None, tr_kind = None, tr_family = None, tr_coordinates = [], tr_outcome = Run,
      tr_reason = NoReason, tr_conditioned = False\<rparr>"

definition model_field :: "string \<Rightarrow> string option" where
  "model_field p = (if p = ''ios'' then Some ''model'' else if p = ''android'' then Some ''avd'' else None)"

definition version_field :: "string \<Rightarrow> string option" where
  "version_field p = (if p = ''ios'' then Some ''os'' else if p = ''android'' then Some ''apiLevel'' else None)"

definition major_label :: "string \<Rightarrow> nat \<Rightarrow> string" where
  "major_label platform m = (if platform = ''ios'' then ''iOS '' else ''API '') @ show_nat m"

definition run_label :: "target_run \<Rightarrow> string" where
  "run_label r = join '' / '' (map snd (tr_coordinates r))"

type_synonym run_key =
  "string \<times> string option \<times> string option \<times> nat option \<times> string option \<times> string option \<times> string option"

definition run_key_of :: "target_run \<Rightarrow> run_key" where
  "run_key_of r =
     (tr_platform r, tr_model r, map_option vs_text (tr_spec r), tr_major r, tr_engine r, tr_kind r, tr_family r)"

section \<open>Which devices a condition admits\<close>

definition matches_model :: "device_facts \<Rightarrow> string option \<Rightarrow> bool" where
  "matches_model d m =
     (case m of None \<Rightarrow> True
      | Some m \<Rightarrow> if df_platform d = ''android'' then df_avd d = Some m else df_model d = m)"

definition matches_kind :: "device_facts \<Rightarrow> string option \<Rightarrow> bool" where
  "matches_kind d k = (case k of None \<Rightarrow> True | Some k \<Rightarrow> df_physical d = (k = ''device''))"

definition matches_family :: "device_facts \<Rightarrow> string option \<Rightarrow> bool" where
  "matches_family d f =
     (case f of None \<Rightarrow> True
      | Some f \<Rightarrow> map lower_char (case df_family d of None \<Rightarrow> [] | Some g \<Rightarrow> g) = f)"

definition in_run :: "device_facts \<Rightarrow> version_spec option \<Rightarrow> nat option \<Rightarrow> bool" where
  "in_run d spec m =
     (case spec of None \<Rightarrow> True
      | Some s \<Rightarrow> spec_contains s (df_version d) \<and>
          (case m of None \<Rightarrow> True | Some m \<Rightarrow> major (df_version d) = m))"

definition families_of :: "conditions \<Rightarrow> string list" where
  "families_of c = (case dict_get c ''family'' of None \<Rightarrow> [] | Some (OneC f) \<Rightarrow> [f] | Some (ManyC fs) \<Rightarrow> fs)"

definition listed :: "cond option \<Rightarrow> string option list \<times> bool" where
  "listed c = (case c of None \<Rightarrow> ([None], False) | Some (OneC v) \<Rightarrow> ([Some v], False)
     | Some (ManyC vs) \<Rightarrow> (map Some vs, True))"

text \<open>\<open>conditions.get(field) or fallback\<close>: an absent or empty condition falls back.\<close>

definition cond_or :: "cond option \<Rightarrow> string option \<Rightarrow> cond option" where
  "cond_or c fallback =
     (if c = None \<or> c = Some (OneC []) \<or> c = Some (ManyC []) then map_option OneC fallback else c)"

definition spec_condition :: "conditions \<Rightarrow> string \<Rightarrow> version_error + version_spec option" where
  "spec_condition c field =
     (case dict_get c field of
        Some (OneC s) \<Rightarrow> and_then (spec_parse s) (\<lambda>v. Inr (Some v))
      | _ \<Rightarrow> Inr None)"

section \<open>The runs one target makes\<close>

definition version_runs :: "target_run \<Rightarrow> (string \<times> string) list \<Rightarrow> version_spec \<Rightarrow> device_facts list
    \<Rightarrow> string \<Rightarrow> target_run list" where
  "version_runs base coords spec cands field =
     (let opens = [alt \<leftarrow> vs_alternatives spec. \<not> vr_bounded alt];
          in_open = [d \<leftarrow> cands. \<exists>alt\<in>set opens. vr_contains alt (df_version d)];
          majors = sort (remdups (spec_majors spec @ map (\<lambda>d. major (df_version d)) in_open));
          runs = map (\<lambda>m. base\<lparr>tr_major := Some m,
                   tr_coordinates := coords @ [(field, major_label (tr_platform base) m)]\<rparr>) majors
      in if opens \<noteq> [] \<and> in_open = []
         then runs @ [base\<lparr>tr_major := None, tr_coordinates := coords, tr_outcome := NotApplicable,
                tr_reason := VersionMissing (tr_platform base) field spec cands\<rparr>]
         else runs)"

definition with_family :: "target_run \<Rightarrow> string list \<Rightarrow> device_facts list \<Rightarrow> device_facts list \<Rightarrow> nat
    \<Rightarrow> target_run" where
  "with_family run families cands seen pos =
     (if tr_outcome run \<noteq> Run then run
      else let here = [d \<leftarrow> cands. in_run d (tr_spec run) (tr_major run)]
           in case List.find (\<lambda>f. \<exists>d\<in>set here. matches_family d (Some f)) families of
                None \<Rightarrow> run\<lparr>tr_outcome := Failed,
                          tr_reason := FamilyMiss (tr_platform run) (tr_kind run) families seen\<rparr>
              | Some w \<Rightarrow>
                  run\<lparr>tr_family := Some w,
                      tr_coordinates :=
                        (if length families > 1
                         then take pos (tr_coordinates run) @ [(''family'', w)] @ drop pos (tr_coordinates run)
                         else tr_coordinates run)\<rparr>)"

definition model_runs :: "string \<Rightarrow> string \<Rightarrow> string \<Rightarrow> string \<Rightarrow> version_spec option \<Rightarrow> string list
    \<Rightarrow> device_facts list \<Rightarrow> string option \<Rightarrow> (string \<times> string) list \<Rightarrow> bool \<Rightarrow> string option
    \<Rightarrow> target_run list" where
  "model_runs target platform mfield vfield spec families devices kind kind_coords is_listed m =
     (let coords = kind_coords @ (case m of Some v \<Rightarrow> (if is_listed then [(mfield, v)] else []) | None \<Rightarrow> []);
          base = (target_run0 target platform)
                   \<lparr>tr_model := m, tr_spec := spec, tr_kind := kind, tr_conditioned := True\<rparr>;
          seen = [d \<leftarrow> devices. matches_model d m]
      in case (m, seen) of
           (Some v, []) \<Rightarrow>
             [base\<lparr>tr_coordinates := coords, tr_outcome := Failed,
                   tr_reason := ModelMissing platform mfield v devices\<rparr>]
         | _ \<Rightarrow>
             (let cands = (if families = [] then seen
                           else [d \<leftarrow> seen. \<exists>f\<in>set families. matches_family d (Some f)])
              in if families \<noteq> [] \<and> cands = []
                 then [base\<lparr>tr_coordinates := coords, tr_outcome := Failed,
                            tr_reason := FamilyMiss platform kind families seen\<rparr>]
                 else let formed = (case spec of
                                      None \<Rightarrow> [base\<lparr>tr_coordinates := coords\<rparr>]
                                    | Some s \<Rightarrow> version_runs base coords s cands vfield)
                      in map (\<lambda>run. if families = [] then run
                                    else with_family run families cands seen (length coords)) formed))"

definition kind_runs :: "string \<Rightarrow> string \<Rightarrow> string \<Rightarrow> string \<Rightarrow> conditions \<Rightarrow> device_facts list
    \<Rightarrow> string option \<Rightarrow> (string \<times> string) list \<Rightarrow> version_error + target_run list" where
  "kind_runs target platform mfield vfield conditions devices kind kind_coords =
     (let (models, is_listed) = listed (dict_get conditions mfield)
      in and_then (spec_condition conditions vfield) (\<lambda>spec.
           Inr (concat (map (model_runs target platform mfield vfield spec (families_of conditions)
             devices kind kind_coords is_listed) models))))"

datatype run_error = BadVersion version_error | NoBrowserRead "string option"

definition web_run :: "string \<Rightarrow> version_spec option \<Rightarrow> device_facts list \<Rightarrow> bool \<Rightarrow> string option
    \<Rightarrow> run_error + target_run" where
  "web_run target spec browsers is_listed name =
     (let coords = (case name of Some n \<Rightarrow> (if is_listed then [(''browser.kind'', n)] else []) | None \<Rightarrow> []);
          run = (target_run0 target ''web'')
                  \<lparr>tr_spec := spec, tr_engine := name, tr_coordinates := coords\<rparr>
      in case spec of
           None \<Rightarrow> Inr run
         | Some s \<Rightarrow>
             (case List.find (\<lambda>b. Some (df_model b) = name) browsers of
                None \<Rightarrow> Inl (NoBrowserRead name)
              | Some b \<Rightarrow>
                  (if spec_contains s (df_version b) then Inr run
                   else Inr (run\<lparr>tr_outcome := (if \<exists>alt\<in>set (vs_alternatives s). vr_bounded alt
                                                then Failed else NotApplicable),
                                 tr_reason := BrowserVersion s b\<rparr>))))"

definition web_runs :: "string \<Rightarrow> conditions \<Rightarrow> device_facts list \<Rightarrow> string option
    \<Rightarrow> run_error + target_run list" where
  "web_runs target conditions browsers engine =
     (let (engines, is_listed) = listed (cond_or (dict_get conditions ''browser.kind'') engine)
      in case spec_condition conditions ''browser.version'' of
           Inl e \<Rightarrow> Inl (BadVersion e)
         | Inr spec \<Rightarrow> each (web_run target spec browsers is_listed) engines)"

text \<open>One listed kind: its devices, or the failed run a pool without it makes.\<close>

definition one_kind :: "string \<Rightarrow> string \<Rightarrow> string \<Rightarrow> string \<Rightarrow> conditions \<Rightarrow> device_facts list
    \<Rightarrow> bool \<Rightarrow> string option \<Rightarrow> version_error + target_run list" where
  "one_kind target platform mfield vfield conditions devices is_listed kind =
     (let coords = (case kind of Some k \<Rightarrow> (if is_listed then [(''kind'', k)] else []) | None \<Rightarrow> []);
          of_kind = [d \<leftarrow> devices. matches_kind d kind]
      in if is_listed \<and> of_kind = []
         then Inr [(target_run0 target platform)
                \<lparr>tr_kind := kind, tr_coordinates := coords, tr_outcome := Failed,
                 tr_reason := KindMissing platform (case kind of None \<Rightarrow> [] | Some k \<Rightarrow> k) devices,
                 tr_conditioned := True\<rparr>]
         else kind_runs target platform mfield vfield conditions of_kind kind coords)"

definition form_target_runs :: "string \<Rightarrow> string \<Rightarrow> conditions \<Rightarrow> device_facts list \<Rightarrow> string option
    \<Rightarrow> string option \<Rightarrow> run_error + target_run list" where
  "form_target_runs target platform conditions devices engine kind =
     (if platform = ''web'' then web_runs target conditions devices engine
      else case (model_field platform, version_field platform) of
             (Some mfield, Some vfield) \<Rightarrow>
               (if conditions = [] then Inr [(target_run0 target platform)\<lparr>tr_kind := kind\<rparr>]
                else let (kinds, is_listed) = listed (cond_or (dict_get conditions ''kind'') kind)
                     in case each (one_kind target platform mfield vfield conditions devices is_listed) kinds of
                          Inl e \<Rightarrow> Inl (BadVersion e)
                        | Inr rss \<Rightarrow> Inr (concat rss))
           | _ \<Rightarrow> Inr [(target_run0 target platform)\<lparr>tr_kind := kind\<rparr>])"

section \<open>The devices a run may take\<close>

definition fits :: "target_run \<Rightarrow> device_facts \<Rightarrow> bool" where
  "fits run d \<longleftrightarrow> matches_kind d (tr_kind run) \<and> matches_family d (tr_family run) \<and>
     matches_model d (tr_model run) \<and> in_run d (tr_spec run) (tr_major run)"

text \<open>The newest release of one model's devices that has \<open>demand\<close> of them.\<close>

definition newest_release :: "nat \<Rightarrow> (version, device_facts list) dict \<Rightarrow> version option" where
  "newest_release demand by_release =
     (case map fst [p \<leftarrow> by_release. demand \<le> length (snd p)] of
        [] \<Rightarrow> None
      | v # vs \<Rightarrow> Some (fold max vs v))"

definition eligible_set :: "target_run \<Rightarrow> device_facts list \<Rightarrow> nat \<Rightarrow> device_facts list option" where
  "eligible_set run devices demand =
     (if \<not> tr_conditioned run
      then (let of_kind = [d \<leftarrow> devices. matches_kind d (tr_kind run)]
            in if length of_kind \<ge> demand then Some of_kind else None)
      else first_some (\<lambda>(m, g).
             (let by_release = group_by df_version g
              in case newest_release demand by_release of
                   None \<Rightarrow> None
                 | Some v \<Rightarrow> dict_get by_release v))
             (group_by df_model [d \<leftarrow> devices. fits run d]))"

section \<open>Combining the targets' runs\<close>

record participant =
  pa_targets :: "string list"
  pa_pool :: string
  pa_runs :: "target_run list"

datatype combo_reason = NoComboReason | Reasons "run_reason list" | TooFew string nat "device_facts list"

record combination =
  cb_runs :: "target_run list"
  cb_outcome :: outcome
  cb_reason :: combo_reason
  cb_devices :: "(string, string list) dict"

type_synonym pools = "(string, device_facts list) dict"

definition claimed_in :: "(string, string list) dict \<Rightarrow> string \<Rightarrow> string list" where
  "claimed_in claimed pool = (case dict_get claimed pool of None \<Rightarrow> [] | Some us \<Rightarrow> us)"

text \<open>
  The loop of \<open>_assign\<close> over the groups, conditioned ones first: \<open>claimed\<close> holds the udids
  taken per pool, \<open>taken\<close> what each participant's first target was given.
\<close>

fun claim_groups :: "participant list \<Rightarrow> target_run list \<Rightarrow> pools \<Rightarrow> nat list list
    \<Rightarrow> (string, string list) dict \<Rightarrow> (string, string list) dict \<Rightarrow> combination" where
  "claim_groups parts runs pools [] claimed taken =
     \<lparr>cb_runs = runs, cb_outcome = Run, cb_reason = NoComboReason, cb_devices = taken\<rparr>"
| "claim_groups parts runs pools (members # rest) claimed taken =
     (let pool = pa_pool (parts ! hd members); run = runs ! hd members
      in if \<not> tr_conditioned run \<and> claimed_in claimed pool = []
         then claim_groups parts runs pools rest claimed taken
         else let free = [d \<leftarrow> (case dict_get pools pool of None \<Rightarrow> [] | Some ds \<Rightarrow> ds).
                            df_udid d \<notin> set (claimed_in claimed pool)]
              in case eligible_set run free (length members) of
                   None \<Rightarrow> \<lparr>cb_runs = runs, cb_outcome = Failed,
                            cb_reason = TooFew (tr_target run) (length members) free, cb_devices = []\<rparr>
                 | Some chosen \<Rightarrow>
                     claim_groups parts runs pools rest
                       (dict_put pool (claimed_in claimed pool @ map df_udid chosen) claimed)
                       (fold (\<lambda>i. dict_put (hd (pa_targets (parts ! i))) (map df_udid chosen)) members taken))"

definition participant_groups :: "participant list \<Rightarrow> target_run list \<Rightarrow> pools \<Rightarrow> nat list list" where
  "participant_groups parts runs pools =
     map snd (group_by (\<lambda>i. (pa_pool (parts ! i), run_key_of (runs ! i)))
       [i \<leftarrow> [0..<length parts]. dict_get pools (pa_pool (parts ! i)) \<noteq> None])"

text \<open>\<open>sorted(..., key=lambda members: not conditioned)\<close> is stable: a partition in order.\<close>

definition conditioned_first :: "target_run list \<Rightarrow> nat list list \<Rightarrow> nat list list" where
  "conditioned_first runs groups =
     [g \<leftarrow> groups. tr_conditioned (runs ! hd g)] @ [g \<leftarrow> groups. \<not> tr_conditioned (runs ! hd g)]"

definition assign_devices :: "participant list \<Rightarrow> target_run list \<Rightarrow> pools \<Rightarrow> combination" where
  "assign_devices parts runs pools =
     claim_groups parts runs pools (conditioned_first runs (participant_groups parts runs pools)) [] []"

definition combine :: "participant list \<Rightarrow> pools \<Rightarrow> combination list" where
  "combine parts pools =
     map (\<lambda>runs.
       let failed = [r \<leftarrow> runs. tr_outcome r = Failed]; skipped = [r \<leftarrow> runs. tr_outcome r = NotApplicable]
       in if failed \<noteq> [] then \<lparr>cb_runs = runs, cb_outcome = Failed,
              cb_reason = Reasons (map tr_reason failed), cb_devices = []\<rparr>
          else if skipped \<noteq> [] then \<lparr>cb_runs = runs, cb_outcome = NotApplicable,
              cb_reason = Reasons (map tr_reason skipped), cb_devices = []\<rparr>
          else assign_devices parts runs pools)
       (product_lists (map pa_runs parts))"


definition combo_label :: "combination \<Rightarrow> string" where
  "combo_label c = join '', '' (map
     (\<lambda>r. if length (cb_runs c) > 1 then tr_target r @ '': '' @ run_label r else run_label r)
     [r \<leftarrow> cb_runs c. tr_coordinates r \<noteq> []])"

text \<open>\<open>dict(pairs)\<close>: later pairs overwrite earlier ones of the same key.\<close>

definition dict_of :: "('k \<times> 'v) list \<Rightarrow> ('k, 'v) dict" where
  "dict_of ps = fold (\<lambda>(k, v). dict_put k v) ps []"

type_synonym coordinates = "(string, (string, string) dict) dict"

definition combo_coordinates :: "combination \<Rightarrow> coordinates" where
  "combo_coordinates c =
     dict_of [(tr_target r, dict_of (tr_coordinates r)). r \<leftarrow> cb_runs c, tr_coordinates r \<noteq> []]"

section \<open>The one run of the commands that never multiply runs\<close>

datatype first_run_error = FirstBad run_error | EmptyList | NoneFits "device_facts list"
  | NotRunnable run_reason

definition first_of :: "'a list \<Rightarrow> first_run_error + 'a" where
  "first_of xs = (case xs of [] \<Rightarrow> Inl EmptyList | x # _ \<Rightarrow> Inr x)"

text \<open>The \<open>assert chosen\<close> of the code is the branch \<open>Inr (run, None)\<close> of a conditioned run.\<close>

definition take_first :: "string \<Rightarrow> string \<Rightarrow> string option \<Rightarrow> string option \<Rightarrow> version_spec option
    \<Rightarrow> string list \<Rightarrow> device_facts list \<Rightarrow> first_run_error + (target_run \<times> device_facts option)" where
  "take_first target platform kind m spec families devices =
     (let fitting = [d \<leftarrow> devices. matches_kind d kind \<and> matches_model d m \<and> in_run d spec None];
          family = List.find (\<lambda>f. \<exists>d\<in>set fitting. matches_family d (Some f)) families;
          fitting' = [d \<leftarrow> fitting. matches_family d family]
      in if fitting' = [] \<or> families \<noteq> [] \<and> family = None then Inl (NoneFits devices)
         else let run = (target_run0 target platform)
                    \<lparr>tr_model := m, tr_spec := spec,
                     tr_major := (if spec = None then None
                                  else Some (Max (set (map (\<lambda>d. major (df_version d)) fitting')))),
                     tr_kind := kind, tr_family := family, tr_conditioned := True\<rparr>
              in Inr (run, case eligible_set run devices 1 of Some (d # _) \<Rightarrow> Some d | _ \<Rightarrow> None))"

definition first_run :: "string \<Rightarrow> string \<Rightarrow> conditions \<Rightarrow> device_facts list \<Rightarrow> string option
    \<Rightarrow> first_run_error + (target_run \<times> device_facts option)" where
  "first_run target platform conditions devices engine =
     (if platform = ''web''
      then (case web_runs target conditions devices engine of
              Inl e \<Rightarrow> Inl (FirstBad e)
            | Inr runs \<Rightarrow> and_then (first_of runs) (\<lambda>run.
                if tr_outcome run = Run then Inr (run, None) else Inl (NotRunnable (tr_reason run))))
      else case (model_field platform, version_field platform) of
             (Some mfield, Some vfield) \<Rightarrow>
               (if conditions = []
                then Inr (target_run0 target platform, case devices of [] \<Rightarrow> None | d # _ \<Rightarrow> Some d)
                else let (kinds, kinds_listed) = listed (dict_get conditions ''kind'');
                         models = fst (listed (dict_get conditions mfield))
                     in and_then (if kinds_listed then first_of kinds else Inr None) (\<lambda>kind.
                        and_then (first_of models) (\<lambda>m.
                        and_then (map_sum (\<lambda>e. FirstBad (BadVersion e)) id (spec_condition conditions vfield))
                          (\<lambda>spec. take_first target platform kind m spec (families_of conditions) devices))))
           | _ \<Rightarrow> Inr (target_run0 target platform, case devices of [] \<Rightarrow> None | d # _ \<Rightarrow> Some d))"

section \<open>The runs a declaration names before any device is read\<close>

definition per_available_major :: string where
  "per_available_major = ''one run per available major version''"

definition first_available_family :: string where
  "first_available_family = ''the first available family''"

definition quote_str :: "string \<Rightarrow> string" where
  "quote_str s = [CHR 0x22] @ s @ [CHR 0x22]"

definition labels_of :: "string \<Rightarrow> string \<Rightarrow> string list \<Rightarrow> version_spec option \<Rightarrow> string list" where
  "labels_of platform vfield prefix spec =
     (case spec of
        None \<Rightarrow> [join '' / '' prefix]
      | Some s \<Rightarrow>
          map (\<lambda>m. join '' / '' (prefix @ [major_label platform m])) (spec_majors s) @
          (if \<exists>alt\<in>set (vs_alternatives s). \<not> vr_bounded alt
           then [join '' / '' (prefix @ [per_available_major @ '' in '' @ vfield @ '' '' @ quote_str (vs_text s)])]
           else []))"

definition named_if :: "bool \<Rightarrow> string option \<Rightarrow> string list" where
  "named_if is_listed v = (case v of Some x \<Rightarrow> (if is_listed then [x] else []) | None \<Rightarrow> [])"

definition declared_runs :: "string \<Rightarrow> conditions \<Rightarrow> string option \<Rightarrow> version_error + string list" where
  "declared_runs platform conditions engine =
     (if platform = ''web''
      then let (engines, is_listed) = listed (cond_or (dict_get conditions ''browser.kind'') engine)
           in Inr (map (\<lambda>n. case n of Some n \<Rightarrow> (if is_listed then n else []) | None \<Rightarrow> []) engines)
      else case (model_field platform, version_field platform) of
             (Some mfield, Some vfield) \<Rightarrow>
               (if conditions = [] then Inr [[]]
                else let (kinds, kinds_listed) = listed (dict_get conditions ''kind'');
                         (models, models_listed) = listed (dict_get conditions mfield);
                         families = families_of conditions;
                         family = (if length families > 1
                                   then [first_available_family @ '' of '' @ quote_str (join '', '' families)]
                                   else [])
                     in and_then (spec_condition conditions vfield) (\<lambda>spec.
                          Inr (concat (map (\<lambda>(kind, m). labels_of platform vfield
                              (named_if kinds_listed kind @ named_if models_listed m @ family) spec)
                            (List.product kinds models)))))
           | _ \<Rightarrow> Inr [[]])"

definition condition_path :: "string \<Rightarrow> string \<Rightarrow> string" where
  "condition_path platform name =
     (if platform = ''web'' then ''runsOn.'' @ name else ''runsOn.'' @ platform @ ''.'' @ name)"

section \<open>Coordinates of a stored run\<close>

definition coordinates_key :: "coordinates \<Rightarrow> string" where
  "coordinates_key c =
     join ''; '' (map (\<lambda>(target, fields).
       target @ '': '' @ join '', '' (map (\<lambda>(k, v). k @ ''='' @ v) (sort fields)))
       (sort_key fst c))"

definition mixed_coordinates :: string where
  "mixed_coordinates = ''*''"

text \<open>
  The manifest's scenarios as the list of their \<open>run_coordinates\<close> (an absent one reads as the
  empty mapping); \<open>None\<close> for a manifest whose \<open>scenarios\<close> is no list.
\<close>

definition coordinates_from_manifest :: "coordinates list option \<Rightarrow> string" where
  "coordinates_from_manifest scenarios =
     (case remdups (map coordinates_key (case scenarios of None \<Rightarrow> [] | Some ss \<Rightarrow> ss)) of
        [] \<Rightarrow> [] | [k] \<Rightarrow> k | _ \<Rightarrow> mixed_coordinates)"


section \<open>Eligible sets: one model, one release, enough devices\<close>

definition cell :: "target_run \<Rightarrow> device_facts list \<Rightarrow> string \<Rightarrow> version \<Rightarrow> device_facts list" where
  "cell run devices m v = [d \<leftarrow> devices. fits run d \<and> df_model d = m \<and> df_version d = v]"

lemma fold_max_Max: "fold max (vs :: version list) v = Max (set (v # vs))"
  by (simp only: Max.set_eq_fold)

lemma newest_release_Some:
  assumes "newest_release n by = Some v"
  shows "(\<exists>g. (v, g) \<in> set by \<and> n \<le> length g) \<and> (\<forall>(w, g)\<in>set by. n \<le> length g \<longrightarrow> w \<le> v)"
proof -
  define ok where "ok = map fst [p \<leftarrow> by. n \<le> length (snd p)]"
  have "ok \<noteq> [] \<and> v = Max (set ok)"
    using assms by (auto simp: newest_release_def fold_max_Max ok_def [symmetric] split: list.splits)
  then have "v \<in> set ok" and le: "\<forall>w\<in>set ok. w \<le> v" by auto
  then show ?thesis unfolding ok_def by fastforce
qed

lemma newest_release_None:
  "newest_release n by = None \<longleftrightarrow> (\<forall>(v, g)\<in>set by. length g < n)"
proof -
  have "newest_release n by = None \<longleftrightarrow> [p \<leftarrow> by. n \<le> length (snd p)] = []"
    by (auto simp: newest_release_def split: list.splits)
  then show ?thesis by (auto simp: filter_empty_conv not_le)
qed

lemma release_group:
  "dict_get (group_by df_version [d \<leftarrow> devices. fits run d \<and> df_model d = m]) v = Some g \<Longrightarrow>
     g = cell run devices m v"
  by (auto simp: dict_simps cell_def split: if_splits intro!: filter_cong)

lemma eligible_set_Some:
  assumes "tr_conditioned run" "eligible_set run devices n = Some ds"
  obtains m v where "ds = cell run devices m v" "n \<le> length ds"
    "\<And>w. n \<le> length (cell run devices m w) \<Longrightarrow> cell run devices m w \<noteq> [] \<Longrightarrow> w \<le> v"
proof -
  obtain m g where mg: "(m, g) \<in> set (group_by df_model [d \<leftarrow> devices. fits run d])"
    and nr: "(case newest_release n (group_by df_version g) of None \<Rightarrow> None
                | Some v \<Rightarrow> dict_get (group_by df_version g) v) = Some ds"
    using assms by (auto simp: eligible_set_def Let_def dest!: first_some_Some)
  from mg have g: "g = [d \<leftarrow> devices. fits run d \<and> df_model d = m]"
    by (auto simp: group_by_mem)
  from nr obtain v where v: "newest_release n (group_by df_version g) = Some v"
    and ds: "dict_get (group_by df_version g) v = Some ds"
    by (auto split: option.splits)
  have ds': "ds = cell run devices m v" using ds g release_group by blast
  have mem: "(w, cell run devices m w) \<in> set (group_by df_version g)"
    if "cell run devices m w \<noteq> []" for w
    using that unfolding group_by_mem g by (auto simp: cell_def filter_empty_conv intro!: filter_cong)
  from newest_release_Some [OF v] obtain g' where g': "(v, g') \<in> set (group_by df_version g)" "n \<le> length g'"
    and newest: "\<forall>(w, h)\<in>set (group_by df_version g). n \<le> length h \<longrightarrow> w \<le> v" by blast
  have "g' = ds" using g'(1) ds dict_get_iff [OF group_by_wf, of df_version g v g'] by simp
  with g' have len: "n \<le> length ds" by simp
  have "\<And>w. n \<le> length (cell run devices m w) \<Longrightarrow> cell run devices m w \<noteq> [] \<Longrightarrow> w \<le> v"
    using newest mem by blast
  with ds' len show thesis by (rule that)
qed

lemma eligible_set_None_iff:
  assumes "tr_conditioned run" "0 < n"
  shows "eligible_set run devices n = None \<longleftrightarrow> (\<forall>m v. length (cell run devices m v) < n)"
proof
  assume none: "eligible_set run devices n = None"
  show "\<forall>m v. length (cell run devices m v) < n"
  proof (intro allI, rule ccontr)
    fix m v assume big: "\<not> length (cell run devices m v) < n"
    then have ne: "cell run devices m v \<noteq> []" using assms(2) by auto
    let ?g = "[d \<leftarrow> devices. fits run d \<and> df_model d = m]"
    have mg: "(m, ?g) \<in> set (group_by df_model [d \<leftarrow> devices. fits run d])"
      using ne by (auto simp: group_by_mem cell_def filter_empty_conv)
    have vg: "(v, cell run devices m v) \<in> set (group_by df_version ?g)"
      using ne by (auto simp: group_by_mem cell_def filter_empty_conv intro!: filter_cong)
    have "newest_release n (group_by df_version ?g) \<noteq> None"
      using vg big by (auto simp: newest_release_None)
    then obtain w where w: "newest_release n (group_by df_version ?g) = Some w" by blast
    then obtain h where "(w, h) \<in> set (group_by df_version ?g)"
      using newest_release_Some by blast
    then have "dict_get (group_by df_version ?g) w = Some h"
      by (rule dict_get_iff [OF group_by_wf, THEN iffD2])
    with mg w none show False
      using assms by (auto simp: eligible_set_def Let_def first_some_None)
  qed
next
  assume small: "\<forall>m v. length (cell run devices m v) < n"
  show "eligible_set run devices n = None"
  proof (rule ccontr)
    assume "eligible_set run devices n \<noteq> None"
    then obtain ds where "eligible_set run devices n = Some ds" by blast
    from eligible_set_Some [OF assms(1) this] obtain m v
      where "ds = cell run devices m v" "n \<le> length ds" by metis
    with small show False by (simp add: not_le [symmetric])
  qed
qed

lemma eligible_set_subset: "eligible_set run devices n = Some ds \<Longrightarrow> set ds \<subseteq> set devices"
proof (cases "tr_conditioned run")
  case True
  assume "eligible_set run devices n = Some ds"
  from eligible_set_Some [OF True this] obtain m v where "ds = cell run devices m v" by metis
  then show ?thesis by (auto simp: cell_def)
qed (auto simp: eligible_set_def Let_def split: if_splits)

lemma eligible_set_length: "eligible_set run devices n = Some ds \<Longrightarrow> n \<le> length ds"
proof (cases "tr_conditioned run")
  case True
  assume "eligible_set run devices n = Some ds"
  from eligible_set_Some [OF True this] obtain m v where "n \<le> length ds" by metis
  then show ?thesis .
qed (auto simp: eligible_set_def Let_def split: if_splits)


section \<open>Participants on one pool never share a device\<close>

definition owner :: "participant list \<Rightarrow> nat \<Rightarrow> string" where
  "owner parts i = hd (pa_targets (parts ! i))"

definition same_draw :: "participant list \<Rightarrow> target_run list \<Rightarrow> nat \<Rightarrow> nat \<Rightarrow> bool" where
  "same_draw parts runs i j \<longleftrightarrow>
     pa_pool (parts ! i) = pa_pool (parts ! j) \<and> run_key_of (runs ! i) = run_key_of (runs ! j)"

text \<open>
  What the loop of \<open>_assign\<close> keeps after the participants \<open>D\<close>: a recorded set lies in the claimed
  udids of its pool, and two recorded sets of one pool are equal or disjoint.
\<close>

definition claims_ok :: "participant list \<Rightarrow> target_run list \<Rightarrow> nat set \<Rightarrow> (string, string list) dict
    \<Rightarrow> (string, string list) dict \<Rightarrow> bool" where
  "claims_ok parts runs D claimed taken \<longleftrightarrow>
     (\<forall>i\<in>D. \<forall>us. dict_get taken (owner parts i) = Some us \<longrightarrow>
        set us \<subseteq> set (claimed_in claimed (pa_pool (parts ! i)))) \<and>
     (\<forall>i\<in>D. \<forall>j\<in>D. \<forall>us vs. dict_get taken (owner parts i) = Some us \<longrightarrow>
        dict_get taken (owner parts j) = Some vs \<longrightarrow> pa_pool (parts ! i) = pa_pool (parts ! j) \<longrightarrow>
        (if same_draw parts runs i j then us = vs else set us \<inter> set vs = {})) \<and>
     (\<forall>t. dict_get taken t \<noteq> None \<longrightarrow> t \<in> owner parts ` D)"

definition groups_ok :: "participant list \<Rightarrow> target_run list \<Rightarrow> nat set \<Rightarrow> nat list list \<Rightarrow> bool" where
  "groups_ok parts runs D gs \<longleftrightarrow>
     (\<forall>g\<in>set gs. g \<noteq> [] \<and> set g \<subseteq> {..<length parts} \<and> (\<forall>i\<in>set g. \<forall>j\<in>set g. same_draw parts runs i j) \<and>
        (\<forall>i\<in>set g. \<forall>j\<in>D. \<not> same_draw parts runs i j)) \<and>
     pairwise (\<lambda>g h. \<forall>i\<in>set g. \<forall>j\<in>set h. \<not> same_draw parts runs i j) (set gs) \<and> distinct gs"

lemma same_draw_sym: "same_draw parts runs i j \<longleftrightarrow> same_draw parts runs j i"
  by (auto simp: same_draw_def)

lemma dict_get_fold_put:
  "dict_get (fold (\<lambda>i. dict_put (f i) v) is d) t = (if t \<in> f ` set is then Some v else dict_get d t)"
  by (induction "is" arbitrary: d) auto

lemma claimed_in_put:
  "claimed_in (dict_put p us claimed) q = (if q = p then us else claimed_in claimed q)"
  by (simp add: claimed_in_def)

lemma claims_ok_claim:
  assumes ok: "claims_ok parts runs D claimed taken"
    and inj: "inj_on (owner parts) {..<length parts}"
    and D: "D \<subseteq> {..<length parts}" and g: "groups_ok parts runs D (g # rest)"
    and pool: "pool = pa_pool (parts ! hd g)"
    and fresh: "set us \<inter> set (claimed_in claimed pool) = {}"
  shows "claims_ok parts runs (D \<union> set g)
     (dict_put pool (claimed_in claimed pool @ us) claimed)
     (fold (\<lambda>i. dict_put (owner parts i) us) g taken)"
proof -
  have new: "\<not> same_draw parts runs i j" if "i \<in> set g" "j \<in> D" for i j
    using g that by (auto simp: groups_ok_def)
  have gsub: "set g \<subseteq> {..<length parts}" and gne: "g \<noteq> []"
    and within: "\<And>i j. i \<in> set g \<Longrightarrow> j \<in> set g \<Longrightarrow> same_draw parts runs i j"
    using g by (auto simp: groups_ok_def)
  have gpool: "pa_pool (parts ! i) = pool" if "i \<in> set g" for i
    using within [OF that, of "hd g"] gne pool by (auto simp: same_draw_def)
  have apart: "owner parts j \<notin> owner parts ` set g" if "j \<in> D" for j
  proof
    assume "owner parts j \<in> owner parts ` set g"
    then obtain i where i: "i \<in> set g" "owner parts j = owner parts i" by blast
    then have "i = j" using inj that D gsub unfolding inj_on_def by (metis subsetD)
    with new [OF i(1) that] show False by (simp add: same_draw_def)
  qed
  let ?taken = "fold (\<lambda>i. dict_put (owner parts i) us) g taken"
  let ?claimed = "dict_put pool (claimed_in claimed pool @ us) claimed"
  have get_new: "dict_get ?taken (owner parts i) = Some us" if "i \<in> set g" for i
    using that by (simp add: dict_get_fold_put)
  have get_old: "dict_get ?taken (owner parts j) = dict_get taken (owner parts j)" if "j \<in> D" for j
    using apart [OF that] by (simp add: dict_get_fold_put)
  have a: "set vs \<subseteq> set (claimed_in ?claimed (pa_pool (parts ! i)))"
    if "i \<in> D \<union> set g" "dict_get ?taken (owner parts i) = Some vs" for i vs
  proof (cases "i \<in> set g")
    case True
    with that get_new gpool show ?thesis by (simp add: claimed_in_put)
  next
    case False
    with that(1) have i: "i \<in> D" by simp
    with that(2) have "dict_get taken (owner parts i) = Some vs" by (simp add: get_old)
    with ok i have "set vs \<subseteq> set (claimed_in claimed (pa_pool (parts ! i)))"
      unfolding claims_ok_def by blast
    then show ?thesis by (auto simp: claimed_in_put)
  qed
  have old_claimed: "set vs \<subseteq> set (claimed_in claimed (pa_pool (parts ! j)))"
    if "j \<in> D" "dict_get ?taken (owner parts j) = Some vs" for j vs
    using that ok get_old unfolding claims_ok_def by metis
  have cross: "set us \<inter> set vs = {}"
    if "j \<in> D" "dict_get ?taken (owner parts j) = Some vs" "pa_pool (parts ! j) = pool" for j vs
    using old_claimed [OF that(1,2)] fresh that(3) by blast
  have b: "if same_draw parts runs i j then xs = vs else set xs \<inter> set vs = {}"
    if ij: "i \<in> D \<union> set g" "j \<in> D \<union> set g" and xs: "dict_get ?taken (owner parts i) = Some xs"
      and vs: "dict_get ?taken (owner parts j) = Some vs"
      and p: "pa_pool (parts ! i) = pa_pool (parts ! j)" for i j xs vs
  proof -
    consider "i \<in> D" "j \<in> D" | "i \<in> set g" "j \<in> set g" | "i \<in> set g" "j \<in> D" | "i \<in> D" "j \<in> set g"
      using ij by blast
    then show ?thesis
    proof cases
      case 1
      with ok xs vs p get_old show ?thesis unfolding claims_ok_def by metis
    next
      case 2
      with within get_new xs vs show ?thesis by simp
    next
      case 3
      have "set us \<inter> set vs = {}" using cross [OF 3(2) vs] p gpool [OF 3(1)] by simp
      with new [OF 3] get_new [OF 3(1)] xs show ?thesis by simp
    next
      case 4
      have "set us \<inter> set xs = {}" using cross [OF 4(1) xs] p gpool [OF 4(2)] by simp
      with new [OF 4(2,1)] get_new [OF 4(2)] vs show ?thesis
        unfolding same_draw_sym [of parts runs i j] by auto
    qed
  qed
  have c: "t \<in> owner parts ` (D \<union> set g)" if "dict_get ?taken t \<noteq> None" for t
    using that ok by (auto simp: dict_get_fold_put claims_ok_def split: if_splits)
  show ?thesis unfolding claims_ok_def using a b c by blast
qed


lemma claims_ok_skip:
  assumes ok: "claims_ok parts runs D claimed taken"
    and inj: "inj_on (owner parts) {..<length parts}"
    and D: "D \<subseteq> {..<length parts}" and g: "groups_ok parts runs D (g # rest)"
  shows "claims_ok parts runs (D \<union> set g) claimed taken"
proof -
  have none: "dict_get taken (owner parts i) = None" if "i \<in> set g" for i
  proof (rule ccontr)
    assume "dict_get taken (owner parts i) \<noteq> None"
    then obtain j where j: "j \<in> D" "owner parts i = owner parts j"
      using ok by (auto simp: claims_ok_def)
    moreover have "i < length parts" using g that by (auto simp: groups_ok_def)
    ultimately have "i = j" using inj D by (auto simp: inj_on_def)
    with g j(1) that show False by (auto simp: groups_ok_def same_draw_def)
  qed
  have a: "set us \<subseteq> set (claimed_in claimed (pa_pool (parts ! i)))"
    if "i \<in> D \<union> set g" "dict_get taken (owner parts i) = Some us" for i us
    using that none ok unfolding claims_ok_def by fastforce
  have b: "if same_draw parts runs i j then us = vs else set us \<inter> set vs = {}"
    if "i \<in> D \<union> set g" "j \<in> D \<union> set g" "dict_get taken (owner parts i) = Some us"
      "dict_get taken (owner parts j) = Some vs" "pa_pool (parts ! i) = pa_pool (parts ! j)" for i j us vs
  proof -
    from that none have "i \<in> D" "j \<in> D" by fastforce+
    with ok that show ?thesis unfolding claims_ok_def by blast
  qed
  have c: "t \<in> owner parts ` (D \<union> set g)" if "dict_get taken t \<noteq> None" for t
    using that ok unfolding claims_ok_def by blast
  show ?thesis unfolding claims_ok_def using a b c by blast
qed

lemma groups_ok_Cons: "groups_ok parts runs D (g # rest) \<Longrightarrow> groups_ok parts runs (D \<union> set g) rest"
proof -
  assume ok: "groups_ok parts runs D (g # rest)"
  have "\<not> same_draw parts runs i j" if "h \<in> set rest" "i \<in> set h" "j \<in> set g" for h i j
  proof -
    from ok that have "h \<noteq> g" by (auto simp: groups_ok_def)
    with ok that show ?thesis
      unfolding groups_ok_def pairwise_def by (metis list.set_intros)
  qed
  with ok show ?thesis by (auto simp: groups_ok_def pairwise_def)
qed

lemma claim_groups_ok:
  assumes "claims_ok parts runs D claimed taken" "inj_on (owner parts) {..<length parts}"
    "D \<subseteq> {..<length parts}" "groups_ok parts runs D gs"
    "claim_groups parts runs pools gs claimed taken = c"
  shows "\<exists>claimed'. claims_ok parts runs (D \<union> \<Union> (set ` set gs)) claimed' (cb_devices c)
           \<or> cb_devices c = []"
  using assms
proof (induction gs arbitrary: D claimed taken)
  case (Cons g rest)
  let ?pool = "pa_pool (parts ! hd g)" and ?run = "runs ! hd g"
  have D': "D \<union> set g \<subseteq> {..<length parts}" using Cons.prems(3,4) by (auto simp: groups_ok_def)
  have rest: "groups_ok parts runs (D \<union> set g) rest" using Cons.prems(4) by (rule groups_ok_Cons)
  have U: "D \<union> \<Union> (set ` set (g # rest)) = (D \<union> set g) \<union> \<Union> (set ` set rest)" by auto
  show ?case
  proof (cases "\<not> tr_conditioned ?run \<and> claimed_in claimed ?pool = []")
    case True
    with Cons.prems(5) have "claim_groups parts runs pools rest claimed taken = c" by (simp add: Let_def)
    with Cons.IH [OF claims_ok_skip [OF Cons.prems(1-4)] Cons.prems(2) D' rest] show ?thesis
      unfolding U by blast
  next
    case False
    let ?free = "[d \<leftarrow> (case dict_get pools ?pool of None \<Rightarrow> [] | Some ds \<Rightarrow> ds).
                    df_udid d \<notin> set (claimed_in claimed ?pool)]"
    show ?thesis
    proof (cases "eligible_set ?run ?free (length g)")
      case None
      with False Cons.prems(5) have "cb_devices c = []" by (auto simp: Let_def)
      then show ?thesis by blast
    next
      case (Some chosen)
      have fresh: "set (map df_udid chosen) \<inter> set (claimed_in claimed ?pool) = {}"
        using eligible_set_subset [OF Some] by auto
      let ?claimed = "dict_put ?pool (claimed_in claimed ?pool @ map df_udid chosen) claimed"
      let ?taken = "fold (\<lambda>i. dict_put (owner parts i) (map df_udid chosen)) g taken"
      have "claim_groups parts runs pools rest ?claimed ?taken = c"
        using False Cons.prems(5) Some by (auto simp: Let_def owner_def)
      with Cons.IH [OF claims_ok_claim [OF Cons.prems(1-4) refl fresh] Cons.prems(2) D' rest]
      show ?thesis unfolding U by blast
    qed
  qed
qed auto

lemma set_conditioned_first [simp]: "set (conditioned_first runs gs) = set gs"
  by (auto simp: conditioned_first_def)

lemma participant_groups_mem:
  assumes "g \<in> set (participant_groups parts runs pools)"
  shows "\<exists>i\<in>set g. \<forall>j. j \<in> set g \<longleftrightarrow>
     j < length parts \<and> dict_get pools (pa_pool (parts ! j)) \<noteq> None \<and> same_draw parts runs i j"
proof -
  let ?key = "\<lambda>i. (pa_pool (parts ! i), run_key_of (runs ! i))"
  let ?is = "[i \<leftarrow> [0..<length parts]. dict_get pools (pa_pool (parts ! i)) \<noteq> None]"
  from assms obtain k where "(k, g) \<in> set (group_by ?key ?is)"
    unfolding participant_groups_def by auto
  then have k: "k \<in> ?key ` set ?is" and g: "g = [j \<leftarrow> ?is. ?key j = k]" by (simp_all only: group_by_mem)
  from k obtain i where i: "k = ?key i" "i \<in> set ?is" by blast
  have "i \<in> set g" unfolding g using i by simp
  moreover have "j \<in> set g \<longleftrightarrow>
     j < length parts \<and> dict_get pools (pa_pool (parts ! j)) \<noteq> None \<and> same_draw parts runs i j" for j
    unfolding g i(1) same_draw_def by auto
  ultimately show ?thesis by blast
qed

lemma participant_groups_distinct: "distinct (participant_groups parts runs pools)"
  unfolding participant_groups_def by (rule group_by_groups_distinct)

lemma participant_groups_ok:
  "groups_ok parts runs {} (conditioned_first runs (participant_groups parts runs pools))"
proof -
  let ?gs = "participant_groups parts runs pools"
  have one: "g \<noteq> [] \<and> set g \<subseteq> {..<length parts} \<and> (\<forall>i\<in>set g. \<forall>j\<in>set g. same_draw parts runs i j)"
    if "g \<in> set ?gs" for g
    using participant_groups_mem [OF that] by (fastforce simp: same_draw_def)
  have two: "\<not> same_draw parts runs i j"
    if gh: "g \<in> set ?gs" "h \<in> set ?gs" "g \<noteq> h" "i \<in> set g" "j \<in> set h" for g h i j
  proof
    assume same: "same_draw parts runs i j"
    have "set g = set h"
      using participant_groups_mem [OF gh(1)] participant_groups_mem [OF gh(2)] gh(4,5) same
      by (fastforce simp: same_draw_def)
    moreover have "sorted g \<and> distinct g" "sorted h \<and> distinct h"
      using gh(1,2) unfolding participant_groups_def
      by (auto simp: group_by_mem sorted_wrt_filter simp del: upt_Suc)
    ultimately show False using gh(3) sorted_distinct_set_unique by blast
  qed
  have "distinct (conditioned_first runs ?gs)"
    using participant_groups_distinct by (auto simp: conditioned_first_def)
  then show ?thesis
    unfolding groups_ok_def pairwise_def set_conditioned_first using one two by blast
qed



lemma claim_groups_runs: "cb_runs (claim_groups parts runs pools gs claimed taken) = runs"
  by (induction parts runs pools gs claimed taken rule: claim_groups.induct)
    (simp_all add: Let_def split: option.splits)

lemma combine_mem:
  "c \<in> set (combine parts pools) \<Longrightarrow> cb_runs c \<in> set (product_lists (map pa_runs parts)) \<and>
     (cb_devices c = [] \<or> c = assign_devices parts (cb_runs c) pools)"
  unfolding combine_def assign_devices_def Let_def by (auto simp: claim_groups_runs)

lemma combine_exclusive:
  assumes c: "c \<in> set (combine parts pools)" and inj: "inj_on (owner parts) {..<length parts}"
    and ij: "i < length parts" "j < length parts" "pa_pool (parts ! i) = pa_pool (parts ! j)"
    and us: "dict_get (cb_devices c) (owner parts i) = Some us"
    and vs: "dict_get (cb_devices c) (owner parts j) = Some vs"
  shows "if run_key_of (cb_runs c ! i) = run_key_of (cb_runs c ! j) then us = vs else set us \<inter> set vs = {}"
proof -
  let ?runs = "cb_runs c"
  let ?gs = "conditioned_first ?runs (participant_groups parts ?runs pools)"
  define D where "D = {} \<union> \<Union> (set ` set ?gs)"
  have ne: "cb_devices c \<noteq> []" using us by auto
  with combine_mem [OF c] have "claim_groups parts ?runs pools ?gs [] [] = c"
    by (simp add: assign_devices_def)
  moreover have "claims_ok parts ?runs {} [] []" by (simp add: claims_ok_def)
  ultimately obtain claimed where ok: "claims_ok parts ?runs D claimed (cb_devices c)"
    using claim_groups_ok [OF _ inj _ participant_groups_ok] ne unfolding D_def by blast
  have D: "k \<in> D" if "k < length parts" "dict_get (cb_devices c) (owner parts k) = Some ws" for k ws
  proof -
    have "owner parts k \<in> owner parts ` D" using ok that(2) unfolding claims_ok_def by simp
    then obtain l where l: "l \<in> D" "owner parts k = owner parts l" by blast
    moreover have "l < length parts"
      using l(1) unfolding D_def using participant_groups_ok [of parts ?runs pools] by (auto simp: groups_ok_def)
    ultimately show ?thesis using inj that(1) by (metis inj_on_def lessThan_iff)
  qed
  have "if same_draw parts ?runs i j then us = vs else set us \<inter> set vs = {}"
    using ok D [OF ij(1) us] D [OF ij(2) vs] us vs ij(3) unfolding claims_ok_def by blast
  then show ?thesis using ij(3) by (simp add: same_draw_def)
qed

lemma combine_count: "length (combine parts pools) = prod_list (map (length \<circ> pa_runs) parts)"
proof -
  have "length (product_lists xss) = prod_list (map length xss)" for xss :: "target_run list list"
    by (induction xss) (auto simp: length_concat o_def sum_list_const_mult sum_list_replicate map_replicate_const)
  then show ?thesis by (simp add: combine_def)
qed

lemma combine_failed_first:
  assumes "c \<in> set (combine parts pools)" "r \<in> set (cb_runs c)" "tr_outcome r = Failed"
  shows "cb_outcome c = Failed \<and> cb_devices c = []"
proof -
  obtain runs where runs: "runs \<in> set (product_lists (map pa_runs parts))"
    and c: "c = (let failed = [r \<leftarrow> runs. tr_outcome r = Failed]; skipped = [r \<leftarrow> runs. tr_outcome r = NotApplicable]
       in if failed \<noteq> [] then \<lparr>cb_runs = runs, cb_outcome = Failed,
              cb_reason = Reasons (map tr_reason failed), cb_devices = []\<rparr>
          else if skipped \<noteq> [] then \<lparr>cb_runs = runs, cb_outcome = NotApplicable,
              cb_reason = Reasons (map tr_reason skipped), cb_devices = []\<rparr>
          else assign_devices parts runs pools)"
    using assms(1) unfolding combine_def by auto
  have "cb_runs c = runs" unfolding c by (simp add: Let_def assign_devices_def claim_groups_runs)
  with assms(2,3) have "[r \<leftarrow> runs. tr_outcome r = Failed] \<noteq> []" by (auto simp: filter_empty_conv)
  then show ?thesis unfolding c by (simp add: Let_def)
qed

section \<open>Matrix formation: majors, families and the first run\<close>

lemma version_runs_majors:
  "map tr_major [r \<leftarrow> version_runs base coords spec cands vf. tr_major r \<noteq> None] =
     map Some (sorted_list_of_set (set (spec_majors spec) \<union>
       {major (df_version d) | d. d \<in> set cands \<and>
          (\<exists>alt\<in>set (vs_alternatives spec). \<not> vr_bounded alt \<and> vr_contains alt (df_version d))}))"
proof -
  let ?opens = "[alt \<leftarrow> vs_alternatives spec. \<not> vr_bounded alt]"
  let ?in = "[d \<leftarrow> cands. \<exists>alt\<in>set ?opens. vr_contains alt (df_version d)]"
  let ?ms = "spec_majors spec @ map (\<lambda>d. major (df_version d)) ?in"
  have "sort (remdups ?ms) = sorted_list_of_set (set ?ms)"
    by (simp only: sorted_list_of_set_sort_remdups)
  moreover have "map tr_major [r \<leftarrow> version_runs base coords spec cands vf. tr_major r \<noteq> None] =
     map Some (sort (remdups ?ms))"
    unfolding version_runs_def Let_def by (simp add: o_def)
  moreover have "set ?ms = set (spec_majors spec) \<union>
       {major (df_version d) | d. d \<in> set cands \<and>
          (\<exists>alt\<in>set (vs_alternatives spec). \<not> vr_bounded alt \<and> vr_contains alt (df_version d))}"
    by auto
  ultimately show ?thesis by (simp only:)
qed

lemma find_cong_set: "(\<And>x. x \<in> set xs \<Longrightarrow> P x = Q x) \<Longrightarrow> List.find P xs = List.find Q xs"
  by (induction xs) auto

lemma with_family_pool_order:
  "set cands = set cands' \<Longrightarrow> tr_family (with_family run fs cands seen n) = tr_family (with_family run fs cands' seen n)
     \<and> tr_outcome (with_family run fs cands seen n) = tr_outcome (with_family run fs cands' seen n)"
proof -
  assume eq: "set cands = set cands'"
  have "List.find (\<lambda>f. \<exists>d\<in>set [d \<leftarrow> cands. in_run d (tr_spec run) (tr_major run)]. matches_family d (Some f)) fs =
        List.find (\<lambda>f. \<exists>d\<in>set [d \<leftarrow> cands'. in_run d (tr_spec run) (tr_major run)]. matches_family d (Some f)) fs"
    by (rule find_cong_set) (simp add: eq)
  then show ?thesis
    unfolding with_family_def Let_def by (auto split: option.splits)
qed


lemma matches_family_None [simp]: "matches_family d None"
  by (simp add: matches_family_def)

lemma in_run_None [simp]: "in_run d None m" and in_run_Some:
  "in_run d (Some s) m \<longleftrightarrow> spec_contains s (df_version d) \<and> (m = None \<or> m = Some (major (df_version d)))"
  by (auto simp: in_run_def split: option.splits)

lemma take_first_fits:
  assumes "take_first target platform kind m spec families devices = Inr (run, dev)"
  shows "\<exists>d. dev = Some d \<and> d \<in> set devices \<and> fits run d \<and> (spec \<noteq> None \<longrightarrow>
     (\<forall>e\<in>set devices. matches_kind e kind \<and> matches_model e m \<and> in_run e spec None \<and>
        matches_family e (tr_family run) \<longrightarrow> major (df_version e) \<le> major (df_version d)))"
proof -
  define fam where "fam = List.find (\<lambda>f. \<exists>d\<in>set [d \<leftarrow> devices. matches_kind d kind \<and>
      matches_model d m \<and> in_run d spec None]. matches_family d (Some f)) families"
  define fitting where "fitting = [d \<leftarrow> devices. matches_kind d kind \<and> matches_model d m \<and>
      in_run d spec None \<and> matches_family d fam]"
  define M where "M = Max (set (map (\<lambda>d. major (df_version d)) fitting))"
  have ff: "filter (\<lambda>d. matches_family d fam) [d \<leftarrow> devices. matches_kind d kind \<and>
      matches_model d m \<and> in_run d spec None] = fitting"
    unfolding fitting_def by (simp add: conj_assoc)
  from assms have ne: "fitting \<noteq> []"
    and run: "run = (target_run0 target platform)\<lparr>tr_model := m, tr_spec := spec,
       tr_major := (if spec = None then None else Some M), tr_kind := kind, tr_family := fam,
       tr_conditioned := True\<rparr>"
    and dev: "dev = (case eligible_set run devices 1 of Some (d # _) \<Rightarrow> Some d | _ \<Rightarrow> None)"
    unfolding take_first_def Let_def fam_def [symmetric] ff M_def by (auto split: if_splits)
  have top: "\<And>e. e \<in> set fitting \<Longrightarrow> major (df_version e) \<le> M" unfolding M_def by simp
  have "M \<in> (\<lambda>d. major (df_version d)) ` set fitting" unfolding M_def using ne Max_in by auto
  then obtain w where w: "w \<in> set fitting" "major (df_version w) = M" by blast
  have fit: "fits run w"
    using w unfolding fitting_def fits_def run by (cases spec) (simp_all add: in_run_Some target_run0_def)
  have cond: "tr_conditioned run" unfolding run by simp
  have "eligible_set run devices 1 \<noteq> None"
  proof
    assume "eligible_set run devices 1 = None"
    then have "length (cell run devices (df_model w) (df_version w)) < 1"
      using eligible_set_None_iff [OF cond zero_less_one, of devices] by simp
    then have "cell run devices (df_model w) (df_version w) = []" by simp
    moreover have "w \<in> set devices" using w(1) unfolding fitting_def by simp
    then have "w \<in> set (cell run devices (df_model w) (df_version w))"
      using fit unfolding cell_def by simp
    ultimately show False by simp
  qed
  then obtain ds where ds: "eligible_set run devices 1 = Some ds" by blast
  from eligible_set_Some [OF cond ds] obtain mo v where cell: "ds = cell run devices mo v" "1 \<le> length ds"
    by metis
  have "ds \<noteq> []" using cell(2) by auto
  then obtain d ds' where d: "ds = d # ds'" by (meson neq_Nil_conv)
  then have "d \<in> set (cell run devices mo v)" using cell(1) by (metis list.set_intros(1))
  then have din: "d \<in> set devices" "fits run d" by (simp_all add: cell_def)
  have "dev = Some d" using dev ds d by simp
  moreover have "major (df_version e) \<le> major (df_version d)"
    if "spec \<noteq> None" "e \<in> set devices" "matches_kind e kind" "matches_model e m" "in_run e spec None"
      "matches_family e (tr_family run)" for e
  proof -
    have "e \<in> set fitting" using that unfolding fitting_def run by simp
    then have "major (df_version e) \<le> M" by (rule top)
    moreover have "major (df_version d) = M"
      using din(2) that(1) unfolding fits_def run by (auto simp: in_run_Some)
    ultimately show ?thesis by simp
  qed
  ultimately show ?thesis using din by blast
qed

lemma coordinates_key_alt:
  "coordinates_key c = join ''; '' (map (\<lambda>(target, fields).
     target @ '': '' @ join '', '' (map (\<lambda>(k, v). k @ ''='' @ v) fields))
     (sort_key fst (map (\<lambda>(t, fs). (t, sort fs)) c)))"
proof -
  have "sort_key fst (map (\<lambda>(t, fs). (t, sort fs)) c) = map (\<lambda>(t, fs). (t, sort fs)) (sort_key fst c)"
  proof -
    have ins: "insort_key fst (case x of (t, fs) \<Rightarrow> (t, sort fs)) (map (\<lambda>(t, fs). (t, sort fs)) ys) =
        map (\<lambda>(t, fs). (t, sort fs)) (insort_key fst x ys)" for x :: "string \<times> (string \<times> string) list" and ys
      by (induction ys) (auto split: prod.splits)
    have "foldr (insort_key fst) (map (\<lambda>(t, fs). (t, sort fs)) c) [] =
       map (\<lambda>(t, fs). (t, sort fs)) (foldr (insort_key fst) c [])"
      by (induction c) (simp_all add: ins)
    then show ?thesis by (simp add: sort_key_def)
  qed
  then show ?thesis
    unfolding coordinates_key_def by (simp add: o_def case_prod_unfold)
qed

lemma coordinates_key_cong:
  assumes wf: "dict_wf c" "dict_wf c'" and fields: "\<forall>(t, fs)\<in>set c \<union> set c'. dict_wf fs"
    and same: "\<forall>t k. (case dict_get c t of None \<Rightarrow> None | Some fs \<Rightarrow> Some (dict_get fs k)) =
                     (case dict_get c' t of None \<Rightarrow> None | Some fs \<Rightarrow> Some (dict_get fs k))"
  shows "coordinates_key c = coordinates_key c'"
proof -
  have sub: "(t, sort fs) \<in> set (map (\<lambda>(t, fs). (t, sort fs)) d')"
    if d: "dict_wf d" "dict_wf d'" "(t, fs) \<in> set d" "dict_wf fs" "\<forall>(t, fs)\<in>set d'. dict_wf fs"
      and eq: "\<forall>t k. (case dict_get d t of None \<Rightarrow> None | Some fs \<Rightarrow> Some (dict_get fs k)) =
                     (case dict_get d' t of None \<Rightarrow> None | Some fs \<Rightarrow> Some (dict_get fs k))"
    for d d' :: coordinates and t fs
  proof -
    have "dict_get d t = Some fs" using d by (simp add: dict_get_iff)
    with eq have "\<forall>k. Some (dict_get fs k) = (case dict_get d' t of None \<Rightarrow> None | Some fs \<Rightarrow> Some (dict_get fs k))"
      by (metis option.simps(5))
    then obtain gs where gs: "dict_get d' t = Some gs" "\<forall>k. dict_get fs k = dict_get gs k"
      by (cases "dict_get d' t") auto
    then have mem: "(t, gs) \<in> set d'" using d by (simp add: dict_get_iff)
    with d(5) have wfg: "dict_wf gs" by auto
    have "set fs = set gs"
      using gs(2) dict_get_iff [OF d(4)] dict_get_iff [OF wfg] by auto
    moreover have "distinct fs" "distinct gs"
      using d(4) wfg by (auto simp: dict_wf_def distinct_map)
    ultimately have "mset fs = mset gs" by (simp add: set_eq_iff_mset_eq_distinct)
    then have "sort fs = sort gs" by (metis mset_sort properties_for_sort sorted_sort)
    then show ?thesis using mem by force
  qed
  let ?s = "map (\<lambda>(t, fs). (t, sort fs))"
  have "set (?s c) \<subseteq> set (?s c')"
    using sub [OF wf] fields same by fastforce
  moreover have "set (?s c') \<subseteq> set (?s c)"
    using sub [OF wf(2,1)] fields same by fastforce
  ultimately have eq: "set (?s c) = set (?s c')" by (rule subset_antisym)
  have fst_s: "map fst (?s d) = map fst d" for d :: coordinates by (induction d) auto
  have dist: "distinct (map fst (?s c))" "distinct (map fst (?s c'))"
    using wf by (simp_all add: fst_s dict_wf_def del: map_map)
  then have ms: "mset (?s c) = mset (?s c')"
    using eq by (simp add: set_eq_iff_mset_eq_distinct distinct_map del: map_map set_map)
  have "sort_key fst (?s c) = sort_key fst (?s c')"
  proof (rule sort_key_inj_key_eq)
    show "mset (?s c) = mset (sort_key fst (?s c'))" using ms by simp
    show "inj_on fst (set (?s c))" using dist(1) by (simp add: distinct_map del: map_map set_map)
    show "sorted (map fst (sort_key fst (?s c')))" by simp
  qed
  then show ?thesis by (simp add: coordinates_key_alt)
qed

lemma web_runs_unconditioned:
  "web_runs target conditions browsers engine = Inr runs \<Longrightarrow> r \<in> set runs \<Longrightarrow> \<not> tr_conditioned r"
proof -
  have one: "web_run target spec browsers is_listed n = Inr r \<Longrightarrow> \<not> tr_conditioned r" for spec is_listed n r
    by (auto simp: web_run_def Let_def target_run0_def split: option.splits if_splits)
  assume "web_runs target conditions browsers engine = Inr runs" "r \<in> set runs"
  then show ?thesis
    by (auto simp: web_runs_def Let_def each_Inr_set dest: one split: prod.splits sum.splits)
qed

section \<open>Claiming takes the whole cell\<close>

lemma eligible_set_uniform:
  assumes "tr_conditioned run" "ds \<noteq> []" "\<forall>d\<in>set ds. fits run d \<and> df_model d = m \<and> df_version d = v"
  shows "eligible_set run ds 1 = Some ds"
proof -
  have whole: "cell run ds m v = ds" using assms(3) by (simp add: cell_def)
  then have "\<not> length (cell run ds m v) < 1" using assms(2) by (cases ds) simp_all
  then have "eligible_set run ds 1 \<noteq> None"
    using eligible_set_None_iff [OF assms(1) zero_less_one, of ds] by metis
  then obtain es where es: "eligible_set run ds 1 = Some es" by blast
  from eligible_set_Some [OF assms(1) this] obtain m' v' where c: "es = cell run ds m' v'" "1 \<le> length es"
    by metis
  then have "cell run ds m' v' \<noteq> []" by auto
  then obtain d where "d \<in> set (cell run ds m' v')" using last_in_set by blast
  then have "m' = m \<and> v' = v" using assms(3) by (auto simp: cell_def)
  with es c whole show ?thesis by simp
qed

lemma eligible_set_nothing: "tr_conditioned run \<Longrightarrow> eligible_set run [] 1 = None"
  by (simp add: eligible_set_None_iff cell_def)

definition solo :: "string \<Rightarrow> string \<Rightarrow> target_run \<Rightarrow> participant" where
  "solo target pool run = \<lparr>pa_targets = [target], pa_pool = pool, pa_runs = [run]\<rparr>"

lemma solo_groups:
  assumes "run_key_of ra \<noteq> run_key_of rb"
  shows "participant_groups [solo ta p ra, solo tb p rb] [ra, rb] [(p, ds)] = [[0], [1]]"
proof -
  have "[i \<leftarrow> [0..<2::nat]. dict_get [(p, ds)] (pa_pool ([solo ta p ra, solo tb p rb] ! i)) \<noteq> None] = [0, 1]"
    by (simp add: upt_rec solo_def dict_get_def)
  then show ?thesis
    using assms by (simp add: participant_groups_def group_by_def group_add_def solo_def dict_get_def numeral_2_eq_2)
qed

section \<open>Properties\<close>

text \<open>The devices a conditioned run may take all meet its conditions and share one model and one
  release, there are at least as many as demanded, and they are all the pool has of that model and
  release, which is the newest of the model that offers enough; a set is refused exactly when no
  model and release of the pool has enough fitting devices.\<close>
theorem eligible_set_correct:
  assumes "tr_conditioned run" "0 < demand"
  shows "case eligible_set run devices demand of
     None \<Rightarrow> \<forall>m v. length [d \<leftarrow> devices. fits run d \<and> df_model d = m \<and> df_version d = v] < demand
   | Some ds \<Rightarrow> demand \<le> length ds \<and>
       (\<exists>m v. ds = [d \<leftarrow> devices. fits run d \<and> df_model d = m \<and> df_version d = v] \<and>
          (\<forall>w>v. length [d \<leftarrow> devices. fits run d \<and> df_model d = m \<and> df_version d = w] < demand))"
proof (cases "eligible_set run devices demand")
  case None
  with eligible_set_None_iff [OF assms, of devices] show ?thesis by (simp add: cell_def)
next
  case (Some ds)
  from eligible_set_Some [OF assms(1) this] obtain m v where mv: "ds = cell run devices m v" "demand \<le> length ds"
    and newest: "\<And>w. demand \<le> length (cell run devices m w) \<Longrightarrow> cell run devices m w \<noteq> [] \<Longrightarrow> w \<le> v"
    by metis
  have "length (cell run devices m w) < demand" if "v < w" for w
  proof (rule ccontr)
    assume "\<not> length (cell run devices m w) < demand"
    then have "demand \<le> length (cell run devices m w)" "cell run devices m w \<noteq> []" using assms(2) by auto
    from newest [OF this] that show False by simp
  qed
  with Some mv show ?thesis by (auto simp: cell_def)
qed

definition sample_device :: "string \<Rightarrow> version \<Rightarrow> device_facts" where
  "sample_device udid v = \<lparr>df_udid = udid, df_platform = ''ios'', df_model = ''iPhone 15'', df_version = v,
     df_avd = None, df_family = Some ''iPhone'', df_physical = False\<rparr>"

definition sample_run :: "string \<Rightarrow> string \<Rightarrow> target_run" where
  "sample_run target fam = (target_run0 target ''ios'')\<lparr>tr_conditioned := True, tr_family := Some fam\<rparr>"

theorem eligible_set_correct_witness:
  "eligible_set (sample_run ''app'' ''iphone'') [sample_device ''A'' (Version 17 0 0), sample_device ''B'' (Version 18 0 0)] 1
     = Some [sample_device ''B'' (Version 18 0 0)]"
proof -
  let ?ds = "[sample_device ''A'' (Version 17 0 0), sample_device ''B'' (Version 18 0 0)]"
  have "eligible_set (sample_run ''app'' ''iphone'') ?ds 1 = Some [sample_device ''B'' (Version 18 0 0)]" by code_simp
  moreover have "tr_conditioned (sample_run ''app'' ''iphone'')" by (simp add: sample_run_def)
  ultimately show ?thesis
    using eligible_set_correct [of "sample_run ''app'' ''iphone''" 1 ?ds] by simp
qed

text \<open>C11: In every combination, two participants on one pool either draw on the same conditions and
  record the same devices, or record disjoint device sets: no device is held twice.\<close>
theorem combinations_never_share_devices:
  assumes "c \<in> set (combine parts pools)" "inj_on (\<lambda>i. hd (pa_targets (parts ! i))) {..<length parts}"
    and "i < length parts" "j < length parts" "pa_pool (parts ! i) = pa_pool (parts ! j)"
    and "dict_get (cb_devices c) (hd (pa_targets (parts ! i))) = Some us"
    and "dict_get (cb_devices c) (hd (pa_targets (parts ! j))) = Some vs"
  shows "if run_key_of (cb_runs c ! i) = run_key_of (cb_runs c ! j) then us = vs else set us \<inter> set vs = {}"
  by (rule combine_exclusive) (use assms in \<open>simp_all add: owner_def [abs_def]\<close>)

theorem combinations_never_share_devices_witness:
  "\<exists>c. set [''A''] \<inter> set [''B''] = {} \<and> c \<in> set (combine
     [solo ''app'' ''pool'' (sample_run ''app'' ''iphone''), solo ''peer'' ''pool'' (sample_run ''peer'' ''ipad'')]
     [(''pool'', [sample_device ''A'' (Version 17 0 0), (sample_device ''B'' (Version 17 0 0))\<lparr>df_family := Some ''iPad''\<rparr>])])"
proof -
  let ?parts = "[solo ''app'' ''pool'' (sample_run ''app'' ''iphone''), solo ''peer'' ''pool'' (sample_run ''peer'' ''ipad'')]"
  let ?pools = "[(''pool'', [sample_device ''A'' (Version 17 0 0), (sample_device ''B'' (Version 17 0 0))\<lparr>df_family := Some ''iPad''\<rparr>])]"
  have one: "map cb_devices (combine ?parts ?pools) = [[(''app'', [''A'']), (''peer'', [''B''])]]" by code_simp
  then obtain c where c: "combine ?parts ?pools = [c]" and d: "cb_devices c = [(''app'', [''A'']), (''peer'', [''B''])]"
    by (auto simp: map_eq_Cons_conv)
  have runs: "map cb_runs (combine ?parts ?pools) = [[sample_run ''app'' ''iphone'', sample_run ''peer'' ''ipad'']]"
    by (simp add: combine_def Let_def assign_devices_def claim_groups_runs solo_def)
  have inj: "inj_on (\<lambda>i. hd (pa_targets (?parts ! i))) {..<length ?parts}"
    by (auto simp: inj_on_def solo_def less_Suc_eq)
  have mem: "c \<in> set (combine ?parts ?pools)" by (simp add: c)
  have "if run_key_of (cb_runs c ! 0) = run_key_of (cb_runs c ! 1) then [''A''] = [''B''] else set [''A''] \<inter> set [''B''] = {}"
    by (rule combinations_never_share_devices [OF mem inj]) (simp_all add: d solo_def dict_get_def)
  then show ?thesis using mem by auto
qed

text \<open>A combination exists for every choice of one run per participant; it fails, and takes no
  device, as soon as one of its runs has failed, whatever the others are.\<close>
theorem combinations_cover_the_matrix:
  "length (combine parts pools) = prod_list (map (length \<circ> pa_runs) parts) \<and>
   (\<forall>c\<in>set (combine parts pools). cb_runs c \<in> set (product_lists (map pa_runs parts)) \<and>
      ((\<exists>r\<in>set (cb_runs c). tr_outcome r = Failed) \<longrightarrow> cb_outcome c = Failed \<and> cb_devices c = []))"
  using combine_count [of parts pools] combine_mem [of _ parts pools] combine_failed_first [of _ parts pools]
  by blast

theorem combinations_cover_the_matrix_witness:
  "length (combine [solo ''app'' ''pool'' (sample_run ''app'' ''iphone'')] []) = 1"
  using combinations_cover_the_matrix [of "[solo ''app'' ''pool'' (sample_run ''app'' ''iphone'')]" "[]"]
  by (simp add: solo_def)

text \<open>A conditioned participant claims every device of the model and release it takes, not a set
  sized to its own count: when one model and release is all a pool has, a second conditioned
  participant with other conditions is refused however many devices remain unused.\<close>
theorem conditioned_claim_takes_the_whole_cell:
  assumes "tr_outcome ra = Run" "tr_outcome rb = Run" "tr_conditioned ra" "tr_conditioned rb"
    and "run_key_of ra \<noteq> run_key_of rb" "ds \<noteq> []"
    and "\<forall>d\<in>set ds. fits ra d \<and> fits rb d \<and> df_model d = m \<and> df_version d = v"
  shows "map cb_outcome (combine [solo ta p ra, solo tb p rb] [(p, ds)]) = [Failed]"
proof -
  have groups: "conditioned_first [ra, rb] (participant_groups [solo ta p ra, solo tb p rb] [ra, rb] [(p, ds)]) = [[0], [1]]"
    using assms by (simp add: solo_groups conditioned_first_def)
  have "eligible_set ra ds 1 = Some ds" using assms by (intro eligible_set_uniform) auto
  then have "cb_outcome (assign_devices [solo ta p ra, solo tb p rb] [ra, rb] [(p, ds)]) = Failed"
    using assms(3,4) eligible_set_nothing [OF assms(4)]
    unfolding assign_devices_def groups
    by (simp add: solo_def dict_get_def claimed_in_def Let_def)
  then show ?thesis using assms(1,2) by (simp add: combine_def solo_def)
qed

theorem conditioned_claim_takes_the_whole_cell_witness:
  "map cb_outcome (combine [solo ''app'' ''pool'' (sample_run ''app'' ''iphone''),
      solo ''peer'' ''pool'' ((sample_run ''peer'' ''iphone'')\<lparr>tr_model := Some ''iPhone 15''\<rparr>)]
     [(''pool'', [sample_device ''A'' (Version 17 0 0), sample_device ''B'' (Version 17 0 0)])]) = [Failed]"
proof (rule conditioned_claim_takes_the_whole_cell)
  have "fits (sample_run ''app'' ''iphone'') (sample_device u (Version 17 0 0)) \<and>
     fits ((sample_run ''peer'' ''iphone'')\<lparr>tr_model := Some ''iPhone 15''\<rparr>) (sample_device u (Version 17 0 0))" for u
  proof -
    have "map lower_char ''iPhone'' = ''iphone''" by code_simp
    then show ?thesis
      by (simp add: fits_def sample_run_def sample_device_def target_run0_def matches_kind_def matches_family_def
          matches_model_def)
  qed
  then show "\<forall>d\<in>set [sample_device ''A'' (Version 17 0 0), sample_device ''B'' (Version 17 0 0)].
     fits (sample_run ''app'' ''iphone'') d \<and>
     fits ((sample_run ''peer'' ''iphone'')\<lparr>tr_model := Some ''iPhone 15''\<rparr>) d \<and>
     df_model d = ''iPhone 15'' \<and> df_version d = Version 17 0 0"
    by (auto simp: sample_device_def)
qed (simp_all add: sample_run_def target_run0_def run_key_of_def)

text \<open>A range forms one run per major version, ascending: the majors its bounded sides cover,
  then those the candidate devices have on an open side; a range open on a side that no candidate
  meets also records the run as not applicable, and nothing else does.\<close>
theorem version_runs_form_majors:
  "let runs = version_runs base coords spec cands vf;
       opens = [alt \<leftarrow> vs_alternatives spec. \<not> vr_bounded alt];
       in_open = [d \<leftarrow> cands. \<exists>alt\<in>set opens. vr_contains alt (df_version d)]
   in map tr_major [r \<leftarrow> runs. tr_major r \<noteq> None] =
        map Some (sorted_list_of_set (set (spec_majors spec) \<union> (\<lambda>d. major (df_version d)) ` set in_open)) \<and>
      [r \<leftarrow> runs. tr_major r = None] \<noteq> [] = (opens \<noteq> [] \<and> in_open = [])"
proof -
  have "(\<lambda>d. major (df_version d)) ` set [d \<leftarrow> cands. \<exists>alt\<in>set [alt \<leftarrow> vs_alternatives spec. \<not> vr_bounded alt].
        vr_contains alt (df_version d)] =
     {major (df_version d) | d. d \<in> set cands \<and>
        (\<exists>alt\<in>set (vs_alternatives spec). \<not> vr_bounded alt \<and> vr_contains alt (df_version d))}" by auto
  moreover have "[r \<leftarrow> version_runs base coords spec cands vf. tr_major r = None] \<noteq> [] =
     ([alt \<leftarrow> vs_alternatives spec. \<not> vr_bounded alt] \<noteq> [] \<and>
      [d \<leftarrow> cands. \<exists>alt\<in>set [alt \<leftarrow> vs_alternatives spec. \<not> vr_bounded alt]. vr_contains alt (df_version d)] = [])"
    unfolding version_runs_def Let_def by (simp add: filter_empty_conv)
  ultimately show ?thesis
    unfolding Let_def using version_runs_majors [of base coords spec cands vf] by simp
qed

text \<open>The one run of \<open>record\<close>, \<open>crawl\<close> and \<open>repl\<close> always comes with a device that meets
  every condition of the run, of the newest major version the fitting devices have; the assertion in
  the code cannot fail.\<close>
theorem first_run_has_a_device:
  assumes "first_run target platform conditions devices engine = Inr (run, dev)" "tr_conditioned run"
  shows "\<exists>d. dev = Some d \<and> d \<in> set devices \<and> fits run d \<and>
    (\<forall>e\<in>set devices. fits (run\<lparr>tr_major := None\<rparr>) e \<and> tr_spec run \<noteq> None \<longrightarrow>
       major (df_version e) \<le> major (df_version d))"
proof -
  have web: "web_runs target conditions devices engine = Inr runs \<Longrightarrow> r \<in> set runs \<Longrightarrow> \<not> tr_conditioned r"
    for runs r by (rule web_runs_unconditioned)
  from assms obtain kind m spec where t:
    "take_first target platform kind m spec (families_of conditions) devices = Inr (run, dev)"
    by (auto simp: first_run_def first_of_def result_simps target_run0_def
        dest!: web split: if_splits option.splits sum.splits list.splits prod.splits)
  have run: "tr_kind run = kind \<and> tr_model run = m \<and> tr_spec run = spec"
    using t by (auto simp: take_first_def Let_def split: if_splits)
  from take_first_fits [OF t] obtain d where d: "dev = Some d" "d \<in> set devices" "fits run d"
    and top: "spec \<noteq> None \<longrightarrow> (\<forall>e\<in>set devices. matches_kind e kind \<and> matches_model e m \<and> in_run e spec None \<and>
        matches_family e (tr_family run) \<longrightarrow> major (df_version e) \<le> major (df_version d))" by blast
  have "major (df_version e) \<le> major (df_version d)"
    if "e \<in> set devices" "fits (run\<lparr>tr_major := None\<rparr>) e" "tr_spec run \<noteq> None" for e
    using top that run by (simp add: fits_def)
  with d show ?thesis by blast
qed

theorem first_run_has_a_device_witness:
  "\<exists>r d. first_run ''app'' ''ios'' [(''family'', ManyC [''ipad'', ''iphone''])]
     [sample_device ''A'' (Version 17 0 0)] None = Inr (r, Some d) \<and> fits r d"
proof -
  let ?go = "first_run ''app'' ''ios'' [(''family'', ManyC [''ipad'', ''iphone''])] [sample_device ''A'' (Version 17 0 0)] None"
  have "map_sum (\<lambda>_. ()) (\<lambda>(r, d). (tr_conditioned r, tr_family r)) ?go = Inr (True, Some ''iphone'')" by code_simp
  then obtain r d where go: "?go = Inr (r, d)" and r: "tr_conditioned r" by (cases ?go) auto
  from first_run_has_a_device [OF go r] go show ?thesis by blast
qed

text \<open>Coordinates that name the same targets, fields and values spell the same history key, in
  whatever order they were recorded.\<close>
theorem coordinates_key_canonical:
  assumes "dict_wf c" "dict_wf c'" "\<forall>(t, fs)\<in>set c \<union> set c'. dict_wf fs"
    and "\<forall>t k. map_option (\<lambda>fs. dict_get fs k) (dict_get c t) = map_option (\<lambda>fs. dict_get fs k) (dict_get c' t)"
  shows "coordinates_key c = coordinates_key c'"
proof (rule coordinates_key_cong [OF assms(1-3)])
  show "\<forall>t k. (case dict_get c t of None \<Rightarrow> None | Some fs \<Rightarrow> Some (dict_get fs k)) =
      (case dict_get c' t of None \<Rightarrow> None | Some fs \<Rightarrow> Some (dict_get fs k))"
    using assms(4) by (simp add: map_option_case)
qed

theorem coordinates_key_canonical_witness:
  "coordinates_key [(''app'', [(''model'', ''iPhone''), (''os'', ''iOS 17'')])] =
   coordinates_key [(''app'', [(''os'', ''iOS 17''), (''model'', ''iPhone'')])]"
  by (rule coordinates_key_canonical) (auto simp: dict_wf_def dict_get_def)

end
