(* ===== verification/Glob.thy ===== *)
theory Glob
  imports Prelude
begin

text \<open>
  \<open>fnmatch.fnmatchcase\<close>, the glob language an \<open>idMatches\<close> selector is written in
  (\<open>src/bajutsu/common/drivers/base/_functions.py\<close> uses it in \<open>matches\<close>): the patterns
  \<open>*\<close>, \<open>?\<close>, \<open>[seq]\<close>, \<open>[!seq]\<close> with ranges, everything else literal.  The theory
  holds the translation of a pattern into tokens, the matcher, and its declarative meaning.
\<close>

datatype class_item = Single char | Range char char

datatype glob_token =
    Star
  | AnyChar
  | Lit char
  | CharClass bool "class_item list" \<comment> \<open>whether negated, and the items\<close>

section \<open>Reading a pattern\<close>

text \<open>
  The body of a bracket: \<open>c-d\<close> is a range wherever three characters remain, so a hyphen at
  either end, or right after a range, is literal.
\<close>

fun class_items :: "string \<Rightarrow> class_item list" where
  "class_items (c # h # d # cs) =
     (if h = CHR ''-'' then Range c d # class_items cs else Single c # class_items (h # d # cs))"
| "class_items (c # cs) = Single c # class_items cs"
| "class_items [] = []"

fun nonempty_item :: "class_item \<Rightarrow> bool" where
  "nonempty_item (Single c) = True"
| "nonempty_item (Range c d) = (c \<le> d)"

text \<open>
  \<open>translate\<close> drops empty ranges first and only then asks whether the class starts with
  \<open>!\<close>, so a \<open>!\<close> uncovered by a dropped range negates as well.
\<close>

fun lead :: "char \<Rightarrow> string \<Rightarrow> string \<times> string" where
  "lead c [] = ([], [])"
| "lead c (x # xs) = (if x = c then ([x], xs) else ([], x # xs))"

fun negated_class :: "class_item list \<Rightarrow> glob_token" where
  "negated_class (Single c # its) =
     (if c = CHR ''!'' then CharClass True its else CharClass False (Single c # its))"
| "negated_class (Range c d # its) =
     (if c = CHR ''!'' then CharClass True (Single (CHR ''-'') # Single d # its)
      else CharClass False (Range c d # its))"
| "negated_class [] = CharClass False []"

definition char_class :: "string \<Rightarrow> glob_token" where
  "char_class body =
     (let (bang, rest) = lead (CHR ''!'') body
      in if bang \<noteq> [] then CharClass True (List.filter nonempty_item (class_items rest))
         else negated_class (List.filter nonempty_item (class_items body)))"

text \<open>
  Where the bracket opened by \<open>[\<close> closes: a leading \<open>!\<close> and then a leading \<open>]\<close> belong to
  the body.  \<open>None\<close> when it never closes (the \<open>[\<close> is then literal), otherwise the body and
  the rest of the pattern.
\<close>

fun until_close :: "string \<Rightarrow> (string \<times> string) option" where
  "until_close [] = None"
| "until_close (c # cs) =
     (if c = CHR '']'' then Some ([], cs)
      else map_option (\<lambda>(b, r). (c # b, r)) (until_close cs))"

definition bracket_body :: "string \<Rightarrow> (string \<times> string) option" where
  "bracket_body cs =
     (let (bang, cs1) = lead (CHR ''!'') cs; (close, cs2) = lead (CHR '']'') cs1
      in map_option (\<lambda>(b, r). (bang @ close @ b, r)) (until_close cs2))"

lemma until_close_shorter: "until_close cs = Some (b, r) \<Longrightarrow> length r < length cs"
  by (induction cs arbitrary: b) (auto split: if_splits intro: less_SucI)

lemma lead_length: "length (snd (lead c xs)) \<le> length xs"
  by (cases xs) auto

lemma bracket_body_shorter: "bracket_body cs = Some (b, r) \<Longrightarrow> length r < length cs"
proof -
  assume *: "bracket_body cs = Some (b, r)"
  define cs1 where "cs1 = snd (lead (CHR ''!'') cs)"
  define cs2 where "cs2 = snd (lead (CHR '']'') cs1)"
  from * obtain b' where "until_close cs2 = Some (b', r)"
    by (auto simp: bracket_body_def cs1_def cs2_def split: prod.splits)
  then have "length r < length cs2" by (rule until_close_shorter)
  moreover have "length cs2 \<le> length cs1" "length cs1 \<le> length cs"
    by (simp_all add: cs1_def cs2_def lead_length)
  ultimately show ?thesis by simp
qed

function glob_tokens :: "string \<Rightarrow> glob_token list" where
  "glob_tokens [] = []"
| "glob_tokens (c # cs) =
     (if c = CHR ''*'' then Star # glob_tokens cs
      else if c = CHR ''?'' then AnyChar # glob_tokens cs
      else if c = CHR ''['' then
        (case bracket_body cs of
           None \<Rightarrow> Lit c # glob_tokens cs
         | Some (body, rest) \<Rightarrow> char_class body # glob_tokens rest)
      else Lit c # glob_tokens cs)"
  by pat_completeness auto
termination
  by (relation "measure length") (auto dest: bracket_body_shorter)

section \<open>Matching\<close>

fun item_has :: "class_item \<Rightarrow> char \<Rightarrow> bool" where
  "item_has (Single c) x = (x = c)"
| "item_has (Range c d) x = (c \<le> x \<and> x \<le> d)"

fun token_accepts :: "glob_token \<Rightarrow> char \<Rightarrow> bool" where
  "token_accepts Star x = False"
| "token_accepts AnyChar x = True"
| "token_accepts (Lit c) x = (x = c)"
| "token_accepts (CharClass neg its) x = (list_ex (\<lambda>it. item_has it x) its \<noteq> neg)"

fun glob_match :: "glob_token list \<Rightarrow> string \<Rightarrow> bool" where
  "glob_match [] s = (s = [])"
| "glob_match (Star # ts) [] = glob_match ts []"
| "glob_match (Star # ts) (x # s) = (glob_match ts (x # s) \<or> glob_match (Star # ts) s)"
| "glob_match (t # ts) [] = False"
| "glob_match (t # ts) (x # s) = (token_accepts t x \<and> glob_match ts s)"

definition fnmatchcase :: "string \<Rightarrow> string \<Rightarrow> bool" where
  "fnmatchcase s pat = glob_match (glob_tokens pat) s"

section \<open>Meaning\<close>

lemma glob_match_Star:
  "glob_match (Star # ts) s \<longleftrightarrow> (\<exists>u v. s = u @ v \<and> glob_match ts v)"
proof (induction s)
  case Nil
  then show ?case by simp
next
  case (Cons x s)
  have "glob_match (Star # ts) (x # s) \<longleftrightarrow>
      glob_match ts (x # s) \<or> (\<exists>u v. s = u @ v \<and> glob_match ts v)"
    using Cons by simp
  also have "\<dots> \<longleftrightarrow> (\<exists>u v. x # s = u @ v \<and> glob_match ts v)"
    by (metis append_Cons append_Nil append_eq_Cons_conv)
  finally show ?case .
qed

lemma glob_match_lits: "glob_match (map Lit p @ ts) s \<longleftrightarrow> (\<exists>v. s = p @ v \<and> glob_match ts v)"
proof (induction p arbitrary: s)
  case (Cons c p)
  then show ?case by (cases s) auto
qed simp

definition plain_char :: "char \<Rightarrow> bool" where
  "plain_char c \<longleftrightarrow> c \<notin> {CHR ''*'', CHR ''?'', CHR ''[''}"

lemma glob_tokens_plain:
  "list_all plain_char p \<Longrightarrow> glob_tokens (p @ q) = map Lit p @ glob_tokens q"
  by (induction p) (auto simp: plain_char_def)

lemma fnmatchcase_plain: "list_all plain_char p \<Longrightarrow> fnmatchcase s p \<longleftrightarrow> s = p"
  using glob_tokens_plain [of p "[]"] glob_match_lits [of p "[]" s]
  by (simp add: fnmatchcase_def)

text \<open>A literal around one star, the shape \<open>*.submit\<close> or \<open>home.*\<close> of the scenarios.\<close>

lemma fnmatchcase_star:
  assumes "list_all plain_char p" and "list_all plain_char q"
  shows "fnmatchcase s (p @ CHR ''*'' # q) \<longleftrightarrow> (\<exists>m. s = p @ m @ q)"
proof -
  have "glob_tokens (p @ CHR ''*'' # q) = map Lit p @ Star # map Lit q"
    using glob_tokens_plain [OF assms(1), of "CHR ''*'' # q"] glob_tokens_plain [OF assms(2), of "[]"]
    by simp
  moreover have "glob_match (map Lit q) v \<longleftrightarrow> v = q" for v
    using glob_match_lits [of q "[]" v] by simp
  ultimately show ?thesis
    by (auto simp: fnmatchcase_def glob_match_lits glob_match_Star)
qed

section \<open>Properties\<close>

text \<open>An \<open>idMatches\<close> glob that is a literal prefix, one star and a literal suffix selects
  exactly the identifiers that start with the prefix and end with the suffix without overlap, and
  a glob without metacharacters selects exactly the identifier it spells.\<close>
theorem glob_selects_affixes:
  assumes "list_all plain_char p" "list_all plain_char q"
  shows "(fnmatchcase s (p @ CHR ''*'' # q) \<longleftrightarrow> (\<exists>m. s = p @ m @ q)) \<and> (fnmatchcase s p \<longleftrightarrow> s = p)"
  using fnmatchcase_star [OF assms] fnmatchcase_plain [OF assms(1)] by blast

theorem glob_selects_affixes_witness: "fnmatchcase ''home.row.submit'' (''home.'' @ CHR ''*'' # ''.submit'')"
proof -
  have "''home.row.submit'' = ''home.'' @ ''row'' @ ''.submit''" by simp
  then have "\<exists>m. ''home.row.submit'' = ''home.'' @ m @ ''.submit''" by blast
  moreover have "list_all plain_char ''home.''" "list_all plain_char ''.submit''"
    by (simp_all add: plain_char_def)
  ultimately show ?thesis using glob_selects_affixes [of "''home.''" "''.submit''" "''home.row.submit''"] by blast
qed

end
