(* ===== verification/Selectors.thy ===== *)
theory Selectors
  imports Glob
begin

text \<open>
  Selector resolution, the determinism core (\<open>src/bajutsu/common/drivers/base/\<close>): elements,
  selectors, \<open>find_all\<close> with its one-entry identifier index, \<open>resolve_unique\<close>, the
  document-order occlusion check and the gesture geometry.  Elements carry \<open>el_ref\<close>, the
  object identity Python's \<open>is\<close> compares; no other operation reads it.  \<open>rx pat s\<close> stands
  for \<open>re.compile(pat).search(s) is not None\<close> on a pattern that compiles.
\<close>

section \<open>Elements and selectors\<close>

type_synonym point = "real \<times> real"
type_synonym frame = "real \<times> real \<times> real \<times> real"
type_synonym regex_search = "string \<Rightarrow> string \<Rightarrow> bool"

record element =
  el_ref :: nat
  el_identifier :: "string option"
  el_label :: "string option"
  el_traits :: "string list"
  el_value :: "string option"
  el_frame :: frame
  el_nativeZ :: "real option"
  el_crossOrigin :: bool

datatype id_spec = One string | Many "string list"

datatype selector = Sel
  (s_id: "id_spec option")
  (s_idMatches: "id_spec option")
  (s_label: "string option")
  (s_labelMatches: "string option")
  (s_traits: "string list option")
  (s_value: "string option")
  (s_within: "selector option")
  (s_index: "int option")

abbreviation by_id :: "string \<Rightarrow> selector" where
  "by_id i \<equiv> Sel (Some (One i)) None None None None None None None"

definition trait_other :: string where "trait_other = ''other''"
definition trait_not_enabled :: string where "trait_not_enabled = ''notEnabled''"
definition trait_selected :: string where "trait_selected = ''selected''"
definition trait_button :: string where "trait_button = ''button''"

fun id_candidates :: "id_spec \<Rightarrow> string list" where
  "id_candidates (One v) = [v]"
| "id_candidates (Many vs) = vs"

datatype candidates_error = BlankCandidate | CanonicalNotFirst

text \<open>\<open>None\<close> is an absent field.\<close>

definition validate_id_candidates :: "id_spec option \<Rightarrow> candidates_error + unit" where
  "validate_id_candidates v =
     (case v of
        Some (Many cs) \<Rightarrow>
          (if cs = [] \<or> (\<exists>c\<in>set cs. c = []) then Inl BlankCandidate
           else if CHR ''.'' \<notin> set (hd cs) \<and> (\<exists>c\<in>set (tl cs). CHR ''.'' \<in> set c)
           then Inl CanonicalNotFirst else Inr ())
      | _ \<Rightarrow> Inr ())"

definition without_cross_origin_frames :: "element list \<Rightarrow> element list" where
  "without_cross_origin_frames els = [el \<leftarrow> els. \<not> el_crossOrigin el]"

definition matches :: "regex_search \<Rightarrow> element \<Rightarrow> selector \<Rightarrow> bool" where
  "matches rx el sel \<longleftrightarrow>
     (case s_id sel of None \<Rightarrow> True
      | Some v \<Rightarrow> (case el_identifier el of None \<Rightarrow> False | Some i \<Rightarrow> i \<in> set (id_candidates v))) \<and>
     (case s_idMatches sel of None \<Rightarrow> True
      | Some v \<Rightarrow> (case el_identifier el of None \<Rightarrow> False
                  | Some i \<Rightarrow> (\<exists>p\<in>set (id_candidates v). fnmatchcase i p))) \<and>
     (case s_label sel of None \<Rightarrow> True | Some l \<Rightarrow> el_label el = Some l) \<and>
     (case s_labelMatches sel of None \<Rightarrow> True
      | Some p \<Rightarrow> (case el_label el of None \<Rightarrow> False | Some l \<Rightarrow> rx p l)) \<and>
     (case s_traits sel of None \<Rightarrow> True | Some ts \<Rightarrow> set ts \<subseteq> set (el_traits el)) \<and>
     (case s_value sel of None \<Rightarrow> True | Some w \<Rightarrow> el_value el = Some w)"

fun contains :: "frame \<Rightarrow> frame \<Rightarrow> bool" where
  "contains (x, y, w, h) (x', y', w', h') =
     (x' \<ge> x \<and> y' \<ge> y \<and> x' + w' \<le> x + w \<and> y' + h' \<le> y + h)"

lemma contains_refl [simp]: "contains f f"
  by (cases f) simp

lemma contains_trans: "contains a b \<Longrightarrow> contains b c \<Longrightarrow> contains a c"
  by (cases a; cases b; cases c) auto

section \<open>The identifier index and its one-entry cache\<close>

text \<open>
  \<open>idx.setdefault(el["identifier"], []).append(el)\<close> over the list, then \<open>.get(id, [])\<close>.
\<close>

type_synonym id_map = "(string option, element list) dict"

definition build_index :: "element list \<Rightarrow> id_map" where
  "build_index els = group_by el_identifier els"

definition index_get :: "id_map \<Rightarrow> string option \<Rightarrow> element list" where
  "index_get idx k = (case dict_get idx k of None \<Rightarrow> [] | Some els \<Rightarrow> els)"

text \<open>
  The module-level cache holds the identity of the list it was built from and the index.  A
  query result is \<open>(ref, els)\<close>: the list object's identity and its contents.
\<close>

type_synonym index_cache = "(nat \<times> id_map) option"

definition id_index :: "index_cache \<Rightarrow> nat \<times> element list \<Rightarrow> id_map \<times> index_cache" where
  "id_index cache q =
     (case cache of
        Some (r, idx) \<Rightarrow>
          (if r = fst q then (idx, cache)
           else (let i = build_index (snd q) in (i, Some (fst q, i))))
      | None \<Rightarrow> (let i = build_index (snd q) in (i, Some (fst q, i))))"

text \<open>The cache is coherent with a heap of lists when its index is that of the list it names.\<close>

definition cache_coherent :: "(nat \<Rightarrow> element list) \<Rightarrow> index_cache \<Rightarrow> bool" where
  "cache_coherent hp cache = (case cache of None \<Rightarrow> True | Some (r, idx) \<Rightarrow> idx = build_index (hp r))"

section \<open>Finding elements\<close>

text \<open>
  \<open>set(base_sel.keys()) == {"id"}\<close> with one candidate: the fast path.
\<close>

definition single_id :: "selector \<Rightarrow> string option" where
  "single_id sel =
     (case s_id sel of
        Some v \<Rightarrow>
          (if s_idMatches sel = None \<and> s_label sel = None \<and> s_labelMatches sel = None \<and>
              s_traits sel = None \<and> s_value sel = None \<and> s_index sel = None \<and>
              length (id_candidates v) = 1
           then Some (hd (id_candidates v)) else None)
      | None \<Rightarrow> None)"

definition find_base :: "regex_search \<Rightarrow> index_cache \<Rightarrow> nat \<times> element list \<Rightarrow> selector
    \<Rightarrow> element list \<times> index_cache" where
  "find_base rx cache q base =
     (case single_id base of
        Some k \<Rightarrow> (let (idx, c) = id_index cache q in (index_get idx (Some k), c))
      | None \<Rightarrow> ([el \<leftarrow> snd q. matches rx el base], cache))"

fun find_all :: "regex_search \<Rightarrow> index_cache \<Rightarrow> nat \<times> element list \<Rightarrow> selector
    \<Rightarrow> element list \<times> index_cache" where
  "find_all rx cache q (Sel i im l lm ts v w ix) =
     (let (found, cache1) = find_base rx cache q (Sel i im l lm ts v None ix)
      in (case w of
            None \<Rightarrow> (found, cache1)
          | Some ws \<Rightarrow>
              (let (parents, cache2) = find_all rx cache1 q ws;
                   scopes = map el_frame parents
               in ([el \<leftarrow> found. list_ex (\<lambda>s. contains s (el_frame el)) scopes], cache2))))"

text \<open>The reference: what \<open>find_all\<close> promises, without index or cache.\<close>

fun found_in :: "regex_search \<Rightarrow> element list \<Rightarrow> selector \<Rightarrow> element \<Rightarrow> bool" where
  "found_in rx els (Sel i im l lm ts v w ix) el =
     (matches rx el (Sel i im l lm ts v None ix) \<and>
      (case w of
         None \<Rightarrow> True
       | Some ws \<Rightarrow> (\<exists>p\<in>set els. found_in rx els ws p \<and> contains (el_frame p) (el_frame el))))"

section \<open>The index is the scan\<close>

lemma index_get_build: "index_get (build_index els) k = [el \<leftarrow> els. el_identifier el = k]"
  by (simp add: build_index_def index_get_def dict_get_group_by filter_key_absent)

lemma id_index_coherent:
  assumes "cache_coherent hp cache" and "id_index cache (r, hp r) = (idx, cache')"
  shows "idx = build_index (hp r) \<and> cache_coherent hp cache'"
  using assms
  by (auto simp: id_index_def cache_coherent_def Let_def split: option.splits if_splits)

lemma matches_single_id:
  "single_id sel = Some k \<Longrightarrow> s_within sel = None \<Longrightarrow>
     matches rx el sel \<longleftrightarrow> el_identifier el = Some k"
  by (cases sel)
    (auto simp: single_id_def matches_def length_Suc_conv split: option.splits if_splits)

lemma find_base_spec:
  assumes "cache_coherent hp cache" and "s_within base = None"
    and "find_base rx cache (r, hp r) base = (found, cache')"
  shows "found = [el \<leftarrow> hp r. matches rx el base] \<and> cache_coherent hp cache'"
proof (cases "single_id base")
  case None
  with assms show ?thesis by (simp add: find_base_def)
next
  case (Some k)
  obtain idx c where idx: "id_index cache (r, hp r) = (idx, c)"
    by (cases "id_index cache (r, hp r)")
  have "idx = build_index (hp r) \<and> cache_coherent hp c"
    using id_index_coherent [OF assms(1) idx] .
  with assms(2,3) Some idx show ?thesis
    by (simp add: find_base_def index_get_build matches_single_id)
qed

lemma find_all_spec:
  assumes "cache_coherent hp cache" and "find_all rx cache (r, hp r) sel = (found, cache')"
  shows "found = [el \<leftarrow> hp r. found_in rx (hp r) sel el] \<and> cache_coherent hp cache'"
  using assms
proof (induction sel arbitrary: cache found cache')
  case (Sel i im l lm ts v w ix)
  obtain found0 cache1 where part:
    "find_base rx cache (r, hp r) (Sel i im l lm ts v None ix) = (found0, cache1)"
    by fastforce
  have found0: "found0 = [el \<leftarrow> hp r. matches rx el (Sel i im l lm ts v None ix)]
      \<and> cache_coherent hp cache1"
    using find_base_spec [OF Sel.prems(1) _ part] by simp
  show ?case
  proof (cases w)
    case None
    then show ?thesis using Sel.prems(2) part found0 by simp
  next
    case (Some ws)
    obtain parents cache2 where ps: "find_all rx cache1 (r, hp r) ws = (parents, cache2)"
      by fastforce
    have "parents = [el \<leftarrow> hp r. found_in rx (hp r) ws el] \<and> cache_coherent hp cache2"
      using Sel.IH [of ws cache1 parents cache2] Some found0 ps by simp
    moreover have "found = [el \<leftarrow> found0. list_ex (\<lambda>s. contains s (el_frame el)) (map el_frame parents)]
        \<and> cache' = cache2"
      using Sel.prems(2) Some part ps by simp
    ultimately show ?thesis
      using found0 Some by (auto simp: list_ex_iff intro!: filter_cong)
  qed
qed

text \<open>Later definitions read the screen through this form, whose value the cache cannot change.\<close>

definition find_elements :: "regex_search \<Rightarrow> element list \<Rightarrow> selector \<Rightarrow> element list" where
  "find_elements rx els sel = fst (find_all rx None (0, els) sel)"

lemma find_elements_filter: "find_elements rx els sel = [el \<leftarrow> els. found_in rx els sel el]"
  using find_all_spec [of "\<lambda>_. els" None rx 0 sel]
  by (cases "find_all rx None (0, els) sel") (simp add: find_elements_def cache_coherent_def)

lemma find_elements_subset: "set (find_elements rx els sel) \<subseteq> set els"
  by (auto simp: find_elements_filter)

section \<open>Properties\<close>

text \<open>Whatever list the one-entry identifier cache was built from, a selector query on a
  later screen returns exactly the elements that satisfy the selector (its enclosing element
  included), in document order: the fast path and the cache never change an answer, and the cache
  stays coherent for the next query.\<close>
theorem find_all_cached_exact:
  assumes "cache_coherent hp cache"
  shows "fst (find_all rx cache (r, hp r) sel) = [el \<leftarrow> hp r. found_in rx (hp r) sel el] \<and>
    fst (find_all rx cache (r, hp r) sel) = find_elements rx (hp r) sel \<and>
    cache_coherent hp (snd (find_all rx cache (r, hp r) sel))"
  using find_all_spec [OF assms, of rx r sel] by (cases "find_all rx cache (r, hp r) sel")
    (simp add: find_elements_filter)

definition sample_element :: "nat \<Rightarrow> string \<Rightarrow> frame \<Rightarrow> element" where
  "sample_element r i f = \<lparr>el_ref = r, el_identifier = Some i, el_label = None, el_traits = [trait_button],
     el_value = None, el_frame = f, el_nativeZ = None, el_crossOrigin = False\<rparr>"

theorem find_all_cached_exact_witness:
  "fst (find_all (\<lambda>_ _. False) (Some (0, build_index [sample_element 1 ''a'' (0, 0, 9, 9)]))
     (1, [sample_element 2 ''b'' (0, 0, 9, 9)]) (by_id ''b'')) = [sample_element 2 ''b'' (0, 0, 9, 9)]"
proof -
  let ?hp = "\<lambda>r::nat. if r = 0 then [sample_element 1 ''a'' (0, 0, 9, 9)] else [sample_element 2 ''b'' (0, 0, 9, 9)]"
  have "cache_coherent ?hp (Some (0, build_index [sample_element 1 ''a'' (0, 0, 9, 9)]))"
    by (simp add: cache_coherent_def)
  from find_all_cached_exact [OF this, of "\<lambda>_ _. False" 1 "by_id ''b''"] show ?thesis
    by (simp add: matches_def sample_element_def)
qed

end
