(* ===== verification/Resolution.thy ===== *)
theory Resolution
  imports Selectors
begin

text \<open>
  From the elements a selector finds to the one element a step acts on
  (\<open>_collapse_identical_duplicates\<close>, \<open>resolve_unique\<close>, \<open>default_wait_for\<close> in
  \<open>src/bajutsu/common/drivers/base/_functions.py\<close>), the document-order occlusion check, and
  the gesture geometry.  The lemmas show that a resolved element is the only candidate up to
  reported content, that the outcome does not depend on the order the tree lists its elements
  in, and where gestures land.
\<close>

section \<open>Resolving to one element\<close>

datatype not_found = NoMatch | IndexOutOfRange int nat
datatype selector_error = ElementNotFound not_found | AmbiguousSelector nat

type_synonym content = "string option \<times> string option \<times> string list \<times> string option \<times> frame"

text \<open>\<open>tuple(sorted(set(traits)))\<close> makes the key independent of trait order and repeats.\<close>

definition content_key :: "element \<Rightarrow> content" where
  "content_key el =
     (el_identifier el, el_label el, sort (remdups (el_traits el)), el_value el, el_frame el)"

definition collapse_identical :: "element list \<Rightarrow> element list" where
  "collapse_identical els = firsts_by content_key [] els"

definition wants_other :: "selector \<Rightarrow> bool" where
  "wants_other sel = (case s_traits sel of None \<Rightarrow> False | Some ts \<Rightarrow> trait_other \<in> set ts)"

definition candidates :: "regex_search \<Rightarrow> element list \<Rightarrow> selector \<Rightarrow> element list" where
  "candidates rx els sel =
     (let cs = collapse_identical (find_elements rx els sel)
      in if length cs > 1 \<and> \<not> wants_other sel
         then (let without_other = [c \<leftarrow> cs. trait_other \<notin> set (el_traits c)]
               in if without_other \<noteq> [] then without_other else cs)
         else cs)"

definition resolve_unique :: "regex_search \<Rightarrow> element list \<Rightarrow> selector \<Rightarrow> selector_error + element" where
  "resolve_unique rx els sel =
     (let cs = candidates rx els sel
      in case s_index sel of
           Some i \<Rightarrow>
             (case py_index cs i of
                None \<Rightarrow> Inl (ElementNotFound (IndexOutOfRange i (length cs)))
              | Some el \<Rightarrow> Inr el)
         | None \<Rightarrow>
             (if cs = [] then Inl (ElementNotFound NoMatch)
              else if length cs > 1 then Inl (AmbiguousSelector (length cs))
              else Inr (hd cs)))"

definition default_wait_for :: "regex_search \<Rightarrow> element list \<Rightarrow> selector \<Rightarrow> bool" where
  "default_wait_for rx els sel \<longleftrightarrow> length (find_elements rx els sel) \<ge> 1"

lemma collapse_identical_subset: "set (collapse_identical els) \<subseteq> set els"
  by (simp add: collapse_identical_def firsts_by_subset)

lemma collapse_identical_keys: "content_key ` set (collapse_identical els) = content_key ` set els"
  by (simp add: collapse_identical_def firsts_by_keys)

lemma collapse_identical_distinct: "distinct (map content_key (collapse_identical els))"
  by (simp add: collapse_identical_def firsts_by_distinct)

lemma candidates_subset: "set (candidates rx els sel) \<subseteq> set (find_elements rx els sel)"
  using collapse_identical_subset [of "find_elements rx els sel"]
  by (auto simp: candidates_def Let_def split: if_splits)

lemma candidates_Nil_iff: "candidates rx els sel = [] \<longleftrightarrow> find_elements rx els sel = []"
  by (auto simp: candidates_def Let_def collapse_identical_def)

lemma candidates_distinct: "distinct (map content_key (candidates rx els sel))"
  using collapse_identical_distinct [of "find_elements rx els sel"]
  by (auto simp: candidates_def Let_def distinct_map_filter)

text \<open>
  A found element left out of the candidates has its content among them, or is an
  \<open>other\<close> tie a classified candidate displaced.
\<close>

lemma candidates_cover:
  assumes "el \<in> set (find_elements rx els sel)"
  shows "content_key el \<in> content_key ` set (candidates rx els sel) \<or>
    (trait_other \<in> set (el_traits el) \<and> \<not> wants_other sel \<and>
     (\<forall>c\<in>set (candidates rx els sel). trait_other \<notin> set (el_traits c)))"
proof -
  define cs where "cs = collapse_identical (find_elements rx els sel)"
  have in_cs: "content_key el \<in> content_key ` set cs"
    using assms by (simp add: cs_def collapse_identical_keys)
  have traits: "set (el_traits a) = set (el_traits b)" if "content_key a = content_key b" for a b
  proof -
    from that have "sort (remdups (el_traits a)) = sort (remdups (el_traits b))"
      by (simp add: content_key_def)
    then have "set (sort (remdups (el_traits a))) = set (sort (remdups (el_traits b)))" by simp
    then show ?thesis by simp
  qed
  show ?thesis
  proof (cases "length cs > 1 \<and> \<not> wants_other sel \<and>
      [c \<leftarrow> cs. trait_other \<notin> set (el_traits c)] \<noteq> []")
    case True
    then have cand: "candidates rx els sel = [c \<leftarrow> cs. trait_other \<notin> set (el_traits c)]"
      by (simp add: candidates_def cs_def [symmetric] Let_def)
    from in_cs obtain c where c: "c \<in> set cs" "content_key c = content_key el" by force
    show ?thesis
    proof (cases "trait_other \<in> set (el_traits el)")
      case True
      with \<open>length cs > 1 \<and> _\<close> cand show ?thesis by simp
    next
      case False
      with c traits [OF c(2)] cand have "c \<in> set (candidates rx els sel)" by simp
      with c(2) show ?thesis by (metis image_eqI)
    qed
  next
    case False
    then have "candidates rx els sel = cs"
      by (auto simp: candidates_def cs_def [symmetric] Let_def)
    with in_cs show ?thesis by simp
  qed
qed

section \<open>The resolver as an interface\<close>

text \<open>
  Drivers and assertions use resolution through two operations: the elements found, and the
  one resolved.  The laws are what they rely on.
\<close>

locale element_resolver =
  fixes find :: "'scr list \<Rightarrow> 'sel \<Rightarrow> 'scr list"
    and resolve :: "'scr list \<Rightarrow> 'sel \<Rightarrow> selector_error + 'scr"
  assumes found_on_screen: "set (find els sel) \<subseteq> set els"
    and resolved_found: "resolve els sel = Inr el \<Longrightarrow> el \<in> set (find els sel)"
    and nothing_found: "find els sel = [] \<Longrightarrow> \<exists>why. resolve els sel = Inl (ElementNotFound why)"
    and ambiguous_found: "resolve els sel = Inl (AmbiguousSelector n) \<Longrightarrow> 1 < n \<and> n \<le> length (find els sel)"
begin

lemma resolved_on_screen: "resolve els sel = Inr el \<Longrightarrow> el \<in> set els"
  using found_on_screen resolved_found by blast

lemma empty_screen: "\<exists>why. resolve [] sel = Inl (ElementNotFound why)"
  using found_on_screen [of "[]"] by (intro nothing_found) auto

lemma resolve_cases:
  obtains (resolved) el where "resolve els sel = Inr el" "el \<in> set els"
  | (missing) why where "resolve els sel = Inl (ElementNotFound why)"
  | (ambiguous) n where "resolve els sel = Inl (AmbiguousSelector n)" "2 \<le> length (find els sel)"
proof (cases "resolve els sel")
  case (Inr el)
  then show ?thesis using resolved resolved_on_screen by blast
next
  case (Inl e)
  then show ?thesis
    using missing ambiguous ambiguous_found by (cases e) force+
qed

end

lemma resolve_unique_error_length:
  "length (candidates rx els sel) \<le> length (find_elements rx els sel)"
proof -
  have "length (collapse_identical xs) \<le> length xs" for xs
    by (simp add: collapse_identical_def firsts_by_length)
  then show ?thesis
    by (auto simp: candidates_def Let_def intro: order_trans [OF length_filter_le])
qed

interpretation screen: element_resolver "find_elements rx" "resolve_unique rx"
proof unfold_locales
  fix els sel el
  show "set (find_elements rx els sel) \<subseteq> set els"
    by (rule find_elements_subset)
  show "resolve_unique rx els sel = Inr el \<Longrightarrow> el \<in> set (find_elements rx els sel)"
    using candidates_subset [of rx els sel]
    by (fastforce simp: resolve_unique_def Let_def split: option.splits if_splits
        dest: py_index_mem)
  show "find_elements rx els sel = [] \<Longrightarrow> \<exists>why. resolve_unique rx els sel = Inl (ElementNotFound why)"
    using candidates_Nil_iff [of rx els sel]
    by (auto simp: resolve_unique_def py_index_def split: option.splits)
next
  fix els sel n
  show "resolve_unique rx els sel = Inl (AmbiguousSelector n) \<Longrightarrow>
      1 < n \<and> n \<le> length (find_elements rx els sel)"
    using resolve_unique_error_length [of rx els sel]
    by (auto simp: resolve_unique_def Let_def split: option.splits if_splits)
qed

section \<open>The outcome depends on reported content, not on listing order\<close>

definition key_has_other :: "content \<Rightarrow> bool" where
  "key_has_other k \<longleftrightarrow> trait_other \<in> set (fst (snd (snd k)))"

lemma key_has_other_content [simp]:
  "key_has_other (content_key el) \<longleftrightarrow> trait_other \<in> set (el_traits el)"
  by (simp add: key_has_other_def content_key_def)

definition candidate_keys :: "selector \<Rightarrow> content set \<Rightarrow> content set" where
  "candidate_keys sel K =
     (if card K > 1 \<and> \<not> wants_other sel \<and> {k \<in> K. \<not> key_has_other k} \<noteq> {}
      then {k \<in> K. \<not> key_has_other k} else K)"

lemma length_collapse: "length (collapse_identical els) = card (content_key ` set els)"
  using distinct_card [OF collapse_identical_distinct [of els]]
  by (simp add: collapse_identical_keys)

lemma candidates_keys:
  "content_key ` set (candidates rx els sel) =
     candidate_keys sel (content_key ` set (find_elements rx els sel))"
proof -
  define cs where "cs = collapse_identical (find_elements rx els sel)"
  define K where "K = content_key ` set (find_elements rx els sel)"
  have K: "content_key ` set cs = K" "length cs = card K"
    by (simp_all add: cs_def K_def collapse_identical_keys length_collapse)
  have W: "content_key ` set [c \<leftarrow> cs. trait_other \<notin> set (el_traits c)] = {k \<in> K. \<not> key_has_other k}"
    unfolding K(1) [symmetric] by auto
  define ws where "ws = [c \<leftarrow> cs. trait_other \<notin> set (el_traits c)]"
  have W': "content_key ` set ws = {k \<in> K. \<not> key_has_other k}"
    using W by (simp add: ws_def)
  then have ne: "ws \<noteq> [] \<longleftrightarrow> {k \<in> K. \<not> key_has_other k} \<noteq> {}"
    by (metis image_is_empty set_empty)
  have "candidates rx els sel = (if length cs > 1 \<and> \<not> wants_other sel \<and> ws \<noteq> [] then ws else cs)"
    by (simp add: candidates_def cs_def [symmetric] ws_def Let_def)
  also have "content_key ` set \<dots> = candidate_keys sel K"
    unfolding candidate_keys_def K(2) ne [symmetric] using K(1) W' by simp
  finally show ?thesis by (simp add: K_def)
qed

lemma length_candidates: "length (candidates rx els sel) =
    card (candidate_keys sel (content_key ` set (find_elements rx els sel)))"
  using distinct_card [OF candidates_distinct [of rx els sel]] by (simp add: candidates_keys)

lemma found_in_set_cong: "set els = set els' \<Longrightarrow> found_in rx els sel el = found_in rx els' sel el"
  by (induction rx els sel el rule: found_in.induct) (simp split: option.splits)

lemma set_find_elements_cong:
  "set els = set els' \<Longrightarrow> set (find_elements rx els sel) = set (find_elements rx els' sel)"
  using found_in_set_cong [of els els'] by (auto simp: find_elements_filter)

definition outcome_content :: "selector_error + element \<Rightarrow> selector_error + content" where
  "outcome_content r = map_sum id content_key r"

lemma outcome_of_keys:
  assumes "s_index sel = None"
  shows "outcome_content (resolve_unique rx els sel) =
    (let K = candidate_keys sel (content_key ` set (find_elements rx els sel))
     in if K = {} then Inl (ElementNotFound NoMatch)
        else if card K > 1 then Inl (AmbiguousSelector (card K))
        else Inr (the_elem K))"
proof -
  define cs where "cs = candidates rx els sel"
  define K where "K = candidate_keys sel (content_key ` set (find_elements rx els sel))"
  have cs: "content_key ` set cs = K" "length cs = card K"
    by (simp_all add: cs_def K_def candidates_keys length_candidates)
  consider (none) "cs = []" | (one) el where "cs = [el]" | (many) "length cs > 1"
    by (cases cs rule: remdups_adj.cases) auto
  then show ?thesis
  proof cases
    case none
    with cs assms show ?thesis
      by (simp add: resolve_unique_def cs_def [symmetric] K_def [symmetric] outcome_content_def)
  next
    case one
    with cs(1) have "K = {content_key el}" by auto
    with one assms show ?thesis
      by (simp add: resolve_unique_def cs_def [symmetric] K_def [symmetric] outcome_content_def)
  next
    case many
    with cs(1) have "K \<noteq> {}" by auto
    moreover have "cs \<noteq> []" using many by auto
    ultimately show ?thesis
      using many cs(2) assms
      by (simp add: resolve_unique_def cs_def [symmetric] K_def [symmetric] outcome_content_def)
  qed
qed

section \<open>Occlusion in document order\<close>

text \<open>The slice after \<open>target\<close>'s own position, empty when the object is not in the list.\<close>

fun after_target :: "element list \<Rightarrow> element \<Rightarrow> element list" where
  "after_target [] t = []"
| "after_target (el # els) t = (if el_ref el = el_ref t then els else after_target els t)"

fun hits :: "frame \<Rightarrow> point \<Rightarrow> bool" where
  "hits (x, y, w, h) (px, py) = (x \<le> px \<and> px \<le> x + w \<and> y \<le> py \<and> py \<le> y + h)"

definition topmost_at_point :: "element list \<Rightarrow> point \<Rightarrow> element \<Rightarrow> element option" where
  "topmost_at_point els p t =
     List.find (\<lambda>el. hits (el_frame el) p \<and> \<not> contains (el_frame t) (el_frame el))
       (rev (after_target els t))"

definition redirect_candidates :: "element list \<Rightarrow> element \<Rightarrow> element list" where
  "redirect_candidates els t =
     [el \<leftarrow> after_target els t.
        el_identifier el \<noteq> None \<and> el_identifier el \<noteq> Some [] \<and> contains (el_frame t) (el_frame el)]"

fun frame_center :: "frame \<Rightarrow> point" where
  "frame_center (x, y, w, h) = (x + w / 2, y + h / 2)"

text \<open>The error names the covering element; the model carries the element itself.\<close>

definition raise_if_covered :: "element list \<Rightarrow> element \<Rightarrow> element + unit" where
  "raise_if_covered els el =
     (case topmost_at_point els (frame_center (el_frame el)) el of
        Some covering \<Rightarrow> Inl covering
      | None \<Rightarrow> Inr ())"

lemma after_target_split:
  "t \<in> set els \<Longrightarrow> \<exists>pre s. els = pre @ s # after_target els t \<and> el_ref s = el_ref t \<and>
     el_ref t \<notin> el_ref ` set pre"
proof (induction els)
  case (Cons el els)
  show ?case
  proof (cases "el_ref el = el_ref t")
    case True
    then show ?thesis by (intro exI [of _ "[]"] exI [of _ el]) simp
  next
    case False
    with Cons obtain pre s where "els = pre @ s # after_target els t" "el_ref s = el_ref t"
      "el_ref t \<notin> el_ref ` set pre" by auto
    with False show ?thesis by (intro exI [of _ "el # pre"] exI [of _ s]) auto
  qed
qed simp

lemma topmost_at_point_Some:
  "topmost_at_point els p t = Some el \<Longrightarrow>
     el \<in> set (after_target els t) \<and> hits (el_frame el) p \<and> \<not> contains (el_frame t) (el_frame el)"
  unfolding topmost_at_point_def by (drule find_Some_mem) simp

lemma topmost_at_point_None:
  "topmost_at_point els p t = None \<longleftrightarrow>
     (\<forall>el\<in>set (after_target els t). hits (el_frame el) p \<longrightarrow> contains (el_frame t) (el_frame el))"
  by (auto simp: topmost_at_point_def find_None_iff)

section \<open>Gesture geometry\<close>

fun gesture_anchor :: "frame \<Rightarrow> real \<times> real \<times> real" where
  "gesture_anchor (x, y, w, h) = (x + w / 2, y + h / 2, min w h / 4)"

definition banner_swipe_travel :: real where "banner_swipe_travel = 20"
definition banner_swipe_top_margin :: real where "banner_swipe_top_margin = 8"

fun notification_banner_swipe_points :: "frame \<Rightarrow> (point \<times> point) option" where
  "notification_banner_swipe_points (x, y, w, h) =
     (let cx = x + w / 2; cy = y + h / 2;
          top = max banner_swipe_top_margin (y - banner_swipe_travel)
      in if cy - top < banner_swipe_travel then None else Some ((cx, cy), (cx, top)))"

section \<open>Predicates over the whole tree\<close>

fun max_default0 :: "real list \<Rightarrow> real" where
  "max_default0 [] = 0"
| "max_default0 (x # xs) = fold max xs x"

definition screen_size_from_elements :: "element list \<Rightarrow> real \<times> real" where
  "screen_size_from_elements els =
     (max_default0 (map (\<lambda>el. let (x, y, w, h) = el_frame el in x + w) els),
      max_default0 (map (\<lambda>el. let (x, y, w, h) = el_frame el in y + h) els))"

definition truthy_str :: "string option \<Rightarrow> bool" where
  "truthy_str s \<longleftrightarrow> s \<noteq> None \<and> s \<noteq> Some []"

definition shows_app_ui :: "element list \<Rightarrow> bool" where
  "shows_app_ui els \<longleftrightarrow>
     (\<exists>el\<in>set els. (truthy_str (el_identifier el) \<or> truthy_str (el_label el)) \<and>
        ''application'' \<notin> set (el_traits el))"

definition tree_buttons :: "element list \<Rightarrow> string list" where
  "tree_buttons els =
     [the (el_label el). el \<leftarrow> els, truthy_str (el_label el) \<and> \<not> truthy_str (el_identifier el) \<and>
        trait_button \<in> set (el_traits el)]"

lemma fold_max_ge: "(a::real) \<le> fold max xs a \<and> (\<forall>x\<in>set xs. x \<le> fold max xs a)"
proof (induction xs arbitrary: a)
  case (Cons x xs)
  from Cons [of "max x a"] show ?case by auto
qed simp

lemma max_default0_ge: "x \<in> set xs \<Longrightarrow> x \<le> max_default0 xs"
  using fold_max_ge by (cases xs) auto

section \<open>Properties\<close>

text \<open>C1: Resolution never guesses.  An element a selector without an index resolves to satisfies
  the selector, and every other element that satisfies it reports the same content (identifier,
  label, trait set, value and frame) or is an unclassified \<open>other\<close> tie, which only a
  selector that does not ask for \<open>other\<close> may displace.\<close>
theorem resolve_never_guesses:
  assumes "s_index sel = None" "resolve_unique rx els sel = Inr el"
  shows "el \<in> set els \<and> found_in rx els sel el \<and>
    (\<forall>e\<in>set els. found_in rx els sel e \<longrightarrow> content_key e = content_key el \<or>
       (trait_other \<in> set (el_traits e) \<and> \<not> wants_other sel \<and> trait_other \<notin> set (el_traits el)))"
proof -
  have one: "candidates rx els sel = [el]"
    using assms by (cases "candidates rx els sel")
      (auto simp: resolve_unique_def Let_def split: if_splits)
  have "el \<in> set (find_elements rx els sel)" using screen.resolved_found [OF assms(2)] .
  moreover have "content_key e = content_key el \<or>
       (trait_other \<in> set (el_traits e) \<and> \<not> wants_other sel \<and> trait_other \<notin> set (el_traits el))"
    if "e \<in> set (find_elements rx els sel)" for e
    using candidates_cover [OF that] by (simp add: one)
  ultimately show ?thesis by (simp add: find_elements_filter)
qed

theorem resolve_never_guesses_witness:
  "found_in (\<lambda>_ _. False) [sample_element 1 ''a'' (0, 0, 9, 9), sample_element 2 ''b'' (0, 9, 9, 9)] (by_id ''b'')
     (sample_element 2 ''b'' (0, 9, 9, 9))"
proof -
  have "resolve_unique (\<lambda>_ _. False) [sample_element 1 ''a'' (0, 0, 9, 9), sample_element 2 ''b'' (0, 9, 9, 9)]
      (by_id ''b'') = Inr (sample_element 2 ''b'' (0, 9, 9, 9))"
    by (simp add: resolve_unique_def candidates_def find_elements_filter matches_def sample_element_def
        collapse_identical_def)
  from resolve_never_guesses [OF _ this] show ?thesis by simp
qed

text \<open>A selector two visibly different classified elements satisfy fails as ambiguous, whatever
  the order they are listed in: it is never settled by position.\<close>
theorem different_matches_are_ambiguous:
  assumes "s_index sel = None" "a \<in> set els" "b \<in> set els" "found_in rx els sel a" "found_in rx els sel b"
    and "content_key a \<noteq> content_key b" "trait_other \<notin> set (el_traits a)" "trait_other \<notin> set (el_traits b)"
  shows "\<exists>n>1. resolve_unique rx els sel = Inl (AmbiguousSelector n)"
proof -
  have "content_key e \<in> content_key ` set (candidates rx els sel)" if "e \<in> {a, b}" for e
    using candidates_cover [of e rx els sel] assms that by (auto simp: find_elements_filter)
  then have sub: "{content_key a, content_key b} \<subseteq> content_key ` set (candidates rx els sel)" by auto
  have "2 = card {content_key a, content_key b}" using assms(6) by simp
  also have "\<dots> \<le> card (content_key ` set (candidates rx els sel))" using sub by (simp add: card_mono)
  also have "\<dots> \<le> length (candidates rx els sel)" by (metis card_image_le card_length le_trans List.finite_set)
  finally show ?thesis using assms(1) by (auto simp: resolve_unique_def Let_def)
qed

theorem different_matches_are_ambiguous_witness:
  "\<exists>n>1. resolve_unique (\<lambda>_ _. False) [sample_element 1 ''a'' (0, 0, 9, 9), sample_element 2 ''a'' (0, 9, 9, 9)]
     (by_id ''a'') = Inl (AmbiguousSelector n)"
  by (rule different_matches_are_ambiguous [of _ "sample_element 1 ''a'' (0, 0, 9, 9)" _ "sample_element 2 ''a'' (0, 9, 9, 9)"])
    (simp_all add: matches_def sample_element_def content_key_def trait_other_def trait_button_def)

text \<open>The outcome is a function of what is on screen, not of the order the tree lists it in:
  two trees of the same elements resolve a selector without an index to the same content, or fail
  with the same error and the same count.\<close>
theorem outcome_ignores_listing_order:
  assumes "s_index sel = None" "set els = set els'"
  shows "outcome_content (resolve_unique rx els sel) = outcome_content (resolve_unique rx els' sel)"
  using outcome_of_keys [OF assms(1)] set_find_elements_cong [OF assms(2)] by metis

theorem outcome_ignores_listing_order_witness:
  "outcome_content (resolve_unique (\<lambda>_ _. False) [sample_element 1 ''a'' (0, 0, 9, 9), sample_element 2 ''b'' (0, 9, 9, 9)] (by_id ''b'')) =
   outcome_content (resolve_unique (\<lambda>_ _. False) [sample_element 2 ''b'' (0, 9, 9, 9), sample_element 1 ''a'' (0, 0, 9, 9)] (by_id ''b''))"
  by (rule outcome_ignores_listing_order) auto

text \<open>A tap is refused as covered exactly when an element listed after the target covers the
  target's centre without lying inside the target, and the element it names is such a one; the
  descendants a tap may be redirected to are never named as covering.\<close>
theorem tap_refused_iff_covered:
  "(raise_if_covered els el = Inr () \<longleftrightarrow>
     (\<forall>e\<in>set (after_target els el). hits (el_frame e) (frame_center (el_frame el)) \<longrightarrow>
        contains (el_frame el) (el_frame e))) \<and>
   raise_if_covered els el \<notin> Inl ` set (redirect_candidates els el) \<and>
   raise_if_covered els el \<in> insert (Inr ()) (Inl ` {e \<in> set (after_target els el).
      hits (el_frame e) (frame_center (el_frame el))})"
proof (cases "topmost_at_point els (frame_center (el_frame el)) el")
  case None
  with topmost_at_point_None [of els "frame_center (el_frame el)" el] show ?thesis
    by (auto simp: raise_if_covered_def)
next
  case (Some c)
  from topmost_at_point_Some [OF this] Some topmost_at_point_None [of els "frame_center (el_frame el)" el]
  show ?thesis by (auto simp: raise_if_covered_def redirect_candidates_def)
qed

text \<open>Dismissing a banner drags upwards by at least the required travel, from the banner's
  centre to a point no nearer the top edge than the margin, and is refused exactly when that
  travel is not available.\<close>
theorem banner_swipe_clears_edge:
  "case notification_banner_swipe_points (x, y, w, h) of
     None \<Rightarrow> y + h / 2 < 28 \<or> h < 0
   | Some ((sx, sy), (ex, ey)) \<Rightarrow> sx = ex \<and> sx = x + w / 2 \<and> sy = y + h / 2 \<and>
       ey \<ge> 8 \<and> ey \<ge> y - 20 \<and> sy - ey \<ge> 20"
  by (auto simp: Let_def banner_swipe_travel_def banner_swipe_top_margin_def)

theorem tap_refused_iff_covered_witness:
  "raise_if_covered [sample_element 1 ''a'' (0, 0, 9, 9), sample_element 2 ''b'' (1, 1, 2, 2)]
     (sample_element 1 ''a'' (0, 0, 9, 9)) = Inr ()"
  using tap_refused_iff_covered [of "[sample_element 1 ''a'' (0, 0, 9, 9), sample_element 2 ''b'' (1, 1, 2, 2)]"
      "sample_element 1 ''a'' (0, 0, 9, 9)"]
  by (simp add: sample_element_def)

end
