(* ===== verification/Waiting.thy ===== *)
theory Waiting
  imports Resolution
begin

text \<open>
  Condition waits over a monotonic clock: \<open>deadline_ticks\<close> and \<open>wait_until\<close> of
  \<open>src/bajutsu/common/drivers/base/_functions.py\<close>, and the read path of
  \<open>src/bajutsu/common/drivers/coordinate_tree.py\<close> (the transient-empty retry, the settle
  bookkeeping and the not-found resolve loop).  The environment is a list: what each successive
  check or read returned and how long it took; a loop that consumes the whole list is still
  running.  Sleeps may overshoot by an amount the environment chooses.
\<close>

section \<open>Deadline ticks\<close>

record tick =
  tk_ok :: bool      \<comment> \<open>what the check body decided\<close>
  tk_dur :: real     \<comment> \<open>how long the check took\<close>
  tk_over :: real    \<comment> \<open>how much the following sleep overshot\<close>

datatype wait_result = Matched real | TimedOut real | Running

fun wait_loop :: "real \<Rightarrow> real \<Rightarrow> real \<Rightarrow> real \<Rightarrow> tick list \<Rightarrow> wait_result" where
  "wait_loop deadline cap poll now [] = Running"
| "wait_loop deadline cap poll now (t # ts) =
     (let now1 = now + tk_dur t; remaining = deadline - now1
      in if tk_ok t then Matched now1
         else if remaining \<le> 0 then TimedOut now1
         else wait_loop deadline cap (min (poll * 2) cap)
                (now1 + min poll remaining + tk_over t) ts)"

definition deadline_ticks :: "real \<Rightarrow> real \<Rightarrow> real option \<Rightarrow> real \<Rightarrow> tick list \<Rightarrow> wait_result" where
  "deadline_ticks timeout poll_init poll_max start env =
     (let cap = (case poll_max of None \<Rightarrow> poll_init | Some m \<Rightarrow> m)
      in wait_loop (start + timeout) cap (min poll_init cap) start env)"

datatype wait_error = NegativePoll real

definition wait_until :: "real \<Rightarrow> real \<Rightarrow> real \<Rightarrow> tick list \<Rightarrow> wait_error + wait_result" where
  "wait_until timeout poll start env =
     (if poll < 0 then Inl (NegativePoll poll)
      else Inr (deadline_ticks timeout poll None start env))"

definition env_ok :: "tick list \<Rightarrow> bool" where
  "env_ok env \<longleftrightarrow> list_all (\<lambda>t. tk_dur t \<ge> 0 \<and> tk_over t \<ge> 0) env"

lemma wait_loop_TimedOut:
  "wait_loop deadline cap poll now env = TimedOut t \<Longrightarrow>
     deadline \<le> t \<and> (\<exists>n<length env. list_all (\<lambda>k. \<not> tk_ok k) (take (Suc n) env))"
proof (induction deadline cap poll now env rule: wait_loop.induct)
  case (2 deadline cap poll now k ts)
  show ?case
  proof (cases "deadline - (now + tk_dur k) \<le> 0")
    case True
    with 2 show ?thesis by (auto simp: Let_def split: if_splits intro!: exI [of _ 0])
  next
    case False
    with "2.prems" have "\<not> tk_ok k" by (auto simp: Let_def split: if_splits)
    moreover from this obtain n where "n < length ts" "list_all (\<lambda>k. \<not> tk_ok k) (take (Suc n) ts)"
      "deadline \<le> t"
      using 2 False by (auto simp: Let_def)
    ultimately show ?thesis by (intro conjI exI [of _ "Suc n"]) auto
  qed
qed simp

lemma wait_loop_Matched:
  "wait_loop deadline cap poll now env = Matched t \<Longrightarrow> \<exists>k\<in>set env. tk_ok k"
  by (induction deadline cap poll now env rule: wait_loop.induct)
    (auto simp: Let_def split: if_splits)

text \<open>An instantaneous check with exact sleeps gives up exactly at the deadline.\<close>

lemma wait_loop_exact:
  "wait_loop deadline cap poll now env = TimedOut t \<Longrightarrow>
     list_all (\<lambda>k. tk_dur k = 0 \<and> tk_over k = 0) env \<Longrightarrow> now \<le> deadline \<Longrightarrow> t = deadline"
proof (induction deadline cap poll now env rule: wait_loop.induct)
  case (2 deadline cap poll now k ts)
  show ?case
  proof (cases "deadline - now \<le> 0")
    case True
    with "2.prems" show ?thesis by (auto simp: Let_def split: if_splits)
  next
    case False
    have next_le: "now + min poll (deadline - now) \<le> deadline" by linarith
    with 2 False show ?thesis by (simp add: Let_def split: if_splits)
  qed
qed simp

text \<open>Each tick that does not end the wait moves the clock by at least \<open>p\<close> or to the deadline.\<close>

lemma wait_loop_ends:
  assumes "0 < p" "p \<le> cap"
  shows "p \<le> poll \<Longrightarrow> env_ok env \<Longrightarrow> deadline - now \<le> real (length env - 1) * p \<Longrightarrow>
    env \<noteq> [] \<Longrightarrow> wait_loop deadline cap poll now env \<noteq> Running"
proof (induction env arbitrary: poll now)
  case (Cons k ts)
  define now1 where "now1 = now + tk_dur k"
  have k: "tk_dur k \<ge> 0" "tk_over k \<ge> 0" "env_ok ts"
    using Cons.prems(2) by (simp_all add: env_ok_def)
  show ?case
  proof (cases "tk_ok k \<or> deadline - now1 \<le> 0")
    case True
    then show ?thesis by (auto simp: now1_def Let_def)
  next
    case False
    with Cons.prems(3) k have pos: "0 < real (length ts) * p" by (simp add: now1_def)
    then have ne: "ts \<noteq> []" by auto
    then obtain m where m: "length ts = Suc m" by (cases ts) auto
    have "deadline - (now1 + min poll (deadline - now1) + tk_over k) \<le> real m * p"
    proof (cases "poll \<le> deadline - now1")
      case True
      have "deadline - now \<le> real m * p + p"
        using Cons.prems(3) by (simp add: m algebra_simps)
      moreover have "min poll (deadline - now1) = poll" using True by simp
      ultimately show ?thesis using Cons.prems(1) k unfolding now1_def by linarith
    next
      case False
      then have "min poll (deadline - now1) = deadline - now1" by simp
      moreover have "0 \<le> real m * p" using assms(1) by simp
      ultimately show ?thesis using k by linarith
    qed
    moreover have "p \<le> min (poll * 2) cap" using assms Cons.prems(1) by auto
    ultimately have "wait_loop deadline cap (min (poll * 2) cap)
        (now1 + min poll (deadline - now1) + tk_over k) ts \<noteq> Running"
      using Cons.IH [OF _ k(3) _ ne] by (simp add: m)
    with False show ?thesis by (simp add: now1_def Let_def)
  qed
qed simp

section \<open>Reading a settled tree\<close>

type_synonym stable_key = "(string \<times> frame) list"

record tree_driver =
  max_seen :: nat
  last_stable_key :: "stable_key option"

definition ready_min :: nat where "ready_min = 2"
definition empty_retries :: nat where "empty_retries = 5"
definition empty_backoff_s :: real where "empty_backoff_s = 1 / 20"
definition empty_backoff_max_s :: real where "empty_backoff_max_s = 1 / 5"

definition new_driver :: tree_driver where
  "new_driver = \<lparr>max_seen = 0, last_stable_key = None\<rparr>"

definition is_transient_empty :: "tree_driver \<Rightarrow> element list \<Rightarrow> bool" where
  "is_transient_empty d els \<longleftrightarrow> length els < ready_min \<and> max_seen d \<ge> ready_min"

definition empty_backoff :: "nat \<Rightarrow> real" where
  "empty_backoff attempt = min (empty_backoff_s * 2 ^ attempt) empty_backoff_max_s"

definition stable_key_of :: "element list \<Rightarrow> stable_key" where
  "stable_key_of els =
     sort (map (\<lambda>e. (case el_identifier e of None \<Rightarrow> [] | Some i \<Rightarrow> i, el_frame e)) els)"

text \<open>
  \<open>reads n\<close> is what the \<open>n\<close>-th \<open>_describe\<close> returns; \<open>unrec\<close> is the subclass hook
  \<open>_is_unrecoverable_empty\<close>.  The result carries the tree, the number of reads consumed and
  the seconds slept.
\<close>

fun retry_empty :: "(element list \<Rightarrow> bool) \<Rightarrow> tree_driver \<Rightarrow> (nat \<Rightarrow> element list) \<Rightarrow> nat \<Rightarrow> nat
    \<Rightarrow> element list \<Rightarrow> real \<Rightarrow> element list \<times> nat \<times> real" where
  "retry_empty unrec d reads 0 n els slept = (els, n, slept)"
| "retry_empty unrec d reads (Suc left) n els slept =
     (if \<not> is_transient_empty d els \<or> unrec els then (els, n, slept)
      else retry_empty unrec d reads left (Suc n) (reads n)
             (slept + empty_backoff (empty_retries - Suc left)))"

definition read_settled_tree :: "(element list \<Rightarrow> bool) \<Rightarrow> tree_driver \<Rightarrow> (nat \<Rightarrow> element list) \<Rightarrow> nat
    \<Rightarrow> element list \<times> nat \<times> real" where
  "read_settled_tree unrec d reads n =
     retry_empty unrec d reads empty_retries (Suc n) (reads n) 0"

definition record_tree :: "tree_driver \<Rightarrow> element list \<Rightarrow> tree_driver" where
  "record_tree d els =
     d\<lparr>max_seen := max (max_seen d) (length els), last_stable_key := Some (stable_key_of els)\<rparr>"

definition query :: "(element list \<Rightarrow> bool) \<Rightarrow> tree_driver \<Rightarrow> (nat \<Rightarrow> element list) \<Rightarrow> nat
    \<Rightarrow> element list \<times> tree_driver \<times> nat \<times> real" where
  "query unrec d reads n =
     (let (els, n', slept) = read_settled_tree unrec d reads n in (els, record_tree d els, n', slept))"

lemma retry_empty_result:
  assumes "retry_empty unrec d reads left n els slept = (els', n', slept')"
  shows "n \<le> n' \<and> n' \<le> n + left \<and> (n' = n \<and> els' = els \<or> n < n' \<and> els' = reads (n' - 1)) \<and>
    (is_transient_empty d els' \<longrightarrow> unrec els' \<or> n' = n + left)"
  using assms
proof (induction unrec d reads left n els slept rule: retry_empty.induct)
  case (2 unrec d reads left n els slept)
  show ?case
  proof (cases "\<not> is_transient_empty d els \<or> unrec els")
    case True
    with 2 show ?thesis by auto
  next
    case False
    with 2 have "Suc n \<le> n' \<and> n' \<le> Suc n + left \<and>
        (n' = Suc n \<and> els' = reads n \<or> Suc n < n' \<and> els' = reads (n' - 1)) \<and>
        (is_transient_empty d els' \<longrightarrow> unrec els' \<or> n' = Suc n + left)" by auto
    then show ?thesis by auto
  qed
qed auto

lemma empty_backoff_nonneg: "0 \<le> empty_backoff a"
  by (simp add: empty_backoff_def empty_backoff_s_def empty_backoff_max_s_def)

lemma retry_empty_slept:
  "retry_empty unrec d reads left n els slept = (els', n', slept') \<Longrightarrow> left \<le> empty_retries \<Longrightarrow>
     slept' \<le> slept + (\<Sum>a = empty_retries - left..<empty_retries. empty_backoff a)"
proof (induction unrec d reads left n els slept rule: retry_empty.induct)
  case (2 unrec d reads left n els slept)
  define k where "k = empty_retries - Suc left"
  have split: "{empty_retries - Suc left..<empty_retries} =
      insert k {empty_retries - left..<empty_retries}"
    using "2.prems"(2) by (auto simp: k_def)
  have sum: "(\<Sum>a = empty_retries - Suc left..<empty_retries. empty_backoff a) =
      empty_backoff k + (\<Sum>a = empty_retries - left..<empty_retries. empty_backoff a)"
    unfolding split using "2.prems"(2) by (subst sum.insert) (auto simp: k_def)
  have nonneg: "0 \<le> (\<Sum>a = empty_retries - left..<empty_retries. empty_backoff a)"
    by (intro sum_nonneg empty_backoff_nonneg)
  show ?case
  proof (cases "\<not> is_transient_empty d els \<or> unrec els")
    case True
    with 2 nonneg empty_backoff_nonneg [of k] show ?thesis by (auto simp: sum)
  next
    case False
    with 2 have "slept' \<le> slept + empty_backoff k +
        (\<Sum>a = empty_retries - left..<empty_retries. empty_backoff a)"
      by (simp add: k_def)
    then show ?thesis by (simp add: sum)
  qed
qed simp

lemma retry_empty_slept_nonneg:
  "retry_empty unrec d reads left n els slept = (els', n', slept') \<Longrightarrow> slept \<le> slept'"
proof (induction unrec d reads left n els slept rule: retry_empty.induct)
  case (2 unrec d reads left n els slept)
  then show ?case
    using empty_backoff_nonneg [of "empty_retries - Suc left"] by (auto split: if_splits)
qed simp

section \<open>Resolving with a not-found retry\<close>

text \<open>
  The environment is the list of trees read so far, each with the clock reading taken when the
  resolution of that tree failed.  Ambiguity is raised at once.
\<close>

datatype 'el resolve_result = Resolved 'el "'el list" | Raised selector_error | Retrying

fun resolve_retry :: "('el list \<Rightarrow> 'sel \<Rightarrow> selector_error + 'el) \<Rightarrow> 'sel \<Rightarrow> real
    \<Rightarrow> ('el list \<times> real) list \<Rightarrow> 'el resolve_result" where
  "resolve_retry resolve sel deadline [] = Retrying"
| "resolve_retry resolve sel deadline ((tree, now) # rest) =
     (case resolve tree sel of
        Inr el \<Rightarrow> Resolved el tree
      | Inl (AmbiguousSelector n) \<Rightarrow> Raised (AmbiguousSelector n)
      | Inl (ElementNotFound why) \<Rightarrow>
          (if now \<ge> deadline then Raised (ElementNotFound why)
           else resolve_retry resolve sel deadline rest))"

context element_resolver
begin

lemma resolve_retry_same_tree:
  "resolve_retry resolve sel deadline env = Resolved el tree \<Longrightarrow>
     tree \<in> fst ` set env \<and> resolve tree sel = Inr el \<and> el \<in> set (find tree sel) \<and> el \<in> set tree"
  by (induction env)
    (auto split: sum.splits selector_error.splits if_splits
      dest: resolved_found resolved_on_screen)

lemma resolve_retry_not_found_late:
  "resolve_retry resolve sel deadline env = Raised (ElementNotFound why) \<Longrightarrow>
     \<exists>r\<in>set env. deadline \<le> snd r \<and> resolve (fst r) sel = Inl (ElementNotFound why)"
  by (induction env)
    (auto split: sum.splits selector_error.splits if_splits)

lemma resolve_retry_pending:
  "resolve_retry resolve sel deadline env = Retrying \<Longrightarrow> r \<in> set env \<Longrightarrow>
     snd r < deadline \<and> (\<exists>why. resolve (fst r) sel = Inl (ElementNotFound why))"
  by (induction env) (fastforce split: sum.splits selector_error.splits if_splits)+

lemma resolve_retry_ambiguous:
  "resolve_retry resolve sel deadline env = Raised (AmbiguousSelector n) \<Longrightarrow>
     \<exists>tree\<in>fst ` set env. resolve tree sel = Inl (AmbiguousSelector n) \<and> 2 \<le> length (find tree sel)"
proof (induction env)
  case (Cons e env)
  obtain tree now where e: "e = (tree, now)" by fastforce
  show ?case
  proof (cases rule: resolve_cases [of tree sel])
    case (ambiguous m)
    with Cons.prems show ?thesis by (auto simp: e)
  qed (use Cons e in \<open>auto split: if_splits\<close>)
qed simp

end

section \<open>Properties\<close>

text \<open>A wait never gives up early and never claims a match it did not see: it reports a timeout
  only at or after its deadline and after every check failed, and a match only when a check
  passed; with instantaneous checks and exact sleeps it gives up exactly at the deadline.\<close>
theorem wait_until_honest:
  assumes "0 \<le> timeout" "0 \<le> poll"
  shows "\<exists>res. wait_until timeout poll start env = Inr res \<and>
    (\<forall>t. res = TimedOut t \<longrightarrow> start + timeout \<le> t \<and>
       (\<exists>n<length env. list_all (\<lambda>k. \<not> tk_ok k) (take (Suc n) env)) \<and>
       (list_all (\<lambda>k. tk_dur k = 0 \<and> tk_over k = 0) env \<longrightarrow> t = start + timeout)) \<and>
    (\<forall>t. res = Matched t \<longrightarrow> (\<exists>k\<in>set env. tk_ok k))"
  using wait_loop_TimedOut [of "start + timeout" poll poll start env]
    wait_loop_Matched [of "start + timeout" poll poll start env]
    wait_loop_exact [of "start + timeout" poll poll start env] assms
  by (auto simp: wait_until_def deadline_ticks_def)

theorem wait_until_honest_witness:
  "wait_until 1 1 0 [\<lparr>tk_ok = False, tk_dur = 0, tk_over = 0\<rparr>, \<lparr>tk_ok = False, tk_dur = 0, tk_over = 0\<rparr>]
     = Inr (TimedOut 1)"
proof -
  let ?env = "[\<lparr>tk_ok = False, tk_dur = 0, tk_over = 0\<rparr>, \<lparr>tk_ok = False, tk_dur = 0, tk_over = 0\<rparr>]"
  have "wait_until 1 1 0 ?env \<noteq> Inr Running"
    by (simp add: wait_until_def deadline_ticks_def Let_def)
  then show ?thesis
    using wait_until_honest [of 1 1 0 ?env]
    by (auto simp: wait_until_def) (metis (no_types, lifting) wait_result.exhaust)
qed

text \<open>A wait with a positive poll interval always returns: once the environment supplies as many
  checks as the timeout holds poll intervals, plus one, the wait has matched or timed out.\<close>
theorem wait_until_terminates:
  assumes "0 < poll" "env_ok env" "timeout \<le> real (length env - 1) * poll" "env \<noteq> []"
  shows "wait_until timeout poll start env \<notin> {Inr Running, Inl (NegativePoll poll)}"
  using wait_loop_ends [of poll poll poll env "start + timeout" start] assms
  by (simp add: wait_until_def deadline_ticks_def)

theorem wait_until_terminates_witness:
  "wait_until 2 1 0 [\<lparr>tk_ok = False, tk_dur = 0, tk_over = 0\<rparr>, \<lparr>tk_ok = False, tk_dur = 0, tk_over = 0\<rparr>,
     \<lparr>tk_ok = False, tk_dur = 0, tk_over = 0\<rparr>] \<noteq> Inr Running"
  using wait_until_terminates [of 1 "[\<lparr>tk_ok = False, tk_dur = 0, tk_over = 0\<rparr>, \<lparr>tk_ok = False, tk_dur = 0, tk_over = 0\<rparr>,
     \<lparr>tk_ok = False, tk_dur = 0, tk_over = 0\<rparr>]" 2 0]
  by (simp add: env_ok_def)


text \<open>C15: An actuation resolves on the very tree it read: the element it acts on is unique in that
  tree, an ambiguous selector fails at once without waiting, and a not-found error is raised only
  after the resolve deadline.\<close>
theorem actuation_resolves_on_one_tree:
  "case resolve_retry (resolve_unique rx) sel deadline env of
     Resolved el tree \<Rightarrow> tree \<in> fst ` set env \<and> resolve_unique rx tree sel = Inr el \<and> el \<in> set tree
   | Raised (AmbiguousSelector n) \<Rightarrow>
       (\<exists>tree\<in>fst ` set env. resolve_unique rx tree sel = Inl (AmbiguousSelector n) \<and>
          2 \<le> length (find_elements rx tree sel))
   | Raised (ElementNotFound why) \<Rightarrow>
       (\<exists>r\<in>set env. deadline \<le> snd r \<and> resolve_unique rx (fst r) sel = Inl (ElementNotFound why))
   | Retrying \<Rightarrow> (\<forall>r\<in>set env. snd r < deadline \<and>
        (\<exists>why. resolve_unique rx (fst r) sel = Inl (ElementNotFound why)))"
  using screen.resolve_retry_same_tree [of rx sel deadline env]
    screen.resolve_retry_ambiguous [of rx sel deadline env]
    screen.resolve_retry_not_found_late [of rx sel deadline env]
    screen.resolve_retry_pending [of rx sel deadline env]
  by (auto split: resolve_result.splits selector_error.splits)

theorem actuation_resolves_on_one_tree_witness:
  "resolve_retry (resolve_unique (\<lambda>_ _. False)) (by_id ''b'') 3
     [([], 1), ([sample_element 2 ''b'' (0, 9, 9, 9)], 2)] =
     Resolved (sample_element 2 ''b'' (0, 9, 9, 9)) [sample_element 2 ''b'' (0, 9, 9, 9)] \<and>
   resolve_unique (\<lambda>_ _. False) [sample_element 2 ''b'' (0, 9, 9, 9)] (by_id ''b'') =
     Inr (sample_element 2 ''b'' (0, 9, 9, 9))"
proof -
  let ?env = "[([], 1), ([sample_element 2 ''b'' (0, 9, 9, 9)], 2)]"
  have "resolve_retry (resolve_unique (\<lambda>_ _. False)) (by_id ''b'') 3 ?env =
     Resolved (sample_element 2 ''b'' (0, 9, 9, 9)) [sample_element 2 ''b'' (0, 9, 9, 9)]"
    by (simp add: resolve_unique_def candidates_def find_elements_filter matches_def sample_element_def
        collapse_identical_def)
  then show ?thesis
    using actuation_resolves_on_one_tree
      [where rx = "\<lambda>_ _. False" and sel = "by_id ''b''" and deadline = 3 and env = ?env] by simp
qed


end
