(* ===== verification/Network_Match.thy ===== *)
theory Network_Match
  imports Prelude
begin

text \<open>
  The network matchers of the assertions (\<open>src/bajutsu/common/assertions/dict_match.py\<close> and
  \<open>network.py\<close>): the key/value dictionaries over a query string and a JSON body, the request
  matcher, and the one-to-one assignment of requests to exchanges.  An exchange carries its
  URL-decoded query parameters and its parsed JSON body (\<open>query_params\<close> and
  \<open>request_json_object\<close>) as fields, since their readers are the standard library's.
  \<open>rx pat s\<close> stands for \<open>re.compile(pat).search(s) is not None\<close>.  A JSON number is kept as the
  text Python prints it with.  Letter case is that of ASCII, the letters of HTTP methods.
\<close>

section \<open>JSON values and their text\<close>

datatype json =
    JNull
  | JBool bool
  | JNum string
  | JStr string
  | JArr "json list"
  | JObj "(string \<times> json) list"

definition hex_digit :: "nat \<Rightarrow> char" where
  "hex_digit n = char_of (if n < 10 then 48 + n else 87 + n)"

definition json_char :: "char \<Rightarrow> string" where
  "json_char c =
     (let n = (of_char c :: nat); bs = char_of (92 :: nat)
      in if n = 34 \<or> n = 92 then [bs, c]
         else if n = 10 then bs # ''n''
         else if n = 13 then bs # ''r''
         else if n = 9 then bs # ''t''
         else if n = 12 then bs # ''f''
         else if n = 8 then bs # ''b''
         else if n < 32 then bs # ''u00'' @ [hex_digit (n div 16), hex_digit (n mod 16)]
         else [c])"

definition json_quote :: "string \<Rightarrow> string" where
  "json_quote s = char_of (34 :: nat) # concat (map json_char s) @ [char_of (34 :: nat)]"

text \<open>\<open>json.dumps(value, separators=(",", ":"), ensure_ascii=False)\<close>.\<close>

fun json_dumps :: "json \<Rightarrow> string" where
  "json_dumps JNull = ''null''"
| "json_dumps (JBool b) = (if b then ''true'' else ''false'')"
| "json_dumps (JNum t) = t"
| "json_dumps (JStr s) = json_quote s"
| "json_dumps (JArr vs) = ''['' @ join '','' (map json_dumps vs) @ '']''"
| "json_dumps (JObj kvs) =
     ''{'' @ join '','' (map (\<lambda>(k, v). json_quote k @ '':'' @ json_dumps v) kvs) @ ''}''"

definition json_text :: "json \<Rightarrow> string" where
  "json_text v = (case v of JStr s \<Rightarrow> s | _ \<Rightarrow> json_dumps v)"

section \<open>The matcher grammar\<close>

text \<open>
  A value that passed \<open>check_dict_matcher\<close>: a string, an operator map, a plain map or a list.
  Plain keys are kept as written, with \<open>$$\<close> for a literal \<open>$\<close>.
\<close>

record op_map =
  op_exists :: "bool option"
  op_matches :: "string option"

datatype matcher = MStr string | MOps op_map | MObj "(string \<times> matcher) list" | MArr "matcher list"

definition dollar :: char where "dollar = CHR ''$''"

definition is_operator_key :: "string \<Rightarrow> bool" where
  "is_operator_key k \<longleftrightarrow> take 1 k = [dollar] \<and> take 2 k \<noteq> [dollar, dollar]"

definition unescape_key :: "string \<Rightarrow> string" where
  "unescape_key k = (if take 2 k = [dollar, dollar] then tl k else k)"

text \<open>The value as the YAML reader hands it over, and the load-time check.\<close>

datatype raw = RStr string | RBool bool | ROther | RMap "(string \<times> raw) list" | RList "raw list"

datatype matcher_error = UnknownOperator string | MatchesNotString | ExistsNotBool | BadRegex string
  | MixedKeys string | NotNested string | NotQuoted string | EmptyDictionary | OperatorAtTop string

fun check_operators :: "(string \<Rightarrow> bool) \<Rightarrow> (string \<times> raw) list \<Rightarrow> op_map \<Rightarrow> matcher_error + op_map" where
  "check_operators compiles [] ops = Inr ops"
| "check_operators compiles ((k, a) # rest) ops =
     (if k = dollar # ''matches'' then
        (case a of
           RStr p \<Rightarrow> (if compiles p then check_operators compiles rest (ops\<lparr>op_matches := Some p\<rparr>)
                      else Inl (BadRegex p))
         | _ \<Rightarrow> Inl MatchesNotString)
      else if k = dollar # ''exists'' then
        (case a of RBool b \<Rightarrow> check_operators compiles rest (ops\<lparr>op_exists := Some b\<rparr>) | _ \<Rightarrow> Inl ExistsNotBool)
      else Inl (UnknownOperator k))"

fun check_value :: "(string \<Rightarrow> bool) \<Rightarrow> string \<Rightarrow> bool \<Rightarrow> raw \<Rightarrow> matcher_error + matcher"
  and check_fields :: "(string \<Rightarrow> bool) \<Rightarrow> string \<Rightarrow> (string \<times> raw) list \<Rightarrow> matcher_error + (string \<times> matcher) list"
  and check_items :: "(string \<Rightarrow> bool) \<Rightarrow> string \<Rightarrow> nat \<Rightarrow> raw list \<Rightarrow> matcher_error + matcher list" where
  "check_value compiles loc nested (RStr s) = Inr (MStr s)"
| "check_value compiles loc nested (RBool b) = Inl (NotQuoted loc)"
| "check_value compiles loc nested ROther = Inl (NotQuoted loc)"
| "check_value compiles loc nested (RMap kvs) =
     (if kvs \<noteq> [] \<and> list_all (\<lambda>kv. is_operator_key (fst kv)) kvs
      then and_then (check_operators compiles kvs \<lparr>op_exists = None, op_matches = None\<rparr>) (\<lambda>ops. Inr (MOps ops))
      else if list_ex (\<lambda>kv. is_operator_key (fst kv)) kvs then Inl (MixedKeys loc)
      else if \<not> nested then Inl (NotNested loc)
      else and_then (check_fields compiles loc kvs) (\<lambda>fs. Inr (MObj fs)))"
| "check_value compiles loc nested (RList vs) =
     (if \<not> nested then Inl (NotNested loc)
      else and_then (check_items compiles loc 0 vs) (\<lambda>ms. Inr (MArr ms)))"
| "check_fields compiles loc [] = Inr []"
| "check_fields compiles loc ((k, v) # rest) =
     and_then (check_value compiles (loc @ ''.'' @ k) True v) (\<lambda>m.
       and_then (check_fields compiles loc rest) (\<lambda>ms. Inr ((k, m) # ms)))"
| "check_items compiles loc i [] = Inr []"
| "check_items compiles loc i (v # rest) =
     and_then (check_value compiles (loc @ ''['' @ show_nat i @ '']'') True v) (\<lambda>m.
       and_then (check_items compiles loc (Suc i) rest) (\<lambda>ms. Inr (m # ms)))"

fun check_top :: "(string \<Rightarrow> bool) \<Rightarrow> string \<Rightarrow> (string \<times> raw) list
    \<Rightarrow> matcher_error + (string \<times> matcher) list" where
  "check_top compiles field [] = Inr []"
| "check_top compiles field ((k, v) # rest) =
     (if is_operator_key k then Inl (OperatorAtTop k)
      else and_then (check_value compiles (field @ ''.'' @ k) (field = ''body'') v) (\<lambda>m.
        and_then (check_top compiles field rest) (\<lambda>ms. Inr ((k, m) # ms))))"

definition check_dict_matcher :: "(string \<Rightarrow> bool) \<Rightarrow> (string \<times> raw) list option \<Rightarrow> string
    \<Rightarrow> matcher_error + (string \<times> matcher) list option" where
  "check_dict_matcher compiles d field =
     (case d of
        None \<Rightarrow> Inr None
      | Some kvs \<Rightarrow> (if kvs = [] then Inl EmptyDictionary
                     else and_then (check_top compiles field kvs) (\<lambda>ms. Inr (Some ms))))"

section \<open>The first mismatch\<close>

datatype mismatch =
    WantPresent string
  | WantAbsent string "string list"
  | WantMatch string string "string list"
  | WantValue string "string option"
  | WantText string string "string list"
  | WantObject string json
  | WantArray string nat json
  | NoBody
  | BodyNotObject

definition operators_mismatch :: "(string \<Rightarrow> string \<Rightarrow> bool) \<Rightarrow> op_map \<Rightarrow> bool \<Rightarrow> string list \<Rightarrow> string
    \<Rightarrow> mismatch option" where
  "operators_mismatch rx ops present observed loc =
     (if op_exists ops = Some True \<and> \<not> present then Some (WantPresent loc)
      else if op_exists ops = Some False \<and> present then Some (WantAbsent loc observed)
      else case op_matches ops of
             None \<Rightarrow> None
           | Some p \<Rightarrow>
               (let texts = (if present then observed else [])
                in if list_ex (\<lambda>t. rx p t) texts then None else Some (WantMatch loc p texts)))"

text \<open>\<open>got.get(name)\<close>: an absent field reads as null and not present.\<close>

definition field_of :: "(string \<times> json) list \<Rightarrow> string \<Rightarrow> json" where
  "field_of ob name = (case map_of ob name of None \<Rightarrow> JNull | Some v \<Rightarrow> v)"

fun body_mismatch :: "(string \<Rightarrow> string \<Rightarrow> bool) \<Rightarrow> matcher \<Rightarrow> bool \<Rightarrow> json \<Rightarrow> string \<Rightarrow> mismatch option"
  and fields_mismatch :: "(string \<Rightarrow> string \<Rightarrow> bool) \<Rightarrow> (string \<times> matcher) list \<Rightarrow> (string \<times> json) list \<Rightarrow> string
    \<Rightarrow> mismatch option"
  and items_mismatch :: "(string \<Rightarrow> string \<Rightarrow> bool) \<Rightarrow> matcher list \<Rightarrow> json list \<Rightarrow> string \<Rightarrow> nat
    \<Rightarrow> mismatch option" where
  "body_mismatch rx (MOps ops) present got loc =
     operators_mismatch rx ops present [json_text got] loc"
| "body_mismatch rx (MStr s) present got loc =
     (if \<not> present then Some (WantValue loc (Some s))
      else if json_text got = s then None else Some (WantText loc s [json_text got]))"
| "body_mismatch rx (MObj fs) present got loc =
     (if \<not> present then Some (WantValue loc None)
      else case got of JObj ob \<Rightarrow> fields_mismatch rx fs ob loc | _ \<Rightarrow> Some (WantObject loc got))"
| "body_mismatch rx (MArr ws) present got loc =
     (if \<not> present then Some (WantValue loc None)
      else case got of
             JArr gs \<Rightarrow> (if length gs = length ws then items_mismatch rx ws gs loc 0
                         else Some (WantArray loc (length ws) got))
           | _ \<Rightarrow> Some (WantArray loc (length ws) got))"
| "fields_mismatch rx [] ob loc = None"
| "fields_mismatch rx ((k, sub) # rest) ob loc =
     (let name = unescape_key k
      in case body_mismatch rx sub (map_of ob name \<noteq> None) (field_of ob name) (loc @ ''.'' @ name) of
           Some miss \<Rightarrow> Some miss
         | None \<Rightarrow> fields_mismatch rx rest ob loc)"
| "items_mismatch rx (w # ws) (g # gs) loc i =
     (case body_mismatch rx w True g (loc @ ''['' @ show_nat i @ '']'') of
        Some miss \<Rightarrow> Some miss
      | None \<Rightarrow> items_mismatch rx ws gs loc (Suc i))"
| "items_mismatch rx ws gs loc i = None"

definition query_key_mismatch :: "(string \<Rightarrow> string \<Rightarrow> bool) \<Rightarrow> (string \<times> string list) list
    \<Rightarrow> string \<Rightarrow> matcher \<Rightarrow> mismatch option" where
  "query_key_mismatch rx params name want =
     (let observed = (case map_of params name of None \<Rightarrow> [] | Some vs \<Rightarrow> vs); loc = ''query.'' @ name
      in case want of
           MStr s \<Rightarrow> (if s \<in> set observed then None else Some (WantText loc s observed))
         | MOps ops \<Rightarrow> operators_mismatch rx ops (observed \<noteq> []) observed loc
         | _ \<Rightarrow> None)"

definition query_mismatch :: "(string \<Rightarrow> string \<Rightarrow> bool) \<Rightarrow> (string \<times> matcher) list
    \<Rightarrow> (string \<times> string list) list \<Rightarrow> mismatch option" where
  "query_mismatch rx q params =
     first_some (\<lambda>(k, want). query_key_mismatch rx params (unescape_key k) want) q"

record exchange =
  ex_method :: string
  ex_url :: string
  ex_path :: string
  ex_status :: "int option"
  ex_request_body :: "string option"
  ex_response_body :: "string option"
  ex_query_params :: "(string \<times> string list) list"
  ex_request_json :: "(string \<times> json) list option"

type_synonym dict_matcher = "(string \<times> matcher) list"

definition dict_mismatch :: "(string \<Rightarrow> string \<Rightarrow> bool) \<Rightarrow> exchange \<Rightarrow> dict_matcher option
    \<Rightarrow> dict_matcher option \<Rightarrow> mismatch option" where
  "dict_mismatch rx ex query body =
     (case (case query of None \<Rightarrow> None | Some q \<Rightarrow> query_mismatch rx q (ex_query_params ex)) of
        Some m \<Rightarrow> Some m
      | None \<Rightarrow>
          (case body of
             None \<Rightarrow> None
           | Some b \<Rightarrow>
               (case ex_request_json ex of
                  None \<Rightarrow> Some (if ex_request_body ex = None then NoBody else BodyNotObject)
                | Some ob \<Rightarrow> body_mismatch rx (MObj b) True (JObj ob) ''body'')))"

section \<open>Matching one request\<close>

definition upper_char :: "char \<Rightarrow> char" where
  "upper_char c =
     (if CHR ''a'' \<le> c \<and> c \<le> CHR ''z'' then char_of ((of_char c :: nat) - 32) else c)"

definition upper :: "string \<Rightarrow> string" where
  "upper s = map upper_char s"

record request_match =
  rq_method :: "string option"
  rq_url :: "string option"
  rq_url_matches :: "string option"
  rq_path :: "string option"
  rq_path_matches :: "string option"
  rq_query :: "dict_matcher option"
  rq_body :: "dict_matcher option"
  rq_status :: "int option"
  rq_body_matches :: "string option"
  rq_count :: "int option"

definition if_set :: "'a option \<Rightarrow> ('a \<Rightarrow> bool) \<Rightarrow> bool" where
  "if_set v p = (case v of None \<Rightarrow> True | Some x \<Rightarrow> p x)"

definition match_request :: "(string \<Rightarrow> string \<Rightarrow> bool) \<Rightarrow> exchange \<Rightarrow> request_match \<Rightarrow> bool" where
  "match_request rx ex req \<longleftrightarrow>
     if_set (rq_method req) (\<lambda>m. upper (ex_method ex) = upper m) \<and>
     if_set (rq_url req) (\<lambda>u. ex_url ex = u) \<and>
     if_set (rq_url_matches req) (\<lambda>p. rx p (ex_url ex)) \<and>
     if_set (rq_path req) (\<lambda>p. ex_path ex = p) \<and>
     if_set (rq_path_matches req) (\<lambda>p. rx p (ex_path ex)) \<and>
     if_set (rq_status req) (\<lambda>s. ex_status ex = Some s) \<and>
     if_set (rq_body_matches req) (\<lambda>p. case ex_request_body ex of None \<Rightarrow> False | Some b \<Rightarrow> rx p b) \<and>
     (rq_query req = None \<and> rq_body req = None \<or> dict_mismatch rx ex (rq_query req) (rq_body req) = None)"

definition count_matching :: "(string \<Rightarrow> string \<Rightarrow> bool) \<Rightarrow> exchange list \<Rightarrow> request_match \<Rightarrow> nat" where
  "count_matching rx exs req = length [ex \<leftarrow> exs. match_request rx ex req]"

text \<open>The endpoint criteria alone, as \<open>RequestMatch.model_construct(method=..., ...)\<close> builds them.\<close>

definition endpoint_of :: "request_match \<Rightarrow> request_match" where
  "endpoint_of m = m\<lparr>rq_query := None, rq_body := None, rq_status := None, rq_body_matches := None,
     rq_count := None\<rparr>"

definition dictionary_hint :: "(string \<Rightarrow> string \<Rightarrow> bool) \<Rightarrow> exchange list \<Rightarrow> request_match
    \<Rightarrow> mismatch option" where
  "dictionary_hint rx exs m =
     (if rq_query m = None \<and> rq_body m = None then None
      else case [ex \<leftarrow> exs. match_request rx ex (endpoint_of m)] of
             [ex] \<Rightarrow> dict_mismatch rx ex (rq_query m) (rq_body m)
           | _ \<Rightarrow> None)"

section \<open>What the matchers mean\<close>

definition op_holds :: "(string \<Rightarrow> string \<Rightarrow> bool) \<Rightarrow> op_map \<Rightarrow> string list \<Rightarrow> bool" where
  "op_holds rx ops texts \<longleftrightarrow>
     if_set (op_exists ops) (\<lambda>b. b = (texts \<noteq> [])) \<and> if_set (op_matches ops) (\<lambda>p. \<exists>t\<in>set texts. rx p t)"

text \<open>A value as the matchers see it: \<open>None\<close> is an absent field.\<close>

fun holds :: "(string \<Rightarrow> string \<Rightarrow> bool) \<Rightarrow> matcher \<Rightarrow> json option \<Rightarrow> bool"
  and holds_fields :: "(string \<Rightarrow> string \<Rightarrow> bool) \<Rightarrow> (string \<times> matcher) list \<Rightarrow> (string \<times> json) list \<Rightarrow> bool"
  and holds_items :: "(string \<Rightarrow> string \<Rightarrow> bool) \<Rightarrow> matcher list \<Rightarrow> json list \<Rightarrow> bool" where
  "holds rx (MOps ops) v = op_holds rx ops (case v of None \<Rightarrow> [] | Some x \<Rightarrow> [json_text x])"
| "holds rx (MStr s) v = (map_option json_text v = Some s)"
| "holds rx (MObj fs) v = (case v of Some (JObj ob) \<Rightarrow> holds_fields rx fs ob | _ \<Rightarrow> False)"
| "holds rx (MArr ws) v = (case v of Some (JArr gs) \<Rightarrow> holds_items rx ws gs | _ \<Rightarrow> False)"
| "holds_fields rx [] ob = True"
| "holds_fields rx ((k, sub) # rest) ob \<longleftrightarrow> holds rx sub (map_of ob (unescape_key k)) \<and> holds_fields rx rest ob"
| "holds_items rx [] [] = True"
| "holds_items rx (w # ws) (g # gs) \<longleftrightarrow> holds rx w (Some g) \<and> holds_items rx ws gs"
| "holds_items rx ws gs = False"

lemma operators_mismatch_None:
  "present = (texts \<noteq> []) \<Longrightarrow> operators_mismatch rx ops present texts loc = None \<longleftrightarrow> op_holds rx ops texts"
  by (auto simp: operators_mismatch_def op_holds_def if_set_def list_ex_iff Let_def split: option.splits)

lemma operators_mismatch_absent:
  "operators_mismatch rx ops False texts loc = None \<longleftrightarrow> op_holds rx ops []"
  by (auto simp: operators_mismatch_def op_holds_def if_set_def Let_def split: option.splits)

lemma holds_items_length: "holds_items rx ws gs \<Longrightarrow> length gs = length ws"
proof (induction ws arbitrary: gs)
  case Nil
  then show ?case by (cases gs) auto
next
  case (Cons w ws)
  then show ?case by (cases gs) auto
qed

lemma body_mismatch_None:
  "body_mismatch rx m present got loc = None \<longleftrightarrow> holds rx m (if present then Some got else None)"
  "fields_mismatch rx fs ob loc = None \<longleftrightarrow> holds_fields rx fs ob"
  "length gs = length ws \<Longrightarrow> items_mismatch rx ws gs loc i = None \<longleftrightarrow> holds_items rx ws gs"
proof (induction rx m present got loc and rx fs ob loc and rx ws gs loc i
    rule: body_mismatch_fields_mismatch_items_mismatch.induct)
  case (1 rx ops present got loc)
  then show ?case by (cases present) (simp_all add: operators_mismatch_None operators_mismatch_absent)
next
  case (4 rx ws present got loc)
  then show ?case by (cases got) (auto dest: holds_items_length)
next
  case (6 rx k sub rest ob loc)
  let ?name = "unescape_key k"
  have "(if map_of ob ?name \<noteq> None then Some (field_of ob ?name) else None) = map_of ob ?name"
    by (auto simp: field_of_def split: option.splits)
  with 6 show ?case by (auto simp: Let_def split: option.splits)
qed (auto split: json.splits option.splits)

definition query_holds :: "(string \<Rightarrow> string \<Rightarrow> bool) \<Rightarrow> dict_matcher \<Rightarrow> (string \<times> string list) list \<Rightarrow> bool" where
  "query_holds rx q params \<longleftrightarrow>
     (\<forall>(k, want)\<in>set q.
        let observed = (case map_of params (unescape_key k) of None \<Rightarrow> [] | Some vs \<Rightarrow> vs)
        in case want of MStr s \<Rightarrow> s \<in> set observed | MOps ops \<Rightarrow> op_holds rx ops observed | _ \<Rightarrow> True)"

lemma query_mismatch_None: "query_mismatch rx q params = None \<longleftrightarrow> query_holds rx q params"
proof -
  have "query_key_mismatch rx params (unescape_key k) want = None \<longleftrightarrow>
      (let observed = (case map_of params (unescape_key k) of None \<Rightarrow> [] | Some vs \<Rightarrow> vs)
       in case want of MStr s \<Rightarrow> s \<in> set observed | MOps ops \<Rightarrow> op_holds rx ops observed | _ \<Rightarrow> True)" for k want
    unfolding query_key_mismatch_def Let_def
    by (cases want) (auto simp: operators_mismatch_None)
  then show ?thesis by (auto simp: query_mismatch_def query_holds_def first_some_None)
qed

definition dict_holds :: "(string \<Rightarrow> string \<Rightarrow> bool) \<Rightarrow> exchange \<Rightarrow> dict_matcher option \<Rightarrow> dict_matcher option
    \<Rightarrow> bool" where
  "dict_holds rx ex query body \<longleftrightarrow>
     if_set query (\<lambda>q. query_holds rx q (ex_query_params ex)) \<and>
     if_set body (\<lambda>b. \<exists>ob. ex_request_json ex = Some ob \<and> holds_fields rx b ob)"

lemma dict_mismatch_None: "dict_mismatch rx ex query body = None \<longleftrightarrow> dict_holds rx ex query body"
proof -
  have query: "(case query of None \<Rightarrow> None | Some q \<Rightarrow> query_mismatch rx q (ex_query_params ex)) = None \<longleftrightarrow>
      if_set query (\<lambda>q. query_holds rx q (ex_query_params ex))"
    by (cases query) (simp_all add: if_set_def query_mismatch_None)
  have body: "(case body of None \<Rightarrow> None | Some b \<Rightarrow>
       (case ex_request_json ex of None \<Rightarrow> Some (if ex_request_body ex = None then NoBody else BodyNotObject)
        | Some ob \<Rightarrow> body_mismatch rx (MObj b) True (JObj ob) ''body'')) = None \<longleftrightarrow>
      if_set body (\<lambda>b. \<exists>ob. ex_request_json ex = Some ob \<and> holds_fields rx b ob)"
    by (cases body; cases "ex_request_json ex") (simp_all add: if_set_def body_mismatch_None)
  show ?thesis
    unfolding dict_mismatch_def or_else_None query body dict_holds_def ..
qed

end
