(* ===== verification/Request_Assignment.thy ===== *)
theory Request_Assignment
  imports Network_Match
begin

text \<open>
  The one-to-one assignment of request matchers to exchanges: Kuhn's augmenting paths, as
  \<open>_assign_requests\<close> of \<open>src/bajutsu/common/assertions/network.py\<close> runs them over three
  mutable arrays.  \<open>-1\<close> is \<open>None\<close>.  The recursion \<open>augment\<close> has fuel: each nested call marks one more
  exchange as seen, so one more than the number of exchanges is enough.  The lemmas show that
  the result is a matching and that no matching is larger.
\<close>

section \<open>The algorithm\<close>

record kuhn =
  k_seen :: "nat set"
  k_owner :: "nat \<Rightarrow> nat option"
  k_assigned :: "nat \<Rightarrow> nat option"

definition claim :: "nat \<Rightarrow> nat \<Rightarrow> kuhn \<Rightarrow> kuhn" where
  "claim i j st = st\<lparr>k_owner := (k_owner st)(j := Some i), k_assigned := (k_assigned st)(i := Some j)\<rparr>"

definition mark :: "nat \<Rightarrow> kuhn \<Rightarrow> kuhn" where
  "mark j st = st\<lparr>k_seen := insert j (k_seen st)\<rparr>"

text \<open>\<open>visit f adj i js st\<close> is the loop of \<open>augment(i, seen)\<close> over the rest \<open>js\<close> of \<open>adj[i]\<close>.\<close>

fun visit :: "nat \<Rightarrow> (nat \<Rightarrow> nat list) \<Rightarrow> nat \<Rightarrow> nat list \<Rightarrow> kuhn \<Rightarrow> bool \<times> kuhn" where
  "visit 0 adj i js st = (False, st)"
| "visit (Suc f) adj i [] st = (False, st)"
| "visit (Suc f) adj i (j # js) st =
     (if j \<in> k_seen st then visit (Suc f) adj i js st
      else case k_owner st j of
             None \<Rightarrow> (True, claim i j (mark j st))
           | Some k \<Rightarrow>
               (case visit f adj k (adj k) (mark j st) of
                  (True, st2) \<Rightarrow> (True, claim i j st2)
                | (False, st2) \<Rightarrow> visit (Suc f) adj i js st2))"

definition augment :: "nat \<Rightarrow> (nat \<Rightarrow> nat list) \<Rightarrow> nat \<Rightarrow> kuhn \<Rightarrow> kuhn" where
  "augment m adj i st = snd (visit (Suc m) adj i (adj i) (st\<lparr>k_seen := {}\<rparr>))"

definition adjacency :: "('ex \<Rightarrow> 'req \<Rightarrow> bool) \<Rightarrow> 'ex list \<Rightarrow> 'req list \<Rightarrow> nat \<Rightarrow> nat list" where
  "adjacency accepts exs reqs i =
     (if i < length reqs then [j \<leftarrow> [0..<length exs]. accepts (exs ! j) (reqs ! i)] else [])"

definition kuhn0 :: kuhn where
  "kuhn0 = \<lparr>k_seen = {}, k_owner = (\<lambda>_. None), k_assigned = (\<lambda>_. None)\<rparr>"

definition run_kuhn :: "nat \<Rightarrow> (nat \<Rightarrow> nat list) \<Rightarrow> nat \<Rightarrow> kuhn" where
  "run_kuhn m adj n = fold (augment m adj) [0..<n] kuhn0"

definition assign_requests :: "('ex \<Rightarrow> 'req \<Rightarrow> bool) \<Rightarrow> 'ex list \<Rightarrow> 'req list
    \<Rightarrow> nat option list \<times> bool list" where
  "assign_requests accepts exs reqs =
     (let adj = adjacency accepts exs reqs;
          st = run_kuhn (length exs) adj (length reqs)
      in (map (k_assigned st) [0..<length reqs], map (\<lambda>i. adj i \<noteq> []) [0..<length reqs]))"

section \<open>The search without fuel\<close>

inductive visits :: "(nat \<Rightarrow> nat list) \<Rightarrow> nat \<Rightarrow> nat list \<Rightarrow> kuhn \<Rightarrow> bool \<Rightarrow> kuhn \<Rightarrow> bool" for adj where
  exhausted: "visits adj i [] st False st"
| skipped: "j \<in> k_seen st \<Longrightarrow> visits adj i js st b st' \<Longrightarrow> visits adj i (j # js) st b st'"
| free: "j \<notin> k_seen st \<Longrightarrow> k_owner st j = None \<Longrightarrow> visits adj i (j # js) st True (claim i j (mark j st))"
| moved: "j \<notin> k_seen st \<Longrightarrow> k_owner st j = Some k \<Longrightarrow> visits adj k (adj k) (mark j st) True st2 \<Longrightarrow>
    visits adj i (j # js) st True (claim i j st2)"
| stuck: "j \<notin> k_seen st \<Longrightarrow> k_owner st j = Some k \<Longrightarrow> visits adj k (adj k) (mark j st) False st2 \<Longrightarrow>
    visits adj i js st2 b st' \<Longrightarrow> visits adj i (j # js) st b st'"

lemma mark_simps [simp]:
  "k_seen (mark j st) = insert j (k_seen st)" "k_owner (mark j st) = k_owner st"
  "k_assigned (mark j st) = k_assigned st"
  by (simp_all add: mark_def)

lemma claim_simps [simp]:
  "k_seen (claim i j st) = k_seen st" "k_owner (claim i j st) = (k_owner st)(j := Some i)"
  "k_assigned (claim i j st) = (k_assigned st)(i := Some j)"
  by (simp_all add: claim_def)

lemma visits_seen: "visits adj i js st b st' \<Longrightarrow> k_seen st \<subseteq> k_seen st'"
  by (induction rule: visits.induct) auto

text \<open>One unit of fuel per unseen exchange, and one more, is enough.\<close>

lemma visit_visits:
  assumes "finite M" "\<forall>k. set (adj k) \<subseteq> M"
  shows "set js \<subseteq> M \<Longrightarrow> card (M - k_seen st) < f \<Longrightarrow>
    visits adj i js st (fst (visit f adj i js st)) (snd (visit f adj i js st))"
proof (induction f arbitrary: i js st)
  case (Suc f)
  show ?case
    using Suc.prems
  proof (induction js arbitrary: st)
    case Nil
    show ?case by (simp add: visits.exhausted)
  next
    case (Cons j js)
    show ?case
    proof (cases "j \<in> k_seen st")
      case True
      then show ?thesis using Cons by (auto intro: visits.skipped)
    next
      case False
      note unseen = this
      show ?thesis
      proof (cases "k_owner st j")
        case None
        with unseen show ?thesis by (simp add: visits.free)
      next
        case (Some k)
        have "card (M - insert j (k_seen st)) < card (M - k_seen st)"
          using assms(1) Cons.prems(1) unseen by (intro psubset_card_mono) auto
        then have fuel: "card (M - k_seen (mark j st)) < f" using Cons.prems(2) by simp
        obtain b st2 where inner: "visit f adj k (adj k) (mark j st) = (b, st2)" by fastforce
        have v: "visits adj k (adj k) (mark j st) b st2"
          using Suc.IH [of "adj k" "mark j st" k] assms(2) fuel inner by simp
        show ?thesis
        proof (cases b)
          case True
          with v unseen Some inner show ?thesis by (auto intro: visits.moved)
        next
          case False
          have "k_seen st \<subseteq> k_seen st2" using visits_seen [OF v] by auto
          then have "card (M - k_seen st2) \<le> card (M - k_seen st)"
            using assms(1) by (intro card_mono) auto
          then have "visits adj i js st2 (fst (visit (Suc f) adj i js st2)) (snd (visit (Suc f) adj i js st2))"
            using Cons.IH [of st2] Cons.prems by simp
          with v False unseen Some inner show ?thesis by (auto intro: visits.stuck)
        qed
      qed
    qed
  qed
qed simp

section \<open>A failing search changes nothing and closes what it saw\<close>

text \<open>Every exchange of \<open>U\<close> is taken, by a request that wants only exchanges of \<open>T\<close>.\<close>

definition closed_under :: "(nat \<Rightarrow> nat list) \<Rightarrow> (nat \<Rightarrow> nat option) \<Rightarrow> nat set \<Rightarrow> nat set \<Rightarrow> bool" where
  "closed_under adj own U T \<longleftrightarrow> (\<forall>j\<in>U. \<exists>k. own j = Some k \<and> set (adj k) \<subseteq> T)"

lemma closed_under_mono: "closed_under adj own U T \<Longrightarrow> T \<subseteq> T' \<Longrightarrow> closed_under adj own U T'"
  unfolding closed_under_def by (meson subset_trans)

lemma closed_under_Un: "closed_under adj own (U \<union> V) T \<longleftrightarrow> closed_under adj own U T \<and> closed_under adj own V T"
  by (auto simp: closed_under_def)

lemma visits_False:
  assumes "visits adj i js st b st'" "\<not> b"
  shows "k_owner st' = k_owner st \<and> k_assigned st' = k_assigned st \<and> set js \<subseteq> k_seen st' \<and>
    closed_under adj (k_owner st) (k_seen st' - k_seen st) (k_seen st')"
  using assms
proof (induction rule: visits.induct)
  case (skipped j st i js b st')
  then show ?case using visits_seen [OF skipped(2)] by auto
next
  case (stuck j st k st2 i js b st')
  note sub = visits_seen [OF stuck(3)] visits_seen [OF stuck(4)]
  have split: "k_seen st' - k_seen st =
      ({j} \<union> (k_seen st2 - k_seen (mark j st))) \<union> (k_seen st' - k_seen st2)"
    using sub stuck(1) by auto
  have "closed_under adj (k_owner st) {j} (k_seen st')"
    using stuck sub by (auto simp: closed_under_def)
  moreover have "closed_under adj (k_owner st) (k_seen st2 - k_seen (mark j st)) (k_seen st')"
    using stuck.IH(1) sub(2) closed_under_mono by fastforce
  moreover have "closed_under adj (k_owner st) (k_seen st' - k_seen st2) (k_seen st')"
    using stuck by simp
  ultimately show ?case
    unfolding split closed_under_Un using stuck sub by auto
qed (auto simp: closed_under_def)

text \<open>A closed set is never entered by a successful search, so its owners stay.\<close>

lemma visits_inside:
  assumes "visits adj i js st b st'" "closed_under adj (k_owner st) T T" "set js \<subseteq> T"
  shows "\<not> b"
  using assms
proof (induction rule: visits.induct)
  case (free j st i js)
  then show ?case by (auto simp: closed_under_def)
next
  case (moved j st k st2 i js)
  then show ?case by (auto simp: closed_under_def)
next
  case (stuck j st k st2 i js b st')
  then show ?case using visits_False [OF stuck(3)] by simp
qed auto

lemma visits_keeps_closed:
  assumes "visits adj i js st b st'" "closed_under adj (k_owner st) T T"
  shows "\<forall>j\<in>T. k_owner st' j = k_owner st j"
  using assms
proof (induction rule: visits.induct)
  case (free j st i js)
  then show ?case by (auto simp: closed_under_def)
next
  case (moved j st k st2 i js)
  have "j \<notin> T"
  proof
    assume "j \<in> T"
    then have "\<exists>k'. k_owner st j = Some k' \<and> set (adj k') \<subseteq> T"
      using moved.prems unfolding closed_under_def by blast
    then have "set (adj k) \<subseteq> T" using moved.hyps(2) by simp
    then show False using visits_inside [OF moved(3)] moved.prems by simp
  qed
  with moved show ?case by auto
next
  case (stuck j st k st2 i js b st')
  then show ?case using visits_False [OF stuck(3)] by simp
qed auto

section \<open>A successful search serves one more request\<close>

definition consistent :: "kuhn \<Rightarrow> bool" where
  "consistent st \<longleftrightarrow> (\<forall>j k. k_owner st j = Some k \<longleftrightarrow> k_assigned st k = Some j)"

definition edges_ok :: "(nat \<Rightarrow> nat list) \<Rightarrow> kuhn \<Rightarrow> bool" where
  "edges_ok adj st \<longleftrightarrow> (\<forall>k j. k_assigned st k = Some j \<longrightarrow> j \<in> set (adj k))"

text \<open>
  While \<open>augment(i)\<close> unwinds, the exchange \<open>i\<close> gives up still names \<open>i\<close> as its owner until the
  caller overwrites it.
\<close>

definition served :: "kuhn \<Rightarrow> nat \<Rightarrow> kuhn \<Rightarrow> bool" where
  "served st i st' \<longleftrightarrow>
     (\<forall>k j. k \<noteq> i \<longrightarrow> (k_owner st' j = Some k \<longleftrightarrow> k_assigned st' k = Some j)) \<and>
     (\<exists>j1. k_assigned st' i = Some j1 \<and> j1 \<notin> k_seen st \<and>
        (\<forall>j. k_owner st' j = Some i \<longleftrightarrow> j = j1 \<or> k_assigned st i = Some j)) \<and>
     (\<forall>j\<in>k_seen st. k_owner st' j = k_owner st j) \<and>
     dom (k_assigned st') = insert i (dom (k_assigned st))"

lemma served_claim:
  assumes c: "consistent st" and old: "\<forall>j. k_assigned st i = Some j \<longrightarrow> j \<in> k_seen st"
    and j: "j \<notin> k_seen st" "k_owner st j = Some k" and inner: "served (mark j st) k st2"
  shows "served st i (claim i j st2)"
proof -
  have ki: "k \<noteq> i" using c old j by (auto simp: consistent_def)
  have kj: "k_assigned st k = Some j" using c j by (simp add: consistent_def)
  from inner have "\<exists>j1. k_assigned st2 k = Some j1 \<and> j1 \<notin> insert j (k_seen st) \<and>
      (\<forall>j'. k_owner st2 j' = Some k \<longleftrightarrow> j' = j1 \<or> j = j')"
    unfolding served_def by (simp add: kj)
  then obtain j1 where j1: "k_assigned st2 k = Some j1" "j1 \<noteq> j" "j1 \<notin> k_seen st"
    "\<And>j'. k_owner st2 j' = Some k \<longleftrightarrow> j' = j1 \<or> j = j'" by auto
  have others: "\<forall>k' j'. k' \<noteq> k \<longrightarrow> (k_owner st2 j' = Some k' \<longleftrightarrow> k_assigned st2 k' = Some j')"
    and seen: "\<forall>j'\<in>insert j (k_seen st). k_owner st2 j' = k_owner st j'"
    and dom: "dom (k_assigned st2) = insert k (dom (k_assigned st))"
    using inner by (simp_all add: served_def)
  have owner_j: "k_owner st2 j = Some k" using seen j(2) by simp
  have assigned_i: "k_assigned st2 i = k_assigned st i"
  proof (cases "k_assigned st i")
    case None
    then have "i \<notin> dom (k_assigned st2)" using dom ki by auto
    with None show ?thesis by auto
  next
    case (Some j0)
    then have "k_owner st2 j0 = Some i" using c old seen by (auto simp: consistent_def)
    with others ki Some show ?thesis by auto
  qed
  have a: "k_owner (claim i j st2) j' = Some k' \<longleftrightarrow> k_assigned (claim i j st2) k' = Some j'" if "k' \<noteq> i" for k' j'
  proof (cases "k' = k")
    case True
    then show ?thesis using ki j1 by auto
  next
    case False
    then have "k_assigned st2 k' \<noteq> Some j" using others owner_j by (metis option.inject)
    then show ?thesis using False that others by auto
  qed
  have b: "k_owner (claim i j st2) j' = Some i \<longleftrightarrow> j' = j \<or> k_assigned st i = Some j'" for j'
    using others ki assigned_i by auto
  have d: "dom (k_assigned (claim i j st2)) = insert i (dom (k_assigned st))"
    using dom kj by auto
  show ?thesis
    unfolding served_def using a b d j(1) seen by auto
qed

lemma served_consistent:
  assumes "served st i st'" "k_assigned st i = None"
  shows "consistent st'"
proof -
  have "k_owner st' j = Some k \<longleftrightarrow> k_assigned st' k = Some j" for j k
  proof (cases "k = i")
    case True
    obtain j1 where "k_assigned st' i = Some j1" "\<forall>j. k_owner st' j = Some i \<longleftrightarrow> j = j1"
      using assms unfolding served_def by auto
    with True show ?thesis by auto
  next
    case False
    with assms(1) show ?thesis unfolding served_def by blast
  qed
  then show ?thesis unfolding consistent_def by blast
qed

lemma visits_True:
  assumes "visits adj i js st b st'" "b" "consistent st" "\<forall>j. k_assigned st i = Some j \<longrightarrow> j \<in> k_seen st"
  shows "served st i st'"
  using assms
proof (induction rule: visits.induct)
  case (free j st i js)
  have "k_assigned st k \<noteq> Some j" for k
    using free.hyps(2) free.prems(2) unfolding consistent_def by (metis option.distinct(1))
  with free show ?case by (auto simp: served_def consistent_def)
next
  case (moved j st k st2 i js)
  have "\<forall>j'. k_assigned (mark j st) k = Some j' \<longrightarrow> j' \<in> k_seen (mark j st)"
    using moved.hyps(2) moved.prems(2) by (auto simp: consistent_def)
  moreover have "consistent (mark j st)" using moved.prems(2) by (simp add: consistent_def)
  ultimately have "served (mark j st) k st2" using moved.IH by blast
  then show ?case by (rule served_claim [OF moved.prems(2,3) moved.hyps(1,2)])
next
  case (stuck j st k st2 i js b st')
  have same: "k_owner st2 = k_owner st" "k_assigned st2 = k_assigned st"
    using visits_False [OF stuck(3)] by simp_all
  have sub: "k_seen st \<subseteq> k_seen st2" using visits_seen [OF stuck(3)] by auto
  have "consistent st2" using stuck.prems(2) by (simp add: consistent_def same)
  moreover have "\<forall>j. k_assigned st2 i = Some j \<longrightarrow> j \<in> k_seen st2"
    using stuck.prems(3) sub by (auto simp: same)
  ultimately have "served st2 i st'" using stuck.IH(2) stuck.prems(1) by blast
  then show ?case using sub unfolding served_def same by blast
qed auto

lemma edges_ok_mark [simp]: "edges_ok adj (mark j st) = edges_ok adj st"
  by (simp add: edges_ok_def)

lemma edges_ok_claim: "edges_ok adj st \<Longrightarrow> j \<in> set (adj i) \<Longrightarrow> edges_ok adj (claim i j st)"
  unfolding edges_ok_def by simp

lemma visits_edges:
  assumes "visits adj i js st b st'" "edges_ok adj st" "set js \<subseteq> set (adj i)"
  shows "edges_ok adj st'"
  using assms by (induction rule: visits.induct) (simp_all add: edges_ok_claim)

section \<open>The whole run\<close>

text \<open>
  After the first \<open>i\<close> requests: a matching of some of them, and a closed set \<open>T\<close> that holds
  everything the unserved ones want.
\<close>

definition kuhn_inv :: "(nat \<Rightarrow> nat list) \<Rightarrow> nat \<Rightarrow> kuhn \<Rightarrow> bool" where
  "kuhn_inv adj i st \<longleftrightarrow> consistent st \<and> edges_ok adj st \<and> dom (k_assigned st) \<subseteq> {..<i} \<and>
     (\<exists>T. closed_under adj (k_owner st) T T \<and> (\<forall>k<i. k_assigned st k = None \<longrightarrow> set (adj k) \<subseteq> T))"

lemma augment_inv:
  assumes inv: "kuhn_inv adj i st" and m: "\<forall>k. set (adj k) \<subseteq> {..<m}"
  shows "kuhn_inv adj (Suc i) (augment m adj i st)"
proof -
  let ?st = "st\<lparr>k_seen := {}\<rparr>" and ?r = "visit (Suc m) adj i (adj i) (st\<lparr>k_seen := {}\<rparr>)"
  have v: "visits adj i (adj i) ?st (fst ?r) (snd ?r)"
    by (rule visit_visits [of "{..<m}"]) (use m in auto)
  obtain T where T: "closed_under adj (k_owner st) T T" "\<forall>k<i. k_assigned st k = None \<longrightarrow> set (adj k) \<subseteq> T"
    using inv by (auto simp: kuhn_inv_def)
  have i: "k_assigned st i = None" using inv by (auto simp: kuhn_inv_def)
  have edges: "edges_ok adj (snd ?r)"
    using visits_edges [OF v] inv by (simp add: kuhn_inv_def edges_ok_def)
  have c: "consistent ?st" using inv by (simp add: kuhn_inv_def consistent_def)
  show ?thesis
  proof (cases "fst ?r")
    case True
    then have s: "served ?st i (snd ?r)" using visits_True [OF v _ c] i by simp
    then have "consistent (snd ?r)" using served_consistent [OF s] i by simp
    moreover have "dom (k_assigned (snd ?r)) \<subseteq> {..<Suc i}"
      using s inv by (auto simp: served_def kuhn_inv_def)
    moreover have "\<forall>j\<in>T. k_owner (snd ?r) j = k_owner st j"
      using visits_keeps_closed [OF v] T(1) by simp
    then have "closed_under adj (k_owner (snd ?r)) T T" using T(1) by (simp add: closed_under_def)
    moreover have "\<forall>k<Suc i. k_assigned (snd ?r) k = None \<longrightarrow> set (adj k) \<subseteq> T"
    proof (intro allI impI)
      fix k assume k: "k < Suc i" "k_assigned (snd ?r) k = None"
      moreover have "dom (k_assigned (snd ?r)) = insert i (dom (k_assigned st))"
        using s by (simp add: served_def)
      ultimately have "k \<notin> insert i (dom (k_assigned st))" by (metis domIff)
      with k T(2) show "set (adj k) \<subseteq> T" by (auto simp: less_Suc_eq)
    qed
    ultimately show ?thesis using edges unfolding kuhn_inv_def augment_def by blast
  next
    case False
    let ?S = "k_seen (snd ?r)"
    have f: "k_owner (snd ?r) = k_owner st" "k_assigned (snd ?r) = k_assigned st" "set (adj i) \<subseteq> ?S"
      "closed_under adj (k_owner st) ?S ?S"
      using visits_False [OF v False] by simp_all
    have "closed_under adj (k_owner st) (T \<union> ?S) (T \<union> ?S)"
      unfolding closed_under_Un using T(1) f(4) closed_under_mono by (metis Un_upper1 Un_upper2)
    moreover have "\<forall>k<Suc i. k_assigned st k = None \<longrightarrow> set (adj k) \<subseteq> T \<union> ?S"
      using T(2) f(3) by (auto simp: less_Suc_eq)
    moreover have "consistent (snd ?r)" using c f by (simp add: consistent_def)
    moreover have "dom (k_assigned (snd ?r)) \<subseteq> {..<Suc i}" using inv f by (auto simp: kuhn_inv_def)
    ultimately show ?thesis using edges f unfolding kuhn_inv_def augment_def by metis
  qed
qed

lemma run_kuhn_inv: "\<forall>k. set (adj k) \<subseteq> {..<m} \<Longrightarrow> kuhn_inv adj n (run_kuhn m adj n)"
proof (induction n)
  case 0
  show ?case
    by (auto simp: run_kuhn_def kuhn0_def kuhn_inv_def consistent_def edges_ok_def closed_under_def
        intro!: exI [of _ "{}"])
next
  case (Suc n)
  then show ?case by (simp add: run_kuhn_def augment_inv)
qed

section \<open>No matching is larger\<close>

definition is_matching :: "(nat \<Rightarrow> nat list) \<Rightarrow> nat \<Rightarrow> (nat \<Rightarrow> nat option) \<Rightarrow> bool" where
  "is_matching adj n f \<longleftrightarrow> dom f \<subseteq> {..<n} \<and> inj_on f (dom f) \<and> (\<forall>k j. f k = Some j \<longrightarrow> j \<in> set (adj k))"

lemma kuhn_is_matching: "kuhn_inv adj n st \<Longrightarrow> is_matching adj n (k_assigned st)"
  by (auto simp: kuhn_inv_def is_matching_def edges_ok_def consistent_def inj_on_def)
    (metis option.inject)

lemma kuhn_maximum:
  assumes inv: "kuhn_inv adj n st" and f: "is_matching adj n f"
  shows "card (dom f) \<le> card (dom (k_assigned st))"
proof -
  let ?g = "k_assigned st"
  obtain T where T: "closed_under adj (k_owner st) T T" "\<forall>k<n. ?g k = None \<longrightarrow> set (adj k) \<subseteq> T"
    using inv by (auto simp: kuhn_inv_def)
  have owned: "\<exists>k. ?g k = Some j \<and> set (adj k) \<subseteq> T" if "j \<in> T" for j
    using T(1) that inv by (auto simp: closed_under_def kuhn_inv_def consistent_def)
  have fin: "finite (dom f)" "finite (dom ?g)"
    using f inv by (auto simp: is_matching_def kuhn_inv_def intro: finite_subset)
  let ?A = "{k \<in> dom f. the (f k) \<in> T}" and ?B = "{k \<in> dom f. the (f k) \<notin> T}"
  let ?C = "{k \<in> dom ?g. the (?g k) \<in> T}" and ?D = "{k \<in> dom ?g. the (?g k) \<notin> T}"
  have "(\<lambda>k. the (f k)) ` ?A \<subseteq> (\<lambda>k. the (?g k)) ` ?C"
    using owned by force
  moreover have "inj_on (\<lambda>k. the (f k)) ?A"
  proof (rule inj_onI)
    fix x y assume xy: "x \<in> ?A" "y \<in> ?A" "the (f x) = the (f y)"
    then have "f x = f y" by auto
    with xy f show "x = y" unfolding is_matching_def by (auto dest: inj_onD)
  qed
  ultimately have "card ?A \<le> card ?C"
    using fin by (metis (no_types, lifting) card_image card_image_le card_mono finite_imageI
        finite_subset mem_Collect_eq order_trans subsetI)
  moreover have "?B \<subseteq> ?D"
  proof
    fix k assume "k \<in> ?B"
    then obtain j where j: "f k = Some j" "j \<notin> T" by auto
    then have k: "k < n" "j \<in> set (adj k)" using f by (auto simp: is_matching_def)
    with T(2) j obtain j' where j': "?g k = Some j'" by (cases "?g k") auto
    have "j' \<notin> T"
    proof
      assume "j' \<in> T"
      then obtain k' where "?g k' = Some j'" "set (adj k') \<subseteq> T" using owned by blast
      moreover from this j' have "k' = k" using inv by (auto simp: kuhn_inv_def consistent_def) (metis option.inject)
      ultimately show False using k j by auto
    qed
    with j' show "k \<in> ?D" by auto
  qed
  then have "card ?B \<le> card ?D" using fin by (intro card_mono) auto
  moreover have "card (dom f) = card ?A + card ?B"
    by (subst card_Un_disjoint [symmetric]) (use fin in \<open>auto intro!: arg_cong [of _ _ card]\<close>)
  moreover have "card (dom ?g) = card ?C + card ?D"
    by (subst card_Un_disjoint [symmetric]) (use fin in \<open>auto intro!: arg_cong [of _ _ card]\<close>)
  ultimately show ?thesis by linarith
qed

section \<open>The assignment\<close>

lemma adjacency_mem:
  "j \<in> set (adjacency accepts exs reqs i) \<longleftrightarrow> i < length reqs \<and> j < length exs \<and> accepts (exs ! j) (reqs ! i)"
  by (auto simp: adjacency_def)

definition one_to_one :: "('ex \<Rightarrow> 'req \<Rightarrow> bool) \<Rightarrow> 'ex list \<Rightarrow> 'req list \<Rightarrow> (nat \<Rightarrow> nat option) \<Rightarrow> bool" where
  "one_to_one accepts exs reqs g \<longleftrightarrow> inj_on g (dom g) \<and>
     (\<forall>i j. g i = Some j \<longrightarrow> i < length reqs \<and> j < length exs \<and> accepts (exs ! j) (reqs ! i))"

lemma one_to_one_matching:
  "one_to_one accepts exs reqs g \<longleftrightarrow> is_matching (adjacency accepts exs reqs) (length reqs) g"
  unfolding one_to_one_def is_matching_def adjacency_mem by (auto simp: dom_def)

lemma assign_requests_inv:
  assumes "assign_requests accepts exs reqs = (assigned, had)"
  defines "st \<equiv> run_kuhn (length exs) (adjacency accepts exs reqs) (length reqs)"
  shows "kuhn_inv (adjacency accepts exs reqs) (length reqs) st"
    and "assigned = map (k_assigned st) [0..<length reqs]"
    and "had = map (\<lambda>i. adjacency accepts exs reqs i \<noteq> []) [0..<length reqs]"
proof -
  show "kuhn_inv (adjacency accepts exs reqs) (length reqs) st"
    unfolding st_def by (rule run_kuhn_inv) (auto simp: adjacency_mem)
  show "assigned = map (k_assigned st) [0..<length reqs]"
    "had = map (\<lambda>i. adjacency accepts exs reqs i \<noteq> []) [0..<length reqs]"
    using assms by (auto simp: assign_requests_def Let_def)
qed

lemma assigned_count:
  "dom g \<subseteq> {..<n} \<Longrightarrow> length [x \<leftarrow> map g [0..<n]. x \<noteq> None] = card (dom g)"
proof -
  assume d: "dom g \<subseteq> {..<n}"
  have "length [x \<leftarrow> map g [0..<n]. x \<noteq> None] = length [i \<leftarrow> [0..<n]. g i \<noteq> None]"
    by (simp add: filter_map o_def)
  also have "\<dots> = card {i. i < n \<and> g i \<noteq> None}"
    by (subst length_filter_conv_card) (auto intro!: arg_cong [of _ _ card])
  also have "{i. i < n \<and> g i \<noteq> None} = dom g" using d by auto
  finally show ?thesis .
qed

section \<open>Properties\<close>

text \<open>C13: The one-to-one request assignment is correct and optimal: every matcher is given a distinct
  exchange that it accepts, the second list tells exactly which matchers accept some exchange, and
  no one-to-one assignment whatever serves more matchers; a broad matcher never costs a more specific
  one the only exchange it could take.\<close>
theorem request_assignment_is_maximum:
  assumes "assign_requests accepts exs reqs = (assigned, had)"
  shows "length assigned = length reqs \<and>
    one_to_one accepts exs reqs (\<lambda>i. if i < length reqs then assigned ! i else None) \<and>
    (\<forall>i<length reqs. had ! i = (\<exists>ex\<in>set exs. accepts ex (reqs ! i))) \<and>
    (\<forall>g. one_to_one accepts exs reqs g \<longrightarrow> card (dom g) \<le> length [x \<leftarrow> assigned. x \<noteq> None])"
proof -
  define st where "st = run_kuhn (length exs) (adjacency accepts exs reqs) (length reqs)"
  note inv = assign_requests_inv [OF assms, folded st_def]
  have d: "dom (k_assigned st) \<subseteq> {..<length reqs}" using inv(1) by (simp add: kuhn_inv_def)
  then have out: "k_assigned st i = None" if "\<not> i < length reqs" for i using that by auto
  have "(\<lambda>i. if i < length reqs then assigned ! i else None) = k_assigned st"
    using out by (auto simp: inv(2) fun_eq_iff)
  moreover have "one_to_one accepts exs reqs (k_assigned st)"
    using kuhn_is_matching [OF inv(1)] by (simp add: one_to_one_matching)
  moreover have "had ! i = (\<exists>ex\<in>set exs. accepts ex (reqs ! i))" if "i < length reqs" for i
  proof -
    have "had ! i \<longleftrightarrow> (\<exists>j<length exs. accepts (exs ! j) (reqs ! i))"
      using that by (auto simp: inv(3) adjacency_def filter_empty_conv)
    then show ?thesis by (metis in_set_conv_nth)
  qed
  moreover have "card (dom g) \<le> length [x \<leftarrow> assigned. x \<noteq> None]" if "one_to_one accepts exs reqs g" for g
    using kuhn_maximum [OF inv(1), of g] that unfolding inv(2) assigned_count [OF d] one_to_one_matching by blast
  ultimately show ?thesis by (simp add: inv(2))
qed

theorem request_assignment_is_maximum_witness:
  "fst (assign_requests (\<lambda>e r. r = 0 \<or> e = r) [5, 7] [0, 5 :: nat]) = [Some 1, Some 0] \<and>
   one_to_one (\<lambda>e r. r = 0 \<or> e = r) [5, 7] [0, 5 :: nat] (\<lambda>i. if i < 2 then [Some 1, Some 0] ! i else None)"
proof -
  have "assign_requests (\<lambda>e r. r = 0 \<or> e = r) [5, 7] [0, 5 :: nat] = ([Some 1, Some 0], [True, True])"
    by code_simp
  from request_assignment_is_maximum [OF this] this show ?thesis by (simp add: numeral_2_eq_2)
qed

end
