(* ===== verification/Assertions.thy ===== *)
theory Assertions
  imports Waiting Request_Assignment "HOL-Library.Sublist"
begin

text \<open>
  Assertion evaluation (\<open>src/bajutsu/common/assertions/evaluate/_functions.py\<close>, \<open>schema.py\<close>) and
  the golden comparison (\<open>src/bajutsu/common/evidence/golden/_functions.py\<close>).  A result carries
  its verdict, its kind and a structured reason; the report's detail line is display text and is
  left out.  The model of an assertion is the validated one: exactly one kind, exactly one
  operator.  The visual comparison, the JSON Schema validator and the reading of stored files are
  parameters, fields of the evaluation context.
\<close>

section \<open>Results\<close>

datatype reason =
    NoReason
  | WasPresent | WasAbsent
  | Selector_failed selector_error
  | TextWas "string option"
  | AttributeUnread | AttributeFailed string
  | CountWas nat
  | TraitsWere "string list"
  | RequestCountWas nat
  | Hint mismatch
  | NoExchange nat
  | Taken
  | EventCountWas nat
  | NotInOrder nat
  | ClipboardUnread | ClipboardWas string
  | NoContext
  | PathEscapes | FileMissing | FileUnreadable string
  | GoldenDiffers
  | NoResponseBody | ResponseNotJson | SchemaFailed string
  | VisualFailed string

record assertion_result =
  ar_ok :: bool
  ar_kind :: string
  ar_reason :: reason

definition verdict :: "bool \<Rightarrow> string \<Rightarrow> reason \<Rightarrow> assertion_result" where
  "verdict ok kind why = \<lparr>ar_ok = ok, ar_kind = kind, ar_reason = (if ok then NoReason else why)\<rparr>"

lemma verdict_simps [simp]: "ar_ok (verdict ok kind why) = ok" "ar_kind (verdict ok kind why) = kind"
  by (simp_all add: verdict_def)

definition passed :: "assertion_result list \<Rightarrow> bool" where
  "passed rs \<longleftrightarrow> list_all ar_ok rs"

section \<open>The UI kinds\<close>

text \<open>\<open>_one_op\<close> lets exactly one of the three through; \<open>_text_op\<close> picks it.\<close>

datatype text_test = TEquals string | TContains string | TMatches string

definition text_op :: "string option \<Rightarrow> string option \<Rightarrow> string option \<Rightarrow> text_test option" where
  "text_op eq sub pat =
     (case (eq, sub, pat) of
        (Some e, None, None) \<Rightarrow> Some (TEquals e)
      | (None, Some c, None) \<Rightarrow> Some (TContains c)
      | (None, None, Some m) \<Rightarrow> Some (TMatches m)
      | _ \<Rightarrow> None)"

definition text_cmp :: "regex_search \<Rightarrow> string option \<Rightarrow> text_test \<Rightarrow> bool" where
  "text_cmp rx actual t =
     (case actual of
        None \<Rightarrow> False
      | Some a \<Rightarrow> (case t of TEquals e \<Rightarrow> a = e | TContains c \<Rightarrow> substring c a | TMatches p \<Rightarrow> rx p a))"

definition eval_exists :: "regex_search \<Rightarrow> element list \<Rightarrow> selector \<Rightarrow> bool \<Rightarrow> assertion_result" where
  "eval_exists rx els sel negate =
     (let found = (length (find_elements rx els sel) \<ge> 1)
      in verdict (found \<noteq> negate) ''exists'' (if found then WasPresent else WasAbsent))"

definition eval_text :: "regex_search \<Rightarrow> element list \<Rightarrow> string \<Rightarrow> selector \<Rightarrow> text_test \<Rightarrow> assertion_result" where
  "eval_text rx els kind sel t =
     (case resolve_unique rx els sel of
        Inl e \<Rightarrow> verdict False kind (Selector_failed e)
      | Inr el \<Rightarrow>
          (let actual = (if kind = ''value'' then el_value el else el_label el)
           in verdict (text_cmp rx actual t) kind (TextWas actual)))"

datatype attribute_read = ReadOk "string option" | ReadError string

definition eval_attribute :: "regex_search \<Rightarrow> attribute_read option \<Rightarrow> text_test option \<Rightarrow> assertion_result" where
  "eval_attribute rx read t =
     (case read of
        None \<Rightarrow> verdict False ''attribute'' AttributeUnread
      | Some (ReadError e) \<Rightarrow> verdict False ''attribute'' (AttributeFailed e)
      | Some (ReadOk actual) \<Rightarrow>
          (case t of
             None \<Rightarrow> verdict (actual = None) ''attribute'' (TextWas actual)
           | Some t \<Rightarrow> verdict (text_cmp rx actual t) ''attribute'' (TextWas actual)))"

datatype count_test = CEquals int | CAtLeast int | CAtMost int

definition count_op :: "int option \<Rightarrow> int option \<Rightarrow> int option \<Rightarrow> count_test option" where
  "count_op equals at_least at_most =
     (case (equals, at_least, at_most) of
        (Some k, None, None) \<Rightarrow> Some (CEquals k)
      | (None, Some k, None) \<Rightarrow> Some (CAtLeast k)
      | (None, None, Some k) \<Rightarrow> Some (CAtMost k)
      | _ \<Rightarrow> None)"

fun count_holds :: "nat \<Rightarrow> count_test \<Rightarrow> bool" where
  "count_holds n (CEquals k) = (int n = k)"
| "count_holds n (CAtLeast k) = (int n \<ge> k)"
| "count_holds n (CAtMost k) = (int n \<le> k)"

definition eval_count :: "regex_search \<Rightarrow> element list \<Rightarrow> selector \<Rightarrow> count_test \<Rightarrow> assertion_result" where
  "eval_count rx els sel t =
     (let n = length (find_elements rx els sel) in verdict (count_holds n t) ''count'' (CountWas n))"

definition eval_state :: "regex_search \<Rightarrow> element list \<Rightarrow> string \<Rightarrow> selector \<Rightarrow> assertion_result" where
  "eval_state rx els kind sel =
     (case resolve_unique rx els sel of
        Inl e \<Rightarrow> verdict False kind (Selector_failed e)
      | Inr el \<Rightarrow>
          (let ts = el_traits el;
               ok = (if kind = ''enabled'' then trait_not_enabled \<notin> set ts
                     else if kind = ''disabled'' then trait_not_enabled \<in> set ts
                     else trait_selected \<in> set ts)
           in verdict ok kind (TraitsWere ts)))"

section \<open>The network kinds\<close>

definition hint_or :: "mismatch option \<Rightarrow> reason \<Rightarrow> reason" where
  "hint_or h r = (case h of Some m \<Rightarrow> Hint m | None \<Rightarrow> r)"

definition eval_request :: "regex_search \<Rightarrow> exchange list \<Rightarrow> request_match \<Rightarrow> assertion_result" where
  "eval_request rx exs req =
     (let n = count_matching rx exs req
      in case rq_count req of
           Some c \<Rightarrow> verdict (int n = c) ''request'' (RequestCountWas n)
         | None \<Rightarrow> verdict (n \<ge> 1) ''request'' (hint_or (dictionary_hint rx exs req) (NoExchange (length exs))))"

definition request_assignment_result :: "regex_search \<Rightarrow> request_match \<Rightarrow> nat option \<Rightarrow> exchange list \<Rightarrow> bool
    \<Rightarrow> assertion_result" where
  "request_assignment_result rx req assigned exs matched_any =
     verdict (assigned \<noteq> None) ''request''
       (if matched_any then Taken else hint_or (dictionary_hint rx exs req) (NoExchange (length exs)))"

definition count_satisfied :: "nat \<Rightarrow> count_test option \<Rightarrow> bool" where
  "count_satisfied n c = (case c of None \<Rightarrow> n \<ge> 1 | Some t \<Rightarrow> count_holds n t)"

record event_match =
  em_match :: request_match \<comment> \<open>method, url, urlMatches, path, pathMatches, query and body\<close>
  em_count :: "count_test option"

definition has_endpoint :: "request_match \<Rightarrow> bool" where
  "has_endpoint m \<longleftrightarrow> rq_method m \<noteq> None \<or> rq_url m \<noteq> None \<or> rq_url_matches m \<noteq> None \<or>
     rq_path m \<noteq> None \<or> rq_path_matches m \<noteq> None"

definition event_candidates :: "regex_search \<Rightarrow> exchange list \<Rightarrow> request_match \<Rightarrow> exchange list" where
  "event_candidates rx exs m =
     (let cs = (if has_endpoint m then [ex \<leftarrow> exs. match_request rx ex (endpoint_of m)] else exs)
      in if rq_query m \<noteq> None \<or> rq_body m \<noteq> None
         then [ex \<leftarrow> cs. dict_mismatch rx ex (rq_query m) (rq_body m) = None] else cs)"

definition eval_event :: "regex_search \<Rightarrow> exchange list \<Rightarrow> event_match \<Rightarrow> assertion_result" where
  "eval_event rx exs m =
     (let n = length (event_candidates rx exs (em_match m))
      in verdict (count_satisfied n (em_count m)) ''event''
           (hint_or (if em_count m = None then dictionary_hint rx exs (em_match m) else None)
              (EventCountWas n)))"

text \<open>The forward scan: the position of the first matcher not observed in order, if any.\<close>

fun sequence_gap :: "('ex \<Rightarrow> 'req \<Rightarrow> bool) \<Rightarrow> 'ex list \<Rightarrow> 'req list \<Rightarrow> nat \<Rightarrow> nat option" where
  "sequence_gap accepts exs [] pos = None"
| "sequence_gap accepts exs (r # rs) pos =
     (case dropWhile (\<lambda>ex. \<not> accepts ex r) exs of
        [] \<Rightarrow> Some pos
      | ex # rest \<Rightarrow> sequence_gap accepts rest rs (Suc pos))"

definition eval_request_sequence :: "regex_search \<Rightarrow> exchange list \<Rightarrow> request_match list \<Rightarrow> assertion_result" where
  "eval_request_sequence rx exs reqs =
     (case sequence_gap (match_request rx) exs reqs 0 of
        Some pos \<Rightarrow> verdict False ''requestSequence'' (NotInOrder pos)
      | None \<Rightarrow> verdict True ''requestSequence'' NoReason)"

lemma subseq_dropWhile:
  "subseq (y # ys) xs \<Longrightarrow> P y \<Longrightarrow> \<exists>x rest. dropWhile (\<lambda>x. \<not> P x) xs = x # rest \<and> P x \<and> subseq ys rest"
proof (induction xs)
  case (Cons x xs)
  show ?case
  proof (cases "P x")
    case True
    have "subseq ys xs" using Cons.prems(1) by (metis subseq_Cons' subseq_Cons2_iff)
    with True show ?thesis by simp
  next
    case False
    with Cons.prems have "subseq (y # ys) xs" by (metis subseq_Cons2_neq)
    with Cons False show ?thesis by simp
  qed
qed simp

text \<open>Greedy is optimal: the scan succeeds whenever some order-preserving choice exists.\<close>

lemma sequence_gap_None:
  "sequence_gap accepts exs reqs pos = None \<longleftrightarrow> (\<exists>ys. subseq ys exs \<and> list_all2 accepts ys reqs)"
proof (induction reqs arbitrary: exs pos)
  case Nil
  show ?case by (auto intro: exI [of _ "[]"])
next
  case (Cons r rs)
  show ?case
  proof
    assume ok: "sequence_gap accepts exs (r # rs) pos = None"
    then obtain ex rest where d: "dropWhile (\<lambda>ex. \<not> accepts ex r) exs = ex # rest"
      and rest: "sequence_gap accepts rest rs (Suc pos) = None" by (auto split: list.splits)
    obtain ys where ys: "subseq ys rest" "list_all2 accepts ys rs" using Cons rest by blast
    have "accepts ex r" using d by (metis dropWhile_eq_Cons_conv)
    moreover have "exs = takeWhile (\<lambda>ex. \<not> accepts ex r) exs @ ex # rest"
      using d by (metis takeWhile_dropWhile_id)
    then have "subseq (ex # ys) exs" using ys(1) by (metis list_emb_append2 subseq_Cons2)
    ultimately show "\<exists>ys. subseq ys exs \<and> list_all2 accepts ys (r # rs)"
      using ys(2) by (intro exI [of _ "ex # ys"]) simp
  next
    assume "\<exists>ys. subseq ys exs \<and> list_all2 accepts ys (r # rs)"
    then obtain y ys where "subseq (y # ys) exs" "accepts y r" "list_all2 accepts ys rs"
      by (auto simp: list_all2_Cons2)
    with subseq_dropWhile [of y ys exs "\<lambda>ex. accepts ex r"] obtain x rest
      where d: "dropWhile (\<lambda>ex. \<not> accepts ex r) exs = x # rest" and rest: "subseq ys rest" by blast
    from \<open>list_all2 accepts ys rs\<close> rest have "sequence_gap accepts rest rs (Suc pos) = None"
      using Cons by blast
    then show "sequence_gap accepts exs (r # rs) pos = None" by (simp add: d)
  qed
qed

section \<open>The golden comparison\<close>

datatype field_mismatch =
    IdDiffers string "string option" "string option"
  | LabelDiffers string "string option" "string option"
  | ValueDiffers string "string option" "string option"
  | TraitsDiffer string "string list" "string list"

definition compare_element :: "element \<Rightarrow> element \<Rightarrow> field_mismatch list" where
  "compare_element expected actual =
     (let cid = (case el_identifier expected of None \<Rightarrow> ''<unknown>'' | Some i \<Rightarrow> if i = [] then ''<unknown>'' else i)
      in (if el_identifier expected \<noteq> el_identifier actual
          then [IdDiffers cid (el_identifier expected) (el_identifier actual)] else []) @
         (if el_label expected \<noteq> el_label actual
          then [LabelDiffers cid (el_label expected) (el_label actual)] else []) @
         (if el_value expected \<noteq> el_value actual
          then [ValueDiffers cid (el_value expected) (el_value actual)] else []) @
         (if set (el_traits expected) \<noteq> set (el_traits actual)
          then [TraitsDiffer cid (sort (el_traits expected)) (sort (el_traits actual))] else []))"

fun frame_is_sane :: "frame \<Rightarrow> frame \<Rightarrow> bool" where
  "frame_is_sane (x, y, w, h) screen = (if w \<le> 0 \<or> h \<le> 0 then False else contains screen (x, y, w, h))"

record golden_result =
  gr_mismatches :: "field_mismatch list"
  gr_missing :: "string list"
  gr_frame_failures :: "string list"

type_synonym golden = "(string, element) dict"

text \<open>\<open>{el["identifier"]: el for el in actual}\<close>: the last element of an identifier wins.\<close>

definition last_with_id :: "element list \<Rightarrow> string \<Rightarrow> element option" where
  "last_with_id els i = List.find (\<lambda>el. el_identifier el = Some i) (rev els)"

definition compare_entry :: "element list \<Rightarrow> frame \<Rightarrow> string \<times> element \<Rightarrow> golden_result \<Rightarrow> golden_result" where
  "compare_entry els screen entry res =
     (case last_with_id els (fst entry) of
        None \<Rightarrow> res\<lparr>gr_missing := gr_missing res @ [fst entry]\<rparr>
      | Some el \<Rightarrow>
          res\<lparr>gr_mismatches := gr_mismatches res @ compare_element (snd entry) el,
              gr_frame_failures := gr_frame_failures res @
                (if frame_is_sane (el_frame el) screen then [] else [fst entry])\<rparr>)"

definition golden_result0 :: golden_result where
  "golden_result0 = \<lparr>gr_mismatches = [], gr_missing = [], gr_frame_failures = []\<rparr>"

definition compare_golden :: "golden \<Rightarrow> element list \<Rightarrow> frame \<Rightarrow> golden_result" where
  "compare_golden golden els screen = fold (compare_entry els screen) golden golden_result0"

definition golden_ok :: "golden_result \<Rightarrow> bool" where
  "golden_ok r \<longleftrightarrow> gr_mismatches r = [] \<and> gr_missing r = [] \<and> gr_frame_failures r = []"

text \<open>\<open>save_golden\<close>: the entries written for the requested identifiers that are on screen.\<close>

definition save_golden :: "element list \<Rightarrow> string list \<Rightarrow> golden" where
  "save_golden els ids =
     fold (\<lambda>i d. case last_with_id els i of None \<Rightarrow> d | Some el \<Rightarrow> dict_put i (el\<lparr>el_nativeZ := None\<rparr>) d) ids []"

text \<open>The comparison without accumulators: what one entry asks of the screen.\<close>

definition entry_ok :: "element list \<Rightarrow> frame \<Rightarrow> string \<times> element \<Rightarrow> bool" where
  "entry_ok els screen entry =
     (case last_with_id els (fst entry) of
        None \<Rightarrow> False
      | Some el \<Rightarrow> el_identifier (snd entry) = el_identifier el \<and> el_label (snd entry) = el_label el \<and>
          el_value (snd entry) = el_value el \<and> set (el_traits (snd entry)) = set (el_traits el) \<and>
          frame_is_sane (el_frame el) screen)"

lemma compare_element_Nil:
  "compare_element e a = [] \<longleftrightarrow> el_identifier e = el_identifier a \<and> el_label e = el_label a \<and>
     el_value e = el_value a \<and> set (el_traits e) = set (el_traits a)"
  by (auto simp: compare_element_def Let_def)

lemma compare_entry_ok: "golden_ok (compare_entry els screen entry res) \<longleftrightarrow> golden_ok res \<and> entry_ok els screen entry"
  by (auto simp: compare_entry_def entry_ok_def golden_ok_def compare_element_Nil split: option.splits)

lemma compare_golden_ok: "golden_ok (compare_golden golden els screen) \<longleftrightarrow> list_all (entry_ok els screen) golden"
proof -
  have "golden_ok (fold (compare_entry els screen) g res) \<longleftrightarrow> golden_ok res \<and> list_all (entry_ok els screen) g" for g res
    by (induction g arbitrary: res) (auto simp: compare_entry_ok)
  then show ?thesis by (simp add: compare_golden_def golden_result0_def golden_ok_def)
qed

lemma dict_put_mem: "(k, v) \<in> set (dict_put k' v' d) \<Longrightarrow> (k, v) = (k', v') \<or> (k, v) \<in> set d"
  by (induction k' v' d rule: dict_put.induct) (auto split: if_splits)

lemma last_with_id_id: "last_with_id els i = Some el \<Longrightarrow> el_identifier el = Some i \<and> el \<in> set els"
  unfolding last_with_id_def by (drule find_Some_mem) simp

lemma save_golden_mem:
  "(i, e) \<in> set (save_golden els ids) \<Longrightarrow>
     \<exists>el. last_with_id els i = Some el \<and> e = el\<lparr>el_nativeZ := None\<rparr> \<and> i \<in> set ids"
proof -
  have "(i, e) \<in> set (fold (\<lambda>i d. case last_with_id els i of None \<Rightarrow> d
            | Some el \<Rightarrow> dict_put i (el\<lparr>el_nativeZ := None\<rparr>) d) ids d) \<Longrightarrow>
     (i, e) \<in> set d \<or> (\<exists>el. last_with_id els i = Some el \<and> e = el\<lparr>el_nativeZ := None\<rparr> \<and> i \<in> set ids)" for d
    by (induction ids arbitrary: d) (fastforce split: option.splits dest: dict_put_mem)+
  from this [of "[]"] show "(i, e) \<in> set (save_golden els ids) \<Longrightarrow> ?thesis" by (simp add: save_golden_def)
qed

section \<open>The kinds that read the context\<close>

datatype stored_file = Escapes | Missing | Unreadable string

record eval_context =
  ctx_schema :: "(string \<Rightarrow> stored_file + string) option" \<comment> \<open>the schema text under a path\<close>
  ctx_golden :: "((string \<Rightarrow> stored_file + golden) \<times> frame option) option"
  ctx_visual :: "(string \<Rightarrow> element list \<Rightarrow> string option) option" \<comment> \<open>None is a match\<close>
  ctx_clipboard :: "string option"
  ctx_attributes :: "((selector \<times> string) \<times> attribute_read) list"
  ctx_json_ok :: "string \<Rightarrow> bool" \<comment> \<open>whether \<open>json.loads\<close> accepts the text\<close>
  ctx_validate :: "string \<Rightarrow> string \<Rightarrow> string option" \<comment> \<open>\<open>jsonschema.validate\<close>'s error, if any\<close>

definition file_reason :: "stored_file \<Rightarrow> reason" where
  "file_reason f = (case f of Escapes \<Rightarrow> PathEscapes | Missing \<Rightarrow> FileMissing | Unreadable e \<Rightarrow> FileUnreadable e)"

definition eval_clipboard :: "regex_search \<Rightarrow> string option \<Rightarrow> text_test \<Rightarrow> assertion_result" where
  "eval_clipboard rx clipboard t =
     (case clipboard of
        None \<Rightarrow> verdict False ''clipboard'' ClipboardUnread
      | Some c \<Rightarrow>
          verdict (case t of TEquals e \<Rightarrow> c = e | TContains _ \<Rightarrow> False | TMatches p \<Rightarrow> rx p c)
            ''clipboard'' (ClipboardWas c))"

definition eval_golden :: "element list \<Rightarrow> string
    \<Rightarrow> ((string \<Rightarrow> stored_file + golden) \<times> frame option) option \<Rightarrow> assertion_result" where
  "eval_golden els path ctx =
     (case ctx of
        None \<Rightarrow> verdict False ''golden'' NoContext
      | Some (load, screen) \<Rightarrow>
          (case load path of
             Inl f \<Rightarrow> verdict False ''golden'' (file_reason f)
           | Inr g \<Rightarrow>
               (let sc = (case screen of
                            Some s \<Rightarrow> s
                          | None \<Rightarrow> (let (w, h) = screen_size_from_elements els in (0, 0, w, h)))
                in verdict (golden_ok (compare_golden g els sc)) ''golden'' GoldenDiffers)))"

definition eval_response_schema :: "regex_search \<Rightarrow> exchange list \<Rightarrow> request_match \<Rightarrow> string \<Rightarrow> eval_context
    \<Rightarrow> assertion_result" where
  "eval_response_schema rx exs req path ctx =
     (let fail = verdict False ''responseSchema''
      in case ctx_schema ctx of
           None \<Rightarrow> fail NoContext
         | Some load \<Rightarrow>
             (case List.find (\<lambda>ex. match_request rx ex req) exs of
                None \<Rightarrow> fail (NoExchange (length exs))
              | Some ex \<Rightarrow>
                  (case load path of
                     Inl f \<Rightarrow> fail (file_reason f)
                   | Inr schema \<Rightarrow>
                       (case ex_response_body ex of
                          None \<Rightarrow> fail NoResponseBody
                        | Some body \<Rightarrow>
                            (if \<not> ctx_json_ok ctx body then fail ResponseNotJson
                             else case ctx_validate ctx body schema of
                                    Some e \<Rightarrow> fail (SchemaFailed e)
                                  | None \<Rightarrow> verdict True ''responseSchema'' NoReason)))))"

definition eval_visual :: "(string \<Rightarrow> element list \<Rightarrow> string option) option \<Rightarrow> string \<Rightarrow> element list
    \<Rightarrow> assertion_result" where
  "eval_visual ctx baseline els =
     (case ctx of
        None \<Rightarrow> verdict False ''visual'' NoContext
      | Some compare \<Rightarrow>
          (case compare baseline els of
             None \<Rightarrow> verdict True ''visual'' NoReason
           | Some e \<Rightarrow> verdict False ''visual'' (VisualFailed e)))"

section \<open>One assertion and a whole block\<close>

datatype assertion =
    AExists selector bool
  | AValue selector text_test
  | ALabel selector text_test
  | ACount selector count_test
  | AEnabled selector
  | ADisabled selector
  | ASelected selector
  | ARequest request_match
  | AEvent event_match
  | ARequestSequence "request_match list"
  | AResponseSchema request_match string
  | AVisual string
  | AClipboard text_test
  | AAttribute selector string "text_test option" \<comment> \<open>\<open>None\<close> is \<open>absent: true\<close>\<close>
  | AGolden string

fun evaluate_one :: "regex_search \<Rightarrow> eval_context \<Rightarrow> element list \<Rightarrow> exchange list \<Rightarrow> assertion \<Rightarrow> assertion_result" where
  "evaluate_one rx ctx els exs (AExists sel negate) = eval_exists rx els sel negate"
| "evaluate_one rx ctx els exs (AValue sel t) = eval_text rx els ''value'' sel t"
| "evaluate_one rx ctx els exs (ALabel sel t) = eval_text rx els ''label'' sel t"
| "evaluate_one rx ctx els exs (ACount sel t) = eval_count rx els sel t"
| "evaluate_one rx ctx els exs (AEnabled sel) = eval_state rx els ''enabled'' sel"
| "evaluate_one rx ctx els exs (ADisabled sel) = eval_state rx els ''disabled'' sel"
| "evaluate_one rx ctx els exs (ASelected sel) = eval_state rx els ''selected'' sel"
| "evaluate_one rx ctx els exs (ARequest r) = eval_request rx exs r"
| "evaluate_one rx ctx els exs (AEvent m) = eval_event rx exs m"
| "evaluate_one rx ctx els exs (ARequestSequence rs) = eval_request_sequence rx exs rs"
| "evaluate_one rx ctx els exs (AResponseSchema r path) = eval_response_schema rx exs r path ctx"
| "evaluate_one rx ctx els exs (AVisual baseline) = eval_visual (ctx_visual ctx) baseline els"
| "evaluate_one rx ctx els exs (AClipboard t) = eval_clipboard rx (ctx_clipboard ctx) t"
| "evaluate_one rx ctx els exs (AAttribute sel name t) =
     eval_attribute rx (map_of (ctx_attributes ctx) (sel, name)) t"
| "evaluate_one rx ctx els exs (AGolden path) = eval_golden els path (ctx_golden ctx)"

fun bare_request :: "assertion \<Rightarrow> request_match option" where
  "bare_request (ARequest r) = (if rq_count r = None then Some r else None)"
| "bare_request _ = None"

definition bare_requests :: "assertion list \<Rightarrow> (nat \<times> request_match) list" where
  "bare_requests as = [(i, the (bare_request (as ! i))). i \<leftarrow> [0..<length as], bare_request (as ! i) \<noteq> None]"

definition assigned_results :: "regex_search \<Rightarrow> exchange list \<Rightarrow> (nat \<times> request_match) list
    \<Rightarrow> (nat \<times> assertion_result) list" where
  "assigned_results rx exs bare =
     (if length bare \<ge> 2
      then (let (order, had) = assign_requests (match_request rx) exs (map snd bare)
            in map (\<lambda>k. (fst (bare ! k), request_assignment_result rx (snd (bare ! k)) (order ! k) exs (had ! k)))
                 [0..<length bare])
      else [])"

definition evaluate :: "regex_search \<Rightarrow> eval_context \<Rightarrow> element list \<Rightarrow> exchange list \<Rightarrow> assertion list
    \<Rightarrow> assertion_result list" where
  "evaluate rx ctx els exs as =
     (let assigned = assigned_results rx exs (bare_requests as)
      in map (\<lambda>i. case map_of assigned i of Some r \<Rightarrow> r | None \<Rightarrow> evaluate_one rx ctx els exs (as ! i))
           [0..<length as])"

section \<open>The block's verdict\<close>

lemma bare_requests_mem:
  "(i, r) \<in> set (bare_requests as) \<longleftrightarrow> i < length as \<and> bare_request (as ! i) = Some r"
  by (auto simp: bare_requests_def)

lemma bare_requests_distinct: "distinct (map fst (bare_requests as))"
proof -
  have "map fst (bare_requests as) = [i \<leftarrow> [0..<length as]. bare_request (as ! i) \<noteq> None]"
  proof -
    have "map fst (concat (map (\<lambda>i. if P i then [(i, f i)] else []) xs)) = filter P xs" for P f and xs :: "nat list"
      by (induction xs) auto
    from this [of "\<lambda>i. bare_request (as ! i) \<noteq> None" "\<lambda>i. the (bare_request (as ! i))" "[0..<length as]"]
    show ?thesis unfolding bare_requests_def .
  qed
  then show ?thesis by simp
qed

lemma bare_request_eval:
  "bare_request a = Some r \<Longrightarrow> ar_ok (evaluate_one rx ctx els exs a) \<longleftrightarrow> (\<exists>ex\<in>set exs. match_request rx ex r)"
  by (cases a) (auto simp: eval_request_def count_matching_def filter_empty_conv Suc_le_eq split: if_splits)

lemma evaluate_nth:
  "i < length as \<Longrightarrow> evaluate rx ctx els exs as ! i =
     (case map_of (assigned_results rx exs (bare_requests as)) i of
        Some r \<Rightarrow> r | None \<Rightarrow> evaluate_one rx ctx els exs (as ! i))"
  by (simp add: evaluate_def Let_def cong: option.case_cong)

lemma assigned_results_few: "length bare < 2 \<Longrightarrow> assigned_results rx exs bare = []"
  by (simp add: assigned_results_def)

lemma assigned_results_many:
  assumes "length bare \<ge> 2" "distinct (map fst bare)"
    and "assign_requests (match_request rx) exs (map snd bare) = (order, had)" "k < length bare"
  shows "map_of (assigned_results rx exs bare) (fst (bare ! k)) =
     Some (request_assignment_result rx (snd (bare ! k)) (order ! k) exs (had ! k))"
proof -
  let ?f = "\<lambda>k. (fst (bare ! k), request_assignment_result rx (snd (bare ! k)) (order ! k) exs (had ! k))"
  have r: "assigned_results rx exs bare = map ?f [0..<length bare]"
    using assms by (simp add: assigned_results_def)
  have "map fst (map ?f [0..<length bare]) = map fst bare" by (auto intro: nth_equalityI)
  then have "distinct (map fst (map ?f [0..<length bare]))" using assms(2) by simp
  then show ?thesis
    unfolding r by (rule map_of_is_SomeI) (use assms(4) in auto)
qed

lemma assigned_results_keys: "map_of (assigned_results rx exs bare) i \<noteq> None \<Longrightarrow> i \<in> fst ` set bare"
  by (auto simp: assigned_results_def map_of_eq_None_iff split: if_splits prod.splits)

definition served_apart :: "regex_search \<Rightarrow> exchange list \<Rightarrow> request_match list \<Rightarrow> bool" where
  "served_apart rx exs reqs \<longleftrightarrow>
     (\<exists>g. one_to_one (match_request rx) exs reqs g \<and> dom g = {..<length reqs})"

lemma served_apart_one: "served_apart rx exs [r] \<longleftrightarrow> (\<exists>ex\<in>set exs. match_request rx ex r)"
proof
  assume "served_apart rx exs [r]"
  then obtain g where g: "one_to_one (match_request rx) exs [r] g" "dom g = {0}"
    by (auto simp: served_apart_def)
  then obtain j where "g 0 = Some j" by auto
  with g(1) have "j < length exs \<and> match_request rx (exs ! j) r"
    unfolding one_to_one_def by fastforce
  then show "\<exists>ex\<in>set exs. match_request rx ex r" by auto
next
  assume "\<exists>ex\<in>set exs. match_request rx ex r"
  then obtain j where "j < length exs" "match_request rx (exs ! j) r" by (metis in_set_conv_nth)
  then show "served_apart rx exs [r]"
    unfolding served_apart_def by (intro exI [of _ "[0 \<mapsto> j]"]) (auto simp: one_to_one_def)
qed

lemma assignment_complete_iff:
  assumes "assign_requests (match_request rx) exs reqs = (order, had)"
  shows "(\<forall>k<length reqs. order ! k \<noteq> None) \<longleftrightarrow> served_apart rx exs reqs"
proof -
  define st where "st = run_kuhn (length exs) (adjacency (match_request rx) exs reqs) (length reqs)"
  note inv = assign_requests_inv [OF assms, folded st_def]
  have d: "dom (k_assigned st) \<subseteq> {..<length reqs}" using inv(1) by (simp add: kuhn_inv_def)
  have all: "(\<forall>k<length reqs. order ! k \<noteq> None) \<longleftrightarrow> dom (k_assigned st) = {..<length reqs}"
    using d by (auto simp: inv(2))
  show ?thesis
  proof
    assume "\<forall>k<length reqs. order ! k \<noteq> None"
    with all kuhn_is_matching [OF inv(1)] show "served_apart rx exs reqs"
      unfolding served_apart_def one_to_one_matching by blast
  next
    assume "served_apart rx exs reqs"
    then obtain g where g: "one_to_one (match_request rx) exs reqs g" "dom g = {..<length reqs}"
      by (auto simp: served_apart_def)
    then have "length reqs \<le> card (dom (k_assigned st))"
      using kuhn_maximum [OF inv(1), of g] by (simp add: one_to_one_matching)
    with d have "dom (k_assigned st) = {..<length reqs}"
      by (metis card_lessThan card_seteq finite_lessThan)
    with all show "\<forall>k<length reqs. order ! k \<noteq> None" by blast
  qed
qed

lemma block_requests:
  "(\<forall>i<length as. bare_request (as ! i) \<noteq> None \<longrightarrow> ar_ok (evaluate rx ctx els exs as ! i)) \<longleftrightarrow>
     served_apart rx exs (map snd (bare_requests as))"
proof -
  let ?bare = "bare_requests as"
  have idx: "i < length as \<and> bare_request (as ! i) = Some r \<longleftrightarrow> (\<exists>k<length ?bare. ?bare ! k = (i, r))" for i r
    using bare_requests_mem [of i r as] by (metis in_set_conv_nth)
  have "(\<forall>i<length as. bare_request (as ! i) \<noteq> None \<longrightarrow> ar_ok (evaluate rx ctx els exs as ! i)) \<longleftrightarrow>
      (\<forall>k<length ?bare. ar_ok (evaluate rx ctx els exs as ! fst (?bare ! k)))"
    using idx by (metis fst_conv not_None_eq surj_pair)
  also have "\<dots> \<longleftrightarrow> served_apart rx exs (map snd ?bare)"
  proof (cases "length ?bare \<ge> 2")
    case True
    obtain order had where a: "assign_requests (match_request rx) exs (map snd ?bare) = (order, had)" by fastforce
    have "ar_ok (evaluate rx ctx els exs as ! fst (?bare ! k)) \<longleftrightarrow> order ! k \<noteq> None" if k: "k < length ?bare" for k
    proof -
      have "fst (?bare ! k) < length as" using idx k by (metis prod.collapse)
      then show ?thesis
        using assigned_results_many [OF True bare_requests_distinct a k]
        by (simp add: evaluate_nth request_assignment_result_def)
    qed
    with assignment_complete_iff [OF a] show ?thesis by simp
  next
    case False
    then consider "?bare = []" | i r where "?bare = [(i, r)]"
      by (cases ?bare rule: remdups_adj.cases) auto
    then show ?thesis
    proof cases
      case 1
      then show ?thesis by (auto simp: served_apart_def one_to_one_def intro: exI [of _ Map.empty])
    next
      case 2
      then have i: "i < length as" "bare_request (as ! i) = Some r" using idx [of i r] by auto
      have "assigned_results rx exs ?bare = []" using False by (intro assigned_results_few) simp
      then show ?thesis
        using 2 i bare_request_eval [OF i(2)] by (simp add: evaluate_nth served_apart_one)
    qed
  qed
  finally show ?thesis .
qed

lemma evaluate_other:
  "i < length as \<Longrightarrow> bare_request (as ! i) = None \<Longrightarrow>
     evaluate rx ctx els exs as ! i = evaluate_one rx ctx els exs (as ! i)"
proof -
  assume i: "i < length as" "bare_request (as ! i) = None"
  have "map_of (assigned_results rx exs (bare_requests as)) i = None"
  proof (rule ccontr)
    assume "map_of (assigned_results rx exs (bare_requests as)) i \<noteq> None"
    then have "i \<in> fst ` set (bare_requests as)" by (rule assigned_results_keys)
    with i show False by (auto simp: bare_requests_mem)
  qed
  with i show ?thesis by (simp add: evaluate_nth)
qed

section \<open>Properties\<close>

text \<open>C12: A block of assertions passes exactly when every assertion other than a plain request passes
  alone and the plain requests can be given distinct exchanges that match them: two request lines
  never share one exchange, and no passing choice is missed.\<close>
theorem block_passes_iff:
  "passed (evaluate rx ctx els exs as) \<longleftrightarrow>
     (\<forall>i<length as. bare_request (as ! i) = None \<longrightarrow> ar_ok (evaluate_one rx ctx els exs (as ! i))) \<and>
     (\<exists>g. one_to_one (match_request rx) exs (map snd (bare_requests as)) g \<and>
        dom g = {..<length (bare_requests as)})"
proof -
  have "passed (evaluate rx ctx els exs as) \<longleftrightarrow> (\<forall>i<length as. ar_ok (evaluate rx ctx els exs as ! i))"
    by (simp add: passed_def list_all_length evaluate_def)
  also have "\<dots> \<longleftrightarrow> (\<forall>i<length as. bare_request (as ! i) = None \<longrightarrow> ar_ok (evaluate_one rx ctx els exs (as ! i))) \<and>
     (\<forall>i<length as. bare_request (as ! i) \<noteq> None \<longrightarrow> ar_ok (evaluate rx ctx els exs as ! i))"
    using evaluate_other by metis
  finally show ?thesis unfolding block_requests served_apart_def by simp
qed

definition get_path :: "string \<Rightarrow> request_match" where
  "get_path p = \<lparr>rq_method = Some ''get'', rq_url = None, rq_url_matches = None, rq_path = Some p,
     rq_path_matches = None, rq_query = None, rq_body = None, rq_status = None, rq_body_matches = None,
     rq_count = None\<rparr>"

definition sample_exchange :: exchange where
  "sample_exchange = \<lparr>ex_method = ''GET'', ex_url = ''http://h/a'', ex_path = ''/a'', ex_status = Some 200,
     ex_request_body = None, ex_response_body = None, ex_query_params = [], ex_request_json = None\<rparr>"

theorem block_passes_iff_witness:
  "\<forall>ctx els. \<not> passed (evaluate (\<lambda>_ _. False) ctx els [sample_exchange]
     [ARequest (get_path ''/a''), ARequest (get_path ''/a'')])"
proof (intro allI notI)
  fix ctx els
  let ?as = "[ARequest (get_path ''/a''), ARequest (get_path ''/a'')]"
  assume "passed (evaluate (\<lambda>_ _. False) ctx els [sample_exchange] ?as)"
  then obtain g where g: "one_to_one (match_request (\<lambda>_ _. False)) [sample_exchange] (map snd (bare_requests ?as)) g"
    "dom g = {..<length (bare_requests ?as)}" by (auto simp: block_passes_iff)
  have two: "length (bare_requests ?as) = 2"
    by (simp add: bare_requests_def get_path_def upt_rec)
  then obtain a b where ab: "g 0 = Some a" "g 1 = Some b"
    using g(2) by (metis domD lessThan_iff one_less_numeral_iff pos2 semiring_norm(76))
  then have "a = 0" "b = 0" using g(1) unfolding one_to_one_def by fastforce+
  with ab g(1) have "(0::nat) = 1" unfolding one_to_one_def inj_on_def by (metis domI)
  then show False by simp
qed

text \<open>C17: A request matcher's dictionaries report no mismatch exactly when every key holds: every query
  key on some occurrence, every body key and list element on the parsed body, recursively, with an
  absent key satisfying only an absence check.\<close>
theorem request_matches_iff_criteria_hold:
  "match_request rx ex req \<longleftrightarrow>
     if_set (rq_method req) (\<lambda>m. upper (ex_method ex) = upper m) \<and> if_set (rq_url req) (\<lambda>u. ex_url ex = u) \<and>
     if_set (rq_url_matches req) (\<lambda>p. rx p (ex_url ex)) \<and> if_set (rq_path req) (\<lambda>p. ex_path ex = p) \<and>
     if_set (rq_path_matches req) (\<lambda>p. rx p (ex_path ex)) \<and> if_set (rq_status req) (\<lambda>s. ex_status ex = Some s) \<and>
     if_set (rq_body_matches req) (\<lambda>p. \<exists>b. ex_request_body ex = Some b \<and> rx p b) \<and>
     if_set (rq_query req) (\<lambda>q. query_holds rx q (ex_query_params ex)) \<and>
     if_set (rq_body req) (\<lambda>b. \<exists>ob. ex_request_json ex = Some ob \<and> holds_fields rx b ob)"
proof -
  have body: "(case ex_request_body ex of None \<Rightarrow> False | Some b \<Rightarrow> rx p b) \<longleftrightarrow>
      (\<exists>b. ex_request_body ex = Some b \<and> rx p b)" for p by (cases "ex_request_body ex") auto
  have "(rq_query req = None \<and> rq_body req = None \<or> dict_mismatch rx ex (rq_query req) (rq_body req) = None) \<longleftrightarrow>
      if_set (rq_query req) (\<lambda>q. query_holds rx q (ex_query_params ex)) \<and>
      if_set (rq_body req) (\<lambda>b. \<exists>ob. ex_request_json ex = Some ob \<and> holds_fields rx b ob)"
    unfolding dict_mismatch_None by (auto simp: dict_holds_def if_set_def)
  then show ?thesis by (simp only: match_request_def body)
qed

text \<open>The forward scan of a request sequence is exact: it succeeds exactly when the matchers can
  be given exchanges at strictly increasing positions.\<close>
theorem request_sequence_greedy_is_exact:
  "ar_ok (eval_request_sequence rx exs reqs) \<longleftrightarrow>
     (\<exists>picked. subseq picked exs \<and> list_all2 (match_request rx) picked reqs)"
  using sequence_gap_None [of "match_request rx" exs reqs 0]
  by (auto simp: eval_request_sequence_def split: option.splits)

text \<open>A golden comparison passes exactly when the last element of every pinned identifier has the
  pinned identity, label, value and trait set and a frame with an area inside the screen; so a golden
  just saved from a screen passes against that screen whenever its frames are sane.\<close>
theorem golden_comparison_exact:
  "(golden_ok (compare_golden golden els screen) \<longleftrightarrow> list_all (entry_ok els screen) golden) \<and>
   ((\<forall>el\<in>set els. frame_is_sane (el_frame el) screen) \<longrightarrow>
      golden_ok (compare_golden (save_golden els ids) els screen))"
proof -
  have "golden_ok (compare_golden (save_golden els ids) els screen)"
    if sane: "\<forall>el\<in>set els. frame_is_sane (el_frame el) screen"
    unfolding compare_golden_ok list_all_iff
  proof
    fix entry assume "entry \<in> set (save_golden els ids)"
    moreover obtain i e where "entry = (i, e)" by (cases entry)
    ultimately have ie: "entry = (i, e)" "(i, e) \<in> set (save_golden els ids)" by simp_all
    from save_golden_mem [OF ie(2)] obtain el where "last_with_id els i = Some el" "e = el\<lparr>el_nativeZ := None\<rparr>"
      by blast
    with last_with_id_id [of els i el] sane show "entry_ok els screen entry" by (simp add: entry_ok_def ie(1))
  qed
  then show ?thesis using compare_golden_ok by blast
qed

theorem golden_comparison_exact_witness:
  "golden_ok (compare_golden (save_golden [sample_element 1 ''a'' (0, 0, 9, 9)] [''a'']) [sample_element 1 ''a'' (0, 0, 9, 9)] (0, 0, 10, 10))"
  using golden_comparison_exact [of "[]" "[sample_element 1 ''a'' (0, 0, 9, 9)]" "(0, 0, 10, 10)" "[''a'']"]
  by (simp add: sample_element_def)

end
