(* ===== verification/Crawl_Screens.thy ===== *)
theory Crawl_Screens
  imports Resolution "HOL-Library.Multiset"
begin

text \<open>
  What the crawler reads off a screen (\<open>src/bajutsu/crawl/core/_functions.py\<close> and \<open>action.py\<close>):
  replayable actions and their identity, the screen fingerprint, the deterministic guide and the
  controls reported as blocked.  \<open>digest\<close> stands for the SHA-1 digest of the joined parts.
\<close>

section \<open>Text of numbers and strings\<close>

definition show_int :: "int \<Rightarrow> string" where
  "show_int n = (if n < 0 then CHR ''-'' # show_nat (nat (- n)) else show_nat (nat n))"

text \<open>\<open>f"{x:.4f}"\<close>: the nearest multiple of the last place, ties to even.\<close>

definition round_half_even :: "real \<Rightarrow> int" where
  "round_half_even r =
     (let n = \<lfloor>r\<rfloor>; d = r - of_int n
      in if d < 1 / 2 then n else if d > 1 / 2 then n + 1 else if even n then n else n + 1)"

definition format_fixed :: "nat \<Rightarrow> real \<Rightarrow> string" where
  "format_fixed places x =
     (let n = nat \<bar>round_half_even (x * 10 ^ places)\<bar>;
          digits = replicate (places - length (show_nat (n mod 10 ^ places))) CHR ''0'' @ show_nat (n mod 10 ^ places)
      in (if x < 0 then ''-'' else []) @ show_nat (n div 10 ^ places) @ ''.'' @ digits)"

text \<open>\<open>repr\<close> of a string.\<close>

definition repr_char :: "char \<Rightarrow> char \<Rightarrow> string" where
  "repr_char quote c =
     (let n = (of_char c :: nat); bs = char_of (92 :: nat);
          hex = (\<lambda>k. char_of (if k < 10 then 48 + k else 87 + k))
      in if c = quote \<or> n = 92 then [bs, c]
         else if n = 10 then bs # ''n'' else if n = 13 then bs # ''r'' else if n = 9 then bs # ''t''
         else if n < 32 \<or> (127 \<le> n \<and> n \<le> 160) \<or> n = 173 then bs # ''x'' @ [hex (n div 16), hex (n mod 16)]
         else [c])"

definition repr_str :: "string \<Rightarrow> string" where
  "repr_str s =
     (let single = char_of (39 :: nat); double = char_of (34 :: nat);
          quote = (if single \<in> set s \<and> double \<notin> set s then double else single)
      in quote # concat (map (repr_char quote) s) @ [quote])"

section \<open>Actions\<close>

record action =
  ac_kind :: string
  ac_target :: string
  ac_label :: "string option"
  ac_index :: "int option"
  ac_value :: "string option"
  ac_fields :: "(string \<times> string) list"
  ac_point :: "point option"
  ac_secure :: bool

definition action0 :: "string \<Rightarrow> action" where
  "action0 kind = \<lparr>ac_kind = kind, ac_target = [], ac_label = None, ac_index = None, ac_value = None,
     ac_fields = [], ac_point = None, ac_secure = False\<rparr>"

definition action_key :: "action \<Rightarrow> string" where
  "action_key a =
     (if ac_kind a = ''fill'' then ''fill:'' @ join '','' (map fst (ac_fields a))
      else case (if ac_kind a = ''tap_point'' then ac_point a else None) of
             Some (x, y) \<Rightarrow> ''@@'' @ format_fixed 4 x @ '','' @ format_fixed 4 y
           | None \<Rightarrow>
               (if ac_target a \<noteq> [] then ac_target a
                else ''@'' @ (case ac_label a of None \<Rightarrow> ''None'' | Some l \<Rightarrow> l) @ ''#'' @
                  show_int (case ac_index a of None \<Rightarrow> 0 | Some i \<Rightarrow> i)))"

definition as_selector :: "action \<Rightarrow> selector" where
  "as_selector a =
     (if ac_target a \<noteq> [] then by_id (ac_target a)
      else Sel None None (ac_label a) None None None None (ac_index a))"

definition describe :: "action \<Rightarrow> string" where
  "describe a =
     (if ac_kind a = ''fill'' then ''fill '' @ show_nat (length (ac_fields a)) @ '' fields''
      else case (if ac_kind a = ''tap_point'' then ac_point a else None) of
             Some (x, y) \<Rightarrow>
               (if truthy_str (ac_label a) then ''tap tab '' @ repr_str (the (ac_label a))
                else ''tap point ('' @ format_fixed 2 x @ '', '' @ format_fixed 2 y @ '')'')
           | None \<Rightarrow>
               ac_kind a @ '' '' @
                 (if ac_target a \<noteq> [] then ac_target a
                  else if truthy_str (ac_label a) then the (ac_label a) else ''?''))"

text \<open>
  \<open>plan_key\<close>: a persisted entry \<open>type <target>='<value>'\<close> of the old spelling, cut before the first
  \<open>=\<close> and quote whose quote also ends the entry (up to one final newline).
\<close>

definition closes_with :: "char \<Rightarrow> string \<Rightarrow> bool" where
  "closes_with q s \<longleftrightarrow> s \<noteq> [] \<and>
     (List.last s = q \<or> (List.last s = char_of (10 :: nat) \<and> butlast s \<noteq> [] \<and> List.last (butlast s) = q))"

fun legacy_cut :: "string \<Rightarrow> string option" where
  "legacy_cut (c # q # s) =
     (if c = CHR ''='' \<and> (of_char q :: nat) \<in> {34, 39} \<and> closes_with q s then Some []
      else map_option (\<lambda>t. c # t) (legacy_cut (q # s)))"
| "legacy_cut _ = None"

definition plan_key :: "string \<Rightarrow> string" where
  "plan_key entry =
     (if take 5 entry = ''type '' \<and> drop 5 entry \<noteq> []
      then case legacy_cut (drop 6 entry) of
             None \<Rightarrow> entry
           | Some t \<Rightarrow> take 6 entry @ t
      else entry)"

section \<open>Screen identity\<close>

definition tap_traits :: "string set" where "tap_traits = {''button'', ''link'', ''switch'', ''tab''}"
definition secure_text_field :: string where "secure_text_field = ''secureTextField''"
definition input_traits :: "string set" where
  "input_traits = {''textField'', ''searchField'', secure_text_field}"
definition actionable_traits :: "string set" where "actionable_traits = tap_traits \<union> input_traits"
definition state_traits :: "string set" where "state_traits = {trait_not_enabled, trait_selected}"

definition has_trait :: "string set \<Rightarrow> element \<Rightarrow> bool" where
  "has_trait T el \<longleftrightarrow> (\<exists>t\<in>set (el_traits el). t \<in> T)"

definition is_enabled :: "element \<Rightarrow> bool" where
  "is_enabled el \<longleftrightarrow> trait_not_enabled \<notin> set (el_traits el)"

text \<open>\<open>_id_of(el)\<close> where the code tests it for truth: a non-empty identifier.\<close>

definition ids_of :: "element \<Rightarrow> string list" where
  "ids_of el = (case el_identifier el of None \<Rightarrow> [] | Some i \<Rightarrow> if i = [] then [] else [i])"

definition screen_ids :: "element list \<Rightarrow> string list" where
  "screen_ids els = concat (map ids_of els)"

definition fingerprint_token :: "element \<Rightarrow> string" where
  "fingerprint_token el =
     (case el_identifier el of None \<Rightarrow> [] | Some i \<Rightarrow> i) @
     (if is_enabled el then [] else ''!'') @
     (if has_trait input_traits el \<and> truthy_str (el_value el) then ''='' else []) @
     (if trait_selected \<in> set (el_traits el) then ''+'' else [])"

definition frame_bucket :: "frame \<Rightarrow> string" where
  "frame_bucket f =
     (let (x, y, w, h) = f
      in ''('' @ join '', '' (map (\<lambda>v. show_int \<lfloor>v / 32\<rfloor>) [x, y, w, h]) @ '')'')"

definition struct_token :: "bool \<Rightarrow> element \<Rightarrow> string" where
  "struct_token stateless el =
     join '','' (if stateless then [t \<leftarrow> el_traits el. t \<notin> state_traits] else el_traits el) @ ''@'' @
     frame_bucket (el_frame el)"

definition min_ids :: nat where "min_ids = 2"

definition reduce_screen :: "(string list \<Rightarrow> string) \<Rightarrow> (element \<Rightarrow> string) \<Rightarrow> bool \<Rightarrow> element list
    \<Rightarrow> string \<times> string" where
  "reduce_screen digest token stateless els =
     (if card (set (screen_ids els)) \<ge> min_ids
      then (digest (sorted_list_of_set (token ` {el \<in> set els. ids_of el \<noteq> []})), ''id'')
      else (digest (sort (map (struct_token stateless) [el \<leftarrow> els. has_trait actionable_traits el])),
            ''structural''))"

definition fingerprint :: "(string list \<Rightarrow> string) \<Rightarrow> element list \<Rightarrow> string \<times> string" where
  "fingerprint digest els = reduce_screen digest fingerprint_token False els"

definition bare_id :: "element \<Rightarrow> string" where
  "bare_id el = (case el_identifier el of None \<Rightarrow> [] | Some i \<Rightarrow> i)"

definition screen_identity :: "(string list \<Rightarrow> string) \<Rightarrow> element list \<Rightarrow> string" where
  "screen_identity digest els =
     (let (v, kind) = reduce_screen digest bare_id True els in kind @ '':'' @ v)"

section \<open>The deterministic guide\<close>

definition value_for_field :: "string \<Rightarrow> bool \<Rightarrow> string" where
  "value_for_field hint secure =
     (if substring ''mail'' (map lower_char hint) then ''test@example.com''
      else if secure then ''Test1234!'' else ''test'')"

definition is_secure :: "element \<Rightarrow> bool" where
  "is_secure el \<longleftrightarrow> secure_text_field \<in> set (el_traits el)"

definition input_value :: "element \<Rightarrow> string" where
  "input_value el =
     value_for_field (bare_id el @ '' '' @ (case el_label el of None \<Rightarrow> [] | Some l \<Rightarrow> l)) (is_secure el)"

definition taps_on :: "element \<Rightarrow> bool" where
  "taps_on el \<longleftrightarrow> ids_of el \<noteq> [] \<and> is_enabled el \<and> has_trait tap_traits el"

definition tap_priority :: "element list \<Rightarrow> string \<Rightarrow> nat" where
  "tap_priority els i =
     (if \<exists>el\<in>set els. taps_on el \<and> ids_of el = [i] \<and> ''tab'' \<in> set (el_traits el) then 0 else 1)"

definition tap_targets :: "element list \<Rightarrow> string list" where
  "tap_targets els =
     sort_key (tap_priority els) (sort (remdups (concat (map ids_of [el \<leftarrow> els. taps_on el]))))"

definition fillable :: "element \<Rightarrow> bool" where
  "fillable el \<longleftrightarrow> ids_of el \<noteq> [] \<and> is_enabled el \<and> has_trait input_traits el \<and> \<not> truthy_str (el_value el)"

definition inputs_of :: "element list \<Rightarrow> (string \<times> string \<times> bool) list" where
  "inputs_of els = sort (map (\<lambda>el. (bare_id el, input_value el, is_secure el)) [el \<leftarrow> els. fillable el])"

definition candidate_actions :: "element list \<Rightarrow> action list" where
  "candidate_actions els =
     (let inputs = inputs_of els
      in map (\<lambda>t. (action0 ''tap'')\<lparr>ac_target := t\<rparr>) (tap_targets els) @
         map (\<lambda>(i, v, sec). (action0 ''type'')\<lparr>ac_target := i, ac_value := Some v, ac_secure := sec\<rparr>) inputs @
         (if length inputs \<ge> 2
          then [(action0 ''fill'')\<lparr>ac_fields := map (\<lambda>(i, v, sec). (i, v)) inputs,
                  ac_secure := list_ex (\<lambda>(i, v, sec). sec) inputs\<rparr>]
          else []))"

definition blocked_controls :: "element list \<Rightarrow> string list" where
  "blocked_controls els =
     sort (remdups (concat (map ids_of
       [el \<leftarrow> els. \<not> is_enabled el \<and> has_trait actionable_traits el])))"

definition is_app_alive :: "element list \<Rightarrow> bool" where
  "is_app_alive els = shows_app_ui els"

section \<open>Nodes and the rectangles of their actions\<close>

fun bbox :: "frame list \<Rightarrow> frame option" where
  "bbox [] = None"
| "bbox (f # fs) =
     (let x = fold min (map (\<lambda>(x, y, w, h). x) fs) (fst f);
          y = fold min (map (\<lambda>(x, y, w, h). y) fs) (fst (snd f));
          r = fold max (map (\<lambda>(x, y, w, h). x + w) fs) (fst f + fst (snd (snd f)));
          b = fold max (map (\<lambda>(x, y, w, h). y + h) fs) (fst (snd f) + snd (snd (snd f)))
      in Some (x, y, r - x, b - y))"

text \<open>\<open>matches[idx] if idx < len(matches) else None\<close>: a negative index counts from the end.\<close>

datatype rect_result = Rect frame | NoRect | RectIndexError

definition action_rect :: "element list \<Rightarrow> action \<Rightarrow> rect_result" where
  "action_rect els a =
     (if ac_kind a = ''fill''
      then (case bbox [el_frame el. fid \<leftarrow> map fst (ac_fields a), el \<leftarrow> els, el_identifier el = Some fid] of
              None \<Rightarrow> NoRect | Some f \<Rightarrow> Rect f)
      else if ac_target a \<noteq> []
      then (case List.find (\<lambda>el. el_identifier el = Some (ac_target a)) els of
              None \<Rightarrow> NoRect | Some el \<Rightarrow> Rect (el_frame el))
      else case ac_label a of
             None \<Rightarrow> NoRect
           | Some l \<Rightarrow>
               (let fs = [el_frame el. el \<leftarrow> els, el_label el = Some l];
                    idx = (case ac_index a of None \<Rightarrow> 0 | Some i \<Rightarrow> i)
                in if idx < int (length fs)
                   then (case py_index fs idx of None \<Rightarrow> RectIndexError | Some f \<Rightarrow> Rect f) else NoRect))"

definition tap_point_rect :: "action \<Rightarrow> frame option" where
  "tap_point_rect a =
     (if ac_kind a = ''tap_point''
      then map_option (\<lambda>(px, py). (max 0 (px - 6 / 100), max 0 (py - 35 / 1000), 12 / 100, 7 / 100)) (ac_point a)
      else None)"

fun targets_from :: "element list \<Rightarrow> real \<Rightarrow> real \<Rightarrow> action list \<Rightarrow> (string \<times> frame) list option" where
  "targets_from els w h [] = Some []"
| "targets_from els w h (a # as) =
     (case tap_point_rect a of
        Some r \<Rightarrow> map_option (\<lambda>ts. (describe a, r) # ts) (targets_from els w h as)
      | None \<Rightarrow>
          (case action_rect els a of
             RectIndexError \<Rightarrow> None
           | NoRect \<Rightarrow> targets_from els w h as
           | Rect (x, y, fw, fh) \<Rightarrow>
               map_option (\<lambda>ts. (describe a, (x / w, y / h, fw / w, fh / h)) # ts) (targets_from els w h as)))"

definition action_targets :: "element list \<Rightarrow> action list \<Rightarrow> (string \<times> frame) list option" where
  "action_targets els as =
     (let w = max_default0 (map (\<lambda>el. let (x, y, w, h) = el_frame el in w) els);
          h = max_default0 (map (\<lambda>el. let (x, y, w, h) = el_frame el in h) els)
      in if w \<le> 0 \<or> h \<le> 0 then Some [] else targets_from els w h as)"

record node =
  nd_fingerprint :: string
  nd_kind :: string
  nd_ids :: "string list"
  nd_actions :: "string list"
  nd_blocked :: "string list"
  nd_targets :: "(string \<times> frame) list"

definition node_of :: "string \<times> string \<Rightarrow> element list \<Rightarrow> action list \<Rightarrow> node option" where
  "node_of fp els as =
     map_option (\<lambda>ts. \<lparr>nd_fingerprint = fst fp, nd_kind = snd fp, nd_ids = sort (remdups (screen_ids els)),
        nd_actions = map action_key as, nd_blocked = blocked_controls els, nd_targets = ts\<rparr>)
       (action_targets els as)"

section \<open>Identity depends on content\<close>

lemma screen_ids_set: "set (screen_ids els) = \<Union> (set ` ids_of ` set els)"
  by (auto simp: screen_ids_def)

lemma reduce_screen_mset:
  assumes "mset els = mset els'"
  shows "reduce_screen digest token stateless els = reduce_screen digest token stateless els'"
proof -
  have set: "set els = set els'" using assms by (metis set_mset_mset)
  have "mset (map (struct_token stateless) [el \<leftarrow> els. has_trait actionable_traits el]) =
      mset (map (struct_token stateless) [el \<leftarrow> els'. has_trait actionable_traits el])"
    using assms by (simp add: mset_filter)
  then have "sort (map (struct_token stateless) [el \<leftarrow> els. has_trait actionable_traits el]) =
      sort (map (struct_token stateless) [el \<leftarrow> els'. has_trait actionable_traits el])"
    by (metis mset_sort properties_for_sort sorted_sort)
  then show ?thesis by (simp add: reduce_screen_def screen_ids_set set)
qed

text \<open>Elements that differ in value and interactive state only.\<close>

definition same_but_state :: "element \<Rightarrow> element \<Rightarrow> bool" where
  "same_but_state a b \<longleftrightarrow> el_identifier a = el_identifier b \<and> el_frame a = el_frame b \<and>
     [t \<leftarrow> el_traits a. t \<notin> state_traits] = [t \<leftarrow> el_traits b. t \<notin> state_traits]"

lemma actionable_not_state: "t \<in> actionable_traits \<Longrightarrow> t \<notin> state_traits"
  by (auto simp: actionable_traits_def tap_traits_def input_traits_def secure_text_field_def state_traits_def
      trait_not_enabled_def trait_selected_def)

lemma same_but_state_actionable:
  assumes "same_but_state a b"
  shows "has_trait actionable_traits a = has_trait actionable_traits b"
proof -
  have "t \<in> set (el_traits a) \<longleftrightarrow> t \<in> set (el_traits b)" if "t \<in> actionable_traits" for t
    using arg_cong [of _ _ set, OF assms [unfolded same_but_state_def, THEN conjunct2, THEN conjunct2]]
      actionable_not_state [OF that] by auto
  then show ?thesis by (auto simp: has_trait_def)
qed

lemma ids_of_bare: "ids_of el = (if bare_id el = [] then [] else [bare_id el])"
  by (simp add: ids_of_def bare_id_def split: option.split)

lemma same_but_state_struct: "same_but_state a b \<Longrightarrow> struct_token True a = struct_token True b"
  by (simp add: same_but_state_def struct_token_def)

lemma identity_ignores_state:
  assumes "list_all2 same_but_state els els'"
  shows "reduce_screen digest bare_id True els = reduce_screen digest bare_id True els'"
proof -
  have ids: "map ids_of els = map ids_of els'" "map bare_id els = map bare_id els'"
    using assms by (induction rule: list_all2_induct) (auto simp: same_but_state_def ids_of_def bare_id_def)
  then have "screen_ids els = screen_ids els'" by (simp add: screen_ids_def)
  moreover have "bare_id ` {el \<in> set els. ids_of el \<noteq> []} = bare_id ` {el \<in> set els'. ids_of el \<noteq> []}"
  proof -
    have "bare_id ` {el \<in> set xs. ids_of el \<noteq> []} = set (screen_ids xs)" for xs
      by (induction xs) (auto simp: screen_ids_def ids_of_bare)
    then show ?thesis using \<open>screen_ids els = screen_ids els'\<close> by simp
  qed
  moreover have "map (struct_token True) [el \<leftarrow> els. has_trait actionable_traits el] =
      map (struct_token True) [el \<leftarrow> els'. has_trait actionable_traits el]"
    using assms
  proof (induction rule: list_all2_induct)
    case (Cons x xs y ys)
    from same_but_state_actionable [OF Cons(1)] same_but_state_struct [OF Cons(1)] Cons(3)
    show ?case by simp
  qed simp
  ultimately show ?thesis by (simp only: reduce_screen_def)
qed

section \<open>What the guide offers\<close>

lemma taps_on_ids: "taps_on el \<Longrightarrow> ids_of el = [bare_id el] \<and> bare_id el \<noteq> []"
  by (simp add: taps_on_def ids_of_bare split: if_splits)

lemma tap_targets_set: "set (tap_targets els) = bare_id ` {el \<in> set els. taps_on el}"
proof -
  have "concat (map ids_of [el \<leftarrow> els. taps_on el]) = map bare_id [el \<leftarrow> els. taps_on el]"
    by (induction els) (simp_all add: taps_on_ids)
  then show ?thesis by (simp add: tap_targets_def)
qed

lemma tap_targets_distinct: "distinct (tap_targets els)"
  by (simp add: tap_targets_def)

lemma tap_targets_tabs_first: "sorted (map (tap_priority els) (tap_targets els))"
  by (simp add: tap_targets_def)

lemma tap_priority_tab:
  "tap_priority els i = 0 \<longleftrightarrow> (\<exists>el\<in>set els. taps_on el \<and> bare_id el = i \<and> ''tab'' \<in> set (el_traits el))"
proof -
  have "taps_on el \<Longrightarrow> ids_of el = [i] \<longleftrightarrow> bare_id el = i" for el using taps_on_ids by force
  then show ?thesis by (auto simp: tap_priority_def)
qed

lemma inputs_of_set:
  "set (inputs_of els) = (\<lambda>el. (bare_id el, input_value el, is_secure el)) ` {el \<in> set els. fillable el}"
  by (auto simp: inputs_of_def)

lemma blocked_set:
  "set (blocked_controls els) =
     bare_id ` {el \<in> set els. ids_of el \<noteq> [] \<and> \<not> is_enabled el \<and> has_trait actionable_traits el}"
  unfolding blocked_controls_def by (induction els) (auto simp: ids_of_bare)

section \<open>Properties\<close>

text \<open>The identity of a screen does not depend on the order its elements are listed in, and the
  transition signature ignores everything a batch of steps changes in place: the values of fields and
  the enabled and selected state of controls.\<close>
theorem screen_identity_is_stable:
  "(mset els = mset els' \<longrightarrow> fingerprint digest els = fingerprint digest els') \<and>
   (list_all2 same_but_state els els' \<longrightarrow> screen_identity digest els = screen_identity digest els')"
proof (intro conjI impI)
  assume "mset els = mset els'"
  then show "fingerprint digest els = fingerprint digest els'"
    unfolding fingerprint_def by (rule reduce_screen_mset)
next
  assume "list_all2 same_but_state els els'"
  then show "screen_identity digest els = screen_identity digest els'"
    unfolding screen_identity_def by (simp only: identity_ignores_state)
qed

theorem screen_identity_is_stable_witness:
  "screen_identity concat [sample_element 1 ''a'' (0, 0, 9, 9)] =
   screen_identity concat [(sample_element 1 ''a'' (0, 0, 9, 9))\<lparr>el_traits := [trait_button, trait_not_enabled]\<rparr>]"
proof -
  have "list_all2 same_but_state [sample_element 1 ''a'' (0, 0, 9, 9)]
      [(sample_element 1 ''a'' (0, 0, 9, 9))\<lparr>el_traits := [trait_button, trait_not_enabled]\<rparr>]"
    by (simp add: same_but_state_def sample_element_def state_traits_def trait_button_def trait_not_enabled_def
        trait_selected_def)
  then show ?thesis using screen_identity_is_stable [of "[]" "[]"] screen_identity_is_stable by blast
qed

text \<open>The deterministic guide offers exactly one tap per enabled, identified tappable control, tabs
  before the others, one typing action per enabled, identified, empty text field, and one compound
  fill of all of them when there are two or more, secure as soon as one of its fields is; it offers
  nothing else, and a control reported as blocked is disabled.\<close>
theorem guide_offers_exactly_the_controls:
  "\<exists>taps types fills. candidate_actions els = taps @ types @ fills \<and>
     distinct (map ac_target taps) \<and> (\<forall>a\<in>set taps. ac_kind a = ''tap'') \<and>
     ac_target ` set taps = bare_id ` {el \<in> set els. taps_on el} \<and>
     sorted (map (tap_priority els \<circ> ac_target) taps) \<and>
     (\<forall>a\<in>set types. ac_kind a = ''type'') \<and>
     (\<lambda>a. (ac_target a, ac_value a, ac_secure a)) ` set types =
       (\<lambda>el. (bare_id el, Some (input_value el), is_secure el)) ` {el \<in> set els. fillable el} \<and>
     length types = length [el \<leftarrow> els. fillable el] \<and>
     (if length types < 2 then fills = []
      else \<exists>a. fills = [a] \<and> ac_kind a = ''fill'' \<and>
        ac_fields a = map (\<lambda>t. (ac_target t, the (ac_value t))) types \<and> ac_secure a = list_ex ac_secure types)"
proof -
  let ?taps = "map (\<lambda>t. (action0 ''tap'')\<lparr>ac_target := t\<rparr>) (tap_targets els)"
  let ?types = "map (\<lambda>(i, v, sec). (action0 ''type'')\<lparr>ac_target := i, ac_value := Some v, ac_secure := sec\<rparr>)
      (inputs_of els)"
  let ?fills = "if length (inputs_of els) \<ge> 2
      then [(action0 ''fill'')\<lparr>ac_fields := map (\<lambda>(i, v, sec). (i, v)) (inputs_of els),
              ac_secure := list_ex (\<lambda>(i, v, sec). sec) (inputs_of els)\<rparr>] else []"
  have targets: "map ac_target ?taps = tap_targets els" by (simp add: o_def)
  have "ac_target ` set ?taps = set (tap_targets els)" by (metis targets set_map)
  then have t1: "ac_target ` set ?taps = bare_id ` {el \<in> set els. taps_on el}" by (simp only: tap_targets_set)
  have t2: "sorted (map (tap_priority els \<circ> ac_target) ?taps)"
    using tap_targets_tabs_first [of els] by (simp add: o_def)
  have t3: "(\<lambda>a. (ac_target a, ac_value a, ac_secure a)) ` set ?types =
       (\<lambda>el. (bare_id el, Some (input_value el), is_secure el)) ` {el \<in> set els. fillable el}"
    unfolding set_map image_image inputs_of_set by simp
  have t4: "length ?types = length [el \<leftarrow> els. fillable el]"
    by (simp add: inputs_of_def)
  have t5: "map (\<lambda>(i, v, sec). (i, v)) (inputs_of els) = map (\<lambda>t. (ac_target t, the (ac_value t))) ?types"
    by (auto simp: o_def)
  have t6: "list_ex (\<lambda>(i, v, sec). sec) (inputs_of els) = list_ex ac_secure ?types"
  proof -
    have "list_ex (\<lambda>(i, v, sec). sec) xs = list_ex ac_secure
        (map (\<lambda>(i, v, sec). (action0 ''type'')\<lparr>ac_target := i, ac_value := Some v, ac_secure := sec\<rparr>) xs)" for xs
      by (induction xs) auto
    then show ?thesis .
  qed
  have c: "candidate_actions els = ?taps @ ?types @ ?fills" by (simp add: candidate_actions_def Let_def)
  have d: "distinct (map ac_target ?taps)" by (simp only: targets tap_targets_distinct)
  have k: "\<forall>a\<in>set ?taps. ac_kind a = ''tap''" "\<forall>a\<in>set ?types. ac_kind a = ''type''"
    by (auto simp: action0_def)
  have f: "if length ?types < 2 then ?fills = []
      else \<exists>a. ?fills = [a] \<and> ac_kind a = ''fill'' \<and>
        ac_fields a = map (\<lambda>t. (ac_target t, the (ac_value t))) ?types \<and> ac_secure a = list_ex ac_secure ?types"
    unfolding t5 [symmetric] t6 [symmetric] by (simp add: action0_def)
  show ?thesis
    by (intro exI [of _ ?taps] exI [of _ ?types] exI [of _ ?fills] conjI) (fact c d k t1 t2 t3 t4 f)+
qed

theorem guide_offers_exactly_the_controls_witness:
  "\<exists>taps types fills. candidate_actions [sample_element 1 ''a'' (0, 0, 9, 9)] = taps @ types @ fills \<and>
     ac_target ` set taps = {''a''} \<and> types = []"
proof -
  let ?e = "sample_element 1 ''a'' (0, 0, 9, 9)"
  have on: "taps_on ?e" "bare_id ?e = ''a''" "\<not> fillable ?e"
    by (simp_all add: taps_on_def bare_id_def fillable_def ids_of_def is_enabled_def has_trait_def tap_traits_def
        input_traits_def secure_text_field_def sample_element_def trait_button_def trait_not_enabled_def)
  obtain taps types fills where "candidate_actions [?e] = taps @ types @ fills"
    "ac_target ` set taps = bare_id ` {el \<in> set [?e]. taps_on el}"
    "length types = length [el \<leftarrow> [?e]. fillable el]"
    using guide_offers_exactly_the_controls [of "[?e]"] by (elim exE conjE) (rule that)
  moreover have "bare_id ` {el \<in> set [?e]. taps_on el} = {''a''}" using on by auto
  ultimately show ?thesis using on(3) by (intro exI [of _ taps] exI [of _ types] exI [of _ fills]) simp
qed

end
