(* ===== verification/Crawl_Coordinator.thy ===== *)
theory Crawl_Coordinator
  imports Crawl_Screens
begin

text \<open>
  The crawl's shared state behind one lock (\<open>src/bajutsu/crawl/core/_coordinator.py\<close>), the
  workers that call it (\<open>_worker\<close> and \<open>_bootstrap\<close> of \<open>_functions.py\<close>) and the invariants of any
  interleaving.  Each operation holds the lock for its whole body, so it is one step; a worker is
  idle, busy with a reserved action, discovering a screen, or retired.  What the devices do between
  two calls is the choice of the step taken.
\<close>

section \<open>The screen map and the coordinator\<close>

record edge =
  ed_src :: string
  ed_action :: string
  ed_dst :: string
  ed_alert :: "string list"

record crash =
  cr_path :: "string list"
  cr_actions :: "action list"
  cr_artifacts :: "(string \<times> string) list"

record pruned =
  pr_src :: string
  pr_action :: string
  pr_key :: string
  pr_owner :: string
  pr_path :: "action list"

record screen_map =
  sm_nodes :: "(string, node) dict"
  sm_edges :: "edge list"
  sm_crashes :: "crash list"
  sm_alerts :: "(string list \<times> string list) list"
  sm_plan :: "(string, string list) dict"
  sm_pruned :: "pruned list"
  sm_paths :: "(string, action list) dict"
  sm_stop_reason :: string

record coordinator =
  co_map :: screen_map
  co_max_screens :: nat
  co_max_steps :: nat
  co_prune_global :: bool
  co_path_to :: "(string, action list) dict"
  co_pending :: "(string, action list) dict"
  co_claimed :: "(string, string) dict"
  co_discovering :: "string set"
  co_steps :: nat
  co_active :: int
  co_stopped :: bool
  co_failure :: "string list"

definition screen_map0 :: screen_map where
  "screen_map0 = \<lparr>sm_nodes = [], sm_edges = [], sm_crashes = [], sm_alerts = [], sm_plan = [], sm_pruned = [],
     sm_paths = [], sm_stop_reason = []\<rparr>"

definition coordinator0 :: "screen_map \<Rightarrow> nat \<Rightarrow> nat \<Rightarrow> bool \<Rightarrow> coordinator" where
  "coordinator0 sm max_screens max_steps prune =
     \<lparr>co_map = sm, co_max_screens = max_screens, co_max_steps = max_steps, co_prune_global = prune,
      co_path_to = [], co_pending = [], co_claimed = [], co_discovering = {}, co_steps = 0, co_active = 0,
      co_stopped = False, co_failure = []\<rparr>"

text \<open>\<open>d.get(k, [])\<close>.\<close>

definition get_list :: "(string, 'a list) dict \<Rightarrow> string \<Rightarrow> 'a list" where
  "get_list d k = (case dict_get d k of None \<Rightarrow> [] | Some xs \<Rightarrow> xs)"

definition emit :: "coordinator \<Rightarrow> coordinator" where
  "emit c = c\<lparr>co_map := (co_map c)\<lparr>sm_plan :=
     map (\<lambda>(fp, acts). (fp, map describe acts)) [p \<leftarrow> co_pending c. snd p \<noteq> []]\<rparr>\<rparr>"

definition finish :: "string \<Rightarrow> coordinator \<Rightarrow> coordinator" where
  "finish why c =
     c\<lparr>co_map := (if sm_stop_reason (co_map c) = [] then (co_map c)\<lparr>sm_stop_reason := why\<rparr> else co_map c),
       co_stopped := True\<rparr>"

fun claim_actions :: "string \<Rightarrow> action list \<Rightarrow> coordinator \<Rightarrow> action list \<times> coordinator" where
  "claim_actions fp [] c = ([], c)"
| "claim_actions fp (a # as) c =
     (case dict_get (co_claimed c) (action_key a) of
        Some own \<Rightarrow>
          (if own \<noteq> fp
           then claim_actions fp as
                  (c\<lparr>co_map := (co_map c)\<lparr>sm_pruned := sm_pruned (co_map c) @
                       [\<lparr>pr_src = fp, pr_action = describe a, pr_key = action_key a, pr_owner = own,
                         pr_path = get_list (co_path_to c) fp @ [a]\<rparr>]\<rparr>\<rparr>)
           else (let (kept, c') = claim_actions fp as c in (a # kept, c')))
      | None \<Rightarrow>
          (let (kept, c') = claim_actions fp as (c\<lparr>co_claimed := dict_put (action_key a) fp (co_claimed c)\<rparr>)
           in (a # kept, c')))"

definition claim_screen :: "string \<Rightarrow> action list \<Rightarrow> coordinator \<Rightarrow> action list \<times> coordinator" where
  "claim_screen fp as c = (if \<not> co_prune_global c then (as, c) else claim_actions fp as c)"

definition publish :: "node \<Rightarrow> action list \<Rightarrow> coordinator \<Rightarrow> action list \<times> coordinator" where
  "publish nd as c =
     (let fp = nd_fingerprint nd; sm = co_map c
      in claim_screen fp as (c\<lparr>co_map := sm\<lparr>sm_nodes := dict_put fp nd (sm_nodes sm),
           sm_paths := dict_put fp (get_list (co_path_to c) fp) (sm_paths sm)\<rparr>\<rparr>))"

record crawl_work =
  wk_src :: string
  wk_action :: action
  wk_path :: "action list"
  wk_replay :: bool

datatype selection = Retire | Wait | Work crawl_work

definition frontier :: "coordinator \<Rightarrow> string list" where
  "frontier c = map fst [p \<leftarrow> co_pending c. snd p \<noteq> []]"

text \<open>\<open>min(candidates, key=lambda fp: (len(self.path_to[fp]), fp))\<close>.\<close>

definition cheapest :: "coordinator \<Rightarrow> string list \<Rightarrow> string" where
  "cheapest c fps = hd (sort_key (\<lambda>fp. (length (get_list (co_path_to c) fp), fp)) fps)"

definition reserve :: "string \<Rightarrow> bool \<Rightarrow> coordinator \<Rightarrow> selection \<times> coordinator" where
  "reserve src replay c =
     (case get_list (co_pending c) src of
        [] \<Rightarrow> (Retire, c)
      | a # rest \<Rightarrow>
          (Work \<lparr>wk_src = src, wk_action = a, wk_path = get_list (co_path_to c) src, wk_replay = replay\<rparr>,
           c\<lparr>co_pending := dict_put src rest (co_pending c), co_steps := co_steps c + 1,
             co_active := co_active c + 1\<rparr>))"

definition select_next_work :: "string option \<Rightarrow> coordinator \<Rightarrow> selection \<times> coordinator" where
  "select_next_work current c =
     (if co_stopped c then (Retire, c)
      else if length (sm_nodes (co_map c)) \<ge> co_max_screens c then (Retire, finish ''max_screens'' c)
      else if co_steps c \<ge> co_max_steps c then (Retire, finish ''max_steps'' c)
      else case current of
             Some fp \<Rightarrow>
               (if get_list (co_pending c) fp \<noteq> [] then reserve fp False c
                else if frontier c \<noteq> [] then reserve (cheapest c (frontier c)) True c
                else if co_active c = 0 then (Retire, finish ''completed'' c) else (Wait, c))
           | None \<Rightarrow>
               (if frontier c \<noteq> [] then reserve (cheapest c (frontier c)) True c
                else if co_active c = 0 then (Retire, finish ''completed'' c) else (Wait, c)))"

definition release :: "coordinator \<Rightarrow> coordinator" where
  "release c = c\<lparr>co_active := co_active c - 1\<rparr>"

definition record_alert :: "action list \<Rightarrow> string list \<Rightarrow> coordinator \<Rightarrow> coordinator" where
  "record_alert path dismissed c =
     c\<lparr>co_map := (co_map c)\<lparr>sm_alerts := sm_alerts (co_map c) @ [(map describe path, dismissed)]\<rparr>\<rparr>"

definition record_crash :: "action list \<Rightarrow> (string \<times> string) list \<Rightarrow> coordinator \<Rightarrow> coordinator" where
  "record_crash path artifacts c =
     emit (release (c\<lparr>co_map := (co_map c)\<lparr>sm_crashes := sm_crashes (co_map c) @
       [\<lparr>cr_path = map describe path, cr_actions = path, cr_artifacts = artifacts\<rparr>]\<rparr>\<rparr>))"

definition record_edge :: "string \<Rightarrow> action \<Rightarrow> string \<Rightarrow> string list \<Rightarrow> action list \<Rightarrow> coordinator
    \<Rightarrow> bool \<times> coordinator" where
  "record_edge src a dst dismissed path c =
     (let c1 = c\<lparr>co_map := (co_map c)\<lparr>sm_edges := sm_edges (co_map c) @
            [\<lparr>ed_src = src, ed_action = describe a, ed_dst = dst, ed_alert = dismissed\<rparr>]\<rparr>\<rparr>
      in if dict_get (sm_nodes (co_map c1)) dst = None \<and> dst \<notin> co_discovering c1
         then (True, c1\<lparr>co_discovering := insert dst (co_discovering c1),
                        co_path_to := dict_put dst path (co_path_to c1)\<rparr>)
         else (False, emit (release c1)))"

definition finish_discovery :: "node \<Rightarrow> action list \<Rightarrow> coordinator \<Rightarrow> coordinator" where
  "finish_discovery nd as c =
     (let (kept, c1) = publish nd as c; fp = nd_fingerprint nd
      in emit (release (c1\<lparr>co_pending := dict_put fp kept (co_pending c1),
           co_discovering := co_discovering c1 - {fp}\<rparr>)))"

definition give_back :: "string \<Rightarrow> action \<Rightarrow> coordinator \<Rightarrow> coordinator" where
  "give_back src a c =
     release (c\<lparr>co_pending := dict_put src (a # get_list (co_pending c) src) (co_pending c)\<rparr>)"

definition drop_screen :: "string \<Rightarrow> coordinator \<Rightarrow> coordinator" where
  "drop_screen src c = release (c\<lparr>co_pending := dict_put src [] (co_pending c)\<rparr>)"

definition cancel_action :: "coordinator \<Rightarrow> coordinator" where
  "cancel_action c = release c"

definition note_failure :: "string \<Rightarrow> coordinator \<Rightarrow> coordinator" where
  "note_failure e c =
     finish (if sm_stop_reason (co_map c) = [] then ''completed'' else sm_stop_reason (co_map c))
       (c\<lparr>co_failure := co_failure c @ [e]\<rparr>)"

text \<open>The fresh start of \<open>_bootstrap\<close>: the entry screen is published with its frontier.\<close>

definition bootstrap :: "node \<Rightarrow> action list \<Rightarrow> coordinator \<Rightarrow> coordinator" where
  "bootstrap nd as c =
     (let fp = nd_fingerprint nd;
          (kept, c1) = publish nd as (c\<lparr>co_path_to := dict_put fp [] (co_path_to c)\<rparr>)
      in emit (c1\<lparr>co_pending := dict_put fp kept (co_pending c1)\<rparr>))"

text \<open>
  A single-branch resume: the seed path was replayed and landed on the screen \<open>nd\<close>; when the loaded
  map does not know the screen it is discovered like a fresh one.  The frontier is the resumed branch.
\<close>

definition resume_bootstrap :: "node \<Rightarrow> action list \<Rightarrow> action list \<Rightarrow> action list \<Rightarrow> coordinator
    \<Rightarrow> coordinator" where
  "resume_bootstrap nd as seed_path seed_ops c =
     (let fp = nd_fingerprint nd;
          c1 = c\<lparr>co_path_to := dict_put fp seed_path (co_path_to c)\<rparr>;
          c2 = (if dict_get (sm_nodes (co_map c1)) fp = None then snd (publish nd as c1) else c1)
      in emit (c2\<lparr>co_pending := dict_put fp seed_ops (co_pending c2)\<rparr>))"

text \<open>
  The full-frontier continuation.  \<open>replayed fp\<close> is what the device shows after the recorded path of
  \<open>fp\<close> was replayed from a clean state, with the prompts dismissed; \<open>None\<close> when a step of the path no
  longer resolves.
\<close>

definition reseed :: "(string list \<Rightarrow> string) \<Rightarrow> (string \<Rightarrow> (element list \<times> string list) option)
    \<Rightarrow> string \<Rightarrow> coordinator \<Rightarrow> coordinator" where
  "reseed digest replayed fp c =
     (let sm = co_map c; remaining = set (map plan_key (get_list (sm_plan sm) fp));
          path = get_list (sm_paths sm) fp
      in if remaining = {} then c
         else case replayed fp of
                None \<Rightarrow> c
              | Some (landed, dismissed) \<Rightarrow>
                  (if fst (fingerprint digest landed) \<noteq> fp then c
                   else let c1 = (if dismissed = [] then c else record_alert path dismissed c);
                            ops = [a \<leftarrow> candidate_actions landed. describe a \<in> remaining]
                        in if ops = [] then c1
                           else c1\<lparr>co_path_to := dict_put fp path (co_path_to c1),
                                   co_pending := dict_put fp ops (co_pending c1)\<rparr>))"

definition reconstruct_frontier :: "(string list \<Rightarrow> string)
    \<Rightarrow> (string \<Rightarrow> (element list \<times> string list) option) \<Rightarrow> coordinator \<Rightarrow> coordinator" where
  "reconstruct_frontier digest replayed c =
     (let prior = sm_stop_reason (co_map c); planned = sm_plan (co_map c);
          had_frontier = list_ex (\<lambda>p. snd p \<noteq> []) planned;
          c1 = fold (reseed digest replayed) (sort (map fst planned)) c
      in if frontier c1 \<noteq> [] then emit (c1\<lparr>co_map := (co_map c1)\<lparr>sm_stop_reason := []\<rparr>\<rparr>)
         else if had_frontier
         then c1\<lparr>co_map := (co_map c1)\<lparr>sm_stop_reason := if prior = [] then ''max_steps'' else prior\<rparr>\<rparr>
         else emit (c1\<lparr>co_map := (co_map c1)\<lparr>sm_stop_reason := ''completed''\<rparr>\<rparr>))"

text \<open>What \<open>crawl\<close> returns once every worker has ended; \<open>Inl\<close> is the re-raised worker error.\<close>

definition crawl_result :: "coordinator \<Rightarrow> string + screen_map" where
  "crawl_result c =
     (case co_failure c of
        e # _ \<Rightarrow> Inl e
      | [] \<Rightarrow>
          (let sm = co_map c;
               why = (if sm_stop_reason sm \<noteq> [] then sm_stop_reason sm
                      else if frontier c = [] then ''completed''
                      else if length (sm_nodes sm) \<ge> co_max_screens c then ''max_screens'' else ''max_steps'')
           in Inr (co_map (emit (c\<lparr>co_map := sm\<lparr>sm_stop_reason := why\<rparr>\<rparr>)))))"

section \<open>Workers and their steps\<close>

text \<open>
  A worker between two calls of the coordinator: about to select work (with the screen its device is
  on), performing a reserved action, past it (with the prompts it dismissed), discovering the screen
  it reserved, or retired; and the number of consecutive faults of its device.
\<close>

datatype phase = Idle "string option" | Busy crawl_work | Landed crawl_work "string list"
  | Discovering string | Retired

definition max_worker_device_errors :: nat where "max_worker_device_errors = 3"

abbreviation step_path :: "crawl_work \<Rightarrow> action list" where
  "step_path w \<equiv> wk_path w @ [wk_action w]"

type_synonym lanes = "nat \<Rightarrow> phase \<times> nat"

inductive crawl_step :: "nat \<Rightarrow> coordinator \<times> lanes \<Rightarrow> coordinator \<times> lanes \<Rightarrow> bool" for W where
  take: "i < W \<Longrightarrow> st i = (Idle cur, e) \<Longrightarrow> select_next_work cur c = (Work w, c') \<Longrightarrow>
    crawl_step W (c, st) (c', st(i := (Busy w, e)))"
| retire: "i < W \<Longrightarrow> st i = (Idle cur, e) \<Longrightarrow> select_next_work cur c = (Retire, c') \<Longrightarrow>
    crawl_step W (c, st) (c', st(i := (Retired, e)))"
| landed: "i < W \<Longrightarrow> st i = (Busy w, e) \<Longrightarrow>
    crawl_step W (c, st) (if ds = [] then c else record_alert (step_path w) ds c, st(i := (Landed w ds, 0)))"
| crash: "i < W \<Longrightarrow> st i = (Landed w ds, e) \<Longrightarrow>
    crawl_step W (c, st) (record_crash (step_path w) arts c, st(i := (Idle None, e)))"
| new_screen: "i < W \<Longrightarrow> st i = (Landed w ds, e) \<Longrightarrow>
    record_edge (wk_src w) (wk_action w) dst ds (step_path w) c = (True, c') \<Longrightarrow>
    crawl_step W (c, st) (c', st(i := (Discovering dst, e)))"
| known_screen: "i < W \<Longrightarrow> st i = (Landed w ds, e) \<Longrightarrow>
    record_edge (wk_src w) (wk_action w) dst ds (step_path w) c = (False, c') \<Longrightarrow>
    crawl_step W (c, st) (c', st(i := (Idle (Some dst), e)))"
| discovered: "i < W \<Longrightarrow> st i = (Discovering (nd_fingerprint nd), e) \<Longrightarrow>
    crawl_step W (c, st) (finish_discovery nd as c, st(i := (Idle (Some (nd_fingerprint nd)), e)))"
| handed_back: "1 < W \<Longrightarrow> i < W \<Longrightarrow> st i = (Busy w, e) \<Longrightarrow>
    crawl_step W (c, st) (give_back (wk_src w) (wk_action w) c,
      st(i := (if e + 1 < max_worker_device_errors then Idle None else Retired, e + 1)))"
| dropped: "W = 1 \<Longrightarrow> i < W \<Longrightarrow> st i = (Busy w, e) \<Longrightarrow> wk_replay w \<Longrightarrow>
    crawl_step W (c, st) (drop_screen (wk_src w) c, st(i := (Idle None, e)))"
| cancelled: "i < W \<Longrightarrow> st i = (Busy w, e) \<Longrightarrow>
    crawl_step W (c, st) (cancel_action c, st(i := (Idle None, e)))"
| failed: "i < W \<Longrightarrow> st i = (p, e) \<Longrightarrow> p \<noteq> Retired \<Longrightarrow>
    crawl_step W (c, st) (note_failure err c, st(i := (Retired, e)))"

inductive reachable :: "nat \<Rightarrow> coordinator \<times> lanes \<Rightarrow> coordinator \<times> lanes \<Rightarrow> bool" for W s where
  here: "reachable W s s"
| more: "reachable W s t \<Longrightarrow> crawl_step W t u \<Longrightarrow> reachable W s u"

text \<open>The primary worker stays on the entry screen (or starts cold), the others start cold.\<close>

definition lanes0 :: "string option \<Rightarrow> lanes" where
  "lanes0 start = (\<lambda>i. (if i = 0 then Idle start else Idle None, 0))"

section \<open>What the operations leave alone\<close>

named_theorems frame_simps \<open>the fields an operation leaves alone\<close>

lemma claim_actions_fields:
  "co_path_to (snd (claim_actions fp as c)) = co_path_to c"
  "co_pending (snd (claim_actions fp as c)) = co_pending c"
  "co_discovering (snd (claim_actions fp as c)) = co_discovering c"
  "co_steps (snd (claim_actions fp as c)) = co_steps c"
  "co_active (snd (claim_actions fp as c)) = co_active c"
  "co_stopped (snd (claim_actions fp as c)) = co_stopped c"
  "co_failure (snd (claim_actions fp as c)) = co_failure c"
  "co_max_screens (snd (claim_actions fp as c)) = co_max_screens c"
  "co_max_steps (snd (claim_actions fp as c)) = co_max_steps c"
  "co_prune_global (snd (claim_actions fp as c)) = co_prune_global c"
  by (induction fp as c rule: claim_actions.induct) (auto simp: split_beta split: option.splits)

lemma claim_actions_map:
  "sm_nodes (co_map (snd (claim_actions fp as c))) = sm_nodes (co_map c)"
  "sm_edges (co_map (snd (claim_actions fp as c))) = sm_edges (co_map c)"
  "sm_crashes (co_map (snd (claim_actions fp as c))) = sm_crashes (co_map c)"
  "sm_alerts (co_map (snd (claim_actions fp as c))) = sm_alerts (co_map c)"
  "sm_paths (co_map (snd (claim_actions fp as c))) = sm_paths (co_map c)"
  "sm_plan (co_map (snd (claim_actions fp as c))) = sm_plan (co_map c)"
  "sm_stop_reason (co_map (snd (claim_actions fp as c))) = sm_stop_reason (co_map c)"
  by (induction fp as c rule: claim_actions.induct) (auto simp: split_beta split: option.splits)

lemma claim_screen_frame [frame_simps]:
  "co_path_to (snd (claim_screen fp as c)) = co_path_to c"
  "co_pending (snd (claim_screen fp as c)) = co_pending c"
  "co_discovering (snd (claim_screen fp as c)) = co_discovering c"
  "co_steps (snd (claim_screen fp as c)) = co_steps c"
  "co_active (snd (claim_screen fp as c)) = co_active c"
  "co_stopped (snd (claim_screen fp as c)) = co_stopped c"
  "co_failure (snd (claim_screen fp as c)) = co_failure c"
  "co_max_screens (snd (claim_screen fp as c)) = co_max_screens c"
  "co_max_steps (snd (claim_screen fp as c)) = co_max_steps c"
  "co_prune_global (snd (claim_screen fp as c)) = co_prune_global c"
  "sm_nodes (co_map (snd (claim_screen fp as c))) = sm_nodes (co_map c)"
  "sm_edges (co_map (snd (claim_screen fp as c))) = sm_edges (co_map c)"
  "sm_crashes (co_map (snd (claim_screen fp as c))) = sm_crashes (co_map c)"
  "sm_alerts (co_map (snd (claim_screen fp as c))) = sm_alerts (co_map c)"
  "sm_paths (co_map (snd (claim_screen fp as c))) = sm_paths (co_map c)"
  "sm_plan (co_map (snd (claim_screen fp as c))) = sm_plan (co_map c)"
  "sm_stop_reason (co_map (snd (claim_screen fp as c))) = sm_stop_reason (co_map c)"
  by (simp_all add: claim_screen_def claim_actions_fields claim_actions_map)

lemma emit_frame [frame_simps]:
  "co_path_to (emit c) = co_path_to c"
  "co_pending (emit c) = co_pending c"
  "co_discovering (emit c) = co_discovering c"
  "co_steps (emit c) = co_steps c"
  "co_active (emit c) = co_active c"
  "co_stopped (emit c) = co_stopped c"
  "co_failure (emit c) = co_failure c"
  "co_max_screens (emit c) = co_max_screens c"
  "co_max_steps (emit c) = co_max_steps c"
  "co_prune_global (emit c) = co_prune_global c"
  "co_claimed (emit c) = co_claimed c"
  "sm_nodes (co_map (emit c)) = sm_nodes (co_map c)"
  "sm_edges (co_map (emit c)) = sm_edges (co_map c)"
  "sm_crashes (co_map (emit c)) = sm_crashes (co_map c)"
  "sm_alerts (co_map (emit c)) = sm_alerts (co_map c)"
  "sm_paths (co_map (emit c)) = sm_paths (co_map c)"
  "sm_stop_reason (co_map (emit c)) = sm_stop_reason (co_map c)"
  "sm_pruned (co_map (emit c)) = sm_pruned (co_map c)"
  by (simp_all add: emit_def)

lemma frontier_emit [frame_simps]: "frontier (emit c) = frontier c"
  by (simp add: frontier_def frame_simps)

lemma finish_frame [frame_simps]:
  "co_path_to (finish why c) = co_path_to c"
  "co_pending (finish why c) = co_pending c"
  "co_discovering (finish why c) = co_discovering c"
  "co_steps (finish why c) = co_steps c"
  "co_active (finish why c) = co_active c"
  "co_failure (finish why c) = co_failure c"
  "co_max_screens (finish why c) = co_max_screens c"
  "co_max_steps (finish why c) = co_max_steps c"
  "co_prune_global (finish why c) = co_prune_global c"
  "co_claimed (finish why c) = co_claimed c"
  "sm_nodes (co_map (finish why c)) = sm_nodes (co_map c)"
  "sm_edges (co_map (finish why c)) = sm_edges (co_map c)"
  "sm_crashes (co_map (finish why c)) = sm_crashes (co_map c)"
  "sm_alerts (co_map (finish why c)) = sm_alerts (co_map c)"
  "sm_paths (co_map (finish why c)) = sm_paths (co_map c)"
  "sm_plan (co_map (finish why c)) = sm_plan (co_map c)"
  "sm_pruned (co_map (finish why c)) = sm_pruned (co_map c)"
  "co_stopped (finish why c)"
  "sm_stop_reason (co_map (finish why c)) =
     (if sm_stop_reason (co_map c) = [] then why else sm_stop_reason (co_map c))"
  by (simp_all add: finish_def)

lemma frontier_Nil: "frontier c = [] \<longleftrightarrow> (\<forall>p\<in>set (co_pending c). snd p = [])"
  by (simp add: frontier_def filter_empty_conv)

lemma frontier_mem: "dict_wf (co_pending c) \<Longrightarrow> fp \<in> set (frontier c) \<longleftrightarrow> get_list (co_pending c) fp \<noteq> []"
proof -
  assume wf: "dict_wf (co_pending c)"
  have "fp \<in> set (frontier c) \<longleftrightarrow> (\<exists>as. (fp, as) \<in> set (co_pending c) \<and> as \<noteq> [])"
    by (force simp: frontier_def)
  also have "\<dots> \<longleftrightarrow> get_list (co_pending c) fp \<noteq> []"
    by (auto simp: get_list_def dict_get_iff [OF wf, symmetric] split: option.split)
  finally show ?thesis .
qed

section \<open>What a selection is\<close>

lemma cheapest_mem:
  assumes "fps \<noteq> []"
  shows "cheapest c fps \<in> set fps"
proof -
  have "sort_key (\<lambda>fp. (length (get_list (co_path_to c) fp), fp)) fps \<noteq> []"
    by (metis assms length_0_conv length_sort)
  then show ?thesis unfolding cheapest_def by (metis hd_in_set set_sort)
qed

lemma cheapest_least:
  assumes "fp \<in> set fps"
  shows "(length (get_list (co_path_to c) (cheapest c fps)), cheapest c fps) \<le>
     (length (get_list (co_path_to c) fp), fp)"
proof -
  let ?k = "\<lambda>fp. (length (get_list (co_path_to c) fp), fp)"
  have "fp \<in> set (sort_key ?k fps)" using assms by simp
  then obtain x xs where s: "sort_key ?k fps = x # xs" by (cases "sort_key ?k fps") auto
  have "sorted (map ?k (x # xs))" by (metis s sorted_sort_key)
  moreover have "fp \<in> set (x # xs)" by (metis s assms set_sort)
  ultimately have "?k x \<le> ?k fp" by auto
  then show ?thesis by (simp add: cheapest_def s)
qed

definition taken :: "string \<Rightarrow> bool \<Rightarrow> action \<Rightarrow> action list \<Rightarrow> coordinator \<Rightarrow> coordinator" where
  "taken src replay a rest c = c\<lparr>co_pending := dict_put src rest (co_pending c),
     co_steps := co_steps c + 1, co_active := co_active c + 1\<rparr>"

definition reserved :: "string \<Rightarrow> bool \<Rightarrow> action \<Rightarrow> coordinator \<Rightarrow> crawl_work" where
  "reserved src replay a c =
     \<lparr>wk_src = src, wk_action = a, wk_path = get_list (co_path_to c) src, wk_replay = replay\<rparr>"

text \<open>Why a worker is told to retire.\<close>

definition stop_cause :: "coordinator \<Rightarrow> string \<Rightarrow> bool" where
  "stop_cause c why \<longleftrightarrow>
     why = ''max_screens'' \<and> length (sm_nodes (co_map c)) \<ge> co_max_screens c \<or>
     why = ''max_steps'' \<and> co_steps c \<ge> co_max_steps c \<or>
     why = ''completed'' \<and> frontier c = [] \<and> co_active c = 0"

lemma reserve_eq:
  "get_list (co_pending c) src = a # rest \<Longrightarrow>
   reserve src replay c = (Work (reserved src replay a c), taken src replay a rest c)"
  by (simp add: reserve_def reserved_def taken_def)

lemma select_next_work_cases:
  assumes wf: "dict_wf (co_pending c)" and sel: "select_next_work cur c = (sel, c')"
  obtains
    (Work) src replay a rest where "sel = Work (reserved src replay a c)" "c' = taken src replay a rest c"
      "get_list (co_pending c) src = a # rest" "\<not> co_stopped c" "co_steps c < co_max_steps c"
      "length (sm_nodes (co_map c)) < co_max_screens c"
      "if cur \<noteq> None \<and> get_list (co_pending c) (the cur) \<noteq> [] then src = the cur \<and> \<not> replay
       else src = cheapest c (frontier c) \<and> replay"
  | (Stopped) "sel = Retire" "co_stopped c" "c' = c"
  | (Stop) why where "sel = Retire" "\<not> co_stopped c" "stop_cause c why" "c' = finish why c"
  | (Wait) "sel = Wait" "c' = c" "\<not> co_stopped c" "co_active c \<noteq> 0" "frontier c = []"
proof -
  let ?here = "cur \<noteq> None \<and> get_list (co_pending c) (the cur) \<noteq> []"
  have sel': "select_next_work cur c =
     (if co_stopped c then (Retire, c)
      else if length (sm_nodes (co_map c)) \<ge> co_max_screens c then (Retire, finish ''max_screens'' c)
      else if co_steps c \<ge> co_max_steps c then (Retire, finish ''max_steps'' c)
      else if ?here then reserve (the cur) False c
      else if frontier c \<noteq> [] then reserve (cheapest c (frontier c)) True c
      else if co_active c = 0 then (Retire, finish ''completed'' c) else (Wait, c))"
    by (cases cur) (simp_all add: select_next_work_def)
  have cheap: "frontier c \<noteq> [] \<Longrightarrow> get_list (co_pending c) (cheapest c (frontier c)) \<noteq> []"
    using cheapest_mem frontier_mem [OF wf] by blast
  consider "co_stopped c"
    | "\<not> co_stopped c" "length (sm_nodes (co_map c)) \<ge> co_max_screens c"
    | "\<not> co_stopped c" "length (sm_nodes (co_map c)) < co_max_screens c" "co_steps c \<ge> co_max_steps c"
    | "\<not> co_stopped c" "length (sm_nodes (co_map c)) < co_max_screens c" "co_steps c < co_max_steps c"
    by linarith
  then show thesis
  proof cases
    case 1
    with sel' sel show ?thesis by (intro Stopped) simp_all
  next
    case 2
    with sel' sel show ?thesis by (intro Stop [of "''max_screens''"]) (simp_all add: stop_cause_def)
  next
    case 3
    with sel' sel show ?thesis by (intro Stop [of "''max_steps''"]) (simp_all add: stop_cause_def)
  next
    case 4
    show ?thesis
    proof (cases ?here)
      case True
      then obtain a rest where p: "get_list (co_pending c) (the cur) = a # rest" by (metis list.exhaust)
      from 4 sel' sel True reserve_eq [OF p, of False] p show ?thesis
        by (intro Work [of "the cur" False a rest]) simp_all
    next
      case here: False
      show ?thesis
      proof (cases "frontier c = []")
        case False
        then obtain a rest where p: "get_list (co_pending c) (cheapest c (frontier c)) = a # rest"
          using cheap by (metis list.exhaust)
        from 4 sel' sel here False reserve_eq [OF p, of True] p show ?thesis
          by (intro Work [of "cheapest c (frontier c)" True a rest]) auto
      next
        case none: True
        show ?thesis
        proof (cases "co_active c = 0")
          case True
          have s: "select_next_work cur c = (Retire, finish ''completed'' c)"
            unfolding sel' if_not_P [OF here] using 4 none True by simp
          from s sel 4 none True show ?thesis
            by (intro Stop [of "''completed''"]) (simp_all add: stop_cause_def)
        next
          case False
          have s: "select_next_work cur c = (Wait, c)" unfolding sel' if_not_P [OF here] using 4 none False by simp
          from s sel 4 none False show ?thesis by (intro Wait) simp_all
        qed
      qed
    qed
  qed
qed

lemma select_work:
  assumes "dict_wf (co_pending c)" "select_next_work cur c = (Work w, c')"
  obtains src replay a rest where "w = reserved src replay a c" "c' = taken src replay a rest c"
    "get_list (co_pending c) src = a # rest" "\<not> co_stopped c" "co_steps c < co_max_steps c"
    "length (sm_nodes (co_map c)) < co_max_screens c"
proof (cases rule: select_next_work_cases [OF assms])
  case (1 src replay a rest)
  then show thesis using that [of src replay a rest] by simp
qed simp_all

lemma select_retire:
  assumes "dict_wf (co_pending c)" "select_next_work cur c = (Retire, c')"
  shows "co_stopped c \<and> c' = c \<or> (\<exists>why. \<not> co_stopped c \<and> stop_cause c why \<and> c' = finish why c)"
  by (cases rule: select_next_work_cases [OF assms]) auto

lemma select_wait:
  assumes "dict_wf (co_pending c)" "select_next_work cur c = (Wait, c')"
  shows "c' = c \<and> \<not> co_stopped c \<and> co_active c \<noteq> 0 \<and> frontier c = []"
  by (cases rule: select_next_work_cases [OF assms]) auto

end
