(* ===== verification/Crawl_Invariants.thy ===== *)
theory Crawl_Invariants
  imports Crawl_Coordinator
begin

text \<open>
  What holds of the crawl's shared state after any interleaving of its workers
  (\<open>src/bajutsu/crawl/core/_coordinator.py\<close> and \<open>_worker\<close> in \<open>_functions.py\<close>): the reservation
  counter, the frontier and the known paths, single discovery, the budgets, the claims of global
  controls and the stop reason.  Each invariant is kept by every step, so it holds of every state
  reachable from a start that satisfies it.
\<close>

section \<open>Workers that hold a reservation\<close>

fun work_of :: "phase \<Rightarrow> crawl_work option" where
  "work_of (Busy w) = Some w"
| "work_of (Landed w ds) = Some w"
| "work_of _ = None"

fun holds :: "phase \<Rightarrow> bool" where
  "holds (Busy w) = True"
| "holds (Landed w ds) = True"
| "holds (Discovering fp) = True"
| "holds _ = False"

definition holding :: "nat \<Rightarrow> lanes \<Rightarrow> nat set" where
  "holding W st = {i. i < W \<and> holds (fst (st i))}"

lemma holding_finite [simp]: "finite (holding W st)"
  by (simp add: holding_def)

lemma holding_bound: "card (holding W st) \<le> W"
  using card_mono [of "{..<W}" "holding W st"] by (auto simp: holding_def)

lemma holding_update:
  "i < W \<Longrightarrow> holding W (st(i := (p, e))) = (if holds p then insert i (holding W st) else holding W st - {i})"
  by (auto simp: holding_def)

lemma card_kept:
  "i < W \<Longrightarrow> holds (fst (st i)) = holds p \<Longrightarrow> card (holding W (st(i := (p, e)))) = card (holding W st)"
proof -
  assume i: "i < W" "holds (fst (st i)) = holds p"
  then have "holding W (st(i := (p, e))) = holding W st"
    by (simp only: holding_update) (auto simp: holding_def)
  then show ?thesis by simp
qed

lemma card_gained:
  "i < W \<Longrightarrow> \<not> holds (fst (st i)) \<Longrightarrow> holds p \<Longrightarrow>
   card (holding W (st(i := (p, e)))) = Suc (card (holding W st))"
  by (simp add: holding_update) (simp add: holding_def)

lemma card_lost:
  "i < W \<Longrightarrow> holds (fst (st i)) \<Longrightarrow> \<not> holds p \<Longrightarrow>
   card (holding W st) = Suc (card (holding W (st(i := (p, e)))))"
proof -
  assume i: "i < W" "holds (fst (st i))" "\<not> holds p"
  then have "i \<in> holding W st" by (simp add: holding_def)
  then have "card (holding W st) = Suc (card (holding W st - {i}))"
    by (metis card_Suc_Diff1 holding_finite)
  then show ?thesis using i by (simp add: holding_update)
qed

lemma card_le:
  "i < W \<Longrightarrow> \<not> holds p \<Longrightarrow> card (holding W (st(i := (p, e)))) \<le> card (holding W st)"
  by (simp add: holding_update card_mono)

section \<open>An invariant of steps holds of what is reachable\<close>

lemma reachable_inv:
  assumes "reachable W s t" "I s" "\<And>u v. I u \<Longrightarrow> crawl_step W u v \<Longrightarrow> I v"
  shows "I t"
  using assms by (induction rule: reachable.induct) auto

lemma reachable_trans: "reachable W t u \<Longrightarrow> reachable W s t \<Longrightarrow> reachable W s u"
  by (induction rule: reachable.induct) (auto intro: reachable.more)

lemmas op_defs = record_alert_def record_crash_def record_edge_def finish_discovery_def publish_def
  give_back_def drop_screen_def cancel_action_def note_failure_def release_def taken_def Let_def split_beta

section \<open>The frontier stays a dictionary\<close>

definition pending_wf :: "coordinator \<times> lanes \<Rightarrow> bool" where
  "pending_wf s \<longleftrightarrow> dict_wf (co_pending (fst s))"

lemma pending_wf_step:
  assumes "pending_wf s" and "crawl_step W s t"
  shows "pending_wf t"
  using assms(2)
proof cases
  case (take i st cur e c w c')
  from assms(1) take(1) have "dict_wf (co_pending c)" by (simp add: pending_wf_def)
  from select_work [OF this take(5)] obtain src replay a rest where "c' = taken src replay a rest c" .
  then show ?thesis using \<open>dict_wf (co_pending c)\<close> by (simp add: take(2) pending_wf_def taken_def)
next
  case (retire i st cur e c c')
  from assms(1) retire(1) have "dict_wf (co_pending c)" by (simp add: pending_wf_def)
  from select_retire [OF this retire(5)] have "c' = c \<or> (\<exists>why. c' = finish why c)" by blast
  then show ?thesis using \<open>dict_wf (co_pending c)\<close> by (auto simp: retire(2) pending_wf_def frame_simps)
qed (use assms(1) in \<open>auto simp: pending_wf_def op_defs frame_simps split: if_splits\<close>)

section \<open>The reservation counter\<close>

definition counted :: "nat \<Rightarrow> coordinator \<times> lanes \<Rightarrow> bool" where
  "counted W s \<longleftrightarrow>
     int (card (holding W (snd s))) \<le> co_active (fst s) \<and>
     (co_failure (fst s) = [] \<longrightarrow> co_active (fst s) = int (card (holding W (snd s))))"

lemma counted_step:
  assumes "counted W s" "pending_wf s" and "crawl_step W s t"
  shows "counted W t"
  using assms(3)
proof cases
  case (take i st cur e c w c')
  from assms(2) take(1) have "dict_wf (co_pending c)" by (simp add: pending_wf_def)
  from select_work [OF this take(5)] obtain src replay a rest where "c' = taken src replay a rest c" .
  then have "co_active c' = co_active c + 1 \<and> co_failure c' = co_failure c" by (simp add: taken_def)
  then show ?thesis using assms(1) take card_gained [of i W st "Busy w" e] by (simp add: counted_def)
next
  case (retire i st cur e c c')
  from assms(2) retire(1) have "dict_wf (co_pending c)" by (simp add: pending_wf_def)
  from select_retire [OF this retire(5)] have "c' = c \<or> (\<exists>why. c' = finish why c)" by blast
  then have "co_active c' = co_active c \<and> co_failure c' = co_failure c" by (auto simp: frame_simps)
  then show ?thesis using assms(1) retire card_kept [of i W st Retired e] by (simp add: counted_def)
next
  case (landed i st w e c ds)
  then show ?thesis using assms(1) card_kept [of i W st "Landed w ds" 0]
    by (simp add: counted_def record_alert_def)
next
  case (crash i st w ds e c arts)
  then show ?thesis using assms(1) card_lost [of i W st "Idle None" e]
    by (auto simp: counted_def op_defs frame_simps)
next
  case (new_screen i st w ds e dst c c')
  then show ?thesis using assms(1) card_kept [of i W st "Discovering dst" e]
    by (auto simp: counted_def op_defs frame_simps split: if_splits)
next
  case (known_screen i st w ds e dst c c')
  then show ?thesis using assms(1) card_lost [of i W st "Idle (Some dst)" e]
    by (auto simp: counted_def op_defs frame_simps split: if_splits)
next
  case (discovered i st nd e c as)
  then show ?thesis using assms(1) card_lost [of i W st "Idle (Some (nd_fingerprint nd))" e]
    by (auto simp: counted_def op_defs frame_simps)
next
  case (handed_back i st w e c)
  let ?p = "if e + 1 < max_worker_device_errors then Idle None else Retired"
  have "\<not> holds ?p" by simp
  then have "card (holding W st) = Suc (card (holding W (snd t)))"
    unfolding handed_back(2) snd_conv using handed_back by (intro card_lost) simp_all
  then show ?thesis using assms(1) by (auto simp: counted_def op_defs handed_back(1,2))
next
  case (dropped i st w e c)
  then show ?thesis using assms(1) card_lost [of i W st "Idle None" e]
    by (auto simp: counted_def op_defs)
next
  case (cancelled i st w e c)
  then show ?thesis using assms(1) card_lost [of i W st "Idle None" e]
    by (auto simp: counted_def op_defs)
next
  case (failed i st p e c err)
  then show ?thesis using assms(1) card_le [of i W Retired st e]
    by (auto simp: counted_def op_defs frame_simps)
qed

section \<open>Known screens, their paths, and who discovers them\<close>

definition frontier_known :: "coordinator \<Rightarrow> bool" where
  "frontier_known c \<longleftrightarrow>
     (\<forall>fp. dict_get (co_pending c) fp \<noteq> None \<longrightarrow> dict_get (co_path_to c) fp \<noteq> None) \<and>
     (\<forall>fp. dict_get (co_path_to c) fp \<noteq> None \<longrightarrow>
        fp \<in> co_discovering c \<or> dict_get (sm_nodes (co_map c)) fp \<noteq> None) \<and>
     (\<forall>fp\<in>co_discovering c. dict_get (sm_nodes (co_map c)) fp = None \<and> dict_get (co_path_to c) fp \<noteq> None)"

definition works_known :: "nat \<Rightarrow> coordinator \<times> lanes \<Rightarrow> bool" where
  "works_known W s \<longleftrightarrow> (\<forall>i<W. \<forall>w. work_of (fst (snd s i)) = Some w \<longrightarrow>
     dict_get (co_path_to (fst s)) (wk_src w) = Some (wk_path w) \<and>
     dict_get (co_pending (fst s)) (wk_src w) \<noteq> None)"

definition one_discoverer :: "nat \<Rightarrow> coordinator \<times> lanes \<Rightarrow> bool" where
  "one_discoverer W s \<longleftrightarrow>
     (\<forall>i<W. \<forall>fp. fst (snd s i) = Discovering fp \<longrightarrow> fp \<in> co_discovering (fst s)) \<and>
     (\<forall>i<W. \<forall>j<W. \<forall>fp. fst (snd s i) = Discovering fp \<longrightarrow> fst (snd s j) = Discovering fp \<longrightarrow> i = j)"

definition known :: "nat \<Rightarrow> coordinator \<times> lanes \<Rightarrow> bool" where
  "known W s \<longleftrightarrow> frontier_known (fst s) \<and> works_known W s \<and> one_discoverer W s"

lemma get_list_Cons: "get_list d k = x # xs \<Longrightarrow> \<exists>v. dict_get d k = Some v"
  by (cases "dict_get d k") (auto simp: get_list_def)

lemma known_take:
  assumes "known W (c, st)" "i < W" and free: "\<not> holds (fst (st i))" and rest: "get_list (co_pending c) src = a # rest"
  shows "known W (taken src replay a rest c, st(i := (Busy (reserved src replay a c), e)))"
proof -
  obtain v where v: "dict_get (co_pending c) src = Some v" using get_list_Cons [OF rest] by blast
  then obtain p where p: "dict_get (co_path_to c) src = Some p"
    using assms(1) by (force simp: known_def frontier_known_def)
  from assms(1) v have "frontier_known (taken src replay a rest c)"
    by (auto simp: known_def frontier_known_def taken_def)
  moreover from assms(1) have "works_known W (taken src replay a rest c, st(i := (Busy (reserved src replay a c), e)))"
    by (auto simp: known_def works_known_def taken_def reserved_def get_list_def p)
  moreover from assms(1) have "one_discoverer W (taken src replay a rest c, st(i := (Busy (reserved src replay a c), e)))"
    by (simp add: known_def one_discoverer_def taken_def)
  ultimately show ?thesis by (simp add: known_def)
qed

lemma known_frame:
  assumes "known W (c, st)" "co_path_to c' = co_path_to c" "co_discovering c' = co_discovering c"
    "sm_nodes (co_map c') = sm_nodes (co_map c)"
    "\<And>fp. dict_get (co_pending c') fp = None \<longleftrightarrow> dict_get (co_pending c) fp = None"
    "work_of p = None \<or> work_of p = work_of (fst (st i))" "\<And>fp. p \<noteq> Discovering fp"
  shows "known W (c', st(i := (p, e)))"
proof -
  have k: "frontier_known c" "works_known W (c, st)" "one_discoverer W (c, st)"
    using assms(1) by (simp_all add: known_def)
  have "frontier_known c'"
    using k(1) unfolding frontier_known_def assms(2-5) .
  moreover have "works_known W (c', st(i := (p, e)))"
    unfolding works_known_def fst_conv snd_conv assms(2) assms(5)
  proof (intro allI impI)
    fix j w assume j: "j < W" "work_of (fst ((st(i := (p, e))) j)) = Some w"
    then have "work_of (fst (st j)) = Some w" using assms(6) by (cases "j = i") auto
    with k(2) j(1) show "dict_get (co_path_to c) (wk_src w) = Some (wk_path w) \<and> dict_get (co_pending c) (wk_src w) \<noteq> None"
      by (simp add: works_known_def)
  qed
  moreover have "one_discoverer W (c', st(i := (p, e)))"
    using k(3) assms(7) by (simp add: one_discoverer_def assms(3))
  ultimately show ?thesis by (simp add: known_def)
qed

lemma record_edge_new:
  assumes "record_edge src a dst ds path c = (True, c')"
  shows "dict_get (sm_nodes (co_map c)) dst = None \<and> dst \<notin> co_discovering c \<and>
     sm_nodes (co_map c') = sm_nodes (co_map c) \<and> co_discovering c' = insert dst (co_discovering c) \<and>
     co_path_to c' = dict_put dst path (co_path_to c) \<and> co_pending c' = co_pending c \<and>
     co_claimed c' = co_claimed c"
  using assms by (auto simp: op_defs frame_simps split: if_splits)

lemma record_edge_known:
  assumes "record_edge src a dst ds path c = (False, c')"
  shows "(dict_get (sm_nodes (co_map c)) dst \<noteq> None \<or> dst \<in> co_discovering c) \<and>
     sm_nodes (co_map c') = sm_nodes (co_map c) \<and> co_discovering c' = co_discovering c \<and>
     co_path_to c' = co_path_to c \<and> co_pending c' = co_pending c \<and> co_claimed c' = co_claimed c"
  using assms by (auto simp: op_defs frame_simps split: if_splits)

lemma record_edge_frame:
  assumes "record_edge src a dst ds path c = (b, c')"
  shows "co_steps c' = co_steps c" "co_max_steps c' = co_max_steps c" "co_max_screens c' = co_max_screens c"
    "co_prune_global c' = co_prune_global c" "co_stopped c' = co_stopped c" "co_failure c' = co_failure c"
    "sm_stop_reason (co_map c') = sm_stop_reason (co_map c)"
    "co_active c' = (if b then co_active c else co_active c - 1)"
    "sm_nodes (co_map c') = sm_nodes (co_map c)"
  using assms by (auto simp: op_defs frame_simps split: if_splits)

lemma known_new:
  assumes k: "known W (c, st)" and i: "i < W" and rec: "record_edge src a dst ds path c = (True, c')"
  shows "known W (c', st(i := (Discovering dst, e)))"
proof -
  note r = record_edge_new [OF rec]
  have f: "frontier_known c" "works_known W (c, st)" "one_discoverer W (c, st)" using k by (simp_all add: known_def)
  have fresh: "dict_get (co_path_to c) dst = None"
    using f(1) r by (auto simp: frontier_known_def)
  have "frontier_known c'" using f(1) r by (auto simp: frontier_known_def)
  moreover have "works_known W (c', st(i := (Discovering dst, e)))"
    using f(2) r fresh by (auto simp: works_known_def)
  moreover have "one_discoverer W (c', st(i := (Discovering dst, e)))"
    using f(3) r i unfolding one_discoverer_def by auto
  ultimately show ?thesis by (simp add: known_def)
qed

lemma finish_discovery_fields:
  "co_path_to (finish_discovery nd as c) = co_path_to c"
  "co_discovering (finish_discovery nd as c) = co_discovering c - {nd_fingerprint nd}"
  "sm_nodes (co_map (finish_discovery nd as c)) = dict_put (nd_fingerprint nd) nd (sm_nodes (co_map c))"
  "\<exists>kept. co_pending (finish_discovery nd as c) = dict_put (nd_fingerprint nd) kept (co_pending c)"
  by (auto simp: op_defs frame_simps)

lemma known_discovered:
  assumes k: "known W (c, st)" and i: "i < W" and d: "fst (st i) = Discovering (nd_fingerprint nd)"
  shows "known W (finish_discovery nd as c, st(i := (Idle (Some (nd_fingerprint nd)), e)))"
proof -
  let ?fp = "nd_fingerprint nd" and ?c = "finish_discovery nd as c"
  have f: "frontier_known c" "works_known W (c, st)" "one_discoverer W (c, st)" using k by (simp_all add: known_def)
  obtain kept where pend: "co_pending ?c = dict_put ?fp kept (co_pending c)"
    using finish_discovery_fields(4) by blast
  have "?fp \<in> co_discovering c" using f(3) i d by (auto simp: one_discoverer_def)
  then have "frontier_known ?c"
    using f(1) by (auto simp: frontier_known_def finish_discovery_fields(1-3) pend)
  moreover have "works_known W (?c, st(i := (Idle (Some ?fp), e)))"
    using f(2) by (auto simp: works_known_def finish_discovery_fields(1-3) pend)
  moreover have "one_discoverer W (?c, st(i := (Idle (Some ?fp), e)))"
    using f(3) i d by (fastforce simp: one_discoverer_def finish_discovery_fields(1-3))
  ultimately show ?thesis by (simp add: known_def)
qed

lemma works_knownD: "known W (c, st) \<Longrightarrow> i < W \<Longrightarrow> work_of (fst (st i)) = Some w \<Longrightarrow>
   dict_get (co_path_to c) (wk_src w) = Some (wk_path w) \<and> dict_get (co_pending c) (wk_src w) \<noteq> None"
  by (simp add: known_def works_known_def)

lemma known_step:
  assumes "known W s" "pending_wf s" and "crawl_step W s t"
  shows "known W t"
  using assms(3)
proof cases
  case (take i st cur e c w c')
  from assms(2) take(1) have "dict_wf (co_pending c)" by (simp add: pending_wf_def)
  from select_work [OF this take(5)] obtain src replay a rest
    where w: "w = reserved src replay a c" "c' = taken src replay a rest c" "get_list (co_pending c) src = a # rest" .
  show ?thesis using assms(1) take(1-4) w(3) unfolding take(2) w(1,2) by (auto intro: known_take)
next
  case (retire i st cur e c c')
  from assms(2) retire(1) have "dict_wf (co_pending c)" by (simp add: pending_wf_def)
  from select_retire [OF this retire(5)] have "c' = c \<or> (\<exists>why. c' = finish why c)" by blast
  then show ?thesis unfolding retire(2)
    by (intro known_frame [OF assms(1) [unfolded retire(1)]]) (auto simp: frame_simps)
next
  case (landed i st w e c ds)
  show ?thesis unfolding landed(2)
    by (intro known_frame [OF assms(1) [unfolded landed(1)]]) (auto simp: landed(4) op_defs)
next
  case (crash i st w ds e c arts)
  show ?thesis unfolding crash(2)
    by (intro known_frame [OF assms(1) [unfolded crash(1)]]) (auto simp: op_defs frame_simps)
next
  case (new_screen i st w ds e dst c c')
  show ?thesis unfolding new_screen(2)
    using known_new [OF assms(1) [unfolded new_screen(1)] new_screen(3) new_screen(5)] .
next
  case (known_screen i st w ds e dst c c')
  show ?thesis unfolding known_screen(2)
    using record_edge_known [OF known_screen(5)]
    by (intro known_frame [OF assms(1) [unfolded known_screen(1)]]) auto
next
  case (discovered i st nd e c as)
  show ?thesis unfolding discovered(2)
    by (rule known_discovered [OF assms(1) [unfolded discovered(1)] discovered(3)]) (simp add: discovered(4))
next
  case (handed_back i st w e c)
  have "dict_get (co_pending c) (wk_src w) \<noteq> None"
    using works_knownD [OF assms(1) [unfolded handed_back(1)] handed_back(4)] handed_back(5) by simp
  then show ?thesis unfolding handed_back(2)
    by (intro known_frame [OF assms(1) [unfolded handed_back(1)]]) (auto simp: op_defs)
next
  case (dropped i st w e c)
  have "dict_get (co_pending c) (wk_src w) \<noteq> None"
    using works_knownD [OF assms(1) [unfolded dropped(1)] dropped(4)] dropped(5) by simp
  then show ?thesis unfolding dropped(2)
    by (intro known_frame [OF assms(1) [unfolded dropped(1)]]) (auto simp: op_defs)
next
  case (cancelled i st w e c)
  show ?thesis unfolding cancelled(2)
    by (intro known_frame [OF assms(1) [unfolded cancelled(1)]]) (auto simp: op_defs)
next
  case (failed i st p e c err)
  show ?thesis unfolding failed(2)
    by (intro known_frame [OF assms(1) [unfolded failed(1)]]) (auto simp: op_defs frame_simps)
qed

section \<open>What is known stays known\<close>

definition kept_map :: "('k, 'v) dict \<Rightarrow> ('k, 'v) dict \<Rightarrow> bool" where
  "kept_map d d' \<longleftrightarrow> (\<forall>k v. dict_get d k = Some v \<longrightarrow> dict_get d' k = Some v)"

lemma kept_map_refl [simp, intro]: "kept_map d d"
  by (simp add: kept_map_def)

lemma kept_map_trans: "kept_map d e \<Longrightarrow> kept_map e f \<Longrightarrow> kept_map d f"
  by (simp add: kept_map_def)

lemma kept_map_put: "dict_get d k = None \<Longrightarrow> kept_map d (dict_put k v d)"
  by (auto simp: kept_map_def)

definition permanent :: "coordinator \<times> lanes \<Rightarrow> coordinator \<times> lanes \<Rightarrow> bool" where
  "permanent s t \<longleftrightarrow>
     kept_map (co_path_to (fst s)) (co_path_to (fst t)) \<and>
     kept_map (sm_nodes (co_map (fst s))) (sm_nodes (co_map (fst t))) \<and>
     kept_map (co_claimed (fst s)) (co_claimed (fst t)) \<and>
     co_max_screens (fst t) = co_max_screens (fst s) \<and> co_max_steps (fst t) = co_max_steps (fst s) \<and>
     co_prune_global (fst t) = co_prune_global (fst s)"

lemma claim_actions_claims:
  "kept_map (co_claimed c) (co_claimed (snd (claim_actions fp as c))) \<and>
   (\<forall>a\<in>set (fst (claim_actions fp as c)).
      a \<in> set as \<and> dict_get (co_claimed (snd (claim_actions fp as c))) (action_key a) = Some fp)"
proof (induction fp as c rule: claim_actions.induct)
  case (2 fp a as c)
  show ?case
  proof (cases "dict_get (co_claimed c) (action_key a)")
    case None
    let ?c = "c\<lparr>co_claimed := dict_put (action_key a) fp (co_claimed c)\<rparr>"
    have "kept_map (co_claimed c) (co_claimed ?c)" using None by (simp add: kept_map_put)
    moreover have "dict_get (co_claimed (snd (claim_actions fp as ?c))) (action_key a) = Some fp"
      using 2(1) [OF None] by (simp add: kept_map_def)
    ultimately show ?thesis using 2(1) [OF None] kept_map_trans
      by (simp add: None split_beta) blast
  next
    case (Some own)
    show ?thesis
    proof (cases "own = fp")
      case True
      with Some 2(3) [OF Some] show ?thesis by (simp add: split_beta kept_map_def)
    next
      case False
      with Some 2(2) [OF Some False] show ?thesis by auto
    qed
  qed
qed simp

lemma claim_screen_claims:
  "kept_map (co_claimed c) (co_claimed (snd (claim_screen fp as c)))"
  "co_prune_global c \<Longrightarrow> a \<in> set (fst (claim_screen fp as c)) \<Longrightarrow>
     dict_get (co_claimed (snd (claim_screen fp as c))) (action_key a) = Some fp"
  using claim_actions_claims [of c fp as] by (auto simp: claim_screen_def)

lemma publish_eq:
  "\<exists>d. publish nd as c = claim_screen (nd_fingerprint nd) as d \<and> co_claimed d = co_claimed c \<and>
     co_prune_global d = co_prune_global c"
  by (auto simp: publish_def Let_def intro!: exI [of _ "c\<lparr>co_map := _ c\<rparr>"])

lemma publish_claims:
  "kept_map (co_claimed c) (co_claimed (snd (publish nd as c)))"
  "co_prune_global c \<Longrightarrow> a \<in> set (fst (publish nd as c)) \<Longrightarrow>
     dict_get (co_claimed (snd (publish nd as c))) (action_key a) = Some (nd_fingerprint nd)"
  using publish_eq [of nd as c] claim_screen_claims [where fp = "nd_fingerprint nd" and as = as]
  by (metis)+

lemma finish_discovery_claims:
  "co_claimed (finish_discovery nd as c) = co_claimed (snd (publish nd as c))"
  "co_pending (finish_discovery nd as c) = dict_put (nd_fingerprint nd) (fst (publish nd as c)) (co_pending c)"
  "co_prune_global (finish_discovery nd as c) = co_prune_global c"
  "co_max_screens (finish_discovery nd as c) = co_max_screens c"
  "co_max_steps (finish_discovery nd as c) = co_max_steps c"
  "co_steps (finish_discovery nd as c) = co_steps c"
  "co_failure (finish_discovery nd as c) = co_failure c"
  "co_stopped (finish_discovery nd as c) = co_stopped c"
  "sm_stop_reason (co_map (finish_discovery nd as c)) = sm_stop_reason (co_map c)"
  by (auto simp: op_defs frame_simps)

lemma permanent_step:
  assumes "known W s" "pending_wf s" and "crawl_step W s t"
  shows "permanent s t"
  using assms(3)
proof cases
  case (take i st cur e c w c')
  from assms(2) take(1) have "dict_wf (co_pending c)" by (simp add: pending_wf_def)
  from select_work [OF this take(5)] obtain src replay a rest where "c' = taken src replay a rest c" .
  then show ?thesis by (simp add: permanent_def take(1,2) taken_def)
next
  case (retire i st cur e c c')
  from assms(2) retire(1) have "dict_wf (co_pending c)" by (simp add: pending_wf_def)
  from select_retire [OF this retire(5)] have "c' = c \<or> (\<exists>why. c' = finish why c)" by blast
  then show ?thesis by (auto simp: permanent_def retire(1,2) frame_simps)
next
  case (new_screen i st w ds e dst c c')
  note r = record_edge_new [OF new_screen(5)]
  have "frontier_known c" using assms(1) by (simp add: known_def new_screen(1))
  then have "dict_get (co_path_to c) dst = None" using r by (auto simp: frontier_known_def)
  then have "kept_map (co_path_to c) (co_path_to c')" using r by (simp add: kept_map_put)
  moreover have "co_max_screens c' = co_max_screens c \<and> co_max_steps c' = co_max_steps c \<and>
      co_prune_global c' = co_prune_global c"
    using new_screen(5) by (auto simp: op_defs split: if_splits)
  ultimately show ?thesis using r by (simp add: permanent_def new_screen(1,2))
next
  case (discovered i st nd e c as)
  have "frontier_known c" "one_discoverer W (c, st)" using assms(1) by (simp_all add: known_def discovered(1))
  then have "dict_get (sm_nodes (co_map c)) (nd_fingerprint nd) = None"
    using discovered(3,4) by (force simp: frontier_known_def one_discoverer_def)
  then show ?thesis
    by (simp add: permanent_def discovered(1,2) finish_discovery_fields(1,3) finish_discovery_claims kept_map_put
        publish_claims)
next
  case (known_screen i st w ds e dst c c')
  then show ?thesis using record_edge_known [OF known_screen(5)] record_edge_frame [OF known_screen(5)]
    by (simp add: permanent_def known_screen(1,2))
qed (auto simp: permanent_def op_defs frame_simps)

section \<open>Claims of global controls\<close>

definition claims :: "nat \<Rightarrow> coordinator \<times> lanes \<Rightarrow> bool" where
  "claims W s \<longleftrightarrow> (co_prune_global (fst s) \<longrightarrow>
     (\<forall>fp. \<forall>a\<in>set (get_list (co_pending (fst s)) fp).
        dict_get (co_claimed (fst s)) (action_key a) = Some fp) \<and>
     (\<forall>i<W. \<forall>w. work_of (fst (snd s i)) = Some w \<longrightarrow>
        dict_get (co_claimed (fst s)) (action_key (wk_action w)) = Some (wk_src w)))"

lemma get_list_put: "get_list (dict_put k v d) k' = (if k' = k then v else get_list d k')"
  by (simp add: get_list_def)

lemma claims_frame:
  assumes "claims W (c, st)" "co_claimed c' = co_claimed c" "co_prune_global c' = co_prune_global c"
    "\<And>fp. set (get_list (co_pending c') fp) \<subseteq> set (get_list (co_pending c) fp)"
    "work_of p = None \<or> work_of p = work_of (fst (st i))"
  shows "claims W (c', st(i := (p, e)))"
  unfolding claims_def fst_conv snd_conv assms(2,3)
proof (intro impI conjI allI ballI)
  assume g: "co_prune_global c"
  fix fp a assume "a \<in> set (get_list (co_pending c') fp)"
  with assms(1,4) g show "dict_get (co_claimed c) (action_key a) = Some fp"
    by (auto simp: claims_def)
next
  assume g: "co_prune_global c"
  fix j w assume j: "j < W" "work_of (fst ((st(i := (p, e))) j)) = Some w"
  then have "work_of (fst (st j)) = Some w" using assms(5) by (cases "j = i") auto
  with assms(1) g j(1) show "dict_get (co_claimed c) (action_key (wk_action w)) = Some (wk_src w)"
    by (simp add: claims_def)
qed

lemma claims_take:
  assumes "claims W (c, st)" and rest: "get_list (co_pending c) src = a # rest"
  shows "claims W (taken src replay a rest c, st(i := (Busy (reserved src replay a c), e)))"
proof -
  have "co_prune_global c \<Longrightarrow> dict_get (co_claimed c) (action_key a) = Some src"
    using assms(1) list.set_intros(1) [of a rest] unfolding rest [symmetric] by (auto simp: claims_def)
  with assms show ?thesis
    by (auto simp: claims_def taken_def reserved_def get_list_put)
qed

lemma claims_discovered:
  assumes "claims W (c, st)"
  shows "claims W (finish_discovery nd as c, st(i := (Idle cur, e)))"
proof -
  have "kept_map (co_claimed c) (co_claimed (finish_discovery nd as c))"
    by (simp add: finish_discovery_claims publish_claims)
  with assms show ?thesis
    by (auto simp: claims_def finish_discovery_claims get_list_put publish_claims kept_map_def)
qed

lemma claims_step:
  assumes "claims W s" "pending_wf s" and "crawl_step W s t"
  shows "claims W t"
  using assms(3)
proof cases
  case (take i st cur e c w c')
  from assms(2) take(1) have "dict_wf (co_pending c)" by (simp add: pending_wf_def)
  from select_work [OF this take(5)] obtain src replay a rest
    where w: "w = reserved src replay a c" "c' = taken src replay a rest c" "get_list (co_pending c) src = a # rest" .
  show ?thesis using claims_take [OF assms(1) [unfolded take(1)] w(3)] unfolding take(2) w(1,2) .
next
  case (retire i st cur e c c')
  from assms(2) retire(1) have "dict_wf (co_pending c)" by (simp add: pending_wf_def)
  from select_retire [OF this retire(5)] have "c' = c \<or> (\<exists>why. c' = finish why c)" by blast
  then show ?thesis unfolding retire(2)
    by (intro claims_frame [OF assms(1) [unfolded retire(1)]]) (auto simp: frame_simps)
next
  case (landed i st w e c ds)
  show ?thesis unfolding landed(2)
    by (intro claims_frame [OF assms(1) [unfolded landed(1)]]) (auto simp: landed(4) op_defs)
next
  case (crash i st w ds e c arts)
  show ?thesis unfolding crash(2)
    by (intro claims_frame [OF assms(1) [unfolded crash(1)]]) (auto simp: op_defs frame_simps)
next
  case (new_screen i st w ds e dst c c')
  have "co_prune_global c' = co_prune_global c"
    using new_screen(5) by (auto simp: op_defs frame_simps split: if_splits)
  then show ?thesis unfolding new_screen(2)
    using record_edge_new [OF new_screen(5)]
    by (intro claims_frame [OF assms(1) [unfolded new_screen(1)]]) auto
next
  case (known_screen i st w ds e dst c c')
  have "co_prune_global c' = co_prune_global c"
    using known_screen(5) by (auto simp: op_defs frame_simps split: if_splits)
  then show ?thesis unfolding known_screen(2)
    using record_edge_known [OF known_screen(5)]
    by (intro claims_frame [OF assms(1) [unfolded known_screen(1)]]) auto
next
  case (discovered i st nd e c as)
  show ?thesis unfolding discovered(2) by (rule claims_discovered [OF assms(1) [unfolded discovered(1)]])
next
  case (handed_back i st w e c)
  let ?c = "give_back (wk_src w) (wk_action w) c"
  have given: "claims W (?c, st)"
    using assms(1) handed_back(4,5) unfolding handed_back(1)
    by (auto simp: claims_def op_defs get_list_put)
  show ?thesis unfolding handed_back(2) by (intro claims_frame [OF given]) auto
next
  case (dropped i st w e c)
  show ?thesis unfolding dropped(2)
    by (intro claims_frame [OF assms(1) [unfolded dropped(1)]]) (auto simp: op_defs get_list_put)
next
  case (cancelled i st w e c)
  show ?thesis unfolding cancelled(2)
    by (intro claims_frame [OF assms(1) [unfolded cancelled(1)]]) (auto simp: op_defs)
next
  case (failed i st p e c err)
  show ?thesis unfolding failed(2)
    by (intro claims_frame [OF assms(1) [unfolded failed(1)]]) (auto simp: op_defs frame_simps)
qed

section \<open>Budgets\<close>

definition within_budget :: "nat \<Rightarrow> nat \<Rightarrow> coordinator \<times> lanes \<Rightarrow> bool" where
  "within_budget n W s \<longleftrightarrow> co_steps (fst s) \<le> co_max_steps (fst s) \<and>
     length (sm_nodes (co_map (fst s))) + card (holding W (snd s)) \<le> max n (co_max_screens (fst s) + W - 1)"

lemma length_dict_put: "length (dict_put k v d) = (if dict_get d k = None then Suc (length d) else length d)"
  by (induction k v d rule: dict_put.induct) (auto simp: dict_get_def)

lemma within_budget_frame:
  assumes "within_budget n W (c, st)" "co_steps c' = co_steps c" "co_max_steps c' = co_max_steps c"
    "co_max_screens c' = co_max_screens c"
    "length (sm_nodes (co_map c')) + card (holding W st') \<le> length (sm_nodes (co_map c)) + card (holding W st)"
  shows "within_budget n W (c', st')"
  using assms by (simp add: within_budget_def)

lemma card_step_le:
  "i < W \<Longrightarrow> holds (fst (st i)) \<or> \<not> holds p \<Longrightarrow> card (holding W (st(i := (p, e)))) \<le> card (holding W st)"
  using card_kept [of i W st p e] card_le [of i W p st e] by (cases "holds p") auto

lemma within_budget_step:
  assumes "within_budget n W s" "pending_wf s" and "crawl_step W s t"
  shows "within_budget n W t"
  using assms(3)
proof cases
  case (take i st cur e c w c')
  from assms(2) take(1) have "dict_wf (co_pending c)" by (simp add: pending_wf_def)
  from select_work [OF this take(5)] obtain src replay a rest where
    c': "c' = taken src replay a rest c" "co_steps c < co_max_steps c"
      "length (sm_nodes (co_map c)) < co_max_screens c" .
  moreover have "card (holding W (st(i := (Busy w, e)))) \<le> W" by (rule holding_bound)
  ultimately show ?thesis by (simp add: within_budget_def take(2) taken_def)
next
  case (retire i st cur e c c')
  from assms(2) retire(1) have "dict_wf (co_pending c)" by (simp add: pending_wf_def)
  from select_retire [OF this retire(5)] have "c' = c \<or> (\<exists>why. c' = finish why c)" by blast
  moreover have "card (holding W (st(i := (Retired, e)))) \<le> card (holding W st)"
    using retire(3) by (intro card_step_le) auto
  ultimately show ?thesis unfolding retire(2)
    by (intro within_budget_frame [OF assms(1) [unfolded retire(1)]]) (auto simp: frame_simps)
next
  case (landed i st w e c ds)
  then show ?thesis unfolding landed(2)
    by (intro within_budget_frame [OF assms(1) [unfolded landed(1)]])
      (auto simp: op_defs intro!: card_step_le)
next
  case (crash i st w ds e c arts)
  then show ?thesis unfolding crash(2)
    by (intro within_budget_frame [OF assms(1) [unfolded crash(1)]])
      (auto simp: op_defs frame_simps intro!: card_step_le)
next
  case (new_screen i st w ds e dst c c')
  then show ?thesis unfolding new_screen(2)
    using record_edge_frame [OF new_screen(5)] card_step_le [OF new_screen(3), of st "Discovering dst" e]
    by (intro within_budget_frame [OF assms(1) [unfolded new_screen(1)]]) simp_all
next
  case (known_screen i st w ds e dst c c')
  then show ?thesis unfolding known_screen(2)
    using record_edge_frame [OF known_screen(5)] card_step_le [OF known_screen(3), of st "Idle (Some dst)" e]
    by (intro within_budget_frame [OF assms(1) [unfolded known_screen(1)]]) simp_all
next
  case (discovered i st nd e c as)
  have "card (holding W st) = Suc (card (holding W (st(i := (Idle (Some (nd_fingerprint nd)), e)))))"
    using discovered(3,4) by (intro card_lost) auto
  then show ?thesis unfolding discovered(2)
    by (intro within_budget_frame [OF assms(1) [unfolded discovered(1)]])
      (auto simp: finish_discovery_fields finish_discovery_claims length_dict_put)
next
  case (handed_back i st w e c)
  then show ?thesis unfolding handed_back(2)
    by (intro within_budget_frame [OF assms(1) [unfolded handed_back(1)]])
      (auto simp: op_defs intro!: card_step_le)
next
  case (dropped i st w e c)
  then show ?thesis unfolding dropped(2)
    by (intro within_budget_frame [OF assms(1) [unfolded dropped(1)]])
      (auto simp: op_defs intro!: card_step_le)
next
  case (cancelled i st w e c)
  then show ?thesis unfolding cancelled(2)
    by (intro within_budget_frame [OF assms(1) [unfolded cancelled(1)]])
      (auto simp: op_defs intro!: card_step_le)
next
  case (failed i st p e c err)
  then show ?thesis unfolding failed(2)
    by (intro within_budget_frame [OF assms(1) [unfolded failed(1)]])
      (auto simp: op_defs frame_simps intro!: card_step_le)
qed

section \<open>The stop reason\<close>

definition explored :: "nat \<Rightarrow> coordinator \<times> lanes \<Rightarrow> bool" where
  "explored W s \<longleftrightarrow> frontier (fst s) = [] \<and> holding W (snd s) = {}"

definition truthful :: "nat \<Rightarrow> coordinator \<times> lanes \<Rightarrow> bool" where
  "truthful W s \<longleftrightarrow> (let c = fst s; why = sm_stop_reason (co_map c) in
     why = [] \<or> why = ''max_screens'' \<and> co_max_screens c \<le> length (sm_nodes (co_map c)) \<or>
     why = ''max_steps'' \<and> co_max_steps c \<le> co_steps c \<or> why = ''completed'' \<and> explored W s)"

definition honest :: "nat \<Rightarrow> coordinator \<times> lanes \<Rightarrow> bool" where
  "honest W s \<longleftrightarrow> (co_stopped (fst s) \<longleftrightarrow> sm_stop_reason (co_map (fst s)) \<noteq> []) \<and>
     (co_failure (fst s) \<noteq> [] \<longrightarrow> co_stopped (fst s)) \<and>
     (co_failure (fst s) = [] \<longrightarrow> truthful W s)"

lemma holding_mem: "i < W \<Longrightarrow> holds (fst (st i)) \<Longrightarrow> holding W st \<noteq> {}"
  by (auto simp: holding_def)

text \<open>A step taken by a worker that holds a reservation: the crawl is not explored before it.\<close>

lemma honest_frame:
  assumes "honest W (c, st)" and i: "i < W" "holds (fst (st i))"
    "co_stopped c' = co_stopped c" "co_failure c' = co_failure c"
    "sm_stop_reason (co_map c') = sm_stop_reason (co_map c)"
    "length (sm_nodes (co_map c)) \<le> length (sm_nodes (co_map c'))"
    "co_steps c' = co_steps c" "co_max_steps c' = co_max_steps c" "co_max_screens c' = co_max_screens c"
  shows "honest W (c', st')"
proof -
  have busy: "\<not> explored W (c, st)" using holding_mem [of i W st] i by (simp add: explored_def)
  have "truthful W (c', st')" if "co_failure c' = []"
  proof -
    have "truthful W (c, st)" using assms(1) that assms(5) by (simp add: honest_def)
    then show ?thesis using busy assms(6-) unfolding truthful_def Let_def fst_conv by (elim disjE) simp_all
  qed
  with assms(1,4-6) show ?thesis unfolding honest_def by simp blast
qed

lemma honest_step:
  assumes h: "honest W s" and "counted W s" "pending_wf s" and "crawl_step W s t"
  shows "honest W t"
  using assms(4)
proof cases
  case (take i st cur e c w c')
  from assms(3) take(1) have "dict_wf (co_pending c)" by (simp add: pending_wf_def)
  from select_work [OF this take(5)] obtain src replay a rest where
    "c' = taken src replay a rest c" "\<not> co_stopped c" .
  with h show ?thesis by (auto simp: honest_def truthful_def take(1,2) taken_def)
next
  case (retire i st cur e c c')
  from assms(3) retire(1) have wf: "dict_wf (co_pending c)" by (simp add: pending_wf_def)
  have same: "holding W (st(i := (Retired, e))) = holding W st"
    using retire(3,4) by (simp add: holding_update) (auto simp: holding_def)
  from select_retire [OF wf retire(5)] show ?thesis
  proof (elim disjE exE conjE)
    assume "c' = c"
    moreover have "truthful W (c, st(i := (Retired, e))) = truthful W (c, st)"
      by (simp only: truthful_def explored_def same Let_def fst_conv snd_conv)
    ultimately show ?thesis using h unfolding honest_def retire(1,2) fst_conv by fast
  next
    fix why assume w: "\<not> co_stopped c" "stop_cause c why" "c' = finish why c"
    have f: "co_failure c = []" and r: "sm_stop_reason (co_map c) = []"
      using h w(1) by (auto simp: honest_def retire(1))
    have "co_active c = 0 \<Longrightarrow> holding W st = {}"
      using assms(2) f by (simp add: counted_def retire(1))
    then have "stop_cause (finish why c) why \<and> (why = ''completed'' \<longrightarrow> explored W (finish why c, st(i := (Retired, e))))"
      using w(2) unfolding stop_cause_def explored_def same fst_conv snd_conv
      by (auto simp: frontier_def frame_simps)
    then have "why \<noteq> [] \<and> truthful W (finish why c, st(i := (Retired, e)))"
      unfolding truthful_def Let_def fst_conv finish_frame r stop_cause_def by auto
    then show ?thesis using f by (simp add: honest_def retire(2) w(3) finish_frame r)
  qed
next
  case (landed i st w e c ds)
  then show ?thesis unfolding landed(2)
    by (intro honest_frame [OF h [unfolded landed(1)] landed(3)]) (auto simp: op_defs)
next
  case (crash i st w ds e c arts)
  then show ?thesis unfolding crash(2)
    by (intro honest_frame [OF h [unfolded crash(1)] crash(3)]) (auto simp: op_defs frame_simps)
next
  case (new_screen i st w ds e dst c c')
  then show ?thesis unfolding new_screen(2)
    using record_edge_frame [OF new_screen(5)]
    by (intro honest_frame [OF h [unfolded new_screen(1)] new_screen(3)]) simp_all
next
  case (known_screen i st w ds e dst c c')
  then show ?thesis unfolding known_screen(2)
    using record_edge_frame [OF known_screen(5)]
    by (intro honest_frame [OF h [unfolded known_screen(1)] known_screen(3)]) simp_all
next
  case (discovered i st nd e c as)
  then show ?thesis unfolding discovered(2)
    by (intro honest_frame [OF h [unfolded discovered(1)] discovered(3)])
      (auto simp: finish_discovery_fields finish_discovery_claims length_dict_put)
next
  case (handed_back i st w e c)
  then show ?thesis unfolding handed_back(2)
    by (intro honest_frame [OF h [unfolded handed_back(1)] handed_back(4)]) (auto simp: op_defs)
next
  case (dropped i st w e c)
  then show ?thesis unfolding dropped(2)
    by (intro honest_frame [OF h [unfolded dropped(1)] dropped(4)]) (auto simp: op_defs)
next
  case (cancelled i st w e c)
  then show ?thesis unfolding cancelled(2)
    by (intro honest_frame [OF h [unfolded cancelled(1)] cancelled(3)]) (auto simp: op_defs)
next
  case (failed i st p e c err)
  then show ?thesis by (auto simp: honest_def op_defs frame_simps)
qed

end
