(* ===== verification/Crawl_Runs.thy ===== *)
theory Crawl_Runs
  imports Crawl_Invariants
begin

text \<open>
  Whole crawls: the three ways a crawl starts (\<open>_bootstrap\<close> and \<open>_reconstruct_frontier\<close> of
  \<open>src/bajutsu/crawl/core/_functions.py\<close>) satisfy the invariants, no worker waits for ever, every
  run ends within its step budget, and what the returned screen map says about the run.
\<close>

section \<open>The invariants together\<close>

definition sound :: "nat \<Rightarrow> nat \<Rightarrow> coordinator \<times> lanes \<Rightarrow> bool" where
  "sound n W s \<longleftrightarrow> pending_wf s \<and> counted W s \<and> known W s \<and> within_budget n W s"

lemma sound_step: "sound n W s \<Longrightarrow> crawl_step W s t \<Longrightarrow> sound n W t"
  unfolding sound_def using pending_wf_step counted_step known_step within_budget_step by blast

lemma sound_reachable: "reachable W s t \<Longrightarrow> sound n W s \<Longrightarrow> sound n W t"
  by (induction rule: reachable.induct) (auto intro: sound_step)

lemma honest_reachable: "reachable W s t \<Longrightarrow> sound n W s \<Longrightarrow> honest W s \<Longrightarrow> honest W t"
proof (induction rule: reachable.induct)
  case (more t u)
  then have "sound n W t" using sound_reachable by blast
  with more show ?case unfolding sound_def using honest_step by blast
qed

lemma claims_reachable: "reachable W s t \<Longrightarrow> sound n W s \<Longrightarrow> claims W s \<Longrightarrow> claims W t"
proof (induction rule: reachable.induct)
  case (more t u)
  then have "sound n W t" using sound_reachable by blast
  with more show ?case unfolding sound_def using claims_step by blast
qed

lemma permanent_refl: "permanent s s"
  by (simp add: permanent_def)

lemma permanent_trans: "permanent s t \<Longrightarrow> permanent t u \<Longrightarrow> permanent s u"
  unfolding permanent_def using kept_map_trans by metis

lemma permanent_reachable: "reachable W s t \<Longrightarrow> sound n W s \<Longrightarrow> permanent s t"
proof (induction rule: reachable.induct)
  case here
  show ?case by (rule permanent_refl)
next
  case (more t u)
  then have "sound n W t" using sound_reachable by blast
  then have "permanent t u" using more(2) unfolding sound_def using permanent_step by blast
  with more show ?case using permanent_trans by blast
qed

section \<open>Starting states\<close>

text \<open>What the bootstrap leaves: nothing reserved, and a frontier of screens with known paths.\<close>

definition fresh_budget :: "coordinator \<Rightarrow> bool" where
  "fresh_budget c \<longleftrightarrow> co_active c = 0 \<and> co_failure c = [] \<and> co_steps c = 0 \<and> co_discovering c = {} \<and>
     \<not> co_stopped c"

definition start_ok :: "coordinator \<Rightarrow> bool" where
  "start_ok c \<longleftrightarrow> fresh_budget c \<and> dict_wf (co_pending c) \<and> frontier_known c"

lemma holding_lanes0 [simp]: "holding W (lanes0 start) = {}"
  by (auto simp: holding_def lanes0_def)

lemma lanes0_phase [simp]: "work_of (fst (lanes0 start i)) = None" "fst (lanes0 start i) \<noteq> Discovering fp"
  by (simp_all add: lanes0_def)

lemma dict_get_single [simp]: "dict_get [(k, v)] k' = (if k' = k then Some v else None)"
  by (simp add: dict_get_def)

lemma start_sound:
  assumes "start_ok c"
  shows "sound (length (sm_nodes (co_map c))) W (c, lanes0 start)"
  using assms
  by (auto simp: sound_def start_ok_def fresh_budget_def pending_wf_def counted_def known_def works_known_def
      one_discoverer_def within_budget_def)

lemma start_honest: "start_ok c \<Longrightarrow> sm_stop_reason (co_map c) = [] \<Longrightarrow> honest W (c, lanes0 start)"
  by (simp add: start_ok_def fresh_budget_def honest_def truthful_def)

lemma publish_fields:
  "co_path_to (snd (publish nd as c)) = co_path_to c"
  "co_pending (snd (publish nd as c)) = co_pending c"
  "co_discovering (snd (publish nd as c)) = co_discovering c"
  "co_steps (snd (publish nd as c)) = co_steps c"
  "co_active (snd (publish nd as c)) = co_active c"
  "co_stopped (snd (publish nd as c)) = co_stopped c"
  "co_failure (snd (publish nd as c)) = co_failure c"
  "co_max_screens (snd (publish nd as c)) = co_max_screens c"
  "co_max_steps (snd (publish nd as c)) = co_max_steps c"
  "co_prune_global (snd (publish nd as c)) = co_prune_global c"
  "sm_nodes (co_map (snd (publish nd as c))) = dict_put (nd_fingerprint nd) nd (sm_nodes (co_map c))"
  "sm_stop_reason (co_map (snd (publish nd as c))) = sm_stop_reason (co_map c)"
  by (simp_all add: publish_def Let_def claim_screen_frame)

abbreviation fresh_crawl :: "node \<Rightarrow> action list \<Rightarrow> nat \<Rightarrow> nat \<Rightarrow> bool \<Rightarrow> coordinator" where
  "fresh_crawl nd as max_screens max_steps prune \<equiv>
     bootstrap nd as (coordinator0 screen_map0 max_screens max_steps prune)"

lemma bootstrap_ok: "start_ok (fresh_crawl nd as ms mt prune)"
  by (auto simp: start_ok_def fresh_budget_def frontier_known_def bootstrap_def Let_def split_beta frame_simps
      publish_fields coordinator0_def dict_wf_def split: if_splits)

lemma bootstrap_fields:
  "length (sm_nodes (co_map (fresh_crawl nd as ms mt prune))) = 1"
  "sm_stop_reason (co_map (fresh_crawl nd as ms mt prune)) = []"
  "co_max_screens (fresh_crawl nd as ms mt prune) = ms"
  "co_max_steps (fresh_crawl nd as ms mt prune) = mt"
  "co_prune_global (fresh_crawl nd as ms mt prune) = prune"
  by (simp_all add: bootstrap_def Let_def split_beta frame_simps publish_fields coordinator0_def screen_map0_def)

lemma bootstrap_claims: "claims W (fresh_crawl nd as ms mt prune, lanes0 start)"
proof -
  let ?c = "(coordinator0 screen_map0 ms mt prune)\<lparr>co_path_to := [(nd_fingerprint nd, [])]\<rparr>"
  have "co_pending (fresh_crawl nd as ms mt prune) = [(nd_fingerprint nd, fst (publish nd as ?c))]"
    "co_claimed (fresh_crawl nd as ms mt prune) = co_claimed (snd (publish nd as ?c))"
    by (simp_all add: bootstrap_def Let_def split_beta frame_simps publish_fields coordinator0_def)
  moreover have "prune \<Longrightarrow> a \<in> set (fst (publish nd as ?c)) \<Longrightarrow>
      dict_get (co_claimed (snd (publish nd as ?c))) (action_key a) = Some (nd_fingerprint nd)" for a
    by (rule publish_claims) (simp_all add: coordinator0_def)
  ultimately show ?thesis
    by (auto simp: claims_def bootstrap_fields get_list_def dict_get_def lanes0_def split: if_splits)
qed

lemma resume_ok: "start_ok (resume_bootstrap nd as path ops (coordinator0 sm ms mt prune))"
  by (auto simp: start_ok_def fresh_budget_def frontier_known_def resume_bootstrap_def Let_def split_beta
      frame_simps publish_fields coordinator0_def dict_wf_def split: if_splits)

section \<open>Progress\<close>

lemma waiting_means_working:
  assumes "sound n W (c, st)" "honest W (c, st)" "select_next_work cur c = (Wait, c')"
  shows "\<exists>j<W. holds (fst (st j))"
proof -
  have "dict_wf (co_pending c)" using assms(1) by (simp add: sound_def pending_wf_def)
  from select_wait [OF this assms(3)] have "\<not> co_stopped c" "co_active c \<noteq> 0" by blast+
  moreover from this assms(2) have "co_failure c = []" by (auto simp: honest_def)
  ultimately have "card (holding W st) \<noteq> 0" using assms(1) by (simp add: sound_def counted_def)
  then have "holding W st \<noteq> {}" by auto
  then show ?thesis by (auto simp: holding_def)
qed

definition named_node :: "string \<Rightarrow> node" where
  "named_node fp = \<lparr>nd_fingerprint = fp, nd_kind = [], nd_ids = [], nd_actions = [], nd_blocked = [], nd_targets = []\<rparr>"

lemma holder_steps:
  assumes "i < W" "holds (fst (st i))"
  shows "\<exists>u. crawl_step W (c, st) u"
proof -
  obtain p e where p: "st i = (p, e)" by (cases "st i")
  show ?thesis
  proof (cases p)
    case (Busy w)
    then show ?thesis using crawl_step.cancelled [OF assms(1)] p by blast
  next
    case (Landed w ds)
    then show ?thesis using crawl_step.crash [OF assms(1)] p by blast
  next
    case (Discovering fp)
    then have "st i = (Discovering (nd_fingerprint (named_node fp)), e)" using p by (simp add: named_node_def)
    then show ?thesis using crawl_step.discovered [OF assms(1)] by blast
  qed (use assms p in auto)
qed

lemma progress:
  assumes "sound n W (c, st)" "honest W (c, st)" "i < W" "fst (st i) \<noteq> Retired"
  shows "\<exists>u. crawl_step W (c, st) u"
proof -
  obtain p e where p: "st i = (p, e)" by (cases "st i")
  show ?thesis
  proof (cases p)
    case (Idle cur)
    obtain sel c' where s: "select_next_work cur c = (sel, c')" by fastforce
    show ?thesis
    proof (cases sel)
      case Retire
      then show ?thesis using crawl_step.retire [OF assms(3)] p Idle s by blast
    next
      case Wait
      then show ?thesis using waiting_means_working [OF assms(1,2)] s holder_steps by blast
    next
      case (Work w)
      then show ?thesis using crawl_step.take [OF assms(3)] p Idle s by blast
    qed
  qed (use assms p holder_steps [OF assms(3)] in auto)
qed

section \<open>Every run ends\<close>

text \<open>A variant: five times the actions left, and how far each worker is through its reservation.\<close>

fun ahead :: "phase \<Rightarrow> nat" where
  "ahead (Busy w) = 4"
| "ahead (Landed w ds) = 3"
| "ahead (Discovering fp) = 2"
| "ahead (Idle cur) = 1"
| "ahead Retired = 0"

definition variant :: "nat \<Rightarrow> coordinator \<times> lanes \<Rightarrow> nat" where
  "variant W s = 5 * (co_max_steps (fst s) - co_steps (fst s)) + (\<Sum>i<W. ahead (fst (snd s i)))"

lemma ahead_update:
  fixes W :: nat
  shows "i < W \<Longrightarrow> (\<Sum>j<W. ahead (fst ((st(i := (p, e))) j))) + ahead (fst (st i)) =
     (\<Sum>j<W. ahead (fst (st j))) + ahead p"
proof -
  assume i: "i < W"
  have rest: "(\<Sum>j\<in>{..<W} - {i}. ahead (fst ((st(i := (p, e))) j))) = (\<Sum>j\<in>{..<W} - {i}. ahead (fst (st j)))"
    by (rule sum.cong) auto
  have "(\<Sum>j\<in>{..<W}. f j) = f i + (\<Sum>j\<in>{..<W} - {i}. f j)" for f :: "nat \<Rightarrow> nat"
    using i by (intro sum.remove) auto
  from this [of "\<lambda>j. ahead (fst (st j))"] this [of "\<lambda>j. ahead (fst ((st(i := (p, e))) j))"] rest
  show ?thesis by simp
qed

lemma variant_frame:
  assumes "i < W" "ahead p < ahead (fst (st i))" "co_steps c' = co_steps c" "co_max_steps c' = co_max_steps c"
  shows "variant W (c', st(i := (p, e))) < variant W (c, st)"
  using assms ahead_update [OF assms(1), of st p e] by (simp add: variant_def)

lemma variant_step:
  assumes "pending_wf s" "crawl_step W s t"
  shows "variant W t < variant W s"
  using assms(2)
proof cases
  case (take i st cur e c w c')
  from assms(1) take(1) have "dict_wf (co_pending c)" by (simp add: pending_wf_def)
  from select_work [OF this take(5)] obtain src replay a rest where
    c': "c' = taken src replay a rest c" "co_steps c < co_max_steps c" .
  then have "Suc (co_max_steps c' - co_steps c') = co_max_steps c - co_steps c" by (simp add: taken_def)
  then show ?thesis using ahead_update [OF take(3), of st "Busy w" e] take(4)
    by (simp add: variant_def take(1,2))
next
  case (retire i st cur e c c')
  from assms(1) retire(1) have "dict_wf (co_pending c)" by (simp add: pending_wf_def)
  from select_retire [OF this retire(5)] have "c' = c \<or> (\<exists>why. c' = finish why c)" by blast
  then show ?thesis unfolding retire(1,2)
    by (intro variant_frame [OF retire(3)]) (auto simp: retire(4) frame_simps)
next
  case (landed i st w e c ds)
  then show ?thesis unfolding landed(1,2)
    by (intro variant_frame [OF landed(3)]) (auto simp: op_defs)
next
  case (crash i st w ds e c arts)
  then show ?thesis unfolding crash(1,2)
    by (intro variant_frame [OF crash(3)]) (auto simp: op_defs frame_simps)
next
  case (new_screen i st w ds e dst c c')
  then show ?thesis unfolding new_screen(1,2) using record_edge_frame [OF new_screen(5)]
    by (intro variant_frame [OF new_screen(3)]) auto
next
  case (known_screen i st w ds e dst c c')
  then show ?thesis unfolding known_screen(1,2) using record_edge_frame [OF known_screen(5)]
    by (intro variant_frame [OF known_screen(3)]) auto
next
  case (discovered i st nd e c as)
  then show ?thesis unfolding discovered(1,2)
    by (intro variant_frame [OF discovered(3)]) (auto simp: finish_discovery_claims)
next
  case (handed_back i st w e c)
  then show ?thesis unfolding handed_back(1,2)
    by (intro variant_frame [OF handed_back(4)]) (auto simp: op_defs)
next
  case (dropped i st w e c)
  then show ?thesis unfolding dropped(1,2)
    by (intro variant_frame [OF dropped(4)]) (auto simp: op_defs)
next
  case (cancelled i st w e c)
  then show ?thesis unfolding cancelled(1,2)
    by (intro variant_frame [OF cancelled(3)]) (auto simp: op_defs)
next
  case (failed i st p e c err)
  then have "ahead Retired < ahead (fst (st i))" by (cases p) auto
  then show ?thesis unfolding failed(1,2)
    by (intro variant_frame [OF failed(3)]) (auto simp: op_defs frame_simps)
qed

lemma run_length:
  assumes "(crawl_step W ^^ k) s t" "sound n W s"
  shows "k + variant W t \<le> variant W s \<and> sound n W t \<and> reachable W s t"
  using assms(1)
proof (induction k arbitrary: t)
  case 0
  then show ?case using assms(2) by (auto intro: reachable.here)
next
  case (Suc k)
  then obtain u where u: "(crawl_step W ^^ k) s u" "crawl_step W u t" by auto
  note IH = Suc.IH [OF u(1)]
  then have "variant W t < variant W u" using variant_step [OF _ u(2)] by (simp add: sound_def)
  moreover have "sound n W t" using IH sound_step [OF _ u(2)] by blast
  moreover have "reachable W s t" using IH u(2) reachable.more by blast
  ultimately show ?case using IH by linarith
qed

lemma variant_start: "variant W (fresh_crawl nd as ms mt prune, lanes0 start) \<le> 5 * mt + W"
proof -
  have "co_steps (fresh_crawl nd as ms mt prune) = 0"
    using bootstrap_ok by (simp add: start_ok_def fresh_budget_def)
  moreover have "(\<Sum>i<W. ahead (fst (lanes0 start i))) = (\<Sum>i<W. 1)"
    by (rule sum.cong) (simp_all add: lanes0_def)
  ultimately show ?thesis by (simp add: variant_def bootstrap_fields)
qed

section \<open>Continuing a crawl\<close>

lemma dict_put_put: "dict_put k v (dict_put k w d) = dict_put k v d"
  by (induction k w d rule: dict_put.induct) auto

lemma dict_put_get: "dict_get d k = Some v \<Longrightarrow> dict_put k v d = d"
  by (induction k v d rule: dict_put.induct) (auto simp: dict_get_def split: if_splits)

text \<open>What the plan of a loaded map leaves to try on the screen that was reached again.\<close>

definition remaining_ops :: "(string, string list) dict \<Rightarrow> string \<Rightarrow> element list \<Rightarrow> action list" where
  "remaining_ops planned fp els =
     [a \<leftarrow> candidate_actions els. describe a \<in> set (map plan_key (get_list planned fp))]"

lemma reseed_map:
  "sm_plan (co_map (reseed digest replayed fp c)) = sm_plan (co_map c) \<and>
   sm_paths (co_map (reseed digest replayed fp c)) = sm_paths (co_map c) \<and>
   sm_nodes (co_map (reseed digest replayed fp c)) = sm_nodes (co_map c) \<and>
   co_discovering (reseed digest replayed fp c) = co_discovering c \<and>
   co_steps (reseed digest replayed fp c) = co_steps c \<and> co_active (reseed digest replayed fp c) = co_active c \<and>
   co_stopped (reseed digest replayed fp c) = co_stopped c \<and>
   co_failure (reseed digest replayed fp c) = co_failure c"
  by (auto simp: reseed_def Let_def record_alert_def split: option.split)

lemma reseed_keys:
  "(co_pending (reseed digest replayed fp c) = co_pending c \<and> co_path_to (reseed digest replayed fp c) = co_path_to c) \<or>
   (\<exists>ops path. co_pending (reseed digest replayed fp c) = dict_put fp ops (co_pending c) \<and>
      co_path_to (reseed digest replayed fp c) = dict_put fp path (co_path_to c))"
  by (auto simp: reseed_def Let_def record_alert_def split: option.split)

lemma reseed_seeds:
  assumes "replayed fp = Some (els, ds)" "fst (fingerprint digest els) = fp"
    "remaining_ops (sm_plan (co_map c)) fp els \<noteq> []"
  shows "co_pending (reseed digest replayed fp c) =
      dict_put fp (remaining_ops (sm_plan (co_map c)) fp els) (co_pending c) \<and>
    co_path_to (reseed digest replayed fp c) = dict_put fp (get_list (sm_paths (co_map c)) fp) (co_path_to c)"
proof -
  have "set (map plan_key (get_list (sm_plan (co_map c)) fp)) \<noteq> {}"
    using assms(3) by (auto simp: remaining_ops_def)
  with assms show ?thesis
    by (simp add: reseed_def Let_def record_alert_def remaining_ops_def)
qed

lemma fold_reseed_map:
  "sm_plan (co_map (fold (reseed digest replayed) fps c)) = sm_plan (co_map c) \<and>
   sm_paths (co_map (fold (reseed digest replayed) fps c)) = sm_paths (co_map c) \<and>
   sm_nodes (co_map (fold (reseed digest replayed) fps c)) = sm_nodes (co_map c) \<and>
   co_discovering (fold (reseed digest replayed) fps c) = co_discovering c \<and>
   co_steps (fold (reseed digest replayed) fps c) = co_steps c \<and>
   co_active (fold (reseed digest replayed) fps c) = co_active c \<and>
   co_stopped (fold (reseed digest replayed) fps c) = co_stopped c \<and>
   co_failure (fold (reseed digest replayed) fps c) = co_failure c"
  by (induction fps arbitrary: c) (simp_all add: reseed_map)

lemma fold_reseed_keys:
  assumes "dict_wf (co_pending c)" "fst ` set (co_pending c) \<subseteq> fst ` set (co_path_to c)"
    "fst ` set (co_path_to c) \<subseteq> K" "set fps \<subseteq> K"
  shows "dict_wf (co_pending (fold (reseed digest replayed) fps c)) \<and>
    fst ` set (co_pending (fold (reseed digest replayed) fps c)) \<subseteq>
      fst ` set (co_path_to (fold (reseed digest replayed) fps c)) \<and>
    fst ` set (co_path_to (fold (reseed digest replayed) fps c)) \<subseteq> K"
  using assms
proof (induction fps arbitrary: c)
  case (Cons fp fps)
  let ?c = "reseed digest replayed fp c"
  from reseed_keys [of digest replayed fp c] Cons.prems
  have "dict_wf (co_pending ?c) \<and> fst ` set (co_pending ?c) \<subseteq> fst ` set (co_path_to ?c) \<and>
      fst ` set (co_path_to ?c) \<subseteq> K"
    by (elim disjE exE conjE) (auto simp: dict_keys_put)
  with Cons.IH [of ?c] Cons.prems(4) show ?case by simp
qed simp

lemma fold_reseed_all:
  assumes "distinct fps" "set fps \<inter> fst ` set (co_pending c) = {}" "set fps \<inter> fst ` set (co_path_to c) = {}"
    "\<And>fp. fp \<in> set fps \<Longrightarrow> \<exists>ds. replayed fp = Some (els fp, ds)"
    "\<And>fp. fp \<in> set fps \<Longrightarrow> fst (fingerprint digest (els fp)) = fp"
    "\<And>fp. fp \<in> set fps \<Longrightarrow> remaining_ops (sm_plan (co_map c)) fp (els fp) \<noteq> []"
  shows "co_pending (fold (reseed digest replayed) fps c) =
      co_pending c @ map (\<lambda>fp. (fp, remaining_ops (sm_plan (co_map c)) fp (els fp))) fps \<and>
    co_path_to (fold (reseed digest replayed) fps c) =
      co_path_to c @ map (\<lambda>fp. (fp, get_list (sm_paths (co_map c)) fp)) fps"
  using assms
proof (induction fps arbitrary: c)
  case (Cons fp fps)
  let ?c = "reseed digest replayed fp c"
  obtain ds where "replayed fp = Some (els fp, ds)" using Cons.prems(4) by fastforce
  then have s: "co_pending ?c = co_pending c @ [(fp, remaining_ops (sm_plan (co_map c)) fp (els fp))]"
    "co_path_to ?c = co_path_to c @ [(fp, get_list (sm_paths (co_map c)) fp)]"
    using reseed_seeds Cons.prems(2,3) Cons.prems(5,6) [of fp] by (simp_all add: dict_put_absent dict_get_None_iff)
  have m: "sm_plan (co_map ?c) = sm_plan (co_map c)" "sm_paths (co_map ?c) = sm_paths (co_map c)"
    by (simp_all add: reseed_map)
  have "co_pending (fold (reseed digest replayed) fps ?c) =
      co_pending ?c @ map (\<lambda>fp. (fp, remaining_ops (sm_plan (co_map ?c)) fp (els fp))) fps \<and>
    co_path_to (fold (reseed digest replayed) fps ?c) =
      co_path_to ?c @ map (\<lambda>fp. (fp, get_list (sm_paths (co_map ?c)) fp)) fps"
    using Cons.prems by (intro Cons.IH) (auto simp: s m)
  then show ?case by (simp add: s m)
qed simp

lemma continued_ok:
  assumes "fst ` set (sm_plan sm) \<subseteq> fst ` set (sm_nodes sm)"
    "frontier (reconstruct_frontier digest replayed (coordinator0 sm ms mt prune)) \<noteq> []"
  shows "start_ok (reconstruct_frontier digest replayed (coordinator0 sm ms mt prune)) \<and>
    sm_stop_reason (co_map (reconstruct_frontier digest replayed (coordinator0 sm ms mt prune))) = []"
proof -
  let ?blank = "coordinator0 sm ms mt prune"
  let ?c = "fold (reseed digest replayed) (sort (map fst (sm_plan sm))) ?blank"
  let ?d = "emit (?c\<lparr>co_map := (co_map ?c)\<lparr>sm_stop_reason := []\<rparr>\<rparr>)"
  have m: "sm_nodes (co_map ?c) = sm_nodes sm" "co_discovering ?c = {}" "co_steps ?c = 0" "co_active ?c = 0"
    "\<not> co_stopped ?c" "co_failure ?c = []"
    by (simp_all add: fold_reseed_map coordinator0_def)
  have k: "dict_wf (co_pending ?c)" "fst ` set (co_pending ?c) \<subseteq> fst ` set (co_path_to ?c)"
    "fst ` set (co_path_to ?c) \<subseteq> fst ` set (sm_nodes sm)"
    using fold_reseed_keys [of ?blank "fst ` set (sm_nodes sm)" "sort (map fst (sm_plan sm))" digest replayed] assms(1)
    by (simp_all add: coordinator0_def)
  have "frontier ?c \<noteq> []"
    using assms(2) by (auto simp: reconstruct_frontier_def Let_def coordinator0_def frame_simps frontier_def
        split: if_splits)
  then have d: "reconstruct_frontier digest replayed ?blank = ?d"
    by (simp add: reconstruct_frontier_def Let_def coordinator0_def)
  have "frontier_known ?d"
    using k(2,3) by (auto simp: frontier_known_def frame_simps m dict_get_None_iff subset_eq)
  then show ?thesis unfolding d by (simp add: start_ok_def fresh_budget_def frame_simps m k(1))
qed

end
