(* ===== verification/Crawl_Results.thy ===== *)
theory Crawl_Results
  imports Crawl_Runs
begin

text \<open>
  What a crawl guarantees (\<open>src/bajutsu/crawl/core\<close>): every statement is about any interleaving of
  any number of workers from any of the three kinds of start.
\<close>

section \<open>The starts of a crawl\<close>

inductive crawl_start :: "coordinator \<Rightarrow> bool" where
  fresh: "crawl_start (fresh_crawl nd as ms mt prune)"
| resumed: "crawl_start (resume_bootstrap nd as path ops (coordinator0 sm ms mt prune))"
| continued: "fst ` set (sm_plan sm) \<subseteq> fst ` set (sm_nodes sm) \<Longrightarrow>
    frontier (reconstruct_frontier digest replayed (coordinator0 sm ms mt prune)) \<noteq> [] \<Longrightarrow>
    crawl_start (reconstruct_frontier digest replayed (coordinator0 sm ms mt prune))"

lemma crawl_start_ok: "crawl_start c \<Longrightarrow> start_ok c"
  by (induction rule: crawl_start.induct) (auto simp: bootstrap_ok resume_ok continued_ok)

lemma crawl_start_sound:
  "crawl_start c \<Longrightarrow> reachable W (c, lanes0 start) s \<Longrightarrow> sound (length (sm_nodes (co_map c))) W s"
  using sound_reachable [OF _ start_sound] crawl_start_ok by blast

lemma crawl_start_honest:
  "crawl_start c \<Longrightarrow> sm_stop_reason (co_map c) = [] \<Longrightarrow> reachable W (c, lanes0 start) s \<Longrightarrow> honest W s"
  using honest_reachable [OF _ start_sound start_honest] crawl_start_ok by blast

section \<open>Concrete crawls\<close>

definition tap :: "string \<Rightarrow> action" where "tap t = (action0 ''tap'')\<lparr>ac_target := t\<rparr>"

abbreviation two_taps :: coordinator where
  "two_taps \<equiv> fresh_crawl (named_node ''a'') [tap ''x'', tap ''y''] 2 9 False"

abbreviation one_tap :: coordinator where
  "one_tap \<equiv> fresh_crawl (named_node ''a'') [tap ''x''] 9 9 False"

abbreviation no_taps :: coordinator where
  "no_taps \<equiv> fresh_crawl (named_node ''a'') [] 2 9 False"

lemma nothing_to_do:
  "reachable 1 (no_taps, lanes0 (Some ''a'')) (finish ''completed'' no_taps, (lanes0 (Some ''a''))(0 := (Retired, 0)))"
proof -
  have "fst (select_next_work (Some ''a'') no_taps) = Retire" "\<not> co_stopped no_taps" by code_simp+
  moreover have "snd (select_next_work (Some ''a'') no_taps) = finish ''completed'' no_taps"
    by (simp add: select_next_work_def bootstrap_def coordinator0_def screen_map0_def publish_def claim_screen_def
        named_node_def emit_def get_list_def dict_get_def frontier_def Let_def)
  ultimately have "select_next_work (Some ''a'') no_taps = (Retire, finish ''completed'' no_taps)"
    by (simp add: prod_eq_iff)
  moreover have "lanes0 (Some ''a'') 0 = (Idle (Some ''a''), 0)" by (simp add: lanes0_def)
  ultimately have "crawl_step 1 (no_taps, lanes0 (Some ''a''))
      (finish ''completed'' no_taps, (lanes0 (Some ''a''))(0 := (Retired, 0)))"
    by (intro crawl_step.retire) auto
  then show ?thesis using reachable.here reachable.more by blast
qed

section \<open>Properties\<close>





text \<open>C20: A screen is discovered once: no two workers ever discover the same screen, a screen being
  discovered is in no published node, and a published node, a known path and a claim are never
  changed again.\<close>
theorem screens_are_discovered_once:
  assumes "crawl_start c" "reachable W (c, lanes0 start) (d, st)" "reachable W (d, st) (d', st')"
  shows "(\<forall>i<W. \<forall>j<W. \<forall>fp. fst (st i) = Discovering fp \<longrightarrow> fst (st j) = Discovering fp \<longrightarrow> i = j) \<and>
    (\<forall>i<W. \<forall>fp. fst (st i) = Discovering fp \<longrightarrow> dict_get (sm_nodes (co_map d)) fp = None) \<and>
    (\<forall>fp nd. dict_get (sm_nodes (co_map d)) fp = Some nd \<longrightarrow> dict_get (sm_nodes (co_map d')) fp = Some nd) \<and>
    (\<forall>fp path. dict_get (co_path_to d) fp = Some path \<longrightarrow> dict_get (co_path_to d') fp = Some path) \<and>
    (\<forall>key own. dict_get (co_claimed d) key = Some own \<longrightarrow> dict_get (co_claimed d') key = Some own)"
proof -
  have s: "sound (length (sm_nodes (co_map c))) W (d, st)" using crawl_start_sound assms(1,2) by blast
  then have "one_discoverer W (d, st)" "frontier_known d" by (simp_all add: sound_def known_def)
  moreover have "permanent (d, st) (d', st')" using permanent_reachable [OF assms(3) s] .
  ultimately show ?thesis
    unfolding one_discoverer_def frontier_known_def permanent_def kept_map_def fst_conv snd_conv by blast
qed

theorem screens_are_discovered_once_witness:
  "dict_get (sm_nodes (co_map (finish ''completed'' no_taps))) ''a'' = Some (named_node ''a'')"
proof -
  have "dict_get (sm_nodes (co_map no_taps)) ''a'' = Some (named_node ''a'')"
    by (simp add: bootstrap_def coordinator0_def screen_map0_def publish_def claim_screen_def named_node_def
        emit_def get_list_def dict_get_def Let_def)
  then show ?thesis
    using screens_are_discovered_once [OF crawl_start.fresh reachable.here nothing_to_do] by blast
qed

text \<open>A crawl performs at most \<open>max_steps\<close> actions, and maps at most
  \<open>max_screens + W - 1\<close> screens (or the number it started with): with one worker \<open>max_screens\<close> is
  exact, with more the reservations in flight may each add one.\<close>
theorem crawl_stays_within_budget:
  assumes "crawl_start c" "reachable W (c, lanes0 start) (d, st)"
  shows "co_steps d \<le> co_max_steps c \<and>
    length (sm_nodes (co_map d)) \<le> max (length (sm_nodes (co_map c))) (co_max_screens c + W - 1)"
proof -
  have "within_budget (length (sm_nodes (co_map c))) W (d, st)"
    using crawl_start_sound [OF assms] by (simp add: sound_def)
  moreover have "permanent (c, lanes0 start) (d, st)"
    using permanent_reachable [OF assms(2) start_sound [OF crawl_start_ok [OF assms(1)]]] .
  ultimately show ?thesis by (simp add: within_budget_def permanent_def)
qed

theorem crawl_stays_within_budget_witness:
  "co_steps (finish ''completed'' no_taps) \<le> 9 \<and> length (sm_nodes (co_map (finish ''completed'' no_taps))) \<le> 2"
  using crawl_stays_within_budget [OF crawl_start.fresh nothing_to_do] by (simp add: bootstrap_fields)

lemma select_pair:
  "fst (select_next_work cur c) = sel \<Longrightarrow> select_next_work cur c = (sel, snd (select_next_work cur c))"
  by (cases "select_next_work cur c") simp

lemma edge_pair:
  "fst (record_edge src a dst ds path c) \<Longrightarrow>
   record_edge src a dst ds path c = (True, snd (record_edge src a dst ds path c))"
  by (cases "record_edge src a dst ds path c") simp

text \<open>The screen budget is not exact in a pool: two workers crawling with \<open>max_screens = 2\<close> can map
  three screens, because the budget is checked when an action is taken and not when its destination is
  published.\<close>
theorem pool_exceeds_max_screens:
  "\<exists>d st. reachable 2 (two_taps, lanes0 (Some ''a'')) (d, st) \<and>
     co_max_screens d = 2 \<and> length (sm_nodes (co_map d)) = 3"
proof -
  let ?w = "\<lparr>wk_src = ''a'', wk_action = tap ''x'', wk_path = [], wk_replay = False\<rparr>"
  let ?v = "\<lparr>wk_src = ''a'', wk_action = tap ''y'', wk_path = [], wk_replay = True\<rparr>"
  let ?p = "snd (select_next_work (Some ''a'') two_taps)"
  let ?q = "snd (select_next_work None ?p)"
  let ?r = "snd (record_edge ''a'' (tap ''x'') ''b'' [] [tap ''x''] ?q)"
  let ?t = "snd (record_edge ''a'' (tap ''y'') ''c'' [] [tap ''y''] ?r)"
  let ?u = "finish_discovery (named_node ''b'') [] ?t"
  let ?z = "finish_discovery (named_node ''c'') [] ?u"
  define s0 where "s0 = lanes0 (Some ''a'')"
  define s1 where "s1 = s0(0 := (Busy ?w, 0))"
  define s2 where "s2 = s1(1 := (Busy ?v, 0))"
  define s3 where "s3 = s2(0 := (Landed ?w [], 0))"
  define s4 where "s4 = s3(1 := (Landed ?v [], 0))"
  define s5 where "s5 = s4(0 := (Discovering ''b'', 0))"
  define s6 where "s6 = s5(1 := (Discovering ''c'', 0))"
  define s7 where "s7 = s6(0 := (Idle (Some ''b''), 0))"
  define s8 where "s8 = s7(1 := (Idle (Some ''c''), 0))"
  note lanes = s0_def s1_def s2_def s3_def s4_def s5_def s6_def lanes0_def
  have "fst (select_next_work (Some ''a'') two_taps) = Work ?w" by code_simp
  from select_pair [OF this] have "crawl_step 2 (two_taps, s0) (?p, s1)"
    unfolding s1_def by (intro crawl_step.take) (auto simp: s0_def lanes0_def)
  then have r1: "reachable 2 (two_taps, s0) (?p, s1)" using reachable.here reachable.more by blast
  have "fst (select_next_work None ?p) = Work ?v" by code_simp
  from select_pair [OF this] have "crawl_step 2 (?p, s1) (?q, s2)"
    unfolding s2_def by (intro crawl_step.take) (auto simp: lanes)
  then have r2: "reachable 2 (two_taps, s0) (?q, s2)" using r1 reachable.more by blast
  have "crawl_step 2 (?q, s2) (?q, s3)"
    using crawl_step.landed [of 0 2 s2 ?w 0 ?q "[]"] by (simp add: lanes)
  then have r3: "reachable 2 (two_taps, s0) (?q, s3)" using r2 reachable.more by blast
  have "crawl_step 2 (?q, s3) (?q, s4)"
    using crawl_step.landed [of 1 2 s3 ?v 0 ?q "[]"] by (simp add: lanes)
  then have r4: "reachable 2 (two_taps, s0) (?q, s4)" using r3 reachable.more by blast
  have "fst (record_edge ''a'' (tap ''x'') ''b'' [] [tap ''x''] ?q)" by code_simp
  from edge_pair [OF this] have "crawl_step 2 (?q, s4) (?r, s5)"
    unfolding s5_def by (intro crawl_step.new_screen [where w = ?w]) (auto simp: lanes)
  then have r5: "reachable 2 (two_taps, s0) (?r, s5)" using r4 reachable.more by blast
  have "fst (record_edge ''a'' (tap ''y'') ''c'' [] [tap ''y''] ?r)" by code_simp
  from edge_pair [OF this] have "crawl_step 2 (?r, s5) (?t, s6)"
    unfolding s6_def by (intro crawl_step.new_screen [where w = ?v]) (auto simp: lanes)
  then have r6: "reachable 2 (two_taps, s0) (?t, s6)" using r5 reachable.more by blast
  have "crawl_step 2 (?t, s6) (?u, s7)"
    using crawl_step.discovered [of 0 2 s6 "named_node ''b''" 0 ?t "[]"] by (simp add: lanes s7_def named_node_def)
  then have r7: "reachable 2 (two_taps, s0) (?u, s7)" using r6 reachable.more by blast
  have "crawl_step 2 (?u, s7) (?z, s8)"
    using crawl_step.discovered [of 1 2 s7 "named_node ''c''" 0 ?u "[]"]
    by (simp add: lanes s7_def s8_def named_node_def)
  then have "reachable 2 (two_taps, s0) (?z, s8)" using r7 reachable.more by blast
  moreover have "co_max_screens ?z = 2" "length (sm_nodes (co_map ?z)) = 3" by code_simp+
  ultimately show ?thesis unfolding s0_def by blast
qed

text \<open>C21: With global controls pruned, an operation is explored from one screen only: two actions with
  the same replay key that are taken at any two moments of a fresh crawl are taken on the same screen.\<close>
theorem operations_are_explored_from_one_screen:
  assumes "reachable W (fresh_crawl nd as ms mt True, lanes0 start) (d, st)" "reachable W (d, st) (d', st')"
    "i < W" "work_of (fst (st i)) = Some w" "j < W" "work_of (fst (st' j)) = Some w'"
    "action_key (wk_action w) = action_key (wk_action w')"
  shows "wk_src w = wk_src w'"
proof -
  let ?s = "(fresh_crawl nd as ms mt True, lanes0 start)"
  have s: "sound 1 W ?s" using start_sound [OF bootstrap_ok, of nd as ms mt True W start]
    by (simp only: bootstrap_fields)
  have s1: "sound 1 W (d, st)" using sound_reachable [OF assms(1) s] .
  have k: "claims W (d, st)" using claims_reachable [OF assms(1) s bootstrap_claims] .
  have k': "claims W (d', st')" using claims_reachable [OF assms(2) s1 k] .
  have p: "co_prune_global d" using permanent_reachable [OF assms(1) s] by (simp add: permanent_def bootstrap_fields)
  have p': "permanent (d, st) (d', st')" using permanent_reachable [OF assms(2) s1] .
  have "dict_get (co_claimed d) (action_key (wk_action w)) = Some (wk_src w)"
    using k p assms(3,4) by (simp add: claims_def)
  then have "dict_get (co_claimed d') (action_key (wk_action w)) = Some (wk_src w)"
    using p' by (simp add: permanent_def kept_map_def)
  moreover have "dict_get (co_claimed d') (action_key (wk_action w')) = Some (wk_src w')"
    using k' p p' assms(5,6) by (simp add: claims_def permanent_def)
  ultimately show ?thesis using assms(7) by simp
qed

lemma pruned_crawl_takes:
  "reachable 1 (fresh_crawl (named_node ''a'') [tap ''x''] 2 9 True, lanes0 (Some ''a''))
     (snd (select_next_work (Some ''a'') (fresh_crawl (named_node ''a'') [tap ''x''] 2 9 True)),
      (lanes0 (Some ''a''))(0 := (Busy \<lparr>wk_src = ''a'', wk_action = tap ''x'', wk_path = [], wk_replay = False\<rparr>, 0)))"
proof -
  let ?c = "fresh_crawl (named_node ''a'') [tap ''x''] 2 9 True"
  have "fst (select_next_work (Some ''a'') ?c) =
      Work \<lparr>wk_src = ''a'', wk_action = tap ''x'', wk_path = [], wk_replay = False\<rparr>" by code_simp
  from crawl_step.take [of 0 1 "lanes0 (Some ''a'')", OF _ _ select_pair [OF this]]
  have "crawl_step 1 (?c, lanes0 (Some ''a'')) (snd (select_next_work (Some ''a'') ?c),
      (lanes0 (Some ''a''))(0 := (Busy \<lparr>wk_src = ''a'', wk_action = tap ''x'', wk_path = [], wk_replay = False\<rparr>, 0)))"
    by (simp add: lanes0_def)
  then show ?thesis using reachable.here reachable.more by blast
qed

theorem operations_are_explored_from_one_screen_witness:
  "wk_src \<lparr>wk_src = ''a'', wk_action = tap ''x'', wk_path = [], wk_replay = False\<rparr> = ''a''"
  using operations_are_explored_from_one_screen [OF pruned_crawl_takes reachable.here, of 0 _ 0] by simp

text \<open>Handing an action back undoes its reservation: the frontier is again what it was, in the same
  order, with only the step spent.\<close>
theorem hand_back_undoes_the_reservation:
  assumes "dict_wf (co_pending c)" "select_next_work cur c = (Work w, c')"
  shows "give_back (wk_src w) (wk_action w) c' = c\<lparr>co_steps := co_steps c + 1\<rparr>"
proof -
  from select_work [OF assms] obtain src replay a rest
    where w: "w = reserved src replay a c" "c' = taken src replay a rest c" "get_list (co_pending c) src = a # rest" .
  then have "dict_get (co_pending c) src = Some (a # rest)"
    by (auto simp: get_list_def split: option.splits)
  then have "dict_put src (a # rest) (dict_put src rest (co_pending c)) = co_pending c"
    by (simp add: dict_put_put dict_put_get)
  then show ?thesis by (simp add: w(1,2) give_back_def release_def taken_def reserved_def get_list_put)
qed

theorem hand_back_undoes_the_reservation_witness:
  "give_back ''a'' (tap ''x'') (snd (select_next_work (Some ''a'') two_taps)) = two_taps\<lparr>co_steps := co_steps two_taps + 1\<rparr>"
proof -
  have "fst (select_next_work (Some ''a'') two_taps) =
      Work \<lparr>wk_src = ''a'', wk_action = tap ''x'', wk_path = [], wk_replay = False\<rparr>" by code_simp
  from hand_back_undoes_the_reservation [OF _ select_pair [OF this]] show ?thesis
    using bootstrap_ok by (simp add: start_ok_def)
qed

definition fault_lane :: "nat \<Rightarrow> phase \<times> nat" where
  "fault_lane e = (if e < max_worker_device_errors then Idle None else Retired, e)"

lemma one_tap_taken:
  assumes "n < 9"
  shows "\<exists>w c'. select_next_work cur (one_tap\<lparr>co_steps := n\<rparr>) = (Work w, c')"
proof -
  have p: "co_pending one_tap = [(''a'', [tap ''x''])]" "\<not> co_stopped one_tap"
    "length (sm_nodes (co_map one_tap)) = 1" "co_max_screens one_tap = 9" "co_max_steps one_tap = 9"
    by (simp_all add: bootstrap_def coordinator0_def screen_map0_def publish_def claim_screen_def named_node_def
        emit_def get_list_def dict_get_def Let_def)
  have "get_list (co_pending (one_tap\<lparr>co_steps := n\<rparr>)) ''a'' \<noteq> []"
    "frontier (one_tap\<lparr>co_steps := n\<rparr>) = [''a'']"
    "cheapest (one_tap\<lparr>co_steps := n\<rparr>) [''a''] = ''a''"
    by (simp_all add: p frontier_def get_list_def dict_get_def cheapest_def)
  then show ?thesis using assms p
    by (cases cur) (auto simp: select_next_work_def reserve_def neq_Nil_conv)
qed

lemma one_tap_fault:
  assumes "reachable 2 s (one_tap\<lparr>co_steps := n\<rparr>, st)" "i < 2" "st i = (Idle cur, e)" "n < 9"
  shows "reachable 2 s (one_tap\<lparr>co_steps := Suc n\<rparr>, st(i := fault_lane (Suc e)))"
proof -
  let ?c = "one_tap\<lparr>co_steps := n\<rparr>"
  obtain w c' where s: "select_next_work cur ?c = (Work w, c')" using one_tap_taken [OF assms(4)] by blast
  have "dict_wf (co_pending ?c)" using bootstrap_ok by (simp add: start_ok_def)
  from select_work [OF this s] obtain src replay a rest
    where w: "w = reserved src replay a ?c" "c' = taken src replay a rest ?c" "get_list (co_pending ?c) src = a # rest" .
  then have "dict_get (co_pending ?c) src = Some (a # rest)" by (auto simp: get_list_def split: option.splits)
  then have "dict_put src (a # rest) (dict_put src rest (co_pending ?c)) = co_pending ?c"
    by (simp only: dict_put_put dict_put_get)
  then have b: "give_back (wk_src w) (wk_action w) c' = one_tap\<lparr>co_steps := Suc n\<rparr>"
    by (simp add: w(1,2) give_back_def release_def taken_def reserved_def get_list_put)
  have "crawl_step 2 (?c, st) (c', st(i := (Busy w, e)))" using crawl_step.take [of i 2 st cur e, OF assms(2,3) s] .
  moreover have "crawl_step 2 (c', st(i := (Busy w, e))) (one_tap\<lparr>co_steps := Suc n\<rparr>, st(i := fault_lane (Suc e)))"
    using crawl_step.handed_back [of 2 i "st(i := (Busy w, e))" w e c'] assms(2)
    by (simp add: b fault_lane_def)
  ultimately show ?thesis using assms(1) reachable.more by blast
qed

lemma same_steps: "c\<lparr>co_steps := co_steps c\<rparr> = (c :: coordinator)"
  by (cases c) simp

lemma one_tap_faults:
  "\<exists>st. reachable 2 (one_tap, lanes0 (Some ''a'')) (one_tap\<lparr>co_steps := 6\<rparr>, st) \<and>
     st 0 = fault_lane 3 \<and> st 1 = fault_lane 3"
proof -
  let ?s = "(one_tap, lanes0 (Some ''a''))" and ?l = "lanes0 (Some ''a'')"
  have "co_steps one_tap = 0" using bootstrap_ok by (simp add: start_ok_def fresh_budget_def)
  then have "one_tap\<lparr>co_steps := 0\<rparr> = one_tap" using same_steps [of one_tap] by (simp only:)
  then have "reachable 2 ?s (one_tap\<lparr>co_steps := 0\<rparr>, ?l)" by (simp only: reachable.here)
  note r1 = one_tap_fault [OF this, of 0 "Some ''a''" 0]
  note r2 = one_tap_fault [OF r1, of 0 None 1]
  note r3 = one_tap_fault [OF r2, of 0 None 2]
  note r4 = one_tap_fault [OF r3, of 1 None 0]
  note r5 = one_tap_fault [OF r4, of 1 None 1]
  note r6 = one_tap_fault [OF r5, of 1 None 2]
  have "reachable 2 ?s (one_tap\<lparr>co_steps := Suc (Suc (Suc (Suc (Suc (Suc 0)))))\<rparr>,
      ?l(0 := fault_lane (Suc 0), 0 := fault_lane (Suc 1), 0 := fault_lane (Suc 2),
         1 := fault_lane (Suc 0), 1 := fault_lane (Suc 1), 1 := fault_lane (Suc 2)))"
    by (rule r6) (simp_all add: lanes0_def fault_lane_def max_worker_device_errors_def)
  moreover have "Suc (Suc (Suc (Suc (Suc (Suc 0))))) = 6" "Suc 2 = 3" by simp_all
  ultimately have "reachable 2 ?s (one_tap\<lparr>co_steps := 6\<rparr>,
      ?l(0 := fault_lane (Suc 0), 0 := fault_lane (Suc 1), 0 := fault_lane 3,
         1 := fault_lane (Suc 0), 1 := fault_lane (Suc 1), 1 := fault_lane 3))" by (simp only:)
  then show ?thesis by fastforce
qed

text \<open>When every device of a pool has been retired for its faults, the crawl reports
  \<open>max_steps\<close> although that budget is not used up: with two workers and nine steps the returned map
  gives \<open>max_steps\<close> as the reason after six steps, with an action still untried.\<close>
theorem retired_pool_reports_max_steps:
  "\<exists>d st sm. reachable 2 (one_tap, lanes0 (Some ''a'')) (d, st) \<and> (\<exists>e. st 0 = (Retired, e)) \<and>
     (\<exists>e. st 1 = (Retired, e)) \<and> co_steps d = 6 \<and> co_max_steps d = 9 \<and> frontier d \<noteq> [] \<and>
     crawl_result d = Inr sm \<and> sm_stop_reason sm = ''max_steps''"
proof -
  let ?d = "one_tap\<lparr>co_steps := 6\<rparr>"
  obtain st where st: "reachable 2 (one_tap, lanes0 (Some ''a'')) (?d, st)"
    "st 0 = fault_lane 3" "st 1 = fault_lane 3"
    using one_tap_faults by blast
  have "fault_lane 3 = (Retired, 3)" by (simp add: fault_lane_def max_worker_device_errors_def)
  moreover have "co_max_steps ?d = 9" "frontier ?d = [''a'']" by code_simp+
  moreover have "map_sum (\<lambda>e. e) sm_stop_reason (crawl_result ?d) = Inr ''max_steps''" by code_simp
  ultimately show ?thesis using st
    by (intro exI [of _ ?d] exI [of _ st], cases "crawl_result ?d") auto
qed

lemma reason_kept_step:
  "crawl_step W s t \<Longrightarrow> sm_stop_reason (co_map (fst s)) = why \<Longrightarrow> why \<noteq> [] \<Longrightarrow> dict_wf (co_pending (fst s)) \<Longrightarrow>
   sm_stop_reason (co_map (fst t)) = why"
proof (induction rule: crawl_step.induct)
  case (take i st cur e c w c')
  from take(6) have "dict_wf (co_pending c)" by simp
  from select_work [OF this take(3)] obtain src replay a rest where "c' = taken src replay a rest c" .
  with take show ?case by (simp add: taken_def)
next
  case (retire i st cur e c c')
  from select_retire [OF _ retire(3)] retire(6) have "c' = c \<or> (\<exists>why. c' = finish why c)" by auto
  with retire show ?case by (auto simp: frame_simps)
next
  case (new_screen i st w ds e dst c c')
  then show ?case using record_edge_frame [OF new_screen(3)] by simp
next
  case (known_screen i st w ds e dst c c')
  then show ?case using record_edge_frame [OF known_screen(3)] by simp
qed (simp_all add: op_defs frame_simps)

lemma reason_kept:
  "reachable W s t \<Longrightarrow> sound n W s \<Longrightarrow> sm_stop_reason (co_map (fst s)) = why \<Longrightarrow> why \<noteq> [] \<Longrightarrow>
   sm_stop_reason (co_map (fst t)) = why"
proof (induction rule: reachable.induct)
  case (more t u)
  from sound_reachable [OF more(1) more(4)] have "dict_wf (co_pending (fst t))"
    by (simp add: sound_def pending_wf_def)
  with more show ?case using reason_kept_step by blast
qed

text \<open>A single-branch resume forgets what the loaded map had left to explore: once the branch is
  seeded the recorded plan holds that branch only, so the untried operations of every other screen
  are gone; and the stop reason of the earlier run stays in the map whatever the resumed walk does.\<close>
theorem resume_forgets_the_frontier:
  assumes "ops \<noteq> []" "c = resume_bootstrap nd as path ops (coordinator0 sm ms mt prune)"
    "sm_stop_reason sm \<noteq> []" "reachable W (c, lanes0 start) (d, st)"
  shows "sm_plan (co_map c) = [(nd_fingerprint nd, map describe ops)] \<and>
    (\<forall>fp. fp \<noteq> nd_fingerprint nd \<longrightarrow> get_list (sm_plan (co_map c)) fp = []) \<and>
    sm_stop_reason (co_map d) = sm_stop_reason sm"
proof -
  have r: "sm_stop_reason (co_map c) = sm_stop_reason sm"
    unfolding assms(2) by (simp add: resume_bootstrap_def Let_def frame_simps publish_fields coordinator0_def)
  have plan: "sm_plan (co_map c) = [(nd_fingerprint nd, map describe ops)]"
    unfolding assms(2) using assms(1)
    by (simp add: resume_bootstrap_def Let_def emit_def publish_fields coordinator0_def)
  have "sound (length (sm_nodes (co_map c))) W (c, lanes0 start)"
    using start_sound resume_ok unfolding assms(2) by blast
  from reason_kept [OF assms(4) this] r assms(3) have "sm_stop_reason (co_map d) = sm_stop_reason sm" by simp
  with plan show ?thesis by (simp add: get_list_def)
qed

definition stopped_map :: screen_map where
  "stopped_map = screen_map0\<lparr>sm_plan := [(''home'', [''tap buy''])], sm_stop_reason := ''max_steps''\<rparr>"

theorem resume_forgets_the_frontier_witness:
  "get_list (sm_plan stopped_map) ''home'' = [''tap buy''] \<and>
   get_list (sm_plan (co_map (resume_bootstrap (named_node ''b'') [] [] [tap ''x''] (coordinator0 stopped_map 9 9 False)))) ''home'' = []"
  using resume_forgets_the_frontier [OF _ refl _ reachable.here, of "[tap ''x'']" stopped_map "named_node ''b''" "[]" "[]" 9 9 False]
  by (simp add: stopped_map_def screen_map0_def get_list_def dict_get_def named_node_def)

lemma filter_tail:
  assumes "distinct (map f xs)"
  shows "[x \<leftarrow> xs. f x \<in> set (map f (drop n xs))] = drop n xs"
proof -
  have xs: "xs = take n xs @ drop n xs" by simp
  have "distinct (map f (take n xs) @ map f (drop n xs))" using assms by (metis append_take_drop_id map_append)
  then have "[x \<leftarrow> take n xs. f x \<in> set (map f (drop n xs))] = []"
    by (auto simp: filter_empty_conv)
  moreover have "[x \<leftarrow> drop n xs. f x \<in> set (map f (drop n xs))] = drop n xs"
    by (auto simp: filter_id_conv)
  ultimately show ?thesis using xs by (metis append_Nil filter_append)
qed

text \<open>C22: A continuation restores the frontier an earlier run left: when every planned screen is
  reached again and its plan is the untried tail of the actions offered there, exactly these actions
  are pending again, with the recorded paths, and the map records the same plan under no stop reason.\<close>
theorem continuation_restores_the_frontier:
  assumes "dict_wf (sm_plan sm)" "sm_plan sm \<noteq> []"
    "\<And>fp ops. (fp, ops) \<in> set (sm_plan sm) \<Longrightarrow> ops \<noteq> [] \<and> ops = map describe (drop (tried fp) (candidate_actions (screen fp)))
       \<and> (\<forall>e\<in>set ops. plan_key e = e) \<and> distinct (map describe (candidate_actions (screen fp)))
       \<and> (\<exists>ds. replayed fp = Some (screen fp, ds)) \<and> fst (fingerprint digest (screen fp)) = fp"
    "c = reconstruct_frontier digest replayed (coordinator0 sm ms mt prune)"
  shows "co_pending c = map (\<lambda>fp. (fp, drop (tried fp) (candidate_actions (screen fp)))) (sort (map fst (sm_plan sm))) \<and>
    co_path_to c = map (\<lambda>fp. (fp, get_list (sm_paths sm) fp)) (sort (map fst (sm_plan sm))) \<and>
    sm_plan (co_map c) = map (\<lambda>fp. (fp, get_list (sm_plan sm) fp)) (sort (map fst (sm_plan sm))) \<and>
    sm_stop_reason (co_map c) = []"
proof -
  let ?blank = "coordinator0 sm ms mt prune" and ?fps = "sort (map fst (sm_plan sm))"
  let ?c = "fold (reseed digest replayed) ?fps ?blank"
  have get: "get_list (sm_plan sm) fp = map describe (drop (tried fp) (candidate_actions (screen fp))) \<and>
      get_list (sm_plan sm) fp \<noteq> [] \<and> remaining_ops (sm_plan sm) fp (screen fp) = drop (tried fp) (candidate_actions (screen fp))"
    if "fp \<in> set ?fps" for fp
  proof -
    from that have "fp \<in> fst ` set (sm_plan sm)" by simp
    then obtain ops where o: "(fp, ops) \<in> set (sm_plan sm)" by (metis imageE prod.collapse)
    note h = assms(3) [OF o]
    have g: "get_list (sm_plan sm) fp = ops"
      using o dict_get_iff [OF assms(1), of fp ops] by (simp add: get_list_def)
    have k: "map plan_key ops = ops" using h by (simp add: map_idI)
    have "remaining_ops (sm_plan sm) fp (screen fp) = drop (tried fp) (candidate_actions (screen fp))"
      unfolding remaining_ops_def g k using h filter_tail [of describe "candidate_actions (screen fp)" "tried fp"] by simp
    moreover have "get_list (sm_plan sm) fp \<noteq> []" unfolding g using h by blast
    moreover have "get_list (sm_plan sm) fp = map describe (drop (tried fp) (candidate_actions (screen fp)))"
      unfolding g using h by blast
    ultimately show ?thesis by blast
  qed
  have "co_pending ?c = co_pending ?blank @ map (\<lambda>fp. (fp, remaining_ops (sm_plan (co_map ?blank)) fp (screen fp))) ?fps \<and>
    co_path_to ?c = co_path_to ?blank @ map (\<lambda>fp. (fp, get_list (sm_paths (co_map ?blank)) fp)) ?fps"
  proof (rule fold_reseed_all)
    show "distinct ?fps" using assms(1) by (simp add: dict_wf_def)
    fix fp assume fp: "fp \<in> set ?fps"
    show "remaining_ops (sm_plan (co_map ?blank)) fp (screen fp) \<noteq> []"
      using get [OF fp] by (auto simp: coordinator0_def simp del: drop_eq_Nil)
    from fp show "\<exists>ds. replayed fp = Some (screen fp, ds)" "fst (fingerprint digest (screen fp)) = fp"
      using assms(3) by auto
  qed (simp_all add: coordinator0_def)
  then have seeded: "co_pending ?c = map (\<lambda>fp. (fp, drop (tried fp) (candidate_actions (screen fp)))) ?fps"
    "co_path_to ?c = map (\<lambda>fp. (fp, get_list (sm_paths sm) fp)) ?fps"
    using get by (simp_all add: coordinator0_def)
  have tails: "drop (tried fp) (candidate_actions (screen fp)) \<noteq> []" if "fp \<in> set ?fps" for fp
    using get [OF that] by (metis list.map_disc_iff)
  have "set ?fps \<noteq> {}" using assms(2) by simp
  then have "frontier ?c \<noteq> []"
    unfolding frontier_Nil seeded using tails by fastforce
  then have c: "c = emit (?c\<lparr>co_map := (co_map ?c)\<lparr>sm_stop_reason := []\<rparr>\<rparr>)"
    unfolding assms(4) by (simp add: reconstruct_frontier_def Let_def coordinator0_def)
  have "[p \<leftarrow> co_pending ?c. snd p \<noteq> []] = co_pending ?c"
    unfolding seeded using tails by (auto simp: filter_id_conv)
  then have "sm_plan (co_map c) = map (\<lambda>fp. (fp, get_list (sm_plan sm) fp)) ?fps"
    unfolding c emit_def using get by (simp add: seeded)
  then show ?thesis using seeded by (simp add: c frame_simps)
qed

definition shop_screen :: "element list" where
  "shop_screen = [sample_element 1 ''a'' (0, 0, 9, 9), sample_element 2 ''b'' (0, 9, 9, 9)]"

definition shop_map :: screen_map where
  "shop_map = screen_map0\<lparr>sm_plan := [(''ab'', [''tap b''])], sm_stop_reason := ''max_steps''\<rparr>"

lemma shop_facts:
  "drop 1 (candidate_actions shop_screen) = [tap ''b'']"
  "map describe (candidate_actions shop_screen) = [''tap a'', ''tap b'']"
  "fst (fingerprint concat shop_screen) = ''ab''" "plan_key ''tap b'' = ''tap b''"
  by code_simp+

theorem continuation_restores_the_frontier_witness:
  "co_pending (reconstruct_frontier concat (\<lambda>_. Some (shop_screen, [])) (coordinator0 shop_map 9 9 False)) =
     [(''ab'', [tap ''b''])]"
proof -
  have p: "sm_plan shop_map = [(''ab'', [''tap b''])]" by (simp add: shop_map_def)
  have t: "map describe (drop 1 (candidate_actions shop_screen)) = [''tap b'']"
    by (simp only: drop_map [symmetric] shop_facts(2)) simp
  have "co_pending (reconstruct_frontier concat (\<lambda>_. Some (shop_screen, [])) (coordinator0 shop_map 9 9 False)) =
     map (\<lambda>fp. (fp, drop 1 (candidate_actions shop_screen))) (sort (map fst (sm_plan shop_map)))"
    by (rule continuation_restores_the_frontier [where tried = "\<lambda>_. 1" and screen = "\<lambda>_. shop_screen"
        and c = "reconstruct_frontier concat (\<lambda>_. Some (shop_screen, [])) (coordinator0 shop_map 9 9 False)",
        THEN conjunct1]) (use t in \<open>simp_all add: p shop_facts dict_wf_def\<close>)
  then show ?thesis unfolding shop_facts(1) by (simp add: p)
qed

end
