(* ===== verification/Recovery.thy ===== *)
theory Recovery
  imports Prelude
begin

text \<open>
  Backend-crash recovery: the per-scenario retry budget and the run-wide one
  (\<open>src/bajutsu/common/runner/recovery\<close>), and the attempt loop that spends them
  (\<open>src/bajutsu/common/runner/pipeline.py\<close>, from the checks before a scenario is leased to its
  failure message).  What each attempt meets (leases, crashes, the clock, a cancellation) is read from
  its environment; the values of the environment variables are the parsed numbers.
\<close>

section \<open>The budgets\<close>

record crash_budget =
  cb_retries :: nat
  cb_budget :: "real option"
  cb_deadline :: "real option"

record retry_decision =
  rd_will_retry :: bool
  rd_budget_spent :: bool

definition crash_budget0 :: "nat \<Rightarrow> real option \<Rightarrow> crash_budget" where
  "crash_budget0 retries budget = \<lparr>cb_retries = retries, cb_budget = budget, cb_deadline = None\<rparr>"

definition total_attempts :: "crash_budget \<Rightarrow> nat" where
  "total_attempts b = cb_retries b + 1"

text \<open>\<open>on_crash\<close> at time \<open>t\<close>: the deadline starts at the first crash.\<close>

definition on_crash :: "real \<Rightarrow> nat \<Rightarrow> crash_budget \<Rightarrow> retry_decision \<times> crash_budget" where
  "on_crash t attempt b =
     (let b' = (case cb_budget b of
                  Some v \<Rightarrow> (if cb_deadline b = None then b\<lparr>cb_deadline := Some (t + v)\<rparr> else b)
                | None \<Rightarrow> b);
          within_count = attempt \<le> cb_retries b';
          within_budget = (case cb_deadline b' of None \<Rightarrow> True | Some d \<Rightarrow> t < d)
      in (\<lparr>rd_will_retry = within_count \<and> within_budget,
           rd_budget_spent = within_count \<and> \<not> within_budget\<rparr>, b'))"

record run_budget =
  rb_budget :: "real option"
  rb_spent :: real
  rb_given_up :: "string option"

definition run_budget0 :: "real option \<Rightarrow> run_budget" where
  "run_budget0 budget =
     \<lparr>rb_budget = (case budget of None \<Rightarrow> None | Some v \<Rightarrow> if v > 0 then Some v else None),
      rb_spent = 0, rb_given_up = None\<rparr>"

definition exhausted :: "run_budget \<Rightarrow> bool" where
  "exhausted r \<longleftrightarrow> (case rb_budget r of None \<Rightarrow> False | Some v \<Rightarrow> rb_spent r \<ge> v)"

text \<open>\<open>mark_given_up\<close> raises \<open>ValueError\<close> (\<open>None\<close>) on an empty cause and keeps the first one.\<close>

definition mark_given_up :: "string \<Rightarrow> run_budget \<Rightarrow> run_budget option" where
  "mark_given_up cause r =
     (if cause = [] then None
      else Some (if rb_given_up r = None then r\<lparr>rb_given_up := Some cause\<rparr> else r))"

definition add_recovery_time :: "real \<Rightarrow> run_budget \<Rightarrow> run_budget" where
  "add_recovery_time seconds r = r\<lparr>rb_spent := rb_spent r + seconds\<rparr>"

text \<open>The numbers of the environment variables: \<open>parsed\<close> is the number the text spells, when it does.\<close>

definition default_crash_retries :: "string option \<Rightarrow> (string \<Rightarrow> int option) \<Rightarrow> nat" where
  "default_crash_retries raw parse_int =
     (case raw of
        None \<Rightarrow> 1
      | Some s \<Rightarrow> (if s = [] then 1 else case parse_int s of None \<Rightarrow> 1 | Some n \<Rightarrow> nat (max 0 n)))"

definition default_budget :: "string option \<Rightarrow> (string \<Rightarrow> real option) \<Rightarrow> real option" where
  "default_budget raw parse_float =
     (case raw of
        None \<Rightarrow> None
      | Some s \<Rightarrow> (if s = [] then None
                  else case parse_float s of None \<Rightarrow> None | Some v \<Rightarrow> if v > 0 then Some v else None))"

section \<open>A teardown that must not mask\<close>

text \<open>What a call raised: \<open>Fault\<close> the expected kinds (a failed subprocess, an OS error, a device
  timeout), \<open>Defect\<close> any other exception.\<close>

datatype teardown_result = Done | Fault string | Defect string

text \<open>\<open>Inl\<close> is the re-raised exception, \<open>Inr\<close> the warning that was logged.\<close>

definition guarded_teardown :: "teardown_result \<Rightarrow> bool \<Rightarrow> string + string option" where
  "guarded_teardown r mid_run =
     (case r of
        Done \<Rightarrow> Inr None
      | Fault e \<Rightarrow> Inr (Some e)
      | Defect e \<Rightarrow> (if mid_run then Inr (Some e) else Inl e))"

section \<open>Before a scenario is leased\<close>

datatype refusal = UnsupportedOnWorker string | Cancelled | TargetUnsupported string | NoActuator string
  | UnsupportedBackend "string list" | NeverLeased string | UncoveredLocale string

text \<open>The facts the checks read, in the order they read them.\<close>

record gate_facts =
  gf_worker_failure :: "string option"
  gf_cancelled :: bool
  gf_routed :: bool
  gf_preflight_targets :: "string option"
  gf_actuator_error :: "string option"
  gf_caps_reasons :: "string list"
  gf_settings_problem :: "string option"
  gf_uncovered_locale :: "string option"

definition truthy_text :: "string option \<Rightarrow> bool" where
  "truthy_text x \<longleftrightarrow> x \<noteq> None \<and> x \<noteq> Some []"

definition scenario_gate :: "gate_facts \<Rightarrow> run_budget \<Rightarrow> refusal option" where
  "scenario_gate f r =
     (case gf_worker_failure f of
        Some e \<Rightarrow> Some (UnsupportedOnWorker e)
      | None \<Rightarrow>
     if gf_cancelled f then Some Cancelled
     else case (if gf_routed f then gf_preflight_targets f else None) of
        Some e \<Rightarrow> Some (TargetUnsupported e)
      | None \<Rightarrow>
     (case (if gf_routed f then None else gf_actuator_error f) of
        Some e \<Rightarrow> Some (NoActuator e)
      | None \<Rightarrow>
     (let reasons = (if gf_routed f then [] else gf_caps_reasons f) @
            (if \<not> gf_routed f \<and> truthy_text (gf_settings_problem f) then [the (gf_settings_problem f)] else [])
      in if reasons \<noteq> [] then Some (UnsupportedBackend reasons)
         else case rb_given_up r of
                Some cause \<Rightarrow> Some (NeverLeased cause)
              | None \<Rightarrow> map_option UncoveredLocale (gf_uncovered_locale f))))"

section \<open>The attempts of one scenario\<close>

text \<open>What a lease, and the run on it, end in.\<close>

datatype lease_result = Leased | LeaseCrashed "string list" | LeaseTimedOut | LeaseDeviceError

datatype 'r run_end = RunReturned 'r | RunCrashed "string list" | RunRaised string

text \<open>The environment of an attempt; times are readings of the clock in the order the code takes them.\<close>

record 'r attempt_env =
  ae_lease :: lease_result
  ae_bare_lease :: lease_result
  ae_run :: "'r run_end"
  ae_leased_at :: real
  ae_crashed_at :: real
  ae_decided_at :: real
  ae_cancelled :: bool
  ae_stalled :: bool

record attempt_state =
  as_budget :: crash_budget
  as_run :: run_budget
  as_last_crash :: "nat option"
  as_partial :: "string list"
  as_recovery_started :: "real option"
  as_replaced :: bool
  as_budget_spent :: bool
  as_run_budget_spent :: bool
  as_cancelled_recovery :: bool
  as_device_timeout :: bool

datatype 'r attempt_end = Finished 'r | Raises | GaveUp nat

text \<open>The fixed facts of the scenario: whether a retry may force an erase and whether the device can
  be replaced.\<close>

record scenario_facts =
  sf_erase_on_retry :: bool
  sf_can_replace :: bool

definition forced_erase :: "scenario_facts \<Rightarrow> nat \<Rightarrow> bool" where
  "forced_erase f attempt \<longleftrightarrow> attempt > 1 \<and> sf_erase_on_retry f"

text \<open>The lease of an attempt after the forced-erase fallback: \<open>None\<close> is the device timeout that ends
  the loop.\<close>

definition lease_of :: "bool \<Rightarrow> 'r attempt_env \<Rightarrow> lease_result option" where
  "lease_of forced e =
     (case ae_lease e of
        LeaseTimedOut \<Rightarrow> (if forced then None else Some LeaseTimedOut)
      | LeaseDeviceError \<Rightarrow> (if forced then Some (ae_bare_lease e) else Some LeaseDeviceError)
      | r \<Rightarrow> Some r)"

definition bill :: "real \<Rightarrow> attempt_state \<Rightarrow> attempt_state" where
  "bill t s =
     (case as_recovery_started s of
        None \<Rightarrow> s
      | Some t0 \<Rightarrow> s\<lparr>as_run := add_recovery_time (t - t0) (as_run s), as_recovery_started := None\<rparr>)"

text \<open>The \<open>except BackendCrashError\<close> arm; the boolean is \<open>will_retry\<close>.\<close>

definition crashed :: "scenario_facts \<Rightarrow> nat \<Rightarrow> bool \<Rightarrow> string list \<Rightarrow> 'r attempt_env \<Rightarrow> attempt_state
    \<Rightarrow> bool \<times> attempt_state" where
  "crashed f attempt had_lease partial e s =
     (let s1 = s\<lparr>as_last_crash := Some attempt,
               as_partial := (if partial \<noteq> [] then partial else as_partial s),
               as_recovery_started := (case as_recovery_started s of
                   None \<Rightarrow> Some (ae_crashed_at e) | Some t0 \<Rightarrow> Some t0)\<rparr>;
          run_exhausted = exhausted (as_run s1);
          (decision, b) = on_crash (ae_decided_at e) attempt (as_budget s1);
          will_retry = rd_will_retry decision \<and> \<not> run_exhausted;
          cancels = will_retry \<and> ae_cancelled e;
          retries = will_retry \<and> \<not> cancels;
          replace = retries \<and> sf_can_replace f \<and> \<not> as_replaced s1 \<and> had_lease \<and>
                    (forced_erase f attempt \<or> ae_stalled e)
      in (retries, s1\<lparr>as_budget := b, as_budget_spent := rd_budget_spent decision,
            as_run_budget_spent := run_exhausted \<and> rd_will_retry decision,
            as_cancelled_recovery := as_cancelled_recovery s1 \<or> cancels,
            as_replaced := as_replaced s1 \<or> replace\<rparr>))"

fun attempts :: "scenario_facts \<Rightarrow> (nat \<Rightarrow> 'r attempt_env) \<Rightarrow> nat list \<Rightarrow> attempt_state
    \<Rightarrow> 'r attempt_end \<times> attempt_state" where
  "attempts f env [] s = (GaveUp 0, s)"
| "attempts f env (k # ks) s =
     (let e = env k in
      case lease_of (forced_erase f k) e of
        None \<Rightarrow> (GaveUp k, s\<lparr>as_device_timeout := True\<rparr>)
      | Some LeaseTimedOut \<Rightarrow> (Raises, s)
      | Some LeaseDeviceError \<Rightarrow> (Raises, s)
      | Some (LeaseCrashed partial) \<Rightarrow>
          (let (again, s') = crashed f k False partial e s
           in if again then attempts f env ks s' else (GaveUp k, s'))
      | Some Leased \<Rightarrow>
          (let s1 = bill (ae_leased_at e) s in
           case ae_run e of
             RunReturned r \<Rightarrow> (Finished r, s1)
           | RunRaised x \<Rightarrow> (Raises, s1)
           | RunCrashed partial \<Rightarrow>
               (let (again, s') = crashed f k True partial e s1
                in if again then attempts f env ks s' else (GaveUp k, s'))))"

text \<open>Why a scenario failed after its last attempt.\<close>

datatype crash_failure = PrepTimedOut | CancelledRecovering | RunBudgetSpent | BudgetSpent | AttemptsSpent

definition crash_failure_of :: "attempt_state \<Rightarrow> crash_failure" where
  "crash_failure_of s =
     (if as_device_timeout s then PrepTimedOut
      else if as_cancelled_recovery s then CancelledRecovering
      else if as_run_budget_spent s then RunBudgetSpent
      else if as_budget_spent s then BudgetSpent
      else AttemptsSpent)"

definition latch_cause :: "crash_failure \<Rightarrow> string option" where
  "latch_cause w =
     (case w of
        PrepTimedOut \<Rightarrow> Some ''an earlier scenario's device preparation timed out''
      | RunBudgetSpent \<Rightarrow> Some ''an earlier scenario exhausted the run-level crash-recovery budget''
      | _ \<Rightarrow> None)"

definition attempt_state0 :: "nat \<Rightarrow> real option \<Rightarrow> run_budget \<Rightarrow> attempt_state" where
  "attempt_state0 retries budget r =
     \<lparr>as_budget = crash_budget0 retries budget, as_run = r, as_last_crash = None, as_partial = [],
      as_recovery_started = None, as_replaced = False, as_budget_spent = False, as_run_budget_spent = False,
      as_cancelled_recovery = False, as_device_timeout = False\<rparr>"

datatype 'r scenario_end = Refused refusal | Completed 'r | Propagates | CrashFailed crash_failure nat "string list"

text \<open>One scenario: the checks, the attempts, the \<open>finally\<close> that bills an unfinished recovery at
  \<open>end_at\<close>, and the failure with its latch.\<close>

definition run_scenario :: "gate_facts \<Rightarrow> scenario_facts \<Rightarrow> nat \<Rightarrow> real option \<Rightarrow> (nat \<Rightarrow> 'r attempt_env) \<Rightarrow> real
    \<Rightarrow> run_budget \<Rightarrow> 'r scenario_end \<times> run_budget" where
  "run_scenario g f retries budget env end_at r =
     (case scenario_gate g r of
        Some w \<Rightarrow> (Refused w, r)
      | None \<Rightarrow>
          (let (how, s) = attempts f env [1..<retries + 2] (attempt_state0 retries budget r);
               s' = bill end_at s
           in case how of
                Finished x \<Rightarrow> (Completed x, as_run s')
              | Raises \<Rightarrow> (Propagates, as_run s')
              | GaveUp k \<Rightarrow>
                  (let w = crash_failure_of s'
                   in (CrashFailed w k (as_partial s'),
                       (case latch_cause w of
                          None \<Rightarrow> as_run s'
                        | Some cause \<Rightarrow> (case mark_given_up cause (as_run s') of
                                          None \<Rightarrow> as_run s' | Some r' \<Rightarrow> r'))))))"

section \<open>What a crash leaves\<close>

lemma on_crash_budget:
  "snd (on_crash t k b) = b\<lparr>cb_deadline :=
     (case cb_budget b of None \<Rightarrow> cb_deadline b
      | Some v \<Rightarrow> (case cb_deadline b of None \<Rightarrow> Some (t + v) | Some d \<Rightarrow> Some d))\<rparr>"
  by (cases b) (auto simp: on_crash_def Let_def split: option.split)

lemma on_crash_decision:
  "rd_will_retry (fst (on_crash t k b)) \<longleftrightarrow> k \<le> cb_retries b \<and>
     (case cb_deadline (snd (on_crash t k b)) of None \<Rightarrow> True | Some d \<Rightarrow> t < d)"
  "rd_budget_spent (fst (on_crash t k b)) \<longleftrightarrow> k \<le> cb_retries b \<and>
     \<not> (case cb_deadline (snd (on_crash t k b)) of None \<Rightarrow> True | Some d \<Rightarrow> t < d)"
  by (auto simp: on_crash_def Let_def split: option.split)

lemma crashed_fields:
  assumes "crashed f k had partial e s = (again, s')"
  shows "again \<longleftrightarrow> rd_will_retry (fst (on_crash (ae_decided_at e) k (as_budget s))) \<and> \<not> exhausted (as_run s) \<and> \<not> ae_cancelled e"
    "as_last_crash s' = Some k" "as_run s' = as_run s"
    "as_budget s' = snd (on_crash (ae_decided_at e) k (as_budget s))"
    "as_budget_spent s' = rd_budget_spent (fst (on_crash (ae_decided_at e) k (as_budget s)))"
    "as_run_budget_spent s' \<longleftrightarrow> exhausted (as_run s) \<and> rd_will_retry (fst (on_crash (ae_decided_at e) k (as_budget s)))"
    "as_cancelled_recovery s' \<longleftrightarrow> as_cancelled_recovery s \<or>
       rd_will_retry (fst (on_crash (ae_decided_at e) k (as_budget s))) \<and> \<not> exhausted (as_run s) \<and> ae_cancelled e"
    "as_device_timeout s' = as_device_timeout s"
    "as_recovery_started s' = (case as_recovery_started s of None \<Rightarrow> Some (ae_crashed_at e) | Some t0 \<Rightarrow> Some t0)"
  using assms by (auto simp: crashed_def Let_def split_beta)

lemma bill_fields [simp]:
  "as_budget (bill t s) = as_budget s" "as_last_crash (bill t s) = as_last_crash s"
  "as_budget_spent (bill t s) = as_budget_spent s" "as_run_budget_spent (bill t s) = as_run_budget_spent s"
  "as_cancelled_recovery (bill t s) = as_cancelled_recovery s" "as_device_timeout (bill t s) = as_device_timeout s"
  "as_partial (bill t s) = as_partial s" "rb_given_up (as_run (bill t s)) = rb_given_up (as_run s)"
  "rb_budget (as_run (bill t s)) = rb_budget (as_run s)"
  by (simp_all add: bill_def add_recovery_time_def split: option.split)

text \<open>What holds when attempt \<open>k\<close> begins: every attempt before it crashed, none of them for good.\<close>

definition attempting :: "(nat \<Rightarrow> 'r attempt_env) \<Rightarrow> nat \<Rightarrow> real option \<Rightarrow> nat \<Rightarrow> attempt_state \<Rightarrow> bool" where
  "attempting env n v k s \<longleftrightarrow> cb_retries (as_budget s) = n \<and> cb_budget (as_budget s) = v \<and>
     cb_deadline (as_budget s) = (if k = 1 then None else map_option (\<lambda>v. ae_decided_at (env 1) + v) v) \<and>
     (k > 1 \<longrightarrow> as_last_crash s \<noteq> None) \<and>
     \<not> as_budget_spent s \<and> \<not> as_run_budget_spent s \<and> \<not> as_cancelled_recovery s \<and> \<not> as_device_timeout s"

text \<open>What holds when the attempts end in a failure at attempt \<open>j\<close>.\<close>

definition given_up_at :: "scenario_facts \<Rightarrow> (nat \<Rightarrow> 'r attempt_env) \<Rightarrow> nat \<Rightarrow> real option \<Rightarrow> nat \<Rightarrow> attempt_state \<Rightarrow> bool" where
  "given_up_at f env n v j s \<longleftrightarrow> j \<le> n + 1 \<and> as_last_crash s \<noteq> None \<and>
     (case crash_failure_of s of
        PrepTimedOut \<Rightarrow> 1 < j \<and> sf_erase_on_retry f \<and> ae_lease (env j) = LeaseTimedOut
      | CancelledRecovering \<Rightarrow> j \<le> n \<and> ae_cancelled (env j)
      | RunBudgetSpent \<Rightarrow> j \<le> n \<and> exhausted (as_run s)
      | BudgetSpent \<Rightarrow> j \<le> n \<and> (\<exists>b. v = Some b \<and> ae_decided_at (env 1) + b \<le> ae_decided_at (env j))
      | AttemptsSpent \<Rightarrow> j = n + 1)"

lemma crashed_again:
  assumes a: "attempting env n v k s" and k: "1 \<le> k" and c: "crashed f k had partial (env k) s = (True, s')"
  shows "attempting env n v (Suc k) s' \<and> k \<le> n"
proof -
  let ?b = "as_budget s"
  let ?d = "cb_deadline (snd (on_crash (ae_decided_at (env k)) k ?b))"
  have d: "?d = map_option (\<lambda>v. ae_decided_at (env 1) + v) v"
    using a by (auto simp: attempting_def on_crash_budget split: option.split)
  note c = crashed_fields [OF c]
  have r: "rd_will_retry (fst (on_crash (ae_decided_at (env k)) k ?b))" "\<not> exhausted (as_run s)" "\<not> ae_cancelled (env k)"
    using c(1) by auto
  then have "\<not> rd_budget_spent (fst (on_crash (ae_decided_at (env k)) k ?b))"
    unfolding on_crash_decision by blast
  moreover have "k \<le> n" using r(1) a by (simp add: on_crash_decision attempting_def)
  moreover have "as_budget s' = ?b\<lparr>cb_deadline := ?d\<rparr>" unfolding c(4) by (simp add: on_crash_budget)
  ultimately show ?thesis using a c d r k by (auto simp: attempting_def)
qed

lemma crashed_for_good:
  assumes a: "attempting env n v k s" and k: "1 \<le> k" "k \<le> n + 1" and c: "crashed f k had partial (env k) s = (False, s')"
  shows "given_up_at f env n v k s'"
proof -
  let ?o = "on_crash (ae_decided_at (env k)) k (as_budget s)"
  have d: "cb_deadline (snd ?o) = map_option (\<lambda>v. ae_decided_at (env 1) + v) v"
    using a by (auto simp: attempting_def on_crash_budget split: option.split)
  have n: "cb_retries (as_budget s) = n" using a by (simp add: attempting_def)
  note c = crashed_fields [OF c]
  have flags: "\<not> as_device_timeout s'" "as_cancelled_recovery s' \<longleftrightarrow>
      rd_will_retry (fst ?o) \<and> \<not> exhausted (as_run s) \<and> ae_cancelled (env k)"
    using a c by (simp_all add: attempting_def)
  have spent: "rd_budget_spent (fst ?o) \<Longrightarrow> k \<le> n \<and> (\<exists>b. v = Some b \<and> ae_decided_at (env 1) + b \<le> ae_decided_at (env k))"
    unfolding on_crash_decision d n by (cases v) auto
  have all: "\<not> rd_will_retry (fst ?o) \<Longrightarrow> \<not> rd_budget_spent (fst ?o) \<Longrightarrow> k = n + 1"
    using k(2) unfolding on_crash_decision n by auto
  have will: "rd_will_retry (fst ?o) \<Longrightarrow> k \<le> n" unfolding on_crash_decision n by blast
  show ?thesis
    unfolding given_up_at_def crash_failure_of_def using k(2) c flags spent all will by auto
qed

lemma forced_lease_timeout:
  "lease_of (forced_erase f k) e = None \<longleftrightarrow> 1 < k \<and> sf_erase_on_retry f \<and> ae_lease e = LeaseTimedOut"
  by (auto simp: lease_of_def forced_erase_def split: lease_result.split)

lemma attempting_bill: "attempting env n v k (bill t s) = attempting env n v k s"
  by (simp add: attempting_def)

lemma attempts_given_up:
  assumes "attempts f env [k..<n + 2] s = (GaveUp j, s')" "attempting env n v k s" "1 \<le> k" "k \<le> n + 1"
  shows "k \<le> j \<and> given_up_at f env n v j s'"
  using assms
proof (induction "n + 2 - k" arbitrary: k s)
  case (Suc m)
  define more where "more = [Suc k..<n + 2]"
  have ks: "[k..<n + 2] = k # more" using Suc.prems(4) by (simp add: upt_conv_Cons more_def)
  let ?l = "lease_of (forced_erase f k) (env k)"
  have step: "k \<le> j \<and> given_up_at f env n v j s'"
    if at: "attempting env n v k t"
      and c: "(case crashed f k had partial (env k) t of (again, t') \<Rightarrow>
          if again then attempts f env more t' else (GaveUp k, t')) = (GaveUp j, s')" for t had partial
  proof -
    obtain again t' where cr: "crashed f k had partial (env k) t = (again, t')" by fastforce
    show ?thesis
    proof (cases again)
      case False
      then have "j = k" "s' = t'" using c cr by auto
      then show ?thesis using crashed_for_good [OF at Suc.prems(3,4), of f had partial t'] cr False by simp
    next
      case True
      from crashed_again [OF at Suc.prems(3), of f had partial t'] cr True
      have "attempting env n v (Suc k) t'" "k \<le> n" by simp_all
      moreover have "attempts f env [Suc k..<n + 2] t' = (GaveUp j, s')" using c cr True unfolding more_def by simp
      ultimately show ?thesis using Suc.hyps(1) [of "Suc k" t'] Suc.hyps(2) Suc.prems(3) by fastforce
    qed
  qed
  show ?case
  proof (cases ?l)
    case None
    then have "j = k" "s' = s\<lparr>as_device_timeout := True\<rparr>" using Suc.prems(1) unfolding ks by simp_all
    moreover have "1 < k \<and> sf_erase_on_retry f \<and> ae_lease (env k) = LeaseTimedOut"
      using None by (simp add: forced_lease_timeout)
    ultimately show ?thesis
      using Suc.prems(2,4) by (simp add: given_up_at_def crash_failure_of_def attempting_def)
  next
    case (Some l)
    show ?thesis
    proof (cases l)
      case Leased
      then show ?thesis using Some Suc.prems(1) unfolding ks
        using step [of "bill (ae_leased_at (env k)) s"] Suc.prems(2)
        by (auto simp: attempting_bill Let_def split: run_end.splits)
    next
      case (LeaseCrashed partial)
      then show ?thesis using Some Suc.prems(1) unfolding ks using step [of s False partial] Suc.prems(2)
        by (simp add: Let_def)
    qed (use Some Suc.prems(1) [unfolded ks] in simp_all)
  qed
qed simp

lemma attempting_start: "attempting env n v 1 (attempt_state0 n v r)"
  by (simp add: attempting_def attempt_state0_def crash_budget0_def)

section \<open>The run-wide budget\<close>

lemma mark_given_up_Some: "mark_given_up cause r = Some r' \<Longrightarrow> rb_given_up r \<noteq> None \<Longrightarrow> r' = r"
  by (auto simp: mark_given_up_def split: if_splits)

lemma latch_cause_nonempty: "latch_cause w = Some cause \<Longrightarrow> cause \<noteq> []"
  by (auto simp: latch_cause_def split: crash_failure.splits)

lemma crashed_run: "as_run (snd (crashed f k had partial e s)) = as_run s"
  by (simp add: crashed_def Let_def split_beta)

lemma attempts_given_up_cause: "rb_given_up (as_run (snd (attempts f env ks s))) = rb_given_up (as_run s)"
proof (induction ks arbitrary: s)
  case (Cons k ks)
  then show ?case
    by (auto simp: Let_def split_beta crashed_run split: option.split lease_result.split run_end.split)
qed simp

lemma attempts_budget: "rb_budget (as_run (snd (attempts f env ks s))) = rb_budget (as_run s)"
proof (induction ks arbitrary: s)
  case (Cons k ks)
  then show ?case
    by (auto simp: Let_def split_beta crashed_run split: option.split lease_result.split run_end.split)
qed simp

lemma crashed_started:
  "as_recovery_started (snd (crashed f k had partial e s)) =
     (case as_recovery_started s of None \<Rightarrow> Some (ae_crashed_at e) | Some t \<Rightarrow> Some t)"
  by (simp add: crashed_def Let_def split_beta)

lemma bill_started [simp]: "as_recovery_started (bill t s) = None"
  by (simp add: bill_def split: option.split)

lemma attempts_started:
  "as_recovery_started (snd (attempts f env ks s)) = Some t \<Longrightarrow>
     as_recovery_started s = Some t \<or> (\<exists>i \<in> set ks. t = ae_crashed_at (env i))"
proof (induction ks arbitrary: s)
  case (Cons k ks)
  have step: ?case
    if c: "as_recovery_started (snd (case crashed f k had partial (env k) u of (again, u') \<Rightarrow>
          if again then attempts f env ks u' else (GaveUp k, u'))) = Some t"
      and u: "as_recovery_started u = None \<or> as_recovery_started u = as_recovery_started s" for had partial u
  proof -
    obtain again u' where cr: "crashed f k had partial (env k) u = (again, u')" by fastforce
    have "as_recovery_started u' = (case as_recovery_started u of None \<Rightarrow> Some (ae_crashed_at (env k)) | Some t \<Rightarrow> Some t)"
      using crashed_started [of f k had partial "env k" u] unfolding cr snd_conv .
    then show ?thesis using c u Cons.IH [of u'] unfolding cr
      by (cases again; cases "as_recovery_started u") (auto split: option.splits)
  qed
  show ?case
  proof (cases "lease_of (forced_erase f k) (env k)")
    case (Some l)
    then show ?thesis
      using Cons.prems step [of False _ s] step [of True _ "bill (ae_leased_at (env k)) s"]
      by (cases l; cases "ae_run (env k)") (simp_all add: Let_def)
  qed (use Cons.prems in simp)
qed simp

section \<open>Properties\<close>


definition calm_gate :: gate_facts where
  "calm_gate = \<lparr>gf_worker_failure = None, gf_cancelled = False, gf_routed = False, gf_preflight_targets = None,
     gf_actuator_error = None, gf_caps_reasons = [], gf_settings_problem = None, gf_uncovered_locale = None\<rparr>"

definition always_crashes :: "nat \<Rightarrow> nat attempt_env" where
  "always_crashes k = \<lparr>ae_lease = Leased, ae_bare_lease = Leased, ae_run = RunCrashed [], ae_leased_at = real k,
     ae_crashed_at = real k, ae_decided_at = real k, ae_cancelled = False, ae_stalled = False\<rparr>"

definition plain_scenario :: scenario_facts where
  "plain_scenario = \<lparr>sf_erase_on_retry = False, sf_can_replace = False\<rparr>"

lemma two_crashes:
  "run_scenario calm_gate plain_scenario 1 None always_crashes 9 (run_budget0 None) =
     (CrashFailed AttemptsSpent 2 [], (run_budget0 None)\<lparr>rb_spent := 8\<rparr>)"
  by (simp add: run_scenario_def scenario_gate_def calm_gate_def truthy_text_def run_budget0_def upt_rec
      attempt_state0_def crash_budget0_def always_crashes_def lease_of_def forced_erase_def plain_scenario_def
      bill_def crashed_def on_crash_def exhausted_def crash_failure_of_def latch_cause_def add_recovery_time_def)


text \<open>Giving up on crash recovery is final and has a cause: once the latch is set no later scenario is
  leased and the cause never changes, and only a timed-out preparation or a spent run budget sets it.\<close>
theorem giving_up_is_final:
  assumes "run_scenario g f retries budget env end_at r = (out, r')"
  shows "(case rb_given_up r of
       Some cause \<Rightarrow> r' = r \<and> (\<exists>w. out = Refused w)
     | None \<Rightarrow> rb_given_up r' =
         (case out of CrashFailed w k partial \<Rightarrow> latch_cause w | _ \<Rightarrow> None))"
proof (cases "rb_given_up r")
  case (Some cause)
  then have "\<exists>w. scenario_gate g r = Some w"
    by (auto simp: scenario_gate_def Let_def split: option.split)
  then show ?thesis using assms Some by (auto simp: run_scenario_def)
next
  case None
  show ?thesis
  proof (cases "scenario_gate g r")
    case (Some w)
    then show ?thesis using assms None by (auto simp: run_scenario_def)
  next
    case gate: None
    obtain how s where a: "attempts f env [1..<retries + 2] (attempt_state0 retries budget r) = (how, s)"
      by fastforce
    have "rb_given_up (as_run s) = None"
      using attempts_given_up_cause [of f env "[1..<retries + 2]" "attempt_state0 retries budget r"] None
      unfolding a by (simp add: attempt_state0_def)
    then show ?thesis using assms a gate None latch_cause_nonempty
      by (auto simp: run_scenario_def Let_def mark_given_up_def split: option.splits attempt_end.splits)
  qed
qed

theorem giving_up_is_final_witness:
  "rb_given_up (snd (run_scenario calm_gate plain_scenario 1 None always_crashes 9 (run_budget0 None))) = None \<and>
   fst (run_scenario calm_gate plain_scenario 1 None always_crashes 9 ((run_budget0 None)\<lparr>rb_given_up := Some ''x''\<rparr>)) =
     Refused (NeverLeased ''x'')"
proof -
  have "rb_given_up ((run_budget0 None)\<lparr>rb_spent := 8\<rparr>) = None"
    using giving_up_is_final [OF two_crashes] by (simp add: run_budget0_def latch_cause_def)
  moreover have "fst (run_scenario calm_gate plain_scenario 1 None always_crashes 9
      ((run_budget0 None)\<lparr>rb_given_up := Some ''x''\<rparr>)) = Refused (NeverLeased ''x'')"
    by (simp add: run_scenario_def scenario_gate_def calm_gate_def truthy_text_def)
  ultimately show ?thesis unfolding two_crashes snd_conv by blast
qed

end
