(* ===== verification/Device_Pool.thy ===== *)
theory Device_Pool
  imports Recovery Transition_Systems "HOL-Library.Multiset"
begin

text \<open>
  The device pool of a run (\<open>device_pool\<close> in \<open>src/bajutsu/common/runner/pool.py\<close>): the queue of free
  devices, the collectors started up front, the warm runners kept between leases, and what \<open>lease\<close>,
  the \<open>release\<close> of a lease and \<open>shutdown\<close> do to them.  An environment object is its number in the
  order they were built; drivers, sinks and the other read-only resources of a lease are left out.
  What the outside does (an actuator chosen or not, a launch that fails, a teardown that fails, a
  device replaced under the lease) is the script of the call; whether an environment leaves a resident
  runner behind is the predicate \<open>reusable\<close>, which the code reads at the launch and at the release.
\<close>

section \<open>The pool\<close>

record runner =
  rn_actuator :: string
  rn_env :: nat

text \<open>What the pool has launched and torn down so far, in order.\<close>

datatype pool_event = Launched nat | TornDown nat | EndedLease nat | ClosedBridge string | StoppedCollector nat

record device_pool =
  dp_free :: "string list"
  dp_collectors :: "(string, nat) dict"
  dp_warm :: "(string, runner) dict"
  dp_spawned :: "string set"
  dp_defect :: "string option"
  dp_built :: nat
  dp_events :: "pool_event list"

definition log_event :: "pool_event \<Rightarrow> device_pool \<Rightarrow> device_pool" where
  "log_event e p = p\<lparr>dp_events := dp_events p @ [e]\<rparr>"

text \<open>One collector per device; when one does not start, those started before it are stopped.  The
  second component is what was stopped.\<close>

fun start_collectors :: "(string \<Rightarrow> string option) \<Rightarrow> string list \<Rightarrow> nat \<Rightarrow> (string, nat) dict
    \<Rightarrow> (string \<times> nat list) + (string, nat) dict" where
  "start_collectors refuses [] n started = Inr started"
| "start_collectors refuses (u # us) n started =
     (case refuses u of
        Some e \<Rightarrow> Inl (e, map snd started)
      | None \<Rightarrow> start_collectors refuses us (Suc n) (dict_put u n started))"

definition device_pool0 :: "string list \<Rightarrow> (string, nat) dict \<Rightarrow> device_pool" where
  "device_pool0 udids collectors =
     \<lparr>dp_free = udids, dp_collectors = collectors, dp_warm = [], dp_spawned = {}, dp_defect = None,
      dp_built = 0, dp_events = []\<rparr>"

definition new_pool :: "(string \<Rightarrow> string option) \<Rightarrow> bool \<Rightarrow> string list
    \<Rightarrow> (string \<times> nat list) + device_pool" where
  "new_pool refuses network udids =
     (if \<not> network then Inr (device_pool0 udids [])
      else and_then (start_collectors refuses udids 0 []) (\<lambda>cs. Inr (device_pool0 udids cs)))"

section \<open>A lease\<close>

text \<open>Where a lease fails: in the launch or before it, while the launched device is adopted, or after
  its runner was kept warm.\<close>

datatype lease_fault = BeforeLaunch string | AfterLaunch string | AfterWarm string

record lease_script =
  ls_actuator :: "string + string"
  ls_setup_error :: "string option"
  ls_collector :: "nat option"
  ls_replacement :: "string option"
  ls_fault :: "lease_fault option"

record held_lease =
  hl_udid :: string
  hl_env :: nat
  hl_collector :: "nat option"

definition pop_warm :: "string \<Rightarrow> device_pool \<Rightarrow> device_pool" where
  "pop_warm udid p = p\<lparr>dp_warm := dict_del udid (dp_warm p)\<rparr>"

definition tear_down :: "nat option \<Rightarrow> device_pool \<Rightarrow> device_pool" where
  "tear_down env p = (case env of None \<Rightarrow> p | Some e \<Rightarrow> log_event (TornDown e) p)"

text \<open>The bridge of a lease and the collector it started itself.\<close>

definition stop_lease_resources :: "string \<Rightarrow> nat option \<Rightarrow> device_pool \<Rightarrow> device_pool" where
  "stop_lease_resources udid collector p =
     (let p1 = log_event (ClosedBridge udid) p
      in case collector of None \<Rightarrow> p1 | Some c \<Rightarrow> log_event (StoppedCollector c) p1)"

definition adopt_replacement :: "string option \<Rightarrow> string \<Rightarrow> device_pool \<Rightarrow> string \<times> device_pool" where
  "adopt_replacement replaced udid p =
     (case replaced of
        None \<Rightarrow> (udid, p)
      | Some r \<Rightarrow>
          (if r = udid then (udid, p)
           else (r, (pop_warm udid p)\<lparr>dp_spawned := dp_spawned p - {udid},
               dp_collectors := (case dict_get (dp_collectors p) udid of
                   None \<Rightarrow> dp_collectors p
                 | Some c \<Rightarrow> dict_put r c (dict_del udid (dp_collectors p)))\<rparr>)))"

text \<open>The \<open>except\<close> arm of a lease: every teardown is guarded, so the launch error is what is raised.\<close>

definition failed_lease :: "lease_script \<Rightarrow> string \<Rightarrow> nat option \<Rightarrow> device_pool \<Rightarrow> device_pool" where
  "failed_lease sc udid launched p =
     (let p1 = stop_lease_resources udid (ls_collector sc) p;
          stale = dict_get (dp_warm p1) udid;
          doomed = (case stale of Some rn \<Rightarrow> Some (rn_env rn) | None \<Rightarrow> launched);
          (udid', p2) = adopt_replacement (ls_replacement sc) udid (tear_down doomed (pop_warm udid p1))
      in p2\<lparr>dp_free := dp_free p2 @ [udid']\<rparr>)"

text \<open>The part of a lease inside its \<open>try\<close>, with the environment it was given.\<close>

definition lease_on :: "(nat \<Rightarrow> bool) \<Rightarrow> lease_script \<Rightarrow> string \<Rightarrow> string \<Rightarrow> nat \<Rightarrow> bool \<Rightarrow> device_pool
    \<Rightarrow> (string + held_lease) \<times> device_pool" where
  "lease_on reusable sc udid actuator env was_warm p =
     (case ls_fault sc of
        Some (BeforeLaunch e) \<Rightarrow> (Inl e, failed_lease sc udid None p)
      | fault \<Rightarrow>
          (let p1 = (if was_warm then p else log_event (Launched env) p);
               (udid1, p2) = adopt_replacement (ls_replacement sc) udid p1
           in case fault of
                Some (AfterLaunch e) \<Rightarrow> (Inl e, failed_lease sc udid1 (Some env) p2)
              | _ \<Rightarrow>
                  (let p3 = p2\<lparr>dp_spawned := insert udid1 (dp_spawned p2),
                         dp_warm := (if reusable env
                             then dict_put udid1 \<lparr>rn_actuator = actuator, rn_env = env\<rparr> (dp_warm p2)
                             else dp_warm p2)\<rparr>
                   in case fault of
                        Some (AfterWarm e) \<Rightarrow> (Inl e, failed_lease sc udid1 (Some env) p3)
                      | _ \<Rightarrow> (Inr \<lparr>hl_udid = udid1, hl_env = env, hl_collector = ls_collector sc\<rparr>, p3))))"

text \<open>\<open>lease\<close>; \<open>None\<close> while no device is free.  What is raised before the \<open>try\<close> leaves the device out
  of the queue.\<close>

definition lease :: "(nat \<Rightarrow> bool) \<Rightarrow> lease_script \<Rightarrow> device_pool
    \<Rightarrow> ((string + held_lease) \<times> device_pool) option" where
  "lease reusable sc p =
     (case dp_free p of
        [] \<Rightarrow> None
      | udid # rest \<Rightarrow>
          (let p1 = p\<lparr>dp_free := rest\<rparr>
           in case ls_actuator sc of
                Inl e \<Rightarrow> Some (Inl e, p1)
              | Inr actuator \<Rightarrow>
                  (let p2 = (case dict_get (dp_warm p1) udid of
                         None \<Rightarrow> p1
                       | Some rn \<Rightarrow> (if rn_actuator rn \<noteq> actuator
                                     then tear_down (Some (rn_env rn)) (pop_warm udid p1) else p1));
                       cached = dict_get (dp_warm p2) udid
                   in case ls_setup_error sc of
                        Some e \<Rightarrow> Some (Inl e, p2)
                      | None \<Rightarrow>
                          (case cached of
                             Some rn \<Rightarrow> Some (lease_on reusable sc udid actuator (rn_env rn) True p2)
                           | None \<Rightarrow> Some (lease_on reusable sc udid actuator (dp_built p2) False
                                            (p2\<lparr>dp_built := Suc (dp_built p2)\<rparr>))))))"

section \<open>Release and shutdown\<close>

definition record_lease_defect :: "string \<Rightarrow> device_pool \<Rightarrow> device_pool" where
  "record_lease_defect e p = (case dp_defect p of None \<Rightarrow> p\<lparr>dp_defect := Some e\<rparr> | Some d \<Rightarrow> p)"

text \<open>\<open>ended\<close> is how \<open>end_lease\<close>, or the full teardown, came out.\<close>

definition release_lease :: "(nat \<Rightarrow> bool) \<Rightarrow> teardown_result \<Rightarrow> held_lease \<Rightarrow> device_pool \<Rightarrow> device_pool" where
  "release_lease reusable ended h p =
     (let udid = hl_udid h; env = hl_env h; keeps = reusable env;
          p1 = stop_lease_resources udid (hl_collector h) p;
          p2 = log_event (if keeps then EndedLease env else TornDown env) p1;
          p3 = (case guarded_teardown ended False of Inl e \<Rightarrow> record_lease_defect e p2 | Inr w \<Rightarrow> p2);
          p4 = (if keeps \<and> ended \<noteq> Done then tear_down (Some env) (pop_warm udid p3) else p3)
      in p4\<lparr>dp_free := dp_free p4 @ [udid]\<rparr>)"

text \<open>The first defect of a list of teardowns none of which stops the others.\<close>

definition first_defect :: "teardown_result list \<Rightarrow> string option" where
  "first_defect rs = first_some (\<lambda>r. case guarded_teardown r False of Inl e \<Rightarrow> Some e | Inr w \<Rightarrow> None) rs"

text \<open>\<open>shutdown\<close>: what it raises, and the pool after it.\<close>

definition shutdown :: "(nat \<Rightarrow> teardown_result) \<Rightarrow> (nat \<Rightarrow> teardown_result) \<Rightarrow> device_pool
    \<Rightarrow> string option \<times> device_pool" where
  "shutdown tears stops p =
     (let envs = map (rn_env \<circ> snd) (dp_warm p); cs = map snd (dp_collectors p);
          defect = first_defect (map tears envs @ map stops cs)
      in (case dp_defect p of Some d \<Rightarrow> Some d | None \<Rightarrow> defect,
          p\<lparr>dp_warm := [], dp_events := dp_events p @ map TornDown envs @ map StoppedCollector cs\<rparr>))"

section \<open>Workers on the pool\<close>

text \<open>The pool with the leases its workers hold and the devices that left the queue for good.\<close>

record pool_run =
  pr_pool :: device_pool
  pr_open :: "held_lease list"
  pr_lost :: "string list"

definition devices :: "pool_run \<Rightarrow> string list" where
  "devices r = dp_free (pr_pool r) @ map hl_udid (pr_open r) @ pr_lost r"

definition strands :: "lease_script \<Rightarrow> bool" where
  "strands sc \<longleftrightarrow> (case ls_actuator sc of Inl e \<Rightarrow> True | Inr a \<Rightarrow> ls_setup_error sc \<noteq> None)"

text \<open>A device put in another's place is new to the pool.\<close>

definition fresh_replacement :: "lease_script \<Rightarrow> pool_run \<Rightarrow> bool" where
  "fresh_replacement sc r \<longleftrightarrow>
     (case ls_replacement sc of None \<Rightarrow> True
      | Some d \<Rightarrow> take 1 (dp_free (pr_pool r)) = [d] \<or> d \<notin> set (devices r))"

definition after_lease :: "lease_script \<Rightarrow> (string + held_lease) \<Rightarrow> device_pool \<Rightarrow> pool_run \<Rightarrow> pool_run" where
  "after_lease sc out p r =
     \<lparr>pr_pool = p, pr_open = (case out of Inl e \<Rightarrow> pr_open r | Inr h \<Rightarrow> h # pr_open r),
      pr_lost = (if strands sc then take 1 (dp_free (pr_pool r)) else []) @ pr_lost r\<rparr>"

inductive pool_step :: "(nat \<Rightarrow> bool) \<Rightarrow> pool_run \<Rightarrow> pool_run \<Rightarrow> bool" for reusable where
  leased: "lease reusable sc (pr_pool r) = Some (out, p) \<Longrightarrow> fresh_replacement sc r \<Longrightarrow>
    pool_step reusable r (after_lease sc out p r)"
| released: "h \<in> set (pr_open r) \<Longrightarrow>
    pool_step reusable r (r\<lparr>pr_pool := release_lease reusable ended h (pr_pool r), pr_open := remove1 h (pr_open r)\<rparr>)"

inductive_cases pool_stepE: "pool_step reusable r r'"

definition pool_start :: "bool \<Rightarrow> string list \<Rightarrow> pool_run \<Rightarrow> bool" where
  "pool_start network udids r \<longleftrightarrow> distinct udids \<and> pr_open r = [] \<and> pr_lost r = [] \<and>
     (\<exists>refuses. new_pool refuses network udids = Inr (pr_pool r))"

definition collector_ids :: "bool \<Rightarrow> string list \<Rightarrow> nat multiset" where
  "collector_ids network udids = (if network then mset [0..<length udids] else {#})"

section \<open>What is launched and torn down\<close>

definition launched_envs :: "pool_event list \<Rightarrow> nat list" where
  "launched_envs es = concat (map (\<lambda>e. case e of Launched n \<Rightarrow> [n] | _ \<Rightarrow> []) es)"

definition torn_envs :: "pool_event list \<Rightarrow> nat list" where
  "torn_envs es = concat (map (\<lambda>e. case e of TornDown n \<Rightarrow> [n] | _ \<Rightarrow> []) es)"

definition warm_envs :: "device_pool \<Rightarrow> nat list" where
  "warm_envs p = map (rn_env \<circ> snd) (dp_warm p)"

lemma launched_envs_simps [simp]:
  "launched_envs [] = []" "launched_envs (es @ fs) = launched_envs es @ launched_envs fs"
  "launched_envs [Launched n] = [n]" "launched_envs [TornDown n] = []" "launched_envs [EndedLease n] = []"
  "launched_envs [ClosedBridge u] = []" "launched_envs [StoppedCollector c] = []"
  "launched_envs (map TornDown ns) = []" "launched_envs (map StoppedCollector ns) = []"
  by (simp_all add: launched_envs_def comp_def)

lemma torn_envs_simps [simp]:
  "torn_envs [] = []" "torn_envs (es @ fs) = torn_envs es @ torn_envs fs"
  "torn_envs [Launched n] = []" "torn_envs [TornDown n] = [n]" "torn_envs [EndedLease n] = []"
  "torn_envs [ClosedBridge u] = []" "torn_envs [StoppedCollector c] = []"
  "torn_envs (map TornDown ns) = ns" "torn_envs (map StoppedCollector ns) = []"
  by (simp_all add: torn_envs_def comp_def)

section \<open>Who owns what\<close>

text \<open>The devices \<open>D\<close> of the pool, the open leases \<open>os\<close>, and the environments \<open>X\<close> that are launched but
  not placed yet: every launched environment is torn down, kept warm, held by a lease, or in \<open>X\<close>.\<close>

definition owns :: "(nat \<Rightarrow> bool) \<Rightarrow> nat multiset \<Rightarrow> string set \<Rightarrow> held_lease list \<Rightarrow> nat list \<Rightarrow> device_pool \<Rightarrow> bool" where
  "owns reusable cs D os X p \<longleftrightarrow>
     dict_wf (dp_warm p) \<and> fst ` set (dp_warm p) \<subseteq> D \<and>
     dict_wf (dp_collectors p) \<and> fst ` set (dp_collectors p) \<subseteq> D \<and> mset (map snd (dp_collectors p)) = cs \<and>
     distinct (launched_envs (dp_events p)) \<and> (\<forall>n\<in>set (launched_envs (dp_events p)). n < dp_built p) \<and>
     mset (launched_envs (dp_events p)) = mset (torn_envs (dp_events p)) + mset (warm_envs p) +
       mset (map hl_env (filter (\<lambda>h. \<not> reusable (hl_env h)) os)) + mset X \<and>
     (\<forall>h\<in>set os. if reusable (hl_env h)
        then map_option rn_env (dict_get (dp_warm p) (hl_udid h)) = Some (hl_env h)
        else dict_get (dp_warm p) (hl_udid h) = None) \<and>
     (\<forall>rn\<in>snd ` set (dp_warm p). reusable (rn_env rn))"

lemma mset_map_dict_del:
  assumes "dict_wf d" "dict_get d k = Some v"
  shows "mset (map f d) = add_mset (f (k, v)) (mset (map f (dict_del k d)))"
  using assms
proof (induction d)
  case (Cons p d)
  obtain k' v' where p: "p = (k', v')" by (cases p)
  show ?case
  proof (cases "k' = k")
    case True
    then have "v' = v" using Cons.prems(2) by (simp add: p dict_get_def)
    moreover have "dict_get d k = None"
      using Cons.prems(1) True by (auto simp: p dict_wf_def dict_get_None_iff)
    then have "dict_del k (p # d) = d" using True dict_del_absent by (simp add: p dict_del_def)
    ultimately show ?thesis using True by (simp add: p)
  next
    case False
    then have "dict_del k (p # d) = p # dict_del k d" by (simp add: p dict_del_def)
    moreover have "dict_wf d" "dict_get d k = Some v"
      using Cons.prems False by (simp_all add: p dict_wf_def dict_get_def)
    ultimately show ?thesis using Cons.IH by simp
  qed
qed (simp add: dict_get_def)

lemma snd_dict_put_subset: "snd ` set (dict_put k v d) \<subseteq> insert v (snd ` set d)"
  by (induction k v d rule: dict_put.induct) auto

lemma snd_dict_del_subset: "snd ` set (dict_del k d) \<subseteq> snd ` set d"
  by (auto simp: dict_del_def)

lemma map_dict_put_same:
  "dict_get d k = Some w \<Longrightarrow> f (k, v) = f (k, w) \<Longrightarrow> map f (dict_put k v d) = map f d"
  by (induction k v d rule: dict_put.induct) (auto simp: dict_get_def split: if_splits)

lemma owns_log:
  "launched_envs [e] = [] \<Longrightarrow> torn_envs [e] = [] \<Longrightarrow> owns rs cs D os X (log_event e p) = owns rs cs D os X p"
  by (simp add: owns_def log_event_def warm_envs_def)

lemma owns_stop [simp]: "owns rs cs D os X (stop_lease_resources u c p) = owns rs cs D os X p"
  by (simp add: stop_lease_resources_def Let_def owns_log split: option.split)

lemma owns_free [simp]: "owns rs cs D os X (p\<lparr>dp_free := f\<rparr>) = owns rs cs D os X p"
  by (simp add: owns_def warm_envs_def)

lemma owns_spawned [simp]: "owns rs cs D os X (p\<lparr>dp_spawned := f\<rparr>) = owns rs cs D os X p"
  by (simp add: owns_def warm_envs_def)

lemma owns_defect [simp]: "owns rs cs D os X (record_lease_defect e p) = owns rs cs D os X p"
  by (simp add: owns_def warm_envs_def record_lease_defect_def split: option.split)

lemma owns_build: "owns rs cs D os X p \<Longrightarrow> owns rs cs D os X (p\<lparr>dp_built := Suc (dp_built p)\<rparr>)"
  by (simp add: owns_def warm_envs_def less_SucI)

lemma owns_launch:
  assumes "owns rs cs D os X p" "dp_built p = Suc n" "n \<notin> set (launched_envs (dp_events p))"
  shows "owns rs cs D os (n # X) (log_event (Launched n) p)"
  using assms by (simp add: owns_def log_event_def warm_envs_def)

lemma owns_pop:
  assumes "owns rs cs D os X p" "dict_get (dp_warm p) u = Some rn" "u \<notin> hl_udid ` set os"
  shows "owns rs cs D os (rn_env rn # X) (pop_warm u p)"
proof -
  have m: "mset (warm_envs p) = add_mset (rn_env rn) (mset (warm_envs (pop_warm u p)))"
    using mset_map_dict_del [of "dp_warm p" u rn "rn_env \<circ> snd"] assms
    by (simp add: owns_def warm_envs_def pop_warm_def)
  moreover have "fst ` set (dict_del u (dp_warm p)) \<subseteq> D"
    using assms(1) by (auto simp: owns_def dict_keys_del)
  moreover have "\<forall>r\<in>snd ` set (dp_warm p). rs (rn_env r)" using assms(1) by (simp add: owns_def)
  then have "\<forall>r\<in>snd ` set (dict_del u (dp_warm p)). rs (rn_env r)"
    using snd_dict_del_subset [of u "dp_warm p"] by blast
  moreover have "hl_udid h \<noteq> u" if "h \<in> set os" for h using assms(3) that by blast
  ultimately show ?thesis using assms(1) unfolding owns_def by (simp add: pop_warm_def)
qed

lemma pop_warm_absent: "dict_get (dp_warm p) u = None \<Longrightarrow> pop_warm u p = p"
  by (simp add: pop_warm_def dict_del_absent)

lemma owns_tear:
  "owns rs cs D os (e # X) p \<Longrightarrow> owns rs cs D os X (tear_down (Some e) p)"
  by (simp add: owns_def tear_down_def log_event_def warm_envs_def)

lemma owns_mono: "owns rs cs D os X p \<Longrightarrow> D \<subseteq> E \<Longrightarrow> owns rs cs E os X p"
  unfolding owns_def by (elim conjE, intro conjI; (rule subset_trans)?; assumption)

definition moved :: "string \<Rightarrow> string \<Rightarrow> string set \<Rightarrow> string set" where
  "moved u u' D = (if u' = u then D else insert u' (D - {u}))"

text \<open>The environment \<open>e\<close> launched for device \<open>u\<close> is still unplaced, or is the one kept warm there.\<close>

definition launched_on :: "(nat \<Rightarrow> bool) \<Rightarrow> nat multiset \<Rightarrow> string set \<Rightarrow> held_lease list \<Rightarrow> string \<Rightarrow> nat \<Rightarrow> device_pool \<Rightarrow> bool" where
  "launched_on rs cs D os u e p \<longleftrightarrow>
     owns rs cs D os [e] p \<and> dict_get (dp_warm p) u = None \<or>
     owns rs cs D os [] p \<and> map_option rn_env (dict_get (dp_warm p) u) = Some e"

lemma owns_keys:
  assumes "owns rs cs D os X p"
  shows "dict_wf (dp_warm p)" "fst ` set (dp_warm p) \<subseteq> D" "dict_wf (dp_collectors p)"
    "fst ` set (dp_collectors p) \<subseteq> D" "mset (map snd (dp_collectors p)) = cs"
  using assms by (simp_all add: owns_def)

lemma owns_rekey:
  assumes o: "owns rs cs D os X p" and w: "dict_get (dp_warm p) u = None" and r: "r \<notin> D"
  shows "owns rs cs (insert r (D - {u})) os X (p\<lparr>dp_spawned := S,
     dp_collectors := (case dict_get (dp_collectors p) u of
         None \<Rightarrow> dp_collectors p | Some c \<Rightarrow> dict_put r c (dict_del u (dp_collectors p)))\<rparr>)"
proof -
  let ?d = "dp_collectors p"
  note k = owns_keys [OF o]
  have warm: "fst ` set (dp_warm p) \<subseteq> insert r (D - {u})" using k(2) w by (auto simp: dict_get_None_iff)
  have "dict_wf (case dict_get ?d u of None \<Rightarrow> ?d | Some c \<Rightarrow> dict_put r c (dict_del u ?d)) \<and>
      fst ` set (case dict_get ?d u of None \<Rightarrow> ?d | Some c \<Rightarrow> dict_put r c (dict_del u ?d)) \<subseteq> insert r (D - {u}) \<and>
      mset (map snd (case dict_get ?d u of None \<Rightarrow> ?d | Some c \<Rightarrow> dict_put r c (dict_del u ?d))) = cs"
  proof (cases "dict_get ?d u")
    case None
    then have "u \<notin> fst ` set ?d" by (simp add: dict_get_None_iff)
    then show ?thesis using None k by auto
  next
    case (Some c)
    have "dict_get (dict_del u ?d) r = None" using k(4) r by (auto simp: dict_get_None_iff)
    then have put: "dict_put r c (dict_del u ?d) = dict_del u ?d @ [(r, c)]" by (rule dict_put_absent)
    have "mset (map snd ?d) = add_mset c (mset (map snd (dict_del u ?d)))"
      using mset_map_dict_del [OF k(3) Some, of snd] by simp
    moreover have "fst ` set (dict_put r c (dict_del u ?d)) \<subseteq> insert r (D - {u})"
      using k(4) by (auto simp: dict_keys_put dict_keys_del)
    moreover have "dict_wf (dict_put r c (dict_del u ?d))" using k(3) by simp
    ultimately show ?thesis using Some k(5) by (simp add: put)
  qed
  then show ?thesis using o warm by (simp add: owns_def warm_envs_def)
qed

lemma adopt_moves:
  assumes "adopt_replacement replaced u p = (u', p')"
  shows "u' = (case replaced of None \<Rightarrow> u | Some r \<Rightarrow> r)" "dp_free p' = dp_free p"
    "dp_events p' = dp_events p" "dp_built p' = dp_built p"
  using assms by (auto simp: adopt_replacement_def pop_warm_def split: option.splits if_splits)

lemma adopt_owns:
  assumes o: "owns rs cs D os X p" and w: "dict_get (dp_warm p) u = None"
    and r: "\<And>d. replaced = Some d \<Longrightarrow> d = u \<or> d \<notin> D" and a: "adopt_replacement replaced u p = (u', p')"
  shows "owns rs cs (moved u u' D) os X p'" "dict_get (dp_warm p') u' = None"
proof -
  show "owns rs cs (moved u u' D) os X p'"
  proof (cases "u' = u")
    case True
    then show ?thesis using a o by (auto simp: adopt_replacement_def moved_def split: option.splits if_splits)
  next
    case False
    then have "u' \<notin> D" using r a by (auto simp: adopt_replacement_def split: option.splits if_splits)
    with False show ?thesis
      using a owns_rekey [OF o w, of u' "dp_spawned p - {u}"]
      by (auto simp: adopt_replacement_def moved_def pop_warm_absent [OF w] split: option.splits if_splits)
  qed
  show "dict_get (dp_warm p') u' = None"
  proof (cases "u' = u")
    case True
    then show ?thesis using a w by (auto simp: adopt_replacement_def split: option.splits if_splits)
  next
    case False
    then have "u' \<notin> D" using r a by (auto simp: adopt_replacement_def split: option.splits if_splits)
    then have "dict_get (dp_warm p) u' = None" using owns_keys(2) [OF o] by (auto simp: dict_get_None_iff)
    then show ?thesis using a False by (auto simp: adopt_replacement_def pop_warm_def split: option.splits if_splits)
  qed
qed

lemma adopt_launched:
  assumes l: "launched_on rs cs D os u e p" and u: "u \<notin> hl_udid ` set os"
    and r: "\<And>d. replaced = Some d \<Longrightarrow> d = u \<or> d \<notin> D" and a: "adopt_replacement replaced u p = (u', p')"
  shows "launched_on rs cs (moved u u' D) os u' e p'"
proof (cases "dict_get (dp_warm p) u")
  case None
  then have "owns rs cs D os [e] p" using l by (simp add: launched_on_def)
  from adopt_owns [OF this None r a] show ?thesis by (simp add: launched_on_def)
next
  case (Some rn)
  then have o: "owns rs cs D os [] p" "rn_env rn = e" using l by (simp_all add: launched_on_def)
  show ?thesis
  proof (cases "u' = u")
    case True
    then show ?thesis using a l by (auto simp: adopt_replacement_def moved_def split: option.splits if_splits)
  next
    case False
    then have "adopt_replacement replaced u (pop_warm u p) = (u', p')"
      using a by (auto simp: adopt_replacement_def pop_warm_def dict_del_def split: option.splits if_splits)
    moreover have "owns rs cs D os [e] (pop_warm u p)" using owns_pop [OF o(1) Some u] o(2) by simp
    moreover have "dict_get (dp_warm (pop_warm u p)) u = None" by (simp add: pop_warm_def)
    ultimately show ?thesis using adopt_owns [OF _ _ r] unfolding launched_on_def by metis
  qed
qed

lemma owns_put_warm:
  assumes "owns rs cs D os [e] p" "dict_get (dp_warm p) u = None" "rs e" "u \<in> D" "u \<notin> hl_udid ` set os"
  shows "owns rs cs D os [] (p\<lparr>dp_warm := dict_put u \<lparr>rn_actuator = a, rn_env = e\<rparr> (dp_warm p)\<rparr>)"
proof -
  have "hl_udid h \<noteq> u" if "h \<in> set os" for h using assms(5) that by blast
  moreover have "set (dict_put u v (dp_warm p)) = insert (u, v) (set (dp_warm p))"
    "mset (dict_put u v (dp_warm p)) = add_mset (u, v) (mset (dp_warm p))" for v
    by (simp_all add: dict_put_absent [OF assms(2)])
  moreover have "fst ` set (dict_put u v (dp_warm p)) \<subseteq> D" for v
    using assms(1,4) by (auto simp: owns_def dict_keys_put)
  ultimately show ?thesis using assms(1-4) by (simp add: owns_def warm_envs_def)
qed

lemma owns_put_again:
  assumes "owns rs cs D os [] p" "map_option rn_env (dict_get (dp_warm p) u) = Some e" "rs e" "u \<notin> hl_udid ` set os"
  shows "owns rs cs D os [] (p\<lparr>dp_warm := dict_put u \<lparr>rn_actuator = a, rn_env = e\<rparr> (dp_warm p)\<rparr>)"
proof -
  let ?v = "\<lparr>rn_actuator = a, rn_env = e\<rparr>"
  obtain rn where rn: "dict_get (dp_warm p) u = Some rn" "rn_env rn = e" using assms(2) by auto
  have "hl_udid h \<noteq> u" if "h \<in> set os" for h using assms(4) that by blast
  moreover have "map (rn_env \<circ> snd) (dict_put u ?v (dp_warm p)) = map (rn_env \<circ> snd) (dp_warm p)"
    by (rule map_dict_put_same [OF rn(1)]) (simp add: rn(2))
  then have "image_mset (rn_env \<circ> snd) (mset (dict_put u ?v (dp_warm p))) = image_mset (rn_env \<circ> snd) (mset (dp_warm p))"
    by (metis mset_map)
  moreover have "\<forall>r\<in>snd ` set (dp_warm p). rs (rn_env r)" using assms(1) by (simp add: owns_def)
  then have "\<forall>x\<in>set (dict_put u ?v (dp_warm p)). rs (rn_env (snd x))"
    using snd_dict_put_subset [of u ?v "dp_warm p"] assms(3) by fastforce
  moreover have "fst ` set (dict_put u ?v (dp_warm p)) = fst ` set (dp_warm p)"
  proof -
    have "u \<in> fst ` set (dp_warm p)" using rn(1) dict_get_None_iff [of "dp_warm p" u] by force
    then show ?thesis by (simp add: dict_keys_put insert_absorb)
  qed
  ultimately show ?thesis using assms(1) by (simp add: owns_def warm_envs_def)
qed

lemma keep_warm_launched:
  assumes l: "launched_on rs cs D os u e p" and u: "u \<in> D" "u \<notin> hl_udid ` set os"
    and q: "q = p\<lparr>dp_spawned := S, dp_warm := (if rs e then dict_put u \<lparr>rn_actuator = a, rn_env = e\<rparr> (dp_warm p) else dp_warm p)\<rparr>"
  shows "launched_on rs cs D os u e q"
    and "owns rs cs D (\<lparr>hl_udid = u, hl_env = e, hl_collector = c\<rparr> # os) [] q"
proof -
  define w where "w = p\<lparr>dp_warm := dict_put u \<lparr>rn_actuator = a, rn_env = e\<rparr> (dp_warm p)\<rparr>"
  have k: "if rs e then owns rs cs D os [] q \<and> map_option rn_env (dict_get (dp_warm q) u) = Some e
      else owns rs cs D os [e] q \<and> dict_get (dp_warm q) u = None"
  proof (cases "rs e")
    case True
    then have "owns rs cs D os [] w"
      using l owns_put_warm [of rs cs D os e p u a] owns_put_again [of rs cs D os p u e a] u
      unfolding launched_on_def w_def by blast
    moreover have "q = w\<lparr>dp_spawned := S\<rparr>" using True by (simp add: q w_def)
    ultimately show ?thesis using True by (simp add: w_def)
  next
    case False
    have "\<not> map_option rn_env (dict_get (dp_warm p) u) = Some e" if "owns rs cs D os [] p"
    proof
      assume "map_option rn_env (dict_get (dp_warm p) u) = Some e"
      then obtain rn where "dict_get (dp_warm p) u = Some rn" "rn_env rn = e" by auto
      then have "rn \<in> snd ` set (dp_warm p)" using map_of_SomeD unfolding dict_get_def by force
      then show False using that False \<open>rn_env rn = e\<close> by (auto simp: owns_def)
    qed
    then show ?thesis using l False by (auto simp: launched_on_def q)
  qed
  then show "launched_on rs cs D os u e q" by (auto simp: launched_on_def split: if_splits)
  show "owns rs cs D (\<lparr>hl_udid = u, hl_env = e, hl_collector = c\<rparr> # os) [] q"
    using k by (cases "rs e") (simp_all add: owns_def)
qed

lemma failed_owns:
  assumes l: "owns rs cs D os [] p \<and> launched = None \<or> launched_on rs cs D os u e p \<and> launched = Some e"
    and u: "u \<notin> hl_udid ` set os" and r: "\<And>d. ls_replacement sc = Some d \<Longrightarrow> d = u \<or> d \<notin> D"
  shows "owns rs cs (moved u (case ls_replacement sc of None \<Rightarrow> u | Some d \<Rightarrow> d) D) os [] (failed_lease sc u launched p)"
    "dp_free (failed_lease sc u launched p) = dp_free p @ [case ls_replacement sc of None \<Rightarrow> u | Some d \<Rightarrow> d]"
proof -
  define p1 where "p1 = stop_lease_resources u (ls_collector sc) p"
  define p2 where "p2 = tear_down (case dict_get (dp_warm p1) u of Some rn \<Rightarrow> Some (rn_env rn) | None \<Rightarrow> launched) (pop_warm u p1)"
  obtain u' p3 where a: "adopt_replacement (ls_replacement sc) u p2 = (u', p3)" by fastforce
  have warm: "dp_warm p1 = dp_warm p" and free: "dp_free p1 = dp_free p"
    by (simp_all add: p1_def stop_lease_resources_def log_event_def Let_def split: option.split)
  have "owns rs cs D os [] p2"
  proof (cases "dict_get (dp_warm p) u")
    case None
    then have "pop_warm u p1 = p1" using pop_warm_absent [of p1 u] by (simp add: warm)
    moreover have "owns rs cs D os (case launched of None \<Rightarrow> [] | Some e \<Rightarrow> [e]) p1"
      using l None by (auto simp: p1_def launched_on_def)
    ultimately show ?thesis using None owns_tear [of rs cs D os _ "[]" p1]
      by (cases launched) (simp_all add: p2_def warm tear_down_def)
  next
    case (Some rn)
    then have "owns rs cs D os [] p1" using l by (auto simp: p1_def launched_on_def)
    from owns_pop [OF this, of u rn] Some u have "owns rs cs D os [rn_env rn] (pop_warm u p1)" by (simp add: warm)
    then show ?thesis using Some owns_tear by (simp add: p2_def warm)
  qed
  moreover have "dict_get (dp_warm p2) u = None"
    by (simp add: p2_def pop_warm_def tear_down_def log_event_def split: option.split)
  ultimately have "owns rs cs (moved u u' D) os [] p3" using adopt_owns(1) [OF _ _ r a] by blast
  moreover have f: "failed_lease sc u launched p = p3\<lparr>dp_free := dp_free p3 @ [u']\<rparr>"
    using a by (simp add: failed_lease_def Let_def p1_def p2_def)
  ultimately show "owns rs cs (moved u (case ls_replacement sc of None \<Rightarrow> u | Some d \<Rightarrow> d) D) os [] (failed_lease sc u launched p)"
    using adopt_moves(1) [OF a] by simp
  have "dp_free p2 = dp_free p"
    by (simp add: p2_def tear_down_def log_event_def pop_warm_def free split: option.split)
  then show "dp_free (failed_lease sc u launched p) = dp_free p @ [case ls_replacement sc of None \<Rightarrow> u | Some d \<Rightarrow> d]"
    using f adopt_moves(1,2) [OF a] by simp
qed

definition device_after :: "lease_script \<Rightarrow> string \<Rightarrow> string" where
  "device_after sc u = (case ls_replacement sc of None \<Rightarrow> u | Some d \<Rightarrow> d)"

lemma device_after_again:
  "adopt_replacement (ls_replacement sc) u p = (u', p') \<Longrightarrow> u' = device_after sc u"
  "(case ls_replacement sc of None \<Rightarrow> device_after sc u | Some d \<Rightarrow> d) = device_after sc u"
  by (auto simp: device_after_def dest: adopt_moves(1) split: option.splits)

lemma moved_moved [simp]: "moved u u D = D"
  by (simp add: moved_def)

lemma lease_on_outcome:
  assumes o: "owns rs cs D os [] p" and u: "u \<in> D" "u \<notin> hl_udid ` set os" "hl_udid ` set os \<subseteq> D"
    and r: "\<And>d. ls_replacement sc = Some d \<Longrightarrow> d = u \<or> d \<notin> D"
    and env: "if was_warm then map_option rn_env (dict_get (dp_warm p) u) = Some env
      else dict_get (dp_warm p) u = None \<and> dp_built p = Suc env \<and> env \<notin> set (launched_envs (dp_events p))"
    and l: "lease_on rs sc u a env was_warm p = (out, q)"
  shows "case out of
      Inl e \<Rightarrow> owns rs cs (moved u (device_after sc u) D) os [] q \<and> dp_free q = dp_free p @ [device_after sc u]
    | Inr h \<Rightarrow> hl_udid h = device_after sc u \<and> owns rs cs (moved u (device_after sc u) D) (h # os) [] q \<and> dp_free q = dp_free p"
proof -
  let ?v = "device_after sc u"
  define p1 where "p1 = (if was_warm then p else log_event (Launched env) p)"
  have l1: "launched_on rs cs D os u env p1"
    using env o owns_launch [OF o] by (auto simp: p1_def launched_on_def log_event_def split: if_splits)
  have f1: "dp_free p1 = dp_free p" by (simp add: p1_def log_event_def)
  obtain v p2 where a2: "adopt_replacement (ls_replacement sc) u p1 = (v, p2)" by fastforce
  note v = device_after_again(1) [OF a2]
  have l2: "launched_on rs cs (moved u ?v D) os ?v env p2" using adopt_launched [OF l1 u(2) r a2] v by simp
  have f2: "dp_free p2 = dp_free p" using adopt_moves(2) [OF a2] f1 by simp
  have v2: "?v \<in> moved u ?v D" "?v \<notin> hl_udid ` set os"
    using u r by (auto simp: moved_def device_after_def split: option.splits)
  have r2: "d = ?v \<or> d \<notin> moved u ?v D" if "ls_replacement sc = Some d" for d
    using that by (simp add: device_after_def)
  have again: "(case ls_replacement sc of None \<Rightarrow> ?v | Some d \<Rightarrow> d) = ?v" by (rule device_after_again(2))
  define p3 where "p3 = p2\<lparr>dp_spawned := insert ?v (dp_spawned p2),
      dp_warm := (if rs env then dict_put ?v \<lparr>rn_actuator = a, rn_env = env\<rparr> (dp_warm p2) else dp_warm p2)\<rparr>"
  note k = keep_warm_launched [OF l2 v2 p3_def]
  have f3: "dp_free p3 = dp_free p" using f2 by (simp add: p3_def)
  consider e where "ls_fault sc = Some (BeforeLaunch e)" | e where "ls_fault sc = Some (AfterLaunch e)"
    | e where "ls_fault sc = Some (AfterWarm e)" | "ls_fault sc = None"
    by (cases "ls_fault sc"; cases "the (ls_fault sc)") auto
  then show ?thesis
  proof cases
    case 1
    then show ?thesis using l failed_owns [of rs cs D os p None u env sc] o u(2) r
      by (auto simp: lease_on_def device_after_def)
  next
    case 2
    then have "out = Inl e" "q = failed_lease sc ?v (Some env) p2"
      using l a2 v by (simp_all add: lease_on_def p1_def)
    then show ?thesis using failed_owns [of rs cs "moved u ?v D" os p2 "Some env" ?v env sc] l2 v2(2) r2 f2
      by (simp add: again)
  next
    case 3
    then have "out = Inl e" "q = failed_lease sc ?v (Some env) p3"
      using l a2 v by (simp_all add: lease_on_def p1_def p3_def)
    then show ?thesis using failed_owns [of rs cs "moved u ?v D" os p3 "Some env" ?v env sc] k(1) v2(2) r2 f3
      by (simp add: again)
  next
    case 4
    then have "out = Inr \<lparr>hl_udid = ?v, hl_env = env, hl_collector = ls_collector sc\<rparr>" "q = p3"
      using l a2 v by (simp_all add: lease_on_def p1_def p3_def)
    then show ?thesis using k(2) f3 by simp
  qed
qed

lemma lease_outcome:
  assumes o: "owns rs cs D os [] p" and u: "u \<in> D" "u \<notin> hl_udid ` set os" "hl_udid ` set os \<subseteq> D"
    and r: "\<And>d. ls_replacement sc = Some d \<Longrightarrow> d = u \<or> d \<notin> D"
    and free: "dp_free p = u # rest" and l: "lease rs sc p = Some (out, q)"
  shows "if strands sc then (\<exists>e. out = Inl e) \<and> owns rs cs D os [] q \<and> dp_free q = rest
    else (case out of
      Inl e \<Rightarrow> owns rs cs (moved u (device_after sc u) D) os [] q \<and> dp_free q = rest @ [device_after sc u]
    | Inr h \<Rightarrow> hl_udid h = device_after sc u \<and> owns rs cs (moved u (device_after sc u) D) (h # os) [] q \<and> dp_free q = rest)"
proof (cases "ls_actuator sc")
  case (Inl e)
  then show ?thesis using l o by (auto simp: lease_def free strands_def)
next
  case (Inr a)
  define p1 where "p1 = p\<lparr>dp_free := rest\<rparr>"
  define p2 where "p2 = (case dict_get (dp_warm p) u of None \<Rightarrow> p1
     | Some rn \<Rightarrow> (if rn_actuator rn \<noteq> a then tear_down (Some (rn_env rn)) (pop_warm u p1) else p1))"
  have o1: "owns rs cs D os [] p1" using o by (simp add: p1_def)
  have o2: "owns rs cs D os [] p2"
    using o1 owns_tear [OF owns_pop [OF o1 _ u(2)]] by (auto simp: p2_def p1_def split: option.split)
  have f2: "dp_free p2 = rest"
    by (auto simp: p2_def p1_def tear_down_def log_event_def pop_warm_def split: option.split)
  show ?thesis
  proof (cases "ls_setup_error sc")
    case (Some e)
    then show ?thesis using l o2 f2 by (auto simp: lease_def free strands_def Inr p1_def [symmetric] p2_def [symmetric])
  next
    case None
    then have s: "\<not> strands sc" by (simp add: strands_def Inr)
    show ?thesis
    proof (cases "dict_get (dp_warm p2) u")
      case (Some rn)
      then have "lease_on rs sc u a (rn_env rn) True p2 = (out, q)"
        using l None by (simp add: lease_def free Inr p1_def [symmetric] p2_def [symmetric])
      from lease_on_outcome [OF o2 u r _ this] Some s f2 show ?thesis by (cases out) simp_all
    next
      case nw: None
      define p3 where "p3 = p2\<lparr>dp_built := Suc (dp_built p2)\<rparr>"
      have "lease_on rs sc u a (dp_built p2) False p3 = (out, q)"
        using l None nw by (simp add: lease_def free Inr p1_def [symmetric] p2_def [symmetric] p3_def)
      moreover have "owns rs cs D os [] p3" unfolding p3_def by (rule owns_build [OF o2])
      moreover have "dp_built p2 \<notin> set (launched_envs (dp_events p3))" using o2 by (auto simp: owns_def p3_def)
      ultimately show ?thesis using lease_on_outcome [of rs cs D os p3 u sc False "dp_built p2" a out q] u r nw s f2
        by (cases out) (simp_all add: p3_def)
    qed
  qed
qed

lemma tear_down_free [simp]: "dp_free (tear_down e p) = dp_free p" "dp_free (log_event v p) = dp_free p"
  "dp_free (pop_warm u p) = dp_free p" "dp_free (stop_lease_resources u c p) = dp_free p"
  "dp_free (record_lease_defect d p) = dp_free p"
  by (simp_all add: tear_down_def log_event_def pop_warm_def stop_lease_resources_def record_lease_defect_def Let_def
      split: option.split)

lemma release_free: "dp_free (release_lease rs ended h p) = dp_free p @ [hl_udid h]"
  by (simp add: release_lease_def Let_def split: sum.split)

lemma mset_filter_remove1:
  assumes "h \<in> set os"
  shows "mset (map f (filter P os)) =
     (if P h then add_mset (f h) (mset (map f (filter P (remove1 h os)))) else mset (map f (filter P (remove1 h os))))"
proof -
  have "mset os = add_mset h (mset (remove1 h os))" using assms by simp
  then have "mset (map f (filter P os)) = image_mset f (filter_mset P (add_mset h (mset (remove1 h os))))"
    by (metis mset_map mset_filter)
  then show ?thesis by (simp del: mset_remove1)
qed

lemma release_owns:
  assumes o: "owns rs cs D os [] p" and h: "h \<in> set os" "distinct (map hl_udid os)"
  shows "owns rs cs D (remove1 h os) [] (release_lease rs ended h p)"
proof -
  let ?u = "hl_udid h" and ?e = "hl_env h" and ?os = "remove1 h os"
  have sub: "set ?os \<subseteq> set os" by (rule set_remove1_subset)
  have u: "?u \<notin> hl_udid ` set ?os"
  proof
    assume "?u \<in> hl_udid ` set ?os"
    then obtain k where k: "k \<in> set ?os" "hl_udid k = ?u" by force
    then have "k = h" using h sub by (metis distinct_map inj_onD subsetD)
    then show False using k(1) h(2) by (simp add: distinct_map)
  qed
  define F where "F = mset (map hl_env (filter (\<lambda>h. \<not> rs (hl_env h)) ?os))"
  define G where "G = mset (map hl_env (filter (\<lambda>h. \<not> rs (hl_env h)) os))"
  have m: "G = (if rs ?e then F else add_mset ?e F)"
    unfolding F_def G_def mset_filter_remove1 [OF h(1)] by (simp only: if_not_P if_P split: if_split) blast
  define p1 where "p1 = stop_lease_resources ?u (hl_collector h) p"
  have o1: "owns rs cs D os [] p1" using o by (simp add: p1_def)
  have o2: "owns rs cs D ?os (if rs ?e then [] else [?e]) p1"
  proof -
    have "\<forall>h\<in>set os. if rs (hl_env h) then map_option rn_env (dict_get (dp_warm p1) (hl_udid h)) = Some (hl_env h)
        else dict_get (dp_warm p1) (hl_udid h) = None"
      using o1 unfolding owns_def by (elim conjE)
    then have "\<forall>h\<in>set ?os. if rs (hl_env h) then map_option rn_env (dict_get (dp_warm p1) (hl_udid h)) = Some (hl_env h)
        else dict_get (dp_warm p1) (hl_udid h) = None"
      using sub by blast
    then show ?thesis using o1 m unfolding owns_def F_def [symmetric] G_def [symmetric]
      by (cases "rs ?e") simp_all
  qed
  have warm: "if rs ?e then map_option rn_env (dict_get (dp_warm p1) ?u) = Some ?e
      else dict_get (dp_warm p1) ?u = None"
    using o1 h(1) by (auto simp: owns_def)
  define p2 where "p2 = log_event (if rs ?e then EndedLease ?e else TornDown ?e) p1"
  have o3: "owns rs cs D ?os [] p2"
    using o2 owns_tear [of rs cs D ?os ?e "[]" p1] by (auto simp: p2_def owns_log tear_down_def)
  define p3 where "p3 = (case guarded_teardown ended False of Inl e \<Rightarrow> record_lease_defect e p2 | Inr w \<Rightarrow> p2)"
  have o4: "owns rs cs D ?os [] p3" using o3 by (auto simp: p3_def split: sum.split)
  have w3: "dp_warm p3 = dp_warm p1"
    by (simp add: p3_def p2_def log_event_def record_lease_defect_def split: sum.split option.split)
  define p4 where "p4 = (if rs ?e \<and> ended \<noteq> Done then tear_down (Some ?e) (pop_warm ?u p3) else p3)"
  have "owns rs cs D ?os [] (if rs ?e \<and> ended \<noteq> Done then tear_down (Some ?e) (pop_warm ?u p3) else p3)"
  proof (cases "rs ?e \<and> ended \<noteq> Done")
    case True
    then obtain rn where rn: "dict_get (dp_warm p3) ?u = Some rn" "rn_env rn = ?e" using warm w3 by auto
    from owns_tear [OF owns_pop [OF o4 rn(1) u]] show ?thesis unfolding if_P [OF True] rn(2) .
  next
    case False
    from o4 show ?thesis unfolding if_not_P [OF False] .
  qed
  then have "owns rs cs D ?os [] p4" unfolding p4_def .
  moreover have "release_lease rs ended h p = p4\<lparr>dp_free := dp_free p4 @ [?u]\<rparr>"
    by (simp only: release_lease_def Let_def p1_def p2_def p3_def p4_def)
  ultimately show ?thesis by simp
qed

text \<open>The invariant of a run: the queue, the leases and the lost devices are disjoint, and every
  environment has one owner.\<close>

definition pool_inv :: "(nat \<Rightarrow> bool) \<Rightarrow> nat multiset \<Rightarrow> nat \<Rightarrow> pool_run \<Rightarrow> bool" where
  "pool_inv reusable cs n r \<longleftrightarrow> distinct (devices r) \<and> length (devices r) = n \<and>
     owns reusable cs (set (devices r)) (pr_open r) [] (pr_pool r)"

lemma pool_inv_released:
  assumes i: "pool_inv rs cs n r" and h: "h \<in> set (pr_open r)"
  shows "pool_inv rs cs n (r\<lparr>pr_pool := release_lease rs ended h (pr_pool r), pr_open := remove1 h (pr_open r)\<rparr>)"
proof -
  let ?r = "r\<lparr>pr_pool := release_lease rs ended h (pr_pool r), pr_open := remove1 h (pr_open r)\<rparr>"
  have "mset (map hl_udid (pr_open r)) = add_mset (hl_udid h) (mset (map hl_udid (remove1 h (pr_open r))))"
    using h by (simp add: image_mset_add_mset [symmetric] del: image_mset_add_mset)
  then have m: "mset (devices ?r) = mset (devices r)" by (simp add: devices_def release_free)
  then have "set (devices ?r) = set (devices r)" "length (devices ?r) = length (devices r)"
    "distinct (devices ?r) = distinct (devices r)"
    by (metis set_mset_mset, metis size_mset, metis mset_eq_imp_distinct_iff)
  moreover have "distinct (map hl_udid (pr_open r))" using i by (simp add: pool_inv_def devices_def)
  ultimately show ?thesis using i release_owns [OF _ h] by (simp add: pool_inv_def)
qed

lemma pool_inv_leased:
  assumes i: "pool_inv rs cs n r" and l: "lease rs sc (pr_pool r) = Some (out, q)" and f: "fresh_replacement sc r"
  shows "pool_inv rs cs n (after_lease sc out q r)"
proof -
  obtain u rest where free: "dp_free (pr_pool r) = u # rest" using l by (cases "dp_free (pr_pool r)") (simp_all add: lease_def)
  let ?D = "set (devices r)" and ?v = "device_after sc u"
  have o: "owns rs cs ?D (pr_open r) [] (pr_pool r)" and d: "distinct (devices r)" "length (devices r) = n"
    using i by (simp_all add: pool_inv_def)
  have u: "u \<in> ?D" "u \<notin> hl_udid ` set (pr_open r)" "hl_udid ` set (pr_open r) \<subseteq> ?D"
    using d(1) by (auto simp: devices_def free)
  have fr: "ls_replacement sc = Some e \<Longrightarrow> e = u \<or> e \<notin> ?D" for e using f by (auto simp: fresh_replacement_def free)
  then have v: "?v = u \<or> ?v \<notin> ?D" by (auto simp: device_after_def split: option.split)
  define others where "others = rest @ map hl_udid (pr_open r) @ pr_lost r"
  have D: "?D = insert u (set others)" "u \<notin> set others" "distinct others" "length others + 1 = n"
    using d by (auto simp: devices_def free others_def)
  have mv: "moved u ?v ?D = insert ?v (set others)" using D v by (auto simp: moved_def)
  note res = lease_outcome [OF o u fr free l]
  have "mset (devices (after_lease sc out q r)) = mset ((if strands sc then u else ?v) # others)"
    using res by (cases out) (auto simp: devices_def after_lease_def free others_def split: if_splits)
  then have s: "set (devices (after_lease sc out q r)) = insert (if strands sc then u else ?v) (set others)"
    "length (devices (after_lease sc out q r)) = n" "distinct (devices (after_lease sc out q r))"
    using D v by (metis set_mset_mset list.simps(15), metis size_mset length_Cons Suc_eq_plus1,
        metis mset_eq_imp_distinct_iff distinct.simps(2) insertI2)
  then show ?thesis using res D mv by (cases out) (auto simp: pool_inv_def after_lease_def split: if_splits)
qed

lemma start_collectors_ok:
  "distinct us \<Longrightarrow> fst ` set started \<inter> set us = {} \<Longrightarrow> start_collectors refuses us n started = Inr d \<Longrightarrow>
     d = started @ zip us [n..<n + length us]"
proof (induction us arbitrary: n started)
  case (Cons u us)
  have "dict_get started u = None" using Cons.prems(2) by (auto simp: dict_get_None_iff)
  then have put: "dict_put u n started = started @ [(u, n)]" by (rule dict_put_absent)
  have "start_collectors refuses us (Suc n) (started @ [(u, n)]) = Inr d"
    using Cons.prems(3) put by (simp split: option.splits)
  moreover have "fst ` set (started @ [(u, n)]) \<inter> set us = {}" using Cons.prems(1,2) by auto
  ultimately have "d = (started @ [(u, n)]) @ zip us [Suc n..<Suc n + length us]"
    using Cons.IH [of "started @ [(u, n)]" "Suc n"] Cons.prems(1) by (simp del: upt_Suc)
  moreover have "[n..<n + length (u # us)] = n # [Suc n..<Suc n + length us]"
    by (simp add: upt_conv_Cons del: upt_Suc)
  ultimately show ?case by (simp del: upt_Suc)
qed simp

lemma pool_start_inv:
  assumes "pool_start network udids r"
  shows "pool_inv rs (collector_ids network udids) (length udids) r"
proof -
  from assms have d: "distinct udids" "devices r = dp_free (pr_pool r)" "pr_open r = []"
    and "\<exists>refuses. new_pool refuses network udids = Inr (pr_pool r)"
    by (simp_all add: pool_start_def devices_def)
  then obtain refuses where "new_pool refuses network udids = Inr (pr_pool r)" by blast
  then obtain cs where p: "pr_pool r = device_pool0 udids cs"
    and cs: "if network then start_collectors refuses udids 0 [] = Inr cs else cs = []"
    by (cases network) (auto simp: new_pool_def and_then_eq_Inr dest: sym)
  have "cs = (if network then zip udids [0..<length udids] else [])"
    using cs start_collectors_ok [OF d(1), of "[]" refuses 0 cs] by (auto split: if_splits)
  then have cs: "map fst cs = (if network then udids else [])" "map snd cs = (if network then [0..<length udids] else [])"
    by simp_all
  have "dict_wf cs \<and> fst ` set cs \<subseteq> set udids \<and> mset (map snd cs) = collector_ids network udids"
    unfolding dict_wf_def cs(2) set_map [symmetric] cs(1) using d(1) by (simp add: collector_ids_def)
  then show ?thesis
    using d by (simp add: pool_inv_def p device_pool0_def owns_def warm_envs_def)
qed

lemma pool_step_inv: "pool_inv rs cs n r \<Longrightarrow> pool_step rs r r' \<Longrightarrow> pool_inv rs cs n r'"
  using pool_inv_leased pool_inv_released by (auto elim!: pool_stepE)

section \<open>The abstract allocator\<close>

text \<open>What the pool promises: a free device is taken by one lease, may be replaced by a new one while it
  is held, and is given back or lost.\<close>

record device_view =
  dv_free :: "string set"
  dv_held :: "string set"
  dv_lost :: "string set"

inductive device_step :: "device_view \<Rightarrow> device_view \<Rightarrow> bool" where
  take_one: "d \<in> dv_free v \<Longrightarrow> device_step v (v\<lparr>dv_free := dv_free v - {d}, dv_held := insert d (dv_held v)\<rparr>)"
| swap_in: "d \<in> dv_held v \<Longrightarrow> e \<notin> dv_free v \<union> dv_held v \<union> dv_lost v \<Longrightarrow>
    device_step v (v\<lparr>dv_held := insert e (dv_held v - {d})\<rparr>)"
| give_back: "d \<in> dv_held v \<Longrightarrow> device_step v (v\<lparr>dv_held := dv_held v - {d}, dv_free := insert d (dv_free v)\<rparr>)"
| lose: "d \<in> dv_held v \<Longrightarrow> device_step v (v\<lparr>dv_held := dv_held v - {d}, dv_lost := insert d (dv_lost v)\<rparr>)"

definition view_of :: "pool_run \<Rightarrow> device_view" where
  "view_of r = \<lparr>dv_free = set (dp_free (pr_pool r)), dv_held = hl_udid ` set (pr_open r), dv_lost = set (pr_lost r)\<rparr>"

text \<open>Taking a device and coming out of the lease with \<open>e\<close> in its place.\<close>

lemma taken_and_swapped:
  assumes "d \<in> F" "d \<notin> H" "e = d \<or> e \<notin> F \<union> H \<union> L"
  shows "device_step\<^sup>*\<^sup>* \<lparr>dv_free = F, dv_held = H, dv_lost = L\<rparr> \<lparr>dv_free = F - {d}, dv_held = insert e H, dv_lost = L\<rparr>"
proof -
  let ?v = "\<lparr>dv_free = F - {d}, dv_held = insert d H, dv_lost = L\<rparr>"
  have one: "device_step \<lparr>dv_free = F, dv_held = H, dv_lost = L\<rparr> ?v"
    using device_step.take_one [of d "\<lparr>dv_free = F, dv_held = H, dv_lost = L\<rparr>"] assms(1) by simp
  show ?thesis
  proof (cases "e = d")
    case True
    then show ?thesis using one by simp
  next
    case False
    then have "device_step ?v \<lparr>dv_free = F - {d}, dv_held = insert e H, dv_lost = L\<rparr>"
      using device_step.swap_in [of d ?v e] assms by simp
    then show ?thesis using one by (meson converse_rtranclp_into_rtranclp rtranclp.rtrancl_refl)
  qed
qed

lemma pool_step_view:
  assumes i: "pool_inv rs cs n r" and s: "pool_step rs r r'"
  shows "device_step\<^sup>*\<^sup>* (view_of r) (view_of r')"
  using s
proof (cases rule: pool_step.cases)
  case (released h ended)
  have dist: "distinct (map hl_udid (pr_open r))" using i by (simp add: pool_inv_def devices_def)
  then have "hl_udid ` set (remove1 h (pr_open r)) = hl_udid ` set (pr_open r) - {hl_udid h}"
    using released(2) by (auto simp: distinct_map set_remove1_eq inj_on_def)
  then have "view_of r' = (view_of r)\<lparr>dv_held := dv_held (view_of r) - {hl_udid h}, dv_free := insert (hl_udid h) (dv_free (view_of r))\<rparr>"
    using released(1) by (simp add: view_of_def release_free)
  then show ?thesis using device_step.give_back [of "hl_udid h" "view_of r"] released(2) by (auto simp: view_of_def)
next
  case (leased sc out q)
  obtain u rest where free: "dp_free (pr_pool r) = u # rest" using leased(2) by (cases "dp_free (pr_pool r)") (simp_all add: lease_def)
  let ?D = "set (devices r)" and ?v = "device_after sc u"
  have o: "owns rs cs ?D (pr_open r) [] (pr_pool r)" and d: "distinct (devices r)"
    using i by (simp_all add: pool_inv_def)
  have u: "u \<in> ?D" "u \<notin> hl_udid ` set (pr_open r)" "hl_udid ` set (pr_open r) \<subseteq> ?D" "u \<notin> set rest"
    using d by (auto simp: devices_def free)
  have fr: "ls_replacement sc = Some e \<Longrightarrow> e = u \<or> e \<notin> ?D" for e
    using leased(3) by (auto simp: fresh_replacement_def free)
  note res = lease_outcome [OF o u(1-3) fr free leased(2)]
  let ?H = "hl_udid ` set (pr_open r)" and ?L = "set (pr_lost r)"
  have v: "view_of r = \<lparr>dv_free = insert u (set rest), dv_held = ?H, dv_lost = ?L\<rparr>" by (simp add: view_of_def free)
  have swap: "device_step\<^sup>*\<^sup>* (view_of r) \<lparr>dv_free = set rest, dv_held = insert e ?H, dv_lost = ?L\<rparr>"
    if "e = u \<or> e \<notin> ?D" for e
    using taken_and_swapped [of u "insert u (set rest)" ?H e ?L] that u by (auto simp: v devices_def free)
  have new: "?v = u \<or> ?v \<notin> ?D" using fr by (auto simp: device_after_def split: option.split)
  show ?thesis
  proof (cases "strands sc")
    case True
    then have "view_of r' = \<lparr>dv_free = set rest, dv_held = ?H, dv_lost = insert u ?L\<rparr>"
      using res leased(1) by (auto simp: view_of_def after_lease_def free)
    moreover have "device_step \<lparr>dv_free = set rest, dv_held = insert u ?H, dv_lost = ?L\<rparr> (view_of r')"
      using device_step.lose [of u "\<lparr>dv_free = set rest, dv_held = insert u ?H, dv_lost = ?L\<rparr>"] u calculation by simp
    ultimately show ?thesis using swap [of u] by (meson rtranclp.rtrancl_into_rtrancl)
  next
    case False
    let ?w = "\<lparr>dv_free = set rest, dv_held = insert ?v ?H, dv_lost = ?L\<rparr>"
    have nh: "?v \<notin> ?H" using new u by auto
    show ?thesis
    proof (cases out)
      case (Inl e)
      then have "view_of r' = \<lparr>dv_free = insert ?v (set rest), dv_held = ?H, dv_lost = ?L\<rparr>"
        using res leased(1) False by (auto simp: view_of_def after_lease_def)
      then have "device_step ?w (view_of r')" using device_step.give_back [of ?v ?w] nh by simp
      then show ?thesis using swap [OF new] by (meson rtranclp.rtrancl_into_rtrancl)
    next
      case (Inr h)
      then have "view_of r' = ?w" using res leased(1) False by (auto simp: view_of_def after_lease_def)
      then show ?thesis using swap [OF new] by simp
    qed
  qed
qed

interpretation pool: simulation "pool_start network udids" "pool_step rs"
    "pool_inv rs (collector_ids network udids) (length udids)" view_of device_step
  for network udids rs
  by unfold_locales (rule pool_start_inv, assumption, rule pool_step_inv, assumption+, rule pool_step_view, assumption+)

section \<open>Defects and lost devices\<close>

lemma defect_simps [simp]:
  "dp_defect (tear_down e p) = dp_defect p" "dp_defect (log_event v p) = dp_defect p"
  "dp_defect (pop_warm u p) = dp_defect p" "dp_defect (stop_lease_resources u c p) = dp_defect p"
  by (simp_all add: tear_down_def log_event_def pop_warm_def stop_lease_resources_def Let_def split: option.split)

lemma adopt_defect [simp]: "dp_defect (snd (adopt_replacement x u p)) = dp_defect p"
  by (simp add: adopt_replacement_def pop_warm_def split: option.split)

lemma failed_defect [simp]: "dp_defect (failed_lease sc u l p) = dp_defect p"
  by (simp add: failed_lease_def Let_def split_beta)

lemma lease_on_defect [simp]: "dp_defect (snd (lease_on rs sc u a e w p)) = dp_defect p"
  by (simp add: lease_on_def Let_def split_beta split: option.split lease_fault.split)

lemma lease_defect: "lease rs sc p = Some (out, q) \<Longrightarrow> dp_defect q = dp_defect p"
proof (cases "dp_free p")
  case (Cons u rest)
  define p2 where "p2 a = (case dict_get (dp_warm p) u of None \<Rightarrow> p\<lparr>dp_free := rest\<rparr>
     | Some rn \<Rightarrow> (if rn_actuator rn \<noteq> a then tear_down (Some (rn_env rn)) (pop_warm u (p\<lparr>dp_free := rest\<rparr>)) else p\<lparr>dp_free := rest\<rparr>))" for a
  have d2: "dp_defect (p2 a) = dp_defect p" for a by (simp add: p2_def split: option.split)
  assume l: "lease rs sc p = Some (out, q)"
  have le: "dp_defect q = dp_defect w" if "lease_on rs sc u a e b w = (out, q)" for a e b w
    using lease_on_defect [of rs sc u a e b w] that by simp
  show ?thesis
  proof (cases "ls_actuator sc")
    case (Inr a)
    then show ?thesis using l d2 [of a] le
      by (auto simp: lease_def Cons Let_def p2_def [symmetric] split: option.splits)
  qed (use l in \<open>auto simp: lease_def Cons\<close>)
qed (simp add: lease_def)

lemma release_defect:
  "dp_defect (release_lease rs ended h p) =
     (case dp_defect p of Some d \<Rightarrow> Some d | None \<Rightarrow> (case ended of Defect e \<Rightarrow> Some e | _ \<Rightarrow> None))"
  by (simp add: release_lease_def Let_def guarded_teardown_def record_lease_defect_def
      split: teardown_result.split option.split)

lemma steps_keep_defect:
  "(pool_step rs)\<^sup>*\<^sup>* r r' \<Longrightarrow> dp_defect (pr_pool r) = Some e \<Longrightarrow> dp_defect (pr_pool r') = Some e"
proof (induction rule: rtranclp_induct)
  case (step s t)
  have "dp_defect (pr_pool t) = Some e" if "dp_defect (pr_pool s) = Some e"
    using step(2) that by (cases rule: pool_step.cases) (simp_all add: after_lease_def lease_defect release_defect)
  then show ?case using step by blast
qed simp

lemma steps_keep_lost: "(pool_step rs)\<^sup>*\<^sup>* r r' \<Longrightarrow> set (pr_lost r) \<subseteq> set (pr_lost r')"
proof (induction rule: rtranclp_induct)
  case (step s t)
  have "set (pr_lost s) \<subseteq> set (pr_lost t)"
    using step(2) by (cases rule: pool_step.cases) (auto simp: after_lease_def)
  then show ?case using step by blast
qed simp

section \<open>Properties\<close>

text \<open>C23: A device is in one place at a time: however leases, failed leases, replacements and releases of
  any number of workers follow one another, the free devices, the devices of the open leases and the lost
  devices are all different, and they are as many as the pool was given.\<close>
theorem leases_are_exclusive:
  assumes "pool_start network udids r0" "(pool_step reusable)\<^sup>*\<^sup>* r0 r"
  shows "distinct (devices r) \<and> length (devices r) = length udids"
  using pool.runs_inv [OF assms] by (simp add: pool_inv_def)

text \<open>C24: The pool implements an exclusive allocator: every sequence of its calls is, on the sets of free,
  held and lost devices, a sequence of takes, replacements by new devices, hand-backs and losses.\<close>
theorem pool_refines_allocator:
  assumes "pool_start network udids r0" "(pool_step reusable)\<^sup>*\<^sup>* r0 r"
  shows "device_step\<^sup>*\<^sup>* (view_of r0) (view_of r)"
  by (rule pool.runs_abs [OF assms])


text \<open>A wiring defect at the end of a lease is not lost: if the teardown of a release fails with one and
  no earlier release did, then whatever the run does afterwards and however the shutdown itself goes, the
  shutdown raises that defect.\<close>
theorem lease_defect_reaches_shutdown:
  assumes "h \<in> set (pr_open r)" "dp_defect (pr_pool r) = None"
    "(pool_step reusable)\<^sup>*\<^sup>* (r\<lparr>pr_pool := release_lease reusable (Defect e) h (pr_pool r),
       pr_open := remove1 h (pr_open r)\<rparr>) r'"
  shows "fst (shutdown tears stops (pr_pool r')) = Some e"
  using steps_keep_defect [OF assms(3), of e] assms(2) by (simp add: release_defect shutdown_def Let_def)

text \<open>A lease whose actuator cannot be selected loses its device: the error leaves the device out of the
  queue, and no later call of the run ever brings it back or leases it.\<close>
theorem failed_selection_loses_the_device:
  assumes "pool_start network udids r0" "(pool_step reusable)\<^sup>*\<^sup>* r0 r" "dp_free (pr_pool r) = u # rest"
    "ls_actuator sc = Inl e" "lease reusable sc (pr_pool r) = Some (out, q)" "fresh_replacement sc r"
    "(pool_step reusable)\<^sup>*\<^sup>* (after_lease sc out q r) r'"
  shows "out = Inl e \<and> u \<notin> set (dp_free (pr_pool r')) \<union> hl_udid ` set (pr_open r')"
proof -
  have "pool_step reusable r (after_lease sc out q r)" by (rule pool_step.leased [OF assms(5,6)])
  then have "(pool_step reusable)\<^sup>*\<^sup>* r0 r'" using assms(2,7) by (meson rtranclp_trans converse_rtranclp_into_rtranclp)
  from pool.runs_inv [OF assms(1) this] have "distinct (devices r')" by (simp add: pool_inv_def)
  moreover have "u \<in> set (pr_lost (after_lease sc out q r))"
    by (simp add: after_lease_def strands_def assms(3,4))
  then have "u \<in> set (pr_lost r')" using steps_keep_lost [OF assms(7)] by blast
  ultimately show ?thesis using assms(3,4,5) by (auto simp: devices_def lease_def)
qed

section \<open>Witnesses\<close>

text \<open>Two simulators and no network: a lease, a second one that switches the actuator after its launch
  failed, and the release of the first.\<close>

definition two_phones :: pool_run where
  "two_phones = \<lparr>pr_pool = device_pool0 [''a'', ''b''] [], pr_open = [], pr_lost = []\<rparr>"

definition plain_lease :: lease_script where
  "plain_lease = \<lparr>ls_actuator = Inr ''xcuitest'', ls_setup_error = None, ls_collector = None, ls_replacement = None, ls_fault = None\<rparr>"

definition replaced_lease :: lease_script where
  "replaced_lease = plain_lease\<lparr>ls_replacement := Some ''c'', ls_fault := Some (AfterWarm ''sink'')\<rparr>"

definition unselected_lease :: lease_script where
  "unselected_lease = plain_lease\<lparr>ls_actuator := Inl ''no backend''\<rparr>"

definition first_lease :: held_lease where
  "first_lease = \<lparr>hl_udid = ''a'', hl_env = 0, hl_collector = None\<rparr>"

lemmas pool_evals = two_phones_def plain_lease_def replaced_lease_def unselected_lease_def first_lease_def
  device_pool0_def lease_def lease_on_def failed_lease_def adopt_replacement_def stop_lease_resources_def
  log_event_def tear_down_def pop_warm_def release_lease_def guarded_teardown_def record_lease_defect_def
  dict_get_def dict_del_def after_lease_def strands_def fresh_replacement_def devices_def

definition one_leased :: pool_run where
  "one_leased = after_lease plain_lease (fst (the (lease (\<lambda>_. True) plain_lease (pr_pool two_phones))))
     (snd (the (lease (\<lambda>_. True) plain_lease (pr_pool two_phones)))) two_phones"

definition one_replaced :: pool_run where
  "one_replaced = after_lease replaced_lease (fst (the (lease (\<lambda>_. True) replaced_lease (pr_pool one_leased))))
     (snd (the (lease (\<lambda>_. True) replaced_lease (pr_pool one_leased)))) one_leased"

definition all_released :: pool_run where
  "all_released = one_replaced\<lparr>pr_pool := release_lease (\<lambda>_. True) (Defect ''wiring'') first_lease (pr_pool one_replaced), pr_open := []\<rparr>"

lemma two_phones_start: "pool_start False [''a'', ''b''] two_phones"
  by (simp add: pool_start_def two_phones_def new_pool_def)

lemma one_leased_step: "pool_step (\<lambda>_. True) two_phones one_leased"
  unfolding one_leased_def by (rule pool_step.leased) (simp_all add: pool_evals)

lemma one_replaced_step: "pool_step (\<lambda>_. True) one_leased one_replaced"
  unfolding one_replaced_def by (rule pool_step.leased) (simp_all add: one_leased_def pool_evals)

lemma one_replaced_value:
  "pr_open one_replaced = [first_lease]" "dp_defect (pr_pool one_replaced) = None"
  "dp_free (pr_pool one_replaced) = [''c'']" "pr_lost one_replaced = []"
  by (simp_all add: one_replaced_def one_leased_def pool_evals)

lemma all_released_step: "pool_step (\<lambda>_. True) one_replaced all_released"
  using pool_step.released [of first_lease one_replaced "\<lambda>_. True" "Defect ''wiring''"]
  by (simp add: one_replaced_value all_released_def)

lemma two_phones_run: "(pool_step (\<lambda>_. True))\<^sup>*\<^sup>* two_phones all_released"
  by (rule converse_rtranclp_into_rtranclp [OF one_leased_step
        converse_rtranclp_into_rtranclp [OF one_replaced_step r_into_rtranclp [of "pool_step _", OF all_released_step]]])

lemma all_released_value:
  "dp_free (pr_pool all_released) = [''c'', ''a'']" "pr_open all_released = []" "pr_lost all_released = []"
  by (simp_all add: all_released_def release_free one_replaced_value) (simp add: first_lease_def)

theorem leases_are_exclusive_witness: "distinct [''c'', ''a''] \<and> length (devices all_released) = 2"
  using leases_are_exclusive [OF two_phones_start two_phones_run] by (simp add: devices_def all_released_value)

theorem pool_refines_allocator_witness:
  "device_step\<^sup>*\<^sup>* \<lparr>dv_free = {''a'', ''b''}, dv_held = {}, dv_lost = {}\<rparr> \<lparr>dv_free = {''c'', ''a''}, dv_held = {}, dv_lost = {}\<rparr>"
  using pool_refines_allocator [OF two_phones_start two_phones_run]
  by (simp add: view_of_def all_released_value) (simp add: two_phones_def device_pool0_def)


theorem lease_defect_reaches_shutdown_witness:
  "fst (shutdown (\<lambda>_. Done) (\<lambda>_. Defect ''other'') (pr_pool all_released)) = Some ''wiring''"
  by (rule lease_defect_reaches_shutdown [of first_lease one_replaced "\<lambda>_. True"])
    (simp_all add: one_replaced_value all_released_def)

theorem failed_selection_loses_the_device_witness:
  "let out = lease (\<lambda>_. True) unselected_lease (pr_pool two_phones)
   in fst (the out) = Inl ''no backend'' \<and> ''a'' \<notin> set (dp_free (snd (the out)))"
proof -
  obtain out q where l: "lease (\<lambda>_. True) unselected_lease (pr_pool two_phones) = Some (out, q)"
    by (simp add: pool_evals)
  have "out = Inl ''no backend'' \<and> ''a'' \<notin> set (dp_free (pr_pool (after_lease unselected_lease out q two_phones))) \<union>
      hl_udid ` set (pr_open (after_lease unselected_lease out q two_phones))"
    by (rule failed_selection_loses_the_device [OF two_phones_start rtranclp.rtrancl_refl _ _ l _ rtranclp.rtrancl_refl,
          where rest = "[''b'']"])
      (simp_all add: pool_evals)
  then show ?thesis using l by (simp add: after_lease_def)
qed

end
