(* ===== verification/Step_Gate.thy ===== *)
theory Step_Gate
  imports Prelude
begin

text \<open>
  The interactive step gate of \<open>run --step\<close> (\<open>src/bajutsu/run/step_gate.py\<close>): when it stops, what
  each line typed at its prompt does, and what it remembers of the run.  The lines typed and what the
  shell command of each line ended in come from the environment; the text it prints is not modelled.
\<close>

section \<open>Words of a line\<close>

text \<open>\<open>line.split(maxsplit=1)[0] if line else ""\<close>, of a stripped line.\<close>

definition verb_of :: "string \<Rightarrow> string" where
  "verb_of line = takeWhile (\<lambda>c. \<not> is_blank c) line"

section \<open>The gate\<close>

record step_pause =
  sp_index :: nat
  sp_name :: "string option"
  sp_driver :: nat

record step_gate =
  sg_stepping :: bool
  sg_breaks :: "string list"
  sg_hit :: "string set"
  sg_break_on_fail :: bool
  sg_session_driver :: "nat option"
  sg_manual_action :: "string option"

definition step_gate0 :: "bool \<Rightarrow> string list \<Rightarrow> bool \<Rightarrow> step_gate" where
  "step_gate0 pause_first breaks break_on_fail =
     \<lparr>sg_stepping = pause_first, sg_breaks = breaks, sg_hit = {}, sg_break_on_fail = break_on_fail,
      sg_session_driver = None, sg_manual_action = None\<rparr>"

definition actuating_verbs :: "string set" where
  "actuating_verbs = {''tap'', ''type'', ''scroll'', ''back'', ''step''}"

text \<open>What the prompt reads, with what the shell made of the line: an error it reports, one that ends
  the run, or an interrupt while it ran.\<close>

datatype command_end = Ran | CommandError | FatalError string | Interrupted
datatype prompt_read = Typed string command_end | EndOfInput | CtrlC

datatype prompt_end = Resumes | EndsRun | Fails string

definition matching_breaks :: "step_pause \<Rightarrow> step_gate \<Rightarrow> string set" where
  "matching_breaks p g = set (sg_breaks g) \<inter>
     ({show_nat (sp_index p)} \<union> (case sp_name p of None \<Rightarrow> {} | Some n \<Rightarrow> if n = [] then {} else {n}))"

definition end_prompt :: "bool \<Rightarrow> step_gate \<Rightarrow> prompt_end \<times> step_gate" where
  "end_prompt at_failure g = (if at_failure then (Resumes, g\<lparr>sg_stepping := False\<rparr>) else (EndsRun, g))"

definition run_command :: "step_pause \<Rightarrow> string \<Rightarrow> step_gate \<Rightarrow> step_gate" where
  "run_command p verb g =
     g\<lparr>sg_manual_action := (if verb \<in> actuating_verbs \<and> sg_manual_action g = None then Some verb
                           else sg_manual_action g),
       sg_session_driver := Some (sp_driver p)\<rparr>"

text \<open>The prompt consumes reads until one of them ends it; \<open>None\<close> when the reads run out.\<close>

fun prompt :: "step_pause \<Rightarrow> bool \<Rightarrow> prompt_read list \<Rightarrow> step_gate \<Rightarrow> (prompt_end \<times> step_gate \<times> prompt_read list) option" where
  "prompt p at_failure [] g = None"
| "prompt p at_failure (r # rs) g =
     (let quits = (let (e, g') = end_prompt at_failure g in Some (e, g', rs)) in
      case r of
        EndOfInput \<Rightarrow> quits
      | CtrlC \<Rightarrow> quits
      | Typed typed outcome \<Rightarrow>
          (let verb = verb_of (strip typed) in
           if verb \<in> {'''', ''next'', ''n''} then Some (Resumes, g\<lparr>sg_stepping := True\<rparr>, rs)
           else if verb \<in> {''continue'', ''c''} then Some (Resumes, g\<lparr>sg_stepping := False\<rparr>, rs)
           else if verb \<in> {''quit'', ''q'', ''exit''} then quits
           else (let g' = run_command p verb g in
                 case outcome of
                   Interrupted \<Rightarrow> (let (e, g'') = end_prompt at_failure g' in Some (e, g'', rs))
                 | FatalError x \<Rightarrow> Some (Fails x, g', rs)
                 | _ \<Rightarrow> prompt p at_failure rs g')))"

text \<open>\<open>before_step\<close>: whether it paused, or how the run ended at the prompt.\<close>

definition before_step :: "step_pause \<Rightarrow> prompt_read list \<Rightarrow> step_gate
    \<Rightarrow> (bool \<times> prompt_end \<times> step_gate \<times> prompt_read list) option" where
  "before_step p rs g =
     (let matched = matching_breaks p g in
      if \<not> (sg_stepping g \<or> matched \<noteq> {}) then Some (False, Resumes, g, rs)
      else map_option (\<lambda>(e, g', rs'). (True, e, g', rs')) (prompt p False rs (g\<lparr>sg_hit := sg_hit g \<union> matched\<rparr>)))"

definition after_failure :: "step_pause \<Rightarrow> prompt_read list \<Rightarrow> step_gate
    \<Rightarrow> (prompt_end \<times> step_gate \<times> prompt_read list) option" where
  "after_failure p rs g =
     (if \<not> (sg_stepping g \<or> sg_break_on_fail g) then Some (Resumes, g, rs) else prompt p True rs g)"

definition unreached_breaks :: "step_gate \<Rightarrow> string list" where
  "unreached_breaks g = sorted_list_of_set (set (sg_breaks g) - sg_hit g)"

text \<open>The pauses of a run: \<open>before_step\<close> ahead of each step, \<open>after_failure\<close> where it failed, until
  the prompt ends the run.\<close>

datatype gate_call = Before step_pause | Failed step_pause

fun gate_calls :: "gate_call list \<Rightarrow> prompt_read list \<Rightarrow> step_gate
    \<Rightarrow> (gate_call list \<times> prompt_end \<times> step_gate \<times> prompt_read list) option" where
  "gate_calls [] rs g = Some ([], Resumes, g, rs)"
| "gate_calls (v # vs) rs g =
     (case (case v of
              Before p \<Rightarrow> map_option snd (before_step p rs g)
            | Failed p \<Rightarrow> after_failure p rs g) of
        None \<Rightarrow> None
      | Some (Resumes, g', rs') \<Rightarrow>
          map_option (\<lambda>(seen, e, h, qs). (v # seen, e, h, qs)) (gate_calls vs rs' g')
      | Some (e, g', rs') \<Rightarrow> Some ([v], e, g', rs'))"

fun pause_of :: "gate_call \<Rightarrow> step_pause" where
  "pause_of (Before p) = p" | "pause_of (Failed p) = p"

section \<open>What the prompt changes\<close>

lemma prompt_keeps:
  "prompt p f rs g = Some (e, h, qs) \<Longrightarrow>
   sg_breaks h = sg_breaks g \<and> sg_hit h = sg_hit g \<and> sg_break_on_fail h = sg_break_on_fail g"
  by (induction p f rs g rule: prompt.induct)
    (auto simp: Let_def end_prompt_def run_command_def split: if_splits prompt_read.splits command_end.splits)

lemma prompt_at_failure: "prompt p True rs g = Some (e, h, qs) \<Longrightarrow> e \<noteq> EndsRun"
  by (induction p True rs g rule: prompt.induct)
    (auto simp: Let_def end_prompt_def split: if_splits prompt_read.splits command_end.splits)

text \<open>The first actuating verb of the reads a prompt consumed.\<close>

fun actuates :: "prompt_read \<Rightarrow> string option" where
  "actuates (Typed typed outcome) =
     (if verb_of (strip typed) \<in> actuating_verbs then Some (verb_of (strip typed)) else None)"
| "actuates _ = None"

definition or_first :: "string option \<Rightarrow> prompt_read list \<Rightarrow> string option" where
  "or_first m rs = (case m of None \<Rightarrow> first_some actuates rs | Some v \<Rightarrow> Some v)"

lemma or_first_Nil [simp]: "or_first m [] = m"
  by (simp add: or_first_def split: option.split)

lemma or_first_append: "or_first m (rs @ qs) = or_first (or_first m rs) qs"
proof -
  have "first_some actuates (rs @ qs) = or_first (first_some actuates rs) qs"
    by (induction rs) (auto simp: or_first_def split: option.split)
  then show ?thesis by (simp add: or_first_def split: option.split)
qed

definition plain_verbs :: "string set" where
  "plain_verbs = {[], ''next'', ''n'', ''continue'', ''c'', ''quit'', ''q'', ''exit''}"

lemma plain_verbs_idle: "v \<in> plain_verbs \<Longrightarrow> v \<notin> actuating_verbs"
  by (auto simp: plain_verbs_def actuating_verbs_def)

lemma run_command_manual:
  "sg_manual_action (run_command p (verb_of (strip typed)) g) = or_first (sg_manual_action g) [Typed typed outcome]"
  by (simp add: run_command_def or_first_def split: option.split)

lemma prompt_manual:
  "prompt p f rs g = Some (e, h, qs) \<Longrightarrow>
   \<exists>used. rs = used @ qs \<and> sg_manual_action h = or_first (sg_manual_action g) used"
proof (induction rs arbitrary: g)
  case (Cons r rs)
  have here: ?case if "qs = rs" "sg_manual_action h = or_first (sg_manual_action g) [r]"
    using that by (intro exI [of _ "[r]"]) simp
  show ?case
  proof (cases r)
    case (Typed typed outcome)
    let ?v = "verb_of (strip typed)" and ?g = "run_command p (verb_of (strip typed)) g"
    show ?thesis
    proof (cases "?v \<in> plain_verbs")
      case True
      have "qs = rs \<and> sg_manual_action h = sg_manual_action g"
        using Cons(2) True Typed by (auto simp: Let_def end_prompt_def plain_verbs_def split: if_splits)
      moreover have "or_first (sg_manual_action g) [r] = sg_manual_action g"
        using plain_verbs_idle [OF True] Typed by (simp add: or_first_def split: option.split)
      ultimately show ?thesis using here by simp
    next
      case False
      then have p: "prompt p f (r # rs) g = (case outcome of
          Interrupted \<Rightarrow> (let (e, g'') = end_prompt f ?g in Some (e, g'', rs))
        | FatalError x \<Rightarrow> Some (Fails x, ?g, rs) | _ \<Rightarrow> prompt p f rs ?g)"
        by (simp add: Typed Let_def plain_verbs_def)
      have g: "sg_manual_action ?g = or_first (sg_manual_action g) [r]"
        unfolding Typed by (rule run_command_manual)
      from Cons(2) have "(qs = rs \<and> sg_manual_action h = sg_manual_action ?g) \<or> prompt p f rs ?g = Some (e, h, qs)"
        unfolding p by (cases outcome) (auto simp: end_prompt_def split: if_splits)
      then show ?thesis
      proof
        assume "qs = rs \<and> sg_manual_action h = sg_manual_action ?g"
        then show ?thesis using here g by simp
      next
        assume "prompt p f rs ?g = Some (e, h, qs)"
        then obtain used where u: "rs = used @ qs" "sg_manual_action h = or_first (sg_manual_action ?g) used"
          using Cons(1) by blast
        then have "r # rs = (r # used) @ qs" "sg_manual_action h = or_first (sg_manual_action g) (r # used)"
          using or_first_append [of "sg_manual_action g" "[r]" used] g by simp_all
        then show ?thesis by blast
      qed
    qed
  qed (use Cons(2) here in \<open>auto simp: Let_def end_prompt_def or_first_def split: if_splits option.split\<close>)
qed simp

section \<open>A whole run\<close>

fun break_keys :: "gate_call \<Rightarrow> string set" where
  "break_keys (Before p) = insert (show_nat (sp_index p)) (case sp_name p of None \<Rightarrow> {} | Some n \<Rightarrow> if n = [] then {} else {n})"
| "break_keys (Failed p) = {}"

lemma before_step_effect:
  assumes "before_step p rs g = Some (paused, e, h, qs)"
  shows "sg_breaks h = sg_breaks g" "sg_hit h = sg_hit g \<union> (set (sg_breaks g) \<inter> break_keys (Before p))"
    "\<exists>used. rs = used @ qs \<and> sg_manual_action h = or_first (sg_manual_action g) used"
proof -
  let ?m = "matching_breaks p g"
  have m: "?m = set (sg_breaks g) \<inter> break_keys (Before p)" by (simp add: matching_breaks_def)
  show "sg_breaks h = sg_breaks g" "sg_hit h = sg_hit g \<union> (set (sg_breaks g) \<inter> break_keys (Before p))"
    "\<exists>used. rs = used @ qs \<and> sg_manual_action h = or_first (sg_manual_action g) used"
    using assms m prompt_keeps [of p False rs "g\<lparr>sg_hit := sg_hit g \<union> ?m\<rparr>" e h qs]
      prompt_manual [of p False rs "g\<lparr>sg_hit := sg_hit g \<union> ?m\<rparr>" e h qs]
    by (auto simp: before_step_def Let_def split: if_splits)
qed

lemma after_failure_effect:
  assumes "after_failure p rs g = Some (e, h, qs)"
  shows "sg_breaks h = sg_breaks g" "sg_hit h = sg_hit g"
    "\<exists>used. rs = used @ qs \<and> sg_manual_action h = or_first (sg_manual_action g) used" "e \<noteq> EndsRun"
  using assms prompt_keeps prompt_manual prompt_at_failure
  by (auto simp: after_failure_def split: if_splits)

lemma gate_call_effect:
  assumes "(case v of Before p \<Rightarrow> map_option snd (before_step p rs g) | Failed p \<Rightarrow> after_failure p rs g) = Some (e, h, qs)"
  shows "sg_breaks h = sg_breaks g \<and> sg_hit h = sg_hit g \<union> (set (sg_breaks g) \<inter> break_keys v) \<and>
    (\<exists>used. rs = used @ qs \<and> sg_manual_action h = or_first (sg_manual_action g) used)"
proof (cases v)
  case (Before p)
  then obtain paused where "before_step p rs g = Some (paused, e, h, qs)" using assms by auto
  from before_step_effect [OF this] show ?thesis using Before by simp
next
  case (Failed p)
  then have "after_failure p rs g = Some (e, h, qs)" using assms by simp
  from after_failure_effect [OF this] show ?thesis using Failed by simp
qed

lemma gate_calls_effect:
  "gate_calls vs rs g = Some (seen, e, h, qs) \<Longrightarrow>
   sg_breaks h = sg_breaks g \<and> sg_hit h = sg_hit g \<union> (set (sg_breaks g) \<inter> \<Union> (break_keys ` set seen)) \<and>
   (\<exists>used. rs = used @ qs \<and> sg_manual_action h = or_first (sg_manual_action g) used)"
proof (induction vs arbitrary: rs g seen)
  case (Cons v vs)
  let ?r = "case v of Before p \<Rightarrow> map_option snd (before_step p rs g) | Failed p \<Rightarrow> after_failure p rs g"
  obtain e' g' rs' where r: "?r = Some (e', g', rs')" using Cons(2) by (cases ?r) auto
  note ef = gate_call_effect [OF r]
  obtain used where u: "rs = used @ rs'" "sg_manual_action g' = or_first (sg_manual_action g) used" using ef by blast
  show ?case
  proof (cases "e' = Resumes")
    case False
    then have "seen = [v]" "h = g'" "qs = rs'" using Cons(2) r by (auto split: prompt_end.splits)
    then show ?thesis using ef by simp
  next
    case True
    then obtain seen' where s: "gate_calls vs rs' g' = Some (seen', e, h, qs)" "seen = v # seen'"
      using Cons(2) r by auto
    from Cons(1) [OF s(1)] obtain used' where u': "rs' = used' @ qs"
      "sg_manual_action h = or_first (sg_manual_action g') used'" by blast
    have "rs = (used @ used') @ qs" "sg_manual_action h = or_first (sg_manual_action g) (used @ used')"
      using u u' by (simp_all add: or_first_append)
    then show ?thesis using Cons(1) [OF s(1)] ef s(2) by auto
  qed
qed simp

section \<open>Properties\<close>

text \<open>C27: The step gate reports the unreached breakpoints exactly, and marks a hand-driven run: after any
  run the breakpoints it lists are those that name neither the number nor the name of a step it was
  asked about, and the manual action it records is the first command of the prompts that acts on the
  application, so it records none precisely when no such command was typed.\<close>
theorem step_gate_remembers_exactly:
  assumes "gate_calls vs rs (step_gate0 pause_first breaks on_fail) = Some (seen, e, h, qs)"
  shows "unreached_breaks h = sorted_list_of_set (set breaks - \<Union> (break_keys ` set seen)) \<and>
    (\<exists>used. rs = used @ qs \<and> sg_manual_action h = first_some actuates used)"
proof -
  from gate_calls_effect [OF assms] have "sg_breaks h = breaks" "sg_hit h = set breaks \<inter> \<Union> (break_keys ` set seen)"
    and m: "\<exists>used. rs = used @ qs \<and> sg_manual_action h = or_first None used"
    by (simp_all add: step_gate0_def)
  then have "set (sg_breaks h) - sg_hit h = set breaks - \<Union> (break_keys ` set seen)" by auto
  then show ?thesis using m by (simp add: unreached_breaks_def or_first_def)
qed

definition login_pause :: step_pause where
  "login_pause = \<lparr>sp_index = 0, sp_name = Some ''login'', sp_driver = 0\<rparr>"

lemma login_gate_calls:
  "gate_calls [Before login_pause] [Typed ''tap ok'' Ran, Typed ''c'' Ran] (step_gate0 False [''login'', ''pay''] False) =
     Some ([Before login_pause], Resumes,
       \<lparr>sg_stepping = False, sg_breaks = [''login'', ''pay''], sg_hit = {''login''}, sg_break_on_fail = False,
        sg_session_driver = Some 0, sg_manual_action = Some ''tap''\<rparr>, [])"
proof -
  have "verb_of (strip ''tap ok'') = ''tap''" "verb_of (strip ''c'') = ''c''" by code_simp+
  moreover have "matching_breaks login_pause (step_gate0 False [''login'', ''pay''] False) = {''login''}"
    by (auto simp: matching_breaks_def login_pause_def step_gate0_def show_nat.simps)
  ultimately show ?thesis
    by (simp add: before_step_def run_command_def actuating_verbs_def step_gate0_def login_pause_def Let_def)
qed

theorem step_gate_remembers_exactly_witness:
  "''pay'' \<notin> break_keys (Before login_pause) \<and> first_some actuates [Typed ''tap ok'' Ran, Typed ''c'' Ran] = Some ''tap''"
  using step_gate_remembers_exactly [OF login_gate_calls]
  by (auto simp: login_pause_def show_nat.simps)

end
