(* ===== verification/Interpolation.thy ===== *)
theory Interpolation
  imports Network_Match
begin

text \<open>
  Token substitution in scenario values (\<open>src/bajutsu/common/scenario/interp.py\<close>): the tokens
  \<open>${...}\<close> of a text, and their replacement in every text of a nested value.  \<open>str_of\<close> stands for
  \<open>str\<close> of a bound value that is not a text.
\<close>

section \<open>Tokens of a text\<close>

definition close_brace :: char where "close_brace = char_of (125 :: nat)"
definition open_token :: string where "open_token = [char_of (36 :: nat), char_of (123 :: nat)]"

text \<open>The match of \<open>\$\{([^}]+)\}\<close> at the start of a text: its group and the rest.\<close>

definition token_at :: "string \<Rightarrow> (string \<times> string) option" where
  "token_at s =
     (let body = takeWhile (\<lambda>c. c \<noteq> close_brace) (drop 2 s); rest = dropWhile (\<lambda>c. c \<noteq> close_brace) (drop 2 s)
      in if take 2 s = open_token \<and> body \<noteq> [] \<and> rest \<noteq> [] then Some (body, tl rest) else None)"

datatype piece = Lit char | Tok string

lemma token_at_shorter: "token_at s = Some (body, rest) \<Longrightarrow> length rest < length s"
proof -
  assume a: "token_at s = Some (body, rest)"
  then have r: "rest = tl (dropWhile (\<lambda>c. c \<noteq> close_brace) (drop 2 s))" "take 2 s = open_token"
    by (auto simp: token_at_def Let_def split: if_splits)
  have "0 < length s" using r(2) by (auto simp: open_token_def)
  moreover have "length (dropWhile (\<lambda>c. c \<noteq> close_brace) (drop 2 s)) \<le> length s - 2"
    using length_dropWhile_le [of "\<lambda>c. c \<noteq> close_brace" "drop 2 s"] by simp
  ultimately show ?thesis unfolding r(1) length_tl by linarith
qed

function pieces :: "string \<Rightarrow> piece list" where
  "pieces [] = []"
| "pieces (c # s) = (case token_at (c # s) of
     Some (body, rest) \<Rightarrow> Tok body # pieces rest
   | None \<Rightarrow> Lit c # pieces s)"
  by pat_completeness auto
termination by (relation "measure length") (auto dest: token_at_shorter)

declare pieces.simps(2) [simp del]

fun piece_text :: "piece \<Rightarrow> string" where
  "piece_text (Lit c) = [c]"
| "piece_text (Tok body) = open_token @ body @ [close_brace]"

section \<open>Values\<close>

definition is_reference :: "string \<Rightarrow> bool" where
  "is_reference s \<longleftrightarrow> (\<exists>body. token_at s = Some (body, []))"

definition text_tokens :: "string \<Rightarrow> string set" where
  "text_tokens s = {strip body | body. Tok body \<in> set (pieces s)}"

fun find_tokens :: "json \<Rightarrow> string set" where
  "find_tokens (JStr s) = text_tokens s"
| "find_tokens (JObj kvs) = \<Union> (set (map (\<lambda>kv. find_tokens (snd kv)) kvs))"
| "find_tokens (JArr vs) = \<Union> (set (map find_tokens vs))"
| "find_tokens _ = {}"

fun substitute :: "(json \<Rightarrow> string) \<Rightarrow> (string \<Rightarrow> json option) \<Rightarrow> piece \<Rightarrow> string" where
  "substitute str_of bindings (Lit c) = [c]"
| "substitute str_of bindings (Tok body) =
     (case bindings (strip body) of
        Some v \<Rightarrow> (case v of JStr s \<Rightarrow> s | _ \<Rightarrow> str_of v)
      | None \<Rightarrow> piece_text (Tok body))"

definition interp_str :: "(json \<Rightarrow> string) \<Rightarrow> (string \<Rightarrow> json option) \<Rightarrow> string \<Rightarrow> json" where
  "interp_str str_of bindings s =
     (case token_at s of
        Some (body, []) \<Rightarrow>
          (case bindings (strip body) of Some v \<Rightarrow> v
           | None \<Rightarrow> JStr (concat (map (substitute str_of bindings) (pieces s))))
      | _ \<Rightarrow> JStr (concat (map (substitute str_of bindings) (pieces s))))"

fun interpolate :: "(json \<Rightarrow> string) \<Rightarrow> (string \<Rightarrow> json option) \<Rightarrow> json \<Rightarrow> json" where
  "interpolate str_of bindings (JStr s) = interp_str str_of bindings s"
| "interpolate str_of bindings (JObj kvs) = JObj (map (\<lambda>kv. (fst kv, interpolate str_of bindings (snd kv))) kvs)"
| "interpolate str_of bindings (JArr vs) = JArr (map (interpolate str_of bindings) vs)"
| "interpolate str_of bindings v = v"

section \<open>Reading a text back\<close>

lemma token_at_Some:
  assumes "token_at s = Some (body, rest)"
  shows "s = open_token @ body @ close_brace # rest \<and> body \<noteq> [] \<and> close_brace \<notin> set body"
proof -
  let ?b = "takeWhile (\<lambda>c. c \<noteq> close_brace) (drop 2 s)" and ?r = "dropWhile (\<lambda>c. c \<noteq> close_brace) (drop 2 s)"
  have c: "take 2 s = open_token \<and> ?b \<noteq> [] \<and> ?r \<noteq> []"
  proof (rule ccontr)
    assume n: "\<not> ?thesis"
    from assms show False unfolding token_at_def Let_def if_not_P [OF n] by blast
  qed
  then have e: "body = ?b" "rest = tl ?r"
    using assms unfolding token_at_def Let_def if_P [OF c] by blast+
  have "?r = hd ?r # tl ?r" using list.collapse [of ?r] c by metis
  moreover have "hd ?r = close_brace" using c hd_dropWhile [of "\<lambda>c. c \<noteq> close_brace" "drop 2 s"] by blast
  ultimately have r: "?r = close_brace # rest" using e(2) by simp
  have "s = take 2 s @ drop 2 s" by (simp only: append_take_drop_id)
  also have "drop 2 s = ?b @ ?r" by (simp only: takeWhile_dropWhile_id)
  finally have "s = open_token @ body @ close_brace # rest" using c unfolding r e(1) by (simp only:)
  moreover have "close_brace \<notin> set ?b" by (auto dest: set_takeWhileD)
  ultimately show ?thesis using c unfolding e(1) [symmetric] by blast
qed

lemma pieces_text: "concat (map piece_text (pieces s)) = s"
proof (induction s rule: pieces.induct)
  case (2 c s)
  show ?case
  proof (cases "token_at (c # s)")
    case None
    then show ?thesis using 2(1) by (simp add: pieces.simps(2))
  next
    case (Some p)
    obtain body rest where p: "p = (body, rest)" by fastforce
    then have e: "c # s = open_token @ body @ close_brace # rest" using token_at_Some Some by blast
    have "concat (map piece_text (pieces (c # s))) = open_token @ body @ close_brace # rest"
      using 2(2) [OF Some p [symmetric]] Some p by (simp add: pieces.simps(2))
    then show ?thesis by (simp only: e)
  qed
qed simp

section \<open>No bound token is left\<close>

lemma token_at_text:
  "body \<noteq> [] \<Longrightarrow> close_brace \<notin> set body \<Longrightarrow> token_at (open_token @ body @ close_brace # t) = Some (body, t)"
proof -
  assume b: "body \<noteq> []" "close_brace \<notin> set body"
  have "drop 2 (open_token @ body @ close_brace # t) = body @ close_brace # t"
    "take 2 (open_token @ body @ close_brace # t) = open_token" by (simp_all add: open_token_def)
  moreover have "takeWhile (\<lambda>c. c \<noteq> close_brace) (body @ close_brace # t) = body"
    "dropWhile (\<lambda>c. c \<noteq> close_brace) (body @ close_brace # t) = close_brace # t"
    using b(2) by (auto simp: takeWhile_append dropWhile_append)
  ultimately show ?thesis using b(1) by (simp add: token_at_def)
qed

lemma token_at_head: "token_at (c # s) \<noteq> None \<Longrightarrow> c = char_of (36 :: nat)"
  by (auto simp: token_at_def Let_def open_token_def numeral_2_eq_2 split: if_splits)

lemma pieces_plain: "char_of (36 :: nat) \<notin> set v \<Longrightarrow> pieces (v @ t) = map Lit v @ pieces t"
proof (induction v)
  case (Cons c v)
  then have "token_at (c # v @ t) = None" using token_at_head by fastforce
  with Cons show ?case by (simp add: pieces.simps(2))
qed simp

text \<open>A text that cannot be part of a token.\<close>

definition plain_text :: "string \<Rightarrow> bool" where
  "plain_text v \<longleftrightarrow> v \<noteq> [] \<and> char_of (36 :: nat) \<notin> set v \<and> char_of (123 :: nat) \<notin> set v"

definition filled :: "(string \<Rightarrow> json option) \<Rightarrow> piece \<Rightarrow> piece list" where
  "filled bindings p = (case p of
     Lit c \<Rightarrow> [Lit c]
   | Tok body \<Rightarrow> (case bindings (strip body) of Some (JStr v) \<Rightarrow> map Lit v | _ \<Rightarrow> [Tok body]))"

definition plain_bindings :: "(string \<Rightarrow> json option) \<Rightarrow> bool" where
  "plain_bindings bindings \<longleftrightarrow> (\<forall>k v. bindings k = Some v \<longrightarrow> (\<exists>t. v = JStr t \<and> plain_text t))"

abbreviation text_after :: "(json \<Rightarrow> string) \<Rightarrow> (string \<Rightarrow> json option) \<Rightarrow> string \<Rightarrow> string" where
  "text_after str_of bindings s \<equiv> concat (map (substitute str_of bindings) (pieces s))"

lemma no_close_no_token: "close_brace \<notin> set s \<Longrightarrow> pieces s = map Lit s"
proof (induction s)
  case (Cons c s)
  have "token_at (c # s) = None"
  proof (rule ccontr)
    assume "token_at (c # s) \<noteq> None"
    then obtain body rest where "token_at (c # s) = Some (body, rest)" by auto
    from token_at_Some [OF this] have "close_brace \<in> set (c # s)" by simp
    then show False using Cons(2) by simp
  qed
  with Cons show ?case by (simp add: pieces.simps(2))
qed simp

lemma text_after_Lit: "text_after str_of bindings s = s" if "pieces s = map Lit s"
  using that by (simp add: o_def)

lemma text_after_head:
  assumes pb: "plain_bindings bindings" and h: "text_after str_of bindings s = char_of (123 :: nat) # u"
  shows "\<exists>t. s = char_of (123 :: nat) # t \<and> u = text_after str_of bindings t"
proof (cases s)
  case (Cons c t)
  show ?thesis
  proof (cases "token_at (c # t)")
    case None
    then show ?thesis using h Cons by (simp add: pieces.simps(2))
  next
    case (Some p)
    obtain body rest where p: "p = (body, rest)" by fastforce
    have h': "substitute str_of bindings (Tok body) @ text_after str_of bindings rest = char_of (123 :: nat) # u"
      using h Some p Cons by (simp add: pieces.simps(2))
    have "substitute str_of bindings (Tok body) \<noteq> [] \<and> hd (substitute str_of bindings (Tok body)) \<noteq> char_of (123 :: nat)"
    proof (cases "bindings (strip body)")
      case None
      then show ?thesis by (simp add: open_token_def)
    next
      case (Some v)
      then obtain w where "v = JStr w" "plain_text w" using pb by (auto simp: plain_bindings_def)
      then show ?thesis using Some by (cases w) (auto simp: plain_text_def)
    qed
    then show ?thesis using h' by (cases "substitute str_of bindings (Tok body)") auto
  qed
qed (use h in simp)

lemma literal_stays_literal:
  assumes pb: "plain_bindings bindings" and n: "token_at (c # s) = None"
  shows "token_at (c # text_after str_of bindings s) = None"
proof (rule ccontr)
  let ?o = "text_after str_of bindings"
  assume "token_at (c # ?o s) \<noteq> None"
  then obtain body rest where "token_at (c # ?o s) = Some (body, rest)" by (metis not_None_eq prod.collapse)
  from token_at_Some [OF this] have b: "c # ?o s = open_token @ body @ close_brace # rest" "body \<noteq> []"
    "close_brace \<notin> set body" by auto
  then have c: "c = char_of (36 :: nat)" and o: "?o s = char_of (123 :: nat) # body @ close_brace # rest"
    by (simp_all add: open_token_def)
  from text_after_head [OF pb o] obtain t where t: "s = char_of (123 :: nat) # t" "?o t = body @ close_brace # rest"
    by auto
  show False
  proof (cases "close_brace \<in> set t")
    case False
    then have "?o t = t" using text_after_Lit no_close_no_token by blast
    then show False using t(2) False by auto
  next
    case True
    let ?b = "takeWhile (\<lambda>c. c \<noteq> close_brace) t"
    have "dropWhile (\<lambda>c. c \<noteq> close_brace) t \<noteq> []" using True by auto
    then have d: "dropWhile (\<lambda>c. c \<noteq> close_brace) t = close_brace # tl (dropWhile (\<lambda>c. c \<noteq> close_brace) t)"
      using hd_dropWhile by (metis (mono_tags, lifting) list.collapse)
    then have e: "t = ?b @ close_brace # tl (dropWhile (\<lambda>c. c \<noteq> close_brace) t)" by (metis takeWhile_dropWhile_id)
    have "?b = []"
    proof (rule ccontr)
      assume "?b \<noteq> []"
      then have "token_at (open_token @ ?b @ close_brace # tl (dropWhile (\<lambda>c. c \<noteq> close_brace) t)) \<noteq> None"
        using token_at_text [of ?b] by (auto dest: set_takeWhileD)
      then show False using n c t(1) e by (metis append_Cons append_Nil open_token_def)
    qed
    then obtain t' where t': "t = close_brace # t'" using e by simp
    then have "token_at t = None"
      by (auto simp: token_at_def Let_def open_token_def close_brace_def numeral_2_eq_2)
    then have "?o t = close_brace # ?o t'" using t' by (simp add: pieces.simps(2))
    then show False using t(2) b(2,3) by (cases body) auto
  qed
qed

lemma pieces_after:
  assumes pb: "plain_bindings bindings"
  shows "pieces (text_after str_of bindings s) = concat (map (filled bindings) (pieces s))"
proof (induction s rule: pieces.induct)
  case (2 c s)
  show ?case
  proof (cases "token_at (c # s)")
    case None
    then show ?thesis using 2(1) literal_stays_literal [OF pb None, of str_of]
      by (simp add: pieces.simps(2) filled_def)
  next
    case (Some p)
    obtain body rest where p: "p = (body, rest)" by fastforce
    note tk = token_at_Some [OF Some [unfolded p]]
    note IH = 2(2) [OF Some p [symmetric]]
    show ?thesis
    proof (cases "bindings (strip body)")
      case None
      have "text_after str_of bindings (c # s) = open_token @ body @ close_brace # text_after str_of bindings rest"
        using Some p None by (simp add: pieces.simps(2))
      moreover have "token_at \<dots> = Some (body, text_after str_of bindings rest)"
        using token_at_text tk by blast
      ultimately have "pieces (text_after str_of bindings (c # s)) = Tok body # pieces (text_after str_of bindings rest)"
        by (simp add: pieces.simps(2) open_token_def)
      then show ?thesis using IH Some p None by (simp add: pieces.simps(2) filled_def)
    next
      case v: (Some v)
      then obtain w where w: "v = JStr w" "plain_text w" using pb by (auto simp: plain_bindings_def)
      then have "text_after str_of bindings (c # s) = w @ text_after str_of bindings rest"
        using Some p v by (simp add: pieces.simps(2))
      then show ?thesis using IH Some p v w pieces_plain [of w]
        by (simp add: pieces.simps(2) filled_def plain_text_def)
    qed
  qed
qed simp

lemma text_tokens_after:
  assumes pb: "plain_bindings bindings"
  shows "text_tokens (text_after str_of bindings s) = {k \<in> text_tokens s. bindings k = None}"
proof -
  have one: "Tok body \<in> set (filled bindings q) \<longleftrightarrow> q = Tok body \<and> bindings (strip body) = None" for body q
  proof (cases q)
    case (Tok b)
    show ?thesis
    proof (cases "bindings (strip b)")
      case (Some v)
      then obtain w where "v = JStr w" using pb by (auto simp: plain_bindings_def)
      then show ?thesis using Some Tok by (auto simp: filled_def)
    qed (use Tok in \<open>auto simp: filled_def\<close>)
  qed (auto simp: filled_def)
  have "Tok body \<in> set (concat (map (filled bindings) ps)) \<longleftrightarrow> Tok body \<in> set ps \<and> bindings (strip body) = None" for body ps
    by (auto simp: one)
  then show ?thesis unfolding text_tokens_def pieces_after [OF pb] by auto
qed

lemma interp_str_tokens:
  assumes pb: "plain_bindings bindings"
  shows "find_tokens (interp_str str_of bindings s) = {k \<in> text_tokens s. bindings k = None}"
proof (cases "\<exists>body v. token_at s = Some (body, []) \<and> bindings (strip body) = Some v")
  case True
  then obtain body v where b: "token_at s = Some (body, [])" "bindings (strip body) = Some v" by blast
  then have "pieces s = [Tok body]" by (cases s) (auto simp: pieces.simps(2) token_at_def)
  moreover obtain w where "v = JStr w" using b(2) pb by (auto simp: plain_bindings_def)
  moreover from this have "plain_text w" using b(2) pb by (force simp: plain_bindings_def)
  then have "text_tokens w = {}"
    using pieces_plain [of w "[]"] by (auto simp: text_tokens_def plain_text_def)
  ultimately show ?thesis using b by (auto simp: interp_str_def text_tokens_def)
next
  case False
  then have "interp_str str_of bindings s = JStr (text_after str_of bindings s)"
    by (auto simp: interp_str_def split: option.split list.split)
  then show ?thesis using text_tokens_after [OF pb] by simp
qed

section \<open>Properties\<close>


definition user_binding :: "string \<Rightarrow> json option" where
  "user_binding = (\<lambda>k. if k = ''params.user'' then Some (JStr ''ada'') else None)"


end
