(* ===== verification/Expansion.thy ===== *)
theory Expansion
  imports Interpolation
begin

text \<open>
  Component, group and target-group expansion of scenario steps
  (\<open>src/bajutsu/common/scenario/expand.py\<close>).  A step is its name, target, the other modifiers, its
  report group and its one action; the actions that hold no steps are values.  \<open>resolve chain ref\<close> is
  the component a reference names inside the components of \<open>chain\<close> (a scoped resolver looks at it, a
  plain one does not), and \<open>invalid\<close> the model validation of a substituted step.
\<close>

section \<open>Steps\<close>

datatype step = Step (st_name: "string option") (st_target: "string option") (st_modifiers: json)
    (st_report: "(string \<times> nat) option") (st_body: body)
and body = Act json | SetPrimaryTarget json
  | Group string "step list" | Steps "step list" | Use string "(string \<times> string) list"
  | If json "step list" "step list option" | ForEach json "step list" | Web json "step list" | App json "step list"

record component =
  cp_params :: "string list"
  cp_steps :: "step list"

datatype block = InIf | InForEach | InWeb | InApp

datatype label = GroupLabel string | TargetGroupLabel "string option" | UseLabel string | StepLabel "string option"

datatype expand_error = TooDeep "string list" | GroupInBody string block | NestedGroup string string
  | TargetConflict "label list" string string | SetPrimaryInTargetGroup "label list" | TargetGroupInBlock
  | Cycle "string list" | Unresolved string | MissingParams string "string list"
  | UnknownParams string "string list" | InvalidStep string | UndeclaredParams string "string list"

text \<open>The keyword arguments of the recursive \<open>expand\<close>.\<close>

record level =
  lv_stack :: "string list"
  lv_group :: "(string \<times> nat) option"
  lv_level_target :: "string option"
  lv_body_target :: "string option"
  lv_path :: "label list"
  lv_body :: "block option"

definition top_level :: level where
  "top_level = \<lparr>lv_stack = [], lv_group = None, lv_level_target = None, lv_body_target = None, lv_path = [], lv_body = None\<rparr>"

section \<open>Substitution in steps\<close>

definition text_bindings :: "(string \<times> string) list \<Rightarrow> string \<Rightarrow> json option" where
  "text_bindings args = (\<lambda>k. map_option JStr (map_of (map (\<lambda>(p, v). (''params.'' @ p, v)) args) k))"

definition interp_text :: "(string \<Rightarrow> json option) \<Rightarrow> string \<Rightarrow> string" where
  "interp_text b s = (case interp_str (\<lambda>_. []) b s of JStr t \<Rightarrow> t | _ \<Rightarrow> s)"

abbreviation interp_value :: "(string \<Rightarrow> json option) \<Rightarrow> json \<Rightarrow> json" where
  "interp_value \<equiv> interpolate (\<lambda>_. [])"

fun interp_step :: "(string \<Rightarrow> json option) \<Rightarrow> step \<Rightarrow> step"
and interp_body :: "(string \<Rightarrow> json option) \<Rightarrow> body \<Rightarrow> body" where
  "interp_step b (Step nm tg md rp act) =
     Step (map_option (interp_text b) nm) (map_option (interp_text b) tg) (interp_value b md) rp (interp_body b act)"
| "interp_body b (Act v) = Act (interp_value b v)"
| "interp_body b (SetPrimaryTarget v) = SetPrimaryTarget (interp_value b v)"
| "interp_body b (Group name ss) = Group (interp_text b name) (map (interp_step b) ss)"
| "interp_body b (Steps ss) = Steps (map (interp_step b) ss)"
| "interp_body b (Use ref args) = Use (interp_text b ref) (map (\<lambda>(k, v). (k, interp_text b v)) args)"
| "interp_body b (If v th el) =
     If (interp_value b v) (map (interp_step b) th) (map_option (map (interp_step b)) el)"
| "interp_body b (ForEach v ss) = ForEach (interp_value b v) (map (interp_step b) ss)"
| "interp_body b (Web v ss) = Web (interp_value b v) (map (interp_step b) ss)"
| "interp_body b (App v ss) = App (interp_value b v) (map (interp_step b) ss)"

definition option_tokens :: "string option \<Rightarrow> string set" where
  "option_tokens x = (case x of None \<Rightarrow> {} | Some s \<Rightarrow> text_tokens s)"

fun step_tokens :: "step \<Rightarrow> string set" and body_tokens :: "body \<Rightarrow> string set" where
  "step_tokens (Step nm tg md rp act) = option_tokens nm \<union> option_tokens tg \<union> find_tokens md \<union> body_tokens act"
| "body_tokens (Act v) = find_tokens v"
| "body_tokens (SetPrimaryTarget v) = find_tokens v"
| "body_tokens (Group name ss) = text_tokens name \<union> \<Union> (set (map step_tokens ss))"
| "body_tokens (Steps ss) = \<Union> (set (map step_tokens ss))"
| "body_tokens (Use ref args) = text_tokens ref \<union> \<Union> (set (map (\<lambda>kv. text_tokens (snd kv)) args))"
| "body_tokens (If v th el) = find_tokens v \<union> \<Union> (set (map step_tokens th)) \<union>
     (case el of None \<Rightarrow> {} | Some ss \<Rightarrow> \<Union> (set (map step_tokens ss)))"
| "body_tokens (ForEach v ss) = find_tokens v \<union> \<Union> (set (map step_tokens ss))"
| "body_tokens (Web v ss) = find_tokens v \<union> \<Union> (set (map step_tokens ss))"
| "body_tokens (App v ss) = find_tokens v \<union> \<Union> (set (map step_tokens ss))"

text \<open>\<open>_interp_steps\<close>: each substituted step is validated again, the first failure raised.\<close>

definition interp_steps :: "(step \<Rightarrow> string option) \<Rightarrow> (string \<Rightarrow> json option) \<Rightarrow> step list
    \<Rightarrow> expand_error + step list" where
  "interp_steps invalid b ss =
     each (\<lambda>st. case invalid (interp_step b st) of None \<Rightarrow> Inr (interp_step b st) | Some e \<Rightarrow> Inl (InvalidStep e)) ss"

section \<open>Expansion\<close>

definition check_group_position :: "string \<Rightarrow> level \<Rightarrow> expand_error + unit" where
  "check_group_position name lv =
     (case lv_body lv of
        Some k \<Rightarrow> Inl (GroupInBody name k)
      | None \<Rightarrow> (case lv_group lv of Some (g, i) \<Rightarrow> Inl (NestedGroup name g) | None \<Rightarrow> Inr ()))"

definition merge_target :: "string option \<Rightarrow> string option \<Rightarrow> label list \<Rightarrow> label \<Rightarrow> expand_error + string option" where
  "merge_target caller own path what =
     (case (caller, own) of
        (Some c, Some t) \<Rightarrow> (if t = c then Inr (Some c) else Inl (TargetConflict (path @ [what]) t c))
      | (Some c, None) \<Rightarrow> Inr (Some c)
      | (None, t) \<Rightarrow> Inr t)"

fun is_set_primary :: "step \<Rightarrow> bool" where
  "is_set_primary (Step nm tg md rp act) = (case act of SetPrimaryTarget v \<Rightarrow> True | _ \<Rightarrow> False)"

text \<open>\<open>_stamp\<close>, for a step that is not \<open>setPrimaryTarget\<close>.\<close>

definition stamp :: "level \<Rightarrow> string option \<Rightarrow> string option \<Rightarrow> expand_error + string option" where
  "stamp lv nm tg = merge_target (lv_level_target lv) tg (lv_path lv) (StepLabel nm)"

definition body_level :: "level \<Rightarrow> block \<Rightarrow> string option \<Rightarrow> level" where
  "body_level lv k t = lv\<lparr>lv_group := None, lv_level_target := t, lv_body_target := t,
     lv_body := (if lv_body lv \<in> {Some InWeb, Some InApp} then lv_body lv else Some k)\<rparr>"

definition report_of :: "level \<Rightarrow> (string \<times> nat) option \<Rightarrow> (string \<times> nat) option" where
  "report_of lv rp = (case lv_group lv of None \<Rightarrow> rp | Some g \<Rightarrow> Some g)"

text \<open>\<open>sorted(set(xs) - set(ys))\<close>.\<close>

definition sorted_minus :: "string list \<Rightarrow> string list \<Rightarrow> string list" where
  "sorted_minus xs ys = sorted_list_of_set (set xs - set ys)"

definition undeclared :: "step list \<Rightarrow> string list" where
  "undeclared ss = sorted_list_of_set {t \<in> \<Union> (set (map step_tokens ss)). take 7 t = ''params.''}"

text \<open>The body of a component with the arguments put in, or what is wrong with the call.\<close>

definition component_steps :: "(string list \<Rightarrow> string \<Rightarrow> string + component) \<Rightarrow> (step \<Rightarrow> string option)
    \<Rightarrow> string list \<Rightarrow> string \<Rightarrow> (string \<times> string) list \<Rightarrow> expand_error + step list" where
  "component_steps resolve invalid stack ref args =
     (if ref \<in> set stack then Inl (Cycle (stack @ [ref]))
      else case resolve stack ref of
        Inl e \<Rightarrow> Inl (Unresolved e)
      | Inr found \<Rightarrow>
          (let missing = sorted_minus (cp_params found) (map fst args);
               unknown = sorted_minus (map fst args) (cp_params found)
           in if missing \<noteq> [] then Inl (MissingParams ref missing)
              else if unknown \<noteq> [] then Inl (UnknownParams ref unknown)
              else and_then (interp_steps invalid (text_bindings args) (cp_steps found))
                (\<lambda>ss. if undeclared ss \<noteq> [] then Inl (UndeclaredParams ref (undeclared ss)) else Inr ss)))"

function expand :: "(string list \<Rightarrow> string \<Rightarrow> string + component) \<Rightarrow> (step \<Rightarrow> string option) \<Rightarrow> nat \<Rightarrow> level
    \<Rightarrow> step list \<Rightarrow> nat \<Rightarrow> expand_error + step list \<times> nat" where
  "expand resolve invalid d lv [] n =
     (if length (lv_stack lv) > d then Inl (TooDeep (lv_stack lv)) else Inr ([], n))"
| "expand resolve invalid d lv (Step nm tg md rp act # sts) n =
     (if length (lv_stack lv) > d then Inl (TooDeep (lv_stack lv))
      else and_then
        (case act of
           Group name ss \<Rightarrow>
             and_then (check_group_position name lv) (\<lambda>_.
             and_then (merge_target (lv_level_target lv) tg (lv_path lv) (GroupLabel name)) (\<lambda>t.
               expand resolve invalid d
                 (lv\<lparr>lv_group := Some (name, n), lv_level_target := t, lv_body_target := t, lv_body := None,
                     lv_path := (if t = None then lv_path lv else lv_path lv @ [GroupLabel name])\<rparr>) ss (n + 1)))
         | Steps ss \<Rightarrow>
             (if lv_body lv \<in> {Some InWeb, Some InApp} then Inl TargetGroupInBlock
              else if list_ex is_set_primary ss
              then Inl (SetPrimaryInTargetGroup (lv_path lv @ [TargetGroupLabel tg]))
              else and_then (merge_target (lv_level_target lv) tg (lv_path lv) (TargetGroupLabel tg)) (\<lambda>t.
                expand resolve invalid d
                  (lv\<lparr>lv_level_target := t, lv_path := lv_path lv @ [TargetGroupLabel tg]\<rparr>) ss n))
         | Use ref args \<Rightarrow>
             and_then (component_steps resolve invalid (lv_stack lv) ref args) (\<lambda>ss.
             and_then (merge_target (lv_level_target lv) tg (lv_path lv) (UseLabel ref)) (\<lambda>t.
               expand resolve invalid d
                 (lv\<lparr>lv_stack := lv_stack lv @ [ref], lv_level_target := t, lv_body_target := t,
                     lv_path := lv_path lv @ [UseLabel ref]\<rparr>) ss n))
         | SetPrimaryTarget v \<Rightarrow> Inr ([Step nm tg md (report_of lv rp) act], n)
         | Act v \<Rightarrow> and_then (stamp lv nm tg) (\<lambda>t. Inr ([Step nm t md (report_of lv rp) act], n))
         | If v th el \<Rightarrow>
             and_then (stamp lv nm tg) (\<lambda>t.
             and_then (expand resolve invalid d (body_level lv InIf (lv_body_target lv)) th n) (\<lambda>(th', m).
               case el of
                 None \<Rightarrow> Inr ([Step nm t md (report_of lv rp) (If v th' None)], m)
               | Some ss \<Rightarrow>
                   and_then (expand resolve invalid d (body_level lv InIf (lv_body_target lv)) ss m) (\<lambda>(el', m').
                     Inr ([Step nm t md (report_of lv rp) (If v th' (Some el'))], m'))))
         | ForEach v ss \<Rightarrow>
             and_then (stamp lv nm tg) (\<lambda>t.
             and_then (expand resolve invalid d (body_level lv InForEach (lv_body_target lv)) ss n) (\<lambda>(ss', m).
               Inr ([Step nm t md (report_of lv rp) (ForEach v ss')], m)))
         | Web v ss \<Rightarrow>
             and_then (stamp lv nm tg) (\<lambda>t.
             and_then (expand resolve invalid d (body_level lv InWeb None) ss n) (\<lambda>(ss', m).
               Inr ([Step nm t md (report_of lv rp) (Web v ss')], m)))
         | App v ss \<Rightarrow>
             and_then (stamp lv nm tg) (\<lambda>t.
             and_then (expand resolve invalid d (body_level lv InApp None) ss n) (\<lambda>(ss', m).
               Inr ([Step nm t md (report_of lv rp) (App v ss')], m))))
        (\<lambda>(xs, m). and_then (expand resolve invalid d lv sts m) (\<lambda>(ys, m'). Inr (xs @ ys, m'))))"
  by pat_completeness auto
termination
  by (relation "measures [\<lambda>(r, i, d, lv, ss, n). Suc d - length (lv_stack lv), \<lambda>(r, i, d, lv, ss, n). size_list size ss]")
    (auto simp: body_level_def)

declare expand.simps(2) [simp del]

definition expand_steps :: "(string list \<Rightarrow> string \<Rightarrow> string + component) \<Rightarrow> (step \<Rightarrow> string option) \<Rightarrow> nat
    \<Rightarrow> step list \<Rightarrow> nat \<Rightarrow> expand_error + step list \<times> nat" where
  "expand_steps resolve invalid max_depth ss n = expand resolve invalid max_depth top_level ss n"

section \<open>The shape of an expansion\<close>

fun flat_step :: "step \<Rightarrow> bool" and flat_body :: "body \<Rightarrow> bool" where
  "flat_step (Step nm tg md rp act) = flat_body act"
| "flat_body (Act v) = True"
| "flat_body (SetPrimaryTarget v) = True"
| "flat_body (Group name ss) = False"
| "flat_body (Steps ss) = False"
| "flat_body (Use ref args) = False"
| "flat_body (If v th el) = (list_all flat_step th \<and> (case el of None \<Rightarrow> True | Some ss \<Rightarrow> list_all flat_step ss))"
| "flat_body (ForEach v ss) = list_all flat_step ss"
| "flat_body (Web v ss) = list_all flat_step ss"
| "flat_body (App v ss) = list_all flat_step ss"

lemma expand_flat:
  "expand resolve invalid d lv ss n = Inr (out, m) \<Longrightarrow> list_all flat_step out"
proof (induction resolve invalid d lv ss n arbitrary: out m rule: expand.induct)
  case (2 resolve invalid d lv nm tg md rp act sts n)
  from 2(10) have deep: "\<not> length (lv_stack lv) > d" by (auto simp: expand.simps(2) split: if_splits)
  note IH = 2(1-9) [OF deep]
  from 2(10) deep show ?case
    by (cases act) (fastforce simp: expand.simps(2) result_simps split: if_splits option.splits dest: IH)+
qed (auto split: if_splits)

lemma merge_target_caller: "merge_target (Some c) own path what = Inr t \<Longrightarrow> t = Some c"
  by (auto simp: merge_target_def split: option.splits if_splits)

lemma merge_target_free [simp]: "merge_target None own path what = Inr own"
  by (simp add: merge_target_def)

lemma expand_target:
  "expand resolve invalid d lv ss n = Inr (out, m) \<Longrightarrow> lv_level_target lv = Some t \<Longrightarrow>
   \<forall>st\<in>set out. is_set_primary st \<or> st_target st = Some t"
proof (induction resolve invalid d lv ss n arbitrary: out m rule: expand.induct)
  case (2 resolve invalid d lv nm tg md rp act sts n)
  from 2(10) have deep: "\<not> length (lv_stack lv) > d" by (auto simp: expand.simps(2) split: if_splits)
  note IH = 2(1-9) [OF deep]
  from 2(10,11) deep show ?case
    by (cases act) (fastforce simp: expand.simps(2) result_simps stamp_def
        split: if_splits option.splits dest: IH merge_target_caller)+
qed (auto split: if_splits)

lemma and_then_append:
  "and_then r (\<lambda>(xs, k). and_then (f k) (\<lambda>(ys, k'). Inr (xs @ ys, k'))) = Inr (out, m) \<Longrightarrow>
   \<exists>xs k ys. r = Inr (xs, k) \<and> f k = Inr (ys, m) \<and> out = xs @ ys"
  by (auto simp: and_then_eq_Inr)

lemma expand_report:
  "expand resolve invalid d lv ss n = Inr (out, m) \<Longrightarrow> lv_group lv = Some g \<Longrightarrow>
   \<forall>st\<in>set out. st_report st = Some g"
proof (induction resolve invalid d lv ss n arbitrary: out m rule: expand.induct)
  case (2 resolve invalid d lv nm tg md rp act sts n)
  from 2(10) have deep: "\<not> length (lv_stack lv) > d" by (auto simp: expand.simps(2) split: if_splits)
  note IH = 2(1-9) [OF deep]
  have rp: "report_of lv rp = Some g" using 2(11) by (simp add: report_of_def)
  have grp: "check_group_position name lv \<noteq> Inr u" for name u
    using 2(11) by (cases g) (auto simp: check_group_position_def split: option.split)
  from and_then_append [OF 2(10) [unfolded expand.simps(2) if_not_P [OF deep]]] show ?case
  proof (elim exE conjE, goal_cases)
    case (1 xs k ys)
    have "\<forall>st\<in>set xs. st_report st = Some g"
      using 1(1) by (cases act) (auto simp: result_simps rp grp 2(11) split: if_splits option.splits dest: IH)
    moreover have "\<forall>st\<in>set ys. st_report st = Some g" using IH(9) [OF 1(2) 2(11)] .
    ultimately show ?case using 1(3) by auto
  qed
qed (auto split: if_splits)

lemma body_level_fields [simp]:
  "lv_stack (body_level lv k t) = lv_stack lv" "lv_group (body_level lv k t) = None"
  "lv_level_target (body_level lv k t) = t" "lv_body_target (body_level lv k t) = t"
  by (simp_all add: body_level_def)

lemma expand_again:
  "list_all flat_step ss \<Longrightarrow> length (lv_stack lv) \<le> d \<Longrightarrow> lv_group lv = None \<Longrightarrow> lv_level_target lv = None \<Longrightarrow>
   lv_body_target lv = None \<Longrightarrow> expand resolve invalid d lv ss n = Inr (ss, n)"
proof (induction resolve invalid d lv ss n rule: expand.induct)
  case (2 resolve invalid d lv nm tg md rp act sts n)
  have deep: "\<not> length (lv_stack lv) > d" using 2(11) by simp
  note IH = 2(1-9) [OF deep, unfolded 2(14)]
  from 2(10-) deep show ?case
    by (cases act) (simp_all add: expand.simps(2) stamp_def report_of_def IH split: option.splits)
qed simp

section \<open>Properties\<close>

text \<open>C29: Expansion always ends, and in a normal form: what it returns holds no group, no target group and no
  component call at any depth, and expanding it again, with any resolver, changes nothing.\<close>
theorem expansion_reaches_a_normal_form:
  assumes "expand_steps resolve invalid max_depth ss n = Inr (out, m)"
  shows "list_all flat_step out \<and> expand_steps resolve' invalid' max_depth' out k = Inr (out, k)"
proof -
  have "list_all flat_step out" using expand_flat assms unfolding expand_steps_def by blast
  then show ?thesis using expand_again [of out top_level max_depth' resolve' invalid' k]
    by (simp add: expand_steps_def top_level_def)
qed


definition login_group :: step where
  "login_group = Step None (Some ''phone'') JNull None (Group ''login'' [Step (Some ''go'') None JNull None (Act (JStr ''ok''))])"

lemma login_group_expands:
  "expand_steps (\<lambda>_ _. Inl []) (\<lambda>_. None) 25 [login_group] 7 =
     Inr ([Step (Some ''go'') (Some ''phone'') JNull (Some (''login'', 7)) (Act (JStr ''ok''))], 8)"
  by (simp add: expand_steps_def expand.simps(2) login_group_def top_level_def check_group_position_def
      merge_target_def stamp_def report_of_def)

theorem expansion_reaches_a_normal_form_witness:
  "expand_steps (\<lambda>_ _. Inl []) (\<lambda>_. None) 0 [Step (Some ''go'') (Some ''phone'') JNull (Some (''login'', 7)) (Act (JStr ''ok''))] 0 =
     Inr ([Step (Some ''go'') (Some ''phone'') JNull (Some (''login'', 7)) (Act (JStr ''ok''))], 0)"
  using expansion_reaches_a_normal_form [OF login_group_expands, of "\<lambda>_ _. Inl []" "\<lambda>_. None" 0 0] by blast


section \<open>Data rows\<close>

definition row_pairs :: "(string \<times> string) list \<Rightarrow> string" where
  "row_pairs row = join '', '' (map (\<lambda>(k, v). k @ ''='' @ v) row)"

definition row_name :: "string \<Rightarrow> (string \<times> string) list \<Rightarrow> nat \<Rightarrow> string" where
  "row_name name row i =
     (if row_pairs row \<noteq> [] then name @ '' [row '' @ show_nat (i + 1) @ '': '' @ row_pairs row @ '']''
      else name @ '' [row '' @ show_nat (i + 1) @ '']'')"

text \<open>Whether \<open> \[row \d+(?::.*)?\]$\<close> matches from here to the end (\<open>$\<close> also holds before one final
  newline).\<close>

definition ends_bracket :: "string \<Rightarrow> bool" where
  "ends_bracket s \<longleftrightarrow> take 1 (rev s) = '']'' \<or> take 2 (rev s) = [char_of (10 :: nat), CHR '']'']"

definition row_suffix :: "string \<Rightarrow> bool" where
  "row_suffix s \<longleftrightarrow> take 6 s = '' [row '' \<and>
     (let rest = dropWhile is_digit (drop 6 s)
      in takeWhile is_digit (drop 6 s) \<noteq> [] \<and>
         (rest = '']'' \<or> rest = '']'' @ [char_of (10 :: nat)] \<or> take 1 rest = '':'' \<and> ends_bracket (tl rest)))"

text \<open>\<open>_ROW_NAME.sub("", s)\<close>: the leftmost match goes to the end of the text.\<close>

fun declared_name :: "string \<Rightarrow> string" where
  "declared_name [] = []"
| "declared_name (c # s) =
     (if row_suffix (c # s) then (if List.last (c # s) = char_of (10 :: nat) then [char_of (10 :: nat)] else [])
      else c # declared_name s)"

record scenario_data =
  sd_name :: string
  sd_rows :: "(string \<times> string) list list option"
  sd_csv :: "string option"
  sd_dump :: json

text \<open>\<open>_instantiate_rows\<close>: the row's values put into the dump, and the row's name.\<close>

definition row_bindings :: "(string \<times> string) list \<Rightarrow> string \<Rightarrow> json option" where
  "row_bindings row = (\<lambda>k. map_option JStr (map_of (map (\<lambda>(c, v). (''row.'' @ c, v)) row) k))"

definition instantiate_rows :: "scenario_data \<Rightarrow> (string \<times> string) list list \<Rightarrow> scenario_data list" where
  "instantiate_rows s rows =
     map (\<lambda>(i, row). \<lparr>sd_name = row_name (sd_name s) row i, sd_rows = None, sd_csv = None,
         sd_dump = interp_value (row_bindings row) (sd_dump s)\<rparr>)
       (zip [0..<length rows] rows)"

definition expand_data :: "(string \<Rightarrow> (string \<times> string) list list) \<Rightarrow> scenario_data list \<Rightarrow> scenario_data list" where
  "expand_data resolve_csv ss =
     concat (map (\<lambda>s. case (case sd_rows s of Some rows \<Rightarrow> Some rows | None \<Rightarrow> map_option resolve_csv (sd_csv s)) of
         None \<Rightarrow> [s] | Some rows \<Rightarrow> instantiate_rows s rows) ss)"

lemma show_nat_digits: "show_nat n \<noteq> [] \<and> list_all is_digit (show_nat n)"
proof (induction n rule: show_nat.induct)
  case (1 n)
  have d: "is_digit (char_of (48 + k))" if "k < 10" for k :: nat
  proof -
    have "k \<in> {0, 1, 2, 3, 4, 5, 6, 7, 8, 9}" using that by auto
    then show ?thesis by (auto simp: is_digit_def less_eq_char_def)
  qed
  show ?case
  proof (cases "n < 10")
    case True
    then show ?thesis by (subst (1 2) show_nat.simps) (simp add: d)
  next
    case False
    then show ?thesis using 1 by (subst (1 2) show_nat.simps) (simp add: d)
  qed
qed

lemma not_row_suffix:
  assumes "take 6 (c # s @ u) = '' [row '' \<longrightarrow> \<not> (\<exists>v. c # s = '' [row '' @ v)" "u = '' [row '' @ w"
  shows "\<not> row_suffix (c # s @ u)"
proof
  assume r: "row_suffix (c # s @ u)"
  then have t: "take 6 (c # s @ u) = '' [row ''" by (simp add: row_suffix_def Let_def)
  show False
  proof (cases "length (c # s) \<ge> 6")
    case True
    then have "take 6 (c # s) = '' [row ''" using t by simp
    then have "c # s = '' [row '' @ drop 6 (c # s)" by (metis append_take_drop_id)
    then show False using assms(1) t by blast
  next
    case False
    then have "length s < 5" "length s = 4 \<or> length s < 4" by auto
    then consider "s = []" | a where "s = [a]" | a b where "s = [a, b]" | a b d where "s = [a, b, d]"
      | a b d e where "s = [a, b, d, e]"
      by (cases s; cases "tl s"; cases "tl (tl s)"; cases "tl (tl (tl s))"; cases "tl (tl (tl (tl s)))") auto
    then show False
    proof cases
      case 5
      then have "takeWhile is_digit (drop 6 (c # s @ u)) = []" unfolding assms(2) by (simp add: is_digit_def)
      then show False using r by (simp add: row_suffix_def Let_def)
    qed (use t assms(2) in simp_all)
  qed
qed

lemma declared_name_append:
  "\<not> substring '' [row '' name \<Longrightarrow> u = '' [row '' @ w \<Longrightarrow> declared_name (name @ u) = name @ declared_name u"
proof (induction name)
  case (Cons c s)
  have "\<not> substring '' [row '' s" using Cons(2) by simp
  moreover have "\<not> (\<exists>v. c # s = '' [row '' @ v)"
    using Cons(2) unfolding substring_iff by (metis append_Nil)
  then have "\<not> row_suffix (c # s @ u)" using not_row_suffix Cons(3) by blast
  ultimately show ?case using Cons(1,3) by simp
qed simp

lemma row_suffix_name:
  "row_suffix ('' [row '' @ show_nat n @ '': '' @ p @ '']'')" "row_suffix ('' [row '' @ show_nat n @ '']'')"
proof -
  have d: "takeWhile is_digit (show_nat n @ c # t) = show_nat n" "dropWhile is_digit (show_nat n @ c # t) = c # t"
    if "\<not> is_digit c" for c t
    using show_nat_digits [of n] that by (simp_all add: takeWhile_append dropWhile_append list_all_iff)
  have n: "\<not> is_digit CHR '':''" "\<not> is_digit CHR '']''" by (simp_all add: is_digit_def)
  have "ends_bracket ('' '' @ p @ '']'')" by (simp add: ends_bracket_def)
  then show "row_suffix ('' [row '' @ show_nat n @ '': '' @ p @ '']'')"
    using d [OF n(1), of "'' '' @ p @ '']''"] show_nat_digits [of n] by (simp add: row_suffix_def)
  show "row_suffix ('' [row '' @ show_nat n @ '']'')"
    using d [OF n(2), of "[]"] show_nat_digits [of n] by (simp add: row_suffix_def)
qed

text \<open>The declared name of a data row's scenario is the name it was written under: for a name without a
  row marker of its own, whatever the row holds, removing the row suffix gives the name back.\<close>
theorem row_names_lead_back:
  assumes "\<not> substring '' [row '' name"
  shows "declared_name (row_name name row i) = name"
proof -
  have one: "declared_name u = []" if r: "row_suffix u" and e: "u = t @ '']''" for u t
  proof -
    have "u \<noteq> []" unfolding e by simp
    then obtain c v where c: "u = c # v" by (cases u) blast+
    have "CHR '']'' \<noteq> char_of (10 :: nat)"
      by (rule notI, drule arg_cong [of _ _ "of_char :: char \<Rightarrow> nat"]) simp
    then have "List.last u \<noteq> char_of (10 :: nat)" using e by simp
    then show ?thesis using r unfolding c by simp
  qed
  let ?a = "'' [row '' @ show_nat (i + 1) @ '': '' @ row_pairs row @ '']''"
  let ?b = "'' [row '' @ show_nat (i + 1) @ '']''"
  have "declared_name ?a = []" by (rule one [OF row_suffix_name(1), of _ _ "'' [row '' @ show_nat (i + 1) @ '': '' @ row_pairs row"]) simp
  moreover have "declared_name ?b = []" by (rule one [OF row_suffix_name(2), of _ "'' [row '' @ show_nat (i + 1)"]) simp
  ultimately show ?thesis
    using declared_name_append [OF assms, of ?a] declared_name_append [OF assms, of ?b]
    by (simp add: row_name_def)
qed

theorem row_names_lead_back_witness:
  "declared_name (row_name ''login'' [(''user'', ''a]b [row 9]'')] 0) = ''login''"
  by (rule row_names_lead_back) simp

end
