(* ===== verification/Programs.thy ===== *)
theory Programs
  imports Prelude
begin

text \<open>
  Sequential programs over an explicit state, as the step loop is written: a program returns a value,
  raises one of the exceptions the loop distinguishes, or has used up the fuel of an unbounded loop.
  Their weakest preconditions are equations, so that simplification computes what a program promises;
  the locale \<open>keeping\<close> collects what every program built from steps of a preorder keeps.
\<close>

named_theorems wp_simps \<open>weakest preconditions of the program constructors\<close>

section \<open>Exceptions\<close>

text \<open>
  The exceptions the step loop catches by name (\<open>drivers/base\<close>, \<open>cancellation.py\<close>,
  \<open>orchestrator/control_channel.py\<close>), with their message.  \<open>AppNotInFront\<close> is an
  \<open>ElementNotFound\<close>, which is a \<open>SelectorError\<close>.
\<close>

datatype exn =
    RunCancelled
  | BackendCrash string
  | NotInFront string
  | NotFound string
  | SelectorFailed string
  | NotTappable string
  | Unsupported string
  | NotImplemented string
  | ChannelFailed string
  | OsError string
  | OtherError string

fun exn_text :: "exn \<Rightarrow> string" where
  "exn_text RunCancelled = []"
| "exn_text (BackendCrash m) = m"
| "exn_text (NotInFront m) = m"
| "exn_text (NotFound m) = m"
| "exn_text (SelectorFailed m) = m"
| "exn_text (NotTappable m) = m"
| "exn_text (Unsupported m) = m"
| "exn_text (NotImplemented m) = m"
| "exn_text (ChannelFailed m) = m"
| "exn_text (OsError m) = m"
| "exn_text (OtherError m) = m"

fun is_not_found :: "exn \<Rightarrow> bool" where
  "is_not_found (NotInFront m) = True"
| "is_not_found (NotFound m) = True"
| "is_not_found _ = False"

fun is_selector_error :: "exn \<Rightarrow> bool" where
  "is_selector_error (SelectorFailed m) = True"
| "is_selector_error e = is_not_found e"

fun is_unsupported :: "exn \<Rightarrow> bool" where
  "is_unsupported (Unsupported m) = True"
| "is_unsupported _ = False"

section \<open>Programs\<close>

datatype 'a res = Ret 'a | Exn exn | NoFuel

type_synonym ('s, 'a) prog = "'s \<Rightarrow> 'a res \<times> 's"

definition ret :: "'a \<Rightarrow> ('s, 'a) prog" where
  "ret v s = (Ret v, s)"

definition raise :: "exn \<Rightarrow> ('s, 'a) prog" where
  "raise e s = (Exn e, s)"

definition out_of_fuel :: "('s, 'a) prog" where
  "out_of_fuel s = (NoFuel, s)"

definition seq :: "('s, 'a) prog \<Rightarrow> ('a \<Rightarrow> ('s, 'b) prog) \<Rightarrow> ('s, 'b) prog" where
  "seq m f s = (case m s of
     (Ret v, t) \<Rightarrow> f v t
   | (Exn e, t) \<Rightarrow> (Exn e, t)
   | (NoFuel, t) \<Rightarrow> (NoFuel, t))"

text \<open>\<open>try: m except ...: h e\<close>; a handler re-raises what its clauses do not name.\<close>

definition catch :: "('s, 'a) prog \<Rightarrow> (exn \<Rightarrow> ('s, 'a) prog) \<Rightarrow> ('s, 'a) prog" where
  "catch m h s = (case m s of
     (Ret v, t) \<Rightarrow> (Ret v, t)
   | (Exn e, t) \<Rightarrow> h e t
   | (NoFuel, t) \<Rightarrow> (NoFuel, t))"

definition catching :: "(exn \<Rightarrow> bool) \<Rightarrow> ('s, 'a) prog \<Rightarrow> (exn \<Rightarrow> ('s, 'a) prog) \<Rightarrow> ('s, 'a) prog" where
  "catching p m h = catch m (\<lambda>e. if p e then h e else raise e)"

text \<open>\<open>try: m finally: f\<close>.\<close>

definition finally_do :: "('s, 'a) prog \<Rightarrow> ('s, unit) prog \<Rightarrow> ('s, 'a) prog" where
  "finally_do m f = seq (catch m (\<lambda>e. seq f (\<lambda>_. raise e))) (\<lambda>v. seq f (\<lambda>_. ret v))"

definition gets :: "('s \<Rightarrow> 'a) \<Rightarrow> ('s, 'a) prog" where
  "gets f s = (Ret (f s), s)"

definition modify :: "('s \<Rightarrow> 's) \<Rightarrow> ('s, unit) prog" where
  "modify f s = (Ret (), f s)"

definition only_if :: "bool \<Rightarrow> ('s, unit) prog \<Rightarrow> ('s, unit) prog" where
  "only_if b m = (if b then m else ret ())"

section \<open>Weakest preconditions\<close>

text \<open>\<open>Q\<close> holds of what a program returns and \<open>E\<close> of what it raises; \<open>b\<close> says whether running
  out of fuel is allowed (partial correctness) or not (total correctness).\<close>

definition wp :: "bool \<Rightarrow> ('s, 'a) prog \<Rightarrow> ('a \<Rightarrow> 's \<Rightarrow> bool) \<Rightarrow> (exn \<Rightarrow> 's \<Rightarrow> bool) \<Rightarrow> 's \<Rightarrow> bool" where
  "wp b m Q E s = (case m s of (Ret v, t) \<Rightarrow> Q v t | (Exn e, t) \<Rightarrow> E e t | (NoFuel, t) \<Rightarrow> b)"

lemma wp_ret [wp_simps]: "wp b (ret v) Q E s = Q v s"
  by (simp add: wp_def ret_def)

lemma wp_raise [wp_simps]: "wp b (raise e) Q E s = E e s"
  by (simp add: wp_def raise_def)

lemma wp_out_of_fuel [wp_simps]: "wp b out_of_fuel Q E s \<longleftrightarrow> b"
  by (simp add: wp_def out_of_fuel_def)

lemma wp_seq [wp_simps]: "wp b (seq m f) Q E s = wp b m (\<lambda>v. wp b (f v) Q E) E s"
  by (cases "m s"; cases "fst (m s)") (simp_all add: wp_def seq_def)

lemma wp_catch [wp_simps]: "wp b (catch m h) Q E s = wp b m Q (\<lambda>e. wp b (h e) Q E) s"
  by (cases "m s"; cases "fst (m s)") (simp_all add: wp_def catch_def)

lemma wp_if [wp_simps]: "wp b (if c then m else n) Q E s = (if c then wp b m Q E s else wp b n Q E s)"
  by simp

lemma wp_catching [wp_simps]:
  "wp b (catching p m h) Q E s = wp b m Q (\<lambda>e t. if p e then wp b (h e) Q E t else E e t) s"
  unfolding catching_def wp_catch wp_if wp_raise ..

lemma wp_finally [wp_simps]:
  "wp b (finally_do m f) Q E s
     = wp b m (\<lambda>v. wp b f (\<lambda>_. Q v) E) (\<lambda>e. wp b f (\<lambda>_. E e) E) s"
  unfolding finally_do_def wp_seq wp_catch wp_ret wp_raise ..

lemma wp_gets [wp_simps]: "wp b (gets f) Q E s = Q (f s) s"
  by (simp add: wp_def gets_def)

lemma wp_modify [wp_simps]: "wp b (modify f) Q E s = Q () (f s)"
  by (simp add: wp_def modify_def)

lemma wp_only_if [wp_simps]: "wp b (only_if c m) Q E s = (if c then wp b m Q E s else Q () s)"
  by (simp add: only_if_def wp_ret)

lemma wp_mono:
  assumes "wp b m Q E s" "\<And>v t. Q v t \<Longrightarrow> Q' v t" "\<And>e t. E e t \<Longrightarrow> E' e t"
  shows "wp b m Q' E' s"
  using assms by (cases "m s"; cases "fst (m s)") (auto simp: wp_def)

lemma wp_returned: "wp b m Q E s \<Longrightarrow> m s = (Ret v, t) \<Longrightarrow> Q v t"
  by (simp add: wp_def)

lemma wp_raised: "wp b m Q E s \<Longrightarrow> m s = (Exn e, t) \<Longrightarrow> E e t"
  by (simp add: wp_def)

lemma wp_total: "wp False m Q E s \<Longrightarrow> fst (m s) \<noteq> NoFuel"
  by (cases "m s") (auto simp: wp_def)

lemma wpI:
  assumes "\<And>v t. m s = (Ret v, t) \<Longrightarrow> Q v t" "\<And>e t. m s = (Exn e, t) \<Longrightarrow> E e t" "fst (m s) = NoFuel \<Longrightarrow> b"
  shows "wp b m Q E s"
  using assms by (cases "m s"; cases "fst (m s)") (auto simp: wp_def)

lemma wp_conj: "wp b m (\<lambda>v t. Q v t \<and> Q' v t) (\<lambda>e t. E e t \<and> E' e t) s \<longleftrightarrow> wp b m Q E s \<and> wp b m Q' E' s"
  by (cases "m s"; cases "fst (m s)") (auto simp: wp_def)

section \<open>What every step of a program keeps\<close>

text \<open>Whatever a program does, returns or raises, its final state is \<open>R\<close>-above its first.\<close>

definition keeps :: "('s \<Rightarrow> 's \<Rightarrow> bool) \<Rightarrow> ('s, 'a) prog \<Rightarrow> bool" where
  "keeps R m \<longleftrightarrow> (\<forall>s. R s (snd (m s)))"

lemma keepsD: "keeps R m \<Longrightarrow> m s = (r, t) \<Longrightarrow> R s t"
  unfolding keeps_def by (metis snd_conv)

lemma keeps_wp: "keeps R m \<Longrightarrow> wp True m (\<lambda>v. R s) (\<lambda>e. R s) s"
  by (rule wpI) (auto dest: keepsD)

lemma keeps_iff: "keeps R m \<longleftrightarrow> (\<forall>s r t. m s = (r, t) \<longrightarrow> R s t)"
  unfolding keeps_def by (metis prod.collapse snd_conv)

text \<open>
  The same of a program whose raises count only where a handler may see them: after an exception
  outside \<open>p\<close>, nothing is claimed.
\<close>

definition kept :: "(exn \<Rightarrow> bool) \<Rightarrow> ('s \<Rightarrow> 's \<Rightarrow> bool) \<Rightarrow> ('s, 'a) prog \<Rightarrow> bool" where
  "kept p R m \<longleftrightarrow> (\<forall>s. wp True m (\<lambda>v. R s) (\<lambda>e t. p e \<longrightarrow> R s t) s)"

lemma keeps_kept: "keeps R m \<Longrightarrow> kept p R m"
  by (auto simp: kept_def intro: wpI dest: keepsD)

lemma keptI: "(\<And>s. wp True m (\<lambda>v. R s) (\<lambda>e t. p e \<longrightarrow> R s t) s) \<Longrightarrow> kept p R m"
  by (simp add: kept_def)

lemma kept_wp:
  assumes "kept p R m" "\<And>v t. R s t \<Longrightarrow> Q v t" "\<And>e t. (p e \<Longrightarrow> R s t) \<Longrightarrow> X e t"
  shows "wp True m Q X s"
proof -
  have "wp True m (\<lambda>v. R s) (\<lambda>e t. p e \<longrightarrow> R s t) s" using assms(1) by (simp add: kept_def)
  then show ?thesis by (rule wp_mono) (auto intro: assms(2,3))
qed

text \<open>Every outcome of a program counts.\<close>

abbreviation wholly :: "('s \<Rightarrow> 's \<Rightarrow> bool) \<Rightarrow> ('s, 'a) prog \<Rightarrow> bool" where
  "wholly R m \<equiv> kept (\<lambda>_. True) R m"

lemma wholly_kept: "wholly R m \<Longrightarrow> kept p R m"
  unfolding kept_def by (blast intro: wp_mono)

lemma kept_weaken: "kept p R m \<Longrightarrow> (\<And>e. q e \<Longrightarrow> p e) \<Longrightarrow> kept q R m"
  unfolding kept_def by (blast intro: wp_mono)

lemma kept_mono: "kept p R m \<Longrightarrow> (\<And>s t. R s t \<Longrightarrow> S s t) \<Longrightarrow> kept p S m"
  unfolding kept_def by (blast intro: wp_mono)

locale keeping =
  fixes R :: "'s \<Rightarrow> 's \<Rightarrow> bool"
  assumes R_refl: "R s s" and R_trans: "R s t \<Longrightarrow> R t u \<Longrightarrow> R s u"
begin

lemma keep_ret: "keeps R (ret v)"
  by (simp add: keeps_def ret_def R_refl)

lemma keep_raise: "keeps R (raise e)"
  by (simp add: keeps_def raise_def R_refl)

lemma keep_fuel: "keeps R out_of_fuel"
  by (simp add: keeps_def out_of_fuel_def R_refl)

lemma keep_gets: "keeps R (gets f)"
  by (simp add: keeps_def gets_def R_refl)

lemma keep_modify: "(\<And>s. R s (f s)) \<Longrightarrow> keeps R (modify f)"
  by (simp add: keeps_def modify_def)

lemma keep_seq:
  assumes "keeps R m" "\<And>v. keeps R (f v)"
  shows "keeps R (seq m f)"
  unfolding keeps_def
proof
  fix s
  obtain r t where m: "m s = (r, t)" by fastforce
  then have t: "R s t" using assms(1) by (rule keepsD [rotated])
  show "R s (snd (seq m f s))"
  proof (cases r)
    case (Ret v)
    have "R t (snd (f v t))" using assms(2) by (simp add: keeps_def)
    then show ?thesis using R_trans [OF t] m Ret by (simp add: seq_def)
  qed (use m t in \<open>simp_all add: seq_def\<close>)
qed

lemma keep_catch:
  assumes "keeps R m" "\<And>e. keeps R (h e)"
  shows "keeps R (catch m h)"
  unfolding keeps_def
proof
  fix s
  obtain r t where m: "m s = (r, t)" by fastforce
  then have t: "R s t" using assms(1) by (rule keepsD [rotated])
  show "R s (snd (catch m h s))"
  proof (cases r)
    case (Exn e)
    have "R t (snd (h e t))" using assms(2) by (simp add: keeps_def)
    then show ?thesis using R_trans [OF t] m Exn by (simp add: catch_def)
  qed (use m t in \<open>simp_all add: catch_def\<close>)
qed

lemma keep_if: "keeps R m \<Longrightarrow> keeps R n \<Longrightarrow> keeps R (if b then m else n)"
  by simp

lemma keep_only_if: "(b \<Longrightarrow> keeps R m) \<Longrightarrow> keeps R (only_if b m)"
  by (simp add: only_if_def keep_ret)

lemma keep_catching: "keeps R m \<Longrightarrow> (\<And>e. keeps R (h e)) \<Longrightarrow> keeps R (catching p m h)"
  unfolding catching_def by (intro keep_catch keep_if keep_raise) simp_all

lemma keep_finally: "keeps R m \<Longrightarrow> keeps R f \<Longrightarrow> keeps R (finally_do m f)"
  unfolding finally_do_def by (intro keep_seq keep_catch keep_raise keep_ret) simp_all

lemma keep_option:
  "(v = None \<Longrightarrow> keeps R m) \<Longrightarrow> (\<And>x. v = Some x \<Longrightarrow> keeps R (f x))
   \<Longrightarrow> keeps R (case v of None \<Rightarrow> m | Some x \<Rightarrow> f x)"
  by (cases v) simp_all

lemma keep_pair: "(\<And>x y. v = (x, y) \<Longrightarrow> keeps R (f x y)) \<Longrightarrow> keeps R (case v of (x, y) \<Rightarrow> f x y)"
  by (cases v) simp_all

lemma keep_let: "(\<And>x. keeps R (f x)) \<Longrightarrow> keeps R (Let v f)"
  by simp

lemma kept_ret: "kept p R (ret v)"
  by (rule keeps_kept [OF keep_ret])

lemma kept_raise: "kept p R (raise e)"
  by (rule keeps_kept [OF keep_raise])

lemma kept_fuel: "kept p R out_of_fuel"
  by (rule keeps_kept [OF keep_fuel])

lemma kept_gets: "kept p R (gets f)"
  by (rule keeps_kept [OF keep_gets])

lemma kept_seq:
  assumes "kept p R m" "\<And>v. kept p R (f v)"
  shows "kept p R (seq m f)"
proof (rule keptI, unfold wp_seq, rule kept_wp [OF assms(1)])
  fix s v t assume t: "R s t"
  show "wp True (f v) (\<lambda>v. R s) (\<lambda>e t. p e \<longrightarrow> R s t) t"
    by (rule kept_wp [OF assms(2)]) (auto intro: R_trans [OF t])
qed simp

lemma kept_catching:
  assumes "kept p R m" "\<And>e. q e \<Longrightarrow> p e" "\<And>e. q e \<Longrightarrow> kept p R (h e)"
  shows "kept p R (catching q m h)"
proof (rule keptI, unfold wp_catching, rule kept_wp [OF assms(1)])
  fix s e t assume t: "p e \<Longrightarrow> R s t"
  have "wp True (h e) (\<lambda>v. R s) (\<lambda>e t. p e \<longrightarrow> R s t) t" if "q e"
    by (rule kept_wp [OF assms(3) [OF that]]) (auto intro: R_trans [OF t [OF assms(2) [OF that]]])
  then show "if q e then wp True (h e) (\<lambda>v. R s) (\<lambda>e t. p e \<longrightarrow> R s t) t else p e \<longrightarrow> R s t"
    using t by simp
qed

lemma kept_if: "(c \<Longrightarrow> kept p R m) \<Longrightarrow> (\<not> c \<Longrightarrow> kept p R n) \<Longrightarrow> kept p R (if c then m else n)"
  by simp

lemma kept_only_if: "(c \<Longrightarrow> kept p R m) \<Longrightarrow> kept p R (only_if c m)"
  by (simp add: only_if_def kept_ret)

lemma kept_option:
  "(v = None \<Longrightarrow> kept p R m) \<Longrightarrow> (\<And>x. v = Some x \<Longrightarrow> kept p R (f x))
   \<Longrightarrow> kept p R (case v of None \<Rightarrow> m | Some x \<Rightarrow> f x)"
  by (cases v) simp_all

lemma kept_pair: "(\<And>x y. v = (x, y) \<Longrightarrow> kept p R (f x y)) \<Longrightarrow> kept p R (case v of (x, y) \<Rightarrow> f x y)"
  by (cases v) simp_all

lemma kept_modify: "(\<And>s. R s (f s)) \<Longrightarrow> kept p R (modify f)"
  by (rule keeps_kept) (rule keep_modify)

lemma kept_catch_whole:
  assumes "wholly R m" "\<And>e. kept p R (h e)"
  shows "kept p R (catch m h)"
proof (rule keptI, unfold wp_catch, rule kept_wp [OF assms(1)])
  fix s e t assume "True \<Longrightarrow> R s t"
  then have t: "R s t" by simp
  show "wp True (h e) (\<lambda>v. R s) (\<lambda>e t. p e \<longrightarrow> R s t) t"
    by (rule kept_wp [OF assms(2)]) (auto intro: R_trans [OF t])
qed

lemma kept_catching_whole:
  assumes "wholly R m" "\<And>e. q e \<Longrightarrow> kept p R (h e)"
  shows "kept p R (catching q m h)"
  unfolding catching_def by (intro kept_catch_whole assms kept_if kept_raise)

lemma kept_let: "(\<And>x. kept p R (f x)) \<Longrightarrow> kept p R (Let v f)"
  by simp

lemma kept_sum:
  "(\<And>x. v = Inl x \<Longrightarrow> kept p R (f x)) \<Longrightarrow> (\<And>x. v = Inr x \<Longrightarrow> kept p R (g x))
   \<Longrightarrow> kept p R (case v of Inl x \<Rightarrow> f x | Inr x \<Rightarrow> g x)"
  by (cases v) simp_all

lemma kept_list:
  "(v = [] \<Longrightarrow> kept p R m) \<Longrightarrow> (\<And>x xs. v = x # xs \<Longrightarrow> kept p R (f x xs))
   \<Longrightarrow> kept p R (case v of [] \<Rightarrow> m | x # xs \<Rightarrow> f x xs)"
  by (cases v) simp_all

lemmas kept_intros = kept_ret kept_raise kept_fuel kept_gets kept_seq kept_if kept_only_if kept_option kept_pair
  kept_let kept_sum kept_list kept_catch_whole kept_catching_whole

lemmas keep_intros = keep_ret keep_raise keep_fuel keep_gets keep_modify keep_seq keep_catch keep_if
  keep_only_if keep_catching keep_finally keep_option keep_pair keep_let

end

section \<open>Running programs over a part of the state\<close>

text \<open>Devices, clock and sinks are a world \<open>'w\<close> inside the loop's state.\<close>

definition on_part :: "('s \<Rightarrow> 'w) \<Rightarrow> ('w \<Rightarrow> 's \<Rightarrow> 's) \<Rightarrow> ('w, 'a) prog \<Rightarrow> ('s, 'a) prog" where
  "on_part get put m s = (case m (get s) of (r, w) \<Rightarrow> (r, put w s))"

lemma wp_on_part [wp_simps]:
  "wp b (on_part get put m) Q E s = wp b m (\<lambda>v w. Q v (put w s)) (\<lambda>e w. E e (put w s)) (get s)"
  by (cases "m (get s)"; cases "fst (m (get s))") (simp_all add: wp_def on_part_def)

text \<open>A program over any state that satisfies the postconditions everywhere.\<close>

lemma wp_any: "(\<And>v t. Q v t) \<Longrightarrow> (\<And>e t. E e t) \<Longrightarrow> wp True m Q E s"
  by (rule wpI) simp_all

section \<open>What a program can return\<close>

text \<open>Postconditions on the value alone, whatever the state.\<close>

definition returns :: "('a \<Rightarrow> bool) \<Rightarrow> ('s, 'a) prog \<Rightarrow> bool" where
  "returns Q m \<longleftrightarrow> (\<forall>s v t. m s = (Ret v, t) \<longrightarrow> Q v)"

lemma returnsD: "returns Q m \<Longrightarrow> m s = (Ret v, t) \<Longrightarrow> Q v"
  by (auto simp: returns_def)

lemma returns_ret: "Q v \<Longrightarrow> returns Q (ret v)"
  by (simp add: returns_def ret_def)

lemma returns_raise: "returns Q (raise e)"
  by (simp add: returns_def raise_def)

lemma returns_fuel: "returns Q out_of_fuel"
  by (simp add: returns_def out_of_fuel_def)

lemma returns_seq: "(\<And>v. returns Q (f v)) \<Longrightarrow> returns Q (seq m f)"
  by (auto simp: returns_def seq_def split: prod.splits res.splits)

lemma returns_if: "(c \<Longrightarrow> returns Q m) \<Longrightarrow> (\<not> c \<Longrightarrow> returns Q n) \<Longrightarrow> returns Q (if c then m else n)"
  by simp

lemma returns_option:
  "(v = None \<Longrightarrow> returns Q m) \<Longrightarrow> (\<And>x. v = Some x \<Longrightarrow> returns Q (f x))
   \<Longrightarrow> returns Q (case v of None \<Rightarrow> m | Some x \<Rightarrow> f x)"
  by (cases v) simp_all

lemma returns_mono: "returns Q m \<Longrightarrow> (\<And>v. Q v \<Longrightarrow> Q' v) \<Longrightarrow> returns Q' m"
  by (auto simp: returns_def)

lemmas returns_intros = returns_ret returns_raise returns_fuel returns_seq returns_if returns_option

end
