(* ===== verification/Drivers.thy ===== *)
theory Drivers
  imports Programs Resolution Network_Match
begin

text \<open>
  The driver interface (\<open>src/bajutsu/common/drivers/base\<close>) as the step loop uses it, and the in-memory
  \<open>FakeDriver\<close> (\<open>src/bajutsu/common/drivers/fake/fake_driver.py\<close>) that implements it: the screen, the
  scrollable viewport, the seeded alerts, banners, pickers and apps, and the log of what it did.
  Records of an actuation keep the gesture, its points and its target.
\<close>

section \<open>What a backend answered at interruption time\<close>

datatype surface = NativeSurface | InTreeSurface

record gave_up =
  gu_identify :: "string list"
  gu_tap :: string
  gu_surface :: surface

record drained =
  dn_tapped :: "string list"
  dn_declined :: "string list list"
  dn_banners :: "string list"
  dn_tapped_alerts :: "string list list"
  dn_tapped_surfaces :: "surface list"
  dn_unidentified :: "string list list"
  dn_gave_up :: "gave_up list"

definition drained_empty :: drained where
  "drained_empty = \<lparr>dn_tapped = [], dn_declined = [], dn_banners = [], dn_tapped_alerts = [],
     dn_tapped_surfaces = [], dn_unidentified = [], dn_gave_up = []\<rparr>"

definition alert_of :: "drained \<Rightarrow> nat \<Rightarrow> string list" where
  "alert_of d i = (if i < length (dn_tapped_alerts d) then dn_tapped_alerts d ! i else [])"

definition surface_of :: "drained \<Rightarrow> nat \<Rightarrow> surface" where
  "surface_of d i = (if i < length (dn_tapped_surfaces d) then dn_tapped_surfaces d ! i else NativeSurface)"

definition merged_with :: "drained \<Rightarrow> drained \<Rightarrow> drained" where
  "merged_with d later = \<lparr>
     dn_tapped = dn_tapped d @ dn_tapped later,
     dn_declined = dn_declined d @ dn_declined later,
     dn_banners = dn_banners d @ dn_banners later,
     dn_tapped_alerts = map (alert_of d) [0..<length (dn_tapped d)] @ map (alert_of later) [0..<length (dn_tapped later)],
     dn_tapped_surfaces = map (surface_of d) [0..<length (dn_tapped d)] @ map (surface_of later) [0..<length (dn_tapped later)],
     dn_unidentified = dn_unidentified d @ dn_unidentified later,
     dn_gave_up = dn_gave_up d @ dn_gave_up later\<rparr>"

text \<open>A merged drain still names, tap by tap, the alert and the surface each was answered on.\<close>

lemma merged_keeps_alignment:
  "i < length (dn_tapped d) \<Longrightarrow> alert_of (merged_with d e) i = alert_of d i \<and> surface_of (merged_with d e) i = surface_of d i"
  "i < length (dn_tapped e) \<Longrightarrow> alert_of (merged_with d e) (length (dn_tapped d) + i) = alert_of e i
     \<and> surface_of (merged_with d e) (length (dn_tapped d) + i) = surface_of e i"
  by (simp_all add: merged_with_def alert_of_def surface_of_def nth_append)

section \<open>The log of actuations\<close>

record actuation =
  ac_gesture :: string
  ac_via :: string
  ac_points :: "point list"
  ac_frame :: "frame option"
  ac_target :: "string option"
  ac_at :: "real option"

definition max_records :: nat where "max_records = 512"

record actuation_log =
  al_records :: "actuation list"
  al_dropped :: nat

definition log_record :: "real \<Rightarrow> actuation \<Rightarrow> actuation_log \<Rightarrow> actuation_log" where
  "log_record now a l =
     (let a = (case ac_at a of None \<Rightarrow> a\<lparr>ac_at := Some now\<rparr> | Some t \<Rightarrow> a) in
      if length (al_records l) = max_records
      then \<lparr>al_records = tl (al_records l) @ [a], al_dropped = al_dropped l + 1\<rparr>
      else \<lparr>al_records = al_records l @ [a], al_dropped = al_dropped l\<rparr>)"

definition empty_log :: actuation_log where "empty_log = \<lparr>al_records = [], al_dropped = 0\<rparr>"

definition log_drain :: "actuation_log \<Rightarrow> (actuation list \<times> nat) \<times> actuation_log" where
  "log_drain l = ((al_records l, al_dropped l), empty_log)"

section \<open>The driver interface\<close>

datatype driver_call =
    Tap selector
  | TapPoint point
  | DoubleTap selector
  | LongPress selector real
  | Swipe point point
  | Scroll point point
  | Back
  | Goto string
  | Pinch selector real
  | Rotate selector real
  | TypeText string
  | DeleteText int
  | SelectAll
  | CopySelection
  | SelectOption selector string
  | SetPickerValue selector string
  | SelectPhotos "int list"
  | HandleSystemAlert selector
  | EnterApp string
  | LeaveApp

text \<open>\<open>None\<close> is a protocol the backend does not implement.\<close>

record 's driver =
  dr_name :: string
  dr_query :: "('s, element list) prog"
  dr_call :: "driver_call \<Rightarrow> ('s, unit) prog"
  dr_tappable :: "selector \<Rightarrow> ('s, bool) prog"
  dr_viewport :: "('s, point) prog option" \<comment> \<open>\<open>ViewportProvider\<close>\<close>
  dr_settled :: "('s, element list) prog option" \<comment> \<open>\<open>SettledReadProvider\<close>\<close>
  dr_attributes :: "(selector \<times> string) list \<Rightarrow> ('s, (exn + string option) list) prog"
  dr_capabilities :: "string list"
  dr_alert_labels :: "('s, string list) prog"
  dr_banner_frame :: "('s, frame option) prog"
  dr_dismiss_tip :: "element list option \<Rightarrow> ('s, bool) prog"
  dr_interruptions :: "('s, drained) prog option" \<comment> \<open>\<open>InterruptionPolicyTarget\<close>\<close>
  dr_actuations :: "('s, actuation list \<times> nat) prog option" \<comment> \<open>\<open>ActuationReporter\<close>\<close>
  dr_crash_signal :: "('s, string option) prog option" \<comment> \<open>\<open>AppCrashSignal\<close>\<close>

definition cap_text_selection :: string where "cap_text_selection = ''textSelection''"
definition cap_multi_touch :: string where "cap_multi_touch = ''multiTouch''"

text \<open>A device that is part of a larger state.\<close>

definition lift_driver :: "('s \<Rightarrow> 'w) \<Rightarrow> ('w \<Rightarrow> 's \<Rightarrow> 's) \<Rightarrow> 'w driver \<Rightarrow> 's driver" where
  "lift_driver get put d = \<lparr>dr_name = dr_name d, dr_query = on_part get put (dr_query d),
     dr_call = (\<lambda>c. on_part get put (dr_call d c)), dr_tappable = (\<lambda>sel. on_part get put (dr_tappable d sel)),
     dr_viewport = map_option (on_part get put) (dr_viewport d),
     dr_settled = map_option (on_part get put) (dr_settled d),
     dr_attributes = (\<lambda>rs. on_part get put (dr_attributes d rs)),
     dr_capabilities = dr_capabilities d, dr_alert_labels = on_part get put (dr_alert_labels d),
     dr_banner_frame = on_part get put (dr_banner_frame d),
     dr_dismiss_tip = (\<lambda>t. on_part get put (dr_dismiss_tip d t)),
     dr_interruptions = map_option (on_part get put) (dr_interruptions d),
     dr_actuations = map_option (on_part get put) (dr_actuations d),
     dr_crash_signal = map_option (on_part get put) (dr_crash_signal d)\<rparr>"

section \<open>The in-memory driver\<close>

record fake =
  fk_screen :: "element list"
  fk_viewport :: "point option"
  fk_offset :: point
  fk_alert_buttons :: "element list"
  fk_to_drain :: drained
  fk_banner :: "frame option"
  fk_picker :: "nat \<Rightarrow> string list option" \<comment> \<open>by the wheel's identity\<close>
  fk_attributes :: "nat \<Rightarrow> (string \<times> string) list"
  fk_tip_dismiss :: "string option"
  fk_tip_container :: "string option"
  fk_apps :: "(string \<times> element list) list"
  fk_app_stack :: "element list list"
  fk_actions :: "driver_call list"
  fk_log :: actuation_log
  fk_exchanges :: "exchange list option"
  fk_time :: real \<comment> \<open>\<open>now\<close>\<close>

definition new_fake :: "element list \<Rightarrow> fake" where
  "new_fake screen = \<lparr>fk_screen = screen, fk_viewport = None, fk_offset = (0, 0), fk_alert_buttons = [],
     fk_to_drain = drained_empty, fk_banner = None, fk_picker = (\<lambda>_. None), fk_attributes = (\<lambda>_. []),
     fk_tip_dismiss = None, fk_tip_container = None, fk_apps = [], fk_app_stack = [], fk_actions = [],
     fk_log = empty_log, fk_exchanges = None, fk_time = 0\<rparr>"

text \<open>What the driver is built with: the search of a regular expression, the text of a selector in a
  message, and the script \<open>react\<close> of what an action does to the screen.\<close>

record fake_config =
  fc_search :: regex_search
  fc_sel_text :: "selector \<Rightarrow> string"
  fc_react :: "driver_call \<Rightarrow> fake \<Rightarrow> fake"

definition shift_frame :: "point \<Rightarrow> frame \<Rightarrow> frame" where
  "shift_frame off f = (let (x, y, w, h) = f in (x - fst off, y - snd off, w, h))"

definition fake_query :: "(fake, element list) prog" where
  "fake_query = gets (\<lambda>d. case fk_viewport d of
     None \<Rightarrow> fk_screen d
   | Some v \<Rightarrow> map (\<lambda>el. el\<lparr>el_frame := shift_frame (fk_offset d) (el_frame el)\<rparr>) (fk_screen d))"

definition resolve_text :: "(selector \<Rightarrow> string) \<Rightarrow> selector \<Rightarrow> selector_error \<Rightarrow> exn" where
  "resolve_text show sel e = (case e of
     ElementNotFound NoMatch \<Rightarrow> NotFound (''no match: '' @ show sel)
   | ElementNotFound (IndexOutOfRange i n) \<Rightarrow> NotFound (''index is out of range: '' @ show sel)
   | AmbiguousSelector n \<Rightarrow> SelectorFailed (show_nat n @ '' elements match '' @ show sel))"

definition resolve_in :: "fake_config \<Rightarrow> (fake \<Rightarrow> element list) \<Rightarrow> selector \<Rightarrow> (fake, element) prog" where
  "resolve_in C part sel = seq (gets part) (\<lambda>els.
     case resolve_unique (fc_search C) els sel of
       Inl e \<Rightarrow> raise (resolve_text (fc_sel_text C) sel e)
     | Inr el \<Rightarrow> ret el)"

definition visible_frame :: "fake \<Rightarrow> frame \<Rightarrow> frame" where
  "visible_frame d f = (case fk_viewport d of None \<Rightarrow> f | Some v \<Rightarrow> shift_frame (fk_offset d) f)"

definition log_actuation :: "actuation \<Rightarrow> (fake, unit) prog" where
  "log_actuation a = modify (\<lambda>d. d\<lparr>fk_log := log_record (fk_time d) a (fk_log d)\<rparr>)"

definition gesture_at :: "string \<Rightarrow> point list \<Rightarrow> actuation" where
  "gesture_at g ps = \<lparr>ac_gesture = g, ac_via = ''coordinate'', ac_points = ps, ac_frame = None, ac_target = None, ac_at = None\<rparr>"

definition log_target :: "string \<Rightarrow> element \<Rightarrow> (fake, unit) prog" where
  "log_target g el = seq (gets (\<lambda>d. visible_frame d (el_frame el))) (\<lambda>f.
     log_actuation ((gesture_at g [frame_center f])\<lparr>ac_frame := Some f, ac_target := el_identifier el\<rparr>))"

definition act :: "fake_config \<Rightarrow> driver_call \<Rightarrow> (fake, unit) prog" where
  "act C a = modify (\<lambda>d. fc_react C a (d\<lparr>fk_actions := fk_actions d @ [a]\<rparr>))"

definition check_tappable :: "fake_config \<Rightarrow> selector \<Rightarrow> (fake, element) prog" where
  "check_tappable C sel = seq (resolve_in C fk_screen sel) (\<lambda>target. seq (gets fk_screen) (\<lambda>els.
     case raise_if_covered els target of
       Inl covering \<Rightarrow> raise (NotTappable (''covered: '' @ fc_sel_text C sel))
     | Inr u \<Rightarrow> ret target))"

definition fake_tappable :: "fake_config \<Rightarrow> selector \<Rightarrow> (fake, bool) prog" where
  "fake_tappable C sel = catching is_not_found
     (seq (resolve_in C fk_screen sel) (\<lambda>target. gets (\<lambda>d.
        topmost_at_point (fk_screen d) (frame_center (el_frame target)) target = None)))
     (\<lambda>e. ret False)"

definition content_size :: "fake \<Rightarrow> point" where
  "content_size d = screen_size_from_elements (fk_screen d)"

definition clamp :: "real \<Rightarrow> real \<Rightarrow> real" where
  "clamp v hi = min (max v 0) (max 0 hi)"

definition pan :: "point \<Rightarrow> point \<Rightarrow> fake \<Rightarrow> fake" where
  "pan frm to d = (case fk_viewport d of
     None \<Rightarrow> d
   | Some (vw, vh) \<Rightarrow> (let (cw, ch) = content_size d in
       d\<lparr>fk_offset := (clamp (fst (fk_offset d) + (fst frm - fst to)) (cw - vw),
                       clamp (snd (fk_offset d) + (snd frm - snd to)) (ch - vh))\<rparr>))"

definition fake_viewport :: "(fake, point) prog" where
  "fake_viewport = gets (\<lambda>d. case fk_viewport d of Some v \<Rightarrow> v | None \<Rightarrow> content_size d)"

definition photo_cell :: "int \<Rightarrow> selector" where
  "photo_cell i = Sel (Some (One ''PXGGridLayout-Info'')) None None None None None None (Some i)"

fun tap_photos :: "fake_config \<Rightarrow> int list \<Rightarrow> (fake, unit) prog" where
  "tap_photos C [] = ret ()"
| "tap_photos C (i # is) = seq (resolve_in C fk_screen (photo_cell i)) (\<lambda>el.
     seq (log_target ''selectPhotos'' el) (\<lambda>_. tap_photos C is))"

text \<open>\<open>via\<close> of a gesture that names no point.\<close>

definition log_via :: "string \<Rightarrow> string \<Rightarrow> (fake, unit) prog" where
  "log_via g via = log_actuation ((gesture_at g [])\<lparr>ac_via := via\<rparr>)"

definition fake_picker :: "fake_config \<Rightarrow> selector \<Rightarrow> string \<Rightarrow> (fake, unit) prog" where
  "fake_picker C sel v = seq (resolve_in C fk_screen sel) (\<lambda>wheel. seq (gets (\<lambda>d. fk_picker d (el_ref wheel))) (\<lambda>opts.
     case opts of
       None \<Rightarrow> raise (OtherError (''fixture error: no picker_wheel_options seeded for the wheel matching '' @ fc_sel_text C sel))
     | Some vs \<Rightarrow> if v \<notin> set vs then raise (NotFound (''picker wheel has no value '' @ v @ '': '' @ fc_sel_text C sel))
         else seq (log_target ''setPickerValue'' wheel) (\<lambda>_. act C (SetPickerValue sel v))))"

definition fake_alert :: "fake_config \<Rightarrow> selector \<Rightarrow> (fake, unit) prog" where
  "fake_alert C sel = seq (gets fk_alert_buttons) (\<lambda>bs.
     if bs = [] then raise (NotFound (''no system alert is showing: '' @ fc_sel_text C sel))
     else seq (resolve_in C fk_alert_buttons sel) (\<lambda>b.
       seq (log_actuation ((gesture_at ''systemAlert'' [])\<lparr>ac_via := ''handle'', ac_target := el_identifier b\<rparr>)) (\<lambda>_.
         act C (HandleSystemAlert sel))))"

definition on_target :: "fake_config \<Rightarrow> string \<Rightarrow> selector \<Rightarrow> driver_call \<Rightarrow> (fake, unit) prog" where
  "on_target C g sel a = seq (resolve_in C fk_screen sel) (\<lambda>el. seq (log_target g el) (\<lambda>_. act C a))"

definition on_tappable :: "fake_config \<Rightarrow> string \<Rightarrow> selector \<Rightarrow> driver_call \<Rightarrow> (fake, unit) prog" where
  "on_tappable C g sel a = seq (check_tappable C sel) (\<lambda>el. seq (log_target g el) (\<lambda>_. act C a))"

definition app_tree :: "fake \<Rightarrow> string \<Rightarrow> element list" where
  "app_tree d b = (case map_of (fk_apps d) b of None \<Rightarrow> [] | Some els \<Rightarrow> els)"

fun fake_call :: "fake_config \<Rightarrow> driver_call \<Rightarrow> (fake, unit) prog" where
  "fake_call C (Tap sel) = on_tappable C ''tap'' sel (Tap sel)"
| "fake_call C (TapPoint p) = seq (log_actuation (gesture_at ''tap'' [p])) (\<lambda>_. act C (TapPoint p))"
| "fake_call C (DoubleTap sel) = on_tappable C ''doubleTap'' sel (DoubleTap sel)"
| "fake_call C (LongPress sel d) = on_tappable C ''longPress'' sel (LongPress sel d)"
| "fake_call C (Swipe a b) = seq (log_actuation (gesture_at ''swipe'' [a, b])) (\<lambda>_. act C (Swipe a b))"
| "fake_call C (Scroll a b) = seq (log_actuation (gesture_at ''scroll'' [a, b])) (\<lambda>_.
     seq (modify (pan a b)) (\<lambda>_. act C (Scroll a b)))"
| "fake_call C Back = seq (log_via ''back'' ''key'') (\<lambda>_. act C Back)"
| "fake_call C (Goto u) = seq (log_via ''navigate'' ''url'') (\<lambda>_. act C (Goto u))"
| "fake_call C (Pinch sel k) = on_target C ''pinch'' sel (Pinch sel k)"
| "fake_call C (Rotate sel k) = on_target C ''rotate'' sel (Rotate sel k)"
| "fake_call C (TypeText t) = seq (log_via ''typeText'' ''focused'') (\<lambda>_. act C (TypeText t))"
| "fake_call C (DeleteText n) = seq (log_via ''deleteText'' ''focused'') (\<lambda>_. act C (DeleteText n))"
| "fake_call C SelectAll = seq (log_via ''selectAll'' ''focused'') (\<lambda>_. act C SelectAll)"
| "fake_call C CopySelection = seq (log_via ''copy'' ''focused'') (\<lambda>_. act C CopySelection)"
| "fake_call C (SelectOption sel v) = on_target C ''selectOption'' sel (SelectOption sel v)"
| "fake_call C (SetPickerValue sel v) = fake_picker C sel v"
| "fake_call C (SelectPhotos is) = seq (tap_photos C is) (\<lambda>_. act C (SelectPhotos is))"
| "fake_call C (HandleSystemAlert sel) = fake_alert C sel"
| "fake_call C (EnterApp b) = seq (modify (\<lambda>d. d\<lparr>fk_app_stack := fk_screen d # fk_app_stack d, fk_screen := app_tree d b\<rparr>))
     (\<lambda>_. act C (EnterApp b))"
| "fake_call C LeaveApp = seq (modify (\<lambda>d. case fk_app_stack d of
       [] \<Rightarrow> d | s # ss \<Rightarrow> d\<lparr>fk_screen := s, fk_app_stack := ss\<rparr>)) (\<lambda>_. act C LeaveApp)"

definition fake_alert_labels :: "(fake, string list) prog" where
  "fake_alert_labels = gets (\<lambda>d. [the (el_label b). b \<leftarrow> fk_alert_buttons d, truthy_str (el_label b)])"

definition fake_drain :: "(fake, drained) prog" where
  "fake_drain = seq (gets fk_to_drain) (\<lambda>x.
     seq (modify (\<lambda>d. d\<lparr>fk_to_drain := drained_empty\<rparr>)) (\<lambda>_. ret (x\<lparr>dn_tapped_surfaces := [], dn_unidentified := [], dn_gave_up := []\<rparr>)))"

definition by_id :: "string \<Rightarrow> selector" where
  "by_id i = Sel (Some (One i)) None None None None None None None"

definition tip_is_up :: "fake_config \<Rightarrow> element list \<Rightarrow> (fake, bool) prog" where
  "tip_is_up C tree = seq (gets (\<lambda>d. (fk_tip_dismiss d, fk_tip_container d))) (\<lambda>ids.
     case ids of
       (None, c) \<Rightarrow> ret False
     | (Some i, None) \<Rightarrow> raise (OtherError ''fixture error: tipkit_dismiss_id seeded without tipkit_container_id'')
     | (Some i, Some c) \<Rightarrow> ret (find_elements (fc_search C) tree (by_id i) \<noteq> [] \<and> find_elements (fc_search C) tree (by_id c) \<noteq> []))"

definition fake_dismiss_tip :: "fake_config \<Rightarrow> element list option \<Rightarrow> (fake, bool) prog" where
  "fake_dismiss_tip C tree = seq (gets fk_tip_dismiss) (\<lambda>d. case d of
     None \<Rightarrow> ret False
   | Some i \<Rightarrow> seq (case tree of None \<Rightarrow> ret True | Some t \<Rightarrow> tip_is_up C t) (\<lambda>up.
       if \<not> up then ret False
       else seq (gets fk_screen) (\<lambda>screen. seq (tip_is_up C screen) (\<lambda>up.
         if \<not> up then ret False
         else seq (resolve_in C fk_screen (by_id i)) (\<lambda>_. seq (fake_call C (Tap (by_id i))) (\<lambda>_. ret True))))))"

fun fake_attributes :: "fake_config \<Rightarrow> (selector \<times> string) list \<Rightarrow> (fake, (exn + string option) list) prog" where
  "fake_attributes C [] = ret []"
| "fake_attributes C ((sel, name) # rs) = seq (gets (\<lambda>d.
       case resolve_unique (fc_search C) (fk_screen d) sel of
         Inl e \<Rightarrow> Inl (resolve_text (fc_sel_text C) sel e)
       | Inr el \<Rightarrow> Inr (map_of (fk_attributes d (el_ref el)) name))) (\<lambda>r.
     seq (fake_attributes C rs) (\<lambda>rest. ret (r # rest)))"

definition fake_driver :: "fake_config \<Rightarrow> fake driver" where
  "fake_driver C = \<lparr>dr_name = ''fake'', dr_query = fake_query, dr_call = fake_call C,
     dr_tappable = fake_tappable C, dr_viewport = Some fake_viewport, dr_settled = None,
     dr_attributes = fake_attributes C,
     dr_capabilities = [''query'', ''semanticTap'', ''conditionWait'', ''screenshot'', ''elements'',
       cap_multi_touch, ''selectOption'', ''urlNavigation'', ''elementAttribute'', cap_text_selection,
       ''handleSystemAlert'', ''pickerWheel'', ''appContext'', ''selectPhotos'', ''handleTipkitTip'',
       ''handleNotificationBanner'', ''deviceGroup''],
     dr_alert_labels = fake_alert_labels, dr_banner_frame = gets fk_banner,
     dr_dismiss_tip = fake_dismiss_tip C, dr_interruptions = Some fake_drain,
     dr_actuations = Some (seq (gets (\<lambda>d. fst (log_drain (fk_log d)))) (\<lambda>r.
       seq (modify (\<lambda>d. d\<lparr>fk_log := snd (log_drain (fk_log d))\<rparr>)) (\<lambda>_. ret r))),
     dr_crash_signal = None\<rparr>"

end
