(* ===== verification/Scroll.thy ===== *)
theory Scroll
  imports Drivers
begin

text \<open>
  The \<open>scroll\<close> action (\<open>src/bajutsu/common/orchestrator/actions/handlers/scroll.py\<close>) and the geometry
  of a directional gesture (\<open>_gesture_math.py\<close>): the bounded loop that scrolls one step, reads the
  tree again and stops when the target is on screen, and what it may conclude from two reads.  The
  hash of a screenshot is a parameter; the two inner waits (a lagging tree, a screen still being
  drawn) take fuel.
\<close>

section \<open>A directional gesture\<close>

datatype direction = Down | Up | Rightward | Leftward

fun vertical :: "direction \<Rightarrow> bool" where
  "vertical Down = True" | "vertical Up = True" | "vertical _ = False"

text \<open>The direction the content moves against the direction the finger moves, and the look-back.\<close>

fun content_to_finger :: "direction \<Rightarrow> direction" where
  "content_to_finger Down = Up" | "content_to_finger Up = Down"
| "content_to_finger Rightward = Leftward" | "content_to_finger Leftward = Rightward"

definition swipe_fraction :: real where "swipe_fraction = 1 / 8"
definition swipe_margin :: real where "swipe_margin = 4"

definition gesture_span :: "real option \<Rightarrow> real \<Rightarrow> real" where
  "gesture_span amount extent =
     min ((case amount of None \<Rightarrow> swipe_fraction | Some a \<Rightarrow> a) * extent) (max 0 (extent - 2 * swipe_margin))"

definition gesture_ends :: "real \<Rightarrow> real \<Rightarrow> real \<Rightarrow> bool \<Rightarrow> real \<times> real" where
  "gesture_ends anchor extent travel backward =
     (let start = min (max anchor swipe_margin) (extent - swipe_margin);
          stop = (if backward then start - travel else start + travel)
      in if stop < swipe_margin then (start + (swipe_margin - stop), swipe_margin)
         else if stop > extent - swipe_margin then (start - (stop - (extent - swipe_margin)), extent - swipe_margin)
         else (start, stop))"

definition scroll_gesture :: "point \<Rightarrow> direction \<Rightarrow> real option \<Rightarrow> point \<Rightarrow> point \<times> point" where
  "scroll_gesture center dir amount screen =
     (let extent = (if vertical dir then snd screen else fst screen);
          anchor = (if vertical dir then snd center else fst center);
          (start, stop) = gesture_ends anchor extent (gesture_span amount extent) (dir = Up \<or> dir = Leftward)
      in if vertical dir then ((fst center, start), (fst center, stop))
         else ((start, snd center), (stop, snd center)))"

lemma gesture_ends_inside:
  assumes "2 * swipe_margin \<le> extent" "0 \<le> travel" "travel \<le> extent - 2 * swipe_margin" "gesture_ends anchor extent travel b = (p, q)"
  shows "{p, q} \<subseteq> {swipe_margin .. extent - swipe_margin} \<and> q - p = (if b then - travel else travel)"
proof -
  have s: "swipe_margin \<le> min (max anchor swipe_margin) (extent - swipe_margin)"
    "min (max anchor swipe_margin) (extent - swipe_margin) \<le> extent - swipe_margin"
    using assms(1) by (simp_all add: swipe_margin_def)
  show ?thesis
    using assms s unfolding gesture_ends_def Let_def by (cases b) (auto split: if_splits)
qed

section \<open>What one read shows of the region\<close>

definition step_fraction :: real where "step_fraction = 3 / 5"
definition min_step_fraction :: real where "min_step_fraction = swipe_fraction"
definition change_poll :: real where "change_poll = 1 / 10"
definition render_settle :: real where "render_settle = 1"

definition frame_lo :: "bool \<Rightarrow> frame \<Rightarrow> real" where
  "frame_lo v f = (let (x, y, w, h) = f in if v then y else x)"

definition frame_size :: "bool \<Rightarrow> frame \<Rightarrow> real" where
  "frame_size v f = (let (x, y, w, h) = f in if v then h else w)"

type_synonym row_key = "string option \<times> string option"

record region_view =
  rv_axis :: bool
  rv_positions :: "(row_key, real) dict"
  rv_in_view :: "(row_key, frame) dict"
  rv_identities :: "string option list"
  rv_cut_off :: "frame list"
  rv_visible :: "row_key list"

fun center_in_viewport :: "frame \<Rightarrow> point \<Rightarrow> bool" where
  "center_in_viewport f (vw, vh) =
     (let (cx, cy) = frame_center f in 0 \<le> cx \<and> cx \<le> vw \<and> 0 \<le> cy \<and> cy \<le> vh)"

definition region :: "regex_search \<Rightarrow> element list \<Rightarrow> selector option \<Rightarrow> point \<Rightarrow> element list \<times> frame" where
  "region rx els inside viewport = (case inside of
     None \<Rightarrow> (els, (0, 0, fst viewport, snd viewport))
   | Some sel \<Rightarrow> (case find_elements rx els sel of
       [c] \<Rightarrow> ([el \<leftarrow> els. el_ref el \<noteq> el_ref c \<and> contains (el_frame c) (el_frame el)], el_frame c)
     | _ \<Rightarrow> ([], (0, 0, 0, 0))))"

definition unclipped :: "frame \<Rightarrow> frame \<Rightarrow> bool \<Rightarrow> bool" where
  "unclipped f bounds v \<longleftrightarrow> frame_lo v f > frame_lo v bounds \<and>
     frame_lo v f + frame_size v f < frame_lo v bounds + frame_size v bounds"

definition cut_off :: "frame \<Rightarrow> frame \<Rightarrow> bool \<Rightarrow> bool" where
  "cut_off f bounds v \<longleftrightarrow> frame_lo v f < frame_lo v bounds + frame_size v bounds \<and>
     frame_lo v f + frame_size v f > frame_lo v bounds \<and> \<not> unclipped f bounds v"

text \<open>The projection's loop, with the keys found to be shared so far.\<close>

definition view_element :: "frame \<Rightarrow> element \<Rightarrow> region_view \<times> row_key list \<Rightarrow> region_view \<times> row_key list" where
  "view_element bounds el acc = (let (v, ambiguous) = acc; f = el_frame el; key = (el_identifier el, el_label el) in
     if cut_off f bounds (rv_axis v)
     then (v\<lparr>rv_cut_off := rv_cut_off v @ [f], rv_visible := List.insert key (rv_visible v)\<rparr>, ambiguous)
     else if key \<in> set ambiguous then acc
     else if dict_get (rv_positions v) key \<noteq> None
     then (v\<lparr>rv_positions := dict_del key (rv_positions v), rv_in_view := dict_del key (rv_in_view v)\<rparr>, key # ambiguous)
     else let v = v\<lparr>rv_positions := dict_put key (frame_lo (rv_axis v) f) (rv_positions v)\<rparr> in
       (if unclipped f bounds (rv_axis v)
        then v\<lparr>rv_in_view := dict_put key f (rv_in_view v), rv_visible := List.insert key (rv_visible v)\<rparr>
        else v, ambiguous))"

definition view_region :: "regex_search \<Rightarrow> element list \<Rightarrow> selector option \<Rightarrow> point \<Rightarrow> bool \<Rightarrow> region_view" where
  "view_region rx els inside viewport v = (let (rows, bounds) = region rx els inside viewport in
     fst (fold (view_element bounds) rows
       (\<lparr>rv_axis = v, rv_positions = [], rv_in_view = [], rv_identities = map el_identifier rows,
         rv_cut_off = [], rv_visible = []\<rparr>, [])))"

section \<open>What two reads say of a step\<close>

definition rows_moved :: "region_view \<Rightarrow> region_view \<Rightarrow> row_key list" where
  "rows_moved before after = [k. (k, p) \<leftarrow> rv_positions before,
     case dict_get (rv_positions after) k of None \<Rightarrow> False | Some q \<Rightarrow> p \<noteq> q]"

definition same_counts :: "'a list \<Rightarrow> 'a list \<Rightarrow> bool" where
  "same_counts xs ys \<longleftrightarrow> list_all (\<lambda>x. count_list xs x = count_list ys x) (xs @ ys)"

definition region_moved :: "region_view \<Rightarrow> region_view \<Rightarrow> bool" where
  "region_moved before after \<longleftrightarrow> rows_moved before after \<noteq> [] \<or>
     \<not> same_counts (rv_identities before) (rv_identities after) \<or>
     length (rv_in_view before) \<noteq> length (rv_in_view after)"

definition stopped :: "region_view \<Rightarrow> region_view \<Rightarrow> row_key list \<Rightarrow> string option" where
  "stopped before after movers =
     (if rv_in_view before \<noteq> [] \<and> rv_cut_off before = []
      then Some ''the region's bounds cut nothing off, so an unchanged read cannot be hiding motion''
      else if list_ex (\<lambda>(k, f). k \<in> set movers \<and> dict_get (rv_in_view after) k \<noteq> None \<and>
             list_all (\<lambda>c. frame_size (rv_axis before) c \<le> frame_size (rv_axis before) f \<or> contains c f)
               (rv_cut_off before)) (rv_in_view before)
      then Some ''an element the loop had watched move is still there and has stopped''
      else None)"

definition overshot :: "region_view \<Rightarrow> region_view \<Rightarrow> bool" where
  "overshot before after \<longleftrightarrow> rv_in_view before \<noteq> [] \<and> rv_in_view after \<noteq> [] \<and>
     list_all (\<lambda>(k, f). k \<notin> set (rv_visible after)) (rv_in_view before)"

section \<open>The loop\<close>

record 's scroll_env =
  se_driver :: "'s driver"
  se_now :: "('s, real) prog"
  se_sleep :: "real \<Rightarrow> ('s, unit) prog"
  se_capture :: "('s, string) prog" \<comment> \<open>the bytes of a screenshot\<close>
  se_hash :: "string \<Rightarrow> string"
  se_lag :: real \<comment> \<open>\<open>read_lag()\<close>, 0 for a backend whose reads do not lag\<close>
  se_search :: regex_search
  se_text :: "selector \<Rightarrow> string"

definition screen_size :: "'s driver \<Rightarrow> element list \<Rightarrow> ('s, point) prog" where
  "screen_size d els = (case dr_viewport d of Some v \<Rightarrow> v | None \<Rightarrow> ret (screen_size_from_elements els))"

fun is_crash :: "exn \<Rightarrow> bool" where
  "is_crash (BackendCrash m) = True" | "is_crash _ = False"

definition render_digest :: "'s scroll_env \<Rightarrow> ('s, string option) prog" where
  "render_digest E = (if ''screenshot'' \<notin> set (dr_capabilities (se_driver E)) then ret None
     else catching (\<lambda>e. \<not> is_crash e)
       (seq (se_capture E) (\<lambda>bytes. ret (if bytes = [] then None else Some (se_hash E bytes))))
       (\<lambda>e. ret None))"

primrec settled_render_loop :: "'s scroll_env \<Rightarrow> real \<Rightarrow> string \<Rightarrow> nat \<Rightarrow> ('s, string option) prog" where
  "settled_render_loop E deadline previous 0 = out_of_fuel"
| "settled_render_loop E deadline previous (Suc n) =
     seq (se_sleep E change_poll) (\<lambda>_. seq (render_digest E) (\<lambda>digest. case digest of
       None \<Rightarrow> ret None
     | Some d \<Rightarrow> if d = previous then ret (Some d)
         else seq (se_now E) (\<lambda>t. if t \<ge> deadline then ret None else settled_render_loop E deadline d n)))"

definition settled_render :: "'s scroll_env \<Rightarrow> nat \<Rightarrow> ('s, string option) prog" where
  "settled_render E n = seq (render_digest E) (\<lambda>digest. case digest of
     None \<Rightarrow> ret None
   | Some d \<Rightarrow> seq (se_now E) (\<lambda>t. settled_render_loop E (t + render_settle) d n))"

definition as_exn :: "'s scroll_env \<Rightarrow> selector \<Rightarrow> selector_error \<Rightarrow> exn" where
  "as_exn E sel e = resolve_text (se_text E) sel e"

definition step_endpoints :: "'s scroll_env \<Rightarrow> element list \<Rightarrow> direction \<Rightarrow> selector option \<Rightarrow> point \<Rightarrow> real
    \<Rightarrow> ('s, point \<times> point) prog" where
  "step_endpoints E els dir inside viewport fraction =
     seq (case inside of
            None \<Rightarrow> ret (fst viewport / 2, snd viewport / 2)
          | Some sel \<Rightarrow> (case resolve_unique (se_search E) els sel of
              Inl e \<Rightarrow> raise (as_exn E sel e)
            | Inr c \<Rightarrow> ret (frame_center (el_frame c))))
       (\<lambda>anchor. ret (scroll_gesture anchor (content_to_finger dir) (Some fraction) viewport))"

definition resolve_target :: "'s scroll_env \<Rightarrow> element list \<Rightarrow> selector \<Rightarrow> ('s, element option) prog" where
  "resolve_target E els to = (case resolve_unique (se_search E) els to of
     Inl (ElementNotFound x) \<Rightarrow> ret None
   | Inl e \<Rightarrow> raise (as_exn E to e)
   | Inr el \<Rightarrow> ret (Some el))"

primrec region_lag_loop :: "'s scroll_env \<Rightarrow> region_view \<Rightarrow> selector option \<Rightarrow> point \<Rightarrow> real \<Rightarrow> element list \<Rightarrow> nat
    \<Rightarrow> ('s, element list) prog" where
  "region_lag_loop E before inside viewport deadline els 0 = out_of_fuel"
| "region_lag_loop E before inside viewport deadline els (Suc n) =
     seq (se_now E) (\<lambda>t. if \<not> t < deadline then ret els
       else (let v = view_region (se_search E) els inside viewport (rv_axis before) in
         if (rv_identities v \<noteq> [] \<or> rv_identities before = []) \<and> region_moved before v then ret els
         else seq (se_sleep E change_poll) (\<lambda>_. seq (dr_query (se_driver E)) (\<lambda>els'.
           region_lag_loop E before inside viewport deadline els' n))))"

definition region_after_step :: "'s scroll_env \<Rightarrow> region_view \<Rightarrow> selector option \<Rightarrow> point \<Rightarrow> nat
    \<Rightarrow> ('s, element list) prog" where
  "region_after_step E before inside viewport n = seq (dr_query (se_driver E)) (\<lambda>els.
     if rv_positions before = [] \<and> rv_identities before \<noteq> [] then ret els
     else seq (se_now E) (\<lambda>t. region_lag_loop E before inside viewport (t + se_lag E) els n))"

record scroll_state =
  ss_movers :: "row_key list"
  ss_fraction :: real
  ss_previous :: "region_view option"
  ss_digest :: "string option"
  ss_reversed :: bool
  ss_reverse_next :: bool
  ss_unobserved :: bool

text \<open>What the read that follows a step says of that step.\<close>

definition judge :: "'s scroll_env \<Rightarrow> selector \<Rightarrow> nat \<Rightarrow> region_view \<Rightarrow> scroll_state \<Rightarrow> ('s, scroll_state) prog" where
  "judge E to n view st = (case ss_previous st of
     None \<Rightarrow> ret st
   | Some prev \<Rightarrow>
     (let st = st\<lparr>ss_movers := rows_moved prev view @ ss_movers st\<rparr> in
      if \<not> ss_reversed st \<and> overshot prev view
      then (if ss_fraction st \<le> min_step_fraction
            then raise (NotFound (''scroll: '' @ se_text E to @ '' not found; a step overshot the region''))
            else ret (st\<lparr>ss_fraction := max (ss_fraction st / 2) min_step_fraction, ss_reverse_next := True,
                        ss_digest := None, ss_unobserved := False\<rparr>))
      else if region_moved prev view then ret (st\<lparr>ss_digest := None, ss_unobserved := False\<rparr>)
      else (case stopped prev view (ss_movers st) of
        Some evidence \<Rightarrow> raise (NotFound (''scroll: '' @ se_text E to @
            '' not found; the region did not change and '' @ evidence @ '' (end of content)''))
      | None \<Rightarrow> seq (settled_render E n) (\<lambda>settled.
          if settled \<noteq> None \<and> ss_digest st \<noteq> None
          then (if settled = ss_digest st
                then raise (NotFound (''scroll: '' @ se_text E to @
                  '' not found; neither the region nor the rendered screen changed across two steps (end of content)''))
                else ret (st\<lparr>ss_unobserved := False, ss_digest := settled\<rparr>))
          else ret (st\<lparr>ss_unobserved := True, ss_digest := settled\<rparr>)))))"

text \<open>One pass of the loop up to the step it takes; \<open>take_step\<close> is what follows.\<close>

definition scroll_visit :: "'s scroll_env \<Rightarrow> selector \<Rightarrow> (frame \<Rightarrow> point \<Rightarrow> ('s, bool) prog) \<Rightarrow> selector option \<Rightarrow> point
    \<Rightarrow> bool \<Rightarrow> nat \<Rightarrow> scroll_state \<Rightarrow> element list
    \<Rightarrow> (scroll_state \<Rightarrow> region_view \<Rightarrow> ('s, unit) prog) \<Rightarrow> ('s, unit) prog" where
  "scroll_visit E to stop inside viewport axis n st els take_step =
     seq (resolve_target E els to) (\<lambda>target.
     seq (case target of None \<Rightarrow> ret False | Some el \<Rightarrow> stop (el_frame el) viewport) (\<lambda>reached.
       if reached then ret ()
       else (let view = view_region (se_search E) els inside viewport axis in
         seq (judge E to n view st) (\<lambda>st. take_step st view))))"

definition not_on_screen :: "'s scroll_env \<Rightarrow> selector \<Rightarrow> nat \<Rightarrow> scroll_state \<Rightarrow> exn" where
  "not_on_screen E to max_scrolls st = NotFound (''scroll: '' @ se_text E to @ '' not on-screen after '' @
     show_nat max_scrolls @ '' scroll(s)'' @
     (if ss_unobserved st then ''; whether the region rows_moved could not be observed on the last step'' else []))"

primrec scroll_steps :: "'s scroll_env \<Rightarrow> selector \<Rightarrow> direction \<Rightarrow> selector option \<Rightarrow> (frame \<Rightarrow> point \<Rightarrow> ('s, bool) prog)
    \<Rightarrow> nat \<Rightarrow> point \<Rightarrow> nat \<Rightarrow> nat \<Rightarrow> scroll_state \<Rightarrow> element list \<Rightarrow> ('s, unit) prog" where
  "scroll_steps E to dir inside stop max_scrolls viewport n 0 st els =
     scroll_visit E to stop inside viewport (vertical dir) n st els
       (\<lambda>st view. raise (not_on_screen E to max_scrolls st))"
| "scroll_steps E to dir inside stop max_scrolls viewport n (Suc k) st els =
     scroll_visit E to stop inside viewport (vertical dir) n st els (\<lambda>st view.
       seq (step_endpoints E els (if ss_reverse_next st then content_to_finger dir else dir) inside viewport (ss_fraction st))
         (\<lambda>(frm, dest). seq (dr_call (se_driver E) (Scroll frm dest)) (\<lambda>_.
           seq (region_after_step E view inside viewport n) (\<lambda>els'.
             scroll_steps E to dir inside stop max_scrolls viewport n k
               (st\<lparr>ss_reversed := ss_reverse_next st, ss_reverse_next := False, ss_previous := Some view\<rparr>) els'))))"

definition scroll_state0 :: "real option \<Rightarrow> scroll_state" where
  "scroll_state0 amount = \<lparr>ss_movers = [], ss_fraction = (case amount of None \<Rightarrow> step_fraction | Some a \<Rightarrow> a),
     ss_previous = None, ss_digest = None, ss_reversed = False, ss_reverse_next = False, ss_unobserved = False\<rparr>"

definition scroll_to_target :: "'s scroll_env \<Rightarrow> selector \<Rightarrow> direction \<Rightarrow> selector option \<Rightarrow> nat
    \<Rightarrow> (frame \<Rightarrow> point \<Rightarrow> ('s, bool) prog) \<Rightarrow> real option \<Rightarrow> nat \<Rightarrow> ('s, unit) prog" where
  "scroll_to_target E to dir inside max_scrolls stop amount n =
     seq (dr_query (se_driver E)) (\<lambda>els. seq (screen_size (se_driver E) els) (\<lambda>viewport.
       scroll_steps E to dir inside stop max_scrolls viewport n max_scrolls (scroll_state0 amount) els))"

definition on_screen :: "frame \<Rightarrow> point \<Rightarrow> ('s, bool) prog" where
  "on_screen f v = ret (center_in_viewport f v)"

definition scroll_until_tappable :: "'s scroll_env \<Rightarrow> selector \<Rightarrow> direction \<Rightarrow> selector option \<Rightarrow> nat \<Rightarrow> nat
    \<Rightarrow> ('s, unit) prog" where
  "scroll_until_tappable E sel dir inside max_scrolls n =
     catch (scroll_to_target E sel dir inside max_scrolls
         (\<lambda>f v. if center_in_viewport f v then dr_tappable (se_driver E) sel else ret False) None n)
       (\<lambda>e. case e of
          NotFound m \<Rightarrow> raise (NotFound (''scroll: '' @ se_text E sel @ '' never became tappable within '' @
            show_nat max_scrolls @ '' scroll(s) ('' @ m @ '')''))
        | _ \<Rightarrow> raise e)"

section \<open>What a scroll that returns has shown\<close>

text \<open>
  The reads of a device: what a read returns is shown from then on, until something acts.
  \<open>steps\<close> counts the gestures the device took, \<open>port\<close> is the size of its viewport.
\<close>

definition same_view :: "('s \<Rightarrow> element list \<Rightarrow> bool) \<Rightarrow> ('s \<Rightarrow> nat) \<Rightarrow> ('s \<Rightarrow> point) \<Rightarrow> 's \<Rightarrow> 's \<Rightarrow> bool" where
  "same_view sees steps port s t \<longleftrightarrow> steps t = steps s \<and> port t = port s \<and> (\<forall>els. sees s els \<longrightarrow> sees t els)"

text \<open>In the tree shown, the target is one element, its centre in the viewport.\<close>

definition found :: "regex_search \<Rightarrow> ('s \<Rightarrow> element list \<Rightarrow> bool) \<Rightarrow> selector \<Rightarrow> point \<Rightarrow> 's \<Rightarrow> bool" where
  "found rx sees to vp t \<longleftrightarrow> (\<exists>els el. sees t els \<and> resolve_unique rx els to = Inr el \<and>
     center_in_viewport (el_frame el) vp)"

locale screen_reads =
  fixes E :: "'s scroll_env" and sees :: "'s \<Rightarrow> element list \<Rightarrow> bool" and steps :: "'s \<Rightarrow> nat"
    and port :: "'s \<Rightarrow> point"
  assumes read: "wp True (dr_query (se_driver E)) (\<lambda>els t. sees t els \<and> steps t = steps s \<and> port t = port s)
      (\<lambda>e t. steps t = steps s) s"
    and sized: "\<exists>v. dr_viewport (se_driver E) = Some v"
    and viewport: "dr_viewport (se_driver E) = Some v \<Longrightarrow> keeps (same_view sees steps port) v"
    and viewport_size: "dr_viewport (se_driver E) = Some v \<Longrightarrow> wp True v (\<lambda>p t. p = port s) (\<lambda>_ _. True) s"
    and now: "keeps (same_view sees steps port) (se_now E)"
    and sleep: "keeps (same_view sees steps port) (se_sleep E d)"
    and capture: "keeps (same_view sees steps port) (se_capture E)"
    and tappable: "keeps (same_view sees steps port) (dr_tappable (se_driver E) sel)"
    and call: "wp True (dr_call (se_driver E) (Scroll a b)) (\<lambda>_ t. steps t \<le> Suc (steps s) \<and> port t = port s) (\<lambda>_ t. steps t \<le> Suc (steps s)) s"
begin

sublocale views: keeping "same_view sees steps port"
  by unfold_locales (auto simp: same_view_def)

lemma keeps_digest: "keeps (same_view sees steps port) (render_digest E)"
  unfolding render_digest_def by (intro views.keep_intros capture)

lemma keeps_settled_loop: "keeps (same_view sees steps port) (settled_render_loop E deadline previous n)"
proof (induction n arbitrary: previous)
  case (Suc n)
  show ?case
    unfolding settled_render_loop.simps
    by (intro views.keep_seq views.keep_option views.keep_if views.keep_ret sleep keeps_digest now Suc.IH)
qed (simp add: views.keep_fuel)

lemma keeps_settled: "keeps (same_view sees steps port) (settled_render E n)"
  unfolding settled_render_def
  by (intro views.keep_seq views.keep_option views.keep_ret keeps_digest now keeps_settled_loop)

lemma keeps_judge: "keeps (same_view sees steps port) (judge E to n view st)"
  unfolding judge_def Let_def
  by (intro views.keep_option views.keep_if views.keep_ret views.keep_raise views.keep_seq keeps_settled)

lemma keeps_resolve: "keeps (same_view sees steps port) (resolve_target E els to)"
  unfolding resolve_target_def
  by (auto intro: views.keep_ret views.keep_raise split: sum.split selector_error.split)

lemma keeps_size: "keeps (same_view sees steps port) (screen_size (se_driver E) els)"
  unfolding screen_size_def by (intro views.keep_option views.keep_ret viewport)

lemma keeps_endpoints: "keeps (same_view sees steps port) (step_endpoints E els dir inside viewport fraction)"
  unfolding step_endpoints_def
  by (intro views.keep_seq views.keep_option views.keep_ret)
    (auto intro: views.keep_ret views.keep_raise split: sum.split)

lemma view_wp:
  "keeps (same_view sees steps port) m
   \<Longrightarrow> (\<And>v t. m s = (Ret v, t) \<Longrightarrow> steps t = steps s \<Longrightarrow> port t = port s \<Longrightarrow> (\<And>els. sees s els \<Longrightarrow> sees t els) \<Longrightarrow> Q v t)
   \<Longrightarrow> (\<And>e t. steps t = steps s \<Longrightarrow> X e t) \<Longrightarrow> wp True m Q X s"
  by (rule wpI) (auto dest: keepsD simp: same_view_def)

text \<open>The tree handed back after a step is the last one read.\<close>

lemma lag_loop_shows:
  "sees s els \<Longrightarrow> wp True (region_lag_loop E before inside viewport deadline els n)
     (\<lambda>els' t. sees t els' \<and> steps t = steps s \<and> port t = port s) (\<lambda>e t. steps t = steps s) s"
proof (induction n arbitrary: els s)
  case (Suc n)
  show ?case
    unfolding region_lag_loop.simps wp_seq Let_def wp_if wp_ret
  proof (rule view_wp [OF now], goal_cases)
    case (1 v t)
    have again: "wp True (se_sleep E change_poll)
        (\<lambda>_. wp True (dr_query (se_driver E)) (\<lambda>els'. wp True (region_lag_loop E before inside viewport deadline els' n)
          (\<lambda>els' t. sees t els' \<and> steps t = steps s \<and> port t = port s) (\<lambda>e t. steps t = steps s)) (\<lambda>e t. steps t = steps s))
        (\<lambda>e t. steps t = steps s) t"
    proof (rule view_wp [OF sleep], goal_cases)
      case (1 _ u)
      have u: "steps u = steps s" "port u = port s" using 1 \<open>steps t = steps s\<close> \<open>port t = port s\<close> by simp_all
      show ?case
        by (rule wp_mono [OF read]) (use u in \<open>auto intro!: wp_mono [OF Suc.IH]\<close>)
    qed (use \<open>steps t = steps s\<close> in simp)
    show ?case using again 1 Suc.prems by simp
  qed simp
qed (simp add: wp_simps)

lemma after_step_shows:
  "wp True (region_after_step E before inside viewport n)
     (\<lambda>els t. sees t els \<and> steps t = steps s \<and> port t = port s) (\<lambda>e t. steps t = steps s) s"
  unfolding region_after_step_def wp_seq wp_if wp_ret
proof (rule wp_mono [OF read])
  fix els t assume els: "sees t els \<and> steps t = steps s \<and> port t = port s"
  have "wp True (se_now E) (\<lambda>v. wp True (region_lag_loop E before inside viewport (v + se_lag E) els n)
      (\<lambda>els t. sees t els \<and> steps t = steps s \<and> port t = port s) (\<lambda>e t. steps t = steps s)) (\<lambda>e t. steps t = steps s) t"
    by (rule view_wp [OF now]) (use els in \<open>auto intro!: wp_mono [OF lag_loop_shows]\<close>)
  then show "if rv_positions before = [] \<and> rv_identities before \<noteq> [] then sees t els \<and> steps t = steps s \<and> port t = port s
      else wp True (se_now E) (\<lambda>v. wp True (region_lag_loop E before inside viewport (v + se_lag E) els n)
        (\<lambda>els t. sees t els \<and> steps t = steps s \<and> port t = port s) (\<lambda>e t. steps t = steps s)) (\<lambda>e t. steps t = steps s) t"
    using els by simp
qed simp

lemma resolve_target_returns:
  "returns (\<lambda>r. case r of None \<Rightarrow> True | Some el \<Rightarrow> resolve_unique (se_search E) els to = Inr el) (resolve_target E els to)"
  unfolding resolve_target_def
  by (auto intro!: returns_intros split: sum.split selector_error.split)

text \<open>A visit ends at the target, or goes on from a state with the same view.\<close>

lemma visit_wp:
  assumes sees: "sees s els"
    and stop: "\<And>f v. keeps (same_view sees steps port) (stop f v)"
    and stops: "\<And>f v. returns (\<lambda>b. b \<longrightarrow> center_in_viewport f v) (stop f v)"
    and found: "\<And>t. steps t = steps s \<Longrightarrow> port t = port s \<Longrightarrow> found (se_search E) sees to vp t \<Longrightarrow> Q () t"
    and error: "\<And>e t. steps t = steps s \<Longrightarrow> X e t"
    and later: "\<And>st view t. steps t = steps s \<Longrightarrow> port t = port s \<Longrightarrow> wp True (take_step st view) Q X t"
  shows "wp True (scroll_visit E to stop inside vp axis n st els take_step) Q X s"
  unfolding scroll_visit_def wp_seq wp_if wp_ret Let_def
proof (rule view_wp [OF keeps_resolve], goal_cases)
  case (1 target t)
  have target: "case target of None \<Rightarrow> True | Some el \<Rightarrow> resolve_unique (se_search E) els to = Inr el"
    by (rule returnsD [OF resolve_target_returns 1(1)])
  have judge: "wp True (judge E n' st' m v) (\<lambda>st. wp True (take_step st w) Q X) X u"
    if "steps u = steps s" "port u = port s" for n' st' m v w u
    by (rule view_wp [OF keeps_judge]) (use that later error in auto)
  show ?case
  proof (cases target)
    case None
    then show ?thesis by (simp add: wp_ret judge 1)
  next
    case (Some el)
    then have r: "resolve_unique (se_search E) els to = Inr el" using target by simp
    show ?thesis
      unfolding Some option.case
    proof (rule view_wp [OF stop], goal_cases)
      case (1 reached u)
      note u = 1
      have "Q () u" if reached
      proof (rule found)
        show "steps u = steps s" "port u = port s" using u \<open>steps t = steps s\<close> \<open>port t = port s\<close> by simp_all
        have "center_in_viewport (el_frame el) vp" using returnsD [OF stops u(1)] that by simp
        moreover have "sees u els" using u(4) \<open>\<And>els. sees s els \<Longrightarrow> sees t els\<close> sees by blast
        ultimately show "found (se_search E) sees to vp u" using r by (auto simp: found_def)
      qed
      then show ?case using u \<open>steps t = steps s\<close> \<open>port t = port s\<close> by (auto intro: judge)
    next
      case (2 e u)
      then show ?case using \<open>steps t = steps s\<close> by (simp add: error)
    qed
  qed
qed (simp add: error)

lemma scroll_steps_wp:
  assumes stop: "\<And>f v. keeps (same_view sees steps port) (stop f v)"
    and stops: "\<And>f v. returns (\<lambda>b. b \<longrightarrow> center_in_viewport f v) (stop f v)"
  shows "sees s els \<Longrightarrow> wp True (scroll_steps E to dir inside stop m vp n k st els)
     (\<lambda>_ t. steps t \<le> steps s + k \<and> port t = port s \<and> found (se_search E) sees to vp t) (\<lambda>e t. steps t \<le> steps s + k) s"
proof (induction k arbitrary: s st els)
  case 0
  then show ?case
    unfolding scroll_steps.simps by (rule visit_wp [OF _ stop stops]) (auto simp: wp_raise)
next
  case (Suc k)
  show ?case
    unfolding scroll_steps.simps
  proof (rule visit_wp [OF Suc.prems stop stops], goal_cases)
    case (3 st view t)
    show ?case
      unfolding wp_seq
    proof (rule view_wp [OF keeps_endpoints], goal_cases)
      case (1 ends u)
      obtain a b where ends: "ends = (a, b)" by (cases ends)
      have u: "steps u = steps s" "port u = port s" using 1 3 by simp_all
      show ?case
        unfolding ends prod.case wp_seq
      proof (rule wp_mono [OF call], goal_cases)
        case (1 _ w)
        show ?case
        proof (rule wp_mono [OF after_step_shows], goal_cases)
          case (1 els' x)
          then have x: "steps x \<le> Suc (steps s)" "port x = port s"
            using u \<open>steps w \<le> Suc (steps u) \<and> port w = port u\<close> by simp_all
          show ?case
            by (rule wp_mono [OF Suc.IH]) (use 1 x in auto)
        qed (use u 1 in simp)
      qed (use u in simp)
    qed (use 3 in simp)
  qed simp_all
qed

lemma scroll_to_target_wp:
  assumes stop: "\<And>f v. keeps (same_view sees steps port) (stop f v)"
    and stops: "\<And>f v. returns (\<lambda>b. b \<longrightarrow> center_in_viewport f v) (stop f v)"
  shows "wp True (scroll_to_target E to dir inside m stop amount n)
     (\<lambda>_ t. steps t \<le> steps s + m \<and> found (se_search E) sees to (port t) t) (\<lambda>e t. steps t \<le> steps s + m) s"
  unfolding scroll_to_target_def wp_seq
proof (rule wp_mono [OF read], goal_cases)
  case (1 els t)
  obtain v where v: "dr_viewport (se_driver E) = Some v" using sized by blast
  have size: "wp True (screen_size (se_driver E) els) (\<lambda>p u. p = port t) (\<lambda>_ _. True) t"
    unfolding screen_size_def v option.case by (rule viewport_size [OF v])
  show ?case
  proof (rule view_wp [OF keeps_size], goal_cases)
    case (1 vp u)
    have vp: "vp = port t" by (rule wp_returned [OF size 1(1)])
    have "sees u els" and u: "steps u = steps s" "port u = port t" using 1 \<open>sees t els \<and> _\<close> by auto
    show ?case
      by (rule wp_mono [OF scroll_steps_wp [OF stop stops \<open>sees u els\<close>]]) (use u vp in auto)
  qed (use 1 in simp)
qed simp

lemma on_screen_keeps: "keeps (same_view sees steps port) (on_screen f v)"
  unfolding on_screen_def by (rule views.keep_ret)

lemma on_screen_returns: "returns (\<lambda>b. b \<longrightarrow> center_in_viewport f v) (on_screen f v)"
  unfolding on_screen_def by (rule returns_ret) simp

end

end
