(* ===== verification/Actions.thy ===== *)
theory Actions
  imports Scroll
begin

text \<open>
  The one-shot actions of a step (\<open>src/bajutsu/common/orchestrator/actions\<close>): the handlers of
  \<open>gestures.py\<close>, \<open>device.py\<close>, \<open>navigation.py\<close>, \<open>lifecycle.py\<close> and \<open>manual.py\<close>, the bounded scroll that
  recovers a covered tap, and the dispatcher with its selection contract.  What \<open>http\<close>, \<open>generate\<close> and
  \<open>totp\<close> do is a program of the environment.
\<close>

section \<open>Actions\<close>

datatype control_op =
    SetLocation real real
  | PushPayload string
  | ClearKeychain
  | ClearClipboard
  | SetClipboard string
  | Home
  | ForegroundApp
  | OverrideStatusBar "(string \<times> string) list"
  | ClearStatusBar

datatype step_action =
    ATap selector
  | ATapPoint point
  | ADoubleTap selector
  | ALongPress selector real
  | AType "selector option" string
  | ASelectOption selector string
  | ASetPickerValue selector string
  | ASelectPhotos "int list"
  | AClear selector
  | ADelete selector int
  | ASelect selector
  | ACopy
  | ASwipePoints point point
  | ASwipeOn selector direction "real option"
  | ADrag selector direction "real option"
  | APinch selector real
  | ARotate selector real
  | AScroll selector direction "selector option" nat "real option"
  | ABack
  | ANavigate string
  | ARelaunch
  | AControl control_op
  | AProduce string string \<comment> \<open>\<open>http\<close>, \<open>generate\<close> or \<open>totp\<close>, and its arguments\<close>
  | AManual string "string option"

record 's act_env =
  ae_scroll :: "'s scroll_env"
  ae_relaunch :: "('s, unit) prog option"
  ae_control :: "(control_op \<Rightarrow> ('s, unit) prog) option"
  ae_produce :: "string \<Rightarrow> string \<Rightarrow> ('s, unit) prog"

abbreviation ae_driver :: "'s act_env \<Rightarrow> 's driver" where
  "ae_driver A \<equiv> se_driver (ae_scroll A)"

abbreviation ae_call :: "'s act_env \<Rightarrow> driver_call \<Rightarrow> ('s, unit) prog" where
  "ae_call A \<equiv> dr_call (ae_driver A)"

section \<open>A covered tap\<close>

definition recovery_scrolls :: nat where "recovery_scrolls = 3"

definition recovery_directions :: "(nat \<times> direction) list" where
  "recovery_directions = [(recovery_scrolls * 1, Down), (recovery_scrolls * 2, Up)]"

fun is_not_tappable :: "exn \<Rightarrow> bool" where
  "is_not_tappable (NotTappable m) = True" | "is_not_tappable _ = False"

definition still_covered :: "exn \<Rightarrow> exn" where
  "still_covered obstruction =
     NotTappable (''still not tappable after a bounded scroll attempt: '' @ exn_text obstruction)"

text \<open>One direction: whether the target came out from under its cover.\<close>

definition uncovered :: "'s scroll_env \<Rightarrow> selector \<Rightarrow> direction \<Rightarrow> nat \<Rightarrow> nat \<Rightarrow> ('s, bool) prog" where
  "uncovered E sel dir m n = catch (seq (scroll_until_tappable E sel dir None m n) (\<lambda>_. ret True))
     (\<lambda>e. case e of NotFound x \<Rightarrow> ret False | _ \<Rightarrow> raise e)"

text \<open>An actuation: \<open>None\<close> when it landed, the obstruction when the target was covered.\<close>

definition attempt :: "('s, unit) prog \<Rightarrow> ('s, exn option) prog" where
  "attempt actuate = catching is_not_tappable (seq actuate (\<lambda>_. ret None)) (\<lambda>e. ret (Some e))"

fun recover :: "'s scroll_env \<Rightarrow> ('s, unit) prog \<Rightarrow> selector \<Rightarrow> nat \<Rightarrow> (nat \<times> direction) list \<Rightarrow> exn \<Rightarrow> ('s, unit) prog" where
  "recover E actuate sel n [] obstruction = raise (still_covered obstruction)"
| "recover E actuate sel n ((m, dir) # ds) obstruction = seq (uncovered E sel dir m n) (\<lambda>free.
     if \<not> free then recover E actuate sel n ds obstruction
     else seq (attempt actuate) (\<lambda>r. case r of
       None \<Rightarrow> ret () | Some e \<Rightarrow> recover E actuate sel n ds e))"

definition tap_with_recovery :: "'s scroll_env \<Rightarrow> ('s, unit) prog \<Rightarrow> selector \<Rightarrow> nat \<Rightarrow> ('s, unit) prog" where
  "tap_with_recovery E actuate sel n = seq (attempt actuate) (\<lambda>r. case r of
     None \<Rightarrow> ret () | Some e \<Rightarrow> recover E actuate sel n recovery_directions e)"

section \<open>The handlers\<close>

definition directional_endpoints :: "'s act_env \<Rightarrow> selector \<Rightarrow> direction \<Rightarrow> real option \<Rightarrow> ('s, point \<times> point) prog" where
  "directional_endpoints A sel dir amount =
     (let d = ae_driver A; E = ae_scroll A in
      seq (case dr_settled d of Some q \<Rightarrow> q | None \<Rightarrow> dr_query d) (\<lambda>els.
        case resolve_unique (se_search E) els sel of
          Inl e \<Rightarrow> raise (as_exn E sel e)
        | Inr el \<Rightarrow> seq (screen_size d els) (\<lambda>size.
            ret (scroll_gesture (frame_center (el_frame el)) dir amount size))))"

text \<open>\<open>screen_size(driver)\<close>, with no tree at hand.\<close>

definition current_size :: "'s driver \<Rightarrow> ('s, point) prog" where
  "current_size d = (case dr_viewport d of
     Some v \<Rightarrow> v | None \<Rightarrow> seq (dr_query d) (\<lambda>els. ret (screen_size_from_elements els)))"

definition require_multi_touch :: "'s act_env \<Rightarrow> string \<Rightarrow> ('s, unit) prog" where
  "require_multi_touch A what = (if cap_multi_touch \<in> set (dr_capabilities (ae_driver A)) then ret ()
     else raise (Unsupported (what @ '' requires a multi-touch capable backend; this backend supports single touch only'')))"

definition value_of :: "'s act_env \<Rightarrow> selector \<Rightarrow> ('s, string) prog" where
  "value_of A sel = seq (dr_query (ae_driver A)) (\<lambda>els.
     case resolve_unique (se_search (ae_scroll A)) els sel of
       Inl e \<Rightarrow> raise (as_exn (ae_scroll A) sel e)
     | Inr el \<Rightarrow> ret (case el_value el of None \<Rightarrow> [] | Some v \<Rightarrow> v))"

definition focus :: "'s act_env \<Rightarrow> selector \<Rightarrow> nat \<Rightarrow> ('s, unit) prog" where
  "focus A sel n = tap_with_recovery (ae_scroll A) (ae_call A (Tap sel)) sel n"

definition do_clear :: "'s act_env \<Rightarrow> selector \<Rightarrow> nat \<Rightarrow> ('s, unit) prog" where
  "do_clear A sel n = seq (value_of A sel) (\<lambda>current. seq (focus A sel n) (\<lambda>_.
     if current = [] then ret ()
     else if cap_text_selection \<in> set (dr_capabilities (ae_driver A))
     then seq (ae_call A SelectAll) (\<lambda>_. seq (ae_call A (DeleteText 1)) (\<lambda>_. seq (value_of A sel) (\<lambda>remaining.
       only_if (remaining \<noteq> []) (ae_call A (DeleteText (int (length remaining)))))))
     else ae_call A (DeleteText (int (length current)))))"

definition do_control :: "'s act_env \<Rightarrow> control_op \<Rightarrow> ('s, unit) prog" where
  "do_control A op = (case ae_control A of
     None \<Rightarrow> raise (Unsupported ''requires a real device environment (not supported on fake driver)'')
   | Some c \<Rightarrow> c op)"

definition lower_char :: "char \<Rightarrow> char" where
  "lower_char c = (if 65 \<le> (of_char c :: nat) \<and> (of_char c :: nat) \<le> 90 then char_of ((of_char c :: nat) + 32) else c)"

definition is_alpha :: "char \<Rightarrow> bool" where
  "is_alpha c \<longleftrightarrow> 97 \<le> (of_char (lower_char c) :: nat) \<and> (of_char (lower_char c) :: nat) \<le> 122"

text \<open>\<open>urlsplit(url).scheme\<close>: a letter, then letters, digits, \<open>+\<close>, \<open>-\<close> or \<open>.\<close> up to the first colon.\<close>

definition url_scheme :: "string \<Rightarrow> string" where
  "url_scheme u = (let s = takeWhile (\<lambda>c. c \<noteq> CHR '':'') u in
     if CHR '':'' \<in> set u \<and> s \<noteq> [] \<and> is_alpha (hd s) \<and>
        list_all (\<lambda>c. is_alpha c \<or> is_digit c \<or> c \<in> set ''+-.'') s
     then map lower_char s else [])"

definition navigate_url_problem :: "string \<Rightarrow> string option" where
  "navigate_url_problem url = (let s = strip url in
     if s = [] then Some ''navigate needs a non-empty URL''
     else if url_scheme s \<notin> {[], ''http'', ''https''}
     then Some (''navigate only opens http/https URLs or a path relative to baseUrl, got '' @ url)
     else None)"

definition has_token :: "string \<Rightarrow> bool" where
  "has_token u \<longleftrightarrow> list_ex (\<lambda>i. take 2 (drop i u) = [CHR ''$'', char_of (123 :: nat)]) [0..<length u]"

definition do_navigate :: "'s act_env \<Rightarrow> string \<Rightarrow> ('s, unit) prog" where
  "do_navigate A url = (if has_token url
     then raise (SelectorFailed (''navigate: unresolved token in URL '' @ url))
     else case navigate_url_problem url of
       Some p \<Rightarrow> raise (SelectorFailed p)
     | None \<Rightarrow> ae_call A (Goto (strip url)))"

fun run_action :: "'s act_env \<Rightarrow> nat \<Rightarrow> step_action \<Rightarrow> ('s, unit) prog" where
  "run_action A n (ATap sel) = focus A sel n"
| "run_action A n (ATapPoint p) = seq (current_size (ae_driver A)) (\<lambda>(w, h).
     ae_call A (TapPoint (fst p * w, snd p * h)))"
| "run_action A n (ADoubleTap sel) = tap_with_recovery (ae_scroll A) (ae_call A (DoubleTap sel)) sel n"
| "run_action A n (ALongPress sel d) = tap_with_recovery (ae_scroll A) (ae_call A (LongPress sel d)) sel n"
| "run_action A n (AType into t) = seq (case into of None \<Rightarrow> ret () | Some sel \<Rightarrow> focus A sel n) (\<lambda>_. ae_call A (TypeText t))"
| "run_action A n (ASelectOption sel v) = ae_call A (SelectOption sel v)"
| "run_action A n (ASetPickerValue sel v) = ae_call A (SetPickerValue sel v)"
| "run_action A n (ASelectPhotos is) = ae_call A (SelectPhotos is)"
| "run_action A n (AClear sel) = do_clear A sel n"
| "run_action A n (ADelete sel k) = seq (focus A sel n) (\<lambda>_. ae_call A (DeleteText k))"
| "run_action A n (ASelect sel) = seq (focus A sel n) (\<lambda>_. ae_call A SelectAll)"
| "run_action A n ACopy = ae_call A CopySelection"
| "run_action A n (ASwipePoints a b) = ae_call A (Swipe a b)"
| "run_action A n (ASwipeOn sel dir amount) = seq (directional_endpoints A sel dir amount) (\<lambda>(a, b). ae_call A (Scroll a b))"
| "run_action A n (ADrag sel dir amount) = seq (directional_endpoints A sel dir amount) (\<lambda>(a, b). ae_call A (Swipe a b))"
| "run_action A n (APinch sel k) = seq (require_multi_touch A ''pinch'') (\<lambda>_. ae_call A (Pinch sel k))"
| "run_action A n (ARotate sel k) = seq (require_multi_touch A ''rotate'') (\<lambda>_. ae_call A (Rotate sel k))"
| "run_action A n (AScroll to dir inside m amount) = scroll_to_target (ae_scroll A) to dir inside m on_screen amount n"
| "run_action A n ABack = ae_call A Back"
| "run_action A n (ANavigate u) = do_navigate A u"
| "run_action A n ARelaunch = (case ae_relaunch A of
     None \<Rightarrow> raise (Unsupported ''relaunch requires a real device environment (not supported on fake driver)'')
   | Some r \<Rightarrow> r)"
| "run_action A n (AControl op) = do_control A op"
| "run_action A n (AProduce what args) = ae_produce A what args"
| "run_action A n (AManual label bypass) = raise (Unsupported (''manual takeover step: '' @ label @ '' -- '' @
     (case bypass of None \<Rightarrow> ''no deterministic run-time equivalent''
      | Some b \<Rightarrow> if b = [] then ''no deterministic run-time equivalent'' else ''wire a deterministic bypass: '' @ b)))"

section \<open>The dispatcher\<close>

definition is_copy :: "step_action \<Rightarrow> bool" where "is_copy a \<longleftrightarrow> a = ACopy"

fun is_select :: "step_action \<Rightarrow> bool" where
  "is_select (ASelect sel) = True" | "is_select _ = False"

text \<open>\<open>_do_action\<close>, with the run's selection before it and, when it returns, after it.\<close>

definition do_action :: "'s act_env \<Rightarrow> nat \<Rightarrow> step_action \<Rightarrow> bool \<Rightarrow> ('s, bool) prog" where
  "do_action A n a active =
     (if is_copy a \<and> \<not> active
      then raise (Unsupported ''copy requires an active selection'')
      else seq (run_action A n a) (\<lambda>_. ret (if is_select a then True else if \<not> is_copy a then False else active)))"

fun do_actions :: "'s act_env \<Rightarrow> nat \<Rightarrow> step_action list \<Rightarrow> bool \<Rightarrow> ('s, bool) prog" where
  "do_actions A n [] active = ret active"
| "do_actions A n (a # as) active = seq (do_action A n a active) (do_actions A n as)"

section \<open>The selection contract\<close>

lemma seq_Ret: "seq m f s = (Ret v, t) \<longleftrightarrow> (\<exists>x u. m s = (Ret x, u) \<and> f x u = (Ret v, t))"
  by (auto simp: seq_def split: prod.splits res.splits)

lemma do_action_Ret:
  "do_action A n a active s = (Ret b, t) \<Longrightarrow>
   (is_copy a \<longrightarrow> active) \<and> b = (if is_select a then True else if is_copy a then active else False)"
  by (auto simp: do_action_def seq_Ret raise_def ret_def split: if_splits)

lemma do_actions_append_Ret:
  "do_actions A n (as @ bs) active s = (Ret b, t) \<longleftrightarrow>
   (\<exists>c u. do_actions A n as active s = (Ret c, u) \<and> do_actions A n bs c u = (Ret b, t))"
  by (induction as arbitrary: active s) (auto simp: seq_Ret ret_def)

text \<open>A selection is active exactly when only copies ran since the last \<open>select\<close>.\<close>

lemma selection_after:
  "do_actions A n as False s = (Ret b, t) \<Longrightarrow>
   b \<longleftrightarrow> (\<exists>xs a ys. as = xs @ a # ys \<and> is_select a \<and> list_all is_copy ys)"
proof (induction as arbitrary: b t rule: rev_induct)
  case Nil
  then show ?case by (simp add: ret_def)
next
  case (snoc a as)
  then obtain c u where c: "do_actions A n as False s = (Ret c, u)" "do_actions A n [a] c u = (Ret b, t)"
    unfolding do_actions_append_Ret by blast
  then have step: "is_copy a \<longrightarrow> c" "b = (if is_select a then True else if is_copy a then c else False)"
    by (auto simp: seq_Ret ret_def dest: do_action_Ret)
  have ih: "c \<longleftrightarrow> (\<exists>xs a ys. as = xs @ a # ys \<and> is_select a \<and> list_all is_copy ys)"
    by (rule snoc.IH [OF c(1)])
  show ?case
  proof (cases "is_select a")
    case True
    then show ?thesis using step by force
  next
    case no: False
    show ?thesis
    proof (cases "is_copy a")
      case True
      then have "b \<longleftrightarrow> c" using step no by simp
      also have "\<dots> \<longleftrightarrow> (\<exists>xs a' ys. as @ [a] = xs @ a' # ys \<and> is_select a' \<and> list_all is_copy ys)"
        unfolding ih
      proof
        assume "\<exists>xs a ys. as = xs @ a # ys \<and> is_select a \<and> list_all is_copy ys"
        then obtain xs a' ys where "as = xs @ a' # ys" "is_select a'" "list_all is_copy ys" by blast
        then have "as @ [a] = xs @ a' # (ys @ [a])" "list_all is_copy (ys @ [a])" using True by simp_all
        then show "\<exists>xs a' ys. as @ [a] = xs @ a' # ys \<and> is_select a' \<and> list_all is_copy ys"
          using \<open>is_select a'\<close> by blast
      next
        assume "\<exists>xs a' ys. as @ [a] = xs @ a' # ys \<and> is_select a' \<and> list_all is_copy ys"
        then obtain xs a' ys where e: "as @ [a] = xs @ a' # ys" "is_select a'" "list_all is_copy ys" by blast
        have "ys \<noteq> []" using e no by auto
        then obtain zs z where "ys = zs @ [z]" by (cases ys rule: rev_cases) auto
        then show "\<exists>xs a ys. as = xs @ a # ys \<and> is_select a \<and> list_all is_copy ys" using e by auto
      qed
      finally show ?thesis .
    next
      case False
      have "\<not> (\<exists>xs a' ys. as @ [a] = xs @ a' # ys \<and> is_select a' \<and> list_all is_copy ys)"
      proof
        assume "\<exists>xs a' ys. as @ [a] = xs @ a' # ys \<and> is_select a' \<and> list_all is_copy ys"
        then obtain xs a' ys where e: "as @ [a] = xs @ a' # ys" "is_select a'" "list_all is_copy ys" by blast
        show False using e no False by (cases ys rule: rev_cases) auto
      qed
      then show ?thesis using step no False by simp
    qed
  qed
qed

section \<open>A recovered tap\<close>

text \<open>What a recovered tap returns from, its actuation did.\<close>

lemma attempt_wp:
  assumes "\<And>s. I s \<Longrightarrow> wp True actuate (\<lambda>_. Q) (\<lambda>e t. if is_not_tappable e then I t else X e t) s"
  shows "I s \<Longrightarrow> wp True (attempt actuate)
     (\<lambda>r t. case r of None \<Rightarrow> Q t | Some e \<Rightarrow> I t \<and> is_not_tappable e) X s"
  unfolding attempt_def wp_catching wp_seq wp_ret option.case
  by (rule wp_mono [OF assms]) auto

lemma recover_wp:
  assumes act: "\<And>s. I s \<Longrightarrow> wp True actuate (\<lambda>_. Q) (\<lambda>e t. if is_not_tappable e then I t else X e t) s"
    and scroll: "\<And>s m dir. I s \<Longrightarrow> wp True (uncovered E sel dir m n) (\<lambda>_. I) X s"
    and last: "\<And>e t. I t \<Longrightarrow> X (still_covered e) t"
  shows "I s \<Longrightarrow> wp True (recover E actuate sel n ds obstruction) (\<lambda>_. Q) X s"
proof (induction ds arbitrary: s obstruction)
  case Nil
  then show ?case by (simp add: wp_raise last)
next
  case (Cons d ds)
  obtain m dir where d: "d = (m, dir)" by (cases d)
  show ?case
    unfolding d recover.simps wp_seq wp_if
  proof (rule wp_mono [OF scroll [OF Cons.prems]], goal_cases)
    case (1 free t)
    have "wp True (attempt actuate) (\<lambda>r. wp True (case r of None \<Rightarrow> ret () | Some e \<Rightarrow> recover E actuate sel n ds e) (\<lambda>_. Q) X) X t"
      by (rule wp_mono [OF attempt_wp [OF act 1]]) (auto simp: wp_ret split: option.splits intro: Cons.IH)
    then show ?case using Cons.IH [OF 1] by simp
  qed simp
qed

end
