(* ===== verification/Step_Waits.thy ===== *)
theory Step_Waits
  imports Programs Selectors Network_Match
begin

text \<open>
  The condition waits of a step (\<open>src/bajutsu/common/orchestrator/waits/_functions.py\<close>): the polling
  loops of \<open>_wait\<close>, the two ways a screen settles, and the pause between polls.  The driver's reads,
  the observed network, the clock, the alert gate and the interrupt hook are programs of an
  environment; every loop takes fuel, and \<open>wait_ends\<close> gives the fuel that is enough.  The progress
  heartbeat and the wait trace change no outcome and are left out.
\<close>

section \<open>The environment of a wait\<close>

record 's wait_env =
  we_now :: "('s, real) prog"
  we_sleep :: "real \<Rightarrow> ('s, unit) prog"
  we_query :: "('s, element list) prog"
  we_network :: "('s, exchange list) prog"
  we_transitions :: "('s, real list) prog" \<comment> \<open>receive times, oldest first\<close>
  we_cancelled :: "('s, bool) prog"
  we_gate :: "(element list \<Rightarrow> ('s, unit) prog) option" \<comment> \<open>\<open>gate.observe\<close>\<close>
  we_stuck :: "('s, string) prog" \<comment> \<open>\<open>gate.stuck_note\<close>\<close>
  we_blocked :: "('s, string) prog" \<comment> \<open>\<open>gate.blocked_note\<close>\<close>
  we_poll :: "(element list \<Rightarrow> ('s, bool) prog) option" \<comment> \<open>\<open>on_interrupt_poll\<close>\<close>
  we_floor :: real \<comment> \<open>\<open>BAJUTSU_MIN_WAIT_TIMEOUT\<close>\<close>
  we_search :: regex_search
  we_sel_text :: "selector \<Rightarrow> string"
  we_request_text :: "request_match \<Rightarrow> string"
  we_seconds_text :: "real \<Rightarrow> string"

definition poll_interval :: real where "poll_interval = 1 / 20"
definition settle_polls :: nat where "settle_polls = 2"
definition transition_quiescence :: real where "transition_quiescence = 3 / 10"
definition dismiss_settle_timeout :: real where "dismiss_settle_timeout = 1"

datatype wait_what = UntilShown selector | UntilGone selector | UntilRequest request_match
  | UntilSettled | UntilScreenChanged

record wait_step =
  w_until :: wait_what
  w_timeout :: real

type_synonym wait_out = "bool \<times> string \<times> element list option"

section \<open>Pieces of a poll\<close>

definition effective_timeout :: "'s wait_env \<Rightarrow> wait_step \<Rightarrow> real" where
  "effective_timeout E w = max (w_timeout w) (we_floor E)"

definition shown :: "'s wait_env \<Rightarrow> element list \<Rightarrow> selector \<Rightarrow> bool" where
  "shown E els sel \<longleftrightarrow> length (find_elements (we_search E) els sel) \<ge> 1"

definition observe :: "'s wait_env \<Rightarrow> element list \<Rightarrow> ('s, unit) prog" where
  "observe E els = (case we_gate E of None \<Rightarrow> ret () | Some g \<Rightarrow> g els)"

definition stuck_note :: "'s wait_env \<Rightarrow> ('s, string) prog" where
  "stuck_note E = (case we_gate E of None \<Rightarrow> ret [] | Some g \<Rightarrow> we_stuck E)"

definition interrupt_poll :: "'s wait_env \<Rightarrow> element list \<Rightarrow> ('s, bool) prog" where
  "interrupt_poll E els = (case we_poll E of None \<Rightarrow> ret False | Some p \<Rightarrow> p els)"

definition dash :: string where "dash = '' -- ''"

definition with_block_note :: "'s wait_env \<Rightarrow> string \<Rightarrow> ('s, string) prog" where
  "with_block_note E reason = (case we_gate E of
     None \<Rightarrow> ret reason
   | Some g \<Rightarrow> seq (we_blocked E) (\<lambda>note. ret (if note = [] then reason else reason @ dash @ note)))"

definition stuck_reason :: "'s wait_env \<Rightarrow> string \<Rightarrow> real \<Rightarrow> string \<Rightarrow> ('s, string) prog" where
  "stuck_reason E what start note = seq (we_now E) (\<lambda>t.
     ret (''wait stopped: '' @ what @ '' after '' @ we_seconds_text E (t - start) @ ''s'' @ dash @ note))"

definition timed_out :: "'s wait_env \<Rightarrow> string \<Rightarrow> real \<Rightarrow> string" where
  "timed_out E what timeout = ''wait timeout: '' @ what @ '' ('' @ we_seconds_text E timeout @ ''s)''"

definition adaptive_sleep :: "'s wait_env \<Rightarrow> real \<Rightarrow> ('s, unit) prog" where
  "adaptive_sleep E before = seq (we_now E) (\<lambda>t.
     let remaining = poll_interval - (t - before) in only_if (remaining > 0) (we_sleep E remaining))"

definition check_cancelled :: "'s wait_env \<Rightarrow> ('s, unit) prog" where
  "check_cancelled E = seq (we_cancelled E) (\<lambda>c. if c then raise RunCancelled else ret ())"

text \<open>\<open>current == previous\<close>: the fields of the elements, not their identity.\<close>

definition same_tree :: "element list \<Rightarrow> element list \<Rightarrow> bool" where
  "same_tree els els' \<longleftrightarrow> map (\<lambda>el. el\<lparr>el_ref := 0\<rparr>) els = map (\<lambda>el. el\<lparr>el_ref := 0\<rparr>) els'"

definition interrupted :: string where "interrupted = ''interrupt recovery failed''"

section \<open>The loops\<close>

text \<open>The \<open>for\<close> branch of \<open>_wait\<close>.\<close>

primrec wait_shown :: "'s wait_env \<Rightarrow> selector \<Rightarrow> real \<Rightarrow> real \<Rightarrow> nat \<Rightarrow> ('s, wait_out) prog" where
  "wait_shown E sel timeout start 0 = out_of_fuel"
| "wait_shown E sel timeout start (Suc n) =
     seq (we_now E) (\<lambda>t0. seq (we_query E) (\<lambda>els.
       if shown E els sel then ret (True, [], Some els)
       else seq (observe E els) (\<lambda>_. seq (stuck_note E) (\<lambda>note.
         if note \<noteq> [] then seq (stuck_reason E (''for '' @ we_sel_text E sel) start note) (\<lambda>r. ret (False, r, Some els))
         else seq (interrupt_poll E els) (\<lambda>abort.
           if abort then ret (False, interrupted, Some els)
           else seq (check_cancelled E) (\<lambda>_. seq (we_now E) (\<lambda>t.
             if t \<ge> start + timeout
             then seq (with_block_note E (timed_out E (''for '' @ we_sel_text E sel) timeout)) (\<lambda>r. ret (False, r, Some els))
             else seq (adaptive_sleep E t0) (\<lambda>_. wait_shown E sel timeout start n))))))))"

text \<open>\<open>until: gone\<close>; the interrupt hook is not consulted here.\<close>

primrec wait_gone :: "'s wait_env \<Rightarrow> selector \<Rightarrow> real \<Rightarrow> real \<Rightarrow> nat \<Rightarrow> ('s, wait_out) prog" where
  "wait_gone E sel timeout start 0 = out_of_fuel"
| "wait_gone E sel timeout start (Suc n) =
     seq (we_now E) (\<lambda>t0. seq (we_query E) (\<lambda>els.
       if \<not> shown E els sel then ret (True, [], Some els)
       else seq (observe E els) (\<lambda>_. seq (check_cancelled E) (\<lambda>_. seq (we_now E) (\<lambda>t.
         if t \<ge> start + timeout
         then seq (with_block_note E (timed_out E (''gone '' @ we_sel_text E sel) timeout)) (\<lambda>r. ret (False, r, Some els))
         else seq (adaptive_sleep E t0) (\<lambda>_. wait_gone E sel timeout start n))))))"

text \<open>\<open>until: request\<close>.\<close>

definition needed :: "request_match \<Rightarrow> int" where
  "needed req = (case rq_count req of None \<Rightarrow> 1 | Some n \<Rightarrow> n)"

primrec wait_request :: "'s wait_env \<Rightarrow> request_match \<Rightarrow> real \<Rightarrow> real \<Rightarrow> nat \<Rightarrow> ('s, wait_out) prog" where
  "wait_request E req timeout start 0 = out_of_fuel"
| "wait_request E req timeout start (Suc n) =
     seq (we_now E) (\<lambda>t0. seq (we_network E) (\<lambda>exs.
       if int (count_matching (we_search E) exs req) \<ge> needed req then ret (True, [], None)
       else seq (check_cancelled E) (\<lambda>_. seq (we_now E) (\<lambda>t.
         if t \<ge> start + timeout then ret (False, timed_out E (''request '' @ we_request_text E req) timeout, None)
         else seq (adaptive_sleep E t0) (\<lambda>_. wait_request E req timeout start n)))))"

text \<open>\<open>until: screenChanged\<close>, against the tree read on entry.\<close>

primrec wait_changed :: "'s wait_env \<Rightarrow> element list \<Rightarrow> real \<Rightarrow> real \<Rightarrow> nat \<Rightarrow> ('s, wait_out) prog" where
  "wait_changed E before timeout start 0 = out_of_fuel"
| "wait_changed E before timeout start (Suc n) =
     seq (we_now E) (\<lambda>t0. seq (we_query E) (\<lambda>els.
       if \<not> same_tree els before then ret (True, [], Some els)
       else seq (observe E els) (\<lambda>_. seq (stuck_note E) (\<lambda>note.
         if note \<noteq> [] then seq (stuck_reason E ''screenChanged'' start note) (\<lambda>r. ret (False, r, Some els))
         else seq (interrupt_poll E els) (\<lambda>abort.
           if abort then ret (False, interrupted, Some els)
           else seq (check_cancelled E) (\<lambda>_. seq (we_now E) (\<lambda>t.
             if t \<ge> start + timeout
             then seq (with_block_note E (timed_out E ''screenChanged'' timeout)) (\<lambda>r. ret (False, r, Some els))
             else seq (adaptive_sleep E t0) (\<lambda>_. wait_changed E before timeout start n))))))))"

text \<open>\<open>_wait_settled_by_signal\<close>: no transition for the quiescence window.\<close>

definition watched :: "'s wait_env \<Rightarrow> bool" where
  "watched E \<longleftrightarrow> we_gate E \<noteq> None \<or> we_poll E \<noteq> None"

definition observed :: "'s wait_env \<Rightarrow> ('s, element list) prog" where
  "observed E = seq (we_query E) (\<lambda>els. seq (observe E els) (\<lambda>_. ret els))"

definition watched_tree :: "'s wait_env \<Rightarrow> element list option \<Rightarrow> ('s, element list option) prog" where
  "watched_tree E current = (if watched E then seq (observed E) (\<lambda>els. ret (Some els)) else ret current)"

definition settled_tree :: "'s wait_env \<Rightarrow> element list option \<Rightarrow> ('s, wait_out) prog" where
  "settled_tree E current = (case current of
     Some els \<Rightarrow> ret (True, [], Some els)
   | None \<Rightarrow> seq (we_query E) (\<lambda>els. ret (True, [], Some els)))"

primrec settle_by_signal :: "'s wait_env \<Rightarrow> real \<Rightarrow> real \<Rightarrow> element list option \<Rightarrow> nat \<Rightarrow> ('s, wait_out) prog" where
  "settle_by_signal E deadline latest current 0 = out_of_fuel"
| "settle_by_signal E deadline latest current (Suc n) =
     seq (we_now E) (\<lambda>t. if \<not> t - latest < transition_quiescence then settled_tree E current
       else seq (we_now E) (\<lambda>t. if t \<ge> deadline then settled_tree E current
         else seq (check_cancelled E) (\<lambda>_.
           seq (case current of None \<Rightarrow> ret False | Some els \<Rightarrow> interrupt_poll E els) (\<lambda>abort.
             if abort then ret (False, interrupted, current)
             else seq (we_now E) (\<lambda>t0. seq (we_transitions E) (\<lambda>events.
               seq (watched_tree E current) (\<lambda>current'. seq (adaptive_sleep E t0) (\<lambda>_.
                 settle_by_signal E deadline (List.last events) current' n))))))))"

text \<open>\<open>_wait_settled\<close>: two consecutive unchanged polls of an identified screen, or the signal.\<close>

primrec settle_loop :: "'s wait_env \<Rightarrow> real \<Rightarrow> real \<Rightarrow> nat \<Rightarrow> element list \<Rightarrow> nat \<Rightarrow> ('s, wait_out) prog" where
  "settle_loop E start deadline still previous 0 = out_of_fuel"
| "settle_loop E start deadline still previous (Suc n) =
     (if \<not> still < settle_polls then ret (True, [], Some previous)
      else seq (we_transitions E) (\<lambda>events.
        if events \<noteq> [] \<and> List.last events \<ge> start
        then seq (watched_tree E None) (\<lambda>current. settle_by_signal E deadline (List.last events) current n)
        else seq (we_now E) (\<lambda>t. if t \<ge> deadline then ret (True, [], Some previous)
          else seq (check_cancelled E) (\<lambda>_. seq (we_now E) (\<lambda>t0. seq (observed E) (\<lambda>els.
            seq (interrupt_poll E els) (\<lambda>abort.
              if abort then ret (False, interrupted, Some els)
              else seq (adaptive_sleep E t0) (\<lambda>_.
                if same_tree els previous \<and> list_ex (\<lambda>el. el_identifier el \<notin> {None, Some []}) els
                then settle_loop E start deadline (Suc still) previous n
                else settle_loop E start deadline 0 els n))))))))"

definition wait_settled :: "'s wait_env \<Rightarrow> real \<Rightarrow> real \<Rightarrow> nat \<Rightarrow> ('s, wait_out) prog" where
  "wait_settled E start deadline n = seq (observed E) (\<lambda>els. settle_loop E start deadline 0 els n)"

text \<open>\<open>_wait\<close>.\<close>

definition wait :: "'s wait_env \<Rightarrow> wait_step \<Rightarrow> nat \<Rightarrow> ('s, wait_out) prog" where
  "wait E w n = (let timeout = effective_timeout E w in seq (we_now E) (\<lambda>start.
     case w_until w of
       UntilShown sel \<Rightarrow> wait_shown E sel timeout start n
     | UntilGone sel \<Rightarrow> wait_gone E sel timeout start n
     | UntilRequest req \<Rightarrow> wait_request E req timeout start n
     | UntilSettled \<Rightarrow> wait_settled E start (start + timeout) n
     | UntilScreenChanged \<Rightarrow> seq (observed E) (\<lambda>before. wait_changed E before timeout start n)))"

definition settle_after_alert_dismiss :: "'s wait_env \<Rightarrow> nat \<Rightarrow> ('s, unit) prog" where
  "settle_after_alert_dismiss E n = seq (we_now E) (\<lambda>start.
     seq (wait_settled (E\<lparr>we_gate := None, we_poll := None\<rparr>) start (start + dismiss_settle_timeout) n) (\<lambda>_. ret ()))"

section \<open>What a wait reports\<close>

text \<open>What the value of each branch says of the last thing the wait read.\<close>

fun wait_report :: "'s wait_env \<Rightarrow> wait_what \<Rightarrow> wait_out \<Rightarrow> bool" where
  "wait_report E (UntilShown sel) (ok, r, tree) = (\<exists>els. tree = Some els \<and> (ok \<longleftrightarrow> shown E els sel))"
| "wait_report E (UntilGone sel) (ok, r, tree) = (\<exists>els. tree = Some els \<and> (ok \<longleftrightarrow> \<not> shown E els sel))"
| "wait_report E (UntilRequest req) (ok, r, tree) = (tree = None)"
| "wait_report E UntilSettled (ok, r, tree) = (ok \<or> r = interrupted)"
| "wait_report E UntilScreenChanged (ok, r, tree) = (tree \<noteq> None)"

lemma wait_shown_report: "returns (wait_report E (UntilShown sel)) (wait_shown E sel timeout start n)"
  by (induction n) (simp_all, (rule returns_intros | simp)+)

lemma wait_gone_report: "returns (wait_report E (UntilGone sel)) (wait_gone E sel timeout start n)"
  by (induction n) (simp_all, (rule returns_intros | simp)+)

lemma wait_request_report: "returns (wait_report E (UntilRequest req)) (wait_request E req timeout start n)"
  by (induction n) (simp_all, (rule returns_intros | simp)+)

lemma settled_tree_report: "returns (wait_report E UntilSettled) (settled_tree E current)"
  unfolding settled_tree_def by (rule returns_intros | simp)+

lemma settle_by_signal_report:
  "returns (wait_report E UntilSettled) (settle_by_signal E deadline latest current n)"
  by (induction n arbitrary: latest current) (simp_all, (rule returns_intros settled_tree_report | simp)+)

lemma settle_loop_report:
  "returns (wait_report E UntilSettled) (settle_loop E start deadline still previous n)"
  by (induction n arbitrary: still previous)
    (simp_all only: settle_loop.simps, (rule returns_intros settle_by_signal_report | simp)+)

lemma wait_changed_report:
  "returns (\<lambda>(ok, r, tree). \<exists>els. tree = Some els \<and> (ok \<longleftrightarrow> \<not> same_tree els before)) (wait_changed E before timeout start n)"
  by (induction n) (simp_all, (rule returns_intros | simp)+)

lemma wait_settled_report: "returns (wait_report E UntilSettled) (wait_settled E start deadline n)"
  unfolding wait_settled_def by (intro returns_seq settle_loop_report)

lemma wait_reports: "returns (wait_report E (w_until w)) (wait E w n)"
proof (cases "w_until w")
  case UntilScreenChanged
  have "returns (wait_report E UntilScreenChanged) (wait_changed E before timeout start n)" for before timeout start
    by (rule returns_mono [OF wait_changed_report]) auto
  then show ?thesis unfolding wait_def Let_def UntilScreenChanged wait_what.case by (intro returns_seq)
next
  case UntilSettled
  show ?thesis unfolding wait_def Let_def UntilSettled wait_what.case by (intro returns_seq wait_settled_report)
qed (simp_all add: wait_def Let_def returns_seq wait_shown_report wait_gone_report wait_request_report)

section \<open>A wait ends\<close>

declare wait_shown.simps [simp del] wait_gone.simps [simp del] wait_request.simps [simp del]
  wait_changed.simps [simp del] settle_by_signal.simps [simp del] settle_loop.simps [simp del]

definition steady :: "('s \<Rightarrow> real) \<Rightarrow> ('s, 'a) prog \<Rightarrow> bool" where
  "steady time m \<longleftrightarrow> (\<forall>s. wp False m (\<lambda>v t. time s \<le> time t) (\<lambda>e t. time s \<le> time t) s)"

lemma steady_wp:
  "steady time m \<Longrightarrow> (\<And>v t. time s \<le> time t \<Longrightarrow> Q v t) \<Longrightarrow> (\<And>e t. time s \<le> time t \<Longrightarrow> E e t) \<Longrightarrow> wp False m Q E s"
proof -
  assume m: "steady time m" and q: "\<And>v t. time s \<le> time t \<Longrightarrow> Q v t" and e: "\<And>e t. time s \<le> time t \<Longrightarrow> E e t"
  from m have "wp False m (\<lambda>v t. time s \<le> time t) (\<lambda>e t. time s \<le> time t) s" by (simp add: steady_def)
  then show ?thesis by (rule wp_mono) (auto intro: q e)
qed

lemma steadyI: "(\<And>s. wp False m (\<lambda>v t. time s \<le> time t) (\<lambda>e t. time s \<le> time t) s) \<Longrightarrow> steady time m"
  by (simp add: steady_def)

lemma steady_ret: "steady time (ret v)"
  by (simp add: steady_def wp_simps)

lemma steady_seq: "steady time m \<Longrightarrow> (\<And>v. steady time (f v)) \<Longrightarrow> steady time (seq m f)"
proof (rule steadyI, unfold wp_seq)
  fix s assume m: "steady time m" and f: "\<And>v. steady time (f v)"
  show "wp False m (\<lambda>v. wp False (f v) (\<lambda>v t. time s \<le> time t) (\<lambda>e t. time s \<le> time t)) (\<lambda>e t. time s \<le> time t) s"
  proof (rule steady_wp [OF m])
    fix v t assume "time s \<le> time t"
    then show "wp False (f v) (\<lambda>v t. time s \<le> time t) (\<lambda>e t. time s \<le> time t) t"
      by (intro steady_wp [OF f]) auto
  qed simp
qed

lemma steady_if: "(b \<Longrightarrow> steady time m) \<Longrightarrow> (\<not> b \<Longrightarrow> steady time n) \<Longrightarrow> steady time (if b then m else n)"
  by simp

lemma steady_raise: "steady time (raise e)"
  by (simp add: steady_def wp_simps)

lemmas steady_intros = steady_ret steady_raise steady_seq steady_if

text \<open>The clock of a wait: no operation turns it back, and a sleep takes at least its length.\<close>

locale clocked_wait =
  fixes E :: "'s wait_env" and time :: "'s \<Rightarrow> real"
  assumes now: "wp False (we_now E) (\<lambda>v t. time s \<le> v \<and> v \<le> time t) (\<lambda>e t. time s \<le> time t) s"
    and sleep: "0 < d \<Longrightarrow> wp False (we_sleep E d) (\<lambda>v t. time s + d \<le> time t) (\<lambda>e t. time s \<le> time t) s"
    and query: "steady time (we_query E)"
    and network: "steady time (we_network E)"
    and transitions: "steady time (we_transitions E)"
    and cancelled: "steady time (we_cancelled E)"
    and gate: "we_gate E = Some g \<Longrightarrow> steady time (g els)"
    and stuck: "steady time (we_stuck E)"
    and blocked: "steady time (we_blocked E)"
    and poll: "we_poll E = Some p \<Longrightarrow> steady time (p els)"
begin

lemma now_wp:
  "(\<And>v t. time s \<le> v \<Longrightarrow> v \<le> time t \<Longrightarrow> Q v t) \<Longrightarrow> (\<And>e t. X e t) \<Longrightarrow> wp False (we_now E) Q X s"
  by (rule wp_mono [OF now]) auto

lemma steady_now: "steady time (we_now E)"
  unfolding steady_def by (intro allI, rule wp_mono [OF now]) auto

lemma steady_sleep: "0 < d \<Longrightarrow> steady time (we_sleep E d)"
  unfolding steady_def by (intro allI, rule wp_mono [OF sleep]) auto

lemma steady_observe: "steady time (observe E els)"
  unfolding observe_def by (auto simp: steady_ret gate split: option.split)

lemma steady_poll: "steady time (interrupt_poll E els)"
  unfolding interrupt_poll_def by (auto simp: steady_ret poll split: option.split)

lemma steady_stuck: "steady time (stuck_note E)"
  unfolding stuck_note_def by (auto simp: steady_ret stuck split: option.split)

lemma steady_note: "steady time (with_block_note E r)"
  unfolding with_block_note_def by (auto intro!: steady_intros blocked split: option.split)

lemma steady_stuck_reason: "steady time (stuck_reason E what start note)"
  unfolding stuck_reason_def by (intro steady_intros steady_now)

lemma steady_cancelled: "steady time (check_cancelled E)"
  unfolding check_cancelled_def by (intro steady_intros cancelled)

lemma steady_observed: "steady time (observed E)"
  unfolding observed_def by (intro steady_intros query steady_observe)

lemma steady_watched: "steady time (watched_tree E current)"
  unfolding watched_tree_def by (intro steady_intros steady_observed)

lemma steady_settled_tree: "steady time (settled_tree E current)"
  unfolding settled_tree_def by (auto intro!: steady_intros query split: option.split)

text \<open>From \<open>s\<close> the program returns or raises.\<close>

lemma ends_ret: "wp False (ret v) (\<lambda>_ _. True) (\<lambda>_ _. True) s"
  by (simp add: wp_simps)

lemma ends_if:
  "(b \<Longrightarrow> wp False m (\<lambda>_ _. True) (\<lambda>_ _. True) s) \<Longrightarrow> (\<not> b \<Longrightarrow> wp False n (\<lambda>_ _. True) (\<lambda>_ _. True) s)
   \<Longrightarrow> wp False (if b then m else n) (\<lambda>_ _. True) (\<lambda>_ _. True) s"
  by simp

lemma ends_seq:
  "steady time m \<Longrightarrow> (\<And>v t. time s \<le> time t \<Longrightarrow> wp False (f v) (\<lambda>_ _. True) (\<lambda>_ _. True) t)
   \<Longrightarrow> wp False (seq m f) (\<lambda>_ _. True) (\<lambda>_ _. True) s"
  unfolding wp_seq by (rule steady_wp) simp_all

lemma ends_now:
  "(\<And>v t. time s \<le> v \<Longrightarrow> v \<le> time t \<Longrightarrow> wp False (f v) (\<lambda>_ _. True) (\<lambda>_ _. True) t)
   \<Longrightarrow> wp False (seq (we_now E) f) (\<lambda>_ _. True) (\<lambda>_ _. True) s"
  unfolding wp_seq by (rule now_wp) simp_all

lemma ends_steady: "steady time m \<Longrightarrow> wp False m (\<lambda>_ _. True) (\<lambda>_ _. True) s"
  by (rule steady_wp) simp_all

text \<open>A sleep between polls starts the next one an interval after the last.\<close>

lemma ends_sleep:
  assumes before: "t0 \<le> time s"
    and again: "\<And>u. time s \<le> time u \<Longrightarrow> t0 + poll_interval \<le> time u \<Longrightarrow> wp False rest (\<lambda>_ _. True) (\<lambda>_ _. True) u"
  shows "wp False (seq (adaptive_sleep E t0) (\<lambda>_. rest)) (\<lambda>_ _. True) (\<lambda>_ _. True) s"
  unfolding wp_seq
proof (rule wp_mono)
  show "wp False (adaptive_sleep E t0) (\<lambda>_ u. time s \<le> time u \<and> t0 + poll_interval \<le> time u) (\<lambda>_ _. True) s"
    unfolding adaptive_sleep_def wp_seq Let_def wp_only_if
  proof (rule now_wp)
    fix x u assume x: "time s \<le> x" "x \<le> time u"
    have "wp False (we_sleep E (poll_interval - (x - t0))) (\<lambda>_ u. time s \<le> time u \<and> t0 + poll_interval \<le> time u) (\<lambda>_ _. True) u"
      if "0 < poll_interval - (x - t0)"
      by (rule wp_mono [OF sleep [OF that]]) (use x that in auto)
    then show "if 0 < poll_interval - (x - t0)
        then wp False (we_sleep E (poll_interval - (x - t0))) (\<lambda>_ u. time s \<le> time u \<and> t0 + poll_interval \<le> time u) (\<lambda>_ _. True) u
        else time s \<le> time u \<and> t0 + poll_interval \<le> time u"
      using x by auto
  qed simp
qed (use again in auto)

lemmas ends_rules = ends_ret ends_if ends_sleep ends_now ends_seq [OF query] ends_seq [OF network]
  ends_seq [OF transitions] ends_seq [OF steady_observe] ends_seq [OF steady_stuck] ends_seq [OF steady_poll]
  ends_seq [OF steady_cancelled] ends_seq [OF steady_stuck_reason] ends_seq [OF steady_note]
  ends_seq [OF steady_observed] ends_seq [OF steady_watched] ends_steady [OF steady_settled_tree]

lemma wait_shown_ends:
  "start + timeout \<le> time s + real n * poll_interval
   \<Longrightarrow> wp False (wait_shown E sel timeout start (Suc n)) (\<lambda>_ _. True) (\<lambda>_ _. True) s"
proof (induction n arbitrary: s)
  case 0
  show ?case
    unfolding wait_shown.simps by ((rule ends_rules)+; use 0 in simp)
next
  case (Suc n)
  show ?case
    unfolding wait_shown.simps(2) [of _ _ _ _ "Suc n"]
    by ((rule ends_rules)+; (rule Suc.IH)?; use Suc.prems in \<open>simp add: algebra_simps\<close>)
qed

lemma wait_gone_ends:
  "start + timeout \<le> time s + real n * poll_interval
   \<Longrightarrow> wp False (wait_gone E sel timeout start (Suc n)) (\<lambda>_ _. True) (\<lambda>_ _. True) s"
proof (induction n arbitrary: s)
  case 0
  show ?case
    unfolding wait_gone.simps by ((rule ends_rules)+; use 0 in simp)
next
  case (Suc n)
  show ?case
    unfolding wait_gone.simps(2) [of _ _ _ _ "Suc n"]
    by ((rule ends_rules)+; (rule Suc.IH)?; use Suc.prems in \<open>simp add: algebra_simps\<close>)
qed

lemma wait_request_ends:
  "start + timeout \<le> time s + real n * poll_interval
   \<Longrightarrow> wp False (wait_request E req timeout start (Suc n)) (\<lambda>_ _. True) (\<lambda>_ _. True) s"
proof (induction n arbitrary: s)
  case 0
  show ?case
    unfolding wait_request.simps by ((rule ends_rules)+; use 0 in simp)
next
  case (Suc n)
  show ?case
    unfolding wait_request.simps(2) [of _ _ _ _ "Suc n"]
    by ((rule ends_rules)+; (rule Suc.IH)?; use Suc.prems in \<open>simp add: algebra_simps\<close>)
qed

lemma wait_changed_ends:
  "start + timeout \<le> time s + real n * poll_interval
   \<Longrightarrow> wp False (wait_changed E before timeout start (Suc n)) (\<lambda>_ _. True) (\<lambda>_ _. True) s"
proof (induction n arbitrary: s)
  case 0
  show ?case
    unfolding wait_changed.simps by ((rule ends_rules)+; use 0 in simp)
next
  case (Suc n)
  show ?case
    unfolding wait_changed.simps(2) [of _ _ _ _ "Suc n"]
    by ((rule ends_rules)+; (rule Suc.IH)?; use Suc.prems in \<open>simp add: algebra_simps\<close>)
qed

lemma steady_case_poll: "steady time (case current of None \<Rightarrow> ret False | Some els \<Rightarrow> interrupt_poll E els)"
  by (cases current) (simp_all add: steady_ret steady_poll)

lemma settle_by_signal_ends:
  "deadline \<le> time s + real n * poll_interval
   \<Longrightarrow> wp False (settle_by_signal E deadline latest current (Suc n)) (\<lambda>_ _. True) (\<lambda>_ _. True) s"
proof (induction n arbitrary: s latest current)
  case 0
  show ?case
    unfolding settle_by_signal.simps
    by ((rule ends_rules ends_seq [OF steady_case_poll])+; use 0 in simp)
next
  case (Suc n)
  show ?case
    unfolding settle_by_signal.simps(2) [of _ _ _ _ "Suc n"]
    by ((rule ends_rules ends_seq [OF steady_case_poll])+; (rule Suc.IH)?;
        use Suc.prems in \<open>simp add: algebra_simps\<close>)
qed

lemma settle_loop_ends:
  "deadline \<le> time s + real n * poll_interval
   \<Longrightarrow> wp False (settle_loop E start deadline still previous (Suc (Suc n))) (\<lambda>_ _. True) (\<lambda>_ _. True) s"
proof (induction n arbitrary: s still previous)
  case 0
  show ?case
    unfolding settle_loop.simps(2) [of _ _ _ _ _ "Suc 0"]
    by ((rule ends_rules | (rule settle_by_signal_ends, use 0 in simp; fail))+; use 0 in simp)
next
  case (Suc n)
  show ?case
    unfolding settle_loop.simps(2) [of _ _ _ _ _ "Suc (Suc n)"]
    by ((rule ends_rules | (rule settle_by_signal_ends, use Suc.prems in \<open>simp add: algebra_simps\<close>; fail))+;
        (rule ends_if; rule Suc.IH)?; use Suc.prems in \<open>simp add: algebra_simps\<close>)
qed

lemma wait_settled_ends:
  "deadline \<le> time s + real n * poll_interval
   \<Longrightarrow> wp False (wait_settled E start deadline (Suc (Suc n))) (\<lambda>_ _. True) (\<lambda>_ _. True) s"
  unfolding wait_settled_def by (rule ends_seq [OF steady_observed], rule settle_loop_ends) simp

text \<open>The fuel a wait needs: one poll per interval of its timeout, and two.\<close>

lemma wait_ends:
  assumes "effective_timeout E w \<le> real n * poll_interval"
  shows "wp False (wait E w (Suc (Suc n))) (\<lambda>_ _. True) (\<lambda>_ _. True) s"
  unfolding wait_def Let_def
proof (rule ends_now)
  fix v t assume v: "time s \<le> v" "v \<le> time t"
  have a: "v + effective_timeout E w \<le> time u + real n * poll_interval" if "time t \<le> time u" for u
    using that v assms by simp
  have b: "v + effective_timeout E w \<le> time u + real (Suc n) * poll_interval" if "time t \<le> time u" for u
    using a [OF that] by (simp add: poll_interval_def add_divide_distrib)
  show "wp False (case w_until w of
      UntilShown sel \<Rightarrow> wait_shown E sel (effective_timeout E w) v (Suc (Suc n))
    | UntilGone sel \<Rightarrow> wait_gone E sel (effective_timeout E w) v (Suc (Suc n))
    | UntilRequest req \<Rightarrow> wait_request E req (effective_timeout E w) v (Suc (Suc n))
    | UntilSettled \<Rightarrow> wait_settled E v (v + effective_timeout E w) (Suc (Suc n))
    | UntilScreenChanged \<Rightarrow> seq (observed E) (\<lambda>before. wait_changed E before (effective_timeout E w) v (Suc (Suc n))))
      (\<lambda>_ _. True) (\<lambda>_ _. True) t"
  proof (cases "w_until w")
    case (UntilShown sel)
    then show ?thesis using wait_shown_ends [OF b] by simp
  next
    case (UntilGone sel)
    then show ?thesis using wait_gone_ends [OF b] by simp
  next
    case (UntilRequest req)
    then show ?thesis using wait_request_ends [OF b] by simp
  next
    case UntilSettled
    then show ?thesis using wait_settled_ends [OF a] by simp
  next
    case UntilScreenChanged
    show ?thesis
      unfolding UntilScreenChanged wait_what.case
      by (rule ends_seq [OF steady_observed], rule wait_changed_ends, rule b)
  qed
qed

end

end
