(* ===== verification/Alerts.thy ===== *)
theory Alerts
  imports Step_Waits Drivers "HOL-Library.Multiset"
begin

text \<open>
  The system-alert guard of a step: the order its rules are matched in
  (\<open>src/bajutsu/common/orchestrator/types/alert_guard_config.py\<close>), the reads that answer alerts and what
  is kept of them (\<open>waits/resolving_reads.py\<close>), the gate that explains a blocked wait
  (\<open>waits/_alert_guard_gate.py\<close>), and the wait of a \<open>handleSystemAlert\<close> step
  (\<open>wait_for_system_alert\<close> of \<open>waits/_functions.py\<close>).  What a resolving read answers is a program of the
  environment.
\<close>

section \<open>Rules\<close>

record alert_rule =
  rl_identify :: "string set"
  rl_tap :: string
  rl_excluded :: "string set"
  rl_native :: bool
  rl_in_tree :: bool

record guard_config =
  gd_rules :: "alert_rule list"
  gd_poll :: real
  gd_frozen :: real

fun insert_wide :: "alert_rule \<Rightarrow> alert_rule list \<Rightarrow> alert_rule list" where
  "insert_wide r [] = [r]"
| "insert_wide r (p # ps) = (if rl_identify p \<subset> rl_identify r then r # p # ps else p # insert_wide r ps)"

definition widest_first :: "alert_rule list \<Rightarrow> alert_rule list" where
  "widest_first rs = fold insert_wide rs []"

definition tree_rules :: "guard_config \<Rightarrow> alert_rule list" where
  "tree_rules g = filter rl_in_tree (gd_rules g)"

definition tree_dedup_rules :: "guard_config \<Rightarrow> alert_rule list" where
  "tree_dedup_rules g = widest_first (tree_rules g)"

definition native_rules :: "guard_config \<Rightarrow> alert_rule list" where
  "native_rules g = filter rl_native (gd_rules g)"

definition decline_giveup :: "real \<Rightarrow> real" where
  "decline_giveup poll = max 2 (2 * poll)"

text \<open>No rule comes before one its labels strictly contain.\<close>

fun widest_ordered :: "alert_rule list \<Rightarrow> bool" where
  "widest_ordered [] = True"
| "widest_ordered (p # ps) = (list_all (\<lambda>q. \<not> rl_identify p \<subset> rl_identify q) ps \<and> widest_ordered ps)"

lemma insert_wide_set: "set (insert_wide r ps) = insert r (set ps)"
  by (induction ps) auto

lemma insert_wide_mset: "mset (insert_wide r ps) = add_mset r (mset ps)"
  by (induction ps) auto

lemma insert_wide_ordered: "widest_ordered ps \<Longrightarrow> widest_ordered (insert_wide r ps)"
  by (induction ps) (auto simp: list_all_iff insert_wide_set)

lemma insert_wide_same:
  "widest_ordered ps \<Longrightarrow> [q \<leftarrow> insert_wide r ps. rl_identify q = S] = [q \<leftarrow> ps. rl_identify q = S] @ [q \<leftarrow> [r]. rl_identify q = S]"
proof (induction ps)
  case (Cons p ps)
  show ?case
  proof (cases "rl_identify p \<subset> rl_identify r")
    case True
    then have "[q \<leftarrow> ps. rl_identify q = rl_identify r] = []"
      using Cons.prems unfolding widest_ordered.simps list_all_iff filter_empty_conv by blast
    then show ?thesis using True by auto
  qed (use Cons in auto)
qed simp

lemma fold_wide:
  "widest_ordered acc \<Longrightarrow> widest_ordered (fold insert_wide rs acc) \<and> mset (fold insert_wide rs acc) = mset acc + mset rs
     \<and> [q \<leftarrow> fold insert_wide rs acc. rl_identify q = S] = [q \<leftarrow> acc. rl_identify q = S] @ [q \<leftarrow> rs. rl_identify q = S]"
proof (induction rs arbitrary: acc)
  case (Cons r rs)
  show ?case
    using Cons.IH [OF insert_wide_ordered [OF Cons.prems, of r]]
    by (simp add: insert_wide_mset insert_wide_same [OF Cons.prems])
qed simp

text \<open>The in-tree rules are matched widest first: the order is a permutation of the declared rules, no rule
  comes before one whose labels strictly contain its own, and rules of one shape keep their declared order.\<close>

lemma widest_first_is_a_stable_order:
  "mset (widest_first rs) = mset rs \<and> widest_ordered (widest_first rs) \<and>
   (\<forall>S. [q \<leftarrow> widest_first rs. rl_identify q = S] = [q \<leftarrow> rs. rl_identify q = S])"
  using fold_wide [of "[]" rs] by (simp add: widest_first_def)

section \<open>Reads that answer alerts\<close>

datatype resolve_mode = FullRead | InTreeRead

record resolving_read =
  rd_elements :: "element list"
  rd_drained :: drained
  rd_checked :: bool
  rd_withheld :: bool

record reads =
  rs_unseen :: "resolving_read list"
  rs_answered :: bool
  rs_refused :: bool

definition no_reads :: reads where
  "no_reads = \<lparr>rs_unseen = [], rs_answered = False, rs_refused = False\<rparr>"

definition keep_read :: "bool \<Rightarrow> resolving_read \<Rightarrow> reads \<Rightarrow> reads" where
  "keep_read keep r x = x\<lparr>rs_unseen := (if keep then rs_unseen x @ [r] else rs_unseen x),
     rs_answered := rs_answered x \<or> dn_tapped (rd_drained r) \<noteq> []\<rparr>"

definition unhandled_note :: string where "unhandled_note = ''an unhandled system alert is blocking the screen''"
definition blocked_screen_note :: string where
  "blocked_screen_note = ''the screen appears blocked, possibly by a system alert or another overlay outside the app's view''"

definition alert_block_note :: "string list \<Rightarrow> string" where
  "alert_block_note buttons = (if buttons = [] then blocked_screen_note
     else unhandled_note @ '' (buttons: '' @ join '', '' buttons @ '')'')"

definition uncleared_prompt_note :: "string \<Rightarrow> string" where
  "uncleared_prompt_note label = ''a system prompt the guard could not clear is still up (button: '' @ label @ '')''"

definition undeclared_note :: "string list list \<Rightarrow> string" where
  "undeclared_note events = ''an undeclared system alert interrupted the run (buttons: '' @
     join ''; '' (map (join '', '') events) @ '')''"

definition records_note :: "drained \<Rightarrow> string" where
  "records_note d = (if dn_gave_up d \<noteq> [] then uncleared_prompt_note (gu_tap (last (dn_gave_up d)))
     else if dn_unidentified d \<noteq> [] then alert_block_note (last (dn_unidentified d)) else [])"

text \<open>A check that found SpringBoard clear withdraws what the body's own reads said of it.\<close>

definition spent_read :: "resolving_read \<Rightarrow> resolving_read" where
  "spent_read r = r\<lparr>rd_drained := (rd_drained r)\<lparr>dn_unidentified := [],
     dn_gave_up := [g \<leftarrow> dn_gave_up (rd_drained r). gu_surface g \<noteq> NativeSurface]\<rparr>\<rparr>"

definition reads_note :: "resolving_read list \<Rightarrow> resolving_read \<Rightarrow> string" where
  "reads_note body recovery =
     (let body = (if rd_checked recovery then map spent_read body else body) in
      case [t \<leftarrow> map (\<lambda>r. records_note (rd_drained r)) (rev (body @ [recovery])). t \<noteq> []] of [] \<Rightarrow> [] | t # ts \<Rightarrow> t)"

section \<open>The gate of a guarded wait\<close>

record gate =
  ga_blocked :: string
  ga_stuck :: string
  ga_unidentified :: "string list option"
  ga_gave_up :: "gave_up option"
  ga_own :: bool
  ga_proxy :: string
  ga_polls :: nat
  ga_since :: "real option"

definition new_gate :: gate where
  "new_gate = \<lparr>ga_blocked = [], ga_stuck = [], ga_unidentified = None, ga_gave_up = None, ga_own = False,
     ga_proxy = [], ga_polls = 0, ga_since = None\<rparr>"

definition debounce_polls :: nat where "debounce_polls = 3"

definition refresh_note :: "gate \<Rightarrow> gate" where
  "refresh_note g = g\<lparr>ga_blocked := (case ga_gave_up g of
     Some u \<Rightarrow> uncleared_prompt_note (gu_tap u)
   | None \<Rightarrow> (case ga_unidentified g of Some bs \<Rightarrow> alert_block_note bs | None \<Rightarrow> ga_proxy g))\<rparr>"

definition note_records :: "drained \<Rightarrow> gate \<Rightarrow> gate" where
  "note_records d g = refresh_note (g\<lparr>
     ga_unidentified := (if dn_unidentified d = [] then ga_unidentified g else Some (last (dn_unidentified d))),
     ga_gave_up := (if dn_gave_up d = [] then ga_gave_up g else Some (last (dn_gave_up d)))\<rparr>)"

definition note_step_read :: "string list \<Rightarrow> bool \<Rightarrow> gate \<Rightarrow> gate" where
  "note_step_read seen own g = refresh_note (g\<lparr>ga_own := own,
     ga_unidentified := (case ga_unidentified g of
        Some bs \<Rightarrow> if set bs \<subseteq> set seen then Some bs else None | None \<Rightarrow> None),
     ga_gave_up := (case ga_gave_up g of
        Some u \<Rightarrow> if gu_surface u = NativeSurface \<and> \<not> set (gu_identify u) \<subseteq> set seen then None else Some u
      | None \<Rightarrow> None)\<rparr>)"

definition gave_up_shown :: "guard_config \<Rightarrow> element list \<Rightarrow> gave_up \<Rightarrow> bool" where
  "gave_up_shown c els u = list_ex (\<lambda>r. rl_identify r \<subseteq> set (tree_buttons els) \<and>
     (rl_identify r \<subseteq> set (gu_identify u) \<or> set (gu_identify u) \<subseteq> rl_identify r)) (tree_dedup_rules c)"

definition reset_collapse :: "gate \<Rightarrow> gate" where
  "reset_collapse g = g\<lparr>ga_polls := 0, ga_since := None\<rparr>"

definition collapsed_note :: "(real \<Rightarrow> string) \<Rightarrow> real \<Rightarrow> string" where
  "collapsed_note show_s d = ''no element below the application has carried a label or identifier for '' @ show_s d @
     ''s while no system alert is up''"

text \<open>The stop of a frozen screen, at the instant \<open>now\<close>.\<close>

definition frozen_at :: "(real \<Rightarrow> string) \<Rightarrow> guard_config \<Rightarrow> bool \<Rightarrow> real \<Rightarrow> gate \<Rightarrow> gate" where
  "frozen_at show_s c checked now g = (case ga_since g of
     None \<Rightarrow> g\<lparr>ga_since := Some now\<rparr>
   | Some t \<Rightarrow> if checked \<and> now - t \<ge> gd_frozen c then g\<lparr>ga_stuck := collapsed_note show_s (now - t)\<rparr> else g)"

definition debounced :: "gate \<Rightarrow> gate" where
  "debounced g = (if ga_polls g \<ge> debounce_polls then g\<lparr>ga_proxy := alert_block_note []\<rparr> else g)"

definition observe_collapsed :: "'s wait_env \<Rightarrow> guard_config \<Rightarrow> bool \<Rightarrow> element list \<Rightarrow> bool \<Rightarrow> gate \<Rightarrow> ('s, gate) prog" where
  "observe_collapsed E c has_reads els checked g =
     (if ga_unidentified g \<noteq> None \<or> ga_gave_up g \<noteq> None \<or> ga_own g \<or> shows_app_ui els
      then ret ((reset_collapse g)\<lparr>ga_proxy := []\<rparr>)
      else let g = g\<lparr>ga_polls := ga_polls g + 1\<rparr> in
        if has_reads \<and> tree_rules c \<noteq> [] \<and> gd_frozen c > 0
        then seq (we_now E) (\<lambda>now. ret (debounced (frozen_at (we_seconds_text E) c checked now g)))
        else ret (debounced g))"

text \<open>What the reads since the last poll, and the tree, say of what the gate had noted.\<close>

definition note_polled :: "guard_config \<Rightarrow> resolving_read list \<Rightarrow> element list \<Rightarrow> gate \<Rightarrow> gate" where
  "note_polled c polled els g =
     (let g = fold (\<lambda>r. note_records (rd_drained r)) polled g;
          g = (if polled \<noteq> [] \<and> rd_checked (last polled)
               then g\<lparr>ga_unidentified := None, ga_gave_up := (case ga_gave_up g of
                      Some u \<Rightarrow> if gu_surface u = NativeSurface then None else Some u | None \<Rightarrow> None)\<rparr>
               else g);
          g = (case ga_gave_up g of
                 Some u \<Rightarrow> if gu_surface u = InTreeSurface \<and> shows_app_ui els \<and> \<not> gave_up_shown c els u
                           then g\<lparr>ga_gave_up := None\<rparr> else g
               | None \<Rightarrow> g)
      in if list_ex (\<lambda>r. dn_tapped (rd_drained r) \<noteq> []) polled then reset_collapse g else g)"

definition gate_observe :: "'s wait_env \<Rightarrow> guard_config \<Rightarrow> bool \<Rightarrow> resolving_read list \<Rightarrow> element list \<Rightarrow> gate \<Rightarrow> ('s, gate) prog" where
  "gate_observe E c has_reads polled els g =
     seq (observe_collapsed E c has_reads els (polled \<noteq> [] \<and> rd_checked (last polled)) (note_polled c polled els g))
       (\<lambda>g. ret (refresh_note g))"

section \<open>The wait of a handleSystemAlert step\<close>

datatype alert_target = BySelector selector | ByRole nat nat \<comment> \<open>\<open>SystemAlertRole\<close>: ordinal and count\<close>

record alert_event =
  ev_label :: string
  ev_banner :: bool

text \<open>The step's device, the resolving reads and the gate of this wait, and the lists it adds to.\<close>

record 's alert_env =
  av_wait :: "'s wait_env"
  av_driver :: "'s driver"
  av_titles :: "('s, string list) prog option" \<comment> \<open>their markers\<close>
  av_read :: "(resolve_mode \<Rightarrow> bool \<Rightarrow> ('s, resolving_read) prog) option" \<comment> \<open>\<open>query_resolving\<close>\<close>
  av_answer :: "string list \<Rightarrow> ('s, drained) prog" \<comment> \<open>\<open>resolve_system_alert\<close>\<close>
  av_guard :: "guard_config option"
  av_reads :: "'s \<Rightarrow> reads"
  av_put_reads :: "reads \<Rightarrow> 's \<Rightarrow> 's"
  av_gate :: "'s \<Rightarrow> gate"
  av_put_gate :: "gate \<Rightarrow> 's \<Rightarrow> 's"
  av_event :: "(alert_event \<Rightarrow> ('s, unit) prog) option" \<comment> \<open>\<open>alerts\<close>, when the caller keeps them\<close>
  av_tapped :: "string \<Rightarrow> ('s, unit) prog"

definition system_alert_poll :: real where "system_alert_poll = 1 / 5"
definition title_marker :: string where "title_marker = ''title: ''"

definition is_title :: "string \<Rightarrow> bool" where
  "is_title l \<longleftrightarrow> take (length title_marker) l = title_marker"

definition alert_button :: "string \<Rightarrow> element" where
  "alert_button l = \<lparr>el_ref = 0, el_identifier = None, el_label = Some l, el_traits = [''button''],
     el_value = None, el_frame = (0, 0, 0, 0), el_nativeZ = None, el_crossOrigin = False\<rparr>"

definition names_button :: "regex_search \<Rightarrow> selector \<Rightarrow> string list \<Rightarrow> bool" where
  "names_button rx sel bs = list_ex (\<lambda>l. matches rx (alert_button l) sel) bs"

definition label_index :: "string option \<Rightarrow> int option \<Rightarrow> selector" where
  "label_index l i = Sel None None l None None None None i"

definition role_pick :: "nat \<Rightarrow> nat \<Rightarrow> string list \<Rightarrow> string option" where
  "role_pick ordinal n bs = (if length bs = n \<and> ordinal < n then Some (bs ! ordinal) else None)"

definition role_selector :: "string \<Rightarrow> nat \<Rightarrow> string list \<Rightarrow> selector" where
  "role_selector picked ordinal seen = (if count_list seen picked > 1
     then label_index (Some picked) (Some (int (count_list (take ordinal seen) picked)))
     else label_index (Some picked) None)"

definition tapped_label :: "regex_search \<Rightarrow> selector \<Rightarrow> string list \<Rightarrow> string" where
  "tapped_label rx sel seen =
     (let named = [l \<leftarrow> seen. names_button rx sel [l]]; n = int (length named);
          i = (case s_index sel of None \<Rightarrow> 0 | Some i \<Rightarrow> i)
      in if - n \<le> i \<and> i < n then named ! nat (if i < 0 then i + n else i) else [])"

definition role_text :: "nat \<Rightarrow> nat \<Rightarrow> string" where
  "role_text ordinal n = ''button '' @ show_nat (ordinal + 1) @ '' of '' @ show_nat n"

definition wanted_text :: "'s wait_env \<Rightarrow> alert_target \<Rightarrow> string" where
  "wanted_text E a = (case a of BySelector sel \<Rightarrow> we_sel_text E sel | ByRole k n \<Rightarrow> role_text k n)"

record alert_watch =
  aw_read :: "real option"
  aw_resolve :: "real option"
  aw_seen :: "string list"
  aw_ambiguous :: bool
  aw_other :: bool
  aw_sel :: "selector option"

definition alert_timeout_reason :: "'s wait_env \<Rightarrow> alert_target \<Rightarrow> real \<Rightarrow> alert_watch \<Rightarrow> string" where
  "alert_timeout_reason E a timeout w =
     (let wanted = wanted_text E a; offered = '' (the alert on screen offered: '' @ join '', '' (aw_seen w) @ '')'';
          wrong_count = (case a of ByRole k n \<Rightarrow> length (aw_seen w) \<noteq> n | _ \<Rightarrow> False)
      in if aw_seen w = [] then ''no system alert appeared within '' @ we_seconds_text E timeout @ ''s: '' @ wanted
         else if wrong_count then ''position rule '' @ wanted @ '' names no button on an alert offering '' @
           show_nat (length (aw_seen w)) @ '' ('' @ join '', '' (aw_seen w) @ '') within '' @ we_seconds_text E timeout @ ''s''
         else if aw_other w then ''a system alert offering '' @ wanted @ '' stayed up for '' @ we_seconds_text E timeout @
           ''s, but its title is not the step's prompt'' @ offered
         else if aw_ambiguous w then ''system alert button '' @ wanted @ '' is ambiguous and stayed ambiguous for '' @
           we_seconds_text E timeout @ ''s'' @ offered
         else ''no system alert button matching '' @ wanted @ '' appeared within '' @ we_seconds_text E timeout @ ''s'' @ offered)"

text \<open>\<open>_policy_answered_alert\<close>: the step's own alert, answered by the pushed policy.\<close>

definition own_taps :: "regex_search \<Rightarrow> selector option \<Rightarrow> (string list \<Rightarrow> bool) option \<Rightarrow> drained \<Rightarrow> bool list" where
  "own_taps rx sel title d = map (\<lambda>i. case sel of
       None \<Rightarrow> False
     | Some s \<Rightarrow> names_button rx s [dn_tapped d ! i] \<and> surface_of d i = NativeSurface \<and>
         (case title of None \<Rightarrow> True | Some ok \<Rightarrow> alert_of d i = [] \<or> ok (alert_of d i)))
     [0..<length (dn_tapped d)]"

fun each :: "('a \<Rightarrow> ('s, unit) prog) \<Rightarrow> 'a list \<Rightarrow> ('s, unit) prog" where
  "each f [] = ret ()"
| "each f (x # xs) = seq (f x) (\<lambda>_. each f xs)"

definition report_all :: "'s alert_env \<Rightarrow> alert_event list \<Rightarrow> ('s, unit) prog" where
  "report_all V evs = (case av_event V of None \<Rightarrow> ret () | Some f \<Rightarrow> each f evs)"

definition policy_answered :: "'s alert_env \<Rightarrow> ('s, drained) prog \<Rightarrow> selector option \<Rightarrow> (string list \<Rightarrow> bool) option
    \<Rightarrow> ('s, (bool \<times> string) option) prog" where
  "policy_answered V drain sel title = seq drain (\<lambda>d.
     let own = own_taps (we_search (av_wait V)) sel title d;
         matched = [l. (l, mine) \<leftarrow> zip (dn_tapped d) own, mine];
         unrelated = [l. (l, mine) \<leftarrow> zip (dn_tapped d) own, \<not> mine]
     in seq (report_all V
          (map (\<lambda>l. \<lparr>ev_label = l, ev_banner = False\<rparr>) unrelated @ map (\<lambda>l. \<lparr>ev_label = l, ev_banner = True\<rparr>) (dn_banners d))) (\<lambda>_.
        case matched of
          l # ls \<Rightarrow> seq (report_all V [\<lparr>ev_label = l, ev_banner = False\<rparr>]) (\<lambda>_.
             seq (av_tapped V l) (\<lambda>_. ret (Some (True, []))))
        | [] \<Rightarrow> if dn_declined d \<noteq> [] then ret (Some (False, undeclared_note (dn_declined d))) else ret None))"


text \<open>The reads of the step's view of the screen, and its gate.\<close>

definition take_reads :: "'s alert_env \<Rightarrow> ('s, resolving_read list) prog" where
  "take_reads V = (if av_read V = None then ret []
     else seq (gets (\<lambda>s. rs_unseen (av_reads V s))) (\<lambda>u.
       seq (modify (\<lambda>s. av_put_reads V ((av_reads V s)\<lparr>rs_unseen := []\<rparr>) s)) (\<lambda>_. ret u)))"

definition read_view :: "'s alert_env \<Rightarrow> resolve_mode \<Rightarrow> bool \<Rightarrow> ('s, element list) prog" where
  "read_view V mode keep = (case av_read V of
     None \<Rightarrow> dr_query (av_driver V)
   | Some q \<Rightarrow> seq (q mode False) (\<lambda>r.
       seq (modify (\<lambda>s. av_put_reads V (keep_read keep r (av_reads V s)) s)) (\<lambda>_. ret (rd_elements r))))"

definition open_gate :: "'s alert_env \<Rightarrow> ('s, unit) prog" where
  "open_gate V = only_if (av_guard V \<noteq> None)
     (seq (modify (av_put_gate V new_gate)) (\<lambda>_. seq (take_reads V) (\<lambda>_. ret ())))"

definition update_gate :: "'s alert_env \<Rightarrow> (gate \<Rightarrow> gate) \<Rightarrow> ('s, unit) prog" where
  "update_gate V f = modify (\<lambda>s. av_put_gate V (f (av_gate V s)) s)"

definition gate_step :: "'s alert_env \<Rightarrow> guard_config \<Rightarrow> element list \<Rightarrow> ('s, unit) prog" where
  "gate_step V c els = seq (take_reads V) (\<lambda>polled. seq (gets (av_gate V)) (\<lambda>g.
     seq (gate_observe (av_wait V) c (av_read V \<noteq> None) polled els g) (\<lambda>g. modify (av_put_gate V g))))"

text \<open>\<open>_wait_gate\<close>: what a wait of this step polls through.\<close>

definition gated_wait :: "'s alert_env \<Rightarrow> 's wait_env" where
  "gated_wait V = (av_wait V)\<lparr>we_query := read_view V FullRead (av_guard V \<noteq> None),
     we_gate := map_option (gate_step V) (av_guard V),
     we_stuck := gets (\<lambda>s. ga_stuck (av_gate V s)), we_blocked := gets (\<lambda>s. ga_blocked (av_gate V s))\<rparr>"

definition observed_labels :: "'s alert_env \<Rightarrow> bool \<Rightarrow> ('s, string list) prog" where
  "observed_labels V titled = seq (dr_alert_labels (av_driver V)) (\<lambda>bs.
     case av_titles V of
       Some ts \<Rightarrow> if titled \<and> bs \<noteq> [] then seq ts (\<lambda>ms. ret (bs @ ms)) else ret bs
     | None \<Rightarrow> ret bs)"

text \<open>The gate only watches a step that names its button.\<close>

definition gate_on :: "'s alert_env \<Rightarrow> alert_target \<Rightarrow> bool" where
  "gate_on V a \<longleftrightarrow> av_guard V \<noteq> None \<and> (case a of BySelector sel \<Rightarrow> True | ByRole k n \<Rightarrow> False)"

datatype handled = Tapped | Gone_by_then | Ambiguous_button

definition handle_alert :: "'s driver \<Rightarrow> selector \<Rightarrow> ('s, handled) prog" where
  "handle_alert d sel = catch (seq (dr_call d (HandleSystemAlert sel)) (\<lambda>_. ret Tapped))
     (\<lambda>e. if is_not_found e then ret Gone_by_then
        else case e of SelectorFailed m \<Rightarrow> ret Ambiguous_button | _ \<Rightarrow> raise e)"

text \<open>An alert that is not the step's: the policy may answer it, at the guard's own pace.\<close>

definition resolve_other :: "'s alert_env \<Rightarrow> alert_target \<Rightarrow> real \<Rightarrow> alert_watch \<Rightarrow> ('s, alert_watch) prog" where
  "resolve_other V a t0 w = (case av_guard V of
     None \<Rightarrow> ret w
   | Some c \<Rightarrow>
     if gate_on V a \<and> av_read V \<noteq> None \<and> aw_seen w \<noteq> [] \<and>
        (case aw_resolve w of None \<Rightarrow> True | Some l \<Rightarrow> t0 - l \<ge> gd_poll c)
     then seq (av_answer V (aw_seen w)) (\<lambda>d. seq (update_gate V (note_records d)) (\<lambda>_. ret (w\<lparr>aw_resolve := Some t0\<rparr>)))
     else ret w)"

text \<open>One look at the alert on screen: the step's outcome when this look settles it.\<close>

definition alert_look :: "'s alert_env \<Rightarrow> alert_target \<Rightarrow> (string list \<Rightarrow> bool) option \<Rightarrow> real \<Rightarrow> alert_watch
    \<Rightarrow> ('s, (bool \<times> string) option \<times> alert_watch) prog" where
  "alert_look V a title t0 w = seq (observed_labels V (title \<noteq> None)) (\<lambda>labels.
     let seen = [l \<leftarrow> labels. \<not> is_title l];
         picked = (case a of ByRole k n \<Rightarrow> role_pick k n seen | BySelector sel \<Rightarrow> None);
         sel = (case a of ByRole k n \<Rightarrow> map_option (\<lambda>p. role_selector p k seen) picked | BySelector sel \<Rightarrow> Some sel);
         named = (case sel of None \<Rightarrow> False | Some x \<Rightarrow> names_button (we_search (av_wait V)) x seen);
         other = (named \<and> (case title of None \<Rightarrow> False | Some ok \<Rightarrow> \<not> ok labels));
         w = w\<lparr>aw_read := Some t0, aw_seen := seen, aw_ambiguous := False, aw_other := other, aw_sel := sel\<rparr>
     in seq (only_if (gate_on V a) (update_gate V (note_step_read seen (named \<and> \<not> other)))) (\<lambda>_.
       if sel \<noteq> None \<and> named \<and> \<not> other
       then seq (handle_alert (av_driver V) (the sel)) (\<lambda>h. case h of
           Gone_by_then \<Rightarrow> ret (None, w)
         | Ambiguous_button \<Rightarrow> ret (None, w\<lparr>aw_ambiguous := True\<rparr>)
         | Tapped \<Rightarrow> let label = (case picked of Some p \<Rightarrow> p | None \<Rightarrow> tapped_label (we_search (av_wait V)) (the sel) seen)
             in seq (only_if (label \<noteq> []) (av_tapped V label)) (\<lambda>_. ret (Some (True, []), w)))
       else case dr_interruptions (av_driver V) of
         None \<Rightarrow> ret (None, w)
       | Some drain \<Rightarrow> seq (resolve_other V a t0 w) (\<lambda>w.
           seq (policy_answered V drain sel title) (\<lambda>r. ret (r, w)))))"

definition look_due :: "real \<Rightarrow> alert_watch \<Rightarrow> bool" where
  "look_due t0 w \<longleftrightarrow> (case aw_read w of None \<Rightarrow> True | Some l \<Rightarrow> t0 - l \<ge> system_alert_poll)"

definition alert_env_of :: "'s alert_env \<Rightarrow> alert_target \<Rightarrow> 's wait_env" where
  "alert_env_of V a = (gated_wait V)\<lparr>we_query := (if gate_on V a then read_view V InTreeRead True else dr_query (av_driver V)),
     we_gate := (if gate_on V a then we_gate (gated_wait V) else None)\<rparr>"

primrec alert_loop :: "'s alert_env \<Rightarrow> alert_target \<Rightarrow> real \<Rightarrow> (string list \<Rightarrow> bool) option \<Rightarrow> real \<Rightarrow> alert_watch \<Rightarrow> nat
    \<Rightarrow> ('s, bool \<times> string) prog" where
  "alert_loop V a timeout title deadline w 0 = out_of_fuel"
| "alert_loop V a timeout title deadline w (Suc n) = seq (we_now (av_wait V)) (\<lambda>t0.
     seq (if look_due t0 w then alert_look V a title t0 w else ret (None, w)) (\<lambda>(settled, w).
     case settled of Some r \<Rightarrow> ret r
     | None \<Rightarrow> seq (if gate_on V a then seq (observed (alert_env_of V a)) (\<lambda>_. ret ()) else ret ()) (\<lambda>_.
         seq (check_cancelled (av_wait V)) (\<lambda>_. seq (we_now (av_wait V)) (\<lambda>t.
           if t \<ge> deadline
           then seq (with_block_note (alert_env_of V a) (alert_timeout_reason (av_wait V) a timeout w)) (\<lambda>r. ret (False, r))
           else seq (adaptive_sleep (av_wait V) t0) (\<lambda>_. alert_loop V a timeout title deadline w n))))))"

definition initial_watch :: "alert_target \<Rightarrow> alert_watch" where
  "initial_watch a = \<lparr>aw_read = None, aw_resolve = None, aw_seen = [], aw_ambiguous = False, aw_other = False,
     aw_sel = (case a of BySelector sel \<Rightarrow> Some sel | ByRole k n \<Rightarrow> Some (label_index None (Some (int k))))\<rparr>"

definition wait_for_system_alert :: "'s alert_env \<Rightarrow> alert_target \<Rightarrow> real \<Rightarrow> (string list \<Rightarrow> bool) option \<Rightarrow> nat
    \<Rightarrow> ('s, bool \<times> string) prog" where
  "wait_for_system_alert V a timeout title n =
     (if ''handleSystemAlert'' \<notin> set (dr_capabilities (av_driver V))
      then seq (dr_call (av_driver V) (HandleSystemAlert (the (aw_sel (initial_watch a))))) (\<lambda>_.
        raise (Unsupported ''handleSystemAlert needs a backend advertising HANDLE_SYSTEM_ALERT''))
      else seq (we_now (av_wait V)) (\<lambda>t. seq (only_if (gate_on V a) (open_gate V)) (\<lambda>_.
        alert_loop V a timeout title (t + timeout) (initial_watch a) n)))"

end
