(* ===== verification/Step_Body.thy ===== *)
theory Step_Body
  imports Actions Alerts Assertions
begin

text \<open>
  What a leaf step does between its set-up and its evidence (\<open>_run_step_body\<close> and the condition waits of
  \<open>src/bajutsu/common/orchestrator/loop/_functions.py\<close>, the mailbox logic of
  \<open>src/bajutsu/common/mailbox.py\<close>): the polled assertions, the pause, the e-mail poll, the wait for a
  code's window, the read an extraction settles on, the banner sweep, and the dispatch by step kind.
  The mailbox, the wall clock and the regular-expression group are programs and functions of the
  environment.
\<close>

section \<open>Polled assertions\<close>

definition read_once_kinds :: "string set" where
  "read_once_kinds = {''clipboard'', ''visual'', ''request'', ''responseSchema'', ''requestSequence'', ''event''}"

fun attribute_wanted :: "assertion \<Rightarrow> (selector \<times> string) option" where
  "attribute_wanted (AAttribute sel name t) = Some (sel, name)"
| "attribute_wanted _ = None"

definition wanted_attributes :: "assertion list \<Rightarrow> (selector \<times> string) list" where
  "wanted_attributes as = firsts_by (\<lambda>k. k) [] (List.map_filter attribute_wanted as)"

fun attribute_result :: "exn + string option \<Rightarrow> attribute_read" where
  "attribute_result (Inl e) = ReadError (exn_text e)"
| "attribute_result (Inr v) = ReadOk v"

definition with_attributes :: "'s driver \<Rightarrow> eval_context \<Rightarrow> assertion list \<Rightarrow> ('s, eval_context) prog" where
  "with_attributes d ctx as = (let wanted = wanted_attributes as in
     if wanted = [] then ret ctx
     else seq (dr_attributes d wanted) (\<lambda>rs. ret (ctx\<lparr>ctx_attributes := zip wanted (map attribute_result rs)\<rparr>)))"

text \<open>One tick: the tree, then the attributes beside it, then the verdict.\<close>

definition check_tick :: "'s wait_env \<Rightarrow> 's driver \<Rightarrow> eval_context \<Rightarrow> assertion list
    \<Rightarrow> ('s, assertion_result list \<times> element list) prog" where
  "check_tick E d ctx as = seq (dr_query d) (\<lambda>tree. seq (with_attributes d ctx as) (\<lambda>ctx. seq (we_network E) (\<lambda>net.
     ret (evaluate (we_search E) ctx tree net as, tree))))"

definition only_read_once_fail :: "assertion_result list \<Rightarrow> bool" where
  "only_read_once_fail rs \<longleftrightarrow> list_all (\<lambda>r. ar_ok r \<or> ar_kind r \<in> read_once_kinds) rs"

primrec assert_loop :: "'s wait_env \<Rightarrow> 's driver \<Rightarrow> eval_context \<Rightarrow> assertion list \<Rightarrow> real \<Rightarrow> nat
    \<Rightarrow> ('s, assertion_result list \<times> element list) prog" where
  "assert_loop E d ctx as deadline 0 = out_of_fuel"
| "assert_loop E d ctx as deadline (Suc n) =
     seq (we_now E) (\<lambda>t0. seq (check_tick E d ctx as) (\<lambda>(results, tree).
       if passed results then ret (results, tree)
       else seq (we_now E) (\<lambda>t. if t \<ge> deadline then ret (results, tree)
         else seq (check_cancelled E) (\<lambda>_.
           if only_read_once_fail results then ret (results, tree)
           else seq (adaptive_sleep E t0) (\<lambda>_. assert_loop E d ctx as deadline n)))))"

definition poll_asserts :: "'s wait_env \<Rightarrow> 's driver \<Rightarrow> eval_context \<Rightarrow> assertion list \<Rightarrow> nat
    \<Rightarrow> ('s, assertion_result list \<times> element list) prog" where
  "poll_asserts E d ctx as n = seq (we_now E) (\<lambda>t. assert_loop E d ctx as (t + we_floor E) n)"

section \<open>The pause of a sleep step\<close>

definition sleep_slice :: real where "sleep_slice = 1 / 4"

primrec sleep_loop :: "'s wait_env \<Rightarrow> real \<Rightarrow> nat \<Rightarrow> ('s, unit) prog" where
  "sleep_loop E deadline 0 = out_of_fuel"
| "sleep_loop E deadline (Suc n) = seq (we_now E) (\<lambda>t. let remaining = deadline - t in
     if \<not> remaining > 0 then ret ()
     else seq (check_cancelled E) (\<lambda>_. seq (we_sleep E (min sleep_slice remaining)) (\<lambda>_. sleep_loop E deadline n)))"

definition do_sleep :: "'s wait_env \<Rightarrow> real \<Rightarrow> nat \<Rightarrow> ('s, unit) prog" where
  "do_sleep E seconds n = seq (we_now E) (\<lambda>t. sleep_loop E (t + seconds) n)"

section \<open>Mail\<close>

record message =
  ms_id :: string
  ms_to :: string
  ms_subject :: string
  ms_body :: string
  ms_received_at :: string

record email_step =
  em_to :: "string option"
  em_subject :: "string option"
  em_subject_matches :: "string option"
  em_timeout :: real
  em_body_matches :: string
  em_var :: string

definition match_message :: "regex_search \<Rightarrow> message \<Rightarrow> email_step \<Rightarrow> bool" where
  "match_message rx m e \<longleftrightarrow> (case em_to e of None \<Rightarrow> True | Some a \<Rightarrow> ms_to m = a) \<and>
     (case em_subject e of None \<Rightarrow> True | Some x \<Rightarrow> ms_subject m = x) \<and>
     (case em_subject_matches e of None \<Rightarrow> True | Some p \<Rightarrow> rx p (ms_subject m))"

definition arrival :: "message \<Rightarrow> string \<times> string" where
  "arrival m = (ms_received_at m, ms_id m)"

fun newest :: "message \<Rightarrow> message list \<Rightarrow> message" where
  "newest m [] = m"
| "newest m (x # xs) = newest (if arrival m < arrival x then x else m) xs"

definition select_message :: "regex_search \<Rightarrow> message list \<Rightarrow> email_step \<Rightarrow> string list \<Rightarrow> message option" where
  "select_message rx ms e baseline =
     (case [m \<leftarrow> ms. ms_id m \<notin> set baseline \<and> match_message rx m e] of [] \<Rightarrow> None | x # xs \<Rightarrow> Some (newest x xs))"

definition email_poll :: real where "email_poll = 1"

text \<open>The inbox, the group of a regular expression, and the variable a value is stored in.\<close>

record 's mail_env =
  ml_fetch :: "(real \<Rightarrow> ('s, message list) prog) option" \<comment> \<open>the configured mailbox\<close>
  ml_group :: "string \<Rightarrow> string \<Rightarrow> string option"
  ml_bind :: "string \<Rightarrow> string \<Rightarrow> ('s, unit) prog"

primrec email_loop :: "'s wait_env \<Rightarrow> 's mail_env \<Rightarrow> (real \<Rightarrow> ('s, message list) prog) \<Rightarrow> email_step \<Rightarrow> string list
    \<Rightarrow> real \<Rightarrow> nat \<Rightarrow> ('s, bool \<times> string) prog" where
  "email_loop E M fetch e baseline deadline 0 = out_of_fuel"
| "email_loop E M fetch e baseline deadline (Suc n) = seq (we_now E) (\<lambda>t. let remaining = deadline - t in
     if remaining \<le> 0 then ret (False, ''email: no matching message within '' @ we_seconds_text E (em_timeout e) @ ''s'')
     else seq (fetch remaining) (\<lambda>ms. case select_message (we_search E) ms e baseline of
       Some m \<Rightarrow> (case ml_group M (em_body_matches e) (ms_body m) of
           None \<Rightarrow> ret (False, ''email: matched a message but extract regex did not match its body'')
         | Some v \<Rightarrow> seq (ml_bind M (em_var e) v) (\<lambda>_. ret (True, [])))
     | None \<Rightarrow> seq (check_cancelled E) (\<lambda>_. seq (we_now E) (\<lambda>t.
         seq (we_sleep E (min email_poll (deadline - t))) (\<lambda>_. email_loop E M fetch e baseline deadline n)))))"

definition do_email :: "'s wait_env \<Rightarrow> 's mail_env \<Rightarrow> email_step \<Rightarrow> nat \<Rightarrow> ('s, bool \<times> string) prog" where
  "do_email E M e n = (case ml_fetch M of
     None \<Rightarrow> ret (False, ''email: no mailbox configured (set targets.<name>.mailbox)'')
   | Some fetch \<Rightarrow> seq (we_now E) (\<lambda>t. seq (fetch (em_timeout e)) (\<lambda>ms.
       email_loop E M fetch e (map ms_id ms) (t + em_timeout e) n)))"

section \<open>The window of a one-time code\<close>

definition totp_period :: real where "totp_period = 30"

definition real_mod :: "real \<Rightarrow> real \<Rightarrow> real" where
  "real_mod x p = x - p * of_int \<lfloor>x / p\<rfloor>"

definition next_window :: "real \<Rightarrow> real" where
  "next_window t = (of_int \<lfloor>t / totp_period\<rfloor> + 1) * totp_period"

primrec window_loop :: "'s wait_env \<Rightarrow> ('s, real) prog \<Rightarrow> real \<Rightarrow> real \<Rightarrow> nat \<Rightarrow> ('s, unit) prog" where
  "window_loop E wall target deadline 0 = out_of_fuel"
| "window_loop E wall target deadline (Suc n) = seq wall (\<lambda>now_wall.
     if \<not> now_wall < target then ret ()
     else seq (we_now E) (\<lambda>t. let left = deadline - t in
       if \<not> left > 0 then ret ()
       else seq (check_cancelled E) (\<lambda>_.
         seq (we_sleep E (min (min sleep_slice left) (target - now_wall))) (\<lambda>_. window_loop E wall target deadline n))))"

text \<open>The warning of a wall clock that jumped during the wait: the drift and the seconds left.\<close>

definition wait_for_totp_window :: "'s wait_env \<Rightarrow> ('s, real) prog \<Rightarrow> int \<Rightarrow> nat \<Rightarrow> ('s, (real \<times> real) option) prog" where
  "wait_for_totp_window E wall min_remaining n = seq wall (\<lambda>start_wall.
     if totp_period - real_mod start_wall totp_period \<ge> of_int min_remaining then ret None
     else let target = next_window start_wall in seq (we_now E) (\<lambda>start_mono.
       seq (window_loop E wall target (start_mono + (target - start_wall) + sleep_slice) n) (\<lambda>_.
         seq wall (\<lambda>end_wall. seq (we_now E) (\<lambda>end_mono.
           let drift = (end_wall - start_wall) - (end_mono - start_mono) in
           ret (if abs drift \<le> 1 then None else Some (drift, totp_period - real_mod end_wall totp_period)))))))"

section \<open>The read an extraction settles on\<close>

record extraction =
  ex_sel :: selector
  ex_prop :: string

definition prop_of :: "element \<Rightarrow> string \<Rightarrow> string option" where
  "prop_of el p = (if p = ''identifier'' then el_identifier el else if p = ''label'' then el_label el
     else if p = ''value'' then el_value el else None)"

definition or_empty :: "string option \<Rightarrow> string" where
  "or_empty v = (case v of None \<Rightarrow> [] | Some s \<Rightarrow> s)"

type_synonym extract_key = "(string \<times> frame) list \<times> (string \<times> string list) list"

definition extract_stable_key :: "regex_search \<Rightarrow> (string \<times> extraction) list \<Rightarrow> element list \<Rightarrow> extract_key" where
  "extract_stable_key rx exts els =
     (sort (map (\<lambda>el. (or_empty (el_identifier el), el_frame el)) els),
      map (\<lambda>(name, ext). (name,
        case find_elements rx els (ex_sel ext) of
          [el] \<Rightarrow> [or_empty (prop_of el (ex_prop ext))]
        | _ \<Rightarrow> sort (map (\<lambda>el. or_empty (prop_of el (ex_prop ext))) els))) (sort_key fst exts))"

primrec settle_extract_loop :: "'s wait_env \<Rightarrow> 's driver \<Rightarrow> (element list \<Rightarrow> extract_key) \<Rightarrow> real option \<Rightarrow> real
    \<Rightarrow> element list \<Rightarrow> extract_key \<Rightarrow> nat \<Rightarrow> ('s, element list) prog" where
  "settle_extract_loop E d key barrier deadline tree k 0 = out_of_fuel"
| "settle_extract_loop E d key barrier deadline tree k (Suc n) = seq (we_now E) (\<lambda>t.
     if \<not> t < deadline then ret tree
     else seq (we_now E) (\<lambda>t0. seq (dr_query d) (\<lambda>next_tree.
       let next_key = key next_tree; settled = (next_key = k);
           again = seq (adaptive_sleep E t0) (\<lambda>_. settle_extract_loop E d key barrier deadline next_tree next_key n)
       in if \<not> settled then again
          else case barrier of
            None \<Rightarrow> ret next_tree
          | Some b \<Rightarrow> seq (we_now E) (\<lambda>t. if t \<ge> b then ret next_tree else again))))"

definition settle_extract_read :: "'s wait_env \<Rightarrow> 's driver \<Rightarrow> real \<Rightarrow> (string \<times> extraction) list \<Rightarrow> element list option
    \<Rightarrow> real option \<Rightarrow> nat \<Rightarrow> ('s, element list) prog" where
  "settle_extract_read E d lag exts initial actuated_at n =
     (let key = extract_stable_key (we_search E) exts; barrier = map_option (\<lambda>t. t + lag) actuated_at in
      seq (we_now E) (\<lambda>t. seq (case initial of Some tree \<Rightarrow> ret tree | None \<Rightarrow> dr_query d) (\<lambda>tree.
        settle_extract_loop E d key barrier (t + we_floor E) tree (key tree) n)))"

section \<open>Notification banners\<close>

definition banner_clearance_timeout :: real where "banner_clearance_timeout = 2"
definition banner_clearance_poll :: real where "banner_clearance_poll = 1 / 10"

primrec banner_loop :: "'s wait_env \<Rightarrow> 's driver \<Rightarrow> real \<Rightarrow> nat \<Rightarrow> ('s, unit) prog" where
  "banner_loop E d deadline 0 = out_of_fuel"
| "banner_loop E d deadline (Suc n) = seq (dr_banner_frame d) (\<lambda>f. case f of
     None \<Rightarrow> ret ()
   | Some _ \<Rightarrow> seq (we_now E) (\<lambda>t. if t \<ge> deadline then ret ()
       else seq (we_sleep E banner_clearance_poll) (\<lambda>_. banner_loop E d deadline n)))"

definition clear_notification_banner :: "'s wait_env \<Rightarrow> 's driver \<Rightarrow> nat \<Rightarrow> ('s, unit) prog" where
  "clear_notification_banner E d n =
     (if ''handleNotificationBanner'' \<notin> set (dr_capabilities d) then ret ()
      else seq (dr_banner_frame d) (\<lambda>f. case f of
        None \<Rightarrow> ret ()
      | Some f \<Rightarrow> (case notification_banner_swipe_points f of
          None \<Rightarrow> ret ()
        | Some (a, b) \<Rightarrow> seq (dr_banner_frame d) (\<lambda>f. case f of
            None \<Rightarrow> ret ()
          | Some _ \<Rightarrow> seq (dr_call d (Swipe a b)) (\<lambda>_. seq (we_now E) (\<lambda>t.
              banner_loop E d (t + banner_clearance_timeout) n))))))"

definition default_alert_poll :: real where "default_alert_poll = 1"

text \<open>The sweep at the end of a step; \<open>note_poll\<close> stores the instant of the poll before the sweep.\<close>

definition sweep_notification_banner :: "'s wait_env \<Rightarrow> 's driver \<Rightarrow> real option \<Rightarrow> real option
    \<Rightarrow> (real \<Rightarrow> ('s, unit) prog) \<Rightarrow> nat \<Rightarrow> ('s, unit) prog" where
  "sweep_notification_banner E d interval latest note_poll n = seq (we_now E) (\<lambda>t.
     let every = (case interval of None \<Rightarrow> default_alert_poll | Some i \<Rightarrow> i) in
     if (case latest of None \<Rightarrow> False | Some l \<Rightarrow> t - l < every) then ret ()
     else seq (note_poll t) (\<lambda>_. clear_notification_banner E d n))"

section \<open>The body of a leaf step\<close>

datatype leaf =
    LWait wait_step
  | LAlert alert_target real \<comment> \<open>\<open>handleSystemAlert\<close>, resolved\<close>
  | LSetMocks string
  | LSleep real
  | LEmail email_step
  | LAssert "assertion list"
  | LTotp "int option" string
  | LAct step_action

record 's body_env =
  bo_wait :: "'s wait_env" \<comment> \<open>with the gate, the hook and the resolving reads of this step\<close>
  bo_driver :: "'s driver" \<comment> \<open>the plain driver\<close>
  bo_do :: "nat \<Rightarrow> step_action \<Rightarrow> ('s, unit) prog" \<comment> \<open>\<open>_do_action\<close>, on the run's selection\<close>
  bo_unselect :: "('s, unit) prog" \<comment> \<open>\<open>selection.invalidate\<close>\<close>
  bo_mail :: "'s mail_env"
  bo_wall :: "('s, real) prog"
  bo_open :: "('s, unit) prog" \<comment> \<open>the gate of this wait\<close>
  bo_alert :: "alert_target \<Rightarrow> real \<Rightarrow> ('s, bool \<times> string) prog" \<comment> \<open>\<open>wait_for_system_alert\<close>\<close>
  bo_mocks :: "string \<Rightarrow> ('s, unit) prog" \<comment> \<open>\<open>replace_stub_table\<close>\<close>
  bo_clipboard :: "('s, string) prog option" \<comment> \<open>the device control's clipboard\<close>
  bo_visual :: "('s, unit) prog" \<comment> \<open>capture of a visual assertion's actual image\<close>
  bo_context :: eval_context
  bo_warn :: "real \<times> real \<Rightarrow> ('s, unit) prog" \<comment> \<open>a warning of the step\<close>

record body_out =
  bd_ok :: bool
  bd_reason :: string
  bd_results :: "assertion_result list"
  bd_tree :: "element list option"

definition body_result :: "bool \<Rightarrow> string \<Rightarrow> assertion_result list \<Rightarrow> element list option \<Rightarrow> body_out" where
  "body_result ok r rs tree = \<lparr>bd_ok = ok, bd_reason = r, bd_results = rs, bd_tree = tree\<rparr>"

fun is_os_error :: "exn \<Rightarrow> bool" where
  "is_os_error (OsError m) = True" | "is_os_error _ = False"

fun uses_clipboard :: "assertion \<Rightarrow> bool" where
  "uses_clipboard (AClipboard t) = True" | "uses_clipboard _ = False"

fun uses_visual :: "assertion \<Rightarrow> bool" where
  "uses_visual (AVisual p) = True" | "uses_visual _ = False"

definition clipboard_for :: "assertion list \<Rightarrow> ('s, string) prog option \<Rightarrow> ('s, string option) prog" where
  "clipboard_for as control = (case control of
     None \<Rightarrow> ret None
   | Some c \<Rightarrow> if \<not> list_ex uses_clipboard as then ret None
       else catching is_os_error (seq c (\<lambda>v. ret (Some v))) (\<lambda>e. ret None))"

definition assert_body :: "'s body_env \<Rightarrow> assertion list \<Rightarrow> (assertion_result list \<Rightarrow> string) \<Rightarrow> nat
    \<Rightarrow> ('s, body_out) prog" where
  "assert_body B as show_fail n =
     seq (clipboard_for as (bo_clipboard B)) (\<lambda>clip.
     let visual = ctx_visual (bo_context B) \<noteq> None \<and> list_ex uses_visual as in
     seq (only_if visual (seq (clear_notification_banner (bo_wait B) (bo_driver B) n) (\<lambda>_. bo_visual B))) (\<lambda>_.
     seq (poll_asserts (bo_wait B) (bo_driver B)
            ((bo_context B)\<lparr>ctx_visual := if visual then ctx_visual (bo_context B) else None,
               ctx_schema := None, ctx_clipboard := clip\<rparr>) as n) (\<lambda>(results, tree).
       ret (body_result (passed results) (if passed results then [] else show_fail results) results (Some tree)))))"

definition align_totp_window :: "'s body_env \<Rightarrow> int option \<Rightarrow> nat \<Rightarrow> ('s, unit) prog" where
  "align_totp_window B min_remaining n = (case min_remaining of
     None \<Rightarrow> ret ()
   | Some m \<Rightarrow> seq (wait_for_totp_window (bo_wait B) (bo_wall B) m n) (\<lambda>w. case w of
       None \<Rightarrow> ret () | Some x \<Rightarrow> bo_warn B x))"

fun is_channel_error :: "exn \<Rightarrow> bool" where
  "is_channel_error (ChannelFailed m) = True" | "is_channel_error _ = False"

fun body_refusal :: "exn \<Rightarrow> bool" where
  "body_refusal (NotTappable m) = True"
| "body_refusal (Unsupported m) = True"
| "body_refusal (NotImplemented m) = True"
| "body_refusal e = is_selector_error e"

fun leaf_body :: "'s body_env \<Rightarrow> (assertion_result list \<Rightarrow> string) \<Rightarrow> nat \<Rightarrow> leaf \<Rightarrow> ('s, body_out) prog" where
  "leaf_body B show_fail n (LWait w) = seq (bo_open B) (\<lambda>_. seq (wait (bo_wait B) w n) (\<lambda>(ok, r, tree).
     ret (body_result ok r [] tree)))"
| "leaf_body B show_fail n (LAlert a timeout) = seq (bo_alert B a timeout) (\<lambda>(ok, r). seq (only_if ok (bo_unselect B)) (\<lambda>_.
     ret (body_result ok r [] None)))"
| "leaf_body B show_fail n (LSetMocks m) = catching is_channel_error
     (seq (bo_mocks B m) (\<lambda>_. ret (body_result True [] [] None)))
     (\<lambda>e. ret (body_result False (''control channel: '' @ exn_text e) [] None))"
| "leaf_body B show_fail n (LSleep s) = seq (do_sleep (bo_wait B) s n) (\<lambda>_. ret (body_result True [] [] None))"
| "leaf_body B show_fail n (LEmail e) = seq (do_email (bo_wait B) (bo_mail B) e n) (\<lambda>(ok, r). ret (body_result ok r [] None))"
| "leaf_body B show_fail n (LAssert as) = assert_body B as show_fail n"
| "leaf_body B show_fail n (LTotp m args) = seq (align_totp_window B m n) (\<lambda>_.
     seq (bo_do B n (AProduce ''totp'' args)) (\<lambda>_. ret (body_result True [] [] None)))"
| "leaf_body B show_fail n (LAct a) = seq (bo_do B n a) (\<lambda>_. ret (body_result True [] [] None))"

text \<open>\<open>_run_step_body\<close>; \<open>refused\<close> is \<open>_note_refusal\<close> on the step's resolving reads.\<close>

fun noted :: "exn \<Rightarrow> bool" where
  "noted (NotTappable m) = True" | "noted e = is_not_found e"

definition run_step_body :: "'s body_env \<Rightarrow> (assertion_result list \<Rightarrow> string) \<Rightarrow> ('s, unit) prog \<Rightarrow> nat \<Rightarrow> leaf
    \<Rightarrow> ('s, body_out) prog" where
  "run_step_body B show_fail refused n l = catching body_refusal (leaf_body B show_fail n l)
     (\<lambda>e. seq (only_if (noted e) refused) (\<lambda>_. ret (body_result False (exn_text e) [] None)))"

end
