(* ===== verification/Interrupts.thy ===== *)
theory Interrupts
  imports Step_Body
begin

text \<open>
  The handlers of interstitial screens (\<open>src/bajutsu/common/orchestrator/loop/_interrupt_guard.py\<close>) and
  the tip hook beside them (\<open>_dismiss_blocking_tip\<close>, \<open>_tip_poll_hook\<close> of \<open>loop/_functions.py\<close>).
  The guard of a step is a part of the state its recoveries run over; a recovery is a program.
\<close>

section \<open>The guard\<close>

definition interrupt_max_fires :: nat where "interrupt_max_fires = 3"

record guard =
  gu_fires :: "nat \<Rightarrow> nat"
  gu_failure :: "string option"

definition new_guard :: guard where
  "new_guard = \<lparr>gu_fires = (\<lambda>_. 0), gu_failure = None\<rparr>"

text \<open>The conditions are the entries' in their order; \<open>recover i\<close> runs the steps of entry \<open>i\<close>.\<close>

record 's guard_env =
  ge_driver :: "'s driver"
  ge_search :: regex_search
  ge_network :: "('s, exchange list) prog"
  ge_context :: eval_context \<comment> \<open>\<open>EvalContext()\<close>\<close>
  ge_conditions :: "assertion list"
  ge_recover :: "nat \<Rightarrow> ('s, string option) prog"
  ge_get :: "'s \<Rightarrow> guard"
  ge_put :: "guard \<Rightarrow> 's \<Rightarrow> 's"

definition set_fires :: "'s guard_env \<Rightarrow> nat \<Rightarrow> nat \<Rightarrow> ('s, unit) prog" where
  "set_fires G i k = modify (\<lambda>s. let g = ge_get G s in ge_put G (g\<lparr>gu_fires := (gu_fires g)(i := k)\<rparr>) s)"

definition set_failure :: "'s guard_env \<Rightarrow> string \<Rightarrow> ('s, unit) prog" where
  "set_failure G m = modify (\<lambda>s. ge_put G ((ge_get G s)\<lparr>gu_failure := Some m\<rparr>) s)"

definition holds_now :: "'s guard_env \<Rightarrow> element list \<Rightarrow> exchange list \<Rightarrow> assertion \<Rightarrow> ('s, bool) prog" where
  "holds_now G els net c = seq (with_attributes (ge_driver G) (ge_context G) [c]) (\<lambda>ctx.
     ret (passed (evaluate (ge_search G) ctx els net [c])))"

text \<open>The recovery of an entry: whether it succeeded; its failure is kept for the step.\<close>

definition recover_entry :: "'s guard_env \<Rightarrow> nat \<Rightarrow> ('s, bool) prog" where
  "recover_entry G i = seq (ge_recover G i) (\<lambda>failure. case failure of
     Some m \<Rightarrow> seq (set_failure G m) (\<lambda>_. ret False)
   | None \<Rightarrow> ret True)"

text \<open>The pass over the entries from entry \<open>i\<close> on; \<open>fired\<close> is what earlier entries did.\<close>

fun fire_entries :: "'s guard_env \<Rightarrow> element list \<Rightarrow> exchange list \<Rightarrow> nat \<Rightarrow> assertion list \<Rightarrow> bool \<Rightarrow> ('s, bool) prog" where
  "fire_entries G els net i [] fired = ret fired"
| "fire_entries G els net i (c # cs) fired = seq (gets (ge_get G)) (\<lambda>g.
     if gu_failure g \<noteq> None then ret fired
     else if gu_fires g i \<ge> interrupt_max_fires then fire_entries G els net (Suc i) cs fired
     else seq (holds_now G els net c) (\<lambda>up.
       if \<not> up then seq (set_fires G i 0) (\<lambda>_. fire_entries G els net (Suc i) cs fired)
       else seq (set_fires G i (gu_fires g i + 1)) (\<lambda>_. seq (recover_entry G i) (\<lambda>recovered.
         if recovered then fire_entries G els net (Suc i) cs True else ret fired))))"

definition fire_once :: "'s guard_env \<Rightarrow> element list \<Rightarrow> ('s, bool) prog" where
  "fire_once G els = seq (ge_network G) (\<lambda>net. fire_entries G els net 0 (ge_conditions G) False)"

definition guard_failed :: "'s guard_env \<Rightarrow> ('s, bool) prog" where
  "guard_failed G = gets (\<lambda>s. gu_failure (ge_get G s) \<noteq> None)"

definition guard_observe :: "'s guard_env \<Rightarrow> element list \<Rightarrow> ('s, bool) prog" where
  "guard_observe G els = seq (fire_once G els) (\<lambda>_. guard_failed G)"

primrec clear_before_act :: "'s guard_env \<Rightarrow> element list \<Rightarrow> nat \<Rightarrow> ('s, element list) prog" where
  "clear_before_act G els 0 = out_of_fuel"
| "clear_before_act G els (Suc n) = seq (guard_failed G) (\<lambda>failed.
     if failed then ret els
     else seq (fire_once G els) (\<lambda>fired. if \<not> fired then ret els
       else seq (dr_query (ge_driver G)) (\<lambda>els. clear_before_act G els n)))"

section \<open>Tips\<close>

definition tip_max_dismisses :: nat where "tip_max_dismisses = 2"

definition handles_tips :: "bool \<Rightarrow> 's driver \<Rightarrow> bool" where
  "handles_tips dismisses d \<longleftrightarrow> dismisses \<and> ''handleTipkitTip'' \<in> set (dr_capabilities d)"

definition dismiss_blocking_tip :: "bool \<Rightarrow> 's driver \<Rightarrow> ('s, bool) prog" where
  "dismiss_blocking_tip dismisses d = (if handles_tips dismisses d then dr_dismiss_tip d None else ret False)"

text \<open>\<open>dismissed\<close> reads the hook's count of dismissals and \<open>add_one\<close> raises it.\<close>

definition tip_poll :: "'s driver \<Rightarrow> ('s \<Rightarrow> nat) \<Rightarrow> ('s \<Rightarrow> 's) \<Rightarrow> (element list \<Rightarrow> ('s, bool) prog) option \<Rightarrow> element list
    \<Rightarrow> ('s, bool) prog" where
  "tip_poll d dismissed add_one poll els = seq (gets dismissed) (\<lambda>k.
     seq (if k < tip_max_dismisses then dr_dismiss_tip d (Some els) else ret False) (\<lambda>hit.
       seq (only_if hit (modify add_one)) (\<lambda>_. case poll of None \<Rightarrow> ret False | Some p \<Rightarrow> p els)))"

definition tip_poll_hook :: "bool \<Rightarrow> 's driver \<Rightarrow> ('s \<Rightarrow> nat) \<Rightarrow> ('s \<Rightarrow> 's) \<Rightarrow> (element list \<Rightarrow> ('s, bool) prog) option
    \<Rightarrow> (element list \<Rightarrow> ('s, bool) prog) option" where
  "tip_poll_hook dismisses d dismissed add_one poll =
     (if handles_tips dismisses d then Some (tip_poll d dismissed add_one poll) else poll)"

end
