(* ===== verification/Fake_Device.thy ===== *)
theory Fake_Device
  imports Actions Step_Waits
begin

text \<open>
  The in-memory device under the code that drives a device: \<open>FakeDriver\<close> with no script and a clock
  that sleeps advance, as the environment of a scroll and of a wait.  It discharges the laws both
  rest on, and carries their properties.
\<close>

section \<open>The device as an environment\<close>

definition fake_now :: "(fake, real) prog" where
  "fake_now = gets fk_time"

definition fake_sleep :: "real \<Rightarrow> (fake, unit) prog" where
  "fake_sleep d = modify (\<lambda>s. s\<lparr>fk_time := fk_time s + d\<rparr>)"

definition fake_network :: "(fake, exchange list) prog" where
  "fake_network = gets (\<lambda>d. case fk_exchanges d of None \<Rightarrow> [] | Some exs \<Rightarrow> exs)"

definition unscripted :: "regex_search \<Rightarrow> (selector \<Rightarrow> string) \<Rightarrow> fake_config" where
  "unscripted rx show_sel = \<lparr>fc_search = rx, fc_sel_text = show_sel, fc_react = (\<lambda>a d. d)\<rparr>"

text \<open>A screenshot of the fake records nothing, so there are no bytes to read.\<close>

definition fake_scroll :: "regex_search \<Rightarrow> (selector \<Rightarrow> string) \<Rightarrow> fake scroll_env" where
  "fake_scroll rx show_sel = \<lparr>se_driver = fake_driver (unscripted rx show_sel), se_now = fake_now,
     se_sleep = fake_sleep, se_capture = ret [], se_hash = (\<lambda>b. b), se_lag = 0, se_search = rx, se_text = show_sel\<rparr>"

definition fake_wait :: "regex_search \<Rightarrow> (selector \<Rightarrow> string) \<Rightarrow> (request_match \<Rightarrow> string) \<Rightarrow> (real \<Rightarrow> string)
    \<Rightarrow> real \<Rightarrow> fake wait_env" where
  "fake_wait rx show_sel show_req show_s lowest = \<lparr>we_now = fake_now, we_sleep = fake_sleep,
     we_query = fake_query, we_network = fake_network, we_transitions = ret [], we_cancelled = ret False,
     we_gate = None, we_stuck = ret [], we_blocked = ret [], we_poll = None, we_floor = lowest,
     we_search = rx, we_sel_text = show_sel, we_request_text = show_req, we_seconds_text = show_s\<rparr>"

definition fake_tree :: "fake \<Rightarrow> element list" where
  "fake_tree d = (case fk_viewport d of
     None \<Rightarrow> fk_screen d
   | Some v \<Rightarrow> map (\<lambda>el. el\<lparr>el_frame := shift_frame (fk_offset d) (el_frame el)\<rparr>) (fk_screen d))"

definition fake_port :: "fake \<Rightarrow> point" where
  "fake_port d = (case fk_viewport d of Some v \<Rightarrow> v | None \<Rightarrow> content_size d)"

section \<open>Its laws\<close>

interpretation fake_reads: screen_reads "fake_scroll rx show_sel" "\<lambda>s els. els = fake_tree s"
    "\<lambda>s. length (fk_actions s)" fake_port
proof unfold_locales
  show "wp True (dr_query (se_driver (fake_scroll rx show_sel)))
      (\<lambda>els t. els = fake_tree t \<and> length (fk_actions t) = length (fk_actions s) \<and> fake_port t = fake_port s)
      (\<lambda>e t. length (fk_actions t) = length (fk_actions s)) s" for s
    by (simp add: fake_scroll_def fake_driver_def fake_query_def fake_tree_def wp_simps)
  show "\<exists>v. dr_viewport (se_driver (fake_scroll rx show_sel)) = Some v"
    by (simp add: fake_scroll_def fake_driver_def)
  show "keeps (same_view (\<lambda>s els. els = fake_tree s) (\<lambda>s. length (fk_actions s)) fake_port) v"
    if "dr_viewport (se_driver (fake_scroll rx show_sel)) = Some v" for v
    using that by (auto simp: fake_scroll_def fake_driver_def fake_viewport_def keeps_def gets_def same_view_def)
  show "wp True v (\<lambda>p t. p = fake_port s) (\<lambda>_ _. True) s"
    if "dr_viewport (se_driver (fake_scroll rx show_sel)) = Some v" for v s
    using that by (auto simp: fake_scroll_def fake_driver_def fake_viewport_def fake_port_def wp_simps)
  show "keeps (same_view (\<lambda>s els. els = fake_tree s) (\<lambda>s. length (fk_actions s)) fake_port) (se_now (fake_scroll rx show_sel))"
    by (simp add: fake_scroll_def fake_now_def keeps_def gets_def same_view_def)
  show "keeps (same_view (\<lambda>s els. els = fake_tree s) (\<lambda>s. length (fk_actions s)) fake_port) (se_sleep (fake_scroll rx show_sel) d)" for d
    by (simp add: fake_scroll_def fake_sleep_def keeps_def modify_def same_view_def fake_tree_def fake_port_def content_size_def split: option.split)
  show "keeps (same_view (\<lambda>s els. els = fake_tree s) (\<lambda>s. length (fk_actions s)) fake_port) (se_capture (fake_scroll rx show_sel))"
    by (simp add: fake_scroll_def keeps_def ret_def same_view_def)
  show "keeps (same_view (\<lambda>s els. els = fake_tree s) (\<lambda>s. length (fk_actions s)) fake_port) (dr_tappable (se_driver (fake_scroll rx show_sel)) sel)" for sel
    by (auto simp: fake_scroll_def fake_driver_def fake_tappable_def resolve_in_def keeps_def same_view_def catching_def
        catch_def seq_def gets_def ret_def raise_def split: sum.splits prod.splits res.splits if_splits)
  show "wp True (dr_call (se_driver (fake_scroll rx show_sel)) (Scroll a b))
      (\<lambda>_ t. length (fk_actions t) \<le> Suc (length (fk_actions s)) \<and> fake_port t = fake_port s)
      (\<lambda>_ t. length (fk_actions t) \<le> Suc (length (fk_actions s))) s" for a b s
    by (auto simp: fake_scroll_def fake_driver_def unscripted_def act_def log_actuation_def pan_def wp_simps
        fake_port_def content_size_def Let_def split: option.splits prod.splits)
qed

interpretation fake_clock: clocked_wait "fake_wait rx show_sel show_req show_s lowest" fk_time
  by unfold_locales
    (auto simp: fake_wait_def fake_now_def fake_sleep_def fake_query_def fake_network_def steady_def wp_simps)

section \<open>What a scroll of the device shows\<close>

text \<open>a \<open>scroll\<close> on the in-memory device that returns ends with its target on screen: on the tree the
  device now reports the selector resolves to exactly one element, whose centre (the point a tap aims
  at) lies in the viewport, and at most \<open>max_scrolls\<close> gestures were made on the way.\<close>
theorem scroll_ends_on_the_target:
  assumes "scroll_to_target (fake_scroll rx show_sel) to dir inside max_scrolls on_screen amount n d = (Ret (), d')"
  shows "(\<exists>el. resolve_unique rx (fake_tree d') to = Inr el \<and> center_in_viewport (el_frame el) (fake_port d'))
     \<and> length (fk_actions d') \<le> length (fk_actions d) + max_scrolls"
  using wp_returned [OF fake_reads.scroll_to_target_wp [OF fake_reads.on_screen_keeps fake_reads.on_screen_returns] assms]
  by (auto simp: found_def fake_scroll_def)

definition row_at :: "string \<Rightarrow> real \<Rightarrow> element" where
  "row_at i y = (sample_element 0 i (0, y, 100, 20))\<lparr>el_ref := 0\<rparr>"

definition long_list :: fake where
  "long_list = (new_fake [row_at ''a'' 10, (row_at ''b'' 130)\<lparr>el_ref := 1\<rparr>])\<lparr>fk_viewport := Some (100, 100)\<rparr>"

lemma scroll_ends_on_the_target_witness:
  "\<exists>el. resolve_unique (\<lambda>_ _. False) (fake_tree (snd (scroll_to_target (fake_scroll (\<lambda>_ _. False) (\<lambda>_. []))
     (by_id ''b'') Down None 3 on_screen None 1 long_list))) (by_id ''b'') = Inr el"
proof -
  have "fst (scroll_to_target (fake_scroll (\<lambda>_ _. False) (\<lambda>_. [])) (by_id ''b'') Down None 3 on_screen None 1 long_list) = Ret ()"
    by code_simp
  then have "scroll_to_target (fake_scroll (\<lambda>_ _. False) (\<lambda>_. [])) (by_id ''b'') Down None 3 on_screen None 1 long_list
      = (Ret (), snd (scroll_to_target (fake_scroll (\<lambda>_ _. False) (\<lambda>_. [])) (by_id ''b'') Down None 3 on_screen None 1 long_list))"
    by (metis prod.collapse)
  from scroll_ends_on_the_target [OF this] show ?thesis by blast
qed

section \<open>Gestures\<close>

definition along :: "direction \<Rightarrow> point \<Rightarrow> real" where
  "along dir p = (if vertical dir then snd p else fst p)"

definition across :: "direction \<Rightarrow> point \<Rightarrow> real" where
  "across dir p = (if vertical dir then fst p else snd p)"

definition backward :: "direction \<Rightarrow> bool" where
  "backward dir \<longleftrightarrow> dir = Up \<or> dir = Leftward"

text \<open>the two ends of a directional gesture lie on the line through its anchor, at least the
  margin away from both screen edges, and are exactly the requested share of the screen apart (cut at
  what fits between the margins), in the requested direction: wherever the anchor is, no gesture is
  shortened by an edge it starts near and none starts or ends off screen.\<close>
theorem scroll_gesture_stays_on_screen:
  assumes "2 * swipe_margin \<le> along dir screen" "\<And>a. amount = Some a \<Longrightarrow> 0 \<le> a"
    and "scroll_gesture center dir amount screen = (p, q)"
  shows "across dir p = across dir center \<and> across dir q = across dir center
     \<and> {along dir p, along dir q} \<subseteq> {swipe_margin .. along dir screen - swipe_margin}
     \<and> along dir q - along dir p
         = (if backward dir then - gesture_span amount (along dir screen) else gesture_span amount (along dir screen))"
proof -
  let ?x = "along dir screen" and ?a = "along dir center"
  obtain u v where uv: "gesture_ends ?a ?x (gesture_span amount ?x) (backward dir) = (u, v)"
    by (cases "gesture_ends ?a ?x (gesture_span amount ?x) (backward dir)")
  have k: "0 \<le> (case amount of None \<Rightarrow> swipe_fraction | Some a \<Rightarrow> a) * ?x"
    using assms(1,2) by (cases amount) (simp_all add: swipe_fraction_def swipe_margin_def)
  have s: "0 \<le> gesture_span amount ?x" "gesture_span amount ?x \<le> ?x - 2 * swipe_margin"
    using k assms(1) by (simp_all add: gesture_span_def min_def)
  have e: "{u, v} \<subseteq> {swipe_margin .. ?x - swipe_margin}
      \<and> v - u = (if backward dir then - gesture_span amount ?x else gesture_span amount ?x)"
    by (rule gesture_ends_inside [OF assms(1) s uv])
  have "p = (if vertical dir then (fst center, u) else (u, snd center))"
    "q = (if vertical dir then (fst center, v) else (v, snd center))"
    using assms(3) uv unfolding scroll_gesture_def along_def backward_def Let_def by (auto split: if_splits)
  then show ?thesis using e by (auto simp: along_def across_def)
qed

lemma scroll_gesture_stays_on_screen_witness:
  "along Up (fst (scroll_gesture (50, 50) Up (Some (1 / 2)) (100, 200))) = 104"
proof -
  have g: "scroll_gesture (50, 50) Up (Some (1 / 2)) (100, 200) = ((50, 104), (50, 4))"
    by (simp add: scroll_gesture_def gesture_ends_def gesture_span_def swipe_margin_def Let_def min_def max_def)
  from scroll_gesture_stays_on_screen [of Up "(100, 200)" "Some (1 / 2)" "(50, 50)" "(50, 104)" "(50, 4)"]
  have "along Up (50, 104) \<in> {swipe_margin .. along Up (100, 200) - swipe_margin}"
    using g by (simp add: along_def swipe_margin_def)
  then show ?thesis by (simp add: g along_def)
qed

section \<open>A wait of the device\<close>



section \<open>Selections\<close>

text \<open>a copy step never copies nothing.  In a run of actions that all succeed, from a run's start, every
  \<open>copy\<close> comes after a \<open>select\<close> with nothing but copies between the two: any other action in between
  would have dropped the selection, and the copy would have failed before reaching the device.\<close>
theorem copy_follows_a_select:
  assumes "do_actions A n (pre @ ACopy # post) False s = (Ret b, t)"
  shows "\<exists>xs a ys. pre = xs @ a # ys \<and> is_select a \<and> list_all is_copy ys"
proof -
  from assms obtain c u where c: "do_actions A n pre False s = (Ret c, u)" "do_actions A n (ACopy # post) c u = (Ret b, t)"
    unfolding do_actions_append_Ret by blast
  from c(2) obtain d v where "do_action A n ACopy c u = (Ret d, v)" by (auto simp: seq_Ret)
  then have "c" using do_action_Ret by (force simp: is_copy_def)
  then show ?thesis using selection_after [OF c(1)] by simp
qed

definition fake_act :: "fake act_env" where
  "fake_act = \<lparr>ae_scroll = fake_scroll (\<lambda>_ _. False) (\<lambda>_. []), ae_relaunch = None, ae_control = None,
     ae_produce = (\<lambda>_ _. ret ())\<rparr>"

lemma copy_follows_a_select_witness:
  "\<exists>xs a ys. [ASelect (by_id ''a'')] = xs @ a # ys \<and> is_select a \<and> list_all is_copy ys"
proof -
  have "fst (do_actions fake_act 1 ([ASelect (by_id ''a'')] @ ACopy # []) False long_list) = Ret True" by code_simp
  then obtain t where "do_actions fake_act 1 ([ASelect (by_id ''a'')] @ ACopy # []) False long_list = (Ret True, t)"
    by (metis prod.collapse)
  then show ?thesis by (rule copy_follows_a_select)
qed

end
