(* ===== verification/Interrupt_Results.thy ===== *)
theory Interrupt_Results
  imports Interrupts Fake_Device
begin

text \<open>
  How long the guard of a step may recover before its act.  What it rests on, that the device and the
  recoveries come back and leave the guard alone, is the locale \<open>guarded_device\<close>; the in-memory device
  with its guard is one.
\<close>

section \<open>Devices under a guard\<close>

locale guarded_device =
  fixes G :: "'s guard_env"
  assumes get_put: "ge_get G (ge_put G g s) = g"
    and network: "wp False (ge_network G) (\<lambda>v t. ge_get G t = ge_get G s) (\<lambda>e t. True) s"
    and attributes: "wp False (dr_attributes (ge_driver G) rs) (\<lambda>v t. ge_get G t = ge_get G s) (\<lambda>e t. True) s"
    and query: "wp False (dr_query (ge_driver G)) (\<lambda>v t. ge_get G t = ge_get G s) (\<lambda>e t. True) s"
    and recovery: "wp False (ge_recover G i) (\<lambda>v t. ge_get G t = ge_get G s) (\<lambda>e t. True) s"
begin

lemma holds_now_keeps: "wp False (holds_now G els net c) (\<lambda>v t. ge_get G t = ge_get G s) (\<lambda>e t. True) s"
  unfolding holds_now_def with_attributes_def Let_def
  by (auto simp: wp_simps intro: wp_mono [OF attributes])

lemma set_fires_now: "wp b (set_fires G i k) Q E s = Q () (ge_put G ((ge_get G s)\<lparr>gu_fires := (gu_fires (ge_get G s))(i := k)\<rparr>) s)"
  by (simp add: set_fires_def wp_simps Let_def)

text \<open>A pass over one entry: it fires again only below its limit.\<close>

lemma one_pass:
  assumes "ge_conditions G = [c]"
  shows "wp False (fire_once G els)
     (\<lambda>fired t. (fired \<longrightarrow> gu_fires (ge_get G s) 0 < interrupt_max_fires \<and> gu_fires (ge_get G t) 0 = gu_fires (ge_get G s) 0 + 1))
     (\<lambda>e t. True) s"
proof -
  have recovered: "wp False (recover_entry G 0) (\<lambda>ok t. ok \<longrightarrow> ge_get G t = ge_get G s) (\<lambda>e t. True) s" for s
    unfolding recover_entry_def wp_seq
    by (rule wp_mono [OF recovery [of 0 s]]) (auto simp: wp_simps set_failure_def split: option.split)
  have fires: "wp False (holds_now G els net c) (\<lambda>up. wp False (if \<not> up then seq (set_fires G 0 0) (\<lambda>_. fire_entries G els net (Suc 0) [] False)
       else seq (set_fires G 0 (gu_fires (ge_get G t) 0 + 1)) (\<lambda>_. seq (recover_entry G 0) (\<lambda>ok. if ok then fire_entries G els net (Suc 0) [] True else ret False)))
       (\<lambda>fired u. fired \<longrightarrow> gu_fires (ge_get G u) 0 = Suc (gu_fires (ge_get G s) 0)) (\<lambda>e t. True)) (\<lambda>e t. True) t"
    if t: "ge_get G t = ge_get G s" for net t
  proof (rule wp_mono [OF holds_now_keeps])
    fix up u assume u: "ge_get G u = ge_get G t"
    show "wp False (if \<not> up then seq (set_fires G 0 0) (\<lambda>_. fire_entries G els net (Suc 0) [] False)
       else seq (set_fires G 0 (gu_fires (ge_get G t) 0 + 1)) (\<lambda>_. seq (recover_entry G 0) (\<lambda>ok. if ok then fire_entries G els net (Suc 0) [] True else ret False)))
       (\<lambda>fired u. fired \<longrightarrow> gu_fires (ge_get G u) 0 = Suc (gu_fires (ge_get G s) 0)) (\<lambda>e t. True) u"
      by (auto simp: wp_simps set_fires_now get_put u t intro!: wp_mono [OF recovered])
  qed simp
  show ?thesis
    unfolding fire_once_def assms wp_seq
    by (rule wp_mono [OF network])
      (use fires in \<open>auto simp: wp_simps\<close>)
qed

theorem one_entry_ends:
  assumes "ge_conditions G = [c]"
  shows "gu_fires (ge_get G s) 0 + n \<ge> interrupt_max_fires \<Longrightarrow> wp False (clear_before_act G els (Suc n)) (\<lambda>v t. True) (\<lambda>e t. True) s"
proof (induction n arbitrary: els s)
  case 0
  show ?case
    unfolding clear_before_act.simps guard_failed_def wp_seq wp_gets
    by (auto simp: wp_simps intro!: wp_mono [OF one_pass [OF assms]]) (use 0 in auto)
next
  case (Suc n)
  have again: "wp False (dr_query (ge_driver G)) (\<lambda>els. wp False (clear_before_act G els (Suc n)) (\<lambda>v t. True) (\<lambda>e t. True)) (\<lambda>e t. True) t"
    if "gu_fires (ge_get G t) 0 = gu_fires (ge_get G s) 0 + 1" for t
    by (rule wp_mono [OF query]) (use that Suc in auto)
  show ?case
    unfolding clear_before_act.simps(2) [of G els "Suc n"] guard_failed_def wp_seq wp_gets wp_if wp_ret
    by (auto simp: wp_simps again simp del: clear_before_act.simps intro!: wp_mono [OF one_pass [OF assms]])
qed

end

section \<open>The in-memory device under a guard\<close>

text \<open>A recovery taps a control away, as a recovery of one tap step does.\<close>

definition tap_away :: "fake_config \<Rightarrow> selector \<Rightarrow> (fake, string option) prog" where
  "tap_away C sel = catching body_refusal (seq (fake_call C (Tap sel)) (\<lambda>_. ret None)) (\<lambda>e. ret (Some (exn_text e)))"

definition fake_guard :: "fake_config \<Rightarrow> (assertion \<times> selector) list \<Rightarrow> (fake \<times> guard) guard_env" where
  "fake_guard C entries = \<lparr>ge_driver = lift_driver fst (\<lambda>w s. (w, snd s)) (fake_driver C), ge_search = fc_search C,
     ge_network = on_part fst (\<lambda>w s. (w, snd s)) fake_network,
     ge_context = \<lparr>ctx_schema = None, ctx_golden = None, ctx_visual = None, ctx_clipboard = None, ctx_attributes = [],
       ctx_json_ok = (\<lambda>t. True), ctx_validate = (\<lambda>t u. None)\<rparr>,
     ge_conditions = map fst entries,
     ge_recover = (\<lambda>i. on_part fst (\<lambda>w s. (w, snd s)) (tap_away C (snd (entries ! i)))),
     ge_get = snd, ge_put = (\<lambda>g s. (fst s, g))\<rparr>"

lemma tap_total: "wp False (on_tappable C g sel c) (\<lambda>v t. True) (\<lambda>e t. True) s"
  by (auto simp: on_tappable_def check_tappable_def resolve_in_def log_target_def log_actuation_def act_def wp_simps
      split: sum.split)

lemma attributes_total: "wp False (fake_attributes C rs) (\<lambda>v t. True) (\<lambda>e t. True) s"
proof (induction rs arbitrary: s)
  case (Cons r rs)
  show ?case
    by (cases r) (simp add: wp_simps wp_mono [OF Cons])
qed (simp add: wp_simps)

interpretation fake_guarded: guarded_device "fake_guard C entries"
proof
  show "ge_get (fake_guard C entries) (ge_put (fake_guard C entries) g s) = g" for g s by (simp add: fake_guard_def)
  show "wp False (ge_network (fake_guard C entries)) (\<lambda>v t. ge_get (fake_guard C entries) t = ge_get (fake_guard C entries) s) (\<lambda>e t. True) s" for s
    by (simp add: fake_guard_def fake_network_def wp_simps)
  show "wp False (dr_attributes (ge_driver (fake_guard C entries)) rs) (\<lambda>v t. ge_get (fake_guard C entries) t = ge_get (fake_guard C entries) s) (\<lambda>e t. True) s" for rs s
    by (auto simp: fake_guard_def lift_driver_def fake_driver_def wp_simps intro: wp_mono [OF attributes_total])
  show "wp False (dr_query (ge_driver (fake_guard C entries))) (\<lambda>v t. ge_get (fake_guard C entries) t = ge_get (fake_guard C entries) s) (\<lambda>e t. True) s" for s
    by (simp add: fake_guard_def lift_driver_def fake_driver_def fake_query_def wp_simps)
  show "wp False (ge_recover (fake_guard C entries) i) (\<lambda>v t. ge_get (fake_guard C entries) t = ge_get (fake_guard C entries) s) (\<lambda>e t. True) s" for i s
    by (auto simp: fake_guard_def tap_away_def wp_simps intro: wp_mono [OF tap_total])
qed

text \<open>Two entries, each of which shows the other's screen.\<close>

definition swap_react :: "driver_call \<Rightarrow> fake \<Rightarrow> fake" where
  "swap_react c d = (if c = Tap (by_id ''a'') then d\<lparr>fk_screen := [row_at ''b'' 10]\<rparr>
     else if c = Tap (by_id ''b'') then d\<lparr>fk_screen := [row_at ''a'' 10]\<rparr> else d)"

definition swapping :: fake_config where
  "swapping = \<lparr>fc_search = (\<lambda>p t. False), fc_sel_text = (\<lambda>sel. []), fc_react = swap_react\<rparr>"

definition swap_guard :: "(fake \<times> guard) guard_env" where
  "swap_guard = fake_guard swapping [(AExists (by_id ''a'') False, by_id ''a''), (AExists (by_id ''b'') False, by_id ''b'')]"

lemma found_rows:
  "find_elements (\<lambda>p t. False) [row_at ''a'' 10] (by_id ''a'') \<noteq> []" "find_elements (\<lambda>p t. False) [row_at ''b'' 10] (by_id ''b'') \<noteq> []"
  "find_elements (\<lambda>p t. False) [row_at ''a'' 10] (by_id ''b'') = []" "find_elements (\<lambda>p t. False) [row_at ''b'' 10] (by_id ''a'') = []"
  by code_simp+

lemma one_row:
  "resolve_unique (\<lambda>p t. False) [row_at ''a'' 10] (by_id ''a'') = Inr (row_at ''a'' 10)"
  "resolve_unique (\<lambda>p t. False) [row_at ''b'' 10] (by_id ''b'') = Inr (row_at ''b'' 10)"
  "raise_if_covered [row_at ''a'' 10] (row_at ''a'' 10) = Inr ()" "raise_if_covered [row_at ''b'' 10] (row_at ''b'' 10) = Inr ()"
  by code_simp+

lemma other_id: "by_id ''b'' \<noteq> by_id ''a''"
  by (simp add: by_id_def)

lemma tap_swaps:
  "fk_screen d = [row_at ''a'' 10] \<Longrightarrow> \<exists>d'. tap_away swapping (by_id ''a'') d = (Ret None, d') \<and> fk_screen d' = [row_at ''b'' 10] \<and> fk_viewport d' = fk_viewport d"
  "fk_screen d = [row_at ''b'' 10] \<Longrightarrow> \<exists>d'. tap_away swapping (by_id ''b'') d = (Ret None, d') \<and> fk_screen d' = [row_at ''a'' 10] \<and> fk_viewport d' = fk_viewport d"
  by (auto simp: tap_away_def catching_def catch_def seq_def on_tappable_def check_tappable_def resolve_in_def gets_def swapping_def
      one_row ret_def log_target_def log_actuation_def modify_def act_def swap_react_def other_id)

lemma swap_holds:
  "holds_now swap_guard els net c s = (Ret (passed (evaluate (\<lambda>p t. False) (ge_context swap_guard) els net [c])), s)"
  if "c \<in> {AExists (by_id ''a'') False, AExists (by_id ''b'') False}"
  using that by (auto simp: holds_now_def with_attributes_def swap_guard_def fake_guard_def swapping_def seq_def ret_def wanted_attributes_def Let_def)

lemma exists_passes: "passed (evaluate rx ctx els net [AExists sel False]) \<longleftrightarrow> find_elements rx els sel \<noteq> []"
  by (cases "find_elements rx els sel") (simp_all add: passed_def evaluate_def assigned_results_def bare_requests_def eval_exists_def verdict_def)

lemma swap_pass:
  assumes "gu_failure g = None"
  shows "fk_screen d = [row_at ''a'' 10] \<Longrightarrow> gu_fires g 0 = 0 \<Longrightarrow> gu_fires g 1 \<le> 1 \<Longrightarrow>
      \<exists>d' g'. fire_once swap_guard [row_at ''a'' 10] (d, g) = (Ret True, (d', g')) \<and> gu_failure g' = None \<and> gu_fires g' 1 = 0 \<and> gu_fires g' 0 \<le> 1 \<and>
        fk_screen d' = [row_at ''b'' 10] \<and> fk_viewport d' = fk_viewport d"
    and "fk_screen d = [row_at ''b'' 10] \<Longrightarrow> gu_fires g 1 = 0 \<Longrightarrow> gu_fires g 0 \<le> 1 \<Longrightarrow>
      \<exists>d' g'. fire_once swap_guard [row_at ''b'' 10] (d, g) = (Ret True, (d', g')) \<and> gu_failure g' = None \<and> gu_fires g' 0 = 0 \<and> gu_fires g' 1 \<le> 1 \<and>
        fk_screen d' = [row_at ''a'' 10] \<and> fk_viewport d' = fk_viewport d"
proof -
  have conds: "ge_conditions swap_guard = [AExists (by_id ''a'') False, AExists (by_id ''b'') False]"
    by (simp add: swap_guard_def fake_guard_def)
  have net: "ge_network swap_guard s = (Ret (fst (the (case fake_network (fst s) of (Ret v, t) \<Rightarrow> Some (v, ())))), s)" for s
    by (cases s) (simp add: swap_guard_def fake_guard_def fake_network_def on_part_def gets_def)
  have rec: "ge_recover swap_guard 0 = on_part fst (\<lambda>w s. (w, snd s)) (tap_away swapping (by_id ''a''))"
    "ge_recover swap_guard (Suc 0) = on_part fst (\<lambda>w s. (w, snd s)) (tap_away swapping (by_id ''b''))"
    by (simp_all add: swap_guard_def fake_guard_def)
  have put: "ge_get swap_guard s = snd s" "ge_put swap_guard g s = (fst s, g)" for s g
    by (simp_all add: swap_guard_def fake_guard_def)
  note run = fire_once_def conds seq_def gets_def modify_def ret_def swap_holds exists_passes found_rows set_fires_def recover_entry_def
    on_part_def rec put net Let_def interrupt_max_fires_def
  {
    assume d: "fk_screen d = [row_at ''a'' 10]" "gu_fires g 0 = 0" "gu_fires g 1 \<le> 1"
    then obtain d' where "tap_away swapping (by_id ''a'') d = (Ret None, d')" "fk_screen d' = [row_at ''b'' 10]" "fk_viewport d' = fk_viewport d"
      using tap_swaps(1) by blast
    then show "\<exists>d' g'. fire_once swap_guard [row_at ''a'' 10] (d, g) = (Ret True, (d', g')) \<and> gu_failure g' = None \<and> gu_fires g' 1 = 0 \<and> gu_fires g' 0 \<le> 1 \<and>
        fk_screen d' = [row_at ''b'' 10] \<and> fk_viewport d' = fk_viewport d"
      using assms d by (simp add: run)
  next
    assume d: "fk_screen d = [row_at ''b'' 10]" "gu_fires g 1 = 0" "gu_fires g 0 \<le> 1"
    then obtain d' where "tap_away swapping (by_id ''b'') d = (Ret None, d')" "fk_screen d' = [row_at ''a'' 10]" "fk_viewport d' = fk_viewport d"
      using tap_swaps(2) by blast
    then show "\<exists>d' g'. fire_once swap_guard [row_at ''b'' 10] (d, g) = (Ret True, (d', g')) \<and> gu_failure g' = None \<and> gu_fires g' 0 = 0 \<and> gu_fires g' 1 \<le> 1 \<and>
        fk_screen d' = [row_at ''a'' 10] \<and> fk_viewport d' = fk_viewport d"
      using assms d by (simp add: run)
  }
qed

lemma swap_never_ends:
  "gu_failure g = None \<Longrightarrow> fk_viewport d = None \<Longrightarrow>
    (fk_screen d = [row_at ''a'' 10] \<and> gu_fires g 0 = 0 \<and> gu_fires g 1 \<le> 1 \<longrightarrow>
       fst (clear_before_act swap_guard [row_at ''a'' 10] n (d, g)) = NoFuel) \<and>
    (fk_screen d = [row_at ''b'' 10] \<and> gu_fires g 1 = 0 \<and> gu_fires g 0 \<le> 1 \<longrightarrow>
       fst (clear_before_act swap_guard [row_at ''b'' 10] n (d, g)) = NoFuel)"
proof (induction n arbitrary: d g)
  case (Suc n)
  have read: "dr_query (ge_driver swap_guard) (d', g') = (Ret (fk_screen d'), (d', g'))" if "fk_viewport d' = None" for d' g'
    using that by (simp add: swap_guard_def fake_guard_def lift_driver_def fake_driver_def fake_query_def on_part_def gets_def)
  have get: "ge_get swap_guard s = snd s" for s by (simp add: swap_guard_def fake_guard_def)
  note step = clear_before_act.simps(2) guard_failed_def seq_def gets_def get Suc.prems
  show ?case
  proof (intro conjI impI; elim conjE)
    assume "fk_screen d = [row_at ''a'' 10]" "gu_fires g 0 = 0" "gu_fires g 1 \<le> 1"
    from swap_pass(1) [OF Suc.prems(1) this] obtain d' g' where
      "fire_once swap_guard [row_at ''a'' 10] (d, g) = (Ret True, (d', g'))" "gu_failure g' = None" "gu_fires g' 1 = 0"
      "gu_fires g' 0 \<le> 1" "fk_screen d' = [row_at ''b'' 10]" "fk_viewport d' = None"
      using Suc.prems(2) by auto
    with Suc.IH [of g' d'] show "fst (clear_before_act swap_guard [row_at ''a'' 10] (Suc n) (d, g)) = NoFuel"
      by (simp add: step read)
  next
    assume "fk_screen d = [row_at ''b'' 10]" "gu_fires g 1 = 0" "gu_fires g 0 \<le> 1"
    from swap_pass(2) [OF Suc.prems(1) this] obtain d' g' where
      "fire_once swap_guard [row_at ''b'' 10] (d, g) = (Ret True, (d', g'))" "gu_failure g' = None" "gu_fires g' 0 = 0"
      "gu_fires g' 1 \<le> 1" "fk_screen d' = [row_at ''a'' 10]" "fk_viewport d' = None"
      using Suc.prems(2) by auto
    with Suc.IH [of g' d'] show "fst (clear_before_act swap_guard [row_at ''b'' 10] (Suc n) (d, g)) = NoFuel"
      by (simp add: step read)
  qed
qed (simp add: out_of_fuel_def)

section \<open>The properties\<close>


text \<open>C37: Two interrupt entries whose recoveries each show the screen the other one matches alternate for
  ever: every pass resets the other entry's count, so neither reaches the limit of three and the loop
  before the act never returns, however many passes it is given.\<close>
theorem two_interrupts_can_alternate_for_ever:
  "fst (clear_before_act swap_guard [row_at ''a'' 10] n (new_fake [row_at ''a'' 10], new_guard)) = NoFuel"
  using swap_never_ends [of new_guard "new_fake [row_at ''a'' 10]" n] by (simp add: new_guard_def new_fake_def)

end
