(* ===== verification/Steps.thy ===== *)
theory Steps
  imports Step_Body
begin

text \<open>
  A scenario's steps as the step loop sees them, the kind each is reported under (\<open>_action_of\<close>), and the
  rules that decide what evidence a step and a scenario record
  (\<open>src/bajutsu/common/orchestrator/evidence_rules.py\<close>).
\<close>

section \<open>Steps\<close>

datatype scen_step = Step
  (st_name: "string option")
  (st_target: string) \<comment> \<open>\<open>resolved_target\<close>, empty for none\<close>
  (st_capture: "string list")
  (st_extract: "(string \<times> extraction) list")
  (st_work: work)
and work =
    Leaf leaf
  | If assertion "scen_step list" "scen_step list"
  | ForEach selector string "scen_step list"
  | Web selector "scen_step list"
  | App string "scen_step list"
  | InstallApp string bool
  | SetPrimary string

record interrupt =
  in_target :: string
  in_condition :: assertion
  in_steps :: "scen_step list"

fun control_kind :: "control_op \<Rightarrow> string" where
  "control_kind (SetLocation a b) = ''set_location''"
| "control_kind (PushPayload p) = ''push''"
| "control_kind ClearKeychain = ''clear_keychain''"
| "control_kind ClearClipboard = ''clear_clipboard''"
| "control_kind (SetClipboard t) = ''set_clipboard''"
| "control_kind Home = ''background''"
| "control_kind ForegroundApp = ''foreground''"
| "control_kind (OverrideStatusBar o') = ''override_status_bar''"
| "control_kind ClearStatusBar = ''clear_status_bar''"

fun action_kind :: "step_action \<Rightarrow> string" where
  "action_kind (ATap s) = ''tap''"
| "action_kind (ATapPoint p) = ''tap_point''"
| "action_kind (ADoubleTap s) = ''double_tap''"
| "action_kind (ALongPress s d) = ''long_press''"
| "action_kind (AType i t) = ''type''"
| "action_kind (ASelectOption s v) = ''select_option''"
| "action_kind (ASetPickerValue s v) = ''set_picker_value''"
| "action_kind (ASelectPhotos is) = ''select_photos''"
| "action_kind (AClear s) = ''clear''"
| "action_kind (ADelete s n) = ''delete''"
| "action_kind (ASelect s) = ''select''"
| "action_kind ACopy = ''copy_''"
| "action_kind (ASwipePoints a b) = ''swipe''"
| "action_kind (ASwipeOn s d m) = ''swipe''"
| "action_kind (ADrag s d m) = ''drag''"
| "action_kind (APinch s k) = ''pinch''"
| "action_kind (ARotate s k) = ''rotate''"
| "action_kind (AScroll s d i m k) = ''scroll''"
| "action_kind ABack = ''back''"
| "action_kind (ANavigate u) = ''navigate''"
| "action_kind ARelaunch = ''relaunch''"
| "action_kind (AControl op) = control_kind op"
| "action_kind (AProduce what args) = what"
| "action_kind (AManual l b) = ''manual''"

fun leaf_kind :: "leaf \<Rightarrow> string" where
  "leaf_kind (LWait w) = ''wait''"
| "leaf_kind (LAlert a timeout) = ''handle_system_alert''"
| "leaf_kind (LSetMocks m) = ''set_mocks''"
| "leaf_kind (LSleep s) = ''sleep''"
| "leaf_kind (LEmail e) = ''email''"
| "leaf_kind (LAssert as) = ''assert_''"
| "leaf_kind (LTotp m args) = ''totp''"
| "leaf_kind (LAct a) = action_kind a"

definition action_of :: "scen_step \<Rightarrow> string" where
  "action_of s = (case st_work s of
     Leaf l \<Rightarrow> leaf_kind l
   | If c a b \<Rightarrow> ''if_''
   | ForEach sel v b \<Rightarrow> ''for_each''
   | Web w b \<Rightarrow> ''web''
   | App a b \<Rightarrow> ''app''
   | InstallApp m k \<Rightarrow> ''install_app''
   | SetPrimary t \<Rightarrow> ''set_primary_target'')"

section \<open>Which evidence a step records\<close>

definition scenario_intervals :: "string list" where
  "scenario_intervals = [''video'', ''deviceLog'', ''appTrace'']"

definition dsl_action :: "string \<Rightarrow> string" where
  "dsl_action kind = (case map_of [(''long_press'', ''longPress''), (''double_tap'', ''doubleTap''),
       (''assert_'', ''assert''), (''handle_system_alert'', ''handleSystemAlert'')] kind of
     Some k \<Rightarrow> k | None \<Rightarrow> kind)"

fun leaf_selector :: "leaf \<Rightarrow> selector option" where
  "leaf_selector (LAct (ATap s)) = Some s"
| "leaf_selector (LAct (ADoubleTap s)) = Some s"
| "leaf_selector (LAct (ALongPress s d)) = Some s"
| "leaf_selector (LAct (AType i t)) = i"
| "leaf_selector (LAct (ASwipeOn s d m)) = Some s"
| "leaf_selector (LAct (APinch s k)) = Some s"
| "leaf_selector (LAct (ARotate s k)) = Some s"
| "leaf_selector (LAct (AScroll s d i m k)) = Some s"
| "leaf_selector _ = None"

definition primary_selector :: "scen_step \<Rightarrow> selector option" where
  "primary_selector s = (case st_work s of Leaf l \<Rightarrow> leaf_selector l | _ \<Rightarrow> None)"

definition first_id :: "selector \<Rightarrow> string option" where
  "first_id sel = (case s_id sel of None \<Rightarrow> None
     | Some ids \<Rightarrow> (case id_candidates ids of [] \<Rightarrow> None | i # is \<Rightarrow> Some i))"

datatype trigger =
    OnAction string "string option" \<comment> \<open>\<open>action\<close> and \<open>idMatches\<close>\<close>
  | OnScreenChanged
  | OnFailure
  | OnOther

record capture_rule =
  cr_on :: trigger
  cr_capture :: "string list"

fun rule_fires :: "trigger \<Rightarrow> string \<Rightarrow> string option \<Rightarrow> bool \<Rightarrow> bool \<Rightarrow> bool" where
  "rule_fires (OnAction a p) kind primary changed ok =
     (a = dsl_action kind \<and> (case p of None \<Rightarrow> True
        | Some pat \<Rightarrow> (case primary of None \<Rightarrow> False | Some i \<Rightarrow> fnmatchcase i pat)))"
| "rule_fires OnScreenChanged kind primary changed ok = changed"
| "rule_fires OnFailure kind primary changed ok = (\<not> ok)"
| "rule_fires OnOther kind primary changed ok = False"

definition token_kind :: "string \<Rightarrow> string" where
  "token_kind t = takeWhile (\<lambda>c. c \<noteq> CHR ''.'') t"

definition normal_token :: "string \<Rightarrow> string" where
  "normal_token t = (if t = ''screenshot'' then ''screenshot.after''
     else if token_kind t = ''elements'' then ''elements'' else t)"

definition collect_captures :: "capture_rule list \<Rightarrow> scen_step \<Rightarrow> bool \<Rightarrow> bool \<Rightarrow> string list \<Rightarrow> string list" where
  "collect_captures policy s ok changed config =
     (let kind = action_of s; primary = Option.bind (primary_selector s) first_id;
          fired = ''elements'' # st_capture s @ config @
            concat [cr_capture r. r \<leftarrow> policy, rule_fires (cr_on r) kind primary changed ok]
      in [t \<leftarrow> firsts_by (\<lambda>t. t) [] (map normal_token fired). t \<noteq> ''screenshot.before''])"

text \<open>The instant tokens a step hands to the sink (\<open>_instant_captures\<close> of the step runner).\<close>

definition instant_captures :: "capture_rule list \<Rightarrow> scen_step \<Rightarrow> bool \<Rightarrow> bool \<Rightarrow> string list \<Rightarrow> bool \<Rightarrow> string list" where
  "instant_captures policy s ok changed config native =
     (let fired = collect_captures policy s ok changed config;
          instant = [t \<leftarrow> fired. token_kind t \<notin> set scenario_intervals];
          instant = (if native then instant else [t \<leftarrow> instant. token_kind t \<noteq> ''rawTree''])
      in [t \<leftarrow> instant. t \<noteq> ''screenshot.after''])"

text \<open>\<open>_all_steps\<close> descends into \<open>if\<close> and \<open>forEach\<close> bodies.\<close>

fun all_step :: "scen_step \<Rightarrow> scen_step list" and all_work :: "work \<Rightarrow> scen_step list" where
  "all_step (Step n t c e w) = Step n t c e w # all_work w"
| "all_work (If cond a b) = concat (map all_step a) @ concat (map all_step b)"
| "all_work (ForEach sel v b) = concat (map all_step b)"
| "all_work _ = []"

definition all_steps :: "scen_step list \<Rightarrow> scen_step list" where
  "all_steps ss = concat (map all_step ss)"

definition requested_intervals :: "capture_rule list \<Rightarrow> scen_step list \<Rightarrow> string list \<Rightarrow> string list" where
  "requested_intervals policy ss config =
     (let asked = map token_kind (concat (map cr_capture policy) @ concat (map st_capture (all_steps ss)) @ config)
      in [k \<leftarrow> scenario_intervals. k \<in> set asked])"

section \<open>Values an extraction binds\<close>

fun run_extract :: "regex_search \<Rightarrow> (selector \<Rightarrow> selector_error \<Rightarrow> string) \<Rightarrow> element list \<Rightarrow> (string \<times> extraction) list
    \<Rightarrow> (string, string) dict \<Rightarrow> (bool \<times> string) \<times> (string, string) dict" where
  "run_extract rx show els [] b = ((True, []), b)"
| "run_extract rx show els ((name, ext) # exts) b =
     (case resolve_unique rx els (ex_sel ext) of
        Inl e \<Rightarrow> ((False, ''extract '' @ name @ '': '' @ show (ex_sel ext) e), b)
      | Inr el \<Rightarrow> (case prop_of el (ex_prop ext) of
          None \<Rightarrow> ((False, ''extract '' @ name @ '': '' @ ex_prop ext @ '' is None on the matched element''), b)
        | Some v \<Rightarrow> run_extract rx show els exts (dict_put (''vars.'' @ name) v b)))"

end
