(* ===== verification/Roster.thy ===== *)
theory Roster
  imports Steps
begin

text \<open>
  Which declared targets can take a step and which one is the primary
  (\<open>src/bajutsu/common/orchestrator/loop/target_roster.py\<close>), and what a scenario remembers of its
  application's liveness (\<open>app_crash_latches.py\<close>).
\<close>

section \<open>The lifecycle of a target\<close>

datatype member_status = NotInstalled | Installed | Running | Retired

fun status_text :: "member_status \<Rightarrow> string" where
  "status_text NotInstalled = ''not installed''"
| "status_text Installed = ''installed, not launched''"
| "status_text Running = ''running''"
| "status_text Retired = ''retired''"

record roster =
  ro_primary :: string
  ro_entries :: "interrupt list"
  ro_status :: "(string, member_status) dict"

definition status_of :: "roster \<Rightarrow> string \<Rightarrow> member_status" where
  "status_of r name = (case dict_get (ro_status r) name of None \<Rightarrow> Running | Some st \<Rightarrow> st)"

definition mark_status :: "string \<Rightarrow> member_status \<Rightarrow> roster \<Rightarrow> roster" where
  "mark_status name st r = r\<lparr>ro_status := dict_put name st (ro_status r)\<rparr>"

definition unavailable :: "roster \<Rightarrow> string \<Rightarrow> string \<Rightarrow> string option" where
  "unavailable r name action = (case status_of r name of
     Running \<Rightarrow> None
   | st \<Rightarrow> if action = ''install_app'' then None
       else if st = Retired then Some (''target '' @ name @ '' is retired: another member's build replaced its app on the shared device'')
       else if st = NotInstalled then Some (''target '' @ name @ '' is not installed yet: an installApp step must install it first'')
       else if action = ''foreground'' then None
       else Some (''target '' @ name @ '' has not launched yet: bring it up with a foreground step first''))"

fun retire_others :: "string list \<Rightarrow> roster \<Rightarrow> roster" where
  "retire_others [] r = r"
| "retire_others (o' # os) r = retire_others os (if status_of r o' \<noteq> NotInstalled then mark_status o' Retired r else r)"

text \<open>\<open>install_member\<close>, on the roster \<open>get\<close> reads from the state; \<open>install\<close> is the pipeline's.\<close>

definition install_member :: "(string \<Rightarrow> string \<Rightarrow> bool \<Rightarrow> ('s, string list) prog) option \<Rightarrow> roster
    \<Rightarrow> ((roster \<Rightarrow> roster) \<Rightarrow> ('s, unit) prog) \<Rightarrow> string \<Rightarrow> string \<Rightarrow> bool \<Rightarrow> ('s, string option) prog" where
  "install_member install r update device member keep_data =
     (if status_of r member \<noteq> NotInstalled
      then ret (Some (''installApp from '' @ member @ '': it was already installed in this scenario (now '' @
        status_text (status_of r member) @ '')''))
      else case install of
        None \<Rightarrow> raise (OtherError (''installApp from '' @ member @ '': no install was wired''))
      | Some f \<Rightarrow> seq (f device member keep_data) (\<lambda>others.
          seq (update (\<lambda>r. mark_status member Installed (retire_others others r))) (\<lambda>_. ret None)))"

definition move_primary :: "roster \<Rightarrow> ((roster \<Rightarrow> roster) \<Rightarrow> ('s, unit) prog) \<Rightarrow> string \<Rightarrow> ('s, string option) prog" where
  "move_primary r update name =
     (if status_of r name = Retired
      then ret (Some (''setPrimaryTarget '' @ name @ '': that member is retired''))
      else seq (update (\<lambda>r. r\<lparr>ro_primary := name\<rparr>)) (\<lambda>_. ret None))"

definition polls_now :: "roster \<Rightarrow> string \<Rightarrow> bool" where
  "polls_now r name \<longleftrightarrow> status_of r name = Running"

definition interrupts_for :: "roster \<Rightarrow> string \<Rightarrow> interrupt list \<Rightarrow> interrupt list" where
  "interrupts_for r name config = (if \<not> polls_now r name then []
     else config @ [e \<leftarrow> ro_entries r. (if in_target e = [] then ro_primary r else in_target e) = name])"

text \<open>The order the statuses are walked in.\<close>

fun status_rank :: "member_status \<Rightarrow> nat" where
  "status_rank NotInstalled = 0"
| "status_rank Installed = 1"
| "status_rank Running = 2"
| "status_rank Retired = 3"

definition forward :: "roster \<Rightarrow> roster \<Rightarrow> bool" where
  "forward r r' \<longleftrightarrow> (\<forall>name. status_rank (status_of r name) \<le> status_rank (status_of r' name))"

lemma status_of_mark: "status_of (mark_status n st r) m = (if m = n then st else status_of r m)"
  by (simp add: status_of_def mark_status_def)

lemma forward_refl: "forward r r"
  by (simp add: forward_def)

lemma forward_trans: "forward r s \<Longrightarrow> forward s t \<Longrightarrow> forward r t"
  unfolding forward_def by (meson order_trans)

lemma forward_mark: "status_rank (status_of r n) \<le> status_rank st \<Longrightarrow> forward r (mark_status n st r)"
  by (simp add: forward_def status_of_mark)

lemma forward_retire: "forward r (retire_others os r)"
proof (induction os arbitrary: r)
  case (Cons o' os)
  have "status_rank st \<le> status_rank Retired" for st by (cases st) simp_all
  then have "forward r (if status_of r o' \<noteq> NotInstalled then mark_status o' Retired r else r)"
    by (simp add: forward_refl forward_mark)
  then show ?case unfolding retire_others.simps by (rule forward_trans) (rule Cons.IH)
qed (simp add: forward_refl)

lemma retire_keeps_uninstalled: "status_of r n = NotInstalled \<Longrightarrow> status_of (retire_others os r) n = NotInstalled"
proof (induction os arbitrary: r)
  case (Cons o' os)
  have "status_of (if status_of r o' \<noteq> NotInstalled then mark_status o' Retired r else r) n = NotInstalled"
    using Cons.prems by (auto simp: status_of_mark)
  then show ?case unfolding retire_others.simps by (rule Cons.IH)
qed simp

lemma forward_install:
  "status_of r member = NotInstalled \<Longrightarrow> forward r (mark_status member Installed (retire_others os r))"
  by (rule forward_trans [OF forward_retire forward_mark]) (simp add: retire_keeps_uninstalled)

section \<open>The liveness of the application\<close>

definition observes_app :: "string set" where
  "observes_app = {''tap'', ''double_tap'', ''long_press'', ''type'', ''select'', ''clear'', ''delete'', ''copy_'',
     ''select_option'', ''set_picker_value'', ''swipe'', ''drag'', ''scroll'', ''pinch'', ''rotate'', ''wait'', ''assert_''}"

definition relaunch_kind :: string where "relaunch_kind = ''relaunch''"

record latches =
  la_deliberate :: bool
  la_unconfirmed :: bool
  la_signal :: "string option"

definition new_latches :: "bool \<Rightarrow> latches" where
  "new_latches unconfirmed = \<lparr>la_deliberate = False, la_unconfirmed = unconfirmed, la_signal = None\<rparr>"

definition track_launch :: "string \<Rightarrow> latches \<Rightarrow> latches" where
  "track_launch action l = (if action = relaunch_kind then l\<lparr>la_unconfirmed := True\<rparr>
     else if action \<in> observes_app then l\<lparr>la_unconfirmed := False\<rparr> else l)"

end
