(* ===== verification/Loop_State.thy ===== *)
theory Loop_State
  imports Roster Interrupts
begin

text \<open>
  What the step loop carries (\<open>step_loop_state.py\<close>, \<open>_step_counter.py\<close>, \<open>_loop_config.py\<close> of
  \<open>src/bajutsu/common/orchestrator/loop\<close>) and the helpers its handlers share (\<open>_step_runner.py\<close>): where
  a step runs, the pauses of a prompted run, and the end of an outcome.  The devices, the clock, the
  sinks and the pipeline are one world \<open>'w\<close> inside the loop's state; the Python objects of one step (its
  resolving reads, its gate, its interrupt guard, the lists its body fills) are the part \<open>ls_local\<close>,
  which every leaf step opens afresh and gives back.
\<close>

section \<open>Outcomes and state\<close>

record step_outcome =
  oc_index :: nat
  oc_action :: string
  oc_target :: string
  oc_ok :: bool
  oc_reason :: string
  oc_started :: real
  oc_duration :: real
  oc_results :: "assertion_result list"
  oc_artifacts :: "string list"
  oc_alerts :: "alert_event list"
  oc_actuations :: "actuation list"
  oc_dropped :: nat
  oc_tap :: "string option"
  oc_warnings :: "string list"
  oc_crashed :: bool
  oc_crash_files :: "string list"

definition new_outcome :: "nat \<Rightarrow> string \<Rightarrow> string \<Rightarrow> real \<Rightarrow> step_outcome" where
  "new_outcome idx kind target started = \<lparr>oc_index = idx, oc_action = kind, oc_target = target, oc_ok = True,
     oc_reason = [], oc_started = started, oc_duration = 0, oc_results = [], oc_artifacts = [], oc_alerts = [],
     oc_actuations = [], oc_dropped = 0, oc_tap = None, oc_warnings = [], oc_crashed = False, oc_crash_files = []\<rparr>"

record leaf_local =
  ll_reads :: reads
  ll_gate :: gate
  ll_guard :: guard
  ll_tips :: nat
  ll_alerts :: "alert_event list"
  ll_taps :: "string list"
  ll_warnings :: "string list"
  ll_reserved :: "alert_event list \<times> string list list"

definition new_local :: leaf_local where
  "new_local = \<lparr>ll_reads = no_reads, ll_gate = new_gate, ll_guard = new_guard, ll_tips = 0, ll_alerts = [],
     ll_taps = [], ll_warnings = [], ll_reserved = ([], [])\<rparr>"

record 'w ls =
  ls_world :: 'w
  ls_next :: nat
  ls_outcomes :: "step_outcome list"
  ls_bindings :: "(string, string) dict"
  ls_latches :: latches
  ls_selection :: bool
  ls_prev_after :: "element list option"
  ls_prev_shot :: "string option"
  ls_entry_checked :: bool
  ls_last_target :: string
  ls_reads :: nat
  ls_recovering :: bool
  ls_banner_at :: "real option"
  ls_roster :: "roster option"
  ls_failure_paused :: bool
  ls_runners :: "string list" \<comment> \<open>the keys of \<open>by_target\<close>\<close>
  ls_local :: leaf_local

definition lift :: "('w, 'a) prog \<Rightarrow> ('w ls, 'a) prog" where
  "lift m = on_part ls_world (\<lambda>w s. s\<lparr>ls_world := w\<rparr>) m"

definition scoped :: "('w ls, 'a) prog \<Rightarrow> ('w ls, 'a) prog" where
  "scoped m s = (case m (s\<lparr>ls_local := new_local\<rparr>) of (r, t) \<Rightarrow> (r, t\<lparr>ls_local := ls_local s\<rparr>))"

definition set_local :: "(leaf_local \<Rightarrow> leaf_local) \<Rightarrow> ('w ls, unit) prog" where
  "set_local f = modify (\<lambda>s. s\<lparr>ls_local := f (ls_local s)\<rparr>)"

definition take_index :: "('w ls, nat) prog" where
  "take_index = seq (gets ls_next) (\<lambda>i. seq (modify (\<lambda>s. s\<lparr>ls_next := i + 1\<rparr>)) (\<lambda>_. ret i))"

definition forget_screen :: "('w ls, unit) prog" where
  "forget_screen = modify (\<lambda>s. s\<lparr>ls_prev_after := None, ls_prev_shot := None\<rparr>)"

definition forget_tree :: "('w ls, unit) prog" where
  "forget_tree = modify (\<lambda>s. s\<lparr>ls_prev_after := None\<rparr>)"

definition count_read :: "('w ls, unit) prog" where
  "count_read = modify (\<lambda>s. s\<lparr>ls_reads := ls_reads s + 1\<rparr>)"

section \<open>What is fixed for a run\<close>

text \<open>The driver a step acts on, from its runner's side: its own, or the web view of a host.\<close>

datatype drv = Native | WebView string

record 'w sink =
  sk_null :: bool
  sk_capture :: "string \<Rightarrow> string list \<Rightarrow> string option \<Rightarrow> element list option \<Rightarrow> string \<Rightarrow> ('w, string list) prog"
  sk_start_after :: "string \<Rightarrow> ('w, unit) prog"
  sk_finish_after :: "('w, string list) prog"
  sk_is_shot :: "string \<Rightarrow> bool"
  sk_diagnostic :: "string \<Rightarrow> element list \<Rightarrow> ('w, string option) prog"

record 'w runner_cfg =
  rc_driver :: "'w driver"
  rc_web :: "(string \<Rightarrow> 'w driver) option" \<comment> \<open>over the web view bridge\<close>
  rc_wait :: "'w wait_env" \<comment> \<open>clock, network, transitions, cancellation\<close>
  rc_scroll :: "'w scroll_env"
  rc_relaunch :: "('w, unit) prog option"
  rc_control :: "(control_op \<Rightarrow> ('w, unit) prog) option"
  rc_produce :: "string \<Rightarrow> string \<Rightarrow> (string, string) dict \<Rightarrow> ('w, (string, string) dict) prog"
  rc_fetch :: "(real \<Rightarrow> ('w, message list) prog) option"
  rc_group :: "string \<Rightarrow> string \<Rightarrow> string option"
  rc_wall :: "('w, real) prog"
  rc_mocks :: "string \<Rightarrow> ('w, unit) prog"
  rc_clipboard :: "('w, string) prog option"
  rc_visual :: "('w, unit) prog"
  rc_context :: eval_context
  rc_guard :: "guard_config option"
  rc_resolving :: "drv \<Rightarrow> (resolve_mode \<Rightarrow> bool \<Rightarrow> ('w, resolving_read) prog) option"
  rc_answer :: "string list \<Rightarrow> ('w, drained) prog"
  rc_titles :: "('w, string list) prog option"
  rc_reserve :: "drv \<Rightarrow> string option \<Rightarrow> ('w, unit) prog option" \<comment> \<open>push the policy with the step's declared alert\<close>
  rc_push :: "drv \<Rightarrow> ('w, unit) prog" \<comment> \<open>push the guard's own policy\<close>
  rc_lag :: real
  rc_notes :: "drv \<Rightarrow> ('w, string list) prog"
  rc_interrupts :: "interrupt list"
  rc_sink :: "'w sink"
  rc_capture :: "string list"

record pause =
  pa_index :: nat
  pa_name :: "string option"
  pa_label :: string

record 'w loop_cfg =
  lc_runner :: "string \<Rightarrow> 'w runner_cfg"
  lc_activate :: "(string \<Rightarrow> ('w, unit) prog) option"
  lc_install :: "(string \<Rightarrow> string \<Rightarrow> bool \<Rightarrow> ('w, string list) prog) option"
  lc_groups :: "string list list"
  lc_before :: "(pause \<Rightarrow> ('w, bool) prog) option" \<comment> \<open>the step gate\<close>
  lc_after_failure :: "pause \<Rightarrow> string \<Rightarrow> ('w, unit) prog"
  lc_phase :: string
  lc_sid :: string
  lc_offset :: real
  lc_screen_changed :: bool
  lc_tips :: bool
  lc_policy :: "capture_rule list"
  lc_interp :: "(string, string) dict \<Rightarrow> scen_step \<Rightarrow> string + (leaf \<times> (string \<times> extraction) list)"
  lc_interp_assert :: "(string, string) dict \<Rightarrow> assertion \<Rightarrow> assertion"
  lc_interp_selector :: "(string, string) dict \<Rightarrow> selector \<Rightarrow> selector"
  lc_interp_text :: "(string, string) dict \<Rightarrow> string \<Rightarrow> string"
  lc_declared :: "scen_step \<Rightarrow> string option" \<comment> \<open>the prompt a \<open>handleSystemAlert\<close> step declares\<close>
  lc_title :: "scen_step \<Rightarrow> (string list \<Rightarrow> bool) option"
  lc_label :: "scen_step \<Rightarrow> string"
  lc_show_error :: "selector \<Rightarrow> selector_error \<Rightarrow> string"
  lc_fail_reason :: "assertion_result list \<Rightarrow> string"
  lc_drift_text :: "real \<times> real \<Rightarrow> string"
  lc_crash_files :: "('w, string list) prog option"
  lc_fuel :: nat

definition own_driver :: "'w loop_cfg \<Rightarrow> string \<Rightarrow> 'w ls driver" where
  "own_driver L r = lift_driver ls_world (\<lambda>w s. s\<lparr>ls_world := w\<rparr>) (rc_driver (lc_runner L r))"

definition active_driver :: "'w loop_cfg \<Rightarrow> string \<Rightarrow> drv \<Rightarrow> 'w ls driver" where
  "active_driver L r d = (case d of
     Native \<Rightarrow> own_driver L r
   | WebView h \<Rightarrow> (case rc_web (lc_runner L r) of
       None \<Rightarrow> own_driver L r
     | Some web \<Rightarrow> lift_driver ls_world (\<lambda>w s. s\<lparr>ls_world := w\<rparr>) (web h)))"

definition loop_wait :: "'w loop_cfg \<Rightarrow> string \<Rightarrow> drv \<Rightarrow> 'w ls wait_env" where
  "loop_wait L r d = (let E = rc_wait (lc_runner L r) in
     \<lparr>we_now = lift (we_now E), we_sleep = (\<lambda>x. lift (we_sleep E x)), we_query = dr_query (active_driver L r d),
      we_network = lift (we_network E), we_transitions = lift (we_transitions E), we_cancelled = lift (we_cancelled E),
      we_gate = None, we_stuck = ret [], we_blocked = ret [], we_poll = None, we_floor = we_floor E,
      we_search = we_search E, we_sel_text = we_sel_text E, we_request_text = we_request_text E,
      we_seconds_text = we_seconds_text E\<rparr>)"

definition loop_now :: "'w loop_cfg \<Rightarrow> string \<Rightarrow> ('w ls, real) prog" where
  "loop_now L r = lift (we_now (rc_wait (lc_runner L r)))"

definition duration :: "'w loop_cfg \<Rightarrow> string \<Rightarrow> real \<Rightarrow> ('w ls, real) prog" where
  "duration L r start = seq (loop_now L r) (\<lambda>t. ret (t - start))"

definition current_interrupts :: "'w loop_cfg \<Rightarrow> string \<Rightarrow> 'w ls \<Rightarrow> interrupt list" where
  "current_interrupts L r s = (case ls_roster s of
     None \<Rightarrow> rc_interrupts (lc_runner L r)
   | Some ro \<Rightarrow> interrupts_for ro r (rc_interrupts (lc_runner L r)))"

text \<open>\<open>EvalContext()\<close>; the checks of JSON texts are library functions.\<close>

definition bare_context :: "eval_context \<Rightarrow> eval_context" where
  "bare_context c = c\<lparr>ctx_schema := None, ctx_golden := None, ctx_visual := None, ctx_clipboard := None, ctx_attributes := []\<rparr>"

definition shares_device :: "'w loop_cfg \<Rightarrow> string \<Rightarrow> bool" where
  "shares_device L r \<longleftrightarrow> r \<noteq> [] \<and> list_ex (\<lambda>g. length g \<ge> 2 \<and> r \<in> set g) (lc_groups L)"

section \<open>The end of an outcome\<close>

definition drained_events :: "drained \<Rightarrow> alert_event list" where
  "drained_events d = map (\<lambda>l. \<lparr>ev_label = l, ev_banner = False\<rparr>) (dn_tapped d) @
     map (\<lambda>l. \<lparr>ev_label = l, ev_banner = True\<rparr>) (dn_banners d)"

definition drain_interruptions :: "'s driver \<Rightarrow> ('s, alert_event list \<times> string list list) prog" where
  "drain_interruptions d = (case dr_interruptions d of
     None \<Rightarrow> ret ([], [])
   | Some m \<Rightarrow> seq m (\<lambda>x. ret (drained_events x, dn_declined x)))"

definition drain_actuations :: "'s driver \<Rightarrow> real \<Rightarrow> ('s, actuation list \<times> nat) prog" where
  "drain_actuations d offset = (case dr_actuations d of
     None \<Rightarrow> ret ([], 0)
   | Some m \<Rightarrow> seq m (\<lambda>(records, dropped).
       ret (map (\<lambda>a. a\<lparr>ac_at := map_option (\<lambda>t. t + offset) (ac_at a)\<rparr>) records, dropped)))"

definition joined_reason :: "string \<Rightarrow> string \<Rightarrow> string" where
  "joined_reason reason note = (if reason = [] then note else reason @ dash @ note)"

definition with_drained :: "alert_event list \<times> string list list \<Rightarrow> step_outcome \<Rightarrow> step_outcome" where
  "with_drained x oc = (let (alerts, undeclared) = x; oc = oc\<lparr>oc_alerts := oc_alerts oc @ alerts\<rparr> in
     if undeclared = [] then oc
     else oc\<lparr>oc_ok := False, oc_reason := joined_reason (oc_reason oc) (undeclared_note undeclared)\<rparr>)"

definition drain_step_interruptions :: "'s driver \<Rightarrow> step_outcome \<Rightarrow> ('s, step_outcome) prog" where
  "drain_step_interruptions d oc = seq (drain_interruptions d) (\<lambda>x. ret (with_drained x oc))"

definition mentions :: "string \<Rightarrow> string \<Rightarrow> bool" where
  "mentions part whole = list_ex (\<lambda>i. take (length part) (drop i whole) = part) [0..<length whole + 1]"

definition with_crash_note :: "string \<Rightarrow> string \<Rightarrow> string" where
  "with_crash_note reason signal = joined_reason reason (''the app under test crashed: '' @ signal)"

definition probe_app_crash :: "'s driver \<Rightarrow> ('s, string option) prog" where
  "probe_app_crash d = (case dr_crash_signal d of
     None \<Rightarrow> ret None
   | Some m \<Rightarrow> catching (\<lambda>e. \<not> is_crash e) m (\<lambda>e. ret None))"

definition set_latches :: "(latches \<Rightarrow> latches) \<Rightarrow> ('w ls, unit) prog" where
  "set_latches f = modify (\<lambda>s. s\<lparr>ls_latches := f (ls_latches s)\<rparr>)"

definition confirm_crash :: "'w loop_cfg \<Rightarrow> string \<Rightarrow> step_outcome \<Rightarrow> ('w ls, step_outcome) prog" where
  "confirm_crash L signal oc = seq (set_latches (\<lambda>l. l\<lparr>la_signal := Some signal\<rparr>)) (\<lambda>_.
     seq (case lc_crash_files L of None \<Rightarrow> ret [] | Some m \<Rightarrow> lift m) (\<lambda>files.
       ret (oc\<lparr>oc_reason := with_crash_note (oc_reason oc) signal, oc_crashed := True, oc_crash_files := files\<rparr>)))"

definition classify_app_crash :: "'w loop_cfg \<Rightarrow> string \<Rightarrow> drv \<Rightarrow> step_outcome \<Rightarrow> ('w ls, step_outcome) prog" where
  "classify_app_crash L r d oc =
     (if oc_ok oc then seq (set_latches (track_launch (oc_action oc))) (\<lambda>_. ret oc)
      else if oc_action oc = relaunch_kind then seq (set_latches (\<lambda>l. l\<lparr>la_deliberate := True\<rparr>)) (\<lambda>_. ret oc)
      else seq (gets ls_latches) (\<lambda>l. case la_signal l of
        Some signal \<Rightarrow> ret (if mentions signal (oc_reason oc) then oc
            else oc\<lparr>oc_reason := with_crash_note (oc_reason oc) signal\<rparr>)
      | None \<Rightarrow> if la_deliberate l \<or> la_unconfirmed l then ret oc
          else seq (probe_app_crash (active_driver L r d)) (\<lambda>p. case p of
            None \<Rightarrow> ret oc
          | Some signal \<Rightarrow> confirm_crash L signal oc)))"

definition append_outcome :: "step_outcome \<Rightarrow> ('w ls, unit) prog" where
  "append_outcome oc = modify (\<lambda>s. s\<lparr>ls_outcomes := ls_outcomes s @ [oc]\<rparr>)"

definition finish_outcome :: "'w loop_cfg \<Rightarrow> string \<Rightarrow> drv \<Rightarrow> step_outcome \<Rightarrow> ('w ls, step_outcome) prog" where
  "finish_outcome L r d oc = seq (classify_app_crash L r d oc) (\<lambda>oc. seq (append_outcome oc) (\<lambda>_. ret oc))"

definition step_failure :: "nat \<Rightarrow> string \<Rightarrow> step_outcome \<Rightarrow> string option" where
  "step_failure idx kind oc = (if oc_ok oc then None
     else Some (''step '' @ show_nat idx @ '' ('' @ kind @ ''): '' @ oc_reason oc))"

text \<open>The close of every composite step: its duration, its interruptions, its outcome.\<close>

definition close_step :: "'w loop_cfg \<Rightarrow> string \<Rightarrow> drv \<Rightarrow> nat \<Rightarrow> real \<Rightarrow> step_outcome \<Rightarrow> bool \<times> string \<Rightarrow> ('w ls, string option) prog" where
  "close_step L r d idx start oc out = seq (duration L r start) (\<lambda>t.
     seq (drain_step_interruptions (active_driver L r d) (oc\<lparr>oc_ok := fst out, oc_reason := snd out, oc_duration := t\<rparr>)) (\<lambda>oc.
       seq (finish_outcome L r d oc) (\<lambda>oc. ret (step_failure idx (oc_action oc) oc))))"

section \<open>Where a step runs\<close>

definition set_roster :: "(roster \<Rightarrow> roster) \<Rightarrow> ('w ls, unit) prog" where
  "set_roster f = modify (\<lambda>s. s\<lparr>ls_roster := map_option f (ls_roster s)\<rparr>)"

fun stops_run :: "exn \<Rightarrow> bool" where
  "stops_run RunCancelled = True" | "stops_run (BackendCrash m) = True" | "stops_run _ = False"

text \<open>\<open>Some\<close> is why the target could not start.\<close>

definition bring_up :: "'w loop_cfg \<Rightarrow> string \<Rightarrow> ('w ls, string option) prog" where
  "bring_up L target = (case lc_activate L of
     None \<Rightarrow> raise (OtherError (''target '' @ target @ '' has no way to start: no activation was wired''))
   | Some start_up \<Rightarrow> seq (catching (\<lambda>e. \<not> stops_run e) (seq (lift (start_up target)) (\<lambda>_. ret None))
         (\<lambda>e. ret (Some (''target '' @ target @ '' could not start: '' @ exn_text e)))) (\<lambda>problem.
       seq (only_if (problem = None) (seq (modify (\<lambda>s. s\<lparr>ls_runners := target # ls_runners s\<rparr>)) (\<lambda>_.
         set_roster (mark_status target Running)))) (\<lambda>_. ret problem)))"

definition look_away :: "string \<Rightarrow> ('w ls, unit) prog" where
  "look_away target = seq (gets ls_last_target) (\<lambda>l.
     only_if (l \<noteq> target) (seq forget_screen (\<lambda>_. modify (\<lambda>s. s\<lparr>ls_last_target := target\<rparr>))))"

text \<open>The runner among those alive, once the target may take the step.\<close>

definition route_alive :: "string \<Rightarrow> drv \<Rightarrow> string \<Rightarrow> ('w ls, string \<times> drv) prog" where
  "route_alive r d target = seq (gets ls_runners) (\<lambda>alive.
     if target \<noteq> [] \<and> alive \<noteq> []
     then (if target \<notin> set alive then raise (OtherError (''step target '' @ target @ '' has no live runtime''))
           else seq (look_away target) (\<lambda>_. ret (if target \<noteq> r then (target, Native) else (r, d))))
     else seq (only_if (alive \<noteq> []) (look_away r)) (\<lambda>_. ret (r, d)))"

definition route :: "'w loop_cfg \<Rightarrow> string \<Rightarrow> drv \<Rightarrow> scen_step \<Rightarrow> ('w ls, string + (string \<times> drv)) prog" where
  "route L r d st = (let target = st_target st in
     seq (gets ls_roster) (\<lambda>ro. seq (gets ls_runners) (\<lambda>alive.
       case ro of
         Some ro \<Rightarrow>
           if target = [] then seq (route_alive r d target) (\<lambda>x. ret (Inr x))
           else (case unavailable ro target (action_of st) of
             Some problem \<Rightarrow> ret (Inl problem)
           | None \<Rightarrow>
             if target \<notin> set alive \<and> action_of st = ''install_app'' then ret (Inr (r, d))
             else seq (if target \<notin> set alive \<and> status_of ro target = Installed then bring_up L target else ret None) (\<lambda>problem.
               case problem of Some m \<Rightarrow> ret (Inl m) | None \<Rightarrow> seq (route_alive r d target) (\<lambda>x. ret (Inr x))))
       | None \<Rightarrow> seq (route_alive r d target) (\<lambda>x. ret (Inr x)))))"

definition fail_unrouted :: "string \<Rightarrow> scen_step \<Rightarrow> string \<Rightarrow> ('w ls, string option) prog" where
  "fail_unrouted r st reason = seq take_index (\<lambda>idx.
     seq (append_outcome ((new_outcome idx (action_of st) (if st_target st = [] then r else st_target st) 0)
       \<lparr>oc_ok := False, oc_reason := reason\<rparr>)) (\<lambda>_. ret (Some reason)))"

section \<open>Pauses of a prompted run\<close>

definition gate_of :: "'w loop_cfg \<Rightarrow> 'w ls \<Rightarrow> (pause \<Rightarrow> ('w, bool) prog) option" where
  "gate_of L s = (if lc_phase L \<noteq> [] \<or> ls_recovering s then None else lc_before L)"

definition pause_before :: "'w loop_cfg \<Rightarrow> scen_step \<Rightarrow> ('w ls, pause option) prog" where
  "pause_before L st = seq (gets (gate_of L)) (\<lambda>g. case g of
     None \<Rightarrow> ret None
   | Some before \<Rightarrow> seq (gets ls_next) (\<lambda>i.
       let p = \<lparr>pa_index = i, pa_name = st_name st, pa_label = lc_label L st\<rparr> in
       seq (lift (before p)) (\<lambda>acted. seq (only_if acted forget_screen) (\<lambda>_. ret (Some p)))))"

definition pause_after_failure :: "'w loop_cfg \<Rightarrow> pause option \<Rightarrow> string \<Rightarrow> ('w ls, unit) prog" where
  "pause_after_failure L p failure = seq (gets (gate_of L)) (\<lambda>g. seq (gets ls_failure_paused) (\<lambda>paused.
     case p of
       Some p \<Rightarrow> only_if (g \<noteq> None \<and> \<not> paused) (seq (modify (\<lambda>s. s\<lparr>ls_failure_paused := True\<rparr>)) (\<lambda>_.
           lift (lc_after_failure L p failure)))
     | None \<Rightarrow> ret ()))"

end
