(* ===== verification/Leaf_Step.thy ===== *)
theory Leaf_Step
  imports Loop_State
begin

text \<open>
  One leaf step of the loop (\<open>_handle_action\<close> of
  \<open>src/bajutsu/common/orchestrator/loop/_step_runner.py\<close>), in its own order: the baseline screenshot, the
  tree before the step, the check that its application is in front, the interrupt guard, the entry
  alert, the body with its retries after a tip and an answered alert, what interrupted it, the banner
  sweep, the read after it with the extraction, the captures and the outcome.  Left out is what decides
  nothing: progress lines, tracing, and the evidence fields \<open>generated\<close> and the \<open>eval\<close> record.
\<close>

section \<open>The environments of a body\<close>

definition resolving_for :: "'w loop_cfg \<Rightarrow> string \<Rightarrow> drv \<Rightarrow> (resolve_mode \<Rightarrow> bool \<Rightarrow> ('w, resolving_read) prog) option" where
  "resolving_for L r d = (if rc_guard (lc_runner L r) = None then None else rc_resolving (lc_runner L r) d)"

definition step_alerts :: "'w loop_cfg \<Rightarrow> string \<Rightarrow> drv \<Rightarrow> 'w ls alert_env" where
  "step_alerts L r d = (let R = lc_runner L r in
     \<lparr>av_wait = loop_wait L r d, av_driver = active_driver L r d, av_titles = map_option lift (rc_titles R),
      av_read = map_option (\<lambda>q mode force. lift (q mode force)) (resolving_for L r d),
      av_answer = (\<lambda>bs. lift (rc_answer R bs)), av_guard = rc_guard R,
      av_reads = (\<lambda>s. ll_reads (ls_local s)),
      av_put_reads = (\<lambda>x s. s\<lparr>ls_local := (ls_local s)\<lparr>ll_reads := x\<rparr>\<rparr>),
      av_gate = (\<lambda>s. ll_gate (ls_local s)),
      av_put_gate = (\<lambda>x s. s\<lparr>ls_local := (ls_local s)\<lparr>ll_gate := x\<rparr>\<rparr>),
      av_event = Some (\<lambda>e. set_local (\<lambda>l. l\<lparr>ll_alerts := ll_alerts l @ [e]\<rparr>)),
      av_tapped = (\<lambda>t. set_local (\<lambda>l. l\<lparr>ll_taps := ll_taps l @ [t]\<rparr>))\<rparr>)"

text \<open>A retry of the body runs without the gate and without the list of alerts.\<close>

definition retry_env :: "'s alert_env \<Rightarrow> 's alert_env" where
  "retry_env V = V\<lparr>av_guard := None, av_event := None\<rparr>"

definition bind_var :: "string \<Rightarrow> string \<Rightarrow> ('w ls, unit) prog" where
  "bind_var name v = modify (\<lambda>s. s\<lparr>ls_bindings := dict_put (''vars.'' @ name) v (ls_bindings s)\<rparr>)"

definition action_env :: "'w loop_cfg \<Rightarrow> string \<Rightarrow> 'w ls driver \<Rightarrow> 'w ls act_env" where
  "action_env L r d = (let R = lc_runner L r; E = rc_scroll R in
     \<lparr>ae_scroll = \<lparr>se_driver = d, se_now = lift (se_now E), se_sleep = (\<lambda>x. lift (se_sleep E x)),
        se_capture = lift (se_capture E), se_hash = se_hash E, se_lag = se_lag E, se_search = se_search E, se_text = se_text E\<rparr>,
      ae_relaunch = map_option lift (rc_relaunch R),
      ae_control = map_option (\<lambda>f op. lift (f op)) (rc_control R),
      ae_produce = (\<lambda>what args. seq (gets ls_bindings) (\<lambda>b. seq (lift (rc_produce R what args b)) (\<lambda>b.
        modify (\<lambda>s. s\<lparr>ls_bindings := b\<rparr>))))\<rparr>)"

definition on_selection :: "(bool \<Rightarrow> ('w ls, bool) prog) \<Rightarrow> ('w ls, unit) prog" where
  "on_selection m = seq (gets ls_selection) (\<lambda>sel. seq (m sel) (\<lambda>sel. modify (\<lambda>s. s\<lparr>ls_selection := sel\<rparr>)))"

text \<open>\<open>_action_driver\<close>: the driver an action resolves on.\<close>

definition action_driver :: "'w loop_cfg \<Rightarrow> string \<Rightarrow> drv \<Rightarrow> 'w ls alert_env \<Rightarrow> 'w ls driver" where
  "action_driver L r d V = (if av_read V = None then active_driver L r d
     else (active_driver L r d)\<lparr>dr_query := read_view V FullRead True,
       dr_settled := map_option (\<lambda>_. read_view V FullRead True) (dr_settled (active_driver L r d))\<rparr>)"

definition body_env_of :: "'w loop_cfg \<Rightarrow> string \<Rightarrow> drv \<Rightarrow> scen_step \<Rightarrow> 'w ls alert_env
    \<Rightarrow> (element list \<Rightarrow> ('w ls, bool) prog) option \<Rightarrow> 'w ls body_env" where
  "body_env_of L r d st V poll = (let R = lc_runner L r in
     \<lparr>bo_wait = (gated_wait V)\<lparr>we_poll := poll\<rparr>, bo_driver = active_driver L r d,
      bo_do = (\<lambda>n a. on_selection (do_action (action_env L r (action_driver L r d V)) n a)),
      bo_unselect = modify (\<lambda>s. s\<lparr>ls_selection := False\<rparr>),
      bo_mail = \<lparr>ml_fetch = map_option (\<lambda>f x. lift (f x)) (rc_fetch R), ml_group = rc_group R, ml_bind = bind_var\<rparr>,
      bo_wall = lift (rc_wall R), bo_open = open_gate V,
      bo_alert = (\<lambda>a timeout. wait_for_system_alert V a timeout (lc_title L st) (lc_fuel L)),
      bo_mocks = (\<lambda>m. lift (rc_mocks R m)), bo_clipboard = map_option lift (rc_clipboard R),
      bo_visual = lift (rc_visual R), bo_context = rc_context R,
      bo_warn = (\<lambda>x. set_local (\<lambda>l. l\<lparr>ll_warnings := ll_warnings l @ [lc_drift_text L x]\<rparr>))\<rparr>)"

definition refused :: "('w ls, unit) prog" where
  "refused = set_local (\<lambda>l. l\<lparr>ll_reads := (ll_reads l)\<lparr>rs_refused := True\<rparr>\<rparr>)"

definition start_body :: "('w ls, unit) prog" where
  "start_body = set_local (\<lambda>l. l\<lparr>ll_reads := no_reads\<rparr>)"

section \<open>Before the step\<close>

definition screen_actions :: "string set" where
  "screen_actions = {''tap'', ''tap_point'', ''double_tap'', ''long_press'', ''type'', ''select'', ''clear'', ''delete'',
     ''copy_'', ''select_option'', ''select_photos'', ''set_picker_value'', ''swipe'', ''drag'', ''scroll'', ''back'',
     ''navigate'', ''pinch'', ''rotate''}"

definition unresolved_actions :: "string set" where
  "unresolved_actions = {''tap_point'', ''type'', ''copy_'', ''swipe'', ''back'', ''navigate''}"

fun is_not_front :: "exn \<Rightarrow> bool" where
  "is_not_front (NotInFront m) = True" | "is_not_front _ = False"

definition seed_refusal :: "exn \<Rightarrow> bool" where
  "seed_refusal e \<longleftrightarrow> is_os_error e \<or> is_unsupported e"

definition seed_prev_after :: "'w loop_cfg \<Rightarrow> string \<Rightarrow> drv \<Rightarrow> ('w ls, bool) prog" where
  "seed_prev_after L r d = catching seed_refusal
     (seq (dr_query (active_driver L r d)) (\<lambda>t. seq (modify (\<lambda>s. s\<lparr>ls_prev_after := Some t\<rparr>)) (\<lambda>_.
       seq count_read (\<lambda>_. ret True))))
     (\<lambda>e. ret False)"

definition capture :: "'w loop_cfg \<Rightarrow> string \<Rightarrow> string \<Rightarrow> string list \<Rightarrow> string option \<Rightarrow> element list option \<Rightarrow> string
    \<Rightarrow> ('w ls, string list) prog" where
  "capture L r step_id tokens reuse els source = lift (sk_capture (rc_sink (lc_runner L r)) step_id tokens reuse els source)"

text \<open>The baseline screenshot: the last step's image, unless something may have come up since.\<close>

definition baseline :: "'w loop_cfg \<Rightarrow> string \<Rightarrow> string \<Rightarrow> string \<Rightarrow> step_outcome \<Rightarrow> ('w ls, step_outcome) prog" where
  "baseline L r step_id kind oc = seq (gets (\<lambda>s.
       if ls_recovering s \<or> kind = ''handle_system_alert'' \<or> current_interrupts L r s \<noteq> [] \<or> rc_guard (lc_runner L r) \<noteq> None
       then None else ls_prev_shot s)) (\<lambda>reuse.
     seq (capture L r step_id [''screenshot.before''] reuse None []) (\<lambda>arts.
       ret (oc\<lparr>oc_artifacts := oc_artifacts oc @ arts\<rparr>)))"

record pre =
  pe_before :: "element list option"
  pe_fresh :: bool
  pe_front :: "string option" \<comment> \<open>\<open>front_failure\<close>\<close>
  pe_tree :: "element list option" \<comment> \<open>\<open>front_tree\<close>\<close>

definition before_read :: "'w loop_cfg \<Rightarrow> string \<Rightarrow> drv \<Rightarrow> string \<Rightarrow> bool \<Rightarrow> ('w ls, pre) prog" where
  "before_read L r d kind seeded =
     (if \<not> lc_screen_changed L then ret \<lparr>pe_before = None, pe_fresh = False, pe_front = None, pe_tree = None\<rparr>
      else seq (gets ls_prev_after) (\<lambda>p. case p of
        Some t \<Rightarrow> ret \<lparr>pe_before = Some t, pe_fresh = seeded, pe_front = None, pe_tree = None\<rparr>
      | None \<Rightarrow> catching is_not_front
          (seq (dr_query (active_driver L r d)) (\<lambda>t. seq count_read (\<lambda>_.
             ret \<lparr>pe_before = Some t, pe_fresh = True, pe_front = None, pe_tree = None\<rparr>)))
          (\<lambda>e. ret \<lparr>pe_before = None, pe_fresh = False,
             pe_front = (if kind \<in> screen_actions then Some (exn_text e) else None), pe_tree = None\<rparr>)))"

definition front_read :: "'w loop_cfg \<Rightarrow> string \<Rightarrow> drv \<Rightarrow> string \<Rightarrow> pre \<Rightarrow> ('w ls, pre) prog" where
  "front_read L r d kind p =
     (if pe_front p = None \<and> \<not> pe_fresh p \<and> kind \<in> unresolved_actions \<and> d = Native \<and> shares_device L r
      then catching is_not_front
        (seq (dr_query (active_driver L r d)) (\<lambda>t. seq count_read (\<lambda>_.
           ret (if pe_before p = None then p\<lparr>pe_tree := Some t\<rparr>
                else p\<lparr>pe_before := Some t, pe_fresh := True, pe_tree := Some t\<rparr>))))
        (\<lambda>e. ret (p\<lparr>pe_before := None, pe_front := Some (exn_text e)\<rparr>))
      else ret p)"

section \<open>The interrupt guard of the step\<close>

type_synonym 'w rec = "string \<Rightarrow> drv \<Rightarrow> scen_step list \<Rightarrow> ('w ls, string option) prog"

definition step_guard :: "'w loop_cfg \<Rightarrow> 'w rec \<Rightarrow> string \<Rightarrow> drv \<Rightarrow> interrupt list \<Rightarrow> (string, string) dict \<Rightarrow> 'w ls guard_env" where
  "step_guard L rec r d ints b = \<lparr>ge_driver = active_driver L r d, ge_search = we_search (rc_wait (lc_runner L r)),
     ge_network = lift (we_network (rc_wait (lc_runner L r))), ge_context = bare_context (rc_context (lc_runner L r)),
     ge_conditions = map (\<lambda>e. lc_interp_assert L b (in_condition e)) ints,
     ge_recover = (\<lambda>i. rec r d (in_steps (ints ! i))),
     ge_get = (\<lambda>s. ll_guard (ls_local s)), ge_put = (\<lambda>g s. s\<lparr>ls_local := (ls_local s)\<lparr>ll_guard := g\<rparr>\<rparr>)\<rparr>"

definition make_guard :: "'w loop_cfg \<Rightarrow> 'w rec \<Rightarrow> string \<Rightarrow> drv \<Rightarrow> ('w ls, 'w ls guard_env option) prog" where
  "make_guard L rec r d = gets (\<lambda>s. let ints = current_interrupts L r s in
     if ints \<noteq> [] \<and> \<not> ls_recovering s then Some (step_guard L rec r d ints (ls_bindings s)) else None)"

definition local_failure :: "('w ls, string option) prog" where
  "local_failure = gets (\<lambda>s. gu_failure (ll_guard (ls_local s)))"

definition guard_clear :: "'w loop_cfg \<Rightarrow> string \<Rightarrow> drv \<Rightarrow> string \<Rightarrow> 'w ls guard_env option \<Rightarrow> pre \<Rightarrow> ('w ls, pre) prog" where
  "guard_clear L r d kind guard p = (case guard of
     None \<Rightarrow> ret p
   | Some G \<Rightarrow>
     if kind = ''wait'' \<or> kind = ''sleep'' \<or> pe_front p \<noteq> None then ret p
     else if pe_before p \<noteq> None \<and> pe_fresh p
     then seq (clear_before_act G (the (pe_before p)) (lc_fuel L)) (\<lambda>t. ret (p\<lparr>pe_before := Some t\<rparr>))
     else case pe_tree p of
       Some t \<Rightarrow> seq (clear_before_act G t (lc_fuel L)) (\<lambda>_. ret p)
     | None \<Rightarrow> catching is_not_front
         (seq (dr_query (active_driver L r d)) (\<lambda>t. seq (clear_before_act G t (lc_fuel L)) (\<lambda>t.
            seq count_read (\<lambda>_. ret (if pe_before p = None then p else p\<lparr>pe_before := Some t\<rparr>)))))
         (\<lambda>e. ret (p\<lparr>pe_before := None\<rparr>)))"

section \<open>The alert on entry\<close>

definition settle :: "'w loop_cfg \<Rightarrow> string \<Rightarrow> drv \<Rightarrow> ('w ls, unit) prog" where
  "settle L r d = settle_after_alert_dismiss (loop_wait L r d) (lc_fuel L)"

definition clear_entry_alert :: "'w loop_cfg \<Rightarrow> string \<Rightarrow> drv \<Rightarrow> string \<Rightarrow> ('w ls, unit) prog" where
  "clear_entry_alert L r d kind = (case (rc_guard (lc_runner L r), resolving_for L r d) of
     (Some c, Some q) \<Rightarrow> only_if (native_rules c \<noteq> [] \<and> kind \<noteq> ''handle_system_alert'')
       (seq (lift (q FullRead True)) (\<lambda>x. only_if (dn_tapped (rd_drained x) \<noteq> []) (settle L r d)))
   | _ \<Rightarrow> ret ())"

definition entry_check :: "'w loop_cfg \<Rightarrow> string \<Rightarrow> drv \<Rightarrow> string \<Rightarrow> pre \<Rightarrow> ('w ls, unit) prog" where
  "entry_check L r d kind p = seq (gets ls_entry_checked) (\<lambda>done_before. only_if (\<not> done_before)
     (seq (modify (\<lambda>s. s\<lparr>ls_entry_checked := True\<rparr>)) (\<lambda>_. only_if (pe_front p = None) (clear_entry_alert L r d kind))))"


section \<open>The body and its retries\<close>

text \<open>A declared alert's rule is pushed for the time of the body, and what was drained is kept.\<close>

definition keep_reserved :: "'s driver \<Rightarrow> ('s \<Rightarrow> (leaf_local \<Rightarrow> leaf_local) \<Rightarrow> 's) \<Rightarrow> ('s, unit) prog" where
  "keep_reserved d upd = seq (drain_interruptions d) (\<lambda>(alerts, undeclared).
     modify (\<lambda>s. upd s (\<lambda>l. l\<lparr>ll_reserved := (fst (ll_reserved l) @ alerts, snd (ll_reserved l) @ undeclared)\<rparr>)))"

definition drain_reserved :: "'w loop_cfg \<Rightarrow> string \<Rightarrow> drv \<Rightarrow> ('w ls, unit) prog" where
  "drain_reserved L r d = keep_reserved (active_driver L r d) (\<lambda>s f. s\<lparr>ls_local := f (ls_local s)\<rparr>)"

definition reserve_declared :: "'w loop_cfg \<Rightarrow> string \<Rightarrow> drv \<Rightarrow> scen_step \<Rightarrow> ('w ls, bool) prog" where
  "reserve_declared L r d st = (case rc_reserve (lc_runner L r) d (lc_declared L st) of
     None \<Rightarrow> ret False
   | Some push \<Rightarrow> seq (drain_reserved L r d) (\<lambda>_. seq (lift push) (\<lambda>_. ret True)))"

definition release_reserved :: "'w loop_cfg \<Rightarrow> string \<Rightarrow> drv \<Rightarrow> ('w ls, unit) prog" where
  "release_reserved L r d = seq (drain_reserved L r d) (\<lambda>_. lift (rc_push (lc_runner L r) d))"

definition failed_with :: "body_out \<Rightarrow> string \<Rightarrow> body_out" where
  "failed_with o' m = o'\<lparr>bd_ok := False, bd_reason := m\<rparr>"

text \<open>A recovery that failed is the step's failure, whatever its body says.\<close>

definition guard_verdict :: "body_out \<Rightarrow> ('w ls, body_out) prog" where
  "guard_verdict o' = seq local_failure (\<lambda>f. ret (case f of None \<Rightarrow> o' | Some m \<Rightarrow> failed_with o' m))"

definition tip_refusal :: "exn \<Rightarrow> bool" where
  "tip_refusal e \<longleftrightarrow> is_selector_error e \<or> is_not_tappable e"

text \<open>The dismissal of a tip that may have caused a failure: the body's new result, whether a tip was
  cleared, and whether the guard has nothing more to do.\<close>

definition try_tip :: "'w loop_cfg \<Rightarrow> string \<Rightarrow> drv \<Rightarrow> bool \<Rightarrow> body_out \<Rightarrow> ('w ls, body_out \<times> bool \<times> bool) prog" where
  "try_tip L r d guard_done o' = (if bd_ok o' then ret (o', False, guard_done)
     else catching tip_refusal
       (seq (dismiss_blocking_tip (lc_tips L) (active_driver L r d)) (\<lambda>c. ret (o', c, guard_done)))
       (\<lambda>e. ret (failed_with o' (exn_text e), False, True)))"

definition rerun_body :: "'w loop_cfg \<Rightarrow> string \<Rightarrow> drv \<Rightarrow> scen_step \<Rightarrow> (element list \<Rightarrow> ('w ls, bool) prog) option \<Rightarrow> leaf
    \<Rightarrow> ('w ls, body_out) prog" where
  "rerun_body L r d st poll l = seq start_body (\<lambda>_.
     run_step_body (body_env_of L r d st (retry_env (step_alerts L r d)) poll) (lc_fail_reason L) refused (lc_fuel L) l)"

definition by_position :: "leaf \<Rightarrow> bool" where
  "by_position l = (case l of LAlert (ByRole k n) timeout \<Rightarrow> True | _ \<Rightarrow> False)"

definition by_selector :: "leaf \<Rightarrow> bool" where
  "by_selector l = (case l of LAlert (BySelector sel) timeout \<Rightarrow> True | _ \<Rightarrow> False)"

definition is_assert :: "leaf \<Rightarrow> bool" where
  "is_assert l = (case l of LAssert as \<Rightarrow> True | _ \<Rightarrow> False)"

text \<open>The recovery read after a refused or failed body, and the retry when it answered something.\<close>

definition recover_alert :: "'w loop_cfg \<Rightarrow> string \<Rightarrow> drv \<Rightarrow> scen_step \<Rightarrow> (element list \<Rightarrow> ('w ls, bool) prog) option \<Rightarrow> leaf
    \<Rightarrow> (resolve_mode \<Rightarrow> bool \<Rightarrow> ('w, resolving_read) prog) \<Rightarrow> body_out \<Rightarrow> ('w ls, body_out) prog" where
  "recover_alert L r d st poll l q o' = seq (gets (\<lambda>s. ll_reads (ls_local s))) (\<lambda>x.
     if \<not> (is_assert l \<or> by_position l \<or> rs_refused x) then ret o'
     else seq (lift (q FullRead True)) (\<lambda>recovery.
       seq (set_local (\<lambda>ll. ll\<lparr>ll_reads := keep_read False recovery (ll_reads ll)\<rparr>)) (\<lambda>_.
       seq (take_reads (step_alerts L r d)) (\<lambda>body.
       let note = reads_note body recovery in
       seq (if dn_tapped (rd_drained recovery) \<noteq> [] \<or> rd_withheld recovery \<or> rs_answered x
            then seq (settle L r d) (\<lambda>_. rerun_body L r d st poll l)
            else ret o') (\<lambda>o'.
         ret (if \<not> bd_ok o' \<and> note \<noteq> [] \<and> \<not> mentions note (bd_reason o')
              then o'\<lparr>bd_reason := bd_reason o' @ dash @ note\<rparr> else o'))))))"

definition body_retries :: "'w loop_cfg \<Rightarrow> string \<Rightarrow> drv \<Rightarrow> scen_step \<Rightarrow> (element list \<Rightarrow> ('w ls, bool) prog) option \<Rightarrow> leaf
    \<Rightarrow> body_out \<Rightarrow> ('w ls, body_out) prog" where
  "body_retries L r d st poll l o' = seq (try_tip L r d (by_selector l) o') (\<lambda>(o', cleared, guard_done).
     seq (if cleared then rerun_body L r d st poll l else ret o') (\<lambda>o'. seq local_failure (\<lambda>f.
       case f of
         Some m \<Rightarrow> ret (failed_with o' m)
       | None \<Rightarrow> if bd_ok o' \<or> guard_done then ret o'
           else (case resolving_for L r d of None \<Rightarrow> ret o' | Some q \<Rightarrow> recover_alert L r d st poll l q o'))))"

definition guarded_body :: "'w loop_cfg \<Rightarrow> string \<Rightarrow> drv \<Rightarrow> scen_step \<Rightarrow> (element list \<Rightarrow> ('w ls, bool) prog) option \<Rightarrow> leaf
    \<Rightarrow> ('w ls, body_out) prog" where
  "guarded_body L r d st poll l = seq start_body (\<lambda>_.
     seq (run_step_body (body_env_of L r d st (step_alerts L r d) poll) (lc_fail_reason L) refused (lc_fuel L) l) (\<lambda>o'.
     seq local_failure (\<lambda>f. seq (case f of
         Some m \<Rightarrow> ret (failed_with o' m)
       | None \<Rightarrow> body_retries L r d st poll l o') guard_verdict)))"

definition body_phase :: "'w loop_cfg \<Rightarrow> string \<Rightarrow> drv \<Rightarrow> scen_step \<Rightarrow> 'w ls guard_env option \<Rightarrow> pre \<Rightarrow> leaf
    \<Rightarrow> ('w ls, body_out) prog" where
  "body_phase L r d st guard p l = seq local_failure (\<lambda>f.
     case (pe_front p, f) of
       (Some m, _) \<Rightarrow> ret (body_result False m [] None)
     | (None, Some m) \<Rightarrow> ret (body_result False m [] None)
     | (None, None) \<Rightarrow>
       (let poll = tip_poll_hook (lc_tips L) (active_driver L r d) (\<lambda>s. ll_tips (ls_local s))
              (\<lambda>s. s\<lparr>ls_local := (ls_local s)\<lparr>ll_tips := ll_tips (ls_local s) + 1\<rparr>\<rparr>) (map_option guard_observe guard) in
        seq (reserve_declared L r d st) (\<lambda>pushed.
          if pushed then finally_do (guarded_body L r d st poll l) (release_reserved L r d)
          else guarded_body L r d st poll l)))"

section \<open>After the body\<close>

definition with_body :: "body_out \<Rightarrow> real \<Rightarrow> step_outcome \<Rightarrow> step_outcome" where
  "with_body o' t oc = oc\<lparr>oc_ok := bd_ok o', oc_reason := bd_reason o', oc_results := bd_results o', oc_duration := t\<rparr>"

definition sweep :: "'w loop_cfg \<Rightarrow> string \<Rightarrow> ('w ls, unit) prog" where
  "sweep L r = seq (gets ls_banner_at) (\<lambda>l.
     sweep_notification_banner (loop_wait L r Native) (own_driver L r) (map_option gd_poll (rc_guard (lc_runner L r))) l
       (\<lambda>t. modify (\<lambda>s. s\<lparr>ls_banner_at := Some t\<rparr>)) (lc_fuel L))"

definition drain_taps :: "'w loop_cfg \<Rightarrow> string \<Rightarrow> drv \<Rightarrow> step_outcome \<Rightarrow> ('w ls, step_outcome) prog" where
  "drain_taps L r d oc = seq (drain_actuations (active_driver L r d) (lc_offset L)) (\<lambda>(records, dropped).
     seq (if d = Native then ret ([], 0) else drain_actuations (own_driver L r) (lc_offset L)) (\<lambda>(swept, dropped').
       ret (oc\<lparr>oc_actuations := records @ swept, oc_dropped := dropped + dropped'\<rparr>)))"

definition drain_both :: "'w loop_cfg \<Rightarrow> string \<Rightarrow> drv \<Rightarrow> step_outcome \<Rightarrow> ('w ls, step_outcome) prog" where
  "drain_both L r d oc = seq (drain_step_interruptions (active_driver L r d) oc) (\<lambda>oc.
     if d = Native then ret oc else drain_step_interruptions (own_driver L r) oc)"

definition after_body :: "'w loop_cfg \<Rightarrow> string \<Rightarrow> drv \<Rightarrow> real \<Rightarrow> body_out \<Rightarrow> step_outcome \<Rightarrow> ('w ls, step_outcome) prog" where
  "after_body L r d start o' oc = seq (duration L r start) (\<lambda>t. seq (gets ls_local) (\<lambda>ll.
     let oc = with_drained (ll_reserved ll) ((with_body o' t oc)\<lparr>oc_alerts := ll_alerts ll\<rparr>) in
     seq (sweep L r) (\<lambda>_. seq (drain_taps L r d oc) (drain_both L r d))))"


section \<open>The read after the step\<close>

text \<open>\<open>_ScreenRead\<close>: the tree of the body or of one later read, and whether a read was made.\<close>

record screen_read =
  sr_tree :: "element list option"
  sr_queried :: bool

definition screen_get :: "('s, element list) prog \<Rightarrow> screen_read \<Rightarrow> ('s, element list \<times> screen_read) prog" where
  "screen_get read sr = (case sr_tree sr of
     Some t \<Rightarrow> ret (t, sr)
   | None \<Rightarrow> seq read (\<lambda>t. ret (t, \<lparr>sr_tree = Some t, sr_queried = True\<rparr>)))"

text \<open>The read a step with an extraction settles on; a body's own tree is settled at once.\<close>

definition open_screen :: "'w loop_cfg \<Rightarrow> string \<Rightarrow> drv \<Rightarrow> (string \<times> extraction) list \<Rightarrow> bool \<Rightarrow> element list option
    \<Rightarrow> ('w ls, ('w ls, element list) prog \<times> screen_read) prog" where
  "open_screen L r d exts ok snapshot =
     (let dr = active_driver L r d; E = loop_wait L r d; lag = rc_lag (lc_runner L r); n = lc_fuel L in
      if ok \<and> exts \<noteq> []
      then (case snapshot of
          None \<Rightarrow> seq (we_now E) (\<lambda>t. ret (settle_extract_read E dr lag exts None (Some t) n, \<lparr>sr_tree = None, sr_queried = False\<rparr>))
        | Some tree \<Rightarrow> seq (settle_extract_read E dr lag exts (Some tree) None n) (\<lambda>tree.
            ret (dr_query dr, \<lparr>sr_tree = Some tree, sr_queried = False\<rparr>)))
      else ret (dr_query dr, \<lparr>sr_tree = snapshot, sr_queried = False\<rparr>))"

text \<open>Whether the screen changed; another application in front counts as a change.\<close>

definition changed_read :: "'w loop_cfg \<Rightarrow> string \<Rightarrow> (string \<times> extraction) list \<Rightarrow> pre \<Rightarrow> ('w ls, element list) prog
    \<Rightarrow> screen_read \<Rightarrow> step_outcome \<Rightarrow> ('w ls, (bool \<times> step_outcome) \<times> screen_read) prog" where
  "changed_read L kind exts p read sr oc = (case pe_before p of
     None \<Rightarrow> ret ((False, oc), sr)
   | Some before \<Rightarrow> catching is_not_front
       (seq (screen_get read sr) (\<lambda>(t, sr). ret ((\<not> same_tree t before, oc), sr)))
       (\<lambda>e. ret ((True, if oc_ok oc \<and> (kind \<in> screen_actions \<or> exts \<noteq> [])
                        then oc\<lparr>oc_ok := False, oc_reason := exn_text e\<rparr> else oc), sr)))"

text \<open>The diagnostic of a timed-out \<open>for\<close> wait.\<close>

definition is_wait_for :: "leaf \<Rightarrow> bool" where
  "is_wait_for l = (case l of LWait w \<Rightarrow> (case w_until w of UntilShown sel \<Rightarrow> True | _ \<Rightarrow> False) | _ \<Rightarrow> False)"

definition lost_evidence :: "exn \<Rightarrow> bool" where
  "lost_evidence e \<longleftrightarrow> is_os_error e \<or> is_not_front e"

definition wait_diagnostic :: "'w loop_cfg \<Rightarrow> string \<Rightarrow> string \<Rightarrow> leaf \<Rightarrow> body_out \<Rightarrow> ('w ls, element list) prog
    \<Rightarrow> screen_read \<Rightarrow> step_outcome \<Rightarrow> ('w ls, step_outcome \<times> screen_read) prog" where
  "wait_diagnostic L r step_id l o' read sr oc =
     (if \<not> (is_wait_for l \<and> \<not> bd_ok o' \<and> bd_tree o' \<noteq> None) then ret (oc, sr)
      else seq (catching lost_evidence (seq (screen_get read sr) (\<lambda>x. ret (Some x))) (\<lambda>e. ret None)) (\<lambda>g. case g of
        None \<Rightarrow> ret (oc, sr)
      | Some (t, sr) \<Rightarrow> catching lost_evidence
          (seq (lift (sk_diagnostic (rc_sink (lc_runner L r)) step_id t)) (\<lambda>a.
             ret (case a of None \<Rightarrow> oc | Some x \<Rightarrow> oc\<lparr>oc_artifacts := oc_artifacts oc @ [x]\<rparr>, sr)))
          (\<lambda>e. ret (oc, sr))))"

definition extract_values :: "'w loop_cfg \<Rightarrow> string \<Rightarrow> (string \<times> extraction) list \<Rightarrow> ('w ls, element list) prog
    \<Rightarrow> screen_read \<Rightarrow> step_outcome \<Rightarrow> ('w ls, step_outcome \<times> screen_read) prog" where
  "extract_values L r exts read sr oc =
     (if \<not> (oc_ok oc \<and> exts \<noteq> []) then ret (oc, sr)
      else seq (screen_get read sr) (\<lambda>(t, sr). seq (gets ls_bindings) (\<lambda>b.
        case run_extract (we_search (rc_wait (lc_runner L r))) (lc_show_error L) t exts b of
          ((ok, reason), b) \<Rightarrow> seq (modify (\<lambda>s. s\<lparr>ls_bindings := b\<rparr>)) (\<lambda>_.
            ret (if ok then oc else oc\<lparr>oc_ok := False, oc_reason := reason\<rparr>, sr)))))"

definition note_warnings :: "'w loop_cfg \<Rightarrow> string \<Rightarrow> drv \<Rightarrow> step_outcome \<Rightarrow> ('w ls, step_outcome) prog" where
  "note_warnings L r d oc = seq (lift (rc_notes (lc_runner L r) d)) (\<lambda>notes. seq (gets ls_local) (\<lambda>ll.
     ret (oc\<lparr>oc_warnings := ll_warnings ll @ notes,
       oc_tap := (if ll_taps ll = [] then None else Some (List.last (ll_taps ll)))\<rparr>)))"

text \<open>The captures of the step, chosen again when the evidence read fails it.\<close>

definition evidence_tokens :: "string list \<Rightarrow> string list" where
  "evidence_tokens ts = [t \<leftarrow> ts. token_kind t \<notin> {''elements'', ''rawTree''}]"

definition evidence_read :: "'w loop_cfg \<Rightarrow> string \<Rightarrow> drv \<Rightarrow> scen_step \<Rightarrow> string \<Rightarrow> bool \<Rightarrow> ('w ls, element list) prog
    \<Rightarrow> screen_read \<Rightarrow> step_outcome \<Rightarrow> ('w ls, (step_outcome \<times> string list \<times> element list option) \<times> screen_read) prog" where
  "evidence_read L r d st kind changed read sr oc =
     (let tokens = (\<lambda>ok. instant_captures (lc_policy L) st ok changed (rc_capture (lc_runner L r)) (d = Native));
          instant = tokens (oc_ok oc);
          writes = (list_ex (\<lambda>t. token_kind t = ''elements'') instant \<and> \<not> sk_null (rc_sink (lc_runner L r)))
      in if \<not> (d \<noteq> Native \<or> writes) then ret ((oc, instant, sr_tree sr), sr)
         else catching is_not_front
           (seq (screen_get read sr) (\<lambda>(t, sr). ret ((oc, instant, Some t), sr)))
           (\<lambda>e. let lost = (oc_ok oc \<and> kind \<in> screen_actions) in
              ret ((if lost then oc\<lparr>oc_ok := False, oc_reason := exn_text e\<rparr> else oc,
                    evidence_tokens (if lost then tokens False else instant), None), sr)))"

text \<open>What happens between the two halves of the step's \<open>after\<close> screenshot.\<close>

definition read_phase :: "'w loop_cfg \<Rightarrow> string \<Rightarrow> drv \<Rightarrow> scen_step \<Rightarrow> string \<Rightarrow> string \<Rightarrow> leaf \<Rightarrow> (string \<times> extraction) list
    \<Rightarrow> pre \<Rightarrow> body_out \<Rightarrow> step_outcome \<Rightarrow> ('w ls, step_outcome \<times> screen_read) prog" where
  "read_phase L r d st step_id kind l exts p o' oc =
     seq (open_screen L r d exts (oc_ok oc) (bd_tree o')) (\<lambda>(read, sr).
     seq (changed_read L kind exts p read sr oc) (\<lambda>((changed, oc), sr).
     seq (wait_diagnostic L r step_id l o' read sr oc) (\<lambda>(oc, sr).
     seq (extract_values L r exts read sr oc) (\<lambda>(oc, sr).
     seq (note_warnings L r d oc) (\<lambda>oc.
     seq (evidence_read L r d st kind changed read sr oc) (\<lambda>((oc, instant, els), sr).
     seq (capture L r step_id instant None els (dr_name (active_driver L r d))) (\<lambda>arts.
       ret (oc\<lparr>oc_artifacts := oc_artifacts oc @ arts\<rparr>, sr))))))))"

text \<open>\<open>finally\<close>: the join of the screenshot; its failure only counts when nothing else went wrong.\<close>

definition with_after_shot :: "'w loop_cfg \<Rightarrow> string \<Rightarrow> ('w ls, 'a) prog \<Rightarrow> ('w ls, 'a \<times> string list) prog" where
  "with_after_shot L r m =
     (let finish = lift (sk_finish_after (rc_sink (lc_runner L r))) in
      seq (catch m (\<lambda>e. seq (catch (seq finish (\<lambda>_. ret ())) (\<lambda>_. ret ())) (\<lambda>_. raise e))) (\<lambda>v.
        seq finish (\<lambda>shot. ret (v, shot))))"

definition leave_screen :: "'w loop_cfg \<Rightarrow> string \<Rightarrow> screen_read \<Rightarrow> string list \<Rightarrow> ('w ls, unit) prog" where
  "leave_screen L r sr shot = modify (\<lambda>s. s\<lparr>
     ls_prev_shot := (case filter (sk_is_shot (rc_sink (lc_runner L r))) shot of [] \<Rightarrow> None | a # as \<Rightarrow> Some a),
     ls_reads := (if sr_queried sr then ls_reads s + 1 else ls_reads s),
     ls_prev_after := sr_tree sr\<rparr>)"

definition after_phase :: "'w loop_cfg \<Rightarrow> string \<Rightarrow> drv \<Rightarrow> scen_step \<Rightarrow> string \<Rightarrow> string \<Rightarrow> leaf \<Rightarrow> (string \<times> extraction) list
    \<Rightarrow> pre \<Rightarrow> body_out \<Rightarrow> step_outcome \<Rightarrow> ('w ls, step_outcome) prog" where
  "after_phase L r d st step_id kind l exts p o' oc =
     seq (lift (sk_start_after (rc_sink (lc_runner L r)) step_id)) (\<lambda>_.
     seq (with_after_shot L r (read_phase L r d st step_id kind l exts p o' oc)) (\<lambda>((oc, sr), shot).
     seq (leave_screen L r sr shot) (\<lambda>_. ret (oc\<lparr>oc_artifacts := oc_artifacts oc @ shot\<rparr>))))"

section \<open>The step\<close>

text \<open>A step whose declared alert has no label in the run's language fails before it acts.\<close>

definition locale_failure :: "'w loop_cfg \<Rightarrow> string \<Rightarrow> drv \<Rightarrow> string \<Rightarrow> real \<Rightarrow> string \<Rightarrow> step_outcome \<Rightarrow> ('w ls, step_outcome) prog" where
  "locale_failure L r d step_id start reason oc = seq (duration L r start) (\<lambda>t.
     seq (drain_actuations (active_driver L r d) (lc_offset L)) (\<lambda>(records, dropped).
     seq (drain_step_interruptions (active_driver L r d)
           (oc\<lparr>oc_ok := False, oc_reason := reason, oc_duration := t, oc_actuations := records, oc_dropped := dropped\<rparr>)) (\<lambda>oc.
     seq (if sk_null (rc_sink (lc_runner L r)) then ret False else seed_prev_after L r d) (\<lambda>seeded.
       if \<not> seeded then ret oc
       else seq (gets ls_prev_after) (\<lambda>els.
         seq (capture L r step_id [''elements.before''] None els (dr_name (active_driver L r d))) (\<lambda>arts.
           ret (oc\<lparr>oc_artifacts := oc_artifacts oc @ arts\<rparr>)))))))"

definition acting_step :: "'w loop_cfg \<Rightarrow> 'w rec \<Rightarrow> string \<Rightarrow> drv \<Rightarrow> scen_step \<Rightarrow> string \<Rightarrow> string \<Rightarrow> real \<Rightarrow> bool \<Rightarrow> leaf
    \<Rightarrow> (string \<times> extraction) list \<Rightarrow> step_outcome \<Rightarrow> ('w ls, step_outcome) prog" where
  "acting_step L rec r d st step_id kind start seeded l exts oc =
     seq (before_read L r d kind seeded) (\<lambda>p. seq (front_read L r d kind p) (\<lambda>p.
     seq (make_guard L rec r d) (\<lambda>guard. seq (guard_clear L r d kind guard p) (\<lambda>p.
     seq (entry_check L r d kind p) (\<lambda>_.
     seq (body_phase L r d st guard p l) (\<lambda>o'.
     seq (after_body L r d start o' oc) (\<lambda>oc.
       after_phase L r d st step_id kind l exts p o' oc)))))))"

definition step_id_of :: "'w loop_cfg \<Rightarrow> string \<Rightarrow> scen_step \<Rightarrow> nat \<Rightarrow> 'w ls \<Rightarrow> string" where
  "step_id_of L r st idx s =
     (let multi = (length (ls_runners s) \<ge> 2 \<or> (case ls_roster s of None \<Rightarrow> False | Some ro \<Rightarrow> ro_status ro \<noteq> []))
      in lc_sid L @ ''/'' @ (if multi then r @ ''/'' else []) @ (if lc_phase L = [] then [] else lc_phase L @ ''-'') @
         (case st_name st of Some n \<Rightarrow> if n = [] then ''step'' @ show_nat idx else n | None \<Rightarrow> ''step'' @ show_nat idx))"

definition leaf_outcome :: "'w loop_cfg \<Rightarrow> 'w rec \<Rightarrow> string \<Rightarrow> drv \<Rightarrow> scen_step \<Rightarrow> nat \<Rightarrow> real \<Rightarrow> step_outcome \<Rightarrow> ('w ls, step_outcome) prog" where
  "leaf_outcome L rec r d st idx start oc = seq (gets (step_id_of L r st idx)) (\<lambda>step_id.
     let kind = action_of st in
     seq (gets ls_prev_after) (\<lambda>prev.
     seq (if lc_screen_changed L \<and> prev = None \<and> d \<noteq> Native then seed_prev_after L r d else ret False) (\<lambda>seeded.
     seq (baseline L r step_id kind oc) (\<lambda>oc. seq (gets ls_bindings) (\<lambda>b.
       case lc_interp L b st of
         Inl reason \<Rightarrow> locale_failure L r d step_id start reason oc
       | Inr (l, exts) \<Rightarrow> acting_step L rec r d st step_id kind start seeded l exts oc)))))"

definition handle_action :: "'w loop_cfg \<Rightarrow> 'w rec \<Rightarrow> string \<Rightarrow> drv \<Rightarrow> scen_step \<Rightarrow> nat \<Rightarrow> real \<Rightarrow> step_outcome
    \<Rightarrow> ('w ls, string option) prog" where
  "handle_action L rec r d st idx start oc =
     seq (scoped (leaf_outcome L rec r d st idx start oc)) (\<lambda>oc.
     seq (finish_outcome L r d oc) (\<lambda>oc. ret (step_failure idx (action_of st) oc)))"

end
