(* ===== verification/Step_Loop.thy ===== *)
theory Step_Loop
  imports Leaf_Step
begin

text \<open>
  The step loop (\<open>_StepRunner\<close> of \<open>src/bajutsu/common/orchestrator/loop/_step_runner.py\<close>, \<open>_run_if\<close>,
  \<open>_run_for_each\<close> and \<open>_run_steps\<close> of \<open>loop/_functions.py\<close>): the composite steps, and the recursion
  over nested steps.  A recovery of an interrupt runs the same loop with the guard off, so the loop is
  tied in two levels: \<open>recovery_exec\<close>, in which no guard is made, and \<open>exec_main\<close> around it.
\<close>

section \<open>The composite steps\<close>

definition run_if :: "'w loop_cfg \<Rightarrow> string \<Rightarrow> drv \<Rightarrow> assertion \<Rightarrow> ('w ls, string option) prog \<Rightarrow> ('w ls, string option) prog
    \<Rightarrow> ('w ls, bool \<times> string) prog" where
  "run_if L r d c yes no = seq (gets ls_bindings) (\<lambda>b. let c = lc_interp_assert L b c; R = lc_runner L r in
     seq (dr_query (active_driver L r d)) (\<lambda>els.
     seq (with_attributes (active_driver L r d) (bare_context (rc_context R)) [c]) (\<lambda>ctx.
     seq (lift (we_network (rc_wait R))) (\<lambda>net.
     seq (if passed (evaluate (we_search (rc_wait R)) ctx els net [c]) then yes else no) (\<lambda>failure.
       ret (case failure of None \<Rightarrow> (True, []) | Some m \<Rightarrow> (False, m)))))))"

fun for_each_loop :: "string \<Rightarrow> ('w ls, string option) prog \<Rightarrow> element list \<Rightarrow> ('w ls, bool \<times> string) prog" where
  "for_each_loop var body [] = ret (True, [])"
| "for_each_loop var body (el # els) = (if \<not> truthy_str (el_identifier el)
     then ret (False, ''forEach: matched element has no identifier (label='' @ or_empty (el_label el) @ '')'')
     else seq (bind_var var (the (el_identifier el))) (\<lambda>_. seq body (\<lambda>failure. case failure of
       Some m \<Rightarrow> ret (False, m)
     | None \<Rightarrow> for_each_loop var body els)))"

definition run_for_each :: "'w loop_cfg \<Rightarrow> string \<Rightarrow> drv \<Rightarrow> selector \<Rightarrow> string \<Rightarrow> ('w ls, string option) prog
    \<Rightarrow> ('w ls, bool \<times> string) prog" where
  "run_for_each L r d sel var body = seq (gets ls_bindings) (\<lambda>b. seq (dr_query (active_driver L r d)) (\<lambda>els.
     for_each_loop var body (find_elements (we_search (rc_wait (lc_runner L r))) els (lc_interp_selector L b sel))))"

definition as_verdict :: "string option \<Rightarrow> bool \<times> string" where
  "as_verdict f = (case f of None \<Rightarrow> (True, []) | Some m \<Rightarrow> (False, m))"

text \<open>\<open>inner h\<close> runs the nested steps on the web view of host \<open>h\<close>.\<close>

definition run_web :: "'w loop_cfg \<Rightarrow> string \<Rightarrow> drv \<Rightarrow> selector \<Rightarrow> (string \<Rightarrow> ('w ls, string option) prog)
    \<Rightarrow> ('w ls, bool \<times> string) prog" where
  "run_web L r d sel inner = catching is_selector_error
     (if rc_web (lc_runner L r) = None then ret (False, ''web: no WebView bridge configured (BAJUTSU_WEBVIEW_PORT not set)'')
      else seq (gets ls_bindings) (\<lambda>b. let host = lc_interp_selector L b sel in
        seq (dr_query (active_driver L r d)) (\<lambda>els.
          case resolve_unique (we_search (rc_wait (lc_runner L r))) els host of
            Inl e \<Rightarrow> raise (resolve_text (we_sel_text (rc_wait (lc_runner L r))) host e)
          | Inr el \<Rightarrow> (case first_id sel of
              None \<Rightarrow> ret (False, ''web: within selector must specify an id'')
            | Some h \<Rightarrow> seq forget_tree (\<lambda>_. seq (inner h) (\<lambda>f. seq forget_tree (\<lambda>_. ret (as_verdict f))))))))
     (\<lambda>e. ret (False, exn_text e))"

definition app_refusal :: "exn \<Rightarrow> bool" where
  "app_refusal e \<longleftrightarrow> is_selector_error e \<or> is_unsupported e"

text \<open>The application is left whatever the nested steps did; a failure of leaving it hides no other.\<close>

definition run_app :: "'w loop_cfg \<Rightarrow> string \<Rightarrow> drv \<Rightarrow> string \<Rightarrow> ('w ls, string option) prog \<Rightarrow> ('w ls, bool \<times> string) prog" where
  "run_app L r d bundle inner = catching app_refusal
     (seq (gets ls_bindings) (\<lambda>b. let dr = active_driver L r d in
      seq (dr_call dr (EnterApp (lc_interp_text L b bundle))) (\<lambda>_. seq forget_tree (\<lambda>_.
      seq (catch inner (\<lambda>e. seq (catch (dr_call dr LeaveApp) (\<lambda>_. ret ())) (\<lambda>_. seq forget_tree (\<lambda>_. raise e)))) (\<lambda>f.
      seq (dr_call dr LeaveApp) (\<lambda>_. seq forget_tree (\<lambda>_. ret (as_verdict f))))))))
     (\<lambda>e. ret (False, exn_text e))"

text \<open>\<open>_handle_app\<close> appends its outcome itself, past \<open>_finish_outcome\<close>.\<close>

definition close_app :: "'w loop_cfg \<Rightarrow> string \<Rightarrow> drv \<Rightarrow> nat \<Rightarrow> real \<Rightarrow> step_outcome \<Rightarrow> bool \<times> string \<Rightarrow> ('w ls, string option) prog" where
  "close_app L r d idx start oc out = seq (duration L r start) (\<lambda>t.
     seq (drain_step_interruptions (active_driver L r d) (oc\<lparr>oc_ok := fst out, oc_reason := snd out, oc_duration := t\<rparr>)) (\<lambda>oc.
       seq (append_outcome oc) (\<lambda>_. ret (step_failure idx (oc_action oc) oc))))"

definition lifecycle_problem :: "'w loop_cfg \<Rightarrow> string \<Rightarrow> scen_step \<Rightarrow> ('w ls, bool \<times> string) prog" where
  "lifecycle_problem L r st = seq (gets ls_roster) (\<lambda>ro. case ro of
     None \<Rightarrow> ret (False, action_of st @ '': the scenario declares no targets'')
   | Some ro \<Rightarrow> (case st_work st of
       InstallApp member keep \<Rightarrow> catching (\<lambda>e. \<not> stops_run e)
         (seq (install_member (map_option (\<lambda>f a b k. lift (f a b k)) (lc_install L)) ro set_roster
             (if st_target st = [] then r else st_target st) member keep) (\<lambda>p. ret (as_verdict p)))
         (\<lambda>e. ret (False, ''installApp from '' @ member @ '': '' @ exn_text e))
     | SetPrimary target \<Rightarrow> seq (move_primary ro set_roster target) (\<lambda>p. ret (as_verdict p))
     | _ \<Rightarrow> ret (True, [])))"

definition handle_lifecycle :: "'w loop_cfg \<Rightarrow> string \<Rightarrow> drv \<Rightarrow> scen_step \<Rightarrow> nat \<Rightarrow> real \<Rightarrow> step_outcome \<Rightarrow> ('w ls, string option) prog" where
  "handle_lifecycle L r d st idx start oc = seq (lifecycle_problem L r st) (\<lambda>(ok, reason). seq (duration L r start) (\<lambda>t.
     seq (finish_outcome L r d (oc\<lparr>oc_ok := ok, oc_reason := reason, oc_duration := t\<rparr>)) (\<lambda>oc.
       ret (step_failure idx (action_of st) oc))))"

section \<open>The loop\<close>

definition stop_if_cancelled :: "'w loop_cfg \<Rightarrow> string \<Rightarrow> ('w ls, unit) prog" where
  "stop_if_cancelled L r = seq (lift (we_cancelled (rc_wait (lc_runner L r)))) (\<lambda>c. if c then raise RunCancelled else ret ())"

text \<open>\<open>_run_one\<close> up to its dispatch: the index and the start of the outcome.\<close>

definition open_step :: "'w loop_cfg \<Rightarrow> string \<Rightarrow> scen_step \<Rightarrow> (nat \<Rightarrow> real \<Rightarrow> step_outcome \<Rightarrow> ('w ls, string option) prog)
    \<Rightarrow> ('w ls, string option) prog" where
  "open_step L r st handle = seq take_index (\<lambda>idx. seq (loop_now L r) (\<lambda>start.
     handle idx start (new_outcome idx (action_of st) r (start + lc_offset L))))"

fun exec_steps :: "'w loop_cfg \<Rightarrow> 'w rec \<Rightarrow> string \<Rightarrow> drv \<Rightarrow> scen_step list \<Rightarrow> ('w ls, string option) prog"
  and exec_step :: "'w loop_cfg \<Rightarrow> 'w rec \<Rightarrow> string \<Rightarrow> drv \<Rightarrow> scen_step \<Rightarrow> ('w ls, string option) prog"
  and exec_work :: "'w loop_cfg \<Rightarrow> 'w rec \<Rightarrow> string \<Rightarrow> drv \<Rightarrow> scen_step \<Rightarrow> nat \<Rightarrow> real \<Rightarrow> step_outcome \<Rightarrow> work \<Rightarrow> ('w ls, string option) prog" where
  "exec_steps L rec r d [] = ret None"
| "exec_steps L rec r d (st # sts) = seq (stop_if_cancelled L r) (\<lambda>_. seq (route L r d st) (\<lambda>x. case x of
     Inl reason \<Rightarrow> fail_unrouted r st reason
   | Inr (r', d') \<Rightarrow> seq (pause_before L st) (\<lambda>p. seq (exec_step L rec r' d' st) (\<lambda>failure. case failure of
       Some m \<Rightarrow> seq (pause_after_failure L p m) (\<lambda>_. ret (Some m))
     | None \<Rightarrow> exec_steps L rec r d sts))))"
| "exec_step L rec r d (Step n t c e w) = open_step L r (Step n t c e w) (\<lambda>idx start oc.
     exec_work L rec r d (Step n t c e w) idx start oc w)"
| "exec_work L rec r d st idx start oc (Leaf l) = handle_action L rec r d st idx start oc"
| "exec_work L rec r d st idx start oc (If c yes no) =
     seq (run_if L r d c (exec_steps L rec r d yes) (exec_steps L rec r d no)) (close_step L r d idx start oc)"
| "exec_work L rec r d st idx start oc (ForEach sel var body) =
     seq (run_for_each L r d sel var (exec_steps L rec r d body)) (close_step L r d idx start oc)"
| "exec_work L rec r d st idx start oc (Web sel body) =
     seq (run_web L r d sel (\<lambda>h. exec_steps L rec r (WebView h) body)) (close_step L r d idx start oc)"
| "exec_work L rec r d st idx start oc (App bundle body) =
     seq (run_app L r d bundle (exec_steps L rec r d body)) (close_app L r d idx start oc)"
| "exec_work L rec r d st idx start oc (InstallApp m k) = handle_lifecycle L r d st idx start oc"
| "exec_work L rec r d st idx start oc (SetPrimary t) = handle_lifecycle L r d st idx start oc"

definition recovery_exec :: "'w loop_cfg \<Rightarrow> 'w rec" where
  "recovery_exec L = exec_steps L (\<lambda>_ _ _. out_of_fuel)"

definition run_recovery :: "'w loop_cfg \<Rightarrow> 'w rec" where
  "run_recovery L r d steps = seq (modify (\<lambda>s. s\<lparr>ls_recovering := True\<rparr>)) (\<lambda>_.
     finally_do (recovery_exec L r d steps)
       (seq (modify (\<lambda>s. s\<lparr>ls_recovering := False\<rparr>)) (\<lambda>_. seq (gets ls_runners) (\<lambda>alive.
          only_if (alive \<noteq> []) (look_away r)))))"

definition exec_main :: "'w loop_cfg \<Rightarrow> 'w rec" where
  "exec_main L = exec_steps L (run_recovery L)"

text \<open>\<open>_run_steps\<close>: one phase of a scenario, from the primary's runner; \<open>alive\<close> are its runtimes.\<close>

definition phase_state :: "'w \<Rightarrow> nat \<Rightarrow> step_outcome list \<Rightarrow> (string, string) dict \<Rightarrow> latches \<Rightarrow> roster option \<Rightarrow> string list \<Rightarrow> 'w ls" where
  "phase_state w next outs b l ro alive = \<lparr>ls_world = w, ls_next = next, ls_outcomes = outs, ls_bindings = b,
     ls_latches = l, ls_selection = False, ls_prev_after = None, ls_prev_shot = None, ls_entry_checked = False,
     ls_last_target = [], ls_reads = 0, ls_recovering = False, ls_banner_at = None, ls_roster = ro,
     ls_failure_paused = False, ls_runners = alive, ls_local = new_local\<rparr>"

definition run_steps :: "'w loop_cfg \<Rightarrow> string \<Rightarrow> scen_step list \<Rightarrow> ('w ls, string option) prog" where
  "run_steps L primary steps = exec_main L primary Native steps"

end
