(* ===== verification/Scenario_Run.thy ===== *)
theory Scenario_Run
  imports Step_Loop
begin

text \<open>
  One scenario from its first recording to its result (\<open>run_scenario\<close> and its helpers in
  \<open>src/bajutsu/common/orchestrator/loop/_functions.py\<close>): the phases \<open>setup\<close>, \<open>steps\<close>, \<open>expect\<close> and
  \<open>cleanup\<close>, what turns an exception into a failure, and what is finished whatever happened.  The three
  phases of steps are runs of the step loop on one world; the bindings, the latches, the roster and the
  members brought up are shared between them, everything else a loop carries is made afresh.
\<close>

section \<open>The scenario\<close>

record cleanup_rule =
  cu_on :: string \<comment> \<open>\<open>always\<close>, \<open>success\<close> or \<open>failure\<close>\<close>
  cu_steps :: "scen_step list"

text \<open>A recording, with the two origins it may name for its own time line.\<close>

record interval =
  iv_kind :: string
  iv_measured :: "real option"
  iv_true :: "real option"

record artifact =
  af_kind :: string
  af_path :: string
  af_target :: string

record 'w scen_cfg =
  sf_loop :: "'w loop_cfg"
  sf_primary :: string
  sf_started :: "string list" \<comment> \<open>the targets the run started with\<close>
  sf_runtime :: "string \<Rightarrow> 'w runner_cfg" \<comment> \<open>their runtimes, and those brought up since\<close>
  sf_wall :: "('w, real) prog"
  sf_cancelled :: "('w, bool) prog"
  sf_grace :: real
  sf_setup :: "scen_step list"
  sf_steps :: "scen_step list"
  sf_expect :: "(string \<times> assertion) list" \<comment> \<open>each entry with the target it names\<close>
  sf_cleanup :: "cleanup_rule list"
  sf_interp :: "(string, string) dict \<Rightarrow> (string \<times> assertion) list \<Rightarrow> (string \<times> assertion) list"
  sf_begin :: "string \<Rightarrow> string \<Rightarrow> string list \<Rightarrow> ('w, interval list) prog" \<comment> \<open>by target and sid\<close>
  sf_finish :: "string \<Rightarrow> string \<Rightarrow> interval list \<Rightarrow> ('w, artifact list \<times> interval list) prog"
  sf_manual :: "('w, string option) prog" \<comment> \<open>the gate's first command that acted on the app\<close>
  sf_degraded :: "string \<Rightarrow> ('w, string) prog"

record 'w scen =
  sn_world :: 'w
  sn_bindings :: "(string, string) dict"
  sn_latches :: latches
  sn_roster :: "roster option"
  sn_live :: "string list"
  sn_before :: "step_outcome list"
  sn_steps :: "step_outcome list"
  sn_after :: "step_outcome list"
  sn_after_next :: nat \<comment> \<open>one counter for the whole cleanup\<close>
  sn_results :: "(string \<times> assertion_result) list"
  sn_alerts :: "alert_event list"
  sn_undeclared :: "string list list"
  sn_actuations :: "actuation list"
  sn_dropped :: nat
  sn_artifacts :: "artifact list"
  sn_offset :: real
  sn_anchors :: "(string, real) dict"

definition scen_start :: "'w \<Rightarrow> (string, string) dict \<Rightarrow> bool \<Rightarrow> roster option \<Rightarrow> string list \<Rightarrow> 'w scen" where
  "scen_start w b unconfirmed ro live = \<lparr>sn_world = w, sn_bindings = b, sn_latches = new_latches unconfirmed,
     sn_roster = ro, sn_live = live, sn_before = [], sn_steps = [], sn_after = [], sn_after_next = 0, sn_results = [],
     sn_alerts = [], sn_undeclared = [], sn_actuations = [], sn_dropped = 0, sn_artifacts = [], sn_offset = 0,
     sn_anchors = []\<rparr>"

definition on_world :: "('w, 'a) prog \<Rightarrow> ('w scen, 'a) prog" where
  "on_world m = on_part sn_world (\<lambda>w s. s\<lparr>sn_world := w\<rparr>) m"

abbreviation primary_cfg :: "'w scen_cfg \<Rightarrow> 'w runner_cfg" where
  "primary_cfg C \<equiv> lc_runner (sf_loop C) (sf_primary C)"

definition scen_now :: "'w scen_cfg \<Rightarrow> ('w, real) prog" where
  "scen_now C = we_now (rc_wait (primary_cfg C))"

section \<open>The phases of steps\<close>

datatype scen_phase = Setup | Main | Cleanup

fun phase_name :: "scen_phase \<Rightarrow> string" where
  "phase_name Setup = ''setup''" | "phase_name Main = []" | "phase_name Cleanup = ''cleanup''"

fun outcomes_of :: "scen_phase \<Rightarrow> 'w scen \<Rightarrow> step_outcome list" where
  "outcomes_of Setup s = sn_before s" | "outcomes_of Main s = sn_steps s" | "outcomes_of Cleanup s = sn_after s"

fun next_of :: "scen_phase \<Rightarrow> 'w scen \<Rightarrow> nat" where
  "next_of Cleanup s = sn_after_next s" | "next_of ph s = 0"

fun with_outcomes :: "scen_phase \<Rightarrow> step_outcome list \<Rightarrow> nat \<Rightarrow> 'w scen \<Rightarrow> 'w scen" where
  "with_outcomes Setup os n s = s\<lparr>sn_before := os\<rparr>"
| "with_outcomes Main os n s = s\<lparr>sn_steps := os\<rparr>"
| "with_outcomes Cleanup os n s = s\<lparr>sn_after := os, sn_after_next := n\<rparr>"

definition phase_cfg :: "'w scen_cfg \<Rightarrow> real \<Rightarrow> scen_phase \<Rightarrow> ('w, bool) prog \<Rightarrow> 'w loop_cfg" where
  "phase_cfg C offset ph cancelled = (sf_loop C)\<lparr>lc_phase := phase_name ph, lc_offset := offset,
     lc_runner := (\<lambda>r. let R = lc_runner (sf_loop C) r in R\<lparr>rc_wait := (rc_wait R)\<lparr>we_cancelled := cancelled\<rparr>\<rparr>)\<rparr>"

definition enter_phase :: "scen_phase \<Rightarrow> 'w scen \<Rightarrow> 'w ls" where
  "enter_phase ph s = phase_state (sn_world s) (next_of ph s) (outcomes_of ph s) (sn_bindings s) (sn_latches s)
     (sn_roster s) (sn_live s)"

definition leave_phase :: "scen_phase \<Rightarrow> 'w ls \<Rightarrow> 'w scen \<Rightarrow> 'w scen" where
  "leave_phase ph t s = with_outcomes ph (ls_outcomes t) (ls_next t)
     (s\<lparr>sn_world := ls_world t, sn_bindings := ls_bindings t, sn_latches := ls_latches t, sn_roster := ls_roster t,
        sn_live := ls_runners t\<rparr>)"

definition run_phase :: "'w scen_cfg \<Rightarrow> real \<Rightarrow> scen_phase \<Rightarrow> ('w, bool) prog \<Rightarrow> scen_step list \<Rightarrow> ('w scen, string option) prog" where
  "run_phase C offset ph cancelled steps =
     on_part (enter_phase ph) (leave_phase ph) (run_steps (phase_cfg C offset ph cancelled) (sf_primary C) steps)"

section \<open>Cleanup\<close>

definition cancelled_failure :: string where "cancelled_failure = ''cancelled''"

definition teardown_share :: real where "teardown_share = 1 / 10"

definition cancelled_teardown_seconds :: "real \<Rightarrow> real" where
  "cancelled_teardown_seconds grace = grace * teardown_share"

definition cause_sep :: string where "cause_sep = ''; ''"

definition in_cleanup :: "string \<Rightarrow> string" where "in_cleanup reason = ''cleanup: '' @ reason"

definition with_cleanup :: "string option \<Rightarrow> string \<Rightarrow> string" where
  "with_cleanup failure reason = (case failure of
     None \<Rightarrow> in_cleanup reason | Some f \<Rightarrow> f @ cause_sep @ in_cleanup reason)"

text \<open>\<open>run steps limit\<close> runs an entry under the deadline of a bounded teardown, or under the run's own
  cancellation when \<open>limit\<close> is \<open>None\<close>.\<close>

definition run_entry :: "(scen_step list \<Rightarrow> real option \<Rightarrow> ('s, string option) prog) \<Rightarrow> real option \<Rightarrow> scen_step list
    \<Rightarrow> ('s, string option option) prog" where
  "run_entry run limit steps = catching (\<lambda>e. e = RunCancelled) (seq (run steps limit) (\<lambda>r. ret (Some r))) (\<lambda>e. ret None)"

fun cleanup_loop :: "(scen_step list \<Rightarrow> real option \<Rightarrow> ('s, string option) prog) \<Rightarrow> string \<Rightarrow> real option
    \<Rightarrow> string option \<Rightarrow> cleanup_rule list \<Rightarrow> ('s, string option) prog" where
  "cleanup_loop run on limit failure [] = ret failure"
| "cleanup_loop run on limit failure (q # qs) =
     (if cu_on q \<noteq> ''always'' \<and> cu_on q \<noteq> on then cleanup_loop run on limit failure qs
      else seq (run_entry run limit (cu_steps q)) (\<lambda>x. case x of
        None \<Rightarrow> if limit \<noteq> None then ret failure
          else if failure = None then ret (Some cancelled_failure)
          else ret (Some (with_cleanup failure cancelled_failure))
      | Some None \<Rightarrow> cleanup_loop run on limit failure qs
      | Some (Some m) \<Rightarrow> cleanup_loop run on limit (Some (with_cleanup failure m)) qs))"

definition verdict_of :: "string option \<Rightarrow> string" where
  "verdict_of failure = (if failure = None then ''success'' else ''failure'')"

definition starts_cancelled :: "string option \<Rightarrow> bool" where
  "starts_cancelled failure = (case failure of None \<Rightarrow> False
     | Some f \<Rightarrow> take (length cancelled_failure) f = cancelled_failure)"

definition teardown_limit :: "('s, real) prog \<Rightarrow> ('s, bool) prog \<Rightarrow> real \<Rightarrow> string option \<Rightarrow> ('s, real option) prog" where
  "teardown_limit now cancelled grace failure = seq cancelled (\<lambda>c.
     if c \<or> starts_cancelled failure then seq now (\<lambda>t. ret (Some (t + cancelled_teardown_seconds grace))) else ret None)"

definition dispatch_cleanup :: "cleanup_rule list \<Rightarrow> string option \<Rightarrow> (scen_step list \<Rightarrow> real option \<Rightarrow> ('s, string option) prog)
    \<Rightarrow> ('s, real) prog \<Rightarrow> ('s, bool) prog \<Rightarrow> real \<Rightarrow> ('s, string option \<times> string) prog" where
  "dispatch_cleanup rules failure run now cancelled grace = seq (teardown_limit now cancelled grace failure) (\<lambda>limit.
     seq (cleanup_loop run (verdict_of failure) limit failure rules) (\<lambda>f. ret (f, verdict_of failure)))"

definition past :: "('w, real) prog \<Rightarrow> real \<Rightarrow> ('w, bool) prog" where
  "past now deadline = seq now (\<lambda>t. ret (t \<ge> deadline))"

definition run_cleanup :: "'w scen_cfg \<Rightarrow> real \<Rightarrow> string option \<Rightarrow> ('w scen, string option \<times> string) prog" where
  "run_cleanup C offset failure = (if sf_cleanup C = [] then ret (failure, [])
     else dispatch_cleanup (sf_cleanup C) failure
       (\<lambda>steps limit. run_phase C offset Cleanup
          (case limit of None \<Rightarrow> sf_cancelled C | Some d \<Rightarrow> past (scen_now C) d) steps)
       (on_world (scen_now C)) (on_world (sf_cancelled C)) (sf_grace C))"

section \<open>The trailing block of assertions\<close>

text \<open>\<open>_expect_blocked\<close>.\<close>

fun expect_blocked :: "roster \<Rightarrow> (string \<times> assertion) list \<Rightarrow> string option" where
  "expect_blocked ro [] = None"
| "expect_blocked ro ((target, a) # as) = (case unavailable ro (if target = [] then ro_primary ro else target) ''assert'' of
     Some problem \<Rightarrow> Some problem | None \<Rightarrow> expect_blocked ro as)"

definition primary_now :: "'w scen_cfg \<Rightarrow> roster option \<Rightarrow> string" where
  "primary_now C ro = (case ro of None \<Rightarrow> sf_primary C | Some ro \<Rightarrow> ro_primary ro)"

definition entry_target :: "string \<Rightarrow> string \<times> assertion \<Rightarrow> string" where
  "entry_target primary e = (if fst e = [] then primary else fst e)"

definition runtime_of :: "'w scen_cfg \<Rightarrow> string list \<Rightarrow> string \<Rightarrow> 'w runner_cfg" where
  "runtime_of C live name = (if name \<in> set live then sf_runtime C name else primary_cfg C)"

definition drain_into_expect :: "'w runner_cfg \<Rightarrow> real \<Rightarrow> ('w scen, nat) prog" where
  "drain_into_expect R offset = seq (on_world (drain_actuations (rc_driver R) offset)) (\<lambda>(records, dropped).
     seq (modify (\<lambda>s. s\<lparr>sn_actuations := sn_actuations s @ records\<rparr>)) (\<lambda>_. ret dropped))"

definition clear_before_visual :: "'w scen_cfg \<Rightarrow> 'w runner_cfg \<Rightarrow> real \<Rightarrow> ('w scen, nat) prog" where
  "clear_before_visual C R offset = (if ctx_visual (rc_context R) = None then ret 0
     else seq (on_world (clear_notification_banner (rc_wait (primary_cfg C)) (rc_driver R) (lc_fuel (sf_loop C))))
       (\<lambda>_. drain_into_expect R offset))"

text \<open>The poll of one target's entries; it is not given the run's cancellation.\<close>

definition poll_group :: "'w scen_cfg \<Rightarrow> 'w runner_cfg \<Rightarrow> assertion list \<Rightarrow> ('w, assertion_result list) prog" where
  "poll_group C R as = seq (clipboard_for as (rc_clipboard R)) (\<lambda>clip.
     seq (poll_asserts ((rc_wait (primary_cfg C))\<lparr>we_network := we_network (rc_wait R), we_cancelled := ret False\<rparr>) (rc_driver R)
        ((rc_context R)\<lparr>ctx_clipboard := clip\<rparr>) as (lc_fuel (sf_loop C))) (\<lambda>(results, tree). ret results))"

type_synonym expect_group = "string \<times> (nat \<times> string \<times> assertion) list"

definition eval_group :: "'w scen_cfg \<Rightarrow> real \<Rightarrow> expect_group \<Rightarrow> ('w scen, assertion_result list \<times> nat) prog" where
  "eval_group C offset g = seq (gets (\<lambda>s. runtime_of C (sn_live s) (fst g))) (\<lambda>R.
     seq (clear_before_visual C R offset) (\<lambda>dropped.
     seq (on_world (if ctx_visual (rc_context R) = None then ret () else rc_visual R)) (\<lambda>_.
     seq (on_world (poll_group C R (map (snd \<circ> snd) (snd g)))) (\<lambda>results. ret (results, dropped)))))"

definition merge_group :: "expect_group \<Rightarrow> assertion_result list \<Rightarrow> (string \<times> assertion_result) option list
    \<Rightarrow> (string \<times> assertion_result) option list" where
  "merge_group g results merged = fold (\<lambda>(i, r) m. m[i := Some (fst g, r)]) (zip (map fst (snd g)) results) merged"

fun eval_groups :: "'w scen_cfg \<Rightarrow> real \<Rightarrow> expect_group list \<Rightarrow> (string \<times> assertion_result) option list \<Rightarrow> nat
    \<Rightarrow> ('w scen, (string \<times> assertion_result) list \<times> nat) prog" where
  "eval_groups C offset [] merged dropped = ret (concat (map (case_option [] (\<lambda>r. [r])) merged), dropped)"
| "eval_groups C offset (g # gs) merged dropped = seq (eval_group C offset g) (\<lambda>(results, n).
     eval_groups C offset gs (merge_group g results merged) (dropped + n))"

definition expect_groups :: "string \<Rightarrow> (string \<times> assertion) list \<Rightarrow> expect_group list" where
  "expect_groups primary expect = group_by (\<lambda>(i, e). entry_target primary e) (zip [0..<length expect] expect)"

definition evaluate_expect :: "'w scen_cfg \<Rightarrow> real \<Rightarrow> (string \<times> assertion) list \<Rightarrow> ('w scen, bool) prog" where
  "evaluate_expect C offset expect = seq (gets (\<lambda>s. primary_now C (sn_roster s))) (\<lambda>primary.
     seq (eval_groups C offset (expect_groups primary expect) (replicate (length expect) None) 0) (\<lambda>(results, dropped).
       seq (modify (\<lambda>s. s\<lparr>sn_results := results, sn_dropped := sn_dropped s + dropped\<rparr>)) (\<lambda>_.
         ret (passed (map snd results)))))"

definition drain_expect :: "'w scen_cfg \<Rightarrow> ('w scen, unit) prog" where
  "drain_expect C = seq (on_world (drain_interruptions (rc_driver (primary_cfg C)))) (\<lambda>(alerts, undeclared).
     modify (\<lambda>s. s\<lparr>sn_alerts := sn_alerts s @ alerts, sn_undeclared := sn_undeclared s @ undeclared\<rparr>))"

text \<open>\<open>_recover_expect_from_alert\<close>: one forced read that answers alerts.\<close>

definition recover_expect :: "'w scen_cfg \<Rightarrow> ('w, bool \<times> string) prog" where
  "recover_expect C = (case rc_resolving (primary_cfg C) Native of
     None \<Rightarrow> ret (False, [])
   | Some resolve \<Rightarrow> seq (resolve FullRead True) (\<lambda>recovery.
       let cleared = dn_tapped (rd_drained recovery) \<noteq> [] \<or> rd_withheld recovery in
       seq (only_if cleared (settle_after_alert_dismiss ((rc_wait (primary_cfg C))\<lparr>we_cancelled := sf_cancelled C\<rparr>)
             (lc_fuel (sf_loop C)))) (\<lambda>_. ret (cleared, records_note (rd_drained recovery)))))"

definition expect_failure :: "'w scen_cfg \<Rightarrow> string \<Rightarrow> 'w scen \<Rightarrow> string option" where
  "expect_failure C note s = (let results = map snd (sn_results s);
       failure = (if passed results then None
         else Some (''expect: '' @ lc_fail_reason (sf_loop C) results @ (if note = [] then [] else dash @ note)))
     in if sn_undeclared s = [] then failure
        else Some (case failure of None \<Rightarrow> ''expect: '' @ undeclared_note (sn_undeclared s)
          | Some f \<Rightarrow> f @ dash @ undeclared_note (sn_undeclared s)))"

definition expect_phase :: "'w scen_cfg \<Rightarrow> real \<Rightarrow> ('w scen, string option) prog" where
  "expect_phase C offset = seq (gets (\<lambda>s. sf_interp C (sn_bindings s) (sf_expect C))) (\<lambda>expect.
     seq (evaluate_expect C offset expect) (\<lambda>ok. seq (drain_expect C) (\<lambda>_.
     seq (if ok \<or> rc_guard (primary_cfg C) = None then ret []
          else seq (on_world (recover_expect C)) (\<lambda>(cleared, note).
            seq (if cleared then evaluate_expect C offset expect else ret False) (\<lambda>_.
            seq (drain_expect C) (\<lambda>_. ret note)))) (\<lambda>note.
       gets (expect_failure C note)))))"

section \<open>The scenario, up to its cleanup\<close>

text \<open>Nothing follows a failure.\<close>

definition unless_failed :: "('s, string option) prog \<Rightarrow> string option \<Rightarrow> ('s, string option) prog" where
  "unless_failed m failure = (if failure = None then m else ret failure)"

definition setup_phase :: "'w scen_cfg \<Rightarrow> real \<Rightarrow> ('w scen, string option) prog" where
  "setup_phase C offset = (if sf_setup C = [] then ret None
     else seq (run_phase C offset Setup (sf_cancelled C) (sf_setup C)) (\<lambda>r. ret (map_option (\<lambda>m. ''setup: '' @ m) r)))"

definition blocked_phase :: "'w scen_cfg \<Rightarrow> ('w scen, string option) prog" where
  "blocked_phase C = gets (\<lambda>s. case sn_roster s of None \<Rightarrow> None
     | Some ro \<Rightarrow> map_option (\<lambda>m. ''expect: '' @ m) (expect_blocked ro (sf_expect C)))"

definition verdict_phases :: "'w scen_cfg \<Rightarrow> real \<Rightarrow> ('w scen, string option) prog" where
  "verdict_phases C offset = seq (setup_phase C offset) (\<lambda>f.
     seq (unless_failed (run_phase C offset Main (sf_cancelled C) (sf_steps C)) f) (\<lambda>f.
     seq (unless_failed (blocked_phase C) f) (\<lambda>f.
       unless_failed (if sf_expect C = [] then ret None else expect_phase C offset) f)))"

text \<open>The exceptions that fail a scenario; every other one escapes it.\<close>

fun failure_of :: "exn \<Rightarrow> string option" where
  "failure_of (ChannelFailed m) = Some (''control channel: '' @ m)"
| "failure_of (Unsupported m) = Some (''unsupported: '' @ m)"
| "failure_of RunCancelled = Some cancelled_failure"
| "failure_of e = None"

definition judge_scenario :: "'w scen_cfg \<Rightarrow> real \<Rightarrow> ('w scen, string option) prog" where
  "judge_scenario C offset = catching (\<lambda>e. failure_of e \<noteq> None) (verdict_phases C offset) (\<lambda>e. ret (failure_of e))"

section \<open>Recordings\<close>

definition first_video :: "interval list \<Rightarrow> interval option" where
  "first_video ivs = find (\<lambda>iv. iv_kind iv = ''video'') ivs"

definition video_start_offset :: "interval option \<Rightarrow> real \<Rightarrow> real" where
  "video_start_offset iv start = (case iv of
     None \<Rightarrow> 0
   | Some iv \<Rightarrow> (case iv_measured iv of
       Some t \<Rightarrow> t - start
     | None \<Rightarrow> (case iv_true iv of
         None \<Rightarrow> 0
       | Some t \<Rightarrow> if t - start > 0 then 0 else t - start)))"

definition extra_targets :: "'w scen_cfg \<Rightarrow> string list" where
  "extra_targets C = [n \<leftarrow> sf_started C. n \<noteq> sf_primary C]"

definition target_sid :: "'w scen_cfg \<Rightarrow> string \<Rightarrow> string" where
  "target_sid C name = lc_sid (sf_loop C) @ ''/'' @ name"

definition primary_sid :: "'w scen_cfg \<Rightarrow> roster option \<Rightarrow> string" where
  "primary_sid C ro = (let nests = extra_targets C \<noteq> [] \<or> (case ro of None \<Rightarrow> False | Some ro \<Rightarrow> ro_status ro \<noteq> []) in
     if sf_primary C \<noteq> [] \<and> nests then target_sid C (sf_primary C) else lc_sid (sf_loop C))"

definition phase_steps :: "'w scen_cfg \<Rightarrow> scen_step list" where
  "phase_steps C = sf_setup C @ sf_steps C @ concat (map cu_steps (sf_cleanup C))"

definition wanted_intervals :: "'w scen_cfg \<Rightarrow> 'w runner_cfg \<Rightarrow> string list" where
  "wanted_intervals C R = requested_intervals (lc_policy (sf_loop C)) (phase_steps C) (rc_capture R)"

fun start_extras :: "'w scen_cfg \<Rightarrow> string list \<Rightarrow> ('w, (string \<times> interval list) list) prog" where
  "start_extras C [] = ret []"
| "start_extras C (n # ns) = seq (sf_begin C n (target_sid C n) (wanted_intervals C (sf_runtime C n))) (\<lambda>ivs.
     seq (start_extras C ns) (\<lambda>rest. ret ((n, ivs) # rest)))"

fun finish_extras :: "'w scen_cfg \<Rightarrow> real \<Rightarrow> real \<Rightarrow> (string \<times> interval list) list \<Rightarrow> ('w scen, unit) prog" where
  "finish_extras C start wall [] = ret ()"
| "finish_extras C start wall ((n, ivs) # rest) = seq (on_world (sf_finish C n (target_sid C n) ivs)) (\<lambda>(arts, clips).
     seq (modify (\<lambda>s. s\<lparr>sn_artifacts := sn_artifacts s @ map (\<lambda>a. a\<lparr>af_target := n\<rparr>) arts,
        sn_anchors := (if list_ex (\<lambda>a. af_kind a = ''video'') arts
          then dict_put n (wall + video_start_offset (first_video clips) start) (sn_anchors s) else sn_anchors s)\<rparr>)) (\<lambda>_.
     finish_extras C start wall rest))"

definition finish_recordings :: "'w scen_cfg \<Rightarrow> string \<Rightarrow> interval list \<Rightarrow> (string \<times> interval list) list \<Rightarrow> real \<Rightarrow> real
    \<Rightarrow> ('w scen, unit) prog" where
  "finish_recordings C sid ivs extras start wall = seq (on_world (sf_finish C (sf_primary C) sid ivs)) (\<lambda>(arts, clips).
     seq (modify (\<lambda>s. s\<lparr>sn_artifacts := arts, sn_offset := video_start_offset (first_video clips) start\<rparr>)) (\<lambda>_.
     finish_extras C start wall extras))"

section \<open>The run of a scenario\<close>

record run_result =
  rr_ok :: bool
  rr_failure :: "string option"
  rr_after_verdict :: string
  rr_duration :: real
  rr_video_anchor :: real
  rr_wall_offset :: real
  rr_channel_notes :: "string list"
  rr_channel_degraded :: string
  rr_interactive :: string

fun channel_notes :: "'w scen_cfg \<Rightarrow> 'w runner_cfg list \<Rightarrow> ('w, string list) prog" where
  "channel_notes C [] = ret []"
| "channel_notes C (R # Rs) = seq (rc_notes R Native) (\<lambda>ns. seq (channel_notes C Rs) (\<lambda>rest. ret (ns @ rest)))"

fun degraded_notes :: "'w scen_cfg \<Rightarrow> string list \<Rightarrow> ('w, string list) prog" where
  "degraded_notes C [] = ret []"
| "degraded_notes C (n # ns) = seq (sf_degraded C n) (\<lambda>m. seq (degraded_notes C ns) (\<lambda>rest.
     ret (if m = [] then rest else m # rest)))"

definition hand_driven :: "string option \<Rightarrow> string option \<Rightarrow> string option" where
  "hand_driven manual failure = (case manual of
     Some m \<Rightarrow> if m \<noteq> [] \<and> failure = None then Some (''interactive: '' @ m) else failure
   | None \<Rightarrow> failure)"

definition build_result :: "'w scen_cfg \<Rightarrow> real \<Rightarrow> real \<Rightarrow> string option \<Rightarrow> string \<Rightarrow> ('w scen, run_result) prog" where
  "build_result C start wall failure on = seq (on_world (sf_manual C)) (\<lambda>manual.
     seq (on_world (scen_now C)) (\<lambda>t. seq (gets sn_offset) (\<lambda>offset.
     seq (on_world (channel_notes C (primary_cfg C # map (sf_runtime C) (extra_targets C)))) (\<lambda>notes.
     seq (on_world (degraded_notes C (sf_primary C # extra_targets C))) (\<lambda>degraded.
       let f = hand_driven manual failure in
       ret \<lparr>rr_ok = (f = None), rr_failure = f, rr_after_verdict = on, rr_duration = max 0 (t - start),
         rr_video_anchor = wall + offset, rr_wall_offset = wall - start, rr_channel_notes = notes,
         rr_channel_degraded = join ''; '' degraded, rr_interactive = (case manual of None \<Rightarrow> [] | Some m \<Rightarrow> m)\<rparr>)))))"

definition run_scenario_once :: "'w scen_cfg \<Rightarrow> ('w scen, run_result) prog" where
  "run_scenario_once C = seq (gets (\<lambda>s. primary_sid C (sn_roster s))) (\<lambda>sid.
     seq (on_world (sf_begin C (sf_primary C) sid (wanted_intervals C (primary_cfg C)))) (\<lambda>ivs.
     seq (on_world (start_extras C (extra_targets C))) (\<lambda>extras.
     seq (on_world (scen_now C)) (\<lambda>start. seq (on_world (sf_wall C)) (\<lambda>wall.
     seq (finally_do (seq (judge_scenario C (wall - start)) (run_cleanup C (wall - start)))
            (finish_recordings C sid ivs extras start wall)) (\<lambda>(failure, on).
       build_result C start wall failure on))))))"

end
