(* ===== verification/Kept_Steps.thy ===== *)
theory Kept_Steps
  imports Step_Loop
begin

text \<open>
  What the parts of a step keep: a preorder that every program of an environment keeps is kept by the
  waits, actions, alert reads and guards built from it.  The lemmas are the ones of the locale
  \<open>keeping\<close>, continued here for each component in its own order.
\<close>

section \<open>Waits\<close>

definition wait_kept :: "(exn \<Rightarrow> bool) \<Rightarrow> ('s \<Rightarrow> 's \<Rightarrow> bool) \<Rightarrow> 's wait_env \<Rightarrow> bool" where
  "wait_kept p R E \<longleftrightarrow> kept p R (we_now E) \<and> (\<forall>x. kept p R (we_sleep E x)) \<and> kept p R (we_query E) \<and>
     kept p R (we_network E) \<and> kept p R (we_transitions E) \<and> kept p R (we_cancelled E) \<and>
     (\<forall>g els. we_gate E = Some g \<longrightarrow> kept p R (g els)) \<and> kept p R (we_stuck E) \<and> kept p R (we_blocked E) \<and>
     (\<forall>f els. we_poll E = Some f \<longrightarrow> kept p R (f els))"

context keeping
begin

lemma wait_keptD:
  assumes "wait_kept p R E"
  shows "kept p R (we_now E)" "kept p R (we_sleep E x)" "kept p R (we_query E)" "kept p R (we_network E)"
    "kept p R (we_transitions E)" "kept p R (we_cancelled E)" "kept p R (we_stuck E)" "kept p R (we_blocked E)"
    "we_gate E = Some g \<Longrightarrow> kept p R (g els)" "we_poll E = Some f \<Longrightarrow> kept p R (f els)"
  using assms unfolding wait_kept_def by blast+

lemma kept_observe: "wait_kept p R E \<Longrightarrow> kept p R (observe E els)"
  unfolding observe_def by (intro kept_intros wait_keptD)

lemma kept_stuck_note: "wait_kept p R E \<Longrightarrow> kept p R (stuck_note E)"
  unfolding stuck_note_def by (intro kept_intros wait_keptD)

lemma kept_interrupt_poll: "wait_kept p R E \<Longrightarrow> kept p R (interrupt_poll E els)"
  unfolding interrupt_poll_def by (intro kept_intros wait_keptD)

lemma kept_block_note: "wait_kept p R E \<Longrightarrow> kept p R (with_block_note E r)"
  unfolding with_block_note_def by (intro kept_intros wait_keptD)

lemma kept_stuck_reason: "wait_kept p R E \<Longrightarrow> kept p R (stuck_reason E what start note)"
  unfolding stuck_reason_def by (intro kept_intros wait_keptD)

lemma kept_adaptive_sleep: "wait_kept p R E \<Longrightarrow> kept p R (adaptive_sleep E t)"
  unfolding adaptive_sleep_def by (intro kept_intros wait_keptD)

lemma kept_check_cancelled: "wait_kept p R E \<Longrightarrow> kept p R (check_cancelled E)"
  unfolding check_cancelled_def by (intro kept_intros wait_keptD)

lemmas kept_polls = wait_keptD(1-8) kept_observe kept_stuck_note kept_interrupt_poll kept_block_note
  kept_stuck_reason kept_adaptive_sleep kept_check_cancelled

lemma kept_wait_shown: "wait_kept p R E \<Longrightarrow> kept p R (wait_shown E sel timeout start n)"
proof (induction n)
  case (Suc n)
  show ?case unfolding wait_shown.simps by (intro kept_intros kept_polls Suc.prems Suc.IH)
qed (simp add: wait_shown.simps kept_fuel)

lemma kept_wait_gone: "wait_kept p R E \<Longrightarrow> kept p R (wait_gone E sel timeout start n)"
proof (induction n)
  case (Suc n)
  show ?case unfolding wait_gone.simps by (intro kept_intros kept_polls Suc.prems Suc.IH)
qed (simp add: wait_gone.simps kept_fuel)

lemma kept_wait_request: "wait_kept p R E \<Longrightarrow> kept p R (wait_request E req timeout start n)"
proof (induction n)
  case (Suc n)
  show ?case unfolding wait_request.simps by (intro kept_intros kept_polls Suc.prems Suc.IH)
qed (simp add: wait_request.simps kept_fuel)

lemma kept_wait_changed: "wait_kept p R E \<Longrightarrow> kept p R (wait_changed E before timeout start n)"
proof (induction n)
  case (Suc n)
  show ?case unfolding wait_changed.simps by (intro kept_intros kept_polls Suc.prems Suc.IH)
qed (simp add: wait_changed.simps kept_fuel)

lemma kept_observed: "wait_kept p R E \<Longrightarrow> kept p R (observed E)"
  unfolding observed_def by (intro kept_intros kept_polls)

lemma kept_watched_tree: "wait_kept p R E \<Longrightarrow> kept p R (watched_tree E t)"
  unfolding watched_tree_def by (intro kept_intros kept_observed)

lemma kept_settled_tree: "wait_kept p R E \<Longrightarrow> kept p R (settled_tree E t)"
  unfolding settled_tree_def by (intro kept_intros kept_polls)

lemma kept_settle_by_signal: "wait_kept p R E \<Longrightarrow> kept p R (settle_by_signal E deadline latest current n)"
proof (induction n arbitrary: latest current)
  case (Suc n)
  show ?case
    unfolding settle_by_signal.simps
    by (intro kept_intros kept_polls kept_settled_tree kept_watched_tree Suc.prems Suc.IH)
qed (simp add: settle_by_signal.simps kept_fuel)

lemma kept_settle_loop: "wait_kept p R E \<Longrightarrow> kept p R (settle_loop E start deadline still previous n)"
proof (induction n arbitrary: still previous)
  case (Suc n)
  show ?case
    unfolding settle_loop.simps
    by (intro kept_intros kept_polls kept_watched_tree kept_observed kept_settle_by_signal Suc.prems Suc.IH)
qed (simp add: settle_loop.simps kept_fuel)

lemma kept_wait_settled: "wait_kept p R E \<Longrightarrow> kept p R (wait_settled E start deadline n)"
  unfolding wait_settled_def by (intro kept_intros kept_observed kept_settle_loop)

lemma kept_wait: "wait_kept p R E \<Longrightarrow> kept p R (wait E w n)"
  unfolding wait_def Let_def
  by (cases "w_until w")
    (simp_all, (intro kept_seq kept_polls kept_wait_shown kept_wait_gone kept_wait_request kept_wait_settled
       kept_observed kept_wait_changed | assumption)+)

lemma kept_settle: "wait_kept p R E \<Longrightarrow> kept p R (settle_after_alert_dismiss E n)"
  unfolding settle_after_alert_dismiss_def
  by (intro kept_intros kept_polls kept_wait_settled) (auto simp: wait_kept_def)

end


section \<open>Devices and actions\<close>

definition driver_kept :: "('s \<Rightarrow> 's \<Rightarrow> bool) \<Rightarrow> 's driver \<Rightarrow> bool" where
  "driver_kept R d \<longleftrightarrow> wholly R (dr_query d) \<and> (\<forall>c. wholly R (dr_call d c)) \<and> (\<forall>sel. wholly R (dr_tappable d sel)) \<and>
     (\<forall>m. dr_viewport d = Some m \<longrightarrow> wholly R m) \<and> (\<forall>m. dr_settled d = Some m \<longrightarrow> wholly R m) \<and>
     (\<forall>rs. wholly R (dr_attributes d rs)) \<and> wholly R (dr_alert_labels d) \<and> wholly R (dr_banner_frame d) \<and>
     (\<forall>t. wholly R (dr_dismiss_tip d t)) \<and> (\<forall>m. dr_interruptions d = Some m \<longrightarrow> wholly R m) \<and>
     (\<forall>m. dr_actuations d = Some m \<longrightarrow> wholly R m) \<and> (\<forall>m. dr_crash_signal d = Some m \<longrightarrow> wholly R m)"

definition scroll_kept :: "('s \<Rightarrow> 's \<Rightarrow> bool) \<Rightarrow> 's scroll_env \<Rightarrow> bool" where
  "scroll_kept R E \<longleftrightarrow> driver_kept R (se_driver E) \<and> wholly R (se_now E) \<and> (\<forall>x. wholly R (se_sleep E x)) \<and>
     wholly R (se_capture E)"

definition act_kept :: "('s \<Rightarrow> 's \<Rightarrow> bool) \<Rightarrow> 's act_env \<Rightarrow> bool" where
  "act_kept R A \<longleftrightarrow> scroll_kept R (ae_scroll A) \<and> (\<forall>m. ae_relaunch A = Some m \<longrightarrow> wholly R m) \<and>
     (\<forall>f op. ae_control A = Some f \<longrightarrow> wholly R (f op)) \<and> (\<forall>what args. wholly R (ae_produce A what args))"

context keeping
begin

lemma driver_keptD:
  assumes "driver_kept R d"
  shows "wholly R (dr_query d)" "wholly R (dr_call d c)" "wholly R (dr_tappable d sel)"
    "wholly R (dr_attributes d rs)" "wholly R (dr_alert_labels d)" "wholly R (dr_banner_frame d)"
    "wholly R (dr_dismiss_tip d t)"
    "dr_viewport d = Some mv \<Longrightarrow> wholly R mv" "dr_settled d = Some m \<Longrightarrow> wholly R m"
    "dr_interruptions d = Some mi \<Longrightarrow> wholly R mi" "dr_actuations d = Some ma \<Longrightarrow> wholly R ma"
    "dr_crash_signal d = Some ms \<Longrightarrow> wholly R ms"
  using assms unfolding driver_kept_def by blast+

lemma scroll_keptD:
  assumes "scroll_kept R E"
  shows "driver_kept R (se_driver E)" "wholly R (se_now E)" "wholly R (se_sleep E x)" "wholly R (se_capture E)"
  using assms unfolding scroll_kept_def by blast+

lemma act_keptD:
  assumes "act_kept R A"
  shows "scroll_kept R (ae_scroll A)" "driver_kept R (ae_driver A)" "ae_relaunch A = Some m \<Longrightarrow> wholly R m"
    "ae_control A = Some f \<Longrightarrow> wholly R (f op)" "wholly R (ae_produce A what args)"
  using assms unfolding act_kept_def scroll_kept_def by blast+


lemma wholly_render_digest: "scroll_kept R E \<Longrightarrow> wholly R (render_digest E)"
  unfolding render_digest_def by (intro kept_intros scroll_keptD)

lemma wholly_settled_render_loop: "scroll_kept R E \<Longrightarrow> wholly R (settled_render_loop E deadline previous n)"
proof (induction n arbitrary: previous)
  case (Suc n)
  show ?case unfolding settled_render_loop.simps
    by (intro kept_intros scroll_keptD wholly_render_digest Suc.prems Suc.IH)
qed (simp add: kept_fuel)

lemma wholly_settled_render: "scroll_kept R E \<Longrightarrow> wholly R (settled_render E n)"
  unfolding settled_render_def by (intro kept_intros scroll_keptD wholly_render_digest wholly_settled_render_loop)

lemma wholly_screen_size: "driver_kept R d \<Longrightarrow> wholly R (screen_size d els)"
  unfolding screen_size_def by (intro kept_intros driver_keptD)

lemma wholly_step_endpoints: "wholly R (step_endpoints E els dir inside viewport fraction)"
  unfolding step_endpoints_def by (intro kept_intros)

lemma wholly_resolve_target: "wholly R (resolve_target E els to)"
  unfolding resolve_target_def by (auto intro!: kept_intros split: sum.split selector_error.split)

lemma wholly_region_lag: "scroll_kept R E \<Longrightarrow> wholly R (region_lag_loop E before inside viewport deadline els n)"
proof (induction n arbitrary: els)
  case (Suc n)
  show ?case unfolding region_lag_loop.simps
    by (intro kept_intros scroll_keptD driver_keptD Suc.prems Suc.IH)
qed (simp add: kept_fuel)

lemma wholly_region_after: "scroll_kept R E \<Longrightarrow> wholly R (region_after_step E before inside viewport n)"
  unfolding region_after_step_def by (intro kept_intros scroll_keptD driver_keptD wholly_region_lag)

lemma wholly_judge: "scroll_kept R E \<Longrightarrow> wholly R (judge E to n view st)"
  unfolding judge_def by (intro kept_intros wholly_settled_render)

lemma wholly_scroll_visit:
  "scroll_kept R E \<Longrightarrow> (\<And>f v. wholly R (stop f v)) \<Longrightarrow> (\<And>st v. wholly R (take_step st v))
   \<Longrightarrow> wholly R (scroll_visit E to stop inside viewport axis n st els take_step)"
  unfolding scroll_visit_def by (intro kept_intros wholly_resolve_target wholly_judge)

lemma wholly_scroll_steps:
  "scroll_kept R E \<Longrightarrow> (\<And>f v. wholly R (stop f v))
   \<Longrightarrow> wholly R (scroll_steps E to dir inside stop max_scrolls viewport n k st els)"
proof (induction k arbitrary: st els)
  case 0
  show ?case unfolding scroll_steps.simps by (intro wholly_scroll_visit 0 kept_raise)
next
  case (Suc k)
  show ?case unfolding scroll_steps.simps
    by (intro wholly_scroll_visit kept_intros wholly_step_endpoints scroll_keptD driver_keptD wholly_region_after Suc)
qed

lemma wholly_scroll_to_target:
  "scroll_kept R E \<Longrightarrow> (\<And>f v. wholly R (stop f v)) \<Longrightarrow> wholly R (scroll_to_target E to dir inside max_scrolls stop amount n)"
  unfolding scroll_to_target_def
  by (intro kept_intros scroll_keptD driver_keptD wholly_screen_size wholly_scroll_steps)

lemma wholly_raise_case: "wholly R (case e of NotFound m \<Rightarrow> raise (f m) | _ \<Rightarrow> raise e)"
  by (cases e) (simp_all add: kept_raise)

lemma wholly_uncovered: "scroll_kept R E \<Longrightarrow> wholly R (uncovered E sel dir m n)"
  unfolding uncovered_def scroll_until_tappable_def
  by (intro kept_intros wholly_scroll_to_target wholly_raise_case scroll_keptD driver_keptD)
    (auto intro: kept_intros split: exn.split)

lemma wholly_attempt: "wholly R actuate \<Longrightarrow> wholly R (attempt actuate)"
  unfolding attempt_def by (intro kept_intros)

lemma wholly_recover: "scroll_kept R E \<Longrightarrow> wholly R actuate \<Longrightarrow> wholly R (recover E actuate sel n ds obstruction)"
proof (induction ds arbitrary: obstruction)
  case (Cons d ds)
  obtain m dir where d: "d = (m, dir)" by (cases d)
  show ?case unfolding d recover.simps by (intro kept_intros wholly_uncovered wholly_attempt Cons.prems Cons.IH)
qed (simp add: kept_raise)

lemma wholly_tap: "scroll_kept R E \<Longrightarrow> wholly R actuate \<Longrightarrow> wholly R (tap_with_recovery E actuate sel n)"
  unfolding tap_with_recovery_def by (intro kept_intros wholly_attempt wholly_recover)

lemma wholly_focus: "act_kept R A \<Longrightarrow> wholly R (focus A sel n)"
  unfolding focus_def by (intro wholly_tap act_keptD driver_keptD)

lemma wholly_endpoints: "act_kept R A \<Longrightarrow> wholly R (directional_endpoints A sel dir amount)"
  unfolding directional_endpoints_def Let_def
  by (intro kept_intros wholly_screen_size act_keptD(2) driver_keptD(1,9); (assumption | rule act_keptD(2)))

lemma wholly_value_of: "act_kept R A \<Longrightarrow> wholly R (value_of A sel)"
  unfolding value_of_def by (intro kept_intros act_keptD driver_keptD)

lemma wholly_multi_touch: "wholly R (require_multi_touch A what)"
  unfolding require_multi_touch_def by (intro kept_intros)

lemma wholly_navigate: "act_kept R A \<Longrightarrow> wholly R (do_navigate A u)"
  unfolding do_navigate_def by (intro kept_intros act_keptD driver_keptD)

lemma wholly_clear: "act_kept R A \<Longrightarrow> wholly R (do_clear A sel n)"
  unfolding do_clear_def by (intro kept_intros act_keptD driver_keptD wholly_value_of wholly_focus)

lemma wholly_control: "act_kept R A \<Longrightarrow> wholly R (do_control A op)"
  unfolding do_control_def by (intro kept_intros act_keptD)

lemma wholly_current_size: "driver_kept R d \<Longrightarrow> wholly R (current_size d)"
  unfolding current_size_def by (intro kept_intros driver_keptD)

lemma wholly_run_action: "act_kept R A \<Longrightarrow> wholly R (run_action A n a)"
  by (cases a) (simp_all,
    (intro kept_intros wholly_focus wholly_tap wholly_endpoints wholly_value_of wholly_multi_touch wholly_navigate
       wholly_clear wholly_control wholly_current_size wholly_scroll_to_target act_keptD driver_keptD
     | simp only: on_screen_def | assumption)+)

lemma wholly_do_action: "act_kept R A \<Longrightarrow> wholly R (do_action A n a active)"
  unfolding do_action_def by (intro kept_intros wholly_run_action)

end


section \<open>Bodies\<close>

text \<open>Everything of a wait's environment but the interrupt hook.\<close>

definition base_kept :: "('s \<Rightarrow> 's \<Rightarrow> bool) \<Rightarrow> 's wait_env \<Rightarrow> bool" where
  "base_kept R E \<longleftrightarrow> wait_kept (\<lambda>_. True) R (E\<lparr>we_poll := None\<rparr>)"

definition mail_kept :: "('s \<Rightarrow> 's \<Rightarrow> bool) \<Rightarrow> 's mail_env \<Rightarrow> bool" where
  "mail_kept R M \<longleftrightarrow> (\<forall>f x. ml_fetch M = Some f \<longrightarrow> wholly R (f x)) \<and> (\<forall>name v. wholly R (ml_bind M name v))"

lemma kept_poll_env:
  "base_kept R E \<Longrightarrow> (\<And>f els. we_poll E = Some f \<Longrightarrow> kept p R (f els)) \<Longrightarrow> wait_kept p R E"
  unfolding base_kept_def wait_kept_def by (simp add: wholly_kept)

context keeping
begin

lemma base_keptD:
  assumes "base_kept R E"
  shows "wholly R (we_now E)" "wholly R (we_sleep E x)" "wholly R (we_query E)" "wholly R (we_network E)"
    "wholly R (we_transitions E)" "wholly R (we_cancelled E)"
  using assms by (simp_all add: base_kept_def wait_kept_def)

lemma base_polls:
  assumes "base_kept R E"
  shows "wholly R (adaptive_sleep E t)" "wholly R (check_cancelled E)" "wholly R (with_block_note E r)" "wholly R (observed E)"
  using kept_adaptive_sleep [OF assms [unfolded base_kept_def], of t]
    kept_check_cancelled [OF assms [unfolded base_kept_def]] kept_block_note [OF assms [unfolded base_kept_def], of r]
    kept_observed [OF assms [unfolded base_kept_def]]
  by (cases "we_gate E"; simp add: adaptive_sleep_def check_cancelled_def with_block_note_def observed_def observe_def)+

lemma wholly_with_attributes: "driver_kept R d \<Longrightarrow> wholly R (with_attributes d ctx as)"
  unfolding with_attributes_def by (intro kept_intros driver_keptD)

lemma wholly_check_tick: "base_kept R E \<Longrightarrow> driver_kept R d \<Longrightarrow> wholly R (check_tick E d ctx as)"
  unfolding check_tick_def by (intro kept_intros driver_keptD(1) base_keptD wholly_with_attributes)

lemma wholly_assert_loop: "base_kept R E \<Longrightarrow> driver_kept R d \<Longrightarrow> wholly R (assert_loop E d ctx as deadline n)"
proof (induction n)
  case (Suc n)
  show ?case unfolding assert_loop.simps
    by (intro kept_intros wholly_check_tick base_keptD base_polls Suc.prems Suc.IH)
qed (simp add: kept_fuel)

lemma wholly_poll_asserts: "base_kept R E \<Longrightarrow> driver_kept R d \<Longrightarrow> wholly R (poll_asserts E d ctx as n)"
  unfolding poll_asserts_def by (intro kept_intros base_keptD wholly_assert_loop)

lemma wholly_sleep_loop: "base_kept R E \<Longrightarrow> wholly R (sleep_loop E deadline n)"
proof (induction n)
  case (Suc n)
  show ?case unfolding sleep_loop.simps by (intro kept_intros base_keptD base_polls Suc.prems Suc.IH)
qed (simp add: kept_fuel)

lemma wholly_do_sleep: "base_kept R E \<Longrightarrow> wholly R (do_sleep E x n)"
  unfolding do_sleep_def by (intro kept_intros base_keptD wholly_sleep_loop)

lemma mail_keptD: "mail_kept R M \<Longrightarrow> ml_fetch M = Some f \<Longrightarrow> wholly R (f x)" "mail_kept R M \<Longrightarrow> wholly R (ml_bind M name v)"
  by (simp_all add: mail_kept_def)

lemma wholly_email_loop:
  "base_kept R E \<Longrightarrow> mail_kept R M \<Longrightarrow> (\<And>x. wholly R (fetch x)) \<Longrightarrow> wholly R (email_loop E M fetch e known deadline n)"
proof (induction n)
  case (Suc n)
  show ?case unfolding email_loop.simps
    by (intro kept_intros base_keptD base_polls mail_keptD(2) Suc.prems Suc.IH)
qed (simp add: kept_fuel)

lemma wholly_do_email: "base_kept R E \<Longrightarrow> mail_kept R M \<Longrightarrow> wholly R (do_email E M e n)"
  unfolding do_email_def by (intro kept_intros base_keptD wholly_email_loop) (auto intro: mail_keptD)

lemma wholly_window_loop: "base_kept R E \<Longrightarrow> wholly R wall \<Longrightarrow> wholly R (window_loop E wall target deadline n)"
proof (induction n)
  case (Suc n)
  show ?case unfolding window_loop.simps by (intro kept_intros base_keptD base_polls Suc.prems Suc.IH)
qed (simp add: kept_fuel)

lemma wholly_window: "base_kept R E \<Longrightarrow> wholly R wall \<Longrightarrow> wholly R (wait_for_totp_window E wall m n)"
  unfolding wait_for_totp_window_def by (intro kept_intros base_keptD wholly_window_loop)

lemma wholly_extract_loop:
  "base_kept R E \<Longrightarrow> driver_kept R d \<Longrightarrow> wholly R (settle_extract_loop E d key barrier deadline tree k n)"
proof (induction n arbitrary: tree k)
  case (Suc n)
  show ?case unfolding settle_extract_loop.simps Let_def
    by (intro kept_intros base_keptD base_polls driver_keptD(1) Suc.prems Suc.IH)
qed (simp add: kept_fuel)

lemma wholly_settle_extract: "base_kept R E \<Longrightarrow> driver_kept R d \<Longrightarrow> wholly R (settle_extract_read E d lag exts initial t n)"
  unfolding settle_extract_read_def Let_def
  by (intro kept_intros base_keptD driver_keptD(1) wholly_extract_loop)

lemma wholly_banner_loop: "base_kept R E \<Longrightarrow> driver_kept R d \<Longrightarrow> wholly R (banner_loop E d deadline n)"
proof (induction n)
  case (Suc n)
  show ?case unfolding banner_loop.simps by (intro kept_intros base_keptD driver_keptD(6) Suc.prems Suc.IH)
qed (simp add: kept_fuel)

lemma wholly_clear_banner: "base_kept R E \<Longrightarrow> driver_kept R d \<Longrightarrow> wholly R (clear_notification_banner E d n)"
  unfolding clear_notification_banner_def
  by (intro kept_intros base_keptD driver_keptD(2,6) wholly_banner_loop)

lemma wholly_sweep_banner:
  "base_kept R E \<Longrightarrow> driver_kept R d \<Longrightarrow> (\<And>t. wholly R (f t)) \<Longrightarrow> wholly R (sweep_notification_banner E d interval latest f n)"
  unfolding sweep_notification_banner_def by (intro kept_intros base_keptD wholly_clear_banner)

lemma wholly_clipboard: "(\<And>m. c = Some m \<Longrightarrow> wholly R m) \<Longrightarrow> wholly R (clipboard_for as c)"
  unfolding clipboard_for_def by (intro kept_intros)

end

section \<open>Alerts\<close>

definition alert_kept :: "('s \<Rightarrow> 's \<Rightarrow> bool) \<Rightarrow> 's alert_env \<Rightarrow> bool" where
  "alert_kept R V \<longleftrightarrow> base_kept R (av_wait V) \<and> driver_kept R (av_driver V) \<and>
     (\<forall>m. av_titles V = Some m \<longrightarrow> wholly R m) \<and> (\<forall>q mode force. av_read V = Some q \<longrightarrow> wholly R (q mode force)) \<and>
     (\<forall>bs. wholly R (av_answer V bs)) \<and> (\<forall>x s. R s (av_put_reads V x s)) \<and> (\<forall>x s. R s (av_put_gate V x s)) \<and>
     (\<forall>f e. av_event V = Some f \<longrightarrow> wholly R (f e)) \<and> (\<forall>t. wholly R (av_tapped V t))"

context keeping
begin

lemma alert_keptD:
  assumes "alert_kept R V"
  shows "base_kept R (av_wait V)" "driver_kept R (av_driver V)" "av_titles V = Some m \<Longrightarrow> wholly R m"
    "av_read V = Some q \<Longrightarrow> wholly R (q mode force)" "wholly R (av_answer V bs)" "R s (av_put_reads V x s)"
    "R s (av_put_gate V g s)" "av_event V = Some f \<Longrightarrow> wholly R (f e)" "wholly R (av_tapped V t)"
  using assms unfolding alert_kept_def by blast+

lemma wholly_take_reads: "alert_kept R V \<Longrightarrow> wholly R (take_reads V)"
  unfolding take_reads_def by (intro kept_intros kept_modify alert_keptD(6))

lemma wholly_read_view: "alert_kept R V \<Longrightarrow> wholly R (read_view V mode keep)"
  unfolding read_view_def by (intro kept_intros kept_modify alert_keptD(6)) (auto intro: alert_keptD driver_keptD)

lemma wholly_open_gate: "alert_kept R V \<Longrightarrow> wholly R (open_gate V)"
  unfolding open_gate_def by (intro kept_intros kept_modify alert_keptD(7) wholly_take_reads)

lemma wholly_update_gate: "alert_kept R V \<Longrightarrow> wholly R (update_gate V f)"
  unfolding update_gate_def by (intro kept_modify alert_keptD(7))

lemma wholly_gate_observe: "base_kept R E \<Longrightarrow> wholly R (gate_observe E c has polled els g)"
  unfolding gate_observe_def observe_collapsed_def by (intro kept_intros base_keptD)

lemma wholly_gate_step: "alert_kept R V \<Longrightarrow> wholly R (gate_step V c els)"
  unfolding gate_step_def
  by (intro kept_intros kept_modify alert_keptD(7) wholly_take_reads wholly_gate_observe alert_keptD(1))

lemma base_gated: "alert_kept R V \<Longrightarrow> base_kept R (gated_wait V)"
  unfolding base_kept_def wait_kept_def gated_wait_def
  by (auto intro: base_keptD alert_keptD(1) wholly_read_view wholly_gate_step kept_gets)

lemma base_alert_env: "alert_kept R V \<Longrightarrow> base_kept R (alert_env_of V a)"
  using base_gated [of V] unfolding alert_env_of_def base_kept_def wait_kept_def
  by (auto intro: wholly_read_view driver_keptD(1) alert_keptD(2))

lemma wholly_observed_labels: "alert_kept R V \<Longrightarrow> wholly R (observed_labels V titled)"
  unfolding observed_labels_def by (intro kept_intros alert_keptD(3) driver_keptD(5) alert_keptD(2))

lemma wholly_handle_alert: "driver_kept R d \<Longrightarrow> wholly R (handle_alert d sel)"
  unfolding handle_alert_def by (intro kept_intros driver_keptD(2)) (auto intro: kept_intros split: exn.split)

lemma wholly_each: "(\<And>x. wholly R (f x)) \<Longrightarrow> wholly R (each f xs)"
  by (induction xs) (auto intro: kept_intros)

lemma wholly_report_all: "alert_kept R V \<Longrightarrow> wholly R (report_all V evs)"
  unfolding report_all_def by (intro kept_intros wholly_each alert_keptD(8))

lemma wholly_policy_answered: "alert_kept R V \<Longrightarrow> wholly R drain \<Longrightarrow> wholly R (policy_answered V drain sel title)"
  unfolding policy_answered_def by (intro kept_intros wholly_report_all alert_keptD(9))

lemma wholly_resolve_other: "alert_kept R V \<Longrightarrow> wholly R (resolve_other V a t0 w)"
  unfolding resolve_other_def by (intro kept_intros alert_keptD(5) wholly_update_gate)

lemma wholly_handled: "(\<And>h. wholly R (f h)) \<Longrightarrow> wholly R m \<Longrightarrow> wholly R (seq m f)"
  by (intro kept_intros)

lemma wholly_alert_look: "alert_kept R V \<Longrightarrow> wholly R (alert_look V a title t0 w)"
  unfolding alert_look_def Let_def
  by (intro kept_intros wholly_observed_labels wholly_update_gate wholly_handle_alert alert_keptD(2) wholly_resolve_other
      wholly_policy_answered)
    (auto intro: kept_intros alert_keptD(9) driver_keptD(10) alert_keptD(2) split: handled.split)

lemma wholly_alert_loop: "alert_kept R V \<Longrightarrow> wholly R (alert_loop V a timeout title deadline w n)"
proof (induction n arbitrary: w)
  case (Suc n)
  show ?case unfolding alert_loop.simps
    by (intro kept_intros base_keptD base_polls alert_keptD(1) wholly_alert_look base_alert_env Suc.prems Suc.IH)
qed (simp add: kept_fuel)

lemma wholly_alert_wait: "alert_kept R V \<Longrightarrow> wholly R (wait_for_system_alert V a timeout title n)"
  unfolding wait_for_system_alert_def
  by (intro kept_intros driver_keptD(2) alert_keptD(1,2) base_keptD wholly_open_gate wholly_alert_loop)

end


section \<open>Guards and bodies around them\<close>

definition guard_kept :: "(exn \<Rightarrow> bool) \<Rightarrow> ('s \<Rightarrow> 's \<Rightarrow> bool) \<Rightarrow> 's guard_env \<Rightarrow> bool" where
  "guard_kept p R G \<longleftrightarrow> driver_kept R (ge_driver G) \<and> wholly R (ge_network G) \<and>
     (\<forall>i k. wholly R (set_fires G i k)) \<and> (\<forall>i. kept p R (recover_entry G i))"

definition body_kept :: "(exn \<Rightarrow> bool) \<Rightarrow> ('s \<Rightarrow> 's \<Rightarrow> bool) \<Rightarrow> 's body_env \<Rightarrow> bool" where
  "body_kept p R B \<longleftrightarrow> base_kept R (bo_wait B) \<and> (\<forall>f els. we_poll (bo_wait B) = Some f \<longrightarrow> kept p R (f els)) \<and>
     driver_kept R (bo_driver B) \<and> (\<forall>n a. wholly R (bo_do B n a)) \<and> wholly R (bo_unselect B) \<and>
     mail_kept R (bo_mail B) \<and> wholly R (bo_wall B) \<and> wholly R (bo_open B) \<and> (\<forall>a t. wholly R (bo_alert B a t)) \<and>
     (\<forall>m. wholly R (bo_mocks B m)) \<and> (\<forall>m. bo_clipboard B = Some m \<longrightarrow> wholly R m) \<and> wholly R (bo_visual B) \<and>
     (\<forall>x. wholly R (bo_warn B x))"

context keeping
begin

lemma guard_keptD:
  assumes "guard_kept p R G"
  shows "driver_kept R (ge_driver G)" "wholly R (ge_network G)" "wholly R (set_fires G i k)" "kept p R (recover_entry G i)"
  using assms unfolding guard_kept_def by blast+

lemma wholly_holds_now: "guard_kept p R G \<Longrightarrow> wholly R (holds_now G els net c)"
  unfolding holds_now_def by (intro kept_intros wholly_with_attributes guard_keptD(1))

lemma kept_fire_entries: "guard_kept p R G \<Longrightarrow> kept p R (fire_entries G els net i cs fired)"
proof (induction cs arbitrary: i fired)
  case (Cons c cs)
  show ?case unfolding fire_entries.simps
    by (intro kept_intros guard_keptD(4) [OF Cons.prems] wholly_kept [OF wholly_holds_now [OF Cons.prems]]
        wholly_kept [OF guard_keptD(3) [OF Cons.prems]] Cons.IH Cons.prems)
qed (simp add: kept_ret)

lemma kept_fire_once: "guard_kept p R G \<Longrightarrow> kept p R (fire_once G els)"
  unfolding fire_once_def by (intro kept_seq kept_fire_entries wholly_kept [OF guard_keptD(2)])

lemma kept_guard_failed: "kept p R (guard_failed G)"
  unfolding guard_failed_def by (rule kept_gets)

lemma kept_guard_observe: "guard_kept p R G \<Longrightarrow> kept p R (guard_observe G els)"
  unfolding guard_observe_def by (intro kept_intros kept_fire_once kept_guard_failed)

lemma kept_clear_before_act: "guard_kept p R G \<Longrightarrow> kept p R (clear_before_act G els n)"
proof (induction n arbitrary: els)
  case (Suc n)
  show ?case unfolding clear_before_act.simps
    by (intro kept_intros kept_fire_once kept_guard_failed wholly_kept [OF driver_keptD(1) [OF guard_keptD(1) [OF Suc.prems]]]
        Suc.prems Suc.IH)
qed (simp add: kept_fuel)

lemma kept_tip_poll_hook:
  assumes "driver_kept R d" "\<And>s. R s (add_one s)" "\<And>f els. poll = Some f \<Longrightarrow> kept p R (f els)"
    and "tip_poll_hook dismisses d dismissed add_one poll = Some g"
  shows "kept p R (g els)"
proof (cases "handles_tips dismisses d")
  case True
  then have g: "g = tip_poll d dismissed add_one poll" using assms(4) by (simp add: tip_poll_hook_def)
  show ?thesis unfolding g tip_poll_def
    by (intro kept_intros kept_modify assms(2,3) wholly_kept [OF driver_keptD(7) [OF assms(1)]])
qed (use assms in \<open>simp add: tip_poll_hook_def\<close>)

lemma body_keptD:
  assumes "body_kept p R B"
  shows "base_kept R (bo_wait B)" "we_poll (bo_wait B) = Some f \<Longrightarrow> kept p R (f els)" "driver_kept R (bo_driver B)"
    "wholly R (bo_do B n a)" "wholly R (bo_unselect B)" "mail_kept R (bo_mail B)" "wholly R (bo_wall B)"
    "wholly R (bo_open B)" "wholly R (bo_alert B al t)" "wholly R (bo_mocks B mk)"
    "bo_clipboard B = Some m \<Longrightarrow> wholly R m" "wholly R (bo_visual B)" "wholly R (bo_warn B x)"
  using assms unfolding body_kept_def by blast+

lemma wholly_assert_body: "body_kept p R B \<Longrightarrow> wholly R (assert_body B as show_fail n)"
  unfolding assert_body_def
  by (intro kept_intros wholly_clipboard wholly_clear_banner wholly_poll_asserts body_keptD(1,3,11,12))

lemma wholly_align: "body_kept p R B \<Longrightarrow> wholly R (align_totp_window B m n)"
  unfolding align_totp_window_def by (intro kept_intros wholly_window body_keptD(1,7,13))

lemma wholly_mocks: "body_kept p R B \<Longrightarrow> wholly R (catching is_channel_error (seq (bo_mocks B m) (\<lambda>_. ret v)) h)"
  if "\<And>e. wholly R (h e)"
  by (intro kept_intros body_keptD(10) that)

lemma kept_leaf_body:
  assumes "body_kept p R B"
  shows "kept p R (leaf_body B show_fail n l)"
proof (cases l)
  case (LWait w)
  show ?thesis
    unfolding LWait leaf_body.simps
    by (intro kept_intros wholly_kept [OF body_keptD(8) [OF assms]] kept_wait kept_poll_env body_keptD(1) [OF assms] body_keptD(2) [OF assms])
next
  case (LAlert a t)
  show ?thesis
    unfolding LAlert leaf_body.simps
    by (intro kept_intros wholly_kept [OF body_keptD(9) [OF assms]] wholly_kept [OF body_keptD(5) [OF assms]])
next
  case (LSetMocks m)
  show ?thesis
    unfolding LSetMocks leaf_body.simps by (rule wholly_kept, rule wholly_mocks [OF kept_ret assms])
next
  case (LSleep x)
  show ?thesis
    unfolding LSleep leaf_body.simps by (intro kept_intros wholly_kept [OF wholly_do_sleep] body_keptD(1) [OF assms])
next
  case (LEmail e)
  show ?thesis
    unfolding LEmail leaf_body.simps by (intro kept_intros wholly_kept [OF wholly_do_email] body_keptD(1,6) [OF assms])
next
  case (LAssert as)
  show ?thesis
    unfolding LAssert leaf_body.simps by (rule wholly_kept, rule wholly_assert_body [OF assms])
next
  case (LTotp m args)
  show ?thesis
    unfolding LTotp leaf_body.simps
    by (intro kept_intros wholly_kept [OF wholly_align [OF assms]] wholly_kept [OF body_keptD(4) [OF assms]])
next
  case (LAct a)
  show ?thesis
    unfolding LAct leaf_body.simps by (intro kept_intros wholly_kept [OF body_keptD(4) [OF assms]])
qed

lemma kept_run_step_body:
  assumes "body_kept p R B" "\<And>e. body_refusal e \<Longrightarrow> p e" "wholly R note"
  shows "kept p R (run_step_body B show_fail note n l)"
  unfolding run_step_body_def
  by (intro kept_catching kept_leaf_body assms(1,2) kept_intros wholly_kept [OF assms(3)])

end

end
