(* ===== verification/Loop_Quiet.thy ===== *)
theory Loop_Quiet
  imports Kept_Steps
begin

text \<open>
  The parts of a leaf step that only read and act: they leave the outcomes, the counter, the latches,
  the roster and the step's guard as they found them, whatever the devices do and however they end.
\<close>

definition quiet :: "'w ls \<Rightarrow> 'w ls \<Rightarrow> bool" where
  "quiet s t \<longleftrightarrow> ls_next t = ls_next s \<and> ls_outcomes t = ls_outcomes s \<and> ls_latches t = ls_latches s \<and>
     ls_roster t = ls_roster s \<and> ls_recovering t = ls_recovering s \<and> ll_guard (ls_local t) = ll_guard (ls_local s)"

interpretation quiet: keeping quiet
  by unfold_locales (simp_all add: quiet_def)

section \<open>The environments\<close>

lemma lift_quiet: "wholly quiet (lift m)"
  unfolding lift_def by (rule keeps_kept) (auto simp: keeps_iff on_part_def quiet_def split: prod.splits)

lemma lift_quiet': "wholly quiet (on_part ls_world (\<lambda>w s. s\<lparr>ls_world := w\<rparr>) m)"
  using lift_quiet [of m] by (simp add: lift_def)

lemma lifted_driver_quiet: "driver_kept quiet (lift_driver ls_world (\<lambda>w s. s\<lparr>ls_world := w\<rparr>) d)"
  unfolding driver_kept_def lift_driver_def by (auto simp: lift_quiet')

lemma own_driver_quiet: "driver_kept quiet (own_driver L r)"
  unfolding own_driver_def by (rule lifted_driver_quiet)

lemma active_driver_quiet: "driver_kept quiet (active_driver L r d)"
  unfolding active_driver_def by (auto simp: own_driver_quiet lifted_driver_quiet split: drv.split option.split)

lemma loop_wait_quiet: "base_kept quiet (loop_wait L r d)"
  unfolding base_kept_def wait_kept_def loop_wait_def Let_def
  using quiet.driver_keptD(1) [OF active_driver_quiet, of L r d] by (simp add: lift_quiet quiet.kept_ret)

lemma set_local_quiet: "(\<And>l. ll_guard (f l) = ll_guard l) \<Longrightarrow> wholly quiet (set_local f)"
  unfolding set_local_def by (rule quiet.kept_modify) (simp add: quiet_def)

lemma alert_env_quiet: "alert_kept quiet (step_alerts L r d)"
  unfolding alert_kept_def step_alerts_def Let_def
  by (auto simp: loop_wait_quiet active_driver_quiet lift_quiet set_local_quiet) (simp_all add: quiet_def)

lemma retry_env_quiet: "alert_kept R V \<Longrightarrow> alert_kept R (retry_env V)"
  unfolding alert_kept_def retry_env_def by simp

lemma modify_quiet:
  "(\<And>s. quiet s (f s)) \<Longrightarrow> wholly quiet (modify f)"
  by (rule quiet.kept_modify)

lemma action_env_quiet: "driver_kept quiet dr \<Longrightarrow> act_kept quiet (action_env L r dr)"
  unfolding act_kept_def scroll_kept_def action_env_def Let_def
  by (auto intro!: quiet.kept_intros modify_quiet simp: lift_quiet quiet_def)

lemma action_driver_quiet: "alert_kept quiet V \<Longrightarrow> driver_kept quiet (action_driver L r d V)"
  unfolding action_driver_def
  using active_driver_quiet [of L r d] quiet.wholly_read_view [of V FullRead True] by (auto simp: driver_kept_def)

lemma on_selection_quiet: "(\<And>sel. wholly quiet (m sel)) \<Longrightarrow> wholly quiet (on_selection m)"
  unfolding on_selection_def by (intro quiet.kept_intros modify_quiet) (simp_all add: quiet_def)

lemma bind_var_quiet: "wholly quiet (bind_var name v)"
  unfolding bind_var_def by (rule modify_quiet) (simp add: quiet_def)

lemma refused_quiet: "wholly quiet refused"
  unfolding refused_def by (rule set_local_quiet) simp

lemma start_body_quiet: "wholly quiet start_body"
  unfolding start_body_def by (rule set_local_quiet) simp

text \<open>A relation the quiet parts keep, and what an interrupt hook adds to it.\<close>

lemma driver_kept_mono: "driver_kept R d \<Longrightarrow> (\<And>s t. R s t \<Longrightarrow> S s t) \<Longrightarrow> driver_kept S d"
  unfolding driver_kept_def by (blast intro: kept_mono)

lemma quiet_wholly: "(\<And>s t. quiet s t \<Longrightarrow> R s t) \<Longrightarrow> wholly quiet m \<Longrightarrow> wholly R m"
  by (rule kept_mono)

lemma base_kept_mono: "base_kept R E \<Longrightarrow> (\<And>s t. R s t \<Longrightarrow> S s t) \<Longrightarrow> base_kept S E"
  unfolding base_kept_def wait_kept_def by (blast intro: kept_mono)

lemma mail_kept_mono: "mail_kept R M \<Longrightarrow> (\<And>s t. R s t \<Longrightarrow> S s t) \<Longrightarrow> mail_kept S M"
  unfolding mail_kept_def by (blast intro: kept_mono)

lemma body_mail_quiet: "mail_kept quiet \<lparr>ml_fetch = map_option (\<lambda>f x. lift (f x)) fetch, ml_group = g, ml_bind = bind_var\<rparr>"
  unfolding mail_kept_def by (auto simp: lift_quiet bind_var_quiet)

lemma body_env_kept:
  assumes quiet: "\<And>s t. quiet s t \<Longrightarrow> R s t" and V: "alert_kept quiet V"
    and poll: "\<And>f els. poll = Some f \<Longrightarrow> kept p R (f els)"
  shows "body_kept p R (body_env_of L r d st V poll)"
proof -
  have base: "base_kept quiet ((gated_wait V)\<lparr>we_poll := poll\<rparr>)"
    using quiet.base_gated [OF V] by (simp add: base_kept_def)
  have act: "wholly quiet (on_selection (do_action (action_env L r (action_driver L r d V)) n a))" for n a
    by (intro on_selection_quiet quiet.wholly_do_action action_env_quiet action_driver_quiet V)
  have warn: "wholly quiet (set_local (\<lambda>l. l\<lparr>ll_warnings := ll_warnings l @ [w]\<rparr>))" for w
    by (rule set_local_quiet) simp
  have off: "wholly quiet (modify (\<lambda>s. s\<lparr>ls_selection := False\<rparr>))"
    by (rule modify_quiet) (simp add: quiet_def)
  show ?thesis
    unfolding body_kept_def body_env_of_def Let_def
    by (auto intro!: quiet_wholly [OF quiet] base_kept_mono [OF base] driver_kept_mono [OF active_driver_quiet] mail_kept_mono [OF body_mail_quiet]
        lift_quiet act off warn quiet poll modify_quiet
        quiet.wholly_open_gate [OF V] quiet.wholly_alert_wait [OF V])
qed

section \<open>The phases of a leaf step around its body\<close>

context keeping
begin

lemma kept_seq_value:
  assumes "\<And>s. wp True m (\<lambda>v t. R s t \<and> V v) (\<lambda>e t. p e \<longrightarrow> R s t) s" "\<And>v. V v \<Longrightarrow> kept p R (f v)"
  shows "kept p R (seq m f)"
proof (rule keptI, unfold wp_seq, rule wp_mono [OF assms(1)])
  fix s v t assume t: "R s t \<and> V v"
  show "wp True (f v) (\<lambda>v. R s) (\<lambda>e t. p e \<longrightarrow> R s t) t"
    by (rule kept_wp [OF assms(2)]) (use t in \<open>auto intro: R_trans [of s t]\<close>)
qed

lemma kept_nested_pair: "(\<And>a b. v = (a, b) \<Longrightarrow> kept p R (f a b z)) \<Longrightarrow> kept p R ((case v of (a, b) \<Rightarrow> f a b) z)"
  by (cases v) simp

end

lemmas loop_driver_quiet = quiet.driver_keptD [OF active_driver_quiet] quiet.driver_keptD [OF own_driver_quiet]

lemma seed_quiet: "wholly quiet (seed_prev_after L r d)"
  unfolding seed_prev_after_def count_read_def
  by (intro quiet.kept_intros loop_driver_quiet modify_quiet) (simp_all add: quiet_def)

lemma capture_quiet: "wholly quiet (capture L r i tokens reuse els source)"
  unfolding capture_def by (rule lift_quiet)

lemma baseline_quiet: "wholly quiet (baseline L r i kind oc)"
  unfolding baseline_def by (intro quiet.kept_intros capture_quiet)

lemma count_read_quiet: "wholly quiet count_read"
  unfolding count_read_def by (rule modify_quiet) (simp add: quiet_def)

lemma before_read_quiet: "wholly quiet (before_read L r d kind seeded)"
  unfolding before_read_def by (intro quiet.kept_intros loop_driver_quiet count_read_quiet)

lemma front_read_quiet: "wholly quiet (front_read L r d kind p)"
  unfolding front_read_def by (intro quiet.kept_intros loop_driver_quiet count_read_quiet)

lemma settle_quiet: "wholly quiet (settle L r d)"
  unfolding settle_def
  by (rule quiet.kept_settle) (use loop_wait_quiet [of L r d] in \<open>auto simp: base_kept_def loop_wait_def Let_def wait_kept_def\<close>)

lemma clear_entry_quiet: "wholly quiet (clear_entry_alert L r d kind)"
  unfolding clear_entry_alert_def by (intro quiet.kept_intros lift_quiet settle_quiet)

lemma entry_check_quiet: "wholly quiet (entry_check L r d kind p)"
  unfolding entry_check_def by (intro quiet.kept_intros clear_entry_quiet modify_quiet) (simp add: quiet_def)

lemma duration_quiet: "wholly quiet (duration L r start)"
  unfolding duration_def loop_now_def by (intro quiet.kept_intros lift_quiet)

lemma interruptions_quiet: "driver_kept quiet dr \<Longrightarrow> wholly quiet (drain_interruptions dr)"
  unfolding drain_interruptions_def by (intro quiet.kept_intros) (auto simp: driver_kept_def)

lemma actuations_quiet: "driver_kept quiet dr \<Longrightarrow> wholly quiet (drain_actuations dr x)"
  unfolding drain_actuations_def by (intro quiet.kept_intros) (auto simp: driver_kept_def)

lemma step_interruptions_quiet: "driver_kept quiet dr \<Longrightarrow> wholly quiet (drain_step_interruptions dr oc)"
  unfolding drain_step_interruptions_def by (intro quiet.kept_intros interruptions_quiet)

lemma drain_reserved_quiet: "wholly quiet (drain_reserved L r d)"
  unfolding drain_reserved_def keep_reserved_def
  by (intro quiet.kept_intros interruptions_quiet active_driver_quiet modify_quiet) (simp add: quiet_def)

lemma reserve_declared_quiet: "wholly quiet (reserve_declared L r d st)"
  unfolding reserve_declared_def by (intro quiet.kept_intros drain_reserved_quiet lift_quiet)

lemma release_reserved_quiet: "wholly quiet (release_reserved L r d)"
  unfolding release_reserved_def by (intro quiet.kept_intros drain_reserved_quiet lift_quiet)

lemma try_tip_quiet: "wholly quiet (try_tip L r d guard_done o')"
  unfolding try_tip_def dismiss_blocking_tip_def by (intro quiet.kept_intros loop_driver_quiet)

lemma take_reads_quiet: "wholly quiet (take_reads (step_alerts L r d))"
  by (rule quiet.wholly_take_reads [OF alert_env_quiet])

lemma sweep_quiet: "wholly quiet (sweep L r)"
  unfolding sweep_def
  by (intro quiet.kept_intros quiet.wholly_sweep_banner loop_wait_quiet own_driver_quiet modify_quiet) (simp_all add: quiet_def)

lemma drain_taps_quiet: "wholly quiet (drain_taps L r d oc)"
  unfolding drain_taps_def by (intro quiet.kept_intros actuations_quiet active_driver_quiet own_driver_quiet)

lemma drain_both_quiet: "wholly quiet (drain_both L r d oc)"
  unfolding drain_both_def by (intro quiet.kept_intros step_interruptions_quiet active_driver_quiet own_driver_quiet)

lemma after_body_quiet: "wholly quiet (after_body L r d start o' oc)"
  unfolding after_body_def by (intro quiet.kept_intros duration_quiet sweep_quiet drain_taps_quiet drain_both_quiet)

lemma screen_get_quiet: "wholly quiet read \<Longrightarrow> wholly quiet (screen_get read sr)"
  unfolding screen_get_def by (intro quiet.kept_intros)

lemma open_screen_quiet:
  assumes "\<And>read sr. wholly quiet read \<Longrightarrow> wholly quiet (f (read, sr))"
  shows "wholly quiet (seq (open_screen L r d exts ok snapshot) f)"
proof (rule quiet.kept_seq_value [where V = "\<lambda>x. wholly quiet (fst x)"])
  note settled = quiet.wholly_settle_extract [OF loop_wait_quiet active_driver_quiet, of L r d L r d "rc_lag (lc_runner L r)" exts]
  fix s
  have now: "wholly quiet (we_now (loop_wait L r d))" using loop_wait_quiet [of L r d] by (rule quiet.base_keptD)
  show "wp True (open_screen L r d exts ok snapshot) (\<lambda>v t. quiet s t \<and> wholly quiet (fst v)) (\<lambda>e t. True \<longrightarrow> quiet s t) s"
    unfolding open_screen_def Let_def
    by (auto simp: wp_simps loop_driver_quiet(1) settled quiet.R_refl intro!: kept_wp [OF settled] kept_wp [OF now]
        split: option.split)
next
  show "wholly quiet (f v)" if "wholly quiet (fst v)" for v
    using assms [of "fst v" "snd v"] that by simp
qed

lemma changed_read_quiet: "wholly quiet read \<Longrightarrow> wholly quiet (changed_read L kind exts p read sr oc)"
  unfolding changed_read_def by (intro quiet.kept_intros screen_get_quiet)

lemma wait_diagnostic_quiet: "wholly quiet read \<Longrightarrow> wholly quiet (wait_diagnostic L r i l o' read sr oc)"
  unfolding wait_diagnostic_def by (intro quiet.kept_intros screen_get_quiet lift_quiet)

lemma extract_values_quiet: "wholly quiet read \<Longrightarrow> wholly quiet (extract_values L r exts read sr oc)"
  unfolding extract_values_def
  by (intro quiet.kept_intros screen_get_quiet modify_quiet) (simp_all add: quiet_def)

lemma note_warnings_quiet: "wholly quiet (note_warnings L r d oc)"
  unfolding note_warnings_def by (intro quiet.kept_intros lift_quiet)

lemma evidence_read_quiet: "wholly quiet read \<Longrightarrow> wholly quiet (evidence_read L r d st kind changed read sr oc)"
  unfolding evidence_read_def by (intro quiet.kept_intros screen_get_quiet)

lemma read_phase_quiet: "wholly quiet (read_phase L r d st i kind l exts p o' oc)"
  unfolding read_phase_def
  by (rule open_screen_quiet, unfold prod.case) (intro quiet.kept_intros quiet.kept_nested_pair changed_read_quiet wait_diagnostic_quiet extract_values_quiet
      note_warnings_quiet evidence_read_quiet capture_quiet)

lemma with_after_shot_quiet: "wholly quiet m \<Longrightarrow> wholly quiet (with_after_shot L r m)"
  unfolding with_after_shot_def Let_def by (intro quiet.kept_intros lift_quiet)

lemma leave_screen_quiet: "wholly quiet (leave_screen L r sr shot)"
  unfolding leave_screen_def by (rule modify_quiet) (simp add: quiet_def)

lemma after_phase_quiet: "wholly quiet (after_phase L r d st i kind l exts p o' oc)"
  unfolding after_phase_def
  by (intro quiet.kept_intros quiet.kept_nested_pair lift_quiet with_after_shot_quiet read_phase_quiet leave_screen_quiet)

lemma locale_failure_quiet: "wholly quiet (locale_failure L r d i start reason oc)"
  unfolding locale_failure_def
  by (intro quiet.kept_intros duration_quiet actuations_quiet step_interruptions_quiet active_driver_quiet seed_quiet capture_quiet)

lemma probe_quiet: "wholly quiet (probe_app_crash (active_driver L r d))"
  unfolding probe_app_crash_def by (intro quiet.kept_intros loop_driver_quiet)

end
