(* ===== verification/Kept_Leaf.thy ===== *)
theory Kept_Leaf
  imports Loop_Quiet
begin

text \<open>
  What a whole leaf step keeps.  A relation that the quiet parts keep, and that the recoveries of the
  step's guard keep, is kept by the step up to its outcome.
\<close>

definition recovers :: "(exn \<Rightarrow> bool) \<Rightarrow> ('w ls \<Rightarrow> 'w ls \<Rightarrow> bool) \<Rightarrow> 'w loop_cfg \<Rightarrow> 'w rec \<Rightarrow> bool" where
  "recovers p R L rec \<longleftrightarrow> (\<forall>r d ints b i. kept p R (recover_entry (step_guard L rec r d ints b) i))"

locale step_keeping = keeping R for R :: "'w ls \<Rightarrow> 'w ls \<Rightarrow> bool" +
  fixes p :: "exn \<Rightarrow> bool"
  assumes quiet_R: "quiet s t \<Longrightarrow> R s t"
    and fires_R: "R s (s\<lparr>ls_local := (ls_local s)\<lparr>ll_guard := (ll_guard (ls_local s))\<lparr>gu_fires := f\<rparr>\<rparr>\<rparr>)"
    and refusal_p: "body_refusal e \<Longrightarrow> p e"
begin

lemma quiet_kept: "wholly quiet m \<Longrightarrow> kept q R m"
  by (rule wholly_kept, rule quiet_wholly [OF quiet_R])

lemma front_p: "is_not_front e \<Longrightarrow> p e"
  by (rule refusal_p) (cases e; simp)

lemma step_guard_kept: "recovers p R L rec \<Longrightarrow> guard_kept p R (step_guard L rec r d ints b)"
  unfolding guard_kept_def recovers_def
  by (auto simp: step_guard_def set_fires_def Let_def intro!: driver_kept_mono [OF active_driver_quiet] quiet_kept lift_quiet
      kept_modify fires_R quiet_R)

lemma with_guard:
  assumes "recovers p R L rec" "\<And>g. (\<And>G. g = Some G \<Longrightarrow> guard_kept p R G) \<Longrightarrow> kept q R (f g)"
  shows "kept q R (seq (make_guard L rec r d) f)"
proof (rule kept_seq_value [where V = "\<lambda>g. \<forall>G. g = Some G \<longrightarrow> guard_kept p R G"])
  show "wp True (make_guard L rec r d) (\<lambda>g t. R s t \<and> (\<forall>G. g = Some G \<longrightarrow> guard_kept p R G)) (\<lambda>e t. q e \<longrightarrow> R s t) s" for s
    unfolding make_guard_def by (simp add: wp_simps R_refl Let_def step_guard_kept [OF assms(1)])
  show "kept q R (f g)" if "\<forall>G. g = Some G \<longrightarrow> guard_kept p R G" for g
    by (rule assms(2)) (use that in blast)
qed

lemma guard_clear_kept:
  assumes "\<And>G. guard = Some G \<Longrightarrow> guard_kept p R G"
  shows "kept p R (guard_clear L r d kind guard x)"
proof (cases guard)
  case (Some G)
  show ?thesis
    unfolding guard_clear_def Some option.case
    by (intro kept_ret kept_if kept_seq kept_option kept_catching front_p kept_clear_before_act [OF assms [OF Some]]
        quiet_kept [OF loop_driver_quiet(1)] quiet_kept [OF count_read_quiet])
qed (simp add: guard_clear_def kept_ret)

lemma poll_kept:
  assumes "\<And>G. guard = Some G \<Longrightarrow> guard_kept p R G"
    "tip_poll_hook (lc_tips L) (active_driver L r d) (\<lambda>s. ll_tips (ls_local s))
       (\<lambda>s. s\<lparr>ls_local := (ls_local s)\<lparr>ll_tips := ll_tips (ls_local s) + 1\<rparr>\<rparr>) (map_option guard_observe guard) = Some f"
  shows "kept p R (f els)"
proof (rule kept_tip_poll_hook [OF driver_kept_mono [OF active_driver_quiet quiet_R] _ _ assms(2)])
  show "R s (s\<lparr>ls_local := (ls_local s)\<lparr>ll_tips := ll_tips (ls_local s) + 1\<rparr>\<rparr>)" for s
    by (rule quiet_R) (simp add: quiet_def)
  show "kept p R (g els)" if "map_option guard_observe guard = Some g" for g els
    using that by (auto intro: kept_guard_observe assms(1))
qed

lemma body_run_kept:
  assumes "\<And>f els. poll = Some f \<Longrightarrow> kept p R (f els)" "alert_kept quiet V"
  shows "kept p R (run_step_body (body_env_of L r d st V poll) show_fail refused n l)"
  by (intro kept_run_step_body body_env_kept quiet_R refusal_p assms quiet_wholly [OF quiet_R refused_quiet])

lemma rerun_kept:
  assumes "\<And>f els. poll = Some f \<Longrightarrow> kept p R (f els)"
  shows "kept p R (rerun_body L r d st poll l)"
  unfolding rerun_body_def
  by (intro kept_seq quiet_kept [OF start_body_quiet] body_run_kept assms retry_env_quiet alert_env_quiet)

lemma local_failure_kept: "kept q R local_failure"
  unfolding local_failure_def by (rule kept_gets)

lemma keep_read_quiet: "wholly quiet (set_local (\<lambda>ll. ll\<lparr>ll_reads := f (ll_reads ll)\<rparr>))"
  by (rule set_local_quiet) simp

lemma recover_alert_kept:
  assumes "\<And>f els. poll = Some f \<Longrightarrow> kept p R (f els)"
  shows "kept p R (recover_alert L r d st poll l q o')"
  unfolding recover_alert_def Let_def
  by (intro kept_gets kept_ret kept_seq kept_if quiet_kept [OF lift_quiet] quiet_kept [OF keep_read_quiet] quiet_kept [OF take_reads_quiet]
      quiet_kept [OF settle_quiet] rerun_kept assms)

lemma body_retries_kept:
  assumes "\<And>f els. poll = Some f \<Longrightarrow> kept p R (f els)"
  shows "kept p R (body_retries L r d st poll l o')"
  unfolding body_retries_def
  by (intro kept_ret kept_seq kept_if kept_pair kept_option kept_nested_pair quiet_kept [OF try_tip_quiet] local_failure_kept
      rerun_kept recover_alert_kept assms)

lemma guarded_body_kept:
  assumes "\<And>f els. poll = Some f \<Longrightarrow> kept p R (f els)"
  shows "kept p R (guarded_body L r d st poll l)"
  unfolding guarded_body_def guard_verdict_def
  by (intro kept_ret kept_seq kept_option quiet_kept [OF start_body_quiet] local_failure_kept body_run_kept alert_env_quiet
      body_retries_kept assms)

text \<open>The release of a declared alert runs however the body ended; what it did is known where the body
  returned, or where everything counts.\<close>

lemma kept_finally_returned:
  assumes "kept (\<lambda>_. False) R m" "kept (\<lambda>_. False) R f"
  shows "kept (\<lambda>_. False) R (finally_do m f)"
proof (rule keptI, unfold wp_finally, rule kept_wp [OF assms(1)])
  fix s v t assume t: "R s t"
  show "wp True f (\<lambda>_. R s) (\<lambda>e t. False \<longrightarrow> R s t) t"
    by (rule kept_wp [OF assms(2)]) (auto intro: R_trans [OF t])
qed (simp add: wp_any)

lemma wholly_finally: "wholly R m \<Longrightarrow> wholly R f \<Longrightarrow> wholly R (finally_do m f)"
  unfolding finally_do_def by (intro kept_seq kept_ret kept_catch_whole kept_raise)

lemma body_phase_kept:
  assumes "\<And>G. guard = Some G \<Longrightarrow> guard_kept p R G"
    and "(\<forall>e. q e \<longrightarrow> False) \<or> (\<forall>e. p e)"
  shows "kept q R (body_phase L r d st guard x l)"
proof -
  have released: "kept q R (finally_do (guarded_body L r d st poll l) (release_reserved L r d))"
    if "\<And>f els. poll = Some f \<Longrightarrow> kept p R (f els)" for poll
  proof (cases "\<forall>e. p e")
    case True
    then have all: "p = (\<lambda>_. True)" by auto
    show ?thesis
      by (rule wholly_kept, rule wholly_finally)
        (use guarded_body_kept [of poll L r d st l] that quiet_kept [OF release_reserved_quiet] in \<open>simp_all add: all\<close>)
  next
    case False
    then have none: "q = (\<lambda>_. False)" using assms(2) by auto
    show ?thesis
      unfolding none by (intro kept_finally_returned kept_weaken [OF guarded_body_kept] quiet_kept [OF release_reserved_quiet]) (use that in auto)
  qed
  have weak: "kept q R m" if "kept p R m" for m :: "('w ls, body_out) prog"
    by (rule kept_weaken [OF that]) (use assms(2) in blast)
  show ?thesis
    unfolding body_phase_def Let_def
    by (intro kept_seq local_failure_kept kept_pair kept_option kept_ret quiet_kept [OF reserve_declared_quiet] kept_if
        released weak guarded_body_kept poll_kept [OF assms(1)])
qed

lemma acting_step_kept:
  assumes "recovers p R L rec" "(\<forall>e. q e \<longrightarrow> False) \<or> (\<forall>e. p e)"
  shows "kept q R (acting_step L rec r d st i kind start seeded l exts oc)"
proof -
  have weak: "kept q R m" if "kept p R m" for m :: "('w ls, pre) prog"
    by (rule kept_weaken [OF that]) (use assms(2) in blast)
  show ?thesis
    unfolding acting_step_def
    by (intro kept_seq quiet_kept [OF before_read_quiet] quiet_kept [OF front_read_quiet] with_guard [OF assms(1)]
        weak guard_clear_kept quiet_kept [OF entry_check_quiet] body_phase_kept assms(2) quiet_kept [OF after_body_quiet]
        quiet_kept [OF after_phase_quiet]) simp_all
qed

lemma leaf_outcome_kept:
  assumes "recovers p R L rec" "(\<forall>e. q e \<longrightarrow> False) \<or> (\<forall>e. p e)"
  shows "kept q R (leaf_outcome L rec r d st idx start oc)"
  unfolding leaf_outcome_def Let_def
  by (intro kept_seq kept_gets kept_if kept_ret kept_sum kept_pair quiet_kept [OF seed_quiet] quiet_kept [OF baseline_quiet]
      quiet_kept [OF locale_failure_quiet] acting_step_kept assms)

end

end
