(* ===== verification/Loop_Results.thy ===== *)
theory Loop_Results
  imports Kept_Leaf
begin

text \<open>
  What a phase of a scenario leaves behind: its outcomes are appended under fresh distinct indices, at
  most one of them is charged with the crash of the application, and the statuses of the targets only
  move forward.
\<close>

section \<open>Values a program returns\<close>

definition yields :: "('a \<Rightarrow> bool) \<Rightarrow> ('s, 'a) prog \<Rightarrow> bool" where
  "yields V m \<longleftrightarrow> (\<forall>s. wp True m (\<lambda>v t. V v) (\<lambda>e t. True) s)"

lemma yields_ret: "V v \<Longrightarrow> yields V (ret v)"
  by (simp add: yields_def wp_simps)

lemma yields_raise: "yields V (raise e)"
  by (simp add: yields_def wp_simps)

lemma yields_any: "(\<And>v. V v) \<Longrightarrow> yields V m"
  by (simp add: yields_def wp_any)

lemma yields_seq:
  assumes "yields U m" "\<And>v. U v \<Longrightarrow> yields V (f v)"
  shows "yields V (seq m f)"
  unfolding yields_def wp_seq
  using assms by (blast intro: wp_mono [OF assms(1) [unfolded yields_def, rule_format]] dest: iffD1 [OF yields_def])

lemma yields_then: "(\<And>v. yields V (f v)) \<Longrightarrow> yields V (seq m f)"
  by (rule yields_seq [where U = "\<lambda>_. True"]) (simp_all add: yields_any)

lemma yields_catch:
  assumes "yields V m" "\<And>e. yields V (h e)"
  shows "yields V (catch m h)"
  unfolding yields_def wp_catch
proof
  fix s
  have "wp True m (\<lambda>v t. V v) (\<lambda>e t. True) s" using assms(1) by (simp add: yields_def)
  then show "wp True m (\<lambda>v t. V v) (\<lambda>e. wp True (h e) (\<lambda>v t. V v) (\<lambda>e t. True)) s"
    by (rule wp_mono) (use assms(2) in \<open>simp_all add: yields_def\<close>)
qed

lemma yields_catching: "yields V m \<Longrightarrow> (\<And>e. yields V (h e)) \<Longrightarrow> yields V (catching p m h)"
  unfolding catching_def by (rule yields_catch) (simp_all add: yields_raise)

lemma yields_option:
  "(v = None \<Longrightarrow> yields V m) \<Longrightarrow> (\<And>x. v = Some x \<Longrightarrow> yields V (f x)) \<Longrightarrow> yields V (case v of None \<Rightarrow> m | Some x \<Rightarrow> f x)"
  by (cases v) simp_all

lemma yields_pair: "(\<And>x y. v = (x, y) \<Longrightarrow> yields V (f x y)) \<Longrightarrow> yields V (case v of (x, y) \<Rightarrow> f x y)"
  by (cases v) simp

lemma yields_nested: "(\<And>x y. v = (x, y) \<Longrightarrow> yields V (f x y z)) \<Longrightarrow> yields V ((case v of (x, y) \<Rightarrow> f x y) z)"
  by (cases v) simp

lemma yields_sum:
  "(\<And>x. v = Inl x \<Longrightarrow> yields V (f x)) \<Longrightarrow> (\<And>x. v = Inr x \<Longrightarrow> yields V (g x))
   \<Longrightarrow> yields V (case v of Inl x \<Rightarrow> f x | Inr x \<Rightarrow> g x)"
  by (cases v) simp_all

lemma yields_if: "(c \<Longrightarrow> yields V m) \<Longrightarrow> (\<not> c \<Longrightarrow> yields V n) \<Longrightarrow> yields V (if c then m else n)"
  by simp

section \<open>The outcome of a step, while it is open\<close>

text \<open>
  What no phase of a step changes in its outcome: its place, and that it is not yet a crash; a failed
  outcome stays failed.
\<close>

definition same_step :: "step_outcome \<Rightarrow> step_outcome \<Rightarrow> bool" where
  "same_step o1 o2 \<longleftrightarrow> oc_index o2 = oc_index o1 \<and> oc_action o2 = oc_action o1 \<and> oc_target o2 = oc_target o1 \<and>
     oc_started o2 = oc_started o1 \<and> oc_crashed o2 = oc_crashed o1 \<and> (oc_ok o2 \<longrightarrow> oc_ok o1)"

lemma same_step_refl: "same_step oc oc"
  by (simp add: same_step_def)

lemma same_step_trans: "same_step a b \<Longrightarrow> same_step b c \<Longrightarrow> same_step a c"
  by (simp add: same_step_def)

lemma with_drained_same: "same_step oc (with_drained x oc)"
  by (simp add: with_drained_def same_step_def Let_def split: prod.split)

lemma drained_same: "same_step o0 oc \<Longrightarrow> yields (same_step o0) (drain_step_interruptions d oc)"
  unfolding drain_step_interruptions_def by (intro yields_then yields_ret same_step_trans [OF _ with_drained_same])

lemma baseline_same: "same_step o0 oc \<Longrightarrow> yields (same_step o0) (baseline L r i kind oc)"
  unfolding baseline_def by (intro yields_then yields_ret) (simp add: same_step_def)

lemma drain_both_same: "same_step o0 oc \<Longrightarrow> yields (same_step o0) (drain_both L r d oc)"
  unfolding drain_both_def by (intro yields_seq [OF drained_same] yields_if yields_ret drained_same)

lemma drain_taps_same: "same_step o0 oc \<Longrightarrow> yields (same_step o0) (drain_taps L r d oc)"
  unfolding drain_taps_def by (intro yields_then yields_pair yields_ret) (simp add: same_step_def)

lemma after_body_same: "same_step o0 (oc\<lparr>oc_ok := bd_ok o'\<rparr>) \<Longrightarrow> yields (same_step o0) (after_body L r d start o' oc)"
  unfolding after_body_def Let_def
  apply (rule yields_then, rule yields_then, rule yields_then, rule yields_seq, rule drain_taps_same [of o0])
   apply (rule same_step_trans [OF _ with_drained_same], simp add: same_step_def with_body_def)
  apply (erule drain_both_same)
  done

lemma changed_read_same: "same_step o0 oc \<Longrightarrow> yields (\<lambda>v. same_step o0 (snd (fst v))) (changed_read L kind exts p read sr oc)"
  unfolding changed_read_def
  by (intro yields_option yields_catching yields_then yields_pair yields_ret) (auto simp: same_step_def)

lemma wait_diagnostic_same: "same_step o0 oc \<Longrightarrow> yields (\<lambda>v. same_step o0 (fst v)) (wait_diagnostic L r i l o' read sr oc)"
  unfolding wait_diagnostic_def
  by (intro yields_if yields_then yields_option yields_pair yields_catching yields_ret)
    (auto simp: same_step_def split: option.split)

lemma extract_values_same: "same_step o0 oc \<Longrightarrow> yields (\<lambda>v. same_step o0 (fst v)) (extract_values L r exts read sr oc)"
  unfolding extract_values_def
  by (intro yields_if yields_then yields_pair yields_ret) (auto simp: same_step_def)

lemma note_warnings_same: "same_step o0 oc \<Longrightarrow> yields (same_step o0) (note_warnings L r d oc)"
  unfolding note_warnings_def by (intro yields_then yields_ret) (simp add: same_step_def)

lemma evidence_read_same: "same_step o0 oc \<Longrightarrow> yields (\<lambda>v. same_step o0 (fst (fst v))) (evidence_read L r d st kind changed read sr oc)"
  unfolding evidence_read_def Let_def
  by (intro yields_if yields_catching yields_then yields_pair yields_ret) (auto simp: same_step_def)

lemma read_phase_same: "same_step o0 oc \<Longrightarrow> yields (\<lambda>v. same_step o0 (fst v)) (read_phase L r d st i kind l exts p o' oc)"
  unfolding read_phase_def
  apply (rule yields_then, rule yields_pair)
  apply (rule yields_seq, erule changed_read_same, rule yields_pair, rule yields_nested)
  apply (rule yields_seq, rule wait_diagnostic_same, simp, rule yields_pair)
  apply (rule yields_seq, rule extract_values_same, simp, rule yields_pair)
  apply (rule yields_seq, rule note_warnings_same, simp)
  apply (rule yields_seq, rule evidence_read_same, simp, rule yields_pair, rule yields_nested, rule yields_nested)
  apply (rule yields_then, rule yields_ret, simp add: same_step_def)
  done

lemma with_after_shot_returns: "yields V m \<Longrightarrow> yields (\<lambda>v. V (fst v)) (with_after_shot L r m)"
  unfolding with_after_shot_def Let_def
  by (intro yields_seq [where U = V] yields_catch yields_then yields_raise yields_ret) simp_all

lemma after_phase_same: "same_step o0 oc \<Longrightarrow> yields (same_step o0) (after_phase L r d st i kind l exts p o' oc)"
  unfolding after_phase_def
  apply (rule yields_then, rule yields_seq, rule with_after_shot_returns, erule read_phase_same)
  apply (rule yields_pair, rule yields_nested, rule yields_then, rule yields_ret, simp add: same_step_def)
  done

lemma locale_failure_same: "same_step o0 oc \<Longrightarrow> yields (same_step o0) (locale_failure L r d i start reason oc)"
  unfolding locale_failure_def
  apply (rule yields_then, rule yields_then, rule yields_pair, rule yields_seq, rule drained_same, simp add: same_step_def)
  apply (intro yields_then yields_if yields_ret; simp add: same_step_def)
  done

lemma leaf_outcome_same: "yields (same_step (oc\<lparr>oc_ok := True\<rparr>)) (leaf_outcome L rec r d st idx start oc)"
  unfolding leaf_outcome_def acting_step_def Let_def
  apply (rule yields_then, rule yields_then, rule yields_then, rule yields_seq, rule baseline_same [of "oc\<lparr>oc_ok := True\<rparr>"])
   apply (simp add: same_step_def)
  apply (rule yields_then, rule yields_sum, erule locale_failure_same)
  apply (rule yields_pair, rule yields_then, rule yields_then, rule yields_then, rule yields_then, rule yields_then,
    rule yields_then, rule yields_seq, rule after_body_same [of "oc\<lparr>oc_ok := True\<rparr>"],
    simp add: same_step_def, erule after_phase_same)
  done

section \<open>What the outcomes of a phase may do\<close>

definition crashes :: "step_outcome list \<Rightarrow> nat" where
  "crashes os = length (filter oc_crashed os)"

text \<open>\<open>pend\<close> are the indices taken and not yet closed.\<close>

definition extends :: "nat set \<Rightarrow> 'w ls \<Rightarrow> 'w ls \<Rightarrow> bool" where
  "extends pend s t \<longleftrightarrow> ls_next s \<le> ls_next t \<and>
     (\<exists>new. ls_outcomes t = ls_outcomes s @ new \<and> distinct (map oc_index new) \<and>
        oc_index ` set new \<subseteq> pend \<union> {ls_next s..<ls_next t} \<and>
        crashes new \<le> (if la_signal (ls_latches s) = None \<and> la_signal (ls_latches t) \<noteq> None then 1 else 0)) \<and>
     (la_signal (ls_latches s) \<noteq> None \<longrightarrow> la_signal (ls_latches t) = la_signal (ls_latches s)) \<and>
     (la_deliberate (ls_latches s) \<longrightarrow> la_deliberate (ls_latches t)) \<and>
     rel_option forward (ls_roster s) (ls_roster t)"

lemma crashes_append: "crashes (xs @ ys) = crashes xs + crashes ys"
  by (simp add: crashes_def)

lemma rel_forward_refl: "rel_option forward r r"
  by (cases r) (simp_all add: forward_refl)

lemma rel_forward_trans: "rel_option forward r s \<Longrightarrow> rel_option forward s t \<Longrightarrow> rel_option forward r t"
  by (cases r; cases s; cases t) (auto intro: forward_trans)

lemma extends_refl: "extends pend s s"
  unfolding extends_def by (auto simp: crashes_def rel_forward_refl)

text \<open>Two phases in a row close what either closes, when the first leaves the other's indices alone.\<close>

lemma extends_trans:
  assumes "extends p s t" "extends q t u" "p \<inter> q = {}" "\<And>i. i \<in> p \<union> q \<Longrightarrow> i < ls_next s"
  shows "extends (p \<union> q) s u"
proof -
  obtain xs where xs: "ls_outcomes t = ls_outcomes s @ xs" "distinct (map oc_index xs)"
      "oc_index ` set xs \<subseteq> p \<union> {ls_next s..<ls_next t}"
      "crashes xs \<le> (if la_signal (ls_latches s) = None \<and> la_signal (ls_latches t) \<noteq> None then 1 else 0)"
    using assms(1) unfolding extends_def by blast
  obtain ys where ys: "ls_outcomes u = ls_outcomes t @ ys" "distinct (map oc_index ys)"
      "oc_index ` set ys \<subseteq> q \<union> {ls_next t..<ls_next u}"
      "crashes ys \<le> (if la_signal (ls_latches t) = None \<and> la_signal (ls_latches u) \<noteq> None then 1 else 0)"
    using assms(2) unfolding extends_def by blast
  have next_le: "ls_next s \<le> ls_next t" "ls_next t \<le> ls_next u" using assms(1,2) by (simp_all add: extends_def)
  have apart: "oc_index ` set xs \<inter> oc_index ` set ys = {}"
  proof (rule ccontr)
    assume "oc_index ` set xs \<inter> oc_index ` set ys \<noteq> {}"
    then obtain i where "i \<in> oc_index ` set xs" "i \<in> oc_index ` set ys" by blast
    then have "i \<in> p \<union> {ls_next s..<ls_next t}" "i \<in> q \<union> {ls_next t..<ls_next u}" using xs(3) ys(3) by blast+
    then show False using assms(3,4) next_le by fastforce
  qed
  have idx: "oc_index ` set (xs @ ys) \<subseteq> (p \<union> q) \<union> {ls_next s..<ls_next u}"
    using xs(3) ys(3) next_le by fastforce
  have kept: "la_signal (ls_latches s) \<noteq> None \<Longrightarrow> la_signal (ls_latches t) = la_signal (ls_latches s)"
    "la_signal (ls_latches t) \<noteq> None \<Longrightarrow> la_signal (ls_latches u) = la_signal (ls_latches t)"
    using assms(1,2) by (simp_all add: extends_def)
  have crash: "crashes (xs @ ys) \<le> (if la_signal (ls_latches s) = None \<and> la_signal (ls_latches u) \<noteq> None then 1 else 0)"
    using xs(4) ys(4) kept unfolding crashes_append by (auto split: if_splits)
  have new: "\<exists>new. ls_outcomes u = ls_outcomes s @ new \<and> distinct (map oc_index new) \<and>
      oc_index ` set new \<subseteq> (p \<union> q) \<union> {ls_next s..<ls_next u} \<and>
      crashes new \<le> (if la_signal (ls_latches s) = None \<and> la_signal (ls_latches u) \<noteq> None then 1 else 0)"
    by (rule exI [of _ "xs @ ys"]) (use xs ys apart idx crash in simp)
  have "rel_option forward (ls_roster s) (ls_roster u)"
    using assms(1,2) unfolding extends_def by (blast intro: rel_forward_trans)
  then show ?thesis using new next_le kept assms(1,2) unfolding extends_def by auto
qed

lemma quiet_extends: "quiet s t \<Longrightarrow> extends pend s t"
  unfolding quiet_def extends_def by (auto simp: crashes_def rel_forward_refl)

interpretation extends: keeping "extends {}"
proof
  show "extends {} s s" for s :: "'a ls" by (rule extends_refl)
  show "extends {} s u" if "extends {} s t" "extends {} t u" for s t u :: "'a ls"
    using extends_trans [OF that] by simp
qed

lemma quiet_extend: "wholly quiet m \<Longrightarrow> wholly (extends {}) m"
  by (rule quiet_wholly [OF quiet_extends])

text \<open>A part of a step that may close the step's own index.\<close>

definition closes :: "nat \<Rightarrow> ('w ls, 'a) prog \<Rightarrow> bool" where
  "closes idx m \<longleftrightarrow> (\<forall>s. idx < ls_next s \<longrightarrow> wp True m (\<lambda>v. extends {idx} s) (\<lambda>e. extends {idx} s) s)"

lemma extends_then: "extends {} s t \<Longrightarrow> extends {i} t u \<Longrightarrow> i < ls_next s \<Longrightarrow> extends {i} s u"
  using extends_trans [of "{}" s t "{i}" u] by simp

lemma then_extends: "extends {i} s t \<Longrightarrow> extends {} t u \<Longrightarrow> i < ls_next s \<Longrightarrow> extends {i} s u"
  using extends_trans [of "{i}" s t "{}" u] by simp

lemma extends_weaken: "extends {} s t \<Longrightarrow> extends pend s t"
  unfolding extends_def Un_empty_left by (blast intro: le_supI2)

lemma extends_next: "extends p s t \<Longrightarrow> i < ls_next s \<Longrightarrow> i < ls_next t"
  by (simp add: extends_def)

lemma closes_seq:
  fixes m :: "('w ls, 'a) prog"
  assumes "wholly (extends {}) m" "yields V m" "\<And>v. V v \<Longrightarrow> closes idx (f v)"
  shows "closes idx (seq m f)"
  unfolding closes_def wp_seq
proof (intro allI impI)
  fix s :: "'w ls" assume idx: "idx < ls_next s"
  have "wp True m (\<lambda>v t. extends {} s t \<and> V v) (\<lambda>e t. extends {} s t \<and> True) s"
    unfolding wp_conj using assms(1,2) by (simp add: kept_def yields_def)
  then show "wp True m (\<lambda>v. wp True (f v) (\<lambda>v. extends {idx} s) (\<lambda>e. extends {idx} s)) (\<lambda>e. extends {idx} s) s"
  proof (rule wp_mono)
    fix v t assume "extends {} s t \<and> V v"
    then show "wp True (f v) (\<lambda>v. extends {idx} s) (\<lambda>e. extends {idx} s) t"
      using assms(3) [of v] extends_next [of "{}" s t, OF _ idx]
      by (auto simp: closes_def intro: extends_then [OF _ _ idx] wp_mono)
  qed (simp add: extends_weaken)
qed

lemma closes_plain: "wholly (extends {}) m \<Longrightarrow> (\<And>v. closes idx (f v)) \<Longrightarrow> closes idx (seq m f)"
  by (rule closes_seq [where V = "\<lambda>_. True"]) (simp_all add: yields_any)

lemma closes_then:
  fixes m :: "('w ls, 'a) prog"
  assumes "closes idx m" "\<And>v. wholly (extends {}) (f v)"
  shows "closes idx (seq m f)"
  unfolding closes_def wp_seq
proof (intro allI impI)
  fix s :: "'w ls" assume idx: "idx < ls_next s"
  have "wp True m (\<lambda>v. extends {idx} s) (\<lambda>e. extends {idx} s) s" using assms(1) idx by (simp add: closes_def)
  then show "wp True m (\<lambda>v. wp True (f v) (\<lambda>v. extends {idx} s) (\<lambda>e. extends {idx} s)) (\<lambda>e. extends {idx} s) s"
  proof (rule wp_mono)
    fix v t assume t: "extends {idx} s t"
    show "wp True (f v) (\<lambda>v. extends {idx} s) (\<lambda>e. extends {idx} s) t"
      by (rule kept_wp [OF assms(2)]) (auto intro: then_extends [OF t _ idx])
  qed simp
qed

section \<open>Closing a step\<close>

definition open_outcome :: "nat \<Rightarrow> step_outcome \<Rightarrow> bool" where
  "open_outcome idx oc \<longleftrightarrow> oc_index oc = idx \<and> \<not> oc_crashed oc"

lemma open_leaf: "open_outcome idx oc \<Longrightarrow> same_step (oc\<lparr>oc_ok := b\<rparr>) o' \<Longrightarrow> open_outcome idx o'"
  by (simp add: open_outcome_def same_step_def)

lemma open_same: "open_outcome idx o0 \<Longrightarrow> same_step o0 oc \<Longrightarrow> open_outcome idx oc"
  by (simp add: open_outcome_def same_step_def)

lemma append_closes: "open_outcome idx oc \<Longrightarrow> closes idx (append_outcome oc)"
  unfolding closes_def append_outcome_def
  by (auto simp: wp_simps extends_def open_outcome_def crashes_def rel_forward_refl)

lemma latches_extends:
  "(la_signal (ls_latches s) \<noteq> None \<Longrightarrow> la_signal l = la_signal (ls_latches s)) \<Longrightarrow>
   (la_deliberate (ls_latches s) \<Longrightarrow> la_deliberate l) \<Longrightarrow> extends pend s (s\<lparr>ls_latches := l\<rparr>)"
  by (auto simp: extends_def crashes_def rel_forward_refl)

lemma set_latches_extends:
  "(\<And>l. la_signal (f l) = la_signal l \<and> (la_deliberate l \<longrightarrow> la_deliberate (f l))) \<Longrightarrow> wholly (extends {}) (set_latches f)"
  unfolding set_latches_def by (rule extends.kept_modify) (auto intro: latches_extends)

lemma track_launch_latches: "la_signal (track_launch a l) = la_signal l" "la_deliberate (track_launch a l) = la_deliberate l"
  by (simp_all add: track_launch_def)

lemma crash_closes:
  assumes "open_outcome idx oc" "la_signal (ls_latches s) = None" "idx < ls_next s"
  shows "wp True (confirm_crash L signal oc) (\<lambda>oc. wp True (append_outcome oc) (\<lambda>v. extends {idx} s) (\<lambda>e. extends {idx} s))
    (\<lambda>e. extends {idx} s) s"
  unfolding confirm_crash_def set_latches_def append_outcome_def lift_def
  using assms by (cases "lc_crash_files L") (auto simp: wp_simps open_outcome_def extends_def crashes_def rel_forward_refl intro!: wp_any)

lemma classify_same:
  assumes "open_outcome idx oc" "idx < ls_next s"
  shows "wp True (seq (classify_app_crash L r d oc) append_outcome) (\<lambda>v. extends {idx} s) (\<lambda>e. extends {idx} s) s"
proof -
  have plain: "closes idx (append_outcome (oc\<lparr>oc_reason := m\<rparr>))" for m
    by (rule append_closes) (use assms(1) in \<open>simp add: open_outcome_def\<close>)
  note own = append_closes [OF assms(1)]
  consider "oc_ok oc" | "\<not> oc_ok oc" "oc_action oc = relaunch_kind" | "\<not> oc_ok oc" "oc_action oc \<noteq> relaunch_kind"
    by blast
  then show ?thesis
  proof cases
    case 1
    have tracked: "classify_app_crash L r d oc = seq (set_latches (track_launch (oc_action oc))) (\<lambda>_. ret oc)"
      using 1 by (simp add: classify_app_crash_def)
    have "closes idx (seq (classify_app_crash L r d oc) append_outcome)"
      unfolding tracked by (rule closes_seq [where V = "\<lambda>v. v = oc"])
        (auto intro!: extends.kept_intros set_latches_extends yields_then yields_ret own simp: track_launch_latches)
    then show ?thesis using assms(2) by (simp add: closes_def)
  next
    case 2
    have meant: "classify_app_crash L r d oc = seq (set_latches (\<lambda>l. l\<lparr>la_deliberate := True\<rparr>)) (\<lambda>_. ret oc)"
      using 2 by (simp add: classify_app_crash_def)
    have "closes idx (seq (classify_app_crash L r d oc) append_outcome)"
      unfolding meant by (rule closes_seq [where V = "\<lambda>v. v = oc"])
        (auto intro!: extends.kept_intros set_latches_extends yields_then yields_ret own)
    then show ?thesis using assms(2) by (simp add: closes_def)
  next
    case 3
    have probe: "wp True (probe_app_crash (active_driver L r d))
        (\<lambda>p. wp True (case p of None \<Rightarrow> ret oc | Some signal \<Rightarrow> confirm_crash L signal oc)
           (\<lambda>oc. wp True (append_outcome oc) (\<lambda>v. extends {idx} s) (\<lambda>e. extends {idx} s)) (\<lambda>e. extends {idx} s))
        (\<lambda>e. extends {idx} s) s" if "la_signal (ls_latches s) = None"
    proof (rule kept_wp [OF probe_quiet])
      fix p t assume t: "quiet s t"
      then have st: "extends {} s t" "la_signal (ls_latches t) = None" "idx < ls_next t"
        using that assms(2) by (simp_all add: quiet_extends quiet_def)
      have append: "wp True (append_outcome oc) (\<lambda>v. extends {idx} s) (\<lambda>e. extends {idx} s) t"
        using own st(3) by (auto simp: closes_def intro: wp_mono extends_then [OF st(1) _ assms(2)])
      show "wp True (case p of None \<Rightarrow> ret oc | Some signal \<Rightarrow> confirm_crash L signal oc)
           (\<lambda>oc. wp True (append_outcome oc) (\<lambda>v. extends {idx} s) (\<lambda>e. extends {idx} s)) (\<lambda>e. extends {idx} s) t"
      proof (cases p)
        case (Some signal)
        show ?thesis
          unfolding Some option.case
          by (rule wp_mono [OF crash_closes [OF assms(1) st(2,3)]])
            (auto intro: wp_mono extends_then [OF st(1) _ assms(2)])
      qed (simp add: wp_simps append)
    qed (simp add: quiet_extends)
    show ?thesis
      using 3 probe plain own assms(2) unfolding classify_app_crash_def
      by (auto simp: wp_simps closes_def split: option.split)
  qed
qed

lemma wp_ret_all: "wp b (ret v) Q E = Q v"
  by (rule ext) (rule wp_ret)

lemma wp_tail: "wp b (seq m (\<lambda>_. ret v)) Q E = wp b m (\<lambda>_. Q v) E"
  by (rule ext) (simp add: wp_seq wp_ret_all)

lemma finish_closes: "open_outcome idx oc \<Longrightarrow> closes idx (finish_outcome L r d oc)"
  using classify_same [of idx oc _ L r d] unfolding closes_def finish_outcome_def by (simp add: wp_simps wp_tail)

lemma close_step_closes: "open_outcome idx oc \<Longrightarrow> closes idx (close_step L r d idx start oc out)"
  unfolding close_step_def
  apply (rule closes_plain, rule quiet_extend, rule duration_quiet)
  apply (rule closes_seq, rule quiet_extend, rule step_interruptions_quiet, rule active_driver_quiet, rule drained_same, rule same_step_refl)
  apply (rule closes_then, rule finish_closes, erule open_same [rotated])
   apply (simp_all add: open_outcome_def extends.kept_ret)
  done

lemma close_app_closes: "open_outcome idx oc \<Longrightarrow> closes idx (close_app L r d idx start oc out)"
  unfolding close_app_def
  apply (rule closes_plain, rule quiet_extend, rule duration_quiet)
  apply (rule closes_seq, rule quiet_extend, rule step_interruptions_quiet, rule active_driver_quiet, rule drained_same, rule same_step_refl)
  apply (rule closes_then, rule append_closes, erule open_same [rotated])
   apply (simp_all add: open_outcome_def extends.kept_ret)
  done

lemma roster_extends:
  "ls_roster s = Some ro \<Longrightarrow> forward ro (f ro) \<Longrightarrow> extends pend s (s\<lparr>ls_world := w, ls_roster := Some (f ro)\<rparr>)"
  "ls_roster s = Some ro \<Longrightarrow> forward ro (f ro) \<Longrightarrow> extends pend s (s\<lparr>ls_roster := Some (f ro)\<rparr>)"
  "extends pend s (s\<lparr>ls_world := w\<rparr>)"
  by (auto simp: extends_def crashes_def rel_forward_refl)

lemma lifecycle_extends: "wholly (extends {}) (lifecycle_problem L r st)"
proof (rule keptI)
  fix s :: "'a ls"
  have installed: "status_of ro member = NotInstalled \<Longrightarrow> ls_roster s = Some ro \<Longrightarrow>
      extends {} s (s\<lparr>ls_world := w, ls_roster := Some (mark_status member Installed (retire_others os ro))\<rparr>)" for ro member w os
    by (rule roster_extends(1)) (simp_all add: forward_install)
  have moved: "ls_roster s = Some ro \<Longrightarrow> extends {} s (s\<lparr>ls_roster := Some (ro\<lparr>ro_primary := x\<rparr>)\<rparr>)" for ro x
    by (rule roster_extends(2) [where f = "\<lambda>ro. ro\<lparr>ro_primary := x\<rparr>"]) (simp_all add: forward_def status_of_def)
  show "wp True (lifecycle_problem L r st) (\<lambda>v. extends {} s) (\<lambda>e t. True \<longrightarrow> extends {} s t) s"
    unfolding lifecycle_problem_def install_member_def move_primary_def
    by (auto simp: wp_simps set_roster_def lift_def extends_refl roster_extends(3) installed moved split: option.split work.split
        intro!: wp_any)
qed

lemma handle_lifecycle_closes: "open_outcome idx oc \<Longrightarrow> closes idx (handle_lifecycle L r d st idx start oc)"
  unfolding handle_lifecycle_def
  apply (rule closes_plain, rule lifecycle_extends, simp add: split_beta)
  apply (rule closes_plain, rule quiet_extend, rule duration_quiet)
  apply (rule closes_then, rule finish_closes)
   apply (simp_all add: open_outcome_def extends.kept_ret)
  done

text \<open>An index taken and closed.\<close>

lemma take_extends:
  assumes "\<And>idx. closes idx (f idx)"
  shows "wholly (extends {}) (seq take_index f)"
proof (rule keptI)
  fix s :: "'a ls"
  let ?t = "s\<lparr>ls_next := Suc (ls_next s)\<rparr>"
  have "wp True (f (ls_next s)) (\<lambda>v. extends {ls_next s} ?t) (\<lambda>e. extends {ls_next s} ?t) ?t"
    using assms [of "ls_next s"] by (simp add: closes_def)
  moreover have "extends {} s u" if "extends {ls_next s} ?t u" for u
    using that unfolding extends_def by (simp add: subset_iff Ball_def image_iff) fastforce
  ultimately show "wp True (seq take_index f) (\<lambda>v. extends {} s) (\<lambda>e t. True \<longrightarrow> extends {} s t) s"
    unfolding take_index_def wp_seq wp_gets wp_modify wp_ret by (auto intro: wp_mono)
qed

lemma fail_unrouted_extends: "wholly (extends {}) (fail_unrouted r st reason)"
  unfolding fail_unrouted_def
  by (intro take_extends closes_then append_closes extends.kept_ret) (simp add: open_outcome_def new_outcome_def)

section \<open>The whole loop\<close>

interpretation extends_step: step_keeping "extends {}" "\<lambda>_. True"
proof
  show "extends {} s t" if "quiet s t" for s t :: "'a ls" using that by (rule quiet_extends)
  show "extends {} s (s\<lparr>ls_local := l\<rparr>)" for s :: "'a ls" and l by (simp add: extends_def crashes_def rel_forward_refl)
qed simp

lemma extends_local: "extends {} s (t\<lparr>ls_local := l\<rparr>) = extends {} s t" "extends {} (s\<lparr>ls_local := l\<rparr>) t = extends {} s t"
  by (simp_all add: extends_def)

lemma wp_scoped: "wp b (scoped m) Q E s = wp b m (\<lambda>v t. Q v (t\<lparr>ls_local := ls_local s\<rparr>)) (\<lambda>e t. E e (t\<lparr>ls_local := ls_local s\<rparr>))
    (s\<lparr>ls_local := new_local\<rparr>)"
  by (cases "m (s\<lparr>ls_local := new_local\<rparr>)"; cases "fst (m (s\<lparr>ls_local := new_local\<rparr>))") (simp_all add: wp_def scoped_def)

lemma scoped_extends: "wholly (extends {}) m \<Longrightarrow> wholly (extends {}) (scoped m)"
  unfolding kept_def wp_scoped by (intro allI) (erule allE, erule wp_mono, simp_all add: extends_local)

lemma scoped_returns: "yields V m \<Longrightarrow> yields V (scoped m)"
  unfolding yields_def wp_scoped by blast

lemma handle_action_closes:
  assumes "recovers (\<lambda>_. True) (extends {}) L rec" "open_outcome idx oc"
  shows "closes idx (handle_action L rec r d st i start oc)"
  unfolding handle_action_def
  apply (rule closes_seq, rule scoped_extends, rule extends_step.leaf_outcome_kept [OF assms(1)], simp)
   apply (rule scoped_returns, rule leaf_outcome_same)
  apply (rule closes_then, rule finish_closes, erule open_leaf [OF assms(2)], rule extends.kept_ret)
  done

lemma bring_up_extends:
  assumes "ls_roster s = Some ro" "status_of ro target = Installed"
  shows "wp True (bring_up L target) (\<lambda>v. extends {} s) (\<lambda>e. extends {} s) s"
proof -
  have started: "extends {} s (s\<lparr>ls_world := w, ls_runners := rs, ls_roster := Some (mark_status target Running ro)\<rparr>)" for w rs
    using assms forward_mark [of ro target Running] by (auto simp: extends_def crashes_def)
  have other: "extends {} s (s\<lparr>ls_world := w\<rparr>)" for w by (rule roster_extends(3))
  show ?thesis
    unfolding bring_up_def set_roster_def lift_def
    using assms by (auto simp: wp_simps extends_refl started other split: option.split intro!: wp_any)
qed

lemma look_away_extends: "wholly (extends {}) (look_away target)"
  unfolding look_away_def forget_screen_def
  by (intro extends.kept_intros extends.kept_modify) (auto simp: extends_def crashes_def rel_forward_refl)

lemma route_alive_extends: "wholly (extends {}) (route_alive r d target)"
  unfolding route_alive_def by (intro extends.kept_intros look_away_extends)

lemma route_extends: "wholly (extends {}) (route L r d st)"
proof (rule keptI)
  fix s :: "'a ls"
  have go: "wp True (route_alive r d x) (\<lambda>v. extends {} s) (\<lambda>e. extends {} s) t" if "extends {} s t" for x t
    by (rule kept_wp [OF route_alive_extends]) (auto intro: extends.R_trans [OF that])
  have up: "wp True (bring_up L x) (\<lambda>problem. wp True (case problem of Some m \<Rightarrow> ret (Inl m)
        | None \<Rightarrow> seq (route_alive r d x) (\<lambda>x. ret (Inr x))) (\<lambda>v. extends {} s) (\<lambda>e t. True \<longrightarrow> extends {} s t)) (\<lambda>e t. True \<longrightarrow> extends {} s t) s"
    if "ls_roster s = Some ro" "status_of ro x = Installed" for ro x
    by (rule wp_mono [OF bring_up_extends [OF that]]) (auto simp: wp_simps wp_ret_all go split: option.split)
  show "wp True (route L r d st) (\<lambda>v. extends {} s) (\<lambda>e t. True \<longrightarrow> extends {} s t) s"
    unfolding route_def Let_def
    using go [OF extends_refl] up by (auto simp: wp_simps wp_ret_all extends_refl split: option.split)
qed

lemma quiet_query: "wholly (extends {}) (dr_query (active_driver L r d))"
  by (rule quiet_extend [OF loop_driver_quiet(1)])

lemma run_if_extends:
  "wholly (extends {}) yes \<Longrightarrow> wholly (extends {}) no \<Longrightarrow> wholly (extends {}) (run_if L r d c yes no)"
  unfolding run_if_def Let_def
  by (intro extends.kept_intros quiet_query quiet_extend [OF lift_quiet]
      extends.wholly_with_attributes driver_kept_mono [OF active_driver_quiet quiet_extends])

lemma for_each_extends: "wholly (extends {}) body \<Longrightarrow> wholly (extends {}) (for_each_loop var body els)"
  by (induction els) (auto intro!: extends.kept_intros quiet_extend [OF bind_var_quiet])

lemma forget_tree_extends: "wholly (extends {}) forget_tree"
  unfolding forget_tree_def by (rule extends.kept_modify) (simp add: extends_def crashes_def rel_forward_refl)

lemma run_web_extends: "(\<And>h. wholly (extends {}) (inner h)) \<Longrightarrow> wholly (extends {}) (run_web L r d sel inner)"
  unfolding run_web_def Let_def by (intro extends.kept_intros quiet_query forget_tree_extends)

lemma run_app_extends: "wholly (extends {}) inner \<Longrightarrow> wholly (extends {}) (run_app L r d bundle inner)"
  unfolding run_app_def Let_def
  by (intro extends.kept_intros forget_tree_extends quiet_extend [OF loop_driver_quiet(2)])

lemma pause_before_extends: "wholly (extends {}) (pause_before L st)"
  unfolding pause_before_def forget_screen_def Let_def
  by (intro extends.kept_intros quiet_extend [OF lift_quiet] extends.kept_modify) (simp add: extends_def crashes_def rel_forward_refl)

lemma pause_after_extends: "wholly (extends {}) (pause_after_failure L x m)"
  unfolding pause_after_failure_def
  by (intro extends.kept_intros quiet_extend [OF lift_quiet] extends.kept_modify) (simp add: extends_def crashes_def rel_forward_refl)

lemma exec_extends:
  "recovers (\<lambda>_. True) (extends {}) L rec \<Longrightarrow> wholly (extends {}) (exec_steps L rec r d sts)"
  "recovers (\<lambda>_. True) (extends {}) L rec \<Longrightarrow> wholly (extends {}) (exec_step L rec r d st)"
  "recovers (\<lambda>_. True) (extends {}) L rec \<Longrightarrow> open_outcome idx oc \<Longrightarrow> closes idx (exec_work L rec r d st idx start oc w)"
proof (induction L rec r d sts and L rec r d st and L rec r d st idx start oc w rule: exec_steps_exec_step_exec_work.induct)
  case (2 L rec r d st sts)
  show ?case
    unfolding exec_steps.simps stop_if_cancelled_def
    by (intro extends.kept_intros quiet_extend [OF lift_quiet] route_extends fail_unrouted_extends pause_before_extends
        pause_after_extends 2)
next
  case (3 L rec r d n t c e w)
  show ?case
    unfolding exec_step.simps exec_work.simps open_step_def loop_now_def
    by (intro take_extends closes_plain quiet_extend [OF lift_quiet] 3) (simp add: open_outcome_def new_outcome_def)
next
  case (4 L rec r d st idx start oc l)
  then show ?case by (simp add: handle_action_closes)
next
  case (5 L rec r d st idx start oc c yes no)
  show ?case
    unfolding exec_step.simps exec_work.simps
    by (intro closes_plain run_if_extends close_step_closes 5)
next
  case (6 L rec r d st idx start oc sel var body)
  show ?case
    unfolding exec_step.simps exec_work.simps run_for_each_def
    by (intro closes_plain extends.kept_intros quiet_query for_each_extends close_step_closes 6)
next
  case (7 L rec r d st idx start oc sel body)
  show ?case
    unfolding exec_step.simps exec_work.simps
    by (intro closes_plain run_web_extends close_step_closes 7)
next
  case (8 L rec r d st idx start oc app_id body)
  show ?case
    unfolding exec_step.simps exec_work.simps
    by (intro closes_plain run_app_extends close_app_closes 8)
qed (simp_all add: extends.kept_ret handle_lifecycle_closes)

lemma no_recovery: "recovers p R L (\<lambda>_ _ _. out_of_fuel)"
  by (simp add: recovers_def recover_entry_def step_guard_def kept_def wp_simps)

lemma recovery_extends: "wholly (extends {}) (recovery_exec L r d steps)"
  unfolding recovery_exec_def by (rule exec_extends(1) [OF no_recovery])

lemma run_recovery_extends: "wholly (extends {}) (run_recovery L r d steps)"
  unfolding run_recovery_def
  by (intro extends.kept_intros extends_step.wholly_finally recovery_extends look_away_extends extends.kept_modify)
    (simp_all add: extends_def crashes_def rel_forward_refl)

lemma main_recovers: "recovers (\<lambda>_. True) (extends {}) L (run_recovery L)"
  unfolding recovers_def
proof (intro allI)
  fix r d ints b i
  let ?G = "step_guard L (run_recovery L) r d ints b"
  have rec: "ge_recover ?G i = run_recovery L r d (in_steps (ints ! i))" by (simp add: step_guard_def)
  have failure: "wholly (extends {}) (set_failure ?G m)" for m
    unfolding set_failure_def
    by (rule extends.kept_modify) (simp add: step_guard_def extends_def crashes_def rel_forward_refl)
  show "wholly (extends {}) (recover_entry ?G i)"
    unfolding recover_entry_def rec by (intro extends.kept_intros run_recovery_extends failure)
qed

lemma phase_extends: "run_steps L primary steps s = (r, t) \<Longrightarrow> r \<noteq> NoFuel \<Longrightarrow> extends {} s t"
  using exec_extends(1) [OF main_recovers, of L primary Native steps] unfolding run_steps_def exec_main_def kept_def wp_def
  by (cases r) (auto dest!: spec [of _ s])

end
