(* ===== verification/Loop_Verdict.thy ===== *)
theory Loop_Verdict
  imports Loop_Results
begin

text \<open>
  Whether a phase failed is what its outcomes say: it returns no failure exactly when every outcome it
  appended is ok, the ones of the steps its interrupts ran included.  The hypothesis \<open>calm\<close> is that the
  calls around a finished step (the clock, the drain of interruptions, the crash artifacts, the step
  gate, leaving an application) do not raise what a step body turns into a refusal.
\<close>

section \<open>What the parts of a step say\<close>

definition silent :: "(exn \<Rightarrow> bool) \<Rightarrow> ('s, 'a) prog \<Rightarrow> bool" where
  "silent p m \<longleftrightarrow> (\<forall>s. wp True m (\<lambda>v t. True) (\<lambda>e t. \<not> p e) s)"

definition calm :: "'w loop_cfg \<Rightarrow> bool" where
  "calm L \<longleftrightarrow> (\<forall>r. silent body_refusal (we_now (rc_wait (lc_runner L r)))) \<and>
     (\<forall>r d m. dr_interruptions (active_driver L r d) = Some m \<longrightarrow> silent body_refusal m) \<and>
     (\<forall>m. lc_crash_files L = Some m \<longrightarrow> silent body_refusal m) \<and>
     (\<forall>x m. silent body_refusal (lc_after_failure L x m)) \<and>
     (\<forall>r d. silent (\<lambda>e. body_refusal e \<and> \<not> app_refusal e) (dr_call (active_driver L r d) LeaveApp))"

text \<open>The outcomes appended between two states that agree on the step's own part.\<close>

definition grown :: "(step_outcome list \<Rightarrow> bool) \<Rightarrow> 'w ls \<Rightarrow> 'w ls \<Rightarrow> bool" where
  "grown A s t \<longleftrightarrow> ls_local t = ls_local s \<and> (\<exists>new. ls_outcomes t = ls_outcomes s @ new \<and> A new)"

abbreviation all_ok :: "step_outcome list \<Rightarrow> bool" where
  "all_ok \<equiv> list_all oc_ok"

definition tells :: "(exn \<Rightarrow> bool) \<Rightarrow> ('a \<Rightarrow> step_outcome list \<Rightarrow> bool) \<Rightarrow> ('w ls, 'a) prog \<Rightarrow> bool" where
  "tells p A m \<longleftrightarrow> (\<forall>s. wp True m (\<lambda>v. grown (A v) s) (\<lambda>e. grown (\<lambda>xs. p e \<longrightarrow> all_ok xs) s) s)"

definition plain :: "'w ls \<Rightarrow> 'w ls \<Rightarrow> bool" where
  "plain s t \<longleftrightarrow> ls_local t = ls_local s \<and> ls_outcomes t = ls_outcomes s"

interpretation plain: keeping plain
  by unfold_locales (simp_all add: plain_def)

lemma plain_grown: "plain s t \<Longrightarrow> grown A t u \<Longrightarrow> grown A s u"
  by (simp add: plain_def grown_def)

lemma grown_plain: "grown A s t \<Longrightarrow> plain t u \<Longrightarrow> grown A s u"
  by (simp add: plain_def grown_def)

lemma grown_nil: "A [] \<Longrightarrow> plain s t \<Longrightarrow> grown A s t"
  by (simp add: plain_def grown_def)

lemma grown_mono: "grown A s t \<Longrightarrow> (\<And>xs. A xs \<Longrightarrow> B xs) \<Longrightarrow> grown B s t"
  unfolding grown_def by blast

lemma grown_append: "grown A s t \<Longrightarrow> grown B t u \<Longrightarrow> (\<And>xs ys. A xs \<Longrightarrow> B ys \<Longrightarrow> C (xs @ ys)) \<Longrightarrow> grown C s u"
  unfolding grown_def by (metis append.assoc)

lemma tells_ret: "A v [] \<Longrightarrow> tells p A (ret v)"
  by (simp add: tells_def wp_simps grown_def)

lemma tells_raise: "tells p A (raise e)"
  by (simp add: tells_def wp_simps grown_def)

lemma tells_plain:
  fixes m :: "('w ls, 'a) prog"
  assumes "wholly plain m" "\<And>v. tells p A (f v)"
  shows "tells p A (seq m f)"
  unfolding tells_def wp_seq
proof (intro allI, rule kept_wp [OF assms(1)])
  fix s v and t :: "'w ls" assume t: "plain s t"
  have "wp True (f v) (\<lambda>v. grown (A v) t) (\<lambda>e. grown (\<lambda>xs. p e \<longrightarrow> all_ok xs) t) t" using assms(2) by (simp add: tells_def)
  then show "wp True (f v) (\<lambda>v. grown (A v) s) (\<lambda>e. grown (\<lambda>xs. p e \<longrightarrow> all_ok xs) s) t"
    by (rule wp_mono) (auto intro: plain_grown [OF t])
qed (simp add: grown_nil)

lemma tells_nothing: "wholly plain m \<Longrightarrow> (\<And>v. A v []) \<Longrightarrow> tells p A m"
  unfolding tells_def by (intro allI) (erule kept_wp, simp_all add: grown_nil)

lemma tells_mono: "tells p A m \<Longrightarrow> (\<And>v xs. A v xs \<Longrightarrow> B v xs) \<Longrightarrow> tells p B m"
  unfolding tells_def by (blast intro: wp_mono grown_mono)

lemma tells_if: "(c \<Longrightarrow> tells p A m) \<Longrightarrow> (\<not> c \<Longrightarrow> tells p A n) \<Longrightarrow> tells p A (if c then m else n)"
  by simp

lemma tells_option:
  "(v = None \<Longrightarrow> tells p A m) \<Longrightarrow> (\<And>x. v = Some x \<Longrightarrow> tells p A (f x)) \<Longrightarrow> tells p A (case v of None \<Rightarrow> m | Some x \<Rightarrow> f x)"
  by (cases v) simp_all

lemma tells_sum:
  "(\<And>x. v = Inl x \<Longrightarrow> tells p A (f x)) \<Longrightarrow> (\<And>x. v = Inr x \<Longrightarrow> tells p A (g x)) \<Longrightarrow>
   tells p A (case v of Inl x \<Rightarrow> f x | Inr x \<Rightarrow> g x)"
  by (cases v) simp_all

lemma tells_pair: "(\<And>x y. v = (x, y) \<Longrightarrow> tells p A (f x y)) \<Longrightarrow> tells p A (case v of (x, y) \<Rightarrow> f x y)"
  by (cases v) simp

text \<open>What follows may raise nothing that counts, or comes after outcomes that are all ok.\<close>

lemma tells_seq:
  fixes m :: "('w ls, 'a) prog"
  assumes "tells p A m" "\<And>v. tells p (B v) (f v)"
    and "\<And>v w xs ys. A v xs \<Longrightarrow> B v w ys \<Longrightarrow> C w (xs @ ys)"
    and "\<And>v. silent p (f v) \<or> (\<forall>xs. A v xs \<longrightarrow> all_ok xs)"
  shows "tells p C (seq m f)"
  unfolding tells_def wp_seq
proof
  fix s :: "'w ls"
  have "wp True m (\<lambda>v. grown (A v) s) (\<lambda>e. grown (\<lambda>xs. p e \<longrightarrow> all_ok xs) s) s" using assms(1) by (simp add: tells_def)
  then show "wp True m (\<lambda>v. wp True (f v) (\<lambda>v. grown (C v) s) (\<lambda>e. grown (\<lambda>xs. p e \<longrightarrow> all_ok xs) s)) (\<lambda>e. grown (\<lambda>xs. p e \<longrightarrow> all_ok xs) s) s"
  proof (rule wp_mono)
    fix v t assume t: "grown (A v) s t"
    have f: "wp True (f v) (\<lambda>w. grown (B v w) t) (\<lambda>e. grown (\<lambda>xs. p e \<longrightarrow> all_ok xs) t) t" using assms(2) by (simp add: tells_def)
    have ret: "grown (C w) s u" if "grown (B v w) t u" for w u
      by (rule grown_append [OF t that]) (rule assms(3))
    show "wp True (f v) (\<lambda>v. grown (C v) s) (\<lambda>e. grown (\<lambda>xs. p e \<longrightarrow> all_ok xs) s) t"
    proof (cases "silent p (f v)")
      case True
      then have "wp True (f v) (\<lambda>w u. grown (B v w) t u \<and> True) (\<lambda>e u. grown (\<lambda>xs. p e \<longrightarrow> all_ok xs) t u \<and> \<not> p e) t"
        unfolding wp_conj using f by (simp add: silent_def)
      then show ?thesis
        by (rule wp_mono) (use t in \<open>auto intro: ret grown_append\<close>)
    next
      case False
      then have ok: "\<And>xs. A v xs \<Longrightarrow> all_ok xs" using assms(4) by blast
      have "grown (\<lambda>xs. p e \<longrightarrow> all_ok xs) s u" if "grown (\<lambda>xs. p e \<longrightarrow> all_ok xs) t u" for e u
        by (rule grown_append [OF t that]) (simp add: ok)
      then show ?thesis by (intro wp_mono [OF f] ret) auto
    qed
  qed simp
qed

lemma yields_mono: "yields U m \<Longrightarrow> (\<And>v. U v \<Longrightarrow> V v) \<Longrightarrow> yields V m"
  unfolding yields_def by (blast intro: wp_mono)

section \<open>What leaves the step and the outcomes alone\<close>

lemma lift_plain: "wholly plain (lift m)"
  unfolding lift_def by (rule keeps_kept) (auto simp: keeps_iff on_part_def plain_def split: prod.splits)

lemma lift_plain': "wholly plain (on_part ls_world (\<lambda>w s. s\<lparr>ls_world := w\<rparr>) m)"
  using lift_plain [of m] by (simp add: lift_def)

lemma lifted_driver_plain: "driver_kept plain (lift_driver ls_world (\<lambda>w s. s\<lparr>ls_world := w\<rparr>) d)"
  unfolding driver_kept_def lift_driver_def by (auto simp: lift_plain')

lemma active_driver_plain: "driver_kept plain (active_driver L r d)"
  unfolding active_driver_def own_driver_def by (auto simp: lifted_driver_plain split: drv.split option.split)

lemma modify_plain: "(\<And>s. plain s (f s)) \<Longrightarrow> wholly plain (modify f)"
  by (rule plain.kept_modify)

lemmas loop_driver_plain = plain.driver_keptD [OF active_driver_plain]

lemma forget_tree_plain: "wholly plain forget_tree"
  unfolding forget_tree_def by (rule modify_plain) (simp add: plain_def)

lemma forget_screen_plain: "wholly plain forget_screen"
  unfolding forget_screen_def by (rule modify_plain) (simp add: plain_def)

lemma look_away_plain: "wholly plain (look_away x)"
  unfolding look_away_def by (intro plain.kept_intros forget_screen_plain modify_plain) (simp add: plain_def)

lemma set_roster_plain: "wholly plain (set_roster f)"
  unfolding set_roster_def by (rule modify_plain) (simp add: plain_def)

lemma bind_var_plain: "wholly plain (bind_var n v)"
  unfolding bind_var_def by (rule modify_plain) (simp add: plain_def)

lemma bring_up_plain: "wholly plain (bring_up L x)"
  unfolding bring_up_def by (intro plain.kept_intros lift_plain set_roster_plain modify_plain) (simp add: plain_def)

lemma route_plain: "wholly plain (route L r d st)"
  unfolding route_def route_alive_def Let_def by (intro plain.kept_intros look_away_plain bring_up_plain)

lemma pause_before_plain: "wholly plain (pause_before L st)"
  unfolding pause_before_def Let_def by (intro plain.kept_intros lift_plain forget_screen_plain)

lemma pause_after_plain: "wholly plain (pause_after_failure L x m)"
  unfolding pause_after_failure_def by (intro plain.kept_intros lift_plain modify_plain) (simp add: plain_def)

lemma lifecycle_plain: "wholly plain (lifecycle_problem L r st)"
  unfolding lifecycle_problem_def install_member_def move_primary_def
  by (intro plain.kept_intros lift_plain set_roster_plain) (auto intro!: plain.kept_intros lift_plain set_roster_plain split: work.split)

lemma duration_plain: "wholly plain (duration L r t)"
  unfolding duration_def loop_now_def by (intro plain.kept_intros lift_plain)

lemma set_latches_plain: "wholly plain (set_latches f)"
  unfolding set_latches_def by (rule modify_plain) (simp add: plain_def)

lemma classify_plain: "wholly plain (classify_app_crash L r d oc)"
  unfolding classify_app_crash_def probe_app_crash_def confirm_crash_def
  by (intro plain.kept_intros set_latches_plain lift_plain loop_driver_plain)

lemma drained_plain: "wholly plain (drain_step_interruptions (active_driver L r d) oc)"
  unfolding drain_step_interruptions_def drain_interruptions_def by (intro plain.kept_intros loop_driver_plain)

section \<open>The end of an outcome\<close>

lemma silent_seq: "silent p m \<Longrightarrow> (\<And>v. silent p (f v)) \<Longrightarrow> silent p (seq m f)"
  unfolding silent_def wp_seq by (blast intro: wp_mono)

lemma silent_ret: "silent p (ret v)"
  by (simp add: silent_def wp_simps)

lemma silent_modify: "silent p (modify f)"
  by (simp add: silent_def wp_simps)

lemma silent_gets: "silent p (gets f)"
  by (simp add: silent_def wp_simps)

lemma silent_raise: "\<not> p e \<Longrightarrow> silent p (raise e)"
  by (simp add: silent_def wp_simps)

lemma silent_if: "(c \<Longrightarrow> silent p m) \<Longrightarrow> (\<not> c \<Longrightarrow> silent p n) \<Longrightarrow> silent p (if c then m else n)"
  by simp

lemma silent_only_if: "(c \<Longrightarrow> silent p m) \<Longrightarrow> silent p (only_if c m)"
  by (simp add: only_if_def silent_ret)

lemma silent_option:
  "(v = None \<Longrightarrow> silent p m) \<Longrightarrow> (\<And>x. v = Some x \<Longrightarrow> silent p (f x)) \<Longrightarrow> silent p (case v of None \<Rightarrow> m | Some x \<Rightarrow> f x)"
  by (cases v) simp_all

lemma silent_lift: "silent p m \<Longrightarrow> silent p (lift m)"
  by (simp add: silent_def lift_def wp_simps)

lemma silent_weaken: "silent q m \<Longrightarrow> (\<And>e. p e \<Longrightarrow> q e) \<Longrightarrow> silent p m"
  unfolding silent_def by (blast intro: wp_mono)

lemmas silent_intros = silent_seq silent_ret silent_modify silent_gets silent_if silent_only_if silent_option silent_lift

lemma silent_plain_grown:
  assumes "silent p m" "wholly plain m"
  shows "wp True m (\<lambda>v. plain s) (\<lambda>e t. \<not> p e) s"
proof -
  have "wp True m (\<lambda>v t. plain s t \<and> True) (\<lambda>e t. plain s t \<and> \<not> p e) s"
    unfolding wp_conj using assms by (simp add: silent_def kept_def)
  then show ?thesis by (rule wp_mono) simp_all
qed

lemma drain_silent: "calm L \<Longrightarrow> silent body_refusal (drain_step_interruptions (active_driver L r d) oc)"
  unfolding calm_def drain_step_interruptions_def drain_interruptions_def by (intro silent_intros) blast+

lemma duration_silent: "calm L \<Longrightarrow> silent body_refusal (duration L r t)"
  unfolding calm_def duration_def loop_now_def by (intro silent_intros) blast

lemma crash_is_no_refusal: "is_crash e \<Longrightarrow> \<not> body_refusal e"
  by (cases e) simp_all

lemma classify_silent: "calm L \<Longrightarrow> silent body_refusal (classify_app_crash L r d oc)"
  unfolding classify_app_crash_def probe_app_crash_def confirm_crash_def set_latches_def
  apply (intro silent_intros)
  subgoal by (auto simp: silent_def wp_simps crash_is_no_refusal intro!: wp_mono [OF wp_any])
  by (simp add: calm_def)

lemma tells_value:
  fixes m :: "('w ls, 'a) prog"
  assumes "wholly plain m" "yields V m" "\<And>v. V v \<Longrightarrow> tells p A (f v)"
  shows "tells p A (seq m f)"
  unfolding tells_def wp_seq
proof
  fix s :: "'w ls"
  have "wp True m (\<lambda>v t. plain s t \<and> V v) (\<lambda>e t. plain s t \<and> True) s"
    unfolding wp_conj using assms(1,2) by (simp add: kept_def yields_def)
  then show "wp True m (\<lambda>v. wp True (f v) (\<lambda>v. grown (A v) s) (\<lambda>e. grown (\<lambda>xs. p e \<longrightarrow> all_ok xs) s)) (\<lambda>e. grown (\<lambda>xs. p e \<longrightarrow> all_ok xs) s) s"
  proof (rule wp_mono)
    fix v t assume t: "plain s t \<and> V v"
    then have "wp True (f v) (\<lambda>v. grown (A v) t) (\<lambda>e. grown (\<lambda>xs. p e \<longrightarrow> all_ok xs) t) t" using assms(3) by (simp add: tells_def)
    then show "wp True (f v) (\<lambda>v. grown (A v) s) (\<lambda>e. grown (\<lambda>xs. p e \<longrightarrow> all_ok xs) s) t"
      by (rule wp_mono) (use t in \<open>auto intro: plain_grown\<close>)
  qed (simp add: grown_nil)
qed

text \<open>The outcome a step ends with: the failure it reports is that outcome's, and it is no better than
  what came before.\<close>

definition ends_as :: "bool \<Rightarrow> string option \<Rightarrow> step_outcome list \<Rightarrow> bool" where
  "ends_as ok v xs \<longleftrightarrow> (\<exists>o'. xs = [o'] \<and> (oc_ok o' \<longrightarrow> ok) \<and> (v = None \<longleftrightarrow> oc_ok o'))"

lemma step_failure_None: "step_failure i k oc = None \<longleftrightarrow> oc_ok oc"
  by (simp add: step_failure_def)

lemma append_tells: "tells p (\<lambda>v xs. xs = [oc]) (append_outcome oc)"
  by (simp add: tells_def append_outcome_def wp_simps grown_def)

lemma append_silent: "silent p (append_outcome oc)"
  unfolding append_outcome_def by (rule silent_modify)

lemma classify_returns: "yields (\<lambda>oc'. oc_ok oc' = oc_ok oc) (classify_app_crash L r d oc)"
  unfolding classify_app_crash_def confirm_crash_def
  by (intro yields_if yields_then yields_option yields_ret) auto

lemma reports_tells: "oc_ok oc \<longrightarrow> ok \<Longrightarrow> tells p (ends_as ok) (seq (append_outcome oc) (\<lambda>_. ret (step_failure i k oc)))"
  by (simp add: tells_def append_outcome_def wp_simps grown_def ends_as_def step_failure_None)

lemma finish_as:
  assumes "oc_ok oc \<longrightarrow> ok"
  shows "tells p (ends_as ok) (seq (finish_outcome L r d oc) (\<lambda>oc. ret (step_failure i (k oc) oc)))"
proof -
  have "tells p (ends_as ok) (seq (classify_app_crash L r d oc) (\<lambda>oc. seq (append_outcome oc) (\<lambda>_. ret (step_failure i (k oc) oc))))"
    by (rule tells_value [OF classify_plain classify_returns]) (rule reports_tells, use assms in simp)
  moreover have "seq (seq m (\<lambda>oc. seq (append_outcome oc) (\<lambda>_. ret oc))) (\<lambda>oc. ret (step_failure i (k oc) oc))
      = seq m (\<lambda>oc. seq (append_outcome oc) (\<lambda>_. ret (step_failure i (k oc) oc)))" for m :: "('a ls, step_outcome) prog"
    by (rule ext) (simp add: seq_def ret_def split: prod.split res.split)
  ultimately show ?thesis by (simp add: finish_outcome_def)
qed

lemma drained_no_better: "oc_ok oc \<longrightarrow> ok \<Longrightarrow> yields (\<lambda>oc. oc_ok oc \<longrightarrow> ok) (drain_step_interruptions d oc)"
  unfolding drain_step_interruptions_def with_drained_def
  by (intro yields_then yields_ret) (auto simp: Let_def split: prod.split)

lemma close_step_tells: "tells p (ends_as (fst out)) (close_step L r d idx start oc out)"
  unfolding close_step_def
  by (intro tells_plain [OF duration_plain] tells_value [OF drained_plain drained_no_better] finish_as) simp_all

lemma close_app_tells: "tells p (ends_as (fst out)) (close_app L r d idx start oc out)"
  unfolding close_app_def
  by (intro tells_plain [OF duration_plain] tells_value [OF drained_plain drained_no_better] reports_tells) simp_all

lemma finish_silent: "calm L \<Longrightarrow> silent body_refusal (finish_outcome L r d oc)"
  unfolding finish_outcome_def by (intro silent_intros classify_silent append_silent)

lemma close_step_silent: "calm L \<Longrightarrow> silent body_refusal (close_step L r d idx start oc out)"
  unfolding close_step_def by (intro silent_intros duration_silent drain_silent finish_silent)

lemma close_app_silent: "calm L \<Longrightarrow> silent body_refusal (close_app L r d idx start oc out)"
  unfolding close_app_def by (intro silent_intros duration_silent drain_silent append_silent)

text \<open>A composite step: what its body says, and its own outcome.\<close>

definition phase_verdict :: "string option \<Rightarrow> step_outcome list \<Rightarrow> bool" where
  "phase_verdict v xs \<longleftrightarrow> (v = None \<longleftrightarrow> all_ok xs)"

definition body_verdict :: "bool \<times> string \<Rightarrow> step_outcome list \<Rightarrow> bool" where
  "body_verdict out xs \<longleftrightarrow> (fst out \<longrightarrow> all_ok xs)"

lemma composite_tells:
  assumes "tells p body_verdict m" "\<And>out. tells p (ends_as (fst out)) (f out)" "\<And>out. silent p (f out)"
  shows "tells p phase_verdict (seq m f)"
  by (rule tells_seq [OF assms(1,2)]) (use assms(3) in \<open>auto simp: ends_as_def body_verdict_def phase_verdict_def\<close>)

lemma as_verdict_body: "phase_verdict v xs \<Longrightarrow> body_verdict (as_verdict v) xs"
  by (auto simp: phase_verdict_def body_verdict_def as_verdict_def split: option.splits)

lemma tells_map: "tells p A m \<Longrightarrow> (\<And>v xs. A v xs \<Longrightarrow> B (g v) xs) \<Longrightarrow> tells p B (seq m (\<lambda>v. ret (g v)))"
  unfolding tells_def wp_seq wp_ret_all by (blast intro: wp_mono grown_mono)

lemma tells_weaken: "tells p A m \<Longrightarrow> (\<And>e. q e \<Longrightarrow> p e) \<Longrightarrow> tells q A m"
  unfolding tells_def by (blast intro: wp_mono grown_mono)

text \<open>A handler that reports a failure; the exceptions it takes need not count before.\<close>

lemma tells_catching:
  assumes "tells (\<lambda>e. p e \<and> \<not> q e) A m" "\<And>e xs. A (g e) xs"
  shows "tells p A (catching q m (\<lambda>e. ret (g e)))"
  unfolding tells_def wp_catching
proof
  fix s
  have "wp True m (\<lambda>v. grown (A v) s) (\<lambda>e. grown (\<lambda>xs. p e \<and> \<not> q e \<longrightarrow> all_ok xs) s) s"
    using assms(1) by (simp add: tells_def)
  then show "wp True m (\<lambda>v. grown (A v) s)
     (\<lambda>e t. if q e then wp True (ret (g e)) (\<lambda>v. grown (A v) s) (\<lambda>e. grown (\<lambda>xs. p e \<longrightarrow> all_ok xs) s) t
             else grown (\<lambda>xs. p e \<longrightarrow> all_ok xs) s t) s"
    by (rule wp_mono) (auto simp: wp_simps assms(2) intro: grown_mono)
qed

lemma silent_forget_tree: "silent p forget_tree"
  unfolding forget_tree_def by (rule silent_modify)

lemma silent_swallow: "silent p (catch m (\<lambda>_. ret v))"
  by (simp add: silent_def wp_catch wp_ret_all wp_any)

text \<open>A clean-up that raises nothing of its own.\<close>

lemma tells_cleanup:
  fixes m :: "('w ls, 'a) prog"
  assumes "tells p A m" "wholly plain c" "silent (\<lambda>_. True) c"
  shows "tells p A (catch m (\<lambda>e. seq c (\<lambda>_. raise e)))"
  unfolding tells_def wp_catch
proof
  fix s :: "'w ls"
  have "wp True m (\<lambda>v. grown (A v) s) (\<lambda>e. grown (\<lambda>xs. p e \<longrightarrow> all_ok xs) s) s" using assms(1) by (simp add: tells_def)
  then show "wp True m (\<lambda>v. grown (A v) s) (\<lambda>e. wp True (seq c (\<lambda>_. raise e)) (\<lambda>v. grown (A v) s)
      (\<lambda>e. grown (\<lambda>xs. p e \<longrightarrow> all_ok xs) s)) s"
  proof (rule wp_mono)
    fix e t assume t: "grown (\<lambda>xs. p e \<longrightarrow> all_ok xs) s t"
    show "wp True (seq c (\<lambda>_. raise e)) (\<lambda>v. grown (A v) s) (\<lambda>e. grown (\<lambda>xs. p e \<longrightarrow> all_ok xs) s) t"
      unfolding wp_seq by (rule wp_mono [OF silent_plain_grown [OF assms(3,2)]]) (auto simp: wp_simps intro: grown_plain [OF t])
  qed
qed

lemma run_if_tells:
  "tells p phase_verdict yes \<Longrightarrow> tells p phase_verdict no \<Longrightarrow> tells p body_verdict (run_if L r d c yes no)"
  unfolding run_if_def Let_def
  apply (intro tells_plain [OF plain.kept_gets] tells_plain [OF loop_driver_plain(1)]
      tells_plain [OF plain.wholly_with_attributes [OF active_driver_plain]] tells_plain [OF lift_plain])
  apply (rule tells_seq [where A = phase_verdict and B = "\<lambda>v out xs. xs = [] \<and> (fst out \<longleftrightarrow> v = None)"])
     apply simp
    apply (auto simp: body_verdict_def phase_verdict_def intro!: tells_ret silent_ret split: option.split)
  done

lemma for_each_tells: "tells p phase_verdict body \<Longrightarrow> tells p body_verdict (for_each_loop var body els)"
proof (induction els)
  case Nil
  show ?case by (simp add: tells_ret body_verdict_def)
next
  case (Cons el els)
  have again: "tells p body_verdict (seq body (\<lambda>failure. case failure of Some m \<Rightarrow> ret (False, m) | None \<Rightarrow> for_each_loop var body els))"
    by (rule tells_seq [OF Cons.prems, where B = "\<lambda>v. if v = None then body_verdict else (\<lambda>out xs. \<not> fst out)"])
      (auto simp: phase_verdict_def body_verdict_def intro!: tells_ret silent_ret Cons.IH [OF Cons.prems] split: option.split if_splits)
  show ?case
    unfolding for_each_loop.simps
    by (intro tells_if tells_plain [OF bind_var_plain] again) (simp add: tells_ret body_verdict_def)
qed

lemma run_for_each_tells: "tells p phase_verdict body \<Longrightarrow> tells p body_verdict (run_for_each L r d sel var body)"
  unfolding run_for_each_def
  by (intro tells_plain [OF plain.kept_gets] tells_plain [OF loop_driver_plain(1)] for_each_tells)

lemma run_web_tells:
  assumes "\<And>h. tells p phase_verdict (inner h)"
  shows "tells p body_verdict (run_web L r d sel inner)"
proof -
  have weak: "tells (\<lambda>e. p e \<and> \<not> is_selector_error e) phase_verdict (inner h)" for h
    by (rule tells_weaken [OF assms]) simp
  have inside: "tells (\<lambda>e. p e \<and> \<not> is_selector_error e) body_verdict
      (seq (inner h) (\<lambda>f. seq forget_tree (\<lambda>_. ret (as_verdict f))))" for h
    by (rule tells_seq [OF weak, where B = "\<lambda>v out xs. xs = [] \<and> out = as_verdict v"])
      (auto intro!: tells_plain [OF forget_tree_plain] tells_ret silent_intros silent_forget_tree as_verdict_body)
  show ?thesis
    unfolding run_web_def Let_def
    by (intro tells_catching tells_if tells_plain [OF plain.kept_gets] tells_plain [OF loop_driver_plain(1)] tells_sum tells_option
        tells_raise tells_plain [OF forget_tree_plain] inside tells_ret) (simp_all add: body_verdict_def)
qed

lemma run_app_tells:
  assumes "tells p phase_verdict inner" "calm L" "\<And>e. p e \<Longrightarrow> body_refusal e"
  shows "tells p body_verdict (run_app L r d app_id inner)"
proof -
  let ?q = "\<lambda>e. p e \<and> \<not> app_refusal e"
  let ?leave = "dr_call (active_driver L r d) LeaveApp"
  have weak: "tells ?q phase_verdict inner" by (rule tells_weaken [OF assms(1)]) simp
  have cleaned: "tells ?q phase_verdict (catch inner (\<lambda>e. seq (seq (catch ?leave (\<lambda>_. ret ())) (\<lambda>_. forget_tree)) (\<lambda>_. raise e)))"
  proof (rule tells_cleanup [OF weak])
    show "wholly plain (seq (catch ?leave (\<lambda>_. ret ())) (\<lambda>_. forget_tree))"
      by (intro plain.kept_intros loop_driver_plain forget_tree_plain)
    show "silent (\<lambda>_. True) (seq (catch ?leave (\<lambda>_. ret ())) (\<lambda>_. forget_tree))"
      by (intro silent_seq silent_swallow silent_forget_tree)
  qed
  have assoc: "seq (seq a b) f = seq a (\<lambda>x. seq (b x) f)" for a :: "('a ls, unit) prog" and b :: "unit \<Rightarrow> ('a ls, unit) prog" and f :: "unit \<Rightarrow> ('a ls, string option) prog"
    by (rule ext) (simp add: seq_def split: prod.split res.split)
  have quiet_leave: "silent ?q ?leave"
    using assms(2,3) unfolding calm_def by (blast intro: silent_weaken)
  have left: "tells ?q body_verdict (seq (catch inner (\<lambda>e. seq (seq (catch ?leave (\<lambda>_. ret ())) (\<lambda>_. forget_tree)) (\<lambda>_. raise e)))
      (\<lambda>f. seq ?leave (\<lambda>_. seq forget_tree (\<lambda>_. ret (as_verdict f)))))"
    by (rule tells_seq [OF cleaned, where B = "\<lambda>v out xs. xs = [] \<and> out = as_verdict v"])
      (auto intro!: tells_plain [OF forget_tree_plain] tells_plain [OF loop_driver_plain(2)] tells_ret silent_intros quiet_leave
        as_verdict_body silent_forget_tree)
  show ?thesis
    unfolding run_app_def Let_def
    by (intro tells_catching tells_plain [OF plain.kept_gets] tells_plain [OF loop_driver_plain(2)] tells_plain [OF forget_tree_plain]
        left [unfolded assoc]) (simp add: body_verdict_def)
qed

section \<open>The loop\<close>

definition leaf_tells :: "(exn \<Rightarrow> bool) \<Rightarrow> 'w loop_cfg \<Rightarrow> 'w rec \<Rightarrow> bool" where
  "leaf_tells p L rec \<longleftrightarrow> (\<forall>r d st idx start oc.
     tells p (\<lambda>oc' xs. oc_ok oc' \<longrightarrow> all_ok xs) (scoped (leaf_outcome L rec r d st idx start oc)))"

lemma handle_action_tells:
  assumes "leaf_tells p L rec" "calm L" "\<And>e. p e \<Longrightarrow> body_refusal e"
  shows "tells p phase_verdict (handle_action L rec r d st idx start oc)"
  unfolding handle_action_def
proof (rule tells_seq)
  show "tells p (\<lambda>oc' xs. oc_ok oc' \<longrightarrow> all_ok xs) (scoped (leaf_outcome L rec r d st idx start oc))"
    using assms(1) by (simp add: leaf_tells_def)
  show "tells p (ends_as (oc_ok oc')) (seq (finish_outcome L r d oc') (\<lambda>oc. ret (step_failure idx (action_of st) oc)))" for oc'
    by (rule finish_as) simp
  show "silent p (seq (finish_outcome L r d oc') (\<lambda>oc. ret (step_failure idx (action_of st) oc))) \<or>
      (\<forall>xs. (oc_ok oc' \<longrightarrow> all_ok xs) \<longrightarrow> all_ok xs)" for oc'
    by (rule disjI1, rule silent_weaken [OF silent_seq [OF finish_silent [OF assms(2)] silent_ret] assms(3)])
qed (auto simp: ends_as_def phase_verdict_def)

lemma take_index_plain: "wholly plain take_index"
  unfolding take_index_def by (intro plain.kept_intros modify_plain) (simp add: plain_def)

lemma fail_unrouted_tells: "tells p phase_verdict (fail_unrouted r st reason)"
  unfolding fail_unrouted_def
  by (intro tells_plain [OF take_index_plain] tells_map [OF append_tells]) (simp add: phase_verdict_def)

lemma handle_lifecycle_tells: "tells p phase_verdict (handle_lifecycle L r d st idx start oc)"
  unfolding handle_lifecycle_def split_beta
  by (intro tells_plain [OF lifecycle_plain] tells_plain [OF duration_plain] tells_mono [OF finish_as])
    (auto simp: ends_as_def phase_verdict_def)

lemma pause_after_silent: "calm L \<Longrightarrow> silent body_refusal (pause_after_failure L x m)"
  unfolding calm_def pause_after_failure_def by (intro silent_intros) blast

lemma next_steps_tells:
  assumes "tells p phase_verdict m" "tells p phase_verdict rest" "calm L" "\<And>e. p e \<Longrightarrow> body_refusal e"
  shows "tells p phase_verdict (seq m (\<lambda>failure. case failure of
      Some m \<Rightarrow> seq (pause_after_failure L x m) (\<lambda>_. ret (Some m)) | None \<Rightarrow> rest))"
proof (rule tells_seq [OF assms(1)])
  show "tells p (if v = None then phase_verdict else (\<lambda>out xs. out = v \<and> xs = []))
      (case v of Some m \<Rightarrow> seq (pause_after_failure L x m) (\<lambda>_. ret (Some m)) | None \<Rightarrow> rest)" for v
    using assms(2) by (auto intro!: tells_plain [OF pause_after_plain] tells_ret split: option.split)
  have quiet: "silent p (seq (pause_after_failure L x m) (\<lambda>_. ret (Some m)))" for m
    by (rule silent_weaken [OF silent_seq [OF pause_after_silent [OF assms(3)] silent_ret] assms(4)])
  show "silent p (case v of Some m \<Rightarrow> seq (pause_after_failure L x m) (\<lambda>_. ret (Some m)) | None \<Rightarrow> rest) \<or>
      (\<forall>xs. phase_verdict v xs \<longrightarrow> all_ok xs)" for v
    using quiet by (auto simp: phase_verdict_def split: option.split)
qed (auto simp: phase_verdict_def split: if_splits)

lemma exec_tells:
  "leaf_tells p L rec \<Longrightarrow> calm L \<Longrightarrow> (\<And>e. p e \<Longrightarrow> body_refusal e) \<Longrightarrow> tells p phase_verdict (exec_steps L rec r d sts)"
  "leaf_tells p L rec \<Longrightarrow> calm L \<Longrightarrow> (\<And>e. p e \<Longrightarrow> body_refusal e) \<Longrightarrow> tells p phase_verdict (exec_step L rec r d st)"
  "leaf_tells p L rec \<Longrightarrow> calm L \<Longrightarrow> (\<And>e. p e \<Longrightarrow> body_refusal e) \<Longrightarrow> tells p phase_verdict (exec_work L rec r d st idx start oc w)"
proof (induction L rec r d sts and L rec r d st and L rec r d st idx start oc w rule: exec_steps_exec_step_exec_work.induct)
  case (2 L rec r d st sts)
  show ?case
    unfolding exec_steps.simps stop_if_cancelled_def
    by (intro tells_plain [OF plain.kept_seq [OF lift_plain]] plain.kept_intros tells_plain [OF route_plain] tells_sum tells_pair
        fail_unrouted_tells tells_plain [OF pause_before_plain] next_steps_tells 2)
next
  case (3 L rec r d n t c e w)
  show ?case
    unfolding exec_step.simps open_step_def loop_now_def
    by (intro tells_plain [OF take_index_plain] tells_plain [OF lift_plain] 3)
next
  case (4 L rec r d st idx start oc l)
  then show ?case by (simp add: handle_action_tells)
next
  case (5 L rec r d st idx start oc c yes no)
  show ?case
    unfolding exec_work.simps
    by (intro composite_tells run_if_tells close_step_tells silent_weaken [OF close_step_silent] 5)
next
  case (6 L rec r d st idx start oc sel var body)
  show ?case
    unfolding exec_work.simps
    by (intro composite_tells run_for_each_tells close_step_tells silent_weaken [OF close_step_silent] 6)
next
  case (7 L rec r d st idx start oc sel body)
  show ?case
    unfolding exec_work.simps
    by (intro composite_tells run_web_tells close_step_tells silent_weaken [OF close_step_silent] 7)
next
  case (8 L rec r d st idx start oc app_id body)
  show ?case
    unfolding exec_work.simps
    by (intro composite_tells run_app_tells close_app_tells silent_weaken [OF close_app_silent] 8)
next
  case (1 L rec r d)
  show ?case by (simp add: tells_ret phase_verdict_def)
qed (simp_all add: handle_lifecycle_tells)

section \<open>A leaf step in a recovery\<close>

definition same_outcomes :: "'w ls \<Rightarrow> 'w ls \<Rightarrow> bool" where
  "same_outcomes s t \<longleftrightarrow> ls_outcomes t = ls_outcomes s"

interpretation unguarded: step_keeping same_outcomes "\<lambda>_. True"
  by unfold_locales (simp_all add: same_outcomes_def quiet_def)

lemma recovery_leaf_tells: "leaf_tells p L (\<lambda>_ _ _. out_of_fuel)"
  unfolding leaf_tells_def tells_def wp_scoped
proof (intro allI)
  fix r d st idx start oc and s :: "'a ls"
  have "wholly same_outcomes (leaf_outcome L (\<lambda>_ _ _. out_of_fuel) r d st idx start oc)"
    by (rule unguarded.leaf_outcome_kept [OF no_recovery]) simp
  then show "wp True (leaf_outcome L (\<lambda>_ _ _. out_of_fuel) r d st idx start oc)
      (\<lambda>v t. grown (\<lambda>xs. oc_ok v \<longrightarrow> all_ok xs) s (t\<lparr>ls_local := ls_local s\<rparr>))
      (\<lambda>e t. grown (\<lambda>xs. p e \<longrightarrow> all_ok xs) s (t\<lparr>ls_local := ls_local s\<rparr>)) (s\<lparr>ls_local := new_local\<rparr>)"
    by (rule kept_wp) (auto simp: same_outcomes_def grown_def)
qed

lemma run_recovery_tells:
  assumes "calm L"
  shows "tells body_refusal phase_verdict (run_recovery L r d steps)"
proof -
  let ?off = "seq (modify (\<lambda>s. s\<lparr>ls_recovering := False\<rparr>)) (\<lambda>_. seq (gets ls_runners) (\<lambda>alive. only_if (alive \<noteq> []) (look_away r)))"
  have off: "wholly plain ?off"
    by (intro plain.kept_intros look_away_plain modify_plain) (simp add: plain_def)
  have quiet: "silent (\<lambda>_. True) ?off"
    unfolding look_away_def forget_screen_def by (intro silent_intros)
  have "tells body_refusal phase_verdict (recovery_exec L r d steps)"
    unfolding recovery_exec_def by (rule exec_tells(1) [OF recovery_leaf_tells assms])
  then have "tells body_refusal phase_verdict (catch (recovery_exec L r d steps) (\<lambda>e. seq ?off (\<lambda>_. raise e)))"
    by (rule tells_cleanup [OF _ off quiet])
  then have "tells body_refusal phase_verdict (finally_do (recovery_exec L r d steps) ?off)"
    unfolding finally_do_def
    by (rule tells_seq [where B = "\<lambda>v w xs. w = v \<and> xs = []"])
      (auto intro!: tells_plain [OF off] tells_ret silent_seq silent_ret silent_weaken [OF quiet])
  then show ?thesis
    unfolding run_recovery_def by (intro tells_plain modify_plain) (simp_all add: plain_def)
qed

section \<open>A leaf step with a guard\<close>

text \<open>A recovery that failed stays with the step.\<close>

abbreviation guard_note :: "'w ls \<Rightarrow> string option" where
  "guard_note s \<equiv> gu_failure (ll_guard (ls_local s))"

definition guarded :: "'w ls \<Rightarrow> 'w ls \<Rightarrow> bool" where
  "guarded s t \<longleftrightarrow> (guard_note s \<noteq> None \<longrightarrow> guard_note t \<noteq> None) \<and>
     (\<exists>new. ls_outcomes t = ls_outcomes s @ new \<and> (all_ok new \<or> guard_note t \<noteq> None))"

interpretation guarded: keeping guarded
proof
  show "guarded s s" for s :: "'a ls" by (simp add: guarded_def)
  show "guarded s u" if "guarded s t" "guarded t u" for s t u :: "'a ls"
    using that unfolding guarded_def by (metis append.assoc list_all_append)
qed

interpretation guarded_step: step_keeping guarded body_refusal
  by unfold_locales (simp_all add: guarded_def quiet_def)

lemma grown_guarded: "grown A s t \<Longrightarrow> (\<And>xs. A xs \<Longrightarrow> all_ok xs) \<Longrightarrow> guarded s t"
  unfolding grown_def guarded_def by auto

lemma main_guarded:
  assumes "calm L"
  shows "recovers body_refusal guarded L (run_recovery L)"
  unfolding recovers_def
proof (intro allI keptI)
  fix r d ints b i and s :: "'a ls"
  let ?G = "step_guard L (run_recovery L) r d ints b"
  have "wp True (run_recovery L r d (in_steps (ints ! i))) (\<lambda>v. grown (phase_verdict v) s)
      (\<lambda>e. grown (\<lambda>xs. body_refusal e \<longrightarrow> all_ok xs) s) s"
    using run_recovery_tells [OF assms] by (simp add: tells_def)
  then show "wp True (recover_entry ?G i) (\<lambda>v. guarded s) (\<lambda>e t. body_refusal e \<longrightarrow> guarded s t) s"
    unfolding recover_entry_def set_failure_def wp_seq
    by (auto simp: step_guard_def wp_simps phase_verdict_def grown_def guarded_def elim!: wp_mono split: option.split)
qed

text \<open>A body that succeeded left no failed recovery.\<close>

definition clears :: "('a \<Rightarrow> bool) \<Rightarrow> ('w ls, 'a) prog \<Rightarrow> bool" where
  "clears V m \<longleftrightarrow> (\<forall>s. wp True m (\<lambda>v t. V v \<longrightarrow> guard_note t = None) (\<lambda>e t. True) s)"

lemma clears_then: "(\<And>v. clears V (f v)) \<Longrightarrow> clears V (seq m f)"
  unfolding clears_def wp_seq by (intro allI) (rule wp_any, simp_all)

lemma clears_ret: "\<not> V v \<Longrightarrow> clears V (ret v)"
  by (simp add: clears_def wp_simps)

lemma clears_if: "(c \<Longrightarrow> clears V m) \<Longrightarrow> (\<not> c \<Longrightarrow> clears V n) \<Longrightarrow> clears V (if c then m else n)"
  by simp

lemma clears_quiet:
  fixes m :: "('w ls, 'a) prog"
  assumes "clears U m" "\<And>v. wholly quiet (f v)" "\<And>v. yields (\<lambda>w. V w \<longrightarrow> U v) (f v)"
  shows "clears V (seq m f)"
  unfolding clears_def wp_seq
proof
  fix s :: "'w ls"
  have "wp True m (\<lambda>v t. U v \<longrightarrow> guard_note t = None) (\<lambda>e t. True) s" using assms(1) by (simp add: clears_def)
  then show "wp True m (\<lambda>v. wp True (f v) (\<lambda>v t. V v \<longrightarrow> guard_note t = None) (\<lambda>e t. True)) (\<lambda>e t. True) s"
  proof (rule wp_mono)
    fix v and t :: "'w ls" assume t: "U v \<longrightarrow> guard_note t = None"
    have "wp True (f v) (\<lambda>w u. quiet t u \<and> (V w \<longrightarrow> U v)) (\<lambda>e u. quiet t u \<and> True) t"
      unfolding wp_conj using assms(2,3) by (simp add: kept_def yields_def)
    then show "wp True (f v) (\<lambda>v t. V v \<longrightarrow> guard_note t = None) (\<lambda>e t. True) t"
      by (rule wp_mono) (use t in \<open>simp_all add: quiet_def\<close>)
  qed simp
qed

lemma guarded_body_clears: "clears bd_ok (guarded_body L r d st poll l)"
proof -
  have "clears bd_ok (guard_verdict o')" for o' :: body_out
    unfolding clears_def guard_verdict_def local_failure_def failed_with_def by (auto simp: wp_simps split: option.split)
  then show ?thesis unfolding guarded_body_def by (intro clears_then)
qed

lemma clears_raise: "clears V (raise e)"
  by (simp add: clears_def wp_simps)

lemma yields_clears: "yields (\<lambda>v. \<not> V v) m \<Longrightarrow> clears V m"
  unfolding yields_def clears_def by (blast intro: wp_mono)

lemma clears_catch:
  fixes m :: "('w ls, 'a) prog"
  assumes "clears V m" "\<And>e. clears V (h e)"
  shows "clears V (catch m h)"
  unfolding clears_def wp_catch
proof
  fix s :: "'w ls"
  have "wp True m (\<lambda>v t. V v \<longrightarrow> guard_note t = None) (\<lambda>e t. True) s" using assms(1) by (simp add: clears_def)
  then show "wp True m (\<lambda>v t. V v \<longrightarrow> guard_note t = None)
      (\<lambda>e. wp True (h e) (\<lambda>v t. V v \<longrightarrow> guard_note t = None) (\<lambda>e t. True)) s"
    by (rule wp_mono) (use assms(2) in \<open>simp_all add: clears_def\<close>)
qed

lemma clears_finally: "clears V m \<Longrightarrow> wholly quiet f \<Longrightarrow> clears V (finally_do m f)"
  unfolding finally_do_def
  by (rule clears_quiet [where U = V])
    (intro clears_catch clears_then clears_raise quiet.kept_seq quiet.kept_ret yields_then yields_ret; simp)+

lemma body_phase_clears: "clears bd_ok (body_phase L r d st guard x l)"
  unfolding body_phase_def Let_def
  by (auto intro!: clears_then clears_finally guarded_body_clears release_reserved_quiet clears_ret
      simp: body_result_def split: option.split)

lemma locale_failure_fails: "yields (\<lambda>oc. \<not> oc_ok oc) (locale_failure L r d i start reason oc)"
  unfolding locale_failure_def
  apply (rule yields_then, rule yields_then, rule yields_pair)
  apply (rule yields_seq, rule drained_no_better [where ok = False], simp)
  apply (intro yields_then yields_if yields_ret; simp)
  done

lemma finish_body_no_better:
  "yields (\<lambda>oc. oc_ok oc \<longrightarrow> bd_ok o') (seq (after_body L r d start o' oc) (after_phase L r d st i kind l exts x o'))"
proof -
  let ?o = "oc\<lparr>oc_ok := bd_ok o'\<rparr>"
  have "yields (same_step ?o) (seq (after_body L r d start o' oc) (after_phase L r d st i kind l exts x o'))"
    by (rule yields_seq [OF after_body_same [OF same_step_refl] after_phase_same])
  then show ?thesis
    by (rule yields_mono) (simp add: same_step_def)
qed

lemma acting_step_clears: "clears oc_ok (acting_step L rec r d st i kind start seeded l exts oc)"
  unfolding acting_step_def
  by (intro clears_then clears_quiet [OF body_phase_clears] quiet.kept_seq after_body_quiet after_phase_quiet finish_body_no_better)

lemma leaf_outcome_clears: "clears oc_ok (leaf_outcome L rec r d st idx start oc)"
proof -
  have failed: "clears oc_ok (locale_failure L r d i start reason oc)" for i reason oc
    by (rule yields_clears [OF locale_failure_fails])
  show ?thesis
    unfolding leaf_outcome_def Let_def
    by (intro clears_then) (auto intro!: failed acting_step_clears split: sum.split)
qed

lemma main_leaf_tells:
  assumes "calm L"
  shows "leaf_tells (\<lambda>_. False) L (run_recovery L)"
  unfolding leaf_tells_def tells_def wp_scoped
proof (intro allI)
  fix r d st idx start oc and s :: "'a ls"
  let ?m = "leaf_outcome L (run_recovery L) r d st idx start oc" and ?s = "s\<lparr>ls_local := new_local\<rparr>"
  have "kept (\<lambda>_. False) guarded ?m" by (rule guarded_step.leaf_outcome_kept [OF main_guarded [OF assms]]) simp
  moreover have "wholly (extends {}) ?m" by (rule extends_step.leaf_outcome_kept [OF main_recovers]) simp
  ultimately have "wp True ?m (\<lambda>v t. (oc_ok v \<longrightarrow> guard_note t = None) \<and> guarded ?s t \<and> extends {} ?s t)
      (\<lambda>e t. True \<and> (False \<longrightarrow> guarded ?s t) \<and> extends {} ?s t) ?s"
    unfolding wp_conj using leaf_outcome_clears [of L "run_recovery L" r d st idx start oc] by (simp add: kept_def clears_def)
  then show "wp True ?m (\<lambda>v t. grown (\<lambda>xs. oc_ok v \<longrightarrow> all_ok xs) s (t\<lparr>ls_local := ls_local s\<rparr>))
      (\<lambda>e t. grown (\<lambda>xs. False \<longrightarrow> all_ok xs) s (t\<lparr>ls_local := ls_local s\<rparr>)) ?s"
    by (rule wp_mono) (auto simp: guarded_def extends_def grown_def)
qed

lemma phase_tells:
  assumes "calm L" "run_steps L primary steps s = (Ret v, t)"
  shows "grown (phase_verdict v) s t"
proof -
  have "tells (\<lambda>_. False) phase_verdict (run_steps L primary steps)"
    unfolding run_steps_def exec_main_def by (rule exec_tells(1) [OF main_leaf_tells [OF assms(1)] assms(1)]) simp
  then show ?thesis using assms(2) by (auto simp: tells_def wp_def dest!: spec [of _ s])
qed

end
