(* ===== verification/Scenario_Results.thy ===== *)
theory Scenario_Results
  imports Scenario_Run Loop_Verdict
begin

text \<open>
  What a whole scenario keeps, from what its phases of steps keep (\<open>phase_extends\<close> and \<open>phase_tells\<close>):
  the numbering and the verdicts of the outcomes, the one crash, the order of the phases.
\<close>

section \<open>Cleanup as a composition\<close>

lemma seq_assoc: "seq (seq m f) g = seq m (\<lambda>v. seq (f v) g)"
  by (rule ext) (simp add: seq_def split: prod.split res.split)

lemma seq_ret_left [simp]: "seq (ret v) f = f v"
  by (rule ext) (simp add: seq_def ret_def)

lemma seq_option: "seq (case x of None \<Rightarrow> m | Some y \<Rightarrow> f y) g = (case x of None \<Rightarrow> seq m g | Some y \<Rightarrow> seq (f y) g)"
  by (cases x) simp_all

lemma seq_cong: "(\<And>v. f v = g v) \<Longrightarrow> seq m f = seq m g"
  by (rule arg_cong2 [where f = seq]) auto

text \<open>The entries a verdict selects, run one after another: their failures, and whether a cancellation
  cut the phase short.\<close>

definition selected :: "string \<Rightarrow> cleanup_rule list \<Rightarrow> scen_step list list" where
  "selected on rules = map cu_steps (filter (\<lambda>q. cu_on q = ''always'' \<or> cu_on q = on) rules)"

fun run_entries :: "(scen_step list \<Rightarrow> real option \<Rightarrow> ('s, string option) prog) \<Rightarrow> real option \<Rightarrow> scen_step list list
    \<Rightarrow> ('s, string list \<times> bool) prog" where
  "run_entries run limit [] = ret ([], False)"
| "run_entries run limit (e # es) = seq (run_entry run limit e) (\<lambda>x. case x of
     None \<Rightarrow> ret ([], True)
   | Some r \<Rightarrow> seq (run_entries run limit es) (\<lambda>(rs, short). ret (case_option rs (\<lambda>m. m # rs) r, short)))"

definition composed :: "string option \<Rightarrow> string list \<Rightarrow> bool \<Rightarrow> string option" where
  "composed failure reasons short =
     (let causes = (case failure of None \<Rightarrow> [] | Some f \<Rightarrow> [f]) @ map in_cleanup reasons
      in if short then Some (if causes = [] then cancelled_failure else join cause_sep (causes @ [in_cleanup cancelled_failure]))
         else if causes = [] then None else Some (join cause_sep causes))"

lemma join_cons: "xs \<noteq> [] \<Longrightarrow> join sep (x # xs) = x @ sep @ join sep xs"
  by (cases xs) simp_all

lemma join_glue: "join sep ((x @ sep @ y) # xs) = join sep (x # y # xs)"
  by (cases xs) simp_all

lemma composed_with_cleanup: "composed (Some (with_cleanup failure m)) reasons short = composed failure (m # reasons) short"
  by (cases failure) (simp_all add: composed_def with_cleanup_def Let_def join_glue del: join.simps)

lemma composed_nothing: "composed failure [] False = failure"
  by (cases failure) (simp_all add: composed_def)

lemma cleanup_loop_entries:
  "cleanup_loop run on limit failure rules = seq (run_entries run limit (selected on rules))
     (\<lambda>(reasons, short). ret (composed failure reasons (short \<and> limit = None)))"
proof (induction rules arbitrary: failure)
  case (Cons q rules)
  show ?case
  proof (cases "cu_on q = ''always'' \<or> cu_on q = on")
    case True
    have cancel: "(if limit \<noteq> None then ret failure else if failure = None then ret (Some cancelled_failure)
        else ret (Some (with_cleanup failure cancelled_failure))) = ret (composed failure [] (limit = None))"
      by (cases failure) (auto simp: composed_def with_cleanup_def composed_nothing)
    have this_one: "selected on (q # rules) = cu_steps q # selected on rules"
      using True by (auto simp: selected_def)
    have rest: "(case x of
          None \<Rightarrow> if limit \<noteq> None then ret failure else if failure = None then ret (Some cancelled_failure)
            else ret (Some (with_cleanup failure cancelled_failure))
        | Some None \<Rightarrow> cleanup_loop run on limit failure rules
        | Some (Some m) \<Rightarrow> cleanup_loop run on limit (Some (with_cleanup failure m)) rules)
      = seq (case x of None \<Rightarrow> ret ([], True)
          | Some r \<Rightarrow> seq (run_entries run limit (selected on rules)) (\<lambda>(rs, short). ret (case_option rs (\<lambda>m. m # rs) r, short)))
        (\<lambda>(reasons, short). ret (composed failure reasons (short \<and> limit = None)))" for x
      unfolding cancel Cons composed_with_cleanup
      by (auto simp: seq_assoc case_prod_unfold split: option.split)
    have "cleanup_loop run on limit failure (q # rules) = seq (run_entry run limit (cu_steps q)) (\<lambda>x. case x of
          None \<Rightarrow> if limit \<noteq> None then ret failure else if failure = None then ret (Some cancelled_failure)
            else ret (Some (with_cleanup failure cancelled_failure))
        | Some None \<Rightarrow> cleanup_loop run on limit failure rules
        | Some (Some m) \<Rightarrow> cleanup_loop run on limit (Some (with_cleanup failure m)) rules)"
      using True by (simp only: cleanup_loop.simps) (metis (no_types))
    then show ?thesis unfolding this_one run_entries.simps seq_assoc by (simp only: rest)
  qed (simp add: selected_def Cons)
qed (simp add: selected_def composed_nothing)

section \<open>The numbering of a scenario\<close>

definition numbered :: "step_outcome list \<Rightarrow> bool" where
  "numbered os \<longleftrightarrow> distinct (map oc_index os)"

definition charged :: "'w scen \<Rightarrow> nat" where
  "charged s = crashes (sn_before s) + crashes (sn_steps s) + crashes (sn_after s)"

text \<open>\<open>ro\<close> is the roster the scenario began with.\<close>

definition orderly :: "roster option \<Rightarrow> 'w scen \<Rightarrow> bool" where
  "orderly ro s \<longleftrightarrow> numbered (sn_before s) \<and> numbered (sn_steps s) \<and> numbered (sn_after s) \<and>
     oc_index ` set (sn_after s) \<subseteq> {..<sn_after_next s} \<and>
     charged s \<le> (if la_signal (sn_latches s) = None then 0 else 1) \<and> rel_option forward ro (sn_roster s)"

definition all_fine :: "scen_phase \<Rightarrow> 'w scen \<Rightarrow> bool" where
  "all_fine ph s \<longleftrightarrow> all_ok (outcomes_of ph s)"

text \<open>What a phase leaves alone.\<close>

definition apart :: "scen_phase \<Rightarrow> 'w scen \<Rightarrow> 'w scen \<Rightarrow> bool" where
  "apart ph s t \<longleftrightarrow> (\<forall>p. p \<noteq> ph \<longrightarrow> outcomes_of p t = outcomes_of p s) \<and>
     sn_results t = sn_results s \<and> sn_undeclared t = sn_undeclared s"

lemma calm_phase: "calm (sf_loop C) \<Longrightarrow> calm (phase_cfg C offset ph c)"
proof -
  have own: "own_driver (phase_cfg C offset ph c) = own_driver (sf_loop C)"
    by (intro ext) (simp add: own_driver_def phase_cfg_def Let_def)
  have web: "rc_web (lc_runner (phase_cfg C offset ph c) r) = rc_web (lc_runner (sf_loop C) r)" for r
    by (simp add: phase_cfg_def Let_def)
  have "active_driver (phase_cfg C offset ph c) = active_driver (sf_loop C)"
    unfolding active_driver_def own by (simp only: web)
  then show "calm (sf_loop C) \<Longrightarrow> calm (phase_cfg C offset ph c)"
    unfolding calm_def by (simp add: phase_cfg_def Let_def)
qed

lemma enter_simps [simp]:
  "ls_outcomes (enter_phase ph s) = outcomes_of ph s" "ls_next (enter_phase ph s) = next_of ph s"
  "ls_latches (enter_phase ph s) = sn_latches s" "ls_roster (enter_phase ph s) = sn_roster s"
  by (simp_all add: enter_phase_def phase_state_def)

lemma leave_simps [simp]:
  "outcomes_of ph (leave_phase ph t s) = ls_outcomes t" "sn_latches (leave_phase ph t s) = ls_latches t"
  "sn_roster (leave_phase ph t s) = ls_roster t"
  by (cases ph; simp add: leave_phase_def)+

lemma leave_apart: "apart ph s (leave_phase ph t s)"
proof -
  have "outcomes_of p (leave_phase ph t s) = outcomes_of p s" if "p \<noteq> ph" for p
    using that by (cases p; cases ph; simp add: leave_phase_def)
  moreover have "sn_results (leave_phase ph t s) = sn_results s" "sn_undeclared (leave_phase ph t s) = sn_undeclared s"
    by (cases ph; simp add: leave_phase_def)+
  ultimately show ?thesis by (simp add: apart_def)
qed

lemma numbered_append:
  assumes "numbered os" "oc_index ` set os \<subseteq> {..<n}" "distinct (map oc_index new)" "oc_index ` set new \<subseteq> {n..<m}"
  shows "numbered (os @ new)"
  using assms unfolding numbered_def by (fastforce simp: image_iff)

lemma charged_append: "charged (leave_phase ph u s) + crashes (outcomes_of ph s) = charged s + crashes (ls_outcomes u)"
  by (cases ph) (simp_all add: charged_def leave_phase_def)

lemma leave_orderly:
  assumes s: "orderly ro s" "ph = Cleanup \<or> outcomes_of ph s = []" and u: "extends {} (enter_phase ph s) u"
  shows "orderly ro (leave_phase ph u s)"
proof -
  obtain new where new: "ls_outcomes u = outcomes_of ph s @ new" "distinct (map oc_index new)"
      "oc_index ` set new \<subseteq> {next_of ph s..<ls_next u}"
      "crashes new \<le> (if la_signal (sn_latches s) = None \<and> la_signal (ls_latches u) \<noteq> None then 1 else 0)"
    using u unfolding extends_def by auto
  have more: "next_of ph s \<le> ls_next u" "la_signal (sn_latches s) \<noteq> None \<longrightarrow> la_signal (ls_latches u) = la_signal (sn_latches s)"
      "rel_option forward (sn_roster s) (ls_roster u)"
    using u unfolding extends_def by auto
  have charge: "charged (leave_phase ph u s) \<le> (if la_signal (ls_latches u) = None then 0 else 1)"
    using charged_append [of ph u s] s(1) new(1,4) more(2) by (auto simp: orderly_def crashes_append split: if_splits)
  have all: "numbered (ls_outcomes u)"
  proof (cases "ph = Cleanup")
    case True
    then show ?thesis using s(1) new numbered_append by (auto simp: orderly_def)
  next
    case False
    then show ?thesis using s(2) new(1,2) by (simp add: numbered_def)
  qed
  have below: "oc_index ` set (ls_outcomes u) \<subseteq> {..<ls_next u}" if "ph = Cleanup"
    using s(1) new(1,3) more(1) that by (fastforce simp: orderly_def)
  have "rel_option forward ro (ls_roster u)"
    using s(1) more(3) by (auto simp: orderly_def intro: rel_forward_trans)
  then show ?thesis
    using s(1) charge all below unfolding orderly_def by (cases ph) (auto simp: leave_phase_def)
qed

text \<open>A phase of steps: what it keeps, and what its verdict says of the outcomes it added.\<close>

definition phase_done :: "'w scen_cfg \<Rightarrow> roster option \<Rightarrow> scen_phase \<Rightarrow> 'w scen \<Rightarrow> bool \<Rightarrow> 'w scen \<Rightarrow> bool" where
  "phase_done C ro ph s ok t \<longleftrightarrow> orderly ro t \<and> apart ph s t \<and>
     (calm (sf_loop C) \<longrightarrow> ok \<longrightarrow> all_fine ph s \<longrightarrow> all_fine ph t)"

lemma run_phase_wp:
  assumes "orderly ro s" "ph = Cleanup \<or> outcomes_of ph s = []"
  shows "wp True (run_phase C offset ph c steps) (\<lambda>v. phase_done C ro ph s (v = None)) (\<lambda>e. phase_done C ro ph s False) s"
proof (unfold run_phase_def wp_on_part, rule wpI)
  let ?run = "run_steps (phase_cfg C offset ph c) (sf_primary C) steps (enter_phase ph s)"
  have kept: "orderly ro (leave_phase ph u s) \<and> apart ph s (leave_phase ph u s)" if "?run = (r, u)" "r \<noteq> NoFuel" for r u
    using leave_orderly [OF assms phase_extends [OF that]] leave_apart by blast
  then show "phase_done C ro ph s False (leave_phase ph u s)" if "?run = (Exn e, u)" for e u
    using that by (simp add: phase_done_def)
  show "phase_done C ro ph s (v = None) (leave_phase ph u s)" if "?run = (Ret v, u)" for v u
  proof -
    have "all_ok (ls_outcomes u)" if "calm (sf_loop C)" "v = None" "all_ok (outcomes_of ph s)"
      using phase_tells [OF calm_phase [OF that(1)] \<open>?run = (Ret v, u)\<close>] that(2,3)
      by (auto simp: grown_def phase_verdict_def)
    then show ?thesis using kept [OF that] by (auto simp: phase_done_def all_fine_def)
  qed
qed simp

section \<open>What the rest of a scenario leaves alone\<close>

abbreviation frame :: "'w scen \<Rightarrow> step_outcome list \<times> step_outcome list \<times> step_outcome list \<times> nat \<times> latches \<times> roster option \<times> string list" where
  "frame s \<equiv> (sn_before s, sn_steps s, sn_after s, sn_after_next s, sn_latches s, sn_roster s, sn_live s)"

definition still :: "'w scen \<Rightarrow> 'w scen \<Rightarrow> bool" where
  "still s t \<longleftrightarrow> frame t = frame s"

definition settled :: "'w scen \<Rightarrow> 'w scen \<Rightarrow> bool" where
  "settled s t \<longleftrightarrow> frame t = frame s \<and> sn_results t = sn_results s \<and> sn_undeclared t = sn_undeclared s"

interpretation still: keeping still
  by unfold_locales (simp_all add: still_def)

interpretation settled: keeping settled
  by unfold_locales (simp_all add: settled_def)

lemma on_world_settled: "wholly settled (on_world m)"
  unfolding on_world_def by (rule keptI) (auto simp: wp_simps settled_def intro: wp_any)

lemma settled_still: "wholly settled m \<Longrightarrow> wholly still m"
  by (rule keptI, erule kept_wp) (simp_all add: settled_def still_def)

lemma finish_extras_settled: "wholly settled (finish_extras C start wall xs)"
proof (induction xs)
  case (Cons x xs)
  have filed: "settled s (s\<lparr>sn_artifacts := a, sn_anchors := b\<rparr>)" for s :: "'a scen" and a b
    by (simp add: settled_def)
  from Cons show ?case
    by (cases x) (auto intro!: settled.kept_seq settled.kept_pair settled.kept_modify on_world_settled filed)
qed (simp add: settled.kept_ret)

lemma finish_recordings_settled: "wholly settled (finish_recordings C sid ivs extras start wall)"
  unfolding finish_recordings_def
  by (intro settled.kept_seq settled.kept_pair settled.kept_modify on_world_settled finish_extras_settled) (simp add: settled_def)

lemma drain_into_settled: "wholly settled (drain_into_expect R offset)"
  unfolding drain_into_expect_def
  by (intro settled.kept_intros settled.kept_modify on_world_settled) (simp add: settled_def)

lemma eval_group_settled: "wholly settled (eval_group C offset g)"
  unfolding eval_group_def clear_before_visual_def
  by (intro settled.kept_intros on_world_settled drain_into_settled)

lemma eval_groups_settled: "wholly settled (eval_groups C offset gs merged dropped)"
  by (induction gs arbitrary: merged dropped)
    (auto intro!: settled.kept_ret settled.kept_seq settled.kept_pair eval_group_settled)

lemma evaluate_expect_still: "wholly still (evaluate_expect C offset expect)"
  unfolding evaluate_expect_def
  by (intro still.kept_intros still.kept_modify settled_still [OF eval_groups_settled]) (simp add: still_def)

lemma drain_expect_still: "wholly still (drain_expect C)"
  unfolding drain_expect_def
  by (intro still.kept_intros still.kept_modify settled_still [OF on_world_settled]) (simp add: still_def)

lemma expect_phase_still: "wholly still (expect_phase C offset)"
  unfolding expect_phase_def
  by (intro still.kept_intros evaluate_expect_still drain_expect_still settled_still [OF on_world_settled])

end
