(* ===== verification/Expect_Results.thy ===== *)
theory Expect_Results
  imports Scenario_Results
begin

text \<open>
  The trailing \<open>expect\<close> block: its entries are polled in groups, one per target, and the results come
  back in declared order.
\<close>

section \<open>Writing the groups back\<close>

definition writes :: "expect_group \<Rightarrow> assertion_result list \<Rightarrow> (nat \<times> string \<times> assertion_result) list" where
  "writes g rs = zip (map fst (snd g)) (map (Pair (fst g)) rs)"

definition put_all :: "(nat \<times> 'a) list \<Rightarrow> 'a option list \<Rightarrow> 'a option list" where
  "put_all ws m = fold (\<lambda>(i, x) m. m[i := Some x]) ws m"

lemma merge_puts: "merge_group g rs m = put_all (writes g rs) m"
  by (induction "map fst (snd g)" rs arbitrary: g m rule: list_induct2')
    (auto simp: merge_group_def put_all_def writes_def zip_map2 fold_map comp_def case_prod_unfold)

lemma put_all_length: "length (put_all ws m) = length m"
  unfolding put_all_def by (induction ws arbitrary: m) auto

lemma put_all_other: "i \<notin> fst ` set ws \<Longrightarrow> put_all ws m ! i = m ! i"
  unfolding put_all_def by (induction ws arbitrary: m) auto

lemma put_all_nth:
  "distinct (map fst ws) \<Longrightarrow> (i, x) \<in> set ws \<Longrightarrow> i < length m \<Longrightarrow> put_all ws m ! i = Some x"
proof (induction ws arbitrary: m)
  case (Cons w ws)
  show ?case
  proof (cases "(i, x) = w")
    case True
    have "i \<notin> fst ` set ws" using Cons.prems(1) by (simp flip: True)
    then have "put_all ws (m[i := Some x]) ! i = Some x" using Cons.prems(3) by (simp add: put_all_other)
    then show ?thesis using True by (simp add: put_all_def case_prod_unfold flip: True)
  next
    case False
    then show ?thesis using Cons.IH [of "m[fst w := Some (snd w)]"] Cons.prems by (auto simp: put_all_def case_prod_unfold)
  qed
qed simp

text \<open>Every place written once.\<close>

lemma put_all_full:
  assumes "distinct (map fst ws)" "fst ` set ws = {..<n}"
  shows "put_all ws (replicate n None) = map (\<lambda>i. map_of ws i) [0..<n]"
proof (rule nth_equalityI)
  fix i assume "i < length (put_all ws (replicate n None))"
  then have i: "i < n" by (simp add: put_all_length)
  then have "i \<in> fst ` set ws" by (simp add: assms(2))
  then obtain x where "(i, x) \<in> set ws" by auto
  then show "put_all ws (replicate n None) ! i = map (\<lambda>i. map_of ws i) [0..<n] ! i"
    using put_all_nth [OF assms(1)] map_of_is_SomeI [OF assms(1)] i by simp
qed (simp add: put_all_length)

section \<open>The groups\<close>

abbreviation numbered_entries :: "(string \<times> assertion) list \<Rightarrow> (nat \<times> string \<times> assertion) list" where
  "numbered_entries expect \<equiv> zip [0..<length expect] expect"

lemma group_entry:
  assumes "g \<in> set (expect_groups primary expect)" "(i, e) \<in> set (snd g)"
  shows "i < length expect \<and> e = expect ! i \<and> entry_target primary e = fst g"
  using assms group_by_mem [of "fst g" "snd g" "\<lambda>(i, e). entry_target primary e" "numbered_entries expect"]
  by (auto simp: expect_groups_def set_zip)

text \<open>The groups partition the entries.\<close>

lemma groups_cover: "(\<Union>g\<in>set (expect_groups primary expect). fst ` set (snd g)) = {..<length expect}"
proof (intro equalityI subsetI)
  fix i assume "i \<in> {..<length expect}"
  then have i: "(i, expect ! i) \<in> set (numbered_entries expect)" by (force simp: set_zip)
  let ?key = "\<lambda>(i::nat, e). entry_target primary e"
  have "(?key (i, expect ! i), [x \<leftarrow> numbered_entries expect. ?key x = ?key (i, expect ! i)]) \<in> set (expect_groups primary expect)"
    unfolding expect_groups_def group_by_mem using i by blast
  moreover have "i \<in> fst ` set [x \<leftarrow> numbered_entries expect. ?key x = ?key (i, expect ! i)]"
    using i by force
  ultimately show "i \<in> (\<Union>g\<in>set (expect_groups primary expect). fst ` set (snd g))" by force
qed (auto dest: group_entry)

lemma group_indexes:
  "g \<in> set (expect_groups primary expect) \<Longrightarrow>
   map fst (snd g) = [i \<leftarrow> [0..<length expect]. entry_target primary (expect ! i) = fst g]"
proof -
  assume "g \<in> set (expect_groups primary expect)"
  then have g: "snd g = [x \<leftarrow> numbered_entries expect. (\<lambda>(i, e). entry_target primary e) x = fst g]"
    using group_by_mem [of "fst g" "snd g"] unfolding expect_groups_def by simp
  have z: "numbered_entries expect = map (\<lambda>i. (i, expect ! i)) [0..<length expect]"
    by (rule nth_equalityI) simp_all
  show ?thesis unfolding g unfolding z by (simp add: filter_map comp_def)
qed

lemma groups_disjoint:
  "distinct (concat (map (\<lambda>g. map fst (snd g)) (expect_groups primary expect)))"
proof -
  let ?G = "expect_groups primary expect"
  have keys: "distinct (map fst ?G)" using group_by_wf by (simp add: expect_groups_def dict_wf_def)
  have inner: "distinct (map fst (snd g))" if "g \<in> set ?G" for g using group_indexes [OF that] by simp
  have same_group: "fst g = fst h" if "g \<in> set ?G" "h \<in> set ?G" "i \<in> fst ` set (snd g)" "i \<in> fst ` set (snd h)" for g h i
    using that(3,4) group_entry [OF that(1)] group_entry [OF that(2)] by fastforce
  have "distinct (concat (map (\<lambda>g. map fst (snd g)) gs))" if "distinct (map fst gs)" "set gs \<subseteq> set ?G" for gs
    using that
  proof (induction gs)
    case (Cons g gs)
    have "fst g \<noteq> fst h" if "h \<in> set gs" for h using Cons.prems(1) that by (metis distinct.simps(2) image_eqI list.simps(9) set_map)
    then have "i \<notin> fst ` set (snd h)" if "i \<in> fst ` set (snd g)" "h \<in> set gs" for i h
      using same_group [OF _ _ that(1), of h] that(2) Cons.prems(2) by auto
    then have "set (map fst (snd g)) \<inter> set (concat (map (\<lambda>g. map fst (snd g)) gs)) = {}" by auto
    moreover have "distinct (map fst (snd g))" using inner Cons.prems(2) by simp
    ultimately show ?case using Cons by (simp add: distinct_append)
  qed simp
  from this [OF keys order_refl] show ?thesis .
qed

section \<open>What a group evaluates to\<close>

definition evaluated :: "'w scen_cfg \<Rightarrow> 'w runner_cfg \<Rightarrow> assertion list \<Rightarrow> assertion_result list \<Rightarrow> bool" where
  "evaluated C R as rs \<longleftrightarrow> (\<exists>clip attrs tree net. rs = evaluate (we_search (rc_wait (primary_cfg C)))
     ((rc_context R)\<lparr>ctx_clipboard := clip, ctx_attributes := attrs\<rparr>) tree net as)"

lemma evaluated_length: "evaluated C R as rs \<Longrightarrow> length rs = length as"
  unfolding evaluated_def evaluate_def Let_def by auto

lemma with_attributes_yields: "yields (\<lambda>c. \<exists>attrs. c = ctx\<lparr>ctx_attributes := attrs\<rparr>) (with_attributes d ctx as)"
  unfolding with_attributes_def Let_def
  apply (intro yields_if yields_then yields_ret)
   apply (rule exI [of _ "ctx_attributes ctx"], simp)
  apply (rule exI, rule refl)
  done

lemma assert_loop_yields:
  "yields (\<lambda>v. \<exists>attrs tree net. fst v = evaluate (we_search E) (ctx\<lparr>ctx_attributes := attrs\<rparr>) tree net as) (assert_loop E d ctx as deadline n)"
proof (induction n)
  case 0
  show ?case by (simp add: yields_def wp_simps)
next
  case (Suc n)
  have tick: "yields (\<lambda>v. \<exists>attrs tree net. fst v = evaluate (we_search E) (ctx\<lparr>ctx_attributes := attrs\<rparr>) tree net as) (check_tick E d ctx as)"
    unfolding check_tick_def
    by (rule yields_then, rule yields_seq [OF with_attributes_yields], rule yields_then, erule exE, hypsubst, rule yields_ret)
      (auto intro: exI)
  show ?case
    unfolding assert_loop.simps
    apply (rule yields_then, rule yields_seq [OF tick], rule yields_pair)
    apply (intro yields_if yields_then yields_ret Suc)
    apply auto
    done
qed

lemma poll_group_yields: "yields (evaluated C R as) (poll_group C R as)"
proof -
  have "yields (evaluated C R as) (seq (poll_asserts ((rc_wait (primary_cfg C))\<lparr>we_network := we_network (rc_wait R), we_cancelled := ret False\<rparr>)
      (rc_driver R) ((rc_context R)\<lparr>ctx_clipboard := clip\<rparr>) as (lc_fuel (sf_loop C))) (\<lambda>(results, tree). ret results))" for clip
    unfolding poll_asserts_def seq_assoc
    by (rule yields_then, rule yields_seq [OF assert_loop_yields], rule yields_pair, rule yields_ret) (auto simp: evaluated_def)
  then show ?thesis unfolding poll_group_def by (rule yields_then)
qed

lemma eval_group_wp:
  "wp True (eval_group C offset g) (\<lambda>v t. evaluated C (runtime_of C (sn_live s) (fst g)) (map (snd \<circ> snd) (snd g)) (fst v)
      \<and> settled s t) (\<lambda>e t. True \<and> settled s t) s"
  unfolding wp_conj
proof
  let ?R = "runtime_of C (sn_live s) (fst g)"
  have lifted: "yields V (on_world m)" if "yields V m" for V :: "'b \<Rightarrow> bool" and m :: "('a, 'b) prog"
    using that unfolding yields_def on_world_def wp_on_part by blast
  have "yields (\<lambda>v. evaluated C ?R (map (snd \<circ> snd) (snd g)) (fst v)) (seq (clear_before_visual C ?R offset) (\<lambda>dropped.
     seq (on_world (if ctx_visual (rc_context ?R) = None then ret () else rc_visual ?R)) (\<lambda>_.
     seq (on_world (poll_group C ?R (map (snd \<circ> snd) (snd g)))) (\<lambda>results. ret (results, dropped)))))"
    by (rule yields_then, rule yields_then, rule yields_seq [OF lifted [OF poll_group_yields]], rule yields_ret) simp
  then show "wp True (eval_group C offset g) (\<lambda>v t. evaluated C ?R (map (snd \<circ> snd) (snd g)) (fst v)) (\<lambda>e t. True) s"
    unfolding eval_group_def wp_seq wp_gets yields_def by blast
  show "wp True (eval_group C offset g) (\<lambda>v. settled s) (\<lambda>e. settled s) s"
    using eval_group_settled [of C offset g] unfolding kept_def by simp
qed

text \<open>The writes of all the groups, in the order they are made.\<close>

definition all_writes :: "expect_group list \<Rightarrow> assertion_result list list \<Rightarrow> (nat \<times> string \<times> assertion_result) list" where
  "all_writes gs rss = concat (map2 writes gs rss)"

definition collected :: "'a option list \<Rightarrow> 'a list" where
  "collected m = concat (map (case_option [] (\<lambda>r. [r])) m)"

abbreviation group_evaluated :: "'w scen_cfg \<Rightarrow> string list \<Rightarrow> expect_group \<Rightarrow> assertion_result list \<Rightarrow> bool" where
  "group_evaluated C live g rs \<equiv> evaluated C (runtime_of C live (fst g)) (map (snd \<circ> snd) (snd g)) rs"

lemma eval_groups_wp:
  "wp True (eval_groups C offset gs merged dropped) (\<lambda>v t. \<exists>rss. list_all2 (group_evaluated C (sn_live s)) gs rss
      \<and> fst v = collected (put_all (all_writes gs rss) merged)) (\<lambda>e t. True) s"
proof (induction gs arbitrary: merged dropped s)
  case Nil
  show ?case by (simp add: wp_simps collected_def put_all_def all_writes_def)
next
  case (Cons g gs)
  have more: "put_all (all_writes (g # gs) (rs # rss)) merged = put_all (all_writes gs rss) (merge_group g rs merged)" for rs rss
    by (simp add: merge_puts all_writes_def put_all_def)
  show ?case
    unfolding eval_groups.simps wp_seq
  proof (rule wp_mono [OF eval_group_wp [of C offset g s]])
    fix v :: "assertion_result list \<times> nat" and t :: "'a scen"
    assume v: "group_evaluated C (sn_live s) g (fst v) \<and> settled s t"
    obtain rs n where rs: "v = (rs, n)" by fastforce
    have same_live: "sn_live t = sn_live s" using v by (simp add: settled_def)
    show "wp True (case v of (results, n) \<Rightarrow> eval_groups C offset gs (merge_group g results merged) (dropped + n))
        (\<lambda>v t. \<exists>rss. list_all2 (group_evaluated C (sn_live s)) (g # gs) rss
          \<and> fst v = collected (put_all (all_writes (g # gs) rss) merged)) (\<lambda>e t. True) t"
      unfolding rs prod.case
    proof (rule wp_mono [OF Cons.IH [of "merge_group g rs merged" "dropped + n" t]])
      fix w and u :: "'a scen"
      assume "\<exists>rss. list_all2 (group_evaluated C (sn_live t)) gs rss \<and>
          fst w = collected (put_all (all_writes gs rss) (merge_group g rs merged))"
      then obtain rss where "list_all2 (group_evaluated C (sn_live s)) gs rss"
          "fst w = collected (put_all (all_writes gs rss) (merge_group g rs merged))"
        unfolding same_live by blast
      then show "\<exists>rss. list_all2 (group_evaluated C (sn_live s)) (g # gs) rss
          \<and> fst w = collected (put_all (all_writes (g # gs) rss) merged)"
        using v by (intro exI [of _ "rs # rss"]) (simp add: more rs)
    qed
  qed simp
qed

section \<open>The merged results\<close>

lemma all_writes_places:
  "list_all2 (group_evaluated C live) gs rss \<Longrightarrow> map fst (all_writes gs rss) = concat (map (\<lambda>g. map fst (snd g)) gs)"
proof (induction rule: list_all2_induct)
  case (Cons g gs rs rss)
  then have "length rs = length (snd g)" by (auto dest: evaluated_length)
  then show ?case using Cons by (simp add: all_writes_def writes_def)
qed (simp add: all_writes_def)

lemma all_writes_mem:
  "list_all2 (group_evaluated C live) gs rss \<Longrightarrow> (i, x) \<in> set (all_writes gs rss) \<Longrightarrow>
     \<exists>g\<in>set gs. i \<in> fst ` set (snd g) \<and> fst x = fst g"
proof (induction rule: list_all2_induct)
  case (Cons g gs rs rss)
  have "i \<in> fst ` set (snd g) \<and> fst x = fst g" if "(i, x) \<in> set (writes g rs)"
    using that by (auto simp: writes_def dest!: set_zip_leftD set_zip_rightD elim!: in_set_zipE)
  then show ?case using Cons by (auto simp: all_writes_def)
qed (simp add: all_writes_def)

lemma all_writes_group:
  "list_all2 (group_evaluated C live) gs rss \<Longrightarrow> g \<in> set gs \<Longrightarrow>
     \<exists>rs. group_evaluated C live g rs \<and> set (writes g rs) \<subseteq> set (all_writes gs rss)"
proof (induction rule: list_all2_induct)
  case (Cons h hs rs rss)
  have more: "set (all_writes (h # hs) (rs # rss)) = set (writes h rs) \<union> set (all_writes hs rss)"
    by (simp add: all_writes_def)
  show ?case
  proof (cases "g = h")
    case True
    have "group_evaluated C live g rs" unfolding True by (rule Cons.hyps(1))
    then show ?thesis by (intro exI conjI, assumption) (simp add: more True)
  next
    case False
    then obtain ra where "group_evaluated C live g ra" "set (writes g ra) \<subseteq> set (all_writes hs rss)"
      using Cons.IH Cons.prems unfolding list.set by blast
    then show ?thesis by - (intro exI conjI, assumption, auto simp: more)
  qed
qed simp

lemma collected_map: "(\<And>i. i \<in> set xs \<Longrightarrow> f i = Some (h i)) \<Longrightarrow> collected (map f xs) = map h xs"
  by (induction xs) (simp_all add: collected_def)

lemma evaluated_nothing: "evaluated C R [] []"
  by (simp add: evaluated_def evaluate_def Let_def)

lemma expect_merged:
  assumes all: "list_all2 (group_evaluated C live) (expect_groups primary expect) rss"
    and final: "final = collected (put_all (all_writes (expect_groups primary expect) rss) (replicate (length expect) None))"
  shows "map fst final = map (entry_target primary) expect"
    "evaluated C (runtime_of C live name) (map snd (filter (\<lambda>e. entry_target primary e = name) expect))
       (map snd (filter (\<lambda>x. fst x = name) final))"
proof -
  let ?G = "expect_groups primary expect" and ?ws = "all_writes (expect_groups primary expect) rss"
  let ?at = "\<lambda>i. the (map_of ?ws i)" and ?target = "\<lambda>i. entry_target primary (expect ! i)"
  have once: "distinct (map fst ?ws)" unfolding all_writes_places [OF all] by (rule groups_disjoint)
  have "fst ` set ?ws = set (map fst ?ws)" by simp
  also have "\<dots> = {..<length expect}" unfolding all_writes_places [OF all] using groups_cover [of primary expect] by auto
  finally have cover: "fst ` set ?ws = {..<length expect}" .
  have here: "map_of ?ws i = Some (?at i) \<and> fst (?at i) = ?target i" if "i < length expect" for i
  proof -
    have "i \<in> fst ` set ?ws" using that by (simp add: cover)
    then obtain x where x: "(i, x) \<in> set ?ws" by auto
    then obtain g where "g \<in> set ?G" "i \<in> fst ` set (snd g)" "fst x = fst g"
      using all_writes_mem [OF all x] by blast
    then have "fst x = ?target i" using group_entry by fastforce
    then show ?thesis using map_of_is_SomeI [OF once x] by simp
  qed
  have final_eq: "final = map ?at [0..<length expect]"
    unfolding final put_all_full [OF once cover] by (rule collected_map) (use here in simp)
  show "map fst final = map (entry_target primary) expect"
    unfolding final_eq by (rule nth_equalityI) (use here in simp_all)
  have picked: "map snd (filter (\<lambda>x. fst x = name) final) = map (\<lambda>i. snd (?at i)) [i \<leftarrow> [0..<length expect]. ?target i = name]"
    unfolding final_eq filter_map map_map comp_def by (rule arg_cong2 [where f = map]) (use here in \<open>auto intro: filter_cong\<close>)
  have entries: "map snd (filter (\<lambda>e. entry_target primary e = name) expect)
      = map (\<lambda>i. snd (expect ! i)) [i \<leftarrow> [0..<length expect]. ?target i = name]"
    by (subst (1) map_nth [symmetric, of expect]) (simp add: filter_map comp_def)
  show "evaluated C (runtime_of C live name) (map snd (filter (\<lambda>e. entry_target primary e = name) expect))
       (map snd (filter (\<lambda>x. fst x = name) final))"
  proof (cases "\<exists>g\<in>set ?G. fst g = name")
    case True
    then obtain g where g: "g \<in> set ?G" "fst g = name" by blast
    obtain rs where rs: "group_evaluated C live g rs" "set (writes g rs) \<subseteq> set ?ws"
      using all_writes_group [OF all g(1)] by blast
    have len: "length rs = length (snd g)" using evaluated_length [OF rs(1)] by simp
    have places: "[i \<leftarrow> [0..<length expect]. ?target i = name] = map fst (snd g)" using group_indexes [OF g(1)] g(2) by simp
    have found: "map (\<lambda>i. snd (?at i)) (map fst (snd g)) = rs"
    proof (rule nth_equalityI)
      fix k assume "k < length (map (\<lambda>i. snd (?at i)) (map fst (snd g)))"
      then have k: "k < length (snd g)" by simp
      then have "(fst (snd g ! k), fst g, rs ! k) \<in> set (writes g rs)" using len by (auto simp: writes_def set_zip intro!: exI [of _ k])
      then have "?at (fst (snd g ! k)) = (fst g, rs ! k)" using rs(2) map_of_is_SomeI [OF once] by fastforce
      then show "map (\<lambda>i. snd (?at i)) (map fst (snd g)) ! k = rs ! k" using k by simp
    qed (simp add: len)
    have asked: "map (\<lambda>i. snd (expect ! i)) (map fst (snd g)) = map (snd \<circ> snd) (snd g)"
      using group_entry [OF g(1)] by auto
    show ?thesis unfolding picked entries places found asked by (rule rs(1) [unfolded g(2)])
  next
    case False
    have "?target i \<noteq> name" if "i < length expect" for i
    proof
      assume "?target i = name"
      have "i \<in> (\<Union>g\<in>set ?G. fst ` set (snd g))" unfolding groups_cover using that by simp
      then obtain g e where "g \<in> set ?G" "(i, e) \<in> set (snd g)" by auto
      then have "fst g = name" using group_entry [of g primary expect i e] \<open>?target i = name\<close> by metis
      then show False using False \<open>g \<in> set ?G\<close> by blast
    qed
    then have "[i \<leftarrow> [0..<length expect]. ?target i = name] = []" by (simp add: filter_empty_conv)
    then show ?thesis unfolding picked entries by (simp add: evaluated_nothing)
  qed
qed

text \<open>What one evaluation of the block leaves in the state.\<close>

definition block_results :: "'w scen_cfg \<Rightarrow> string list \<Rightarrow> string \<Rightarrow> (string \<times> assertion) list \<Rightarrow> (string \<times> assertion_result) list \<Rightarrow> bool" where
  "block_results C live primary expect rs \<longleftrightarrow> map fst rs = map (entry_target primary) expect \<and>
     (\<forall>name. evaluated C (runtime_of C live name) (map snd (filter (\<lambda>e. entry_target primary e = name) expect))
        (map snd (filter (\<lambda>x. fst x = name) rs)))"

lemma evaluate_expect_wp:
  "wp True (evaluate_expect C offset expect) (\<lambda>ok t. block_results C (sn_live s) (primary_now C (sn_roster s)) expect (sn_results t)
      \<and> ok = passed (map snd (sn_results t))) (\<lambda>e t. True) s"
  unfolding evaluate_expect_def wp_seq wp_gets
  by (rule wp_mono [OF eval_groups_wp]) (auto simp: wp_simps block_results_def intro: expect_merged)

end
