(* ===== verification/Fake_Loop.thy ===== *)
theory Fake_Loop
  imports Loop_Verdict Fake_Device
begin

text \<open>
  The step loop on the in-memory device: one target, no guard, no sink, a clock that sleeps advance.
  It is the input the properties of the loop are applied at; the properties follow, for any
  configuration of the loop.
\<close>

section \<open>The loop on the in-memory device\<close>

definition null_sink :: "'w sink" where
  "null_sink = \<lparr>sk_null = True, sk_capture = (\<lambda>i ts reuse els source. ret []), sk_start_after = (\<lambda>i. ret ()),
     sk_finish_after = ret [], sk_is_shot = (\<lambda>a. False), sk_diagnostic = (\<lambda>i els. ret None)\<rparr>"

definition bare :: eval_context where
  "bare = \<lparr>ctx_schema = None, ctx_golden = None, ctx_visual = None, ctx_clipboard = None, ctx_attributes = [],
     ctx_json_ok = (\<lambda>t. True), ctx_validate = (\<lambda>t u. None)\<rparr>"

definition no_text :: "'a \<Rightarrow> string" where "no_text x = []"

definition fake_runner :: "regex_search \<Rightarrow> interrupt list \<Rightarrow> fake runner_cfg" where
  "fake_runner rx ints = \<lparr>rc_driver = fake_driver (unscripted rx no_text), rc_web = None,
     rc_wait = fake_wait rx no_text no_text no_text 0, rc_scroll = fake_scroll rx no_text,
     rc_relaunch = None, rc_control = None, rc_produce = (\<lambda>what args b. ret b), rc_fetch = None,
     rc_group = (\<lambda>a b. None), rc_wall = fake_now, rc_mocks = (\<lambda>m. ret ()), rc_clipboard = None, rc_visual = ret (),
     rc_context = bare, rc_guard = None, rc_resolving = (\<lambda>d. None), rc_answer = (\<lambda>bs. ret drained_empty), rc_titles = None,
     rc_reserve = (\<lambda>d l. None), rc_push = (\<lambda>d. ret ()), rc_lag = 0, rc_notes = (\<lambda>d. ret []), rc_interrupts = ints,
     rc_sink = null_sink, rc_capture = []\<rparr>"

fun leaf_of :: "work \<Rightarrow> leaf" where
  "leaf_of (Leaf l) = l" | "leaf_of w = LSleep 0"

definition fake_loop :: "regex_search \<Rightarrow> interrupt list \<Rightarrow> fake loop_cfg" where
  "fake_loop rx ints = \<lparr>lc_runner = (\<lambda>r. fake_runner rx ints), lc_activate = None, lc_install = None, lc_groups = [],
     lc_before = None, lc_after_failure = (\<lambda>x m. ret ()), lc_phase = [], lc_sid = ''s'', lc_offset = 0,
     lc_screen_changed = False, lc_tips = False, lc_policy = [],
     lc_interp = (\<lambda>b st. Inr (leaf_of (st_work st), st_extract st)), lc_interp_assert = (\<lambda>b c. c),
     lc_interp_selector = (\<lambda>b c. c), lc_interp_text = (\<lambda>b t. t), lc_declared = (\<lambda>st. None), lc_title = (\<lambda>st. None),
     lc_label = no_text, lc_show_error = (\<lambda>sel e. []), lc_fail_reason = no_text, lc_drift_text = no_text,
     lc_crash_files = None, lc_fuel = 9\<rparr>"

definition fresh :: "fake \<Rightarrow> fake ls" where
  "fresh w = phase_state w 0 [] [] (new_latches False) None []"

lemmas fake_loop_defs = fake_loop_def fake_runner_def null_sink_def bare_def fake_wait_def fake_now_def no_text_def

section \<open>Applied\<close>

definition no_regex :: regex_search where "no_regex p t = False"

text \<open>A scenario on an empty screen: a loop over no rows, a sleep, and a tap that finds nothing; the driver
  then names a crash.\<close>

definition tap_step :: scen_step where
  "tap_step = Step None [] [] [] (Leaf (LAct (ATap (by_id ''go''))))"

definition some_steps :: "scen_step list" where
  "some_steps = [Step None [] [] [] (ForEach (by_id ''row'') ''x'' [tap_step]),
     Step (Some ''nap'') [] [] [] (Leaf (LSleep 0)), Step None [] [] [] (ForEach (by_id ''row'') ''x'' []), tap_step]"

definition crashing_loop :: "fake loop_cfg" where
  "crashing_loop = (fake_loop no_regex [])\<lparr>lc_runner := (\<lambda>r. (fake_runner no_regex [])
     \<lparr>rc_driver := (fake_driver (unscripted no_regex no_text))\<lparr>dr_crash_signal := Some (ret (Some ''SIGSEGV''))\<rparr>\<rparr>)\<rparr>"

lemma crashing_loop_calm: "calm crashing_loop"
proof -
  have now: "silent body_refusal fake_now" unfolding fake_now_def by (rule silent_gets)
  have drain: "silent body_refusal m" if "dr_interruptions (active_driver crashing_loop r d) = Some m" for r d m
    using that by (auto simp: active_driver_def own_driver_def lift_driver_def crashing_loop_def fake_loop_defs fake_driver_def fake_drain_def
        on_part_def silent_def wp_simps gets_def modify_def seq_def ret_def wp_def split: drv.splits)
  have leave: "silent (\<lambda>e. body_refusal e \<and> \<not> app_refusal e) (dr_call (active_driver crashing_loop r d) LeaveApp)" for r d
    by (auto simp: active_driver_def own_driver_def lift_driver_def crashing_loop_def fake_loop_defs fake_driver_def
        silent_def wp_simps act_def app_refusal_def split: drv.splits)
  show ?thesis
    unfolding calm_def using now drain leave by (auto simp: crashing_loop_def fake_loop_def fake_runner_def fake_wait_def silent_ret)
qed

lemma crashing_run:
  "case run_steps crashing_loop ''a'' some_steps (fresh (new_fake [])) of (r, t) \<Rightarrow>
     (case r of Ret (Some m) \<Rightarrow> True | _ \<Rightarrow> False) \<and> la_signal (ls_latches t) = Some ''SIGSEGV'' \<and>
     map (\<lambda>oc. (oc_index oc, oc_ok oc, oc_crashed oc)) (ls_outcomes t)
       = [(0, True, False), (1, True, False), (2, True, False), (3, False, True)]"
  by code_simp

lemma crashing_end: "\<exists>m t a b c d. run_steps crashing_loop ''a'' some_steps (fresh (new_fake [])) = (Ret (Some m), t) \<and>
    la_signal (ls_latches t) = Some ''SIGSEGV'' \<and> ls_outcomes t = [a, b, c, d] \<and>
    list_all oc_ok [a, b, c] \<and> list_all (\<lambda>oc. \<not> oc_crashed oc) [a, b, c] \<and> \<not> oc_ok d \<and> oc_crashed d"
  using crashing_run by (auto split: prod.splits res.splits option.splits)

text \<open>A scenario of two targets, one of them to be installed by a step.\<close>

definition installing_loop :: "fake loop_cfg" where
  "installing_loop = (fake_loop no_regex [])\<lparr>lc_install := Some (\<lambda>device member keep. ret [''a''])\<rparr>"

definition with_roster :: "fake ls \<Rightarrow> fake ls" where
  "with_roster s = s\<lparr>ls_roster := Some \<lparr>ro_primary = ''a'', ro_entries = [], ro_status = [(''a'', Running), (''b'', NotInstalled)]\<rparr>\<rparr>"

lemma installing_run:
  "case run_steps installing_loop ''a'' [Step None [] [] [] (InstallApp ''b'' False)] (with_roster (fresh (new_fake []))) of (r, t) \<Rightarrow>
     (case r of Ret None \<Rightarrow> True | _ \<Rightarrow> False) \<and>
     map_option (\<lambda>ro. (status_of ro ''a'', status_of ro ''b'')) (ls_roster t) = Some (Retired, Installed)"
  by code_simp

section \<open>What a phase leaves behind\<close>

text \<open>Whatever a phase of a scenario does and however it ends (a failed step, an exception or a
  cancellation included), it only appends outcomes, and every outcome it appends, nested steps and the
  steps of interrupts included, carries an index of its own, taken during the phase.\<close>
theorem outcomes_are_indexed_once:
  assumes "run_steps L primary steps s = (r, t)" "r \<noteq> NoFuel"
  shows "\<exists>new. ls_outcomes t = ls_outcomes s @ new \<and> distinct (map oc_index new) \<and>
     oc_index ` set new \<subseteq> {ls_next s..<ls_next t}"
  using phase_extends [OF assms] unfolding extends_def by auto

lemma outcomes_are_indexed_once_witness:
  "\<exists>(t::fake ls) new. ls_outcomes t = ls_outcomes (fresh (new_fake [])) @ new \<and> distinct (map oc_index new) \<and> length new = 4"
proof -
  obtain m t a b c d where run: "run_steps crashing_loop ''a'' some_steps (fresh (new_fake [])) = (Ret (Some m), t)"
      "ls_outcomes t = [a, b, c, d]"
    using crashing_end by blast
  have "distinct (map oc_index (ls_outcomes t))"
    using outcomes_are_indexed_once [OF run(1)] by (auto simp: fresh_def phase_state_def)
  then show ?thesis by - (intro exI [of _ t] exI [of _ "[a, b, c, d]"], simp add: run(2) fresh_def phase_state_def)
qed

text \<open>At most one outcome of a phase is charged with the crash of the application, none once a crash was
  confirmed before, and a charged outcome leaves the signal latched for the rest of the scenario.\<close>
theorem one_outcome_is_charged_with_a_crash:
  assumes "run_steps L primary steps s = (r, t)" "r \<noteq> NoFuel"
  shows "\<exists>new. ls_outcomes t = ls_outcomes s @ new \<and> length (filter oc_crashed new) \<le> 1 \<and>
     (filter oc_crashed new \<noteq> [] \<longrightarrow> la_signal (ls_latches s) = None \<and> la_signal (ls_latches t) \<noteq> None) \<and>
     (la_signal (ls_latches s) \<noteq> None \<longrightarrow> la_signal (ls_latches t) = la_signal (ls_latches s))"
  using phase_extends [OF assms] unfolding extends_def crashes_def by (auto split: if_splits)

lemma one_outcome_is_charged_with_a_crash_witness:
  "\<exists>t::fake ls. length (filter oc_crashed (ls_outcomes t)) = 1 \<and> la_signal (ls_latches t) \<noteq> None"
proof -
  obtain m t a b c d where run: "run_steps crashing_loop ''a'' some_steps (fresh (new_fake [])) = (Ret (Some m), t)"
      "ls_outcomes t = [a, b, c, d]" "oc_crashed d"
    using crashing_end by blast
  obtain new where new: "ls_outcomes t = new" "length (filter oc_crashed new) \<le> 1"
      "filter oc_crashed new \<noteq> [] \<longrightarrow> la_signal (ls_latches t) \<noteq> None"
    using one_outcome_is_charged_with_a_crash [OF run(1)] by (auto simp: fresh_def phase_state_def)
  have "filter oc_crashed new \<noteq> []" using run(2,3) new(1) by (auto simp: filter_empty_conv)
  with new show ?thesis by - (intro exI [of _ t], cases "filter oc_crashed new", auto)
qed

text \<open>The statuses of the targets of a scenario only move forward: not installed, installed, running,
  retired.  A retired target never comes back, and an installed one is never uninstalled.\<close>
theorem target_statuses_only_move_forward:
  assumes "run_steps L primary steps s = (r, t)" "r \<noteq> NoFuel" "ls_roster s = Some ro"
  shows "\<exists>ro'. ls_roster t = Some ro' \<and> (\<forall>name. status_rank (status_of ro name) \<le> status_rank (status_of ro' name))"
  using phase_extends [OF assms(1,2)] assms(3) unfolding extends_def forward_def by (auto simp: option_rel_Some1)

lemma target_statuses_only_move_forward_witness:
  "\<exists>ro'. \<forall>name. status_rank (status_of \<lparr>ro_primary = ''a'', ro_entries = [], ro_status = [(''a'', Running), (''b'', NotInstalled)]\<rparr> name)
     \<le> status_rank (status_of ro' name)"
proof -
  obtain r t where run: "run_steps installing_loop ''a'' [Step None [] [] [] (InstallApp ''b'' False)] (with_roster (fresh (new_fake []))) = (r, t)"
      "r \<noteq> NoFuel"
    using installing_run by (auto split: prod.splits res.splits option.splits)
  from target_statuses_only_move_forward [OF run] show ?thesis by (auto simp: with_roster_def)
qed

text \<open>C32: A phase that comes to an end reports no failure exactly when every outcome it appended is ok, the
  steps inside \<open>if\<close>, \<open>forEach\<close>, \<open>web\<close> and \<open>app\<close> and those its interrupts ran included, when the calls around
  a finished step raise no refusal.\<close>
theorem phase_fails_iff_an_outcome_failed:
  assumes "calm L" "run_steps L primary steps s = (Ret failure, t)"
  shows "\<exists>new. ls_outcomes t = ls_outcomes s @ new \<and> (failure = None \<longleftrightarrow> list_all oc_ok new)"
  using phase_tells [OF assms] by (auto simp: grown_def phase_verdict_def)

lemma phase_fails_iff_an_outcome_failed_witness:
  "\<exists>t. length (ls_outcomes t) = 4 \<and> \<not> list_all oc_ok (ls_outcomes t) \<and>
     (\<exists>m. run_steps crashing_loop ''a'' some_steps (fresh (new_fake [])) = (Ret (Some m), t))"
proof -
  obtain m t a b c d where run: "run_steps crashing_loop ''a'' some_steps (fresh (new_fake [])) = (Ret (Some m), t)"
      "ls_outcomes t = [a, b, c, d]"
    using crashing_end by blast
  have "\<not> list_all oc_ok (ls_outcomes t)"
    using phase_fails_iff_an_outcome_failed [OF crashing_loop_calm run(1)] by (auto simp: fresh_def phase_state_def)
  then show ?thesis using run by - (intro exI [of _ t], auto)
qed

end
