(* ===== verification/Scenario_Verdict.thy ===== *)
theory Scenario_Verdict
  imports Expect_Results Fake_Loop
begin

text \<open>
  The verdict of a scenario: its phases in order, what a passing result stands for, and the invariants of
  its outcomes from the first phase to the last entry of its cleanup.
\<close>

section \<open>The expect phase\<close>

text \<open>Everything but the evaluation itself leaves the results alone.\<close>

definition reported :: "'w scen \<Rightarrow> 'w scen \<Rightarrow> bool" where
  "reported s t \<longleftrightarrow> frame t = frame s \<and> sn_results t = sn_results s"

interpretation reported: keeping reported
  by unfold_locales (simp_all add: reported_def)

lemma settled_reported: "wholly settled m \<Longrightarrow> wholly reported m"
  by (rule keptI, erule kept_wp) (simp_all add: settled_def reported_def)

lemma drain_expect_reported: "wholly reported (drain_expect C)"
  unfolding drain_expect_def
  by (intro reported.kept_intros reported.kept_modify settled_reported [OF on_world_settled]) (simp add: reported_def)

lemma wp_bind:
  assumes "wp True m P E s" "\<And>v t. P v t \<Longrightarrow> wp True (f v) Q E t"
  shows "wp True (seq m f) Q E s"
  unfolding wp_seq by (rule wp_mono [OF assms(1)]) (simp_all add: assms(2))

lemmas wp_step = wp_bind [where P = "\<lambda>v. I" for I]

lemma kept_step:
  assumes "wholly R m" "I s" "\<And>t. R s t \<Longrightarrow> I s \<Longrightarrow> I t"
  shows "wp True m (\<lambda>v. I) (\<lambda>e t. True) s"
  using assms(1) by (rule kept_wp) (use assms(2,3) in auto)

lemma expect_failure_None: "expect_failure C note s = None \<Longrightarrow> passed (map snd (sn_results s)) \<and> sn_undeclared s = []"
  by (simp add: expect_failure_def Let_def split: if_splits)

text \<open>What the phase evaluated, in the state it began in.\<close>

abbreviation block_of :: "'w scen_cfg \<Rightarrow> 'w scen \<Rightarrow> (string \<times> assertion_result) list \<Rightarrow> bool" where
  "block_of C s \<equiv> block_results C (sn_live s) (primary_now C (sn_roster s)) (sf_interp C (sn_bindings s) (sf_expect C))"

lemma expect_phase_results: "wp True (expect_phase C offset) (\<lambda>f t. block_of C s (sn_results t)) (\<lambda>e t. True) s"
proof -
  let ?block = "sf_interp C (sn_bindings s) (sf_expect C)"
  define I where "I t \<longleftrightarrow> frame t = frame s \<and> block_of C s (sn_results t)" for t :: "'a scen"
  have eval: "wp True (evaluate_expect C offset ?block) (\<lambda>v. I) (\<lambda>e t. True) t" if "frame t = frame s" for t
  proof -
    have "wp True (evaluate_expect C offset ?block) (\<lambda>v. still t) (\<lambda>e. still t) t"
      using evaluate_expect_still [of C offset ?block] unfolding kept_def by simp
    then have "wp True (evaluate_expect C offset ?block) (\<lambda>ok u. (block_results C (sn_live t) (primary_now C (sn_roster t)) ?block (sn_results u)
        \<and> ok = passed (map snd (sn_results u))) \<and> still t u) (\<lambda>e u. True \<and> still t u) t"
      unfolding wp_conj using evaluate_expect_wp by blast
    then show ?thesis by (rule wp_mono) (use that in \<open>auto simp: I_def still_def\<close>)
  qed
  have drain: "wp True (drain_expect C) (\<lambda>v. I) (\<lambda>e t. True) t" if "I t" for t
    by (rule kept_step [where I = I, OF drain_expect_reported that]) (auto simp: I_def reported_def)
  have world: "wp True (on_world m) (\<lambda>v. I) (\<lambda>e t. True) t" if "I t" for t and m :: "('a, 'b) prog"
    by (rule kept_step [where I = I, OF on_world_settled that]) (auto simp: I_def settled_def)
  have again: "wp True (if cleared then evaluate_expect C offset ?block else ret False) (\<lambda>v. I) (\<lambda>e t. True) t" if "I t" for t cleared
    using that eval [of t] by (auto simp: I_def wp_simps)
  have recovered: "wp True (case v of (cleared, note) \<Rightarrow> seq (if cleared then evaluate_expect C offset ?block else ret False) (\<lambda>_.
      seq (drain_expect C) (\<lambda>_. ret note))) (\<lambda>v. I) (\<lambda>e t. True) t" if "I t" for t and v :: "bool \<times> string"
    by (cases v, simp only: prod.case, rule wp_step [OF again [OF that]], erule wp_step [OF drain]) (simp add: wp_ret)
  have retry: "wp True (if ok \<or> rc_guard (primary_cfg C) = None then ret []
      else seq (on_world (recover_expect C)) (\<lambda>(cleared, note).
        seq (if cleared then evaluate_expect C offset ?block else ret False) (\<lambda>_. seq (drain_expect C) (\<lambda>_. ret note))))
      (\<lambda>v. I) (\<lambda>e t. True) t" if "I t" for t ok
    using that by (simp only: wp_if wp_ret) (auto intro: wp_step [OF world [OF that]] recovered)
  have "frame s = frame s" ..
  show ?thesis
    unfolding expect_phase_def
    by (subst wp_seq, subst wp_gets, rule wp_step [OF eval [OF refl]], rule wp_step [OF drain], assumption,
        rule wp_step [OF retry], assumption) (simp add: wp_gets I_def)
qed

lemma expect_phase_passes:
  "wp True (expect_phase C offset) (\<lambda>f t. f = None \<longrightarrow> passed (map snd (sn_results t)) \<and> sn_undeclared t = []) (\<lambda>e t. True) s"
  unfolding expect_phase_def wp_seq wp_gets
  by (rule wp_any, rule wp_any, rule wp_any) (auto dest: expect_failure_None)

section \<open>The phases in order\<close>

text \<open>What holds however the scenario goes on: nothing follows a failed phase.\<close>

definition sequenced :: "'w scen_cfg \<Rightarrow> roster option \<Rightarrow> 'w scen \<Rightarrow> bool" where
  "sequenced C ro s \<longleftrightarrow> orderly ro s \<and> (calm (sf_loop C) \<longrightarrow>
     (sn_steps s \<noteq> [] \<longrightarrow> all_fine Setup s) \<and> (sn_results s \<noteq> [] \<longrightarrow> all_fine Setup s \<and> all_fine Main s))"

definition unreported :: "'w scen \<Rightarrow> bool" where
  "unreported s \<longleftrightarrow> sn_after s = [] \<and> sn_results s = [] \<and> sn_undeclared s = []"

lemma setup_wp:
  assumes "orderly ro s" "sn_before s = []" "sn_steps s = []" "unreported s"
  shows "wp True (setup_phase C offset)
    (\<lambda>f t. orderly ro t \<and> sn_steps t = [] \<and> unreported t \<and> (calm (sf_loop C) \<longrightarrow> f = None \<longrightarrow> all_fine Setup t))
    (\<lambda>e t. orderly ro t \<and> sn_steps t = [] \<and> unreported t) s"
proof (cases "sf_setup C = []")
  case True
  then show ?thesis using assms by (simp add: setup_phase_def wp_ret all_fine_def)
next
  case False
  have "wp True (run_phase C offset Setup (sf_cancelled C) (sf_setup C))
      (\<lambda>v. phase_done C ro Setup s (v = None)) (\<lambda>e. phase_done C ro Setup s False) s"
    by (rule run_phase_wp) (use assms in simp_all)
  then have "wp True (run_phase C offset Setup (sf_cancelled C) (sf_setup C))
      (\<lambda>v t. orderly ro t \<and> sn_steps t = [] \<and> unreported t \<and> (calm (sf_loop C) \<longrightarrow> v = None \<longrightarrow> all_fine Setup t))
      (\<lambda>e t. orderly ro t \<and> sn_steps t = [] \<and> unreported t) s"
    by (rule wp_mono) (use assms in \<open>auto simp: phase_done_def apart_def unreported_def all_fine_def dest: spec [of _ Main] spec [of _ Cleanup]\<close>)
  then show ?thesis using False by (simp add: setup_phase_def wp_seq wp_ret_all)
qed

lemma main_wp:
  assumes "orderly ro s" "sn_steps s = []" "unreported s" "calm (sf_loop C) \<Longrightarrow> all_fine Setup s"
  shows "wp True (run_phase C offset Main c steps)
    (\<lambda>f t. sequenced C ro t \<and> unreported t \<and> (calm (sf_loop C) \<longrightarrow> all_fine Setup t) \<and> (calm (sf_loop C) \<longrightarrow> f = None \<longrightarrow> all_fine Main t))
    (\<lambda>e t. sequenced C ro t \<and> unreported t) s"
proof -
  have "wp True (run_phase C offset Main c steps)
      (\<lambda>v. phase_done C ro Main s (v = None)) (\<lambda>e. phase_done C ro Main s False) s"
    by (rule run_phase_wp) (use assms in simp_all)
  then show ?thesis
    by (rule wp_mono) (use assms in \<open>auto simp: phase_done_def apart_def unreported_def all_fine_def sequenced_def
      dest: spec [of _ Setup] spec [of _ Cleanup]\<close>)
qed

text \<open>The verdict before the cleanup, and what it stands for.\<close>

definition judged :: "'w scen_cfg \<Rightarrow> roster option \<Rightarrow> string option \<Rightarrow> 'w scen \<Rightarrow> bool" where
  "judged C ro f t \<longleftrightarrow> sequenced C ro t \<and> sn_after t = [] \<and> (calm (sf_loop C) \<longrightarrow> f = None \<longrightarrow>
     all_fine Setup t \<and> all_fine Main t \<and> passed (map snd (sn_results t)) \<and> sn_undeclared t = [] \<and>
     (sf_expect C \<noteq> [] \<longrightarrow> (\<exists>live primary b. block_results C live primary (sf_interp C b (sf_expect C)) (sn_results t))))"

lemma expect_wp:
  assumes "sequenced C ro s" "unreported s" "calm (sf_loop C) \<Longrightarrow> all_fine Setup s \<and> all_fine Main s"
  shows "wp True (if sf_expect C = [] then ret None else expect_phase C offset) (judged C ro) (\<lambda>e t. sequenced C ro t \<and> sn_after t = []) s"
proof (cases "sf_expect C = []")
  case True
  then show ?thesis using assms by (simp add: wp_ret judged_def unreported_def passed_def)
next
  case False
  have "wp True (expect_phase C offset) (\<lambda>v. still s) (\<lambda>e. still s) s"
    using expect_phase_still [of C offset] unfolding kept_def by simp
  then have "wp True (expect_phase C offset)
      (\<lambda>f t. (block_of C s (sn_results t) \<and> (f = None \<longrightarrow> passed (map snd (sn_results t)) \<and> sn_undeclared t = [])) \<and> still s t)
      (\<lambda>e t. (True \<and> True) \<and> still s t) s"
    unfolding wp_conj using expect_phase_results expect_phase_passes by blast
  then show ?thesis unfolding if_not_P [OF False]
  proof (rule wp_mono)
    fix f :: "string option" and t :: "'a scen"
    assume "(block_of C s (sn_results t) \<and> (f = None \<longrightarrow> passed (map snd (sn_results t)) \<and> sn_undeclared t = [])) \<and> still s t"
    then show "judged C ro f t"
      using assms unfolding judged_def sequenced_def still_def orderly_def charged_def all_fine_def unreported_def by auto
  next
    fix t :: "'a scen"
    assume "(True \<and> True) \<and> still s t"
    then show "sequenced C ro t \<and> sn_after t = []"
      using assms unfolding sequenced_def still_def orderly_def charged_def all_fine_def unreported_def by auto
  qed
qed

lemma blocked_wp: "Q None s \<Longrightarrow> (\<And>m. Q (Some m) s) \<Longrightarrow> wp True (blocked_phase C) Q E s"
proof -
  assume "Q None s" "\<And>m. Q (Some m) s"
  then have "Q x s" for x by (cases x) auto
  then show ?thesis by (simp add: blocked_phase_def wp_gets)
qed

lemma unless_failed_wp: "(f = None \<Longrightarrow> wp True m Q E s) \<Longrightarrow> (f \<noteq> None \<Longrightarrow> Q f s) \<Longrightarrow> wp True (unless_failed m f) Q E s"
  by (simp add: unless_failed_def wp_ret)

lemma verdict_phases_wp:
  assumes "orderly ro s" "sn_before s = []" "sn_steps s = []" "unreported s"
  shows "wp True (verdict_phases C offset) (judged C ro) (\<lambda>e t. sequenced C ro t \<and> sn_after t = []) s"
proof -
  let ?E = "\<lambda>(e::exn) t. sequenced C ro t \<and> sn_after t = []"
  let ?Ran = "\<lambda>f t. sequenced C ro t \<and> unreported t \<and> (calm (sf_loop C) \<longrightarrow> f = None \<longrightarrow> all_fine Setup t \<and> all_fine Main t)"
  have first: "wp True (setup_phase C offset)
      (\<lambda>f t. orderly ro t \<and> sn_steps t = [] \<and> unreported t \<and> (calm (sf_loop C) \<longrightarrow> f = None \<longrightarrow> all_fine Setup t)) ?E s"
    by (rule wp_mono [OF setup_wp [OF assms]]) (auto simp: sequenced_def unreported_def)
  have main: "wp True (unless_failed (run_phase C offset Main (sf_cancelled C) (sf_steps C)) f) ?Ran ?E t"
    if "orderly ro t \<and> sn_steps t = [] \<and> unreported t \<and> (calm (sf_loop C) \<longrightarrow> f = None \<longrightarrow> all_fine Setup t)" for f t
    using that by (auto intro!: unless_failed_wp wp_mono [OF main_wp] simp: sequenced_def unreported_def)
  have blocked: "wp True (unless_failed (blocked_phase C) f) ?Ran ?E t" if "?Ran f t" for f t
    using that by (auto intro!: unless_failed_wp blocked_wp)
  have expect: "wp True (unless_failed (if sf_expect C = [] then ret None else expect_phase C offset) f) (judged C ro) ?E t"
    if "?Ran f t" for f t
    using that by (intro unless_failed_wp expect_wp) (auto simp: judged_def unreported_def)
  show ?thesis
    unfolding verdict_phases_def
    by (rule wp_bind [OF first], rule wp_bind [OF main], assumption, rule wp_bind [OF blocked], assumption) (rule expect)
qed

lemma judge_wp:
  assumes "orderly ro s" "sn_before s = []" "sn_steps s = []" "unreported s"
  shows "wp True (judge_scenario C offset) (judged C ro) (\<lambda>e t. sequenced C ro t \<and> sn_after t = []) s"
  unfolding judge_scenario_def wp_catching wp_ret
  by (rule wp_mono [OF verdict_phases_wp [OF assms]]) (auto simp: judged_def)

section \<open>Through the cleanup\<close>

lemma cleanup_loop_wp:
  assumes run: "\<And>steps t. K t \<Longrightarrow> wp True (run steps limit) (\<lambda>v u. K u \<and> (v = None \<longrightarrow> F t \<longrightarrow> F u)) (\<lambda>e. K) t"
  shows "K s \<Longrightarrow> (failure = None \<Longrightarrow> F s) \<Longrightarrow>
    wp True (cleanup_loop run on limit failure rules) (\<lambda>f u. K u \<and> (f = None \<longrightarrow> failure = None \<and> (limit = None \<longrightarrow> F u))) (\<lambda>e. K) s"
proof (induction rules arbitrary: failure s)
  case Nil
  then show ?case by (simp add: wp_ret)
next
  case (Cons q rules)
  have entry: "wp True (run_entry run limit (cu_steps q))
      (\<lambda>x u. K u \<and> (case x of None \<Rightarrow> True | Some v \<Rightarrow> v = None \<longrightarrow> F s \<longrightarrow> F u)) (\<lambda>e. K) s"
    unfolding run_entry_def wp_catching wp_seq wp_ret by (rule wp_mono [OF run [OF Cons.prems(1)]]) auto
  have rest: "wp True (case x of
        None \<Rightarrow> if limit \<noteq> None then ret failure else if failure = None then ret (Some cancelled_failure)
          else ret (Some (with_cleanup failure cancelled_failure))
      | Some None \<Rightarrow> cleanup_loop run on limit failure rules
      | Some (Some m) \<Rightarrow> cleanup_loop run on limit (Some (with_cleanup failure m)) rules)
      (\<lambda>f u. K u \<and> (f = None \<longrightarrow> failure = None \<and> (limit = None \<longrightarrow> F u))) (\<lambda>e. K) t"
    if t: "K t \<and> (case x of None \<Rightarrow> True | Some v \<Rightarrow> v = None \<longrightarrow> F s \<longrightarrow> F t)" for x t
  proof (cases x)
    case None
    then show ?thesis using t by (auto simp: wp_ret)
  next
    case (Some v)
    show ?thesis
    proof (cases v)
      case None
      then show ?thesis using t Some Cons.prems(2) by (simp, intro Cons.IH) auto
    next
      fix m assume m: "v = Some m"
      have "wp True (cleanup_loop run on limit (Some (with_cleanup failure m)) rules)
          (\<lambda>f u. K u \<and> (f = None \<longrightarrow> Some (with_cleanup failure m) = None \<and> (limit = None \<longrightarrow> F u))) (\<lambda>e. K) t"
        by (rule Cons.IH) (use t in auto)
      then show ?thesis unfolding Some m by (auto elim: wp_mono)
    qed
  qed
  show ?case
  proof (cases "cu_on q \<noteq> ''always'' \<and> cu_on q \<noteq> on")
    case True
    then show ?thesis using Cons by simp
  next
    case False
    show ?thesis unfolding cleanup_loop.simps if_not_P [OF False] by (rule wp_bind [OF entry rest])
  qed
qed

text \<open>What a passing result stands for.\<close>

definition passes :: "'w scen_cfg \<Rightarrow> 'w scen \<Rightarrow> bool" where
  "passes C t \<longleftrightarrow> all_fine Setup t \<and> all_fine Main t \<and> passed (map snd (sn_results t)) \<and> sn_undeclared t = [] \<and>
     (sf_expect C \<noteq> [] \<longrightarrow> (\<exists>live primary b. block_results C live primary (sf_interp C b (sf_expect C)) (sn_results t))) \<and>
     (sf_cancelled C = ret False \<longrightarrow> all_fine Cleanup t)"

definition sealed :: "'w scen_cfg \<Rightarrow> roster option \<Rightarrow> bool \<Rightarrow> 'w scen \<Rightarrow> bool" where
  "sealed C ro ok t \<longleftrightarrow> sequenced C ro t \<and> (calm (sf_loop C) \<longrightarrow> ok \<longrightarrow> passes C t)"

lemma sealed_mono: "sealed C ro ok t \<Longrightarrow> (ok' \<Longrightarrow> ok) \<Longrightarrow> sealed C ro ok' t"
  by (auto simp: sealed_def)

lemma settled_sealed: "settled s t \<Longrightarrow> sealed C ro ok s \<Longrightarrow> sealed C ro ok t"
  unfolding sealed_def passes_def sequenced_def orderly_def charged_def all_fine_def settled_def by auto

lemma settled_outcomes: "settled s t \<Longrightarrow> outcomes_of p t = outcomes_of p s"
  by (cases p) (simp_all add: settled_def)

lemma settled_apart: "settled s t \<Longrightarrow> apart p s t"
  by (auto simp: apart_def settled_outcomes) (simp_all add: settled_def)

lemma settled_sequenced: "settled s t \<Longrightarrow> sequenced C ro t = sequenced C ro s"
  unfolding sequenced_def orderly_def charged_def all_fine_def settled_def by auto

lemma teardown_wp:
  fixes s :: "'w scen"
  shows "wp True (teardown_limit (on_world now) (on_world cancelled) grace f)
    (\<lambda>limit t. settled s t \<and> (cancelled = ret False \<longrightarrow> f = None \<longrightarrow> limit = None)) (\<lambda>e t. settled s t \<and> True) s"
  unfolding wp_conj
proof
  have "wholly settled (teardown_limit (on_world now) (on_world cancelled) grace f :: ('w scen, real option) prog)"
    unfolding teardown_limit_def by (intro settled.kept_intros on_world_settled)
  then show "wp True (teardown_limit (on_world now) (on_world cancelled) grace f) (\<lambda>v. settled s) (\<lambda>e. settled s) s"
    by (simp add: kept_def)
  show "wp True (teardown_limit (on_world now) (on_world cancelled) grace f)
      (\<lambda>limit t. cancelled = ret False \<longrightarrow> f = None \<longrightarrow> limit = None) (\<lambda>e t. True) s"
  proof (cases "cancelled = ret False \<and> f = None")
    case True
    then show ?thesis
      by (simp add: teardown_limit_def on_world_def wp_simps starts_cancelled_def)
  qed (auto intro: wp_any)
qed

lemma run_cleanup_wp:
  assumes "judged C ro f s"
  shows "wp True (run_cleanup C offset f) (\<lambda>x. sealed C ro (fst x = None)) (\<lambda>e t. sequenced C ro t) s"
proof (cases "sf_cleanup C = []")
  case True
  then show ?thesis
    using assms by (auto simp: run_cleanup_def wp_ret judged_def sealed_def passes_def all_fine_def)
next
  case False
  define K where "K t \<longleftrightarrow> sequenced C ro t \<and> apart Cleanup s t" for t
  let ?F = "\<lambda>t. calm (sf_loop C) \<longrightarrow> all_fine Cleanup t"
  let ?run = "\<lambda>steps limit. run_phase C offset Cleanup (case limit of None \<Rightarrow> sf_cancelled C | Some d \<Rightarrow> past (scen_now C) d) steps"
  have same: "sn_before u = sn_before t \<and> sn_steps u = sn_steps t \<and> sn_results u = sn_results t" if "apart Cleanup t u" for t u
    using that unfolding apart_def by (auto dest: spec [of _ Setup] spec [of _ Main])
  have kept: "sequenced C ro u" if "sequenced C ro t" "orderly ro u" "apart Cleanup t u" for t u
    using that(1,2) same [OF that(3)] unfolding sequenced_def all_fine_def by simp
  have entry: "wp True (?run steps limit) (\<lambda>v u. K u \<and> (v = None \<longrightarrow> ?F t \<longrightarrow> ?F u)) (\<lambda>e. K) t" if "K t" for steps limit t
  proof -
    have "orderly ro t" using that by (simp add: K_def sequenced_def)
    then have "wp True (?run steps limit) (\<lambda>v. phase_done C ro Cleanup t (v = None)) (\<lambda>e. phase_done C ro Cleanup t False) t"
      by (rule run_phase_wp) simp
    then show ?thesis
      by (rule wp_mono) (use that kept in \<open>auto simp: phase_done_def K_def apart_def\<close>)
  qed
  have begun: "K s \<and> ?F s" using assms by (simp add: K_def judged_def apart_def all_fine_def)
  have loop: "wp True (cleanup_loop ?run on limit f (sf_cleanup C))
      (\<lambda>f' u. K u \<and> (f' = None \<longrightarrow> f = None \<and> (limit = None \<longrightarrow> ?F u))) (\<lambda>e. K) t" if "K t \<and> ?F t" for on limit t
    by (rule cleanup_loop_wp [OF entry]) (use that in auto)
  have limit: "wp True (teardown_limit (on_world (scen_now C)) (on_world (sf_cancelled C)) (sf_grace C) f)
      (\<lambda>limit t. settled s t \<and> (sf_cancelled C = ret False \<longrightarrow> f = None \<longrightarrow> limit = None)) (\<lambda>e t. settled s t) s"
    by (rule wp_mono [OF teardown_wp]) auto
  have started: "K t \<and> ?F t" if "settled s t" for t
    using settled_sequenced [OF that, of C ro] settled_apart [OF that, of Cleanup] settled_outcomes [OF that, of Cleanup] begun
    by (simp add: K_def all_fine_def)
  have ended: "sealed C ro (f' = None) t" if "K t" "f' = None \<longrightarrow> f = None \<and> (sf_cancelled C = ret False \<longrightarrow> ?F t)" for f' t
    using that assms same [of s t] unfolding K_def sealed_def passes_def judged_def apart_def by (auto simp: all_fine_def)
  show ?thesis
    unfolding run_cleanup_def if_not_P [OF False] dispatch_cleanup_def
  proof (rule wp_bind [OF wp_mono [OF limit]])
    fix lim :: "real option" and t :: "'a scen"
    assume t: "settled s t \<and> (sf_cancelled C = ret False \<longrightarrow> f = None \<longrightarrow> lim = None)"
    show "wp True (seq (cleanup_loop ?run (verdict_of f) lim f (sf_cleanup C)) (\<lambda>f'. ret (f', verdict_of f)))
        (\<lambda>x. sealed C ro (fst x = None)) (\<lambda>e t. sequenced C ro t) t"
    proof (rule wp_bind)
      show "wp True (cleanup_loop ?run (verdict_of f) lim f (sf_cleanup C))
          (\<lambda>f' u. K u \<and> (f' = None \<longrightarrow> f = None \<and> (lim = None \<longrightarrow> ?F u))) (\<lambda>e t. sequenced C ro t) t"
        by (rule wp_mono [OF loop [OF started]]) (use t in \<open>auto simp: K_def\<close>)
    qed (use t ended in \<open>auto simp: wp_ret\<close>)
  qed (use started in \<open>auto simp: K_def\<close>)
qed


section \<open>The whole scenario\<close>

lemma build_result_settled: "wholly settled (build_result C start wall failure on)"
  unfolding build_result_def Let_def by (intro settled.kept_intros on_world_settled)

lemma build_result_ok: "yields (\<lambda>res. rr_ok res \<longrightarrow> failure = None) (build_result C start wall failure on)"
  unfolding build_result_def Let_def
  by (intro yields_then yields_ret) (auto simp: hand_driven_def split: option.splits if_splits)

lemma build_result_wp:
  assumes "sealed C ro (failure = None) s"
  shows "wp True (build_result C start wall failure on) (\<lambda>res. sealed C ro (rr_ok res)) (\<lambda>e t. sequenced C ro t) s"
proof -
  have "wp True (build_result C start wall failure on) (\<lambda>v. settled s) (\<lambda>e. settled s) s"
    using build_result_settled [of C start wall failure on] by (simp add: kept_def)
  then have ran: "wp True (build_result C start wall failure on) (\<lambda>res t. settled s t \<and> (rr_ok res \<longrightarrow> failure = None)) (\<lambda>e t. settled s t \<and> True) s"
    unfolding wp_conj using build_result_ok [of failure C start wall on] by (simp add: yields_def)
  have "sequenced C ro s" using assms by (simp add: sealed_def)
  then show ?thesis
    by (intro wp_mono [OF ran]) (auto simp: settled_sequenced intro: sealed_mono [OF settled_sealed [OF _ assms]])
qed

lemma scenario_wp:
  "wp True (run_scenario_once C) (\<lambda>res. sealed C ro (rr_ok res)) (\<lambda>e t. sequenced C ro t) (scen_start w b unconfirmed ro live)"
proof -
  let ?s = "scen_start w b unconfirmed ro live"
  have begun: "orderly ro t \<and> sn_before t = [] \<and> sn_steps t = [] \<and> unreported t" if "settled ?s t" for t
    using that by (simp add: settled_def scen_start_def orderly_def numbered_def charged_def crashes_def new_latches_def
        unreported_def rel_forward_refl)
  have world: "wp True (on_world m) (\<lambda>v. settled ?s) (\<lambda>e t. sequenced C ro t) t" if "settled ?s t" for t and m :: "('a, 'b) prog"
    by (rule wp_mono [OF kept_wp [OF on_world_settled [of m], where Q = "\<lambda>v. settled t" and X = "\<lambda>e. settled t"]])
      (use that begun settled.R_trans in \<open>auto simp: sequenced_def unreported_def\<close>)
  have ending: "wp True (finish_recordings C sid ivs extras start wall) (\<lambda>v. P) (\<lambda>e t. sequenced C ro t) t"
    if "P t" "sequenced C ro t" "\<And>u. settled t u \<Longrightarrow> P t \<Longrightarrow> P u" for P sid ivs extras start wall t
    by (rule wp_mono [OF kept_wp [OF finish_recordings_settled [of C sid ivs extras start wall], where Q = "\<lambda>v. settled t" and X = "\<lambda>e. settled t"]])
      (use that in \<open>auto dest: settled_sequenced\<close>)
  have body: "wp True (finally_do (seq (judge_scenario C off) (run_cleanup C off)) (finish_recordings C sid ivs extras start wall))
      (\<lambda>x. sealed C ro (fst x = None)) (\<lambda>e t. sequenced C ro t) t" if "settled ?s t" for off sid ivs extras start wall t
    unfolding wp_finally
  proof (rule wp_bind [OF wp_mono [OF judge_wp]])
    show "orderly ro t" "sn_before t = []" "sn_steps t = []" "unreported t" using begun [OF that] by simp_all
    show "wp True (run_cleanup C off f) (\<lambda>v. wp True (finish_recordings C sid ivs extras start wall) (\<lambda>_. sealed C ro (fst v = None)) (\<lambda>e t. sequenced C ro t))
        (\<lambda>e. wp True (finish_recordings C sid ivs extras start wall) (\<lambda>_ t. sequenced C ro t) (\<lambda>e t. sequenced C ro t)) u"
      if "judged C ro f u" for f u
      by (rule wp_mono [OF run_cleanup_wp [OF that]]) (auto intro!: ending simp: settled_sealed settled_sequenced, simp add: sealed_def)
  qed (auto intro!: ending simp: settled_sequenced)
  show ?thesis
    unfolding run_scenario_once_def
    apply (subst wp_seq, subst wp_gets)
    apply (rule wp_step [OF world [OF settled.R_refl]], erule wp_step [OF world], erule wp_step [OF world], erule wp_step [OF world])
    apply (erule wp_bind [OF body])
    apply (auto intro: build_result_wp)
    done
qed

lemma scenario_ends:
  assumes "run_scenario_once C (scen_start w b unconfirmed ro live) = (r, t)" "r \<noteq> NoFuel"
  shows "sequenced C ro t"
proof (cases r)
  case (Ret res)
  then have "sealed C ro (rr_ok res) t" using wp_returned [OF scenario_wp [of C ro w b unconfirmed live]] assms(1) by simp
  then show ?thesis by (simp add: sealed_def)
next
  case (Exn e)
  then show ?thesis using wp_raised [OF scenario_wp [of C ro w b unconfirmed live]] assms(1) by simp
qed (use assms in simp)

section \<open>Scenarios on the in-memory device\<close>

definition fake_scenario :: "scen_step list \<Rightarrow> scen_step list \<Rightarrow> cleanup_rule list \<Rightarrow> (string \<times> assertion) list \<Rightarrow> fake scen_cfg" where
  "fake_scenario before steps rules expect = \<lparr>sf_loop = crashing_loop, sf_primary = ''a'', sf_started = [],
     sf_runtime = (\<lambda>n. fake_runner no_regex []), sf_wall = fake_now, sf_cancelled = ret False, sf_grace = 90,
     sf_setup = before, sf_steps = steps, sf_expect = expect, sf_cleanup = rules, sf_interp = (\<lambda>b e. e),
     sf_begin = (\<lambda>n sid ks. ret []), sf_finish = (\<lambda>n sid ivs. ret ([], [])), sf_manual = ret None, sf_degraded = (\<lambda>n. ret [])\<rparr>"

definition fake_start :: "fake scen" where
  "fake_start = scen_start (new_fake []) [] False None []"

definition nap :: scen_step where
  "nap = Step None [] [] [] (Leaf (LSleep 0))"

definition nothing_shown :: "(string \<times> assertion) list" where
  "nothing_shown = [([], AExists (by_id ''go'') True)]"

definition passing_scenario :: "fake scen_cfg" where
  "passing_scenario = fake_scenario [] [nap] [] nothing_shown"

definition failing_scenario :: "fake scen_cfg" where
  "failing_scenario = fake_scenario [] [tap_step] [] nothing_shown"

definition tidy_scenario :: "fake scen_cfg" where
  "tidy_scenario = fake_scenario [] [] [\<lparr>cu_on = ''always'', cu_steps = [nap]\<rparr>, \<lparr>cu_on = ''failure'', cu_steps = [tap_step]\<rparr>,
     \<lparr>cu_on = ''success'', cu_steps = [nap]\<rparr>] []"

lemma passing_run:
  "case run_scenario_once passing_scenario fake_start of (r, t) \<Rightarrow>
     (case r of Ret res \<Rightarrow> rr_ok res | _ \<Rightarrow> False) \<and> length (sn_steps t) = 1 \<and> length (sn_results t) = 1"
  by code_simp

lemma failing_run:
  "case run_scenario_once failing_scenario fake_start of (r, t) \<Rightarrow>
     (case r of Ret res \<Rightarrow> \<not> rr_ok res | _ \<Rightarrow> False) \<and>
     map (\<lambda>oc. (oc_ok oc, oc_crashed oc)) (sn_steps t) = [(False, True)]"
  by code_simp

lemma tidy_run:
  "case run_scenario_once tidy_scenario fake_start of (r, t) \<Rightarrow>
     (case r of Ret res \<Rightarrow> rr_ok res \<and> rr_after_verdict res = ''success'' | _ \<Rightarrow> False) \<and> length (sn_after t) = 2"
  by code_simp

lemma passing_end: "\<exists>res t. run_scenario_once passing_scenario fake_start = (Ret res, t) \<and> rr_ok res \<and>
    length (sn_steps t) = 1 \<and> length (sn_results t) = 1"
  using passing_run by (auto split: prod.splits res.splits)

lemma failing_end: "\<exists>res t. run_scenario_once failing_scenario fake_start = (Ret res, t) \<and>
    map (\<lambda>oc. (oc_ok oc, oc_crashed oc)) (sn_steps t) = [(False, True)]"
  using failing_run by (auto split: prod.splits res.splits)

lemma tidy_end: "\<exists>res t. run_scenario_once tidy_scenario fake_start = (Ret res, t) \<and> length (sn_after t) = 2"
  using tidy_run by (auto split: prod.splits res.splits)

lemma fake_scenario_simps:
  "calm (sf_loop (fake_scenario before steps rules expect))" "sf_cancelled (fake_scenario before steps rules expect) = ret False"
  "sf_expect (fake_scenario before steps rules expect) = expect"
  by (simp_all add: fake_scenario_def crashing_loop_calm)

section \<open>What a scenario's result stands for\<close>



text \<open>C4: The phases run in order and nothing follows a failure, however the scenario ends: \<open>steps\<close> begin only
  after a \<open>setup\<close> without a failed step, and \<open>expect\<close> is evaluated only after \<open>steps\<close> without one.\<close>
theorem nothing_follows_a_failed_phase:
  assumes "run_scenario_once C (scen_start w b unconfirmed ro live) = (r, t)" "r \<noteq> NoFuel" "calm (sf_loop C)"
  shows "(sn_steps t = [] \<or> list_all oc_ok (sn_before t)) \<and>
     (sn_results t = [] \<or> list_all oc_ok (sn_before t @ sn_steps t))"
  using scenario_ends [OF assms(1,2)] assms(3) by (auto simp: sequenced_def all_fine_def)

lemma nothing_follows_a_failed_phase_witness:
  "\<exists>t::fake scen. \<not> list_all oc_ok (sn_steps t) \<and> sn_results t = []"
proof -
  obtain res t where run: "run_scenario_once failing_scenario fake_start = (Ret res, t)"
      "map (\<lambda>oc. (oc_ok oc, oc_crashed oc)) (sn_steps t) = [(False, True)]"
    using failing_end by (elim exE conjE)
  have "calm (sf_loop failing_scenario)" by (simp add: failing_scenario_def fake_scenario_simps)
  then have "sn_results t = [] \<or> list_all oc_ok (sn_before t @ sn_steps t)"
    using nothing_follows_a_failed_phase [OF run(1) [unfolded fake_start_def]] by simp
  moreover have "\<not> list_all oc_ok (sn_steps t)" using run(2) by (cases "sn_steps t") auto
  ultimately show ?thesis by auto
qed

text \<open>C34: Whatever a scenario does and however it ends, the outcomes of each of its phases carry distinct
  indices; the entries of a cleanup share one numbering, so that no entry overwrites another's evidence.\<close>
theorem outcomes_of_a_phase_are_numbered_apart:
  assumes "run_scenario_once C (scen_start w b unconfirmed ro live) = (r, t)" "r \<noteq> NoFuel"
  shows "distinct (map oc_index (sn_before t)) \<and> distinct (map oc_index (sn_steps t)) \<and> distinct (map oc_index (sn_after t))"
  using scenario_ends [OF assms] by (simp add: sequenced_def orderly_def numbered_def)

lemma outcomes_of_a_phase_are_numbered_apart_witness:
  "\<exists>t::fake scen. length (sn_after t) = 2 \<and> distinct (map oc_index (sn_after t))"
proof -
  obtain res t where run: "run_scenario_once tidy_scenario fake_start = (Ret res, t)" "length (sn_after t) = 2"
    using tidy_end by blast
  then show ?thesis using outcomes_of_a_phase_are_numbered_apart [OF run(1) [unfolded fake_start_def]] by auto
qed

text \<open>C35: The crash of the application is charged to at most one outcome of the whole scenario, its cleanup
  included, and the signal it left stays latched; the statuses of the targets only move forward, from the
  roster the scenario began with.\<close>
theorem one_outcome_of_a_scenario_is_charged:
  assumes "run_scenario_once C (scen_start w b unconfirmed ro live) = (r, t)" "r \<noteq> NoFuel"
  shows "length (filter oc_crashed (sn_before t @ sn_steps t @ sn_after t)) \<le> (if la_signal (sn_latches t) = None then 0 else 1) \<and>
     rel_option forward ro (sn_roster t)"
  using scenario_ends [OF assms] by (simp add: sequenced_def orderly_def charged_def crashes_def)

lemma one_outcome_of_a_scenario_is_charged_witness:
  "\<exists>t::fake scen. length (filter oc_crashed (sn_steps t)) = 1 \<and> la_signal (sn_latches t) \<noteq> None"
proof -
  obtain res t where run: "run_scenario_once failing_scenario fake_start = (Ret res, t)"
      "map (\<lambda>oc. (oc_ok oc, oc_crashed oc)) (sn_steps t) = [(False, True)]"
    using failing_end by (elim exE conjE)
  have "length (filter oc_crashed (sn_steps t)) = 1" using run(2) by (cases "sn_steps t") auto
  moreover have "length (filter oc_crashed (sn_before t @ sn_steps t @ sn_after t)) \<le> (if la_signal (sn_latches t) = None then 0 else 1)"
    using one_outcome_of_a_scenario_is_charged [OF run(1) [unfolded fake_start_def]] by simp
  ultimately show ?thesis by (intro exI [of _ t]) (auto split: if_splits)
qed

text \<open>C3: The cleanup phase runs exactly the entries the verdict before it selects, one after another in declared
  order, whatever they report; the reasons are joined after the first cause of failure, and a cancellation
  that arrives during it is reported, unless the teardown of a cancelled run is what it cut short.\<close>
theorem cleanup_runs_what_the_verdict_selects:
  "dispatch_cleanup rules failure run now cancelled grace =
     seq (teardown_limit now cancelled grace failure) (\<lambda>limit.
     seq (run_entries run limit (selected (verdict_of failure) rules)) (\<lambda>(reasons, interrupted).
       ret (composed failure reasons (interrupted \<and> limit = None), verdict_of failure)))"
  unfolding dispatch_cleanup_def cleanup_loop_entries seq_assoc by (simp add: case_prod_unfold)


definition two_targets :: "(string \<times> assertion) list" where
  "two_targets = [(''b'', AExists (by_id ''go'') True), ([], AExists (by_id ''go'') True), (''b'', AExists (by_id ''row'') False)]"

lemma two_targets_run:
  "case evaluate_expect (fake_scenario [] [] [] two_targets) 0 two_targets fake_start of (r, t) \<Rightarrow>
     (case r of Ret ok \<Rightarrow> \<not> ok | _ \<Rightarrow> False) \<and> length (sn_results t) = 3"
  by code_simp


section \<open>An exception in the cleanup\<close>

text \<open>A step whose visual assertion needs a command the application does not confirm.\<close>

definition unconfirmed_loop :: "fake loop_cfg" where
  "unconfirmed_loop = (fake_loop no_regex [])\<lparr>lc_runner := (\<lambda>r. (fake_runner no_regex [])
     \<lparr>rc_visual := raise (ChannelFailed ''no reply''), rc_context := bare\<lparr>ctx_visual := Some (\<lambda>b els. None)\<rparr>\<rparr>)\<rparr>"

definition compare_step :: scen_step where
  "compare_step = Step None [] [] [] (Leaf (LAssert [AVisual ''home'']))"

definition unconfirmed_scenario :: "scen_step list \<Rightarrow> cleanup_rule list \<Rightarrow> fake scen_cfg" where
  "unconfirmed_scenario steps rules = (fake_scenario [] steps rules [])\<lparr>sf_loop := unconfirmed_loop\<rparr>"


end
