(* ===== verification/Target_Rules.thy ===== *)
theory Target_Rules
  imports Prelude
begin

text \<open>
  The routing rule of a scenario's targets
  (\<open>src/bajutsu/common/scenario/models/scenario/_targets.py\<close>): the expansion of target groups, the
  rule every \<open>target\<close> obeys, the primary target a step that names none resolves to, and the rules of
  \<open>installApp\<close> and \<open>setPrimaryTarget\<close>.  The pass is a function from the scenario to the error it raises
  or the scenario with every step's resolved target recorded.  A step holds exactly one action (the
  validator of \<open>Step\<close>), and of an assertion only the \<open>target\<close> is kept.  The fold of the targets' hooks
  (\<open>with_lifecycle_phases\<close> of \<open>runner/pipeline.py\<close>) repeats the pass on what it spliced in.
\<close>

section \<open>Scenarios\<close>

datatype rstep = RStep (rs_name: "string option") (rs_target: "string option")
    (rs_resolved: "string option") (rs_report: "string option") (rs_work: rwork)
and rwork =
    RAction
  | RAssert "string option list"
  | RInstall string
  | RSetPrimary string
  | RSteps "rstep list"
  | RGroup string "rstep list"
  | RUse string
  | RIf "string option" "rstep list" "rstep list option"
  | RForEach "rstep list"
  | RWeb "rstep list"
  | RApp "rstep list"

datatype target_entry = Bare string | Sharing "string list"

record screen_entry =
  se_target :: "string option"
  se_condition :: "string option"
  se_steps :: "rstep list"

record cleanup_entry =
  ce_on :: string
  ce_steps :: "rstep list"

record target_scenario =
  ts_targets :: "target_entry list"
  ts_primary :: "string option"
  ts_installs :: "string list"
  ts_inherit :: bool \<comment> \<open>\<open>preconditions.inheritSetup\<close>\<close>
  ts_steps :: "rstep list"
  ts_setup :: "rstep list"
  ts_cleanup :: "cleanup_entry list"
  ts_screens :: "screen_entry list"
  ts_expect :: "string option list"
  ts_final :: "string option"

text \<open>Python's \<open>a or b\<close> on optional strings: an empty string is false.\<close>

definition either :: "string option \<Rightarrow> string option \<Rightarrow> string option" where
  "either a b = (if a = None \<or> a = Some [] then b else a)"

definition resolved_target :: "rstep \<Rightarrow> string option" where
  "resolved_target st = either (rs_target st) (rs_resolved st)"

fun group_of_entry :: "target_entry \<Rightarrow> string list" where
  "group_of_entry (Bare t) = [t]"
| "group_of_entry (Sharing ts) = ts"

definition device_groups :: "target_scenario \<Rightarrow> string list list" where
  "device_groups s = map group_of_entry (ts_targets s)"

definition target_names :: "target_scenario \<Rightarrow> string list" where
  "target_names s = concat (device_groups s)"

definition later_targets :: "target_scenario \<Rightarrow> string list" where
  "later_targets s =
     (let names = target_names s; starting = (case names of [] \<Rightarrow> {} | n # ns \<Rightarrow> insert n (set (ts_installs s)))
      in [name. g \<leftarrow> device_groups s, length g \<ge> 2, name \<leftarrow> g, name \<notin> starting])"

definition final_primary :: "target_scenario \<Rightarrow> string option" where
  "final_primary s = either (ts_final s) (ts_primary s)"

section \<open>Errors\<close>

datatype place = AtStep "string option" | AtExpect | AtScreen | AtCondition | AtSetPrimary "string option" "string option"
  | AtInstall "string option" "string option"

datatype route_error =
    TargetRequired place nat | UnknownTarget place string "string list" | OtherTarget place string string
  | NoTargets place string | TargetInBlock place | CallerConflict place string string | AssertionTarget place
  | GroupInsideBlock "string option" | SetPrimaryInGroup "string option" | NestedSetPrimary place
  | InstallInBlock place | InstallUnnamed place | InstallOutsideGroup place string string
  | InstallWithoutGroup place string | InstalledTwice place string
  | PrimaryWithoutTargets | PrimaryNotFirst string string
  | RepeatedTarget "string list" | SmallGroup "string list" | UnknownInstall "string list"
  | RepeatedInstall "string list" | NobodyStarts "string list"

definition ensure :: "bool \<Rightarrow> 'e \<Rightarrow> 'e + unit" where
  "ensure P e = (if P then Inr () else Inl e)"

lemma ensure_simps [simp]: "ensure P e = Inr u \<longleftrightarrow> P" "ensure True e = Inr ()" "ensure False e = Inl e"
  by (auto simp: ensure_def)

section \<open>Target groups\<close>

fun sets_primary :: "rwork \<Rightarrow> bool" where
  "sets_primary (RSetPrimary t) = True"
| "sets_primary _ = False"

fun expand_groups :: "string option \<Rightarrow> bool \<Rightarrow> rstep list \<Rightarrow> route_error + rstep list"
and expand_nested :: "bool \<Rightarrow> rwork \<Rightarrow> route_error + rwork" where
  "expand_groups gt blk [] = Inr []"
| "expand_groups gt blk (RStep nm tg rv rp w # ss) =
     and_then
       (case w of
          RSteps inner \<Rightarrow> if blk then Inl (GroupInsideBlock nm) else expand_groups tg False inner
        | _ \<Rightarrow> if gt \<noteq> None \<and> sets_primary w then Inl (SetPrimaryInGroup nm)
            else and_then (expand_nested blk w) (\<lambda>w'. Inr [RStep nm (if gt = None then tg else gt) rv rp w']))
       (\<lambda>xs. and_then (expand_groups gt blk ss) (\<lambda>ys. Inr (xs @ ys)))"
| "expand_nested blk (RIf c th el) =
     and_then (expand_groups None blk th) (\<lambda>th'.
       case el of None \<Rightarrow> Inr (RIf c th' None)
       | Some b \<Rightarrow> and_then (expand_groups None blk b) (\<lambda>b'. Inr (RIf c th' (Some b'))))"
| "expand_nested blk (RForEach b) = and_then (expand_groups None blk b) (\<lambda>b'. Inr (RForEach b'))"
| "expand_nested blk (RWeb b) = and_then (expand_groups None True b) (\<lambda>b'. Inr (RWeb b'))"
| "expand_nested blk (RApp b) = and_then (expand_groups None True b) (\<lambda>b'. Inr (RApp b'))"
| "expand_nested blk w = Inr w"

definition expand_target_groups :: "target_scenario \<Rightarrow> route_error + target_scenario" where
  "expand_target_groups s =
     and_then (expand_groups None False (ts_steps s)) (\<lambda>steps.
     and_then (expand_groups None False (ts_setup s)) (\<lambda>setup.
     and_then (each (\<lambda>r. and_then (expand_groups None False (ce_steps r)) (\<lambda>b. Inr (r\<lparr>ce_steps := b\<rparr>))) (ts_cleanup s)) (\<lambda>cleanup.
     and_then (each (\<lambda>e. and_then (expand_groups None False (se_steps e)) (\<lambda>b. Inr (e\<lparr>se_steps := b\<rparr>))) (ts_screens s)) (\<lambda>screens.
       Inr (s\<lparr>ts_steps := steps, ts_setup := setup, ts_cleanup := cleanup, ts_screens := screens\<rparr>)))))"

section \<open>The rule of one target\<close>

definition check_target :: "string list \<Rightarrow> place \<Rightarrow> string option \<Rightarrow> bool \<Rightarrow> string option \<Rightarrow> route_error + string option" where
  "check_target known pl dflt required tg =
     (let n = card (set known) in
      if n \<ge> 2 then
        (case tg of
           None \<Rightarrow> (case dflt of Some d \<Rightarrow> Inr (Some d)
             | None \<Rightarrow> if required then Inl (TargetRequired pl n) else Inr None)
         | Some t \<Rightarrow> if t \<in> set known then Inr None else Inl (UnknownTarget pl t (sorted_list_of_set (set known))))
      else if n = 1 then
        (case tg of Some t \<Rightarrow> if t = hd known then Inr None else Inl (OtherTarget pl t (hd known)) | None \<Rightarrow> Inr None)
      else (case tg of Some t \<Rightarrow> Inl (NoTargets pl t) | None \<Rightarrow> Inr None))"

definition caller_agrees :: "string option \<Rightarrow> string option \<Rightarrow> place \<Rightarrow> route_error + unit" where
  "caller_agrees tg caller pl =
     (case (caller, tg) of (Some c, Some t) \<Rightarrow> ensure (t = c) (CallerConflict pl t c) | _ \<Rightarrow> Inr ())"

definition check_primary_target :: "target_scenario \<Rightarrow> route_error + unit" where
  "check_primary_target s = (case ts_primary s of
     None \<Rightarrow> Inr ()
   | Some p \<Rightarrow> (case target_names s of
       [] \<Rightarrow> Inl PrimaryWithoutTargets
     | n # ns \<Rightarrow> ensure (p = n) (PrimaryNotFirst p n)))"

definition repeated :: "string list \<Rightarrow> string list" where
  "repeated names = sorted_list_of_set {n \<in> set names. count_list names n > 1}"

definition check_device_groups :: "target_scenario \<Rightarrow> route_error + unit" where
  "check_device_groups s =
     (let names = target_names s; unknown = [n \<leftarrow> ts_installs s. n \<notin> set names] in
      and_then (ensure (repeated names = []) (RepeatedTarget (repeated names))) (\<lambda>_.
      and_then (each (\<lambda>t. case t of Bare n \<Rightarrow> Inr () | Sharing g \<Rightarrow> ensure (length g \<ge> 2) (SmallGroup g)) (ts_targets s)) (\<lambda>_.
      and_then (ensure (unknown = []) (UnknownInstall unknown)) (\<lambda>_.
      and_then (ensure (repeated (ts_installs s) = []) (RepeatedInstall (repeated (ts_installs s)))) (\<lambda>_.
      and_then (each (\<lambda>g. ensure (length g \<ge> 2 \<longrightarrow> set (ts_installs s) \<inter> set g \<noteq> {}) (NobodyStarts g)) (tl (device_groups s)))
        (\<lambda>_. Inr ()))))))"

section \<open>The rule of one step\<close>

datatype step_mode = Required | Forbidden | Optional

fun hides_steps :: "rwork \<Rightarrow> bool" where
  "hides_steps (RUse r) = True"
| "hides_steps (RGroup n b) = True"
| "hides_steps _ = False"

text \<open>\<open>_check_step_target\<close>: the target a step resolves to, beside its own.\<close>

definition check_step_target :: "string list \<Rightarrow> step_mode \<Rightarrow> string option \<Rightarrow> string option \<Rightarrow> rstep
    \<Rightarrow> route_error + string option" where
  "check_step_target known mode dflt caller st =
     (let pl = AtStep (rs_name st) in
      if sets_primary (rs_work st) then Inr None
      else if mode = Forbidden then and_then (ensure (rs_target st = None) (TargetInBlock pl)) (\<lambda>_. Inr None)
      else if hides_steps (rs_work st) \<or> caller \<noteq> None then
        and_then (check_target known pl None False (rs_target st)) (\<lambda>_.
        and_then (caller_agrees (rs_target st) caller pl) (\<lambda>_. Inr None))
      else check_target known pl (if mode = Required then dflt else None) (mode = Required) (rs_target st))"

text \<open>What \<open>_LifecycleChecks\<close> reads of the scenario.\<close>

record lifecycle_facts =
  lf_known :: "string list"
  lf_later :: "string list"
  lf_groups :: "string list list"
  lf_declared :: "string option"
  lf_moves :: bool

definition lifecycle_of :: "target_scenario \<Rightarrow> lifecycle_facts" where
  "lifecycle_of s = \<lparr>lf_known = target_names s, lf_later = later_targets s, lf_groups = device_groups s,
     lf_declared = (case target_names s of [] \<Rightarrow> None | n # ns \<Rightarrow> Some n),
     lf_moves = list_ex (\<lambda>st. sets_primary (rs_work st)) (ts_steps s)\<rparr>"

record walk_env =
  wk_facts :: lifecycle_facts
  wk_default :: "string option"
  wk_mode :: step_mode
  wk_caller :: "string option"
  wk_primary :: "string option"
  wk_top :: bool
  wk_entry :: "string option"

definition install_device :: "walk_env \<Rightarrow> rstep \<Rightarrow> string option" where
  "install_device E st =
     (let device = either (rs_target st) (wk_caller E) in
      if device = None then (if wk_mode E = Optional then either (wk_entry E) (lf_declared (wk_facts E)) else wk_primary E)
      else device)"

definition group_holding :: "string list list \<Rightarrow> string option \<Rightarrow> string list" where
  "group_holding groups device =
     (if either device None = None then []
      else case List.find (\<lambda>g. the device \<in> set g) groups of Some g \<Rightarrow> g | None \<Rightarrow> [])"

definition check_install_app :: "walk_env \<Rightarrow> bool \<Rightarrow> string \<Rightarrow> rstep \<Rightarrow> route_error + unit" where
  "check_install_app E hidden member st =
     (let pl = AtInstall (rs_name st) (rs_report st); F = wk_facts E; device = install_device E st;
          group = group_holding (lf_groups F) device in
      and_then (ensure (wk_mode E \<noteq> Forbidden) (InstallInBlock pl)) (\<lambda>_.
      and_then (ensure (\<not> (either (rs_target st) (wk_caller E) = None \<and> wk_mode E = Optional \<and> wk_entry E = None \<and> lf_moves F))
        (InstallUnnamed pl)) (\<lambda>_.
      if hidden then Inr ()
      else ensure (member \<in> set (lf_later F) \<and> member \<in> set group)
        (case either device None of Some d \<Rightarrow> InstallOutsideGroup pl member d | None \<Rightarrow> InstallWithoutGroup pl member))))"

definition check_set_primary :: "walk_env \<Rightarrow> string \<Rightarrow> rstep \<Rightarrow> route_error + unit" where
  "check_set_primary E t st =
     (let pl = AtSetPrimary (rs_name st) (rs_report st) in
      and_then (ensure (wk_top E) (NestedSetPrimary pl)) (\<lambda>_.
      and_then (check_target (lf_known (wk_facts E)) pl None True (Some t)) (\<lambda>_. Inr ())))"

definition is_group :: "rwork \<Rightarrow> bool" where
  "is_group w = (case w of RGroup n b \<Rightarrow> True | _ \<Rightarrow> False)"

text \<open>\<open>check_step\<close>: whether a component hides the primary from here on.\<close>

definition check_lifecycle :: "walk_env \<Rightarrow> bool \<Rightarrow> rstep \<Rightarrow> route_error + bool" where
  "check_lifecycle E hidden st =
     (let h = (hidden \<or> (wk_top E \<and> is_group (rs_work st))) in
      case rs_work st of
        RSetPrimary t \<Rightarrow> and_then (check_set_primary E t st) (\<lambda>_. Inr h)
      | RInstall m \<Rightarrow> and_then (check_install_app E h m st) (\<lambda>_. Inr h)
      | _ \<Rightarrow> Inr h)"

section \<open>The walk\<close>

definition nested_env :: "walk_env \<Rightarrow> walk_env" where
  "nested_env E = E\<lparr>wk_top := False\<rparr>"

definition block_env :: "walk_env \<Rightarrow> walk_env" where
  "block_env E = E\<lparr>wk_mode := Forbidden, wk_caller := None, wk_primary := wk_default E, wk_top := False, wk_entry := None\<rparr>"

definition group_env :: "walk_env \<Rightarrow> string option \<Rightarrow> walk_env" where
  "group_env E tg = E\<lparr>wk_caller := either tg (wk_caller E)\<rparr>"

fun walk :: "walk_env \<Rightarrow> bool \<Rightarrow> rstep list \<Rightarrow> route_error + bool \<times> rstep list"
and walk_work :: "walk_env \<Rightarrow> bool \<Rightarrow> string option \<Rightarrow> string option \<Rightarrow> rwork \<Rightarrow> route_error + bool \<times> rwork" where
  "walk E h [] = Inr (h, [])"
| "walk E h (RStep nm tg rv rp w # ss) =
     and_then (check_lifecycle E h (RStep nm tg rv rp w)) (\<lambda>h1.
     and_then (check_step_target (lf_known (wk_facts E)) (wk_mode E) (wk_primary E) (wk_caller E) (RStep nm tg rv rp w)) (\<lambda>r.
     and_then (walk_work E h1 nm tg w) (\<lambda>(h2, w').
     and_then (walk E h2 ss) (\<lambda>(h3, ss'). Inr (h3, RStep nm tg r rp w' # ss')))))"
| "walk_work E h nm tg (RAssert as) =
     and_then (ensure (list_all (\<lambda>t. t = None) as) (AssertionTarget (AtStep nm))) (\<lambda>_. Inr (h, RAssert as))"
| "walk_work E h nm tg (RIf c th el) =
     and_then (ensure (c = None) (AssertionTarget (AtStep nm))) (\<lambda>_.
     and_then (walk (nested_env E) h th) (\<lambda>(h1, th').
       case el of None \<Rightarrow> Inr (h1, RIf c th' None)
       | Some b \<Rightarrow> and_then (walk (nested_env E) h1 b) (\<lambda>(h2, b'). Inr (h2, RIf c th' (Some b')))))"
| "walk_work E h nm tg (RForEach b) = and_then (walk (nested_env E) h b) (\<lambda>(h1, b'). Inr (h1, RForEach b'))"
| "walk_work E h nm tg (RGroup n b) = and_then (walk (group_env E tg) h b) (\<lambda>(h1, b'). Inr (h1, RGroup n b'))"
| "walk_work E h nm tg (RWeb b) = and_then (walk (block_env E) h b) (\<lambda>(h1, b'). Inr (h1, RWeb b'))"
| "walk_work E h nm tg (RApp b) = and_then (walk (block_env E) h b) (\<lambda>(h1, b'). Inr (h1, RApp b'))"
| "walk_work E h nm tg w = Inr (h, w)"

definition env_for :: "target_scenario \<Rightarrow> step_mode \<Rightarrow> string option \<Rightarrow> bool \<Rightarrow> string option \<Rightarrow> walk_env" where
  "env_for s mode primary toplevel entry = \<lparr>wk_facts = lifecycle_of s, wk_default = ts_primary s, wk_mode = mode,
     wk_caller = None, wk_primary = primary, wk_top = toplevel, wk_entry = entry\<rparr>"

text \<open>\<open>note_top_level\<close>: the installed members seen so far and whether the primary is hidden.\<close>

definition note_top_level :: "string list \<Rightarrow> bool \<Rightarrow> rstep \<Rightarrow> route_error + string list \<times> bool" where
  "note_top_level installed h st =
     (let h' = (h \<or> hides_steps (rs_work st)) in
      case rs_work st of
        RInstall m \<Rightarrow> if m \<in> set installed then Inl (InstalledTwice (AtInstall (rs_name st) (rs_report st)) m)
          else Inr (m # installed, h')
      | _ \<Rightarrow> Inr (installed, h'))"

definition primary_after :: "string option \<Rightarrow> rstep \<Rightarrow> string option" where
  "primary_after p st = (case rs_work st of RSetPrimary t \<Rightarrow> Some t | _ \<Rightarrow> p)"

fun walk_top :: "target_scenario \<Rightarrow> string option \<Rightarrow> string list \<Rightarrow> bool \<Rightarrow> rstep list
    \<Rightarrow> route_error + bool \<times> string option \<times> rstep list" where
  "walk_top s primary installed h [] = Inr (h, primary, [])"
| "walk_top s primary installed h (st # ss) =
     and_then (walk (env_for s Required primary True None) h [st]) (\<lambda>(h1, st').
     and_then (note_top_level installed h1 st) (\<lambda>(installed', h2).
     and_then (walk_top s (primary_after primary st) installed' h2 ss) (\<lambda>(h3, final, ss').
       Inr (h3, final, st' @ ss'))))"

fun walk_cleanup :: "target_scenario \<Rightarrow> bool \<Rightarrow> cleanup_entry list \<Rightarrow> route_error + bool \<times> cleanup_entry list" where
  "walk_cleanup s h [] = Inr (h, [])"
| "walk_cleanup s h (r # rs) =
     and_then (walk (env_for s Required (ts_primary s) False None) h (ce_steps r)) (\<lambda>(h1, b).
     and_then (walk_cleanup s h1 rs) (\<lambda>(h2, rs'). Inr (h2, r\<lparr>ce_steps := b\<rparr> # rs')))"

fun walk_screens :: "target_scenario \<Rightarrow> bool \<Rightarrow> screen_entry list \<Rightarrow> route_error + bool \<times> screen_entry list" where
  "walk_screens s h [] = Inr (h, [])"
| "walk_screens s h (e # es) =
     and_then (check_target (target_names s) AtScreen None False (se_target e)) (\<lambda>_.
     and_then (walk (env_for s Optional (ts_primary s) False (se_target e)) h (se_steps e)) (\<lambda>(h1, b).
     and_then (ensure (se_condition e = None) (AssertionTarget AtCondition)) (\<lambda>_.
     and_then (walk_screens s h1 es) (\<lambda>(h2, es'). Inr (h2, e\<lparr>se_steps := b\<rparr> # es')))))"

definition check_target_requirements :: "target_scenario \<Rightarrow> route_error + target_scenario" where
  "check_target_requirements s =
     and_then (check_device_groups s) (\<lambda>_.
     and_then (check_primary_target s) (\<lambda>_.
     and_then (walk_top s (ts_primary s) [] False (ts_steps s)) (\<lambda>(h, primary, steps).
     and_then (walk (env_for s Required (ts_primary s) False None) h (ts_setup s)) (\<lambda>(h1, setup).
     and_then (walk_cleanup s h1 (ts_cleanup s)) (\<lambda>(h2, cleanup).
     and_then (walk_screens s h2 (ts_screens s)) (\<lambda>(h3, screens).
     and_then (each (check_target (target_names s) AtExpect primary True) (ts_expect s)) (\<lambda>_.
       Inr (s\<lparr>ts_steps := steps, ts_setup := setup, ts_cleanup := cleanup, ts_screens := screens, ts_final := primary\<rparr>))))))))"

text \<open>\<open>_target_requirements\<close> of the model, and what each later point that splices steps in repeats.\<close>

definition validate_targets :: "target_scenario \<Rightarrow> route_error + target_scenario" where
  "validate_targets s = and_then (expand_target_groups s) check_target_requirements"

definition declares_several :: "(string \<times> target_scenario) list \<Rightarrow> string list" where
  "declares_several named = sorted_list_of_set (fst ` {ns \<in> set named. length (target_names (snd ns)) \<ge> 2})"

section \<open>Nested groups\<close>

datatype nesting = InsideGroup | InsideIf | InsideForEach | InsideWeb | InsideApp

fun walk_no_nested_group :: "nesting option \<Rightarrow> rstep list \<Rightarrow> (string \<times> nesting) + unit"
and work_no_nested_group :: "nesting option \<Rightarrow> rwork \<Rightarrow> (string \<times> nesting) + unit" where
  "walk_no_nested_group k [] = Inr ()"
| "walk_no_nested_group k (RStep nm tg rv rp w # ss) =
     and_then (work_no_nested_group k w) (\<lambda>_. walk_no_nested_group k ss)"
| "work_no_nested_group k (RGroup n b) =
     (case k of Some c \<Rightarrow> Inl (n, c) | None \<Rightarrow> walk_no_nested_group (Some InsideGroup) b)"
| "work_no_nested_group k (RIf c th el) =
     and_then (walk_no_nested_group (Some InsideIf) th) (\<lambda>_.
       case el of None \<Rightarrow> Inr () | Some b \<Rightarrow> walk_no_nested_group (Some InsideIf) b)"
| "work_no_nested_group k (RForEach b) = walk_no_nested_group (Some InsideForEach) b"
| "work_no_nested_group k (RWeb b) = walk_no_nested_group (Some InsideWeb) b"
| "work_no_nested_group k (RApp b) = walk_no_nested_group (Some InsideApp) b"
| "work_no_nested_group k w = Inr ()"

definition check_no_nested_group :: "target_scenario \<Rightarrow> (string \<times> nesting) + unit" where
  "check_no_nested_group s =
     and_then (walk_no_nested_group None (ts_steps s)) (\<lambda>_.
     and_then (walk_no_nested_group None (ts_setup s)) (\<lambda>_.
     and_then (each (\<lambda>r. walk_no_nested_group None (ce_steps r)) (ts_cleanup s)) (\<lambda>_.
     and_then (each (\<lambda>e. walk_no_nested_group None (se_steps e)) (ts_screens s)) (\<lambda>_. Inr ()))))"

section \<open>The hooks of the targets\<close>

record hooks =
  hk_setup :: "rstep list"
  hk_cleanup :: "cleanup_entry list"

fun fill_target :: "string \<Rightarrow> rstep \<Rightarrow> rstep" and fill_work :: "string \<Rightarrow> rwork \<Rightarrow> rwork" where
  "fill_target t (RStep nm tg rv rp w) = RStep nm (if tg = None then Some t else tg) rv rp (fill_work t w)"
| "fill_work t (RIf c th el) = RIf c (map (fill_target t) th) (map_option (map (fill_target t)) el)"
| "fill_work t (RForEach b) = RForEach (map (fill_target t) b)"
| "fill_work t w = w"

definition hooks_of :: "hooks \<Rightarrow> (string \<Rightarrow> hooks option) \<Rightarrow> string \<Rightarrow> hooks" where
  "hooks_of eff effs name = (case effs name of Some h \<Rightarrow> h | None \<Rightarrow> eff)"

definition stamped_rule :: "string \<Rightarrow> cleanup_entry \<Rightarrow> cleanup_entry" where
  "stamped_rule name r = r\<lparr>ce_steps := map (fill_target name) (ce_steps r)\<rparr>"

definition hooks_for :: "hooks \<Rightarrow> (string \<Rightarrow> hooks option) \<Rightarrow> target_scenario \<Rightarrow> rstep list \<times> cleanup_entry list" where
  "hooks_for eff effs s =
     (if ts_targets s = [] then (if ts_inherit s then hk_setup eff else [], hk_cleanup eff)
      else (concat (map (\<lambda>name. if ts_inherit s then map (fill_target name) (hk_setup (hooks_of eff effs name)) else []) (target_names s)),
            concat (map (\<lambda>name. map (stamped_rule name) (hk_cleanup (hooks_of eff effs name))) (target_names s))))"

definition fold_hooks :: "rstep list \<times> cleanup_entry list \<Rightarrow> target_scenario \<Rightarrow> target_scenario" where
  "fold_hooks hk s = s\<lparr>ts_setup := fst hk @ ts_setup s, ts_cleanup := ts_cleanup s @ snd hk\<rparr>"

definition with_lifecycle_phases :: "hooks \<Rightarrow> (string \<Rightarrow> hooks option) \<Rightarrow> nat list \<Rightarrow> target_scenario list
    \<Rightarrow> route_error + target_scenario list" where
  "with_lifecycle_phases eff effs skip ss =
     (let hks = map (\<lambda>(i, s). if i \<in> set skip then ([], []) else hooks_for eff effs s) (zip [0..<length ss] ss) in
      if \<forall>h\<in>set hks. h = ([], []) then Inr ss
      else each validate_targets (map2 fold_hooks hks ss))"

end
