(* ===== verification/Target_Results.thy ===== *)
theory Target_Results
  imports Target_Rules
begin

text \<open>
  What the pass over a scenario's targets guarantees once it accepts one: every step knows the target
  it runs on, an omitted target follows the primary in force, the top-level installs find a later member
  in the right group, each once, and running the pass again on its own result changes nothing.
\<close>

section \<open>Flat steps\<close>

text \<open>No target group is left, but inside a component group, which expansion replaces later.\<close>

fun flat :: "rstep list \<Rightarrow> bool" and flat_work :: "rwork \<Rightarrow> bool" where
  "flat [] = True"
| "flat (RStep nm tg rv rp w # ss) \<longleftrightarrow> flat_work w \<and> flat ss"
| "flat_work (RSteps b) = False"
| "flat_work (RIf c th el) \<longleftrightarrow> flat th \<and> (case el of None \<Rightarrow> True | Some b \<Rightarrow> flat b)"
| "flat_work (RForEach b) = flat b"
| "flat_work (RWeb b) = flat b"
| "flat_work (RApp b) = flat b"
| "flat_work w = True"

lemma flat_append [simp]: "flat (xs @ ys) \<longleftrightarrow> flat xs \<and> flat ys"
  by (induction xs rule: list.induct) (simp, metis append_Cons flat.simps(2) rstep.exhaust)

lemma expanded_flat:
  "expand_groups gt blk ss = Inr ss' \<Longrightarrow> flat ss'"
  "expand_nested blk w = Inr w' \<Longrightarrow> (\<forall>b. w \<noteq> RSteps b) \<Longrightarrow> flat_work w'"
proof (induction gt blk ss and blk w arbitrary: ss' and w' rule: expand_groups_expand_nested.induct)
  case (2 gt blk nm tg rv rp w ss)
  show ?case
  proof (cases "\<exists>b. w = RSteps b")
    case True
    with 2 show ?thesis by (auto simp: and_then_eq_Inr split: if_splits)
  next
    case False
    with "2.prems" obtain w' ys where w': "expand_nested blk w = Inr w'" "expand_groups gt blk ss = Inr ys"
      "ss' = RStep nm (if gt = None then tg else gt) rv rp w' # ys" "\<not> (gt \<noteq> None \<and> sets_primary w)"
      by (cases w) (auto simp: and_then_eq_Inr split: if_splits)
    have no: "\<forall>b. w \<noteq> RSteps b" using False by blast
    have "flat_work w'" using no w'(1,4)
      by (cases w) (rule "2.IH"(1,2,3,4,6,7,8,9,10,11); assumption | blast)+
    moreover have "flat ys" using "2.IH" w'(2) by simp
    ultimately show ?thesis using w'(3) by simp
  qed
qed (auto simp: and_then_eq_Inr split: option.splits)

lemma flat_expand:
  "flat ss \<Longrightarrow> expand_groups None blk ss = Inr ss"
  "flat_work w \<Longrightarrow> expand_nested blk w = Inr w"
proof (induction "None :: string option" blk ss and blk w rule: expand_groups_expand_nested.induct)
  case (2 blk nm tg rv rp w ss)
  then show ?case by (cases w) auto
qed (auto split: option.splits)

section \<open>The walk keeps the shape of the steps\<close>

lemma walk_work_shape:
  assumes "walk_work E h nm tg w = Inr (h', w')"
  shows "sets_primary w' = sets_primary w" "hides_steps w' = hides_steps w" "is_group w' = is_group w"
    "w' = RInstall m \<longleftrightarrow> w = RInstall m" "w' = RSetPrimary t \<longleftrightarrow> w = RSetPrimary t"
  using assms by (cases w; auto simp: and_then_eq_Inr is_group_def split: option.splits)+

lemma lifecycle_by_shape:
  assumes "walk_work E h nm tg w = Inr (h', w')"
  shows "check_lifecycle F k (RStep nm tg r rp w') = check_lifecycle F k (RStep nm tg rv rp w)"
    "check_step_target known mode d caller (RStep nm tg r rp w') = check_step_target known mode d caller (RStep nm tg rv rp w)"
    "note_top_level installed k (RStep nm tg r rp w') = note_top_level installed k (RStep nm tg rv rp w)"
    "primary_after p (RStep nm tg r rp w') = primary_after p (RStep nm tg rv rp w)"
  using assms
  by (cases w; auto simp: and_then_eq_Inr is_group_def check_lifecycle_def check_step_target_def note_top_level_def
      primary_after_def check_install_app_def check_set_primary_def install_device_def Let_def split: option.splits)+

lemma walk_again:
  "walk E h ss = Inr (h', ss') \<Longrightarrow> walk E h ss' = Inr (h', ss')"
  "walk_work E h nm tg w = Inr (h', w') \<Longrightarrow> walk_work E h nm tg w' = Inr (h', w')"
proof (induction E h ss and E h nm tg w arbitrary: h' ss' and h' w' rule: walk_walk_work.induct)
  case (2 E h nm tg rv rp w ss)
  from "2.prems" obtain h1 r h2 w1 h3 ss1 where parts:
    "check_lifecycle E h (RStep nm tg rv rp w) = Inr h1"
    "check_step_target (lf_known (wk_facts E)) (wk_mode E) (wk_primary E) (wk_caller E) (RStep nm tg rv rp w) = Inr r"
    "walk_work E h1 nm tg w = Inr (h2, w1)" "walk E h2 ss = Inr (h3, ss1)" "h' = h3" "ss' = RStep nm tg r rp w1 # ss1"
    by (auto simp: and_then_eq_Inr)
  then show ?case
    using "2.IH"(1) [OF parts(3)] "2.IH"(2) [OF parts(4)] lifecycle_by_shape(1) [OF parts(3), of E h r rp rv] lifecycle_by_shape(2) [OF parts(3), of _ _ _ _ r rp rv] parts
    by simp
next
  case (4 E h nm tg c th el)
  from "4.prems" obtain h1 th' where th: "c = None" "walk (nested_env E) h th = Inr (h1, th')"
    and rest: "(case el of None \<Rightarrow> Inr (h1, RIf c th' None)
       | Some b \<Rightarrow> and_then (walk (nested_env E) h1 b) (\<lambda>(h2, b'). Inr (h2, RIf c th' (Some b')))) = Inr (h', w')"
    by (auto simp: and_then_eq_Inr)
  note again = "4.IH"(1) [OF th(2)]
  show ?case
  proof (cases el)
    case None
    with rest have "h' = h1" "w' = RIf c th' None" by simp_all
    with None again th(1) show ?thesis by simp
  next
    case (Some b)
    with rest obtain b' where b: "walk (nested_env E) h1 b = Inr (h', b')" "w' = RIf c th' (Some b')"
      by (auto simp: and_then_eq_Inr)
    show ?thesis using again "4.IH"(2) [OF Some b(1)] th b(2) by simp
  qed
next
  case (5 E h nm tg b)
  from "5.prems" obtain b' where b: "walk (nested_env E) h b = Inr (h', b')" "w' = RForEach b'" by (auto simp: and_then_eq_Inr)
  show ?case using "5.IH" [OF b(1)] b(2) by simp
next
  case (6 E h nm tg n b)
  from "6.prems" obtain b' where b: "walk (group_env E tg) h b = Inr (h', b')" "w' = RGroup n b'" by (auto simp: and_then_eq_Inr)
  show ?case using "6.IH" [OF b(1)] b(2) by simp
next
  case (7 E h nm tg b)
  from "7.prems" obtain b' where b: "walk (block_env E) h b = Inr (h', b')" "w' = RWeb b'" by (auto simp: and_then_eq_Inr)
  show ?case using "7.IH" [OF b(1)] b(2) by simp
next
  case (8 E h nm tg b)
  from "8.prems" obtain b' where b: "walk (block_env E) h b = Inr (h', b')" "w' = RApp b'" by (auto simp: and_then_eq_Inr)
  show ?case using "8.IH" [OF b(1)] b(2) by simp
qed (auto simp: and_then_eq_Inr)

lemma walk_flat:
  "walk E h ss = Inr (h', ss') \<Longrightarrow> flat ss' = flat ss"
  "walk_work E h nm tg w = Inr (h', w') \<Longrightarrow> flat_work w' = flat_work w"
proof (induction E h ss and E h nm tg w arbitrary: h' ss' and h' w' rule: walk_walk_work.induct)
  case (2 E h nm tg rv rp w ss)
  then show ?case by (auto simp: and_then_eq_Inr)
qed (auto simp: and_then_eq_Inr split: option.splits)

lemma walk_one:
  assumes "walk E h [st] = Inr (h', out)"
  obtains st' where "out = [st']" "rs_target st' = rs_target st" "rs_name st' = rs_name st" "rs_report st' = rs_report st"
    "sets_primary (rs_work st') = sets_primary (rs_work st)" "hides_steps (rs_work st') = hides_steps (rs_work st)"
    "\<And>m. rs_work st' = RInstall m \<longleftrightarrow> rs_work st = RInstall m"
    "\<And>t. rs_work st' = RSetPrimary t \<longleftrightarrow> rs_work st = RSetPrimary t"
    "\<And>installed k. note_top_level installed k st' = note_top_level installed k st"
    "\<And>p. primary_after p st' = primary_after p st"
proof -
  obtain nm tg rv rp w where st: "st = RStep nm tg rv rp w" by (cases st)
  with assms obtain h1 r w1 where "walk_work E h1 nm tg w = Inr (h', w1)" "out = [RStep nm tg r rp w1]"
    by (auto simp: and_then_eq_Inr)
  with st show ?thesis
    by (intro that [of "RStep nm tg r rp w1"]) (simp_all add: walk_work_shape lifecycle_by_shape)
qed

section \<open>Accepted scenarios are fixed points of the pass\<close>

fun set_targets :: "rwork \<Rightarrow> string list" where
  "set_targets (RSetPrimary t) = [t]"
| "set_targets _ = []"

fun installed_by :: "rwork \<Rightarrow> string list" where
  "installed_by (RInstall m) = [m]"
| "installed_by _ = []"

definition primary_in_force :: "string option \<Rightarrow> rstep list \<Rightarrow> string option" where
  "primary_in_force p ss = (case concat (map (\<lambda>st. set_targets (rs_work st)) ss) of [] \<Rightarrow> p | t # ts \<Rightarrow> Some (last (t # ts)))"

definition installs_in :: "rstep list \<Rightarrow> string list" where
  "installs_in ss = concat (map (\<lambda>st. installed_by (rs_work st)) ss)"

lemma primary_in_force_simps [simp]:
  "primary_in_force p [] = p"
  "primary_in_force p (st # ss) = primary_in_force (primary_after p st) ss"
proof -
  show "primary_in_force p [] = p" by (simp add: primary_in_force_def)
  show "primary_in_force p (st # ss) = primary_in_force (primary_after p st) ss"
    by (cases "concat (map (\<lambda>st. set_targets (rs_work st)) ss)"; cases "rs_work st")
      (simp_all add: primary_in_force_def primary_after_def del: concat_eq_Nil_conv)
qed

lemma installs_in_simps [simp]:
  "installs_in [] = []" "installs_in (st # ss) = installed_by (rs_work st) @ installs_in ss"
  by (simp_all add: installs_in_def)

lemma walk_top_same:
  "walk_top s p inst h ss = Inr (h', q, ss') \<Longrightarrow>
     length ss' = length ss \<and> map (\<lambda>st. sets_primary (rs_work st)) ss' = map (\<lambda>st. sets_primary (rs_work st)) ss \<and>
     walk_top s p inst h ss' = Inr (h', q, ss') \<and> q = primary_in_force p ss' \<and> flat ss' = flat ss"
proof (induction s p inst h ss arbitrary: h' q ss' rule: walk_top.induct)
  case (2 s p inst h st ss)
  from "2.prems" obtain h1 out inst' h2 ss1 where parts:
    "walk (env_for s Required p True None) h [st] = Inr (h1, out)" "note_top_level inst h1 st = Inr (inst', h2)"
    "walk_top s (primary_after p st) inst' h2 ss = Inr (h', q, ss1)" "ss' = out @ ss1"
    by (auto simp: and_then_eq_Inr)
  obtain st' where st': "out = [st']" "sets_primary (rs_work st') = sets_primary (rs_work st)"
    "note_top_level inst h1 st' = note_top_level inst h1 st" "primary_after p st' = primary_after p st"
    using walk_one [OF parts(1)] by metis
  have "flat [st'] = flat [st]" using walk_flat(1) [OF parts(1)] st'(1) by simp
  moreover have "flat (x # xs) \<longleftrightarrow> flat [x] \<and> flat xs" for x xs using flat_append [of "[x]" xs] by simp
  ultimately have "flat (st' # ss1) = flat (st # ss)" using "2.IH" [OF parts(3)] by metis
  then show ?case
    using "2.IH" [OF parts(3)] walk_again(1) [OF parts(1)] parts(2,4) st' by simp
qed simp

lemma walk_cleanup_same:
  "walk_cleanup s h rs = Inr (h', rs') \<Longrightarrow> walk_cleanup s h rs' = Inr (h', rs') \<and>
     list_all2 (\<lambda>r r'. flat (ce_steps r) = flat (ce_steps r')) rs rs'"
proof (induction s h rs arbitrary: h' rs' rule: walk_cleanup.induct)
  case (2 s h r rs)
  from "2.prems" obtain h1 b rs1 where parts:
    "walk (env_for s Required (ts_primary s) False None) h (ce_steps r) = Inr (h1, b)"
    "walk_cleanup s h1 rs = Inr (h', rs1)" "rs' = r\<lparr>ce_steps := b\<rparr> # rs1"
    by (auto simp: and_then_eq_Inr)
  show ?case using "2.IH" [OF parts(2)] walk_again(1) [OF parts(1)] walk_flat(1) [OF parts(1)] parts(3) by simp
qed simp

lemma walk_screens_same:
  "walk_screens s h es = Inr (h', es') \<Longrightarrow> walk_screens s h es' = Inr (h', es') \<and>
     list_all2 (\<lambda>e e'. flat (se_steps e) = flat (se_steps e')) es es'"
proof (induction s h es arbitrary: h' es' rule: walk_screens.induct)
  case (2 s h e es)
  from "2.prems" obtain r h1 b es1 where parts: "check_target (target_names s) AtScreen None False (se_target e) = Inr r"
    "walk (env_for s Optional (ts_primary s) False (se_target e)) h (se_steps e) = Inr (h1, b)"
    "se_condition e = None" "walk_screens s h1 es = Inr (h', es1)" "es' = e\<lparr>se_steps := b\<rparr> # es1"
    by (auto simp: and_then_eq_Inr)
  have ih: "walk_screens s h1 es1 = Inr (h', es1) \<and> list_all2 (\<lambda>e e'. flat (se_steps e) = flat (se_steps e')) es es1"
    using "2.IH" [OF parts(4)] .
  show ?case using ih walk_again(1) [OF parts(2)] walk_flat(1) [OF parts(2)] parts(1,3,5) by simp
qed simp

lemma walks_cong:
  assumes "\<And>m p tp e. env_for s m p tp e = env_for s' m p tp e" "target_names s = target_names s'"
    "ts_primary s = ts_primary s'"
  shows "walk_top s p inst h ss = walk_top s' p inst h ss" "walk_cleanup s h rs = walk_cleanup s' h rs"
    "walk_screens s h es = walk_screens s' h es"
proof -
  show "walk_top s p inst h ss = walk_top s' p inst h ss"
    by (induction ss arbitrary: p inst h) (simp_all add: assms(1) cong: sum.case_cong)
  show "walk_cleanup s h rs = walk_cleanup s' h rs"
    by (induction rs arbitrary: h) (simp_all add: assms(1,3))
  show "walk_screens s h es = walk_screens s' h es"
    by (induction es arbitrary: h) (simp_all add: assms)
qed

text \<open>Everything the pass checked, about its own result.\<close>

lemma checked_parts:
  assumes "check_target_requirements s = Inr s'"
  obtains h h1 h2 h3 where "check_device_groups s' = Inr ()" "check_primary_target s' = Inr ()"
    "walk_top s' (ts_primary s') [] False (ts_steps s') = Inr (h, ts_final s', ts_steps s')"
    "walk (env_for s' Required (ts_primary s') False None) h (ts_setup s') = Inr (h1, ts_setup s')"
    "walk_cleanup s' h1 (ts_cleanup s') = Inr (h2, ts_cleanup s')"
    "walk_screens s' h2 (ts_screens s') = Inr (h3, ts_screens s')"
    "each (check_target (target_names s') AtExpect (ts_final s') True) (ts_expect s') \<in> range Inr"
    "ts_targets s' = ts_targets s" "ts_primary s' = ts_primary s" "ts_installs s' = ts_installs s" "ts_expect s' = ts_expect s"
    "length (ts_steps s') = length (ts_steps s)" "ts_final s' = primary_in_force (ts_primary s) (ts_steps s')"
    "flat (ts_steps s) \<longleftrightarrow> flat (ts_steps s')" "flat (ts_setup s) \<longleftrightarrow> flat (ts_setup s')"
    "list_all2 (\<lambda>r r'. flat (ce_steps r) = flat (ce_steps r')) (ts_cleanup s) (ts_cleanup s')"
    "list_all2 (\<lambda>e e'. flat (se_steps e) = flat (se_steps e')) (ts_screens s) (ts_screens s')"
proof -
  from assms obtain h primary steps h1 setup1 h2 cleanup1 h3 screens rs where parts:
    "check_device_groups s = Inr ()" "check_primary_target s = Inr ()"
    "walk_top s (ts_primary s) [] False (ts_steps s) = Inr (h, primary, steps)"
    "walk (env_for s Required (ts_primary s) False None) h (ts_setup s) = Inr (h1, setup1)"
    "walk_cleanup s h1 (ts_cleanup s) = Inr (h2, cleanup1)" "walk_screens s h2 (ts_screens s) = Inr (h3, screens)"
    "each (check_target (target_names s) AtExpect primary True) (ts_expect s) = Inr rs"
    and s': "s' = s\<lparr>ts_steps := steps, ts_setup := setup1, ts_cleanup := cleanup1, ts_screens := screens, ts_final := primary\<rparr>"
    by (auto simp: check_target_requirements_def and_then_eq_Inr)
  have names: "target_names s' = target_names s" "device_groups s' = device_groups s" "later_targets s' = later_targets s"
    by (simp_all add: s' target_names_def device_groups_def later_targets_def Let_def cong: list.case_cong)
  have shape: "map (\<lambda>st. sets_primary (rs_work st)) steps = map (\<lambda>st. sets_primary (rs_work st)) (ts_steps s)"
    using walk_top_same [OF parts(3)] by simp
  have "list_ex (\<lambda>st. sets_primary (rs_work st)) xs = list_ex id (map (\<lambda>st. sets_primary (rs_work st)) xs)" for xs
    by (induction xs) simp_all
  then have "list_ex (\<lambda>st. sets_primary (rs_work st)) steps = list_ex (\<lambda>st. sets_primary (rs_work st)) (ts_steps s)"
    using shape by metis
  then have "lf_moves (lifecycle_of s') = lf_moves (lifecycle_of s)" by (simp add: lifecycle_of_def s')
  then have "lifecycle_of s' = lifecycle_of s" using names by (simp add: lifecycle_of_def)
  then have env: "env_for s m p tp e = env_for s' m p tp e" for m p tp e by (simp add: env_for_def s')
  note cong = walks_cong [OF env names(1) [symmetric]]
  have prim: "ts_primary s = ts_primary s'" by (simp add: s')
  note top = walk_top_same [OF parts(3)]
  have fields: "ts_steps s' = steps" "ts_setup s' = setup1" "ts_cleanup s' = cleanup1" "ts_screens s' = screens" "ts_final s' = primary"
    by (simp_all add: s')
  show ?thesis
  proof (rule that)
    show "check_device_groups s' = Inr ()" using parts(1) names by (simp add: check_device_groups_def s')
    show "check_primary_target s' = Inr ()" using parts(2) names(1) by (simp add: check_primary_target_def s' cong: option.case_cong)
    show "walk_top s' (ts_primary s') [] False (ts_steps s') = Inr (h, ts_final s', ts_steps s')"
      unfolding fields prim [symmetric] using top cong(1) [OF prim] by metis
    show "walk (env_for s' Required (ts_primary s') False None) h (ts_setup s') = Inr (h1, ts_setup s')"
      unfolding fields prim [symmetric] using walk_again(1) [OF parts(4)] env by metis
    show "walk_cleanup s' h1 (ts_cleanup s') = Inr (h2, ts_cleanup s')"
      unfolding fields using walk_cleanup_same [OF parts(5)] cong(2) [OF prim] by metis
    show "walk_screens s' h2 (ts_screens s') = Inr (h3, ts_screens s')"
      unfolding fields using walk_screens_same [OF parts(6)] cong(3) [OF prim] by metis
    show "each (check_target (target_names s') AtExpect (ts_final s') True) (ts_expect s') \<in> range Inr"
      using parts(7) names by (simp add: s')
  qed (use top walk_flat(1) [OF parts(4)] walk_cleanup_same [OF parts(5)] walk_screens_same [OF parts(6)] in
      \<open>simp_all add: s'\<close>)
qed

end
