(* ===== verification/Target_Walks.thy ===== *)
theory Target_Walks
  imports Target_Results
begin

text \<open>
  What one walk over a list of steps establishes: the target every step it lets the loop reach resolves
  to, the steps inside a \<open>web\<close> or \<open>app\<close> block, the primary in force at each top-level step and the
  members installed so far.
\<close>

section \<open>The steps of a scenario\<close>

text \<open>The steps the loop may route, those of \<open>if\<close> and \<open>forEach\<close> bodies included.\<close>

fun reach :: "rstep list \<Rightarrow> rstep list" and reach_work :: "rwork \<Rightarrow> rstep list" where
  "reach [] = []"
| "reach (RStep nm tg rv rp w # ss) = RStep nm tg rv rp w # reach_work w @ reach ss"
| "reach_work (RIf c th el) = reach th @ (case el of None \<Rightarrow> [] | Some b \<Rightarrow> reach b)"
| "reach_work (RForEach b) = reach b"
| "reach_work w = []"

text \<open>The steps inside \<open>web\<close> and \<open>app\<close> blocks, at any depth.\<close>

fun inside :: "bool \<Rightarrow> rstep list \<Rightarrow> rstep list" and inside_work :: "bool \<Rightarrow> rwork \<Rightarrow> rstep list" where
  "inside k [] = []"
| "inside k (RStep nm tg rv rp w # ss) = (if k then [RStep nm tg rv rp w] else []) @ inside_work k w @ inside k ss"
| "inside_work k (RIf c th el) = inside k th @ (case el of None \<Rightarrow> [] | Some b \<Rightarrow> inside k b)"
| "inside_work k (RForEach b) = inside k b"
| "inside_work k (RGroup n b) = inside k b"
| "inside_work k (RWeb b) = inside True b"
| "inside_work k (RApp b) = inside True b"
| "inside_work k w = []"

definition own_steps :: "target_scenario \<Rightarrow> rstep list" where
  "own_steps s = ts_steps s @ ts_setup s @ concat (map ce_steps (ts_cleanup s))"

definition routing_only :: "rstep \<Rightarrow> bool" where
  "routing_only st \<longleftrightarrow> sets_primary (rs_work st) \<or> hides_steps (rs_work st)"

definition settles :: "string list \<Rightarrow> string option \<Rightarrow> rstep \<Rightarrow> bool" where
  "settles known p st \<longleftrightarrow> routing_only st \<or>
     (case rs_target st of None \<Rightarrow> p \<noteq> None \<and> rs_resolved st = p | Some t \<Rightarrow> t \<in> set known \<and> rs_resolved st = None)"

lemma reach_append [simp]: "reach (xs @ ys) = reach xs @ reach ys"
  by (induction xs rule: list.induct) (simp, metis append_Cons append_assoc reach.simps(2) rstep.exhaust)

lemma reach_mem: "st \<in> set ss \<Longrightarrow> st \<in> set (reach ss)"
proof (induction ss)
  case (Cons x xs)
  then show ?case by (cases x) auto
qed simp

lemma inside_append [simp]: "inside k (xs @ ys) = inside k xs @ inside k ys"
  by (induction xs rule: list.induct) (simp, metis append_Cons append_assoc inside.simps(2) rstep.exhaust)

section \<open>What the walk establishes\<close>

lemma check_target_several:
  assumes "check_target known pl d required tg = Inr r" "card (set known) \<ge> 2"
  shows "(case tg of None \<Rightarrow> r = d \<and> (required \<longrightarrow> d \<noteq> None) | Some t \<Rightarrow> t \<in> set known \<and> r = None)"
  using assms by (auto simp: check_target_def Let_def split: option.splits if_splits)

lemma check_target_named: "check_target known pl d required (Some t) = Inr r \<Longrightarrow> t \<in> set known"
  by (cases known) (auto simp: check_target_def Let_def split: if_splits)

lemma walk_settled:
  "walk E h ss = Inr (h', ss') \<Longrightarrow> wk_mode E = Required \<Longrightarrow> wk_caller E = None \<Longrightarrow> card (set (lf_known (wk_facts E))) \<ge> 2
     \<Longrightarrow> st \<in> set (reach ss') \<Longrightarrow> settles (lf_known (wk_facts E)) (wk_primary E) st"
  "walk_work E h nm tg w = Inr (h', w') \<Longrightarrow> wk_mode E = Required \<Longrightarrow> wk_caller E = None \<Longrightarrow> card (set (lf_known (wk_facts E))) \<ge> 2
     \<Longrightarrow> st \<in> set (reach_work w') \<Longrightarrow> settles (lf_known (wk_facts E)) (wk_primary E) st"
proof (induction E h ss and E h nm tg w arbitrary: h' ss' and h' w' rule: walk_walk_work.induct)
  case (2 E h nm tg rv rp w ss)
  from "2.prems"(1) obtain h1 r h2 w1 ss1 where parts:
    "check_step_target (lf_known (wk_facts E)) (wk_mode E) (wk_primary E) (wk_caller E) (RStep nm tg rv rp w) = Inr r"
    "walk_work E h1 nm tg w = Inr (h2, w1)" "walk E h2 ss = Inr (h', ss1)" "ss' = RStep nm tg r rp w1 # ss1"
    by (auto simp: and_then_eq_Inr)
  have "settles (lf_known (wk_facts E)) (wk_primary E) (RStep nm tg r rp w1)"
    using parts(1) "2.prems"(2-4) walk_work_shape(1,2) [OF parts(2)] check_target_several
    by (fastforce simp: settles_def routing_only_def check_step_target_def split: option.splits if_splits)
  then show ?case using "2.IH"(1) [OF parts(2)] "2.IH"(2) [OF parts(3)] "2.prems" parts(4) by auto
qed (auto simp: and_then_eq_Inr nested_env_def split: option.splits)

lemma walk_inside:
  "walk E h ss = Inr (h', ss') \<Longrightarrow> (k \<Longrightarrow> wk_mode E = Forbidden \<and> \<not> wk_top E) \<Longrightarrow> st \<in> set (inside k ss')
     \<Longrightarrow> rs_resolved st = None \<and> rs_target st = None"
  "walk_work E h nm tg w = Inr (h', w') \<Longrightarrow> (k \<Longrightarrow> wk_mode E = Forbidden \<and> \<not> wk_top E) \<Longrightarrow> st \<in> set (inside_work k w')
     \<Longrightarrow> rs_resolved st = None \<and> rs_target st = None"
proof (induction E h ss and E h nm tg w arbitrary: h' ss' k and h' w' k rule: walk_walk_work.induct)
  case (2 E h nm tg rv rp w ss)
  from "2.prems"(1) obtain h1 r h2 w1 ss1 where parts: "check_lifecycle E h (RStep nm tg rv rp w) = Inr h1"
    "check_step_target (lf_known (wk_facts E)) (wk_mode E) (wk_primary E) (wk_caller E) (RStep nm tg rv rp w) = Inr r"
    "walk_work E h1 nm tg w = Inr (h2, w1)" "walk E h2 ss = Inr (h', ss1)" "ss' = RStep nm tg r rp w1 # ss1"
    by (auto simp: and_then_eq_Inr)
  have "k \<Longrightarrow> r = None \<and> tg = None"
    using parts(1,2) "2.prems"(2) by (cases w) (auto simp: check_lifecycle_def check_set_primary_def check_step_target_def and_then_eq_Inr Let_def)
  then show ?case using "2.IH"(1) [OF parts(3) "2.prems"(2)] "2.IH"(2) [OF parts(4) "2.prems"(2)] "2.prems"(3) parts(5) by auto
next
  case (4 E h nm tg c th el)
  have k: "k \<Longrightarrow> wk_mode (nested_env E) = Forbidden \<and> \<not> wk_top (nested_env E)"
    using "4.prems"(2) by (simp add: nested_env_def)
  from "4.prems"(1) obtain h1 th' where th: "walk (nested_env E) h th = Inr (h1, th')"
    and rest: "(case el of None \<Rightarrow> Inr (h1, RIf c th' None)
       | Some b \<Rightarrow> and_then (walk (nested_env E) h1 b) (\<lambda>(h2, b'). Inr (h2, RIf c th' (Some b')))) = Inr (h', w')"
    by (auto simp: and_then_eq_Inr)
  note in_then = "4.IH"(1) [OF th k]
  show ?case
  proof (cases el)
    case None
    with rest have "w' = RIf c th' None" by simp
    with "4.prems"(3) have "st \<in> set (inside k th')" by simp
    then show ?thesis using in_then by blast
  next
    case (Some b)
    with rest obtain b' where b: "walk (nested_env E) h1 b = Inr (h', b')" "w' = RIf c th' (Some b')"
      by (auto simp: and_then_eq_Inr)
    note in_else = "4.IH"(2) [OF Some b(1) k]
    from "4.prems"(3) have "st \<in> set (inside k th') \<or> st \<in> set (inside k b')" unfolding b(2) by simp
    then show ?thesis using in_then in_else by blast
  qed
next
  case (5 E h nm tg b)
  from "5.prems"(1) obtain b' where b: "walk (nested_env E) h b = Inr (h', b')" "w' = RForEach b'" by (auto simp: and_then_eq_Inr)
  have k: "k \<Longrightarrow> wk_mode (nested_env E) = Forbidden \<and> \<not> wk_top (nested_env E)"
    using "5.prems"(2) by (simp add: nested_env_def group_env_def)
  from "5.prems"(3) have "st \<in> set (inside k b')" unfolding b(2) by simp
  then show ?case using "5.IH" [OF b(1) k] by blast
next
  case (6 E h nm tg n b)
  from "6.prems"(1) obtain b' where b: "walk (group_env E tg) h b = Inr (h', b')" "w' = RGroup n b'" by (auto simp: and_then_eq_Inr)
  have k: "k \<Longrightarrow> wk_mode (group_env E tg) = Forbidden \<and> \<not> wk_top (group_env E tg)"
    using "6.prems"(2) by (simp add: nested_env_def group_env_def)
  from "6.prems"(3) have "st \<in> set (inside k b')" unfolding b(2) by simp
  then show ?case using "6.IH" [OF b(1) k] by blast
next
  case (7 E h nm tg b)
  from "7.prems"(1) obtain b' where b: "walk (block_env E) h b = Inr (h', b')" "w' = RWeb b'" by (auto simp: and_then_eq_Inr)
  show ?case using "7.IH" [OF b(1), of True] b(2) "7.prems"(3) by (simp add: block_env_def)
next
  case (8 E h nm tg b)
  from "8.prems"(1) obtain b' where b: "walk (block_env E) h b = Inr (h', b')" "w' = RApp b'" by (auto simp: and_then_eq_Inr)
  show ?case using "8.IH" [OF b(1), of True] b(2) "8.prems"(3) by (simp add: block_env_def)
qed (auto simp: and_then_eq_Inr)

lemma walk_hidden:
  "walk E h ss = Inr (h', ss') \<Longrightarrow> \<not> wk_top E \<Longrightarrow> h' = h"
  "walk_work E h nm tg w = Inr (h', w') \<Longrightarrow> \<not> wk_top E \<or> \<not> is_group w \<Longrightarrow> h' = h"
proof (induction E h ss and E h nm tg w arbitrary: h' ss' and h' w' rule: walk_walk_work.induct)
  case (2 E h nm tg rv rp w ss)
  from "2.prems"(1) obtain h1 h2 w1 ss1 where parts: "check_lifecycle E h (RStep nm tg rv rp w) = Inr h1"
    "walk_work E h1 nm tg w = Inr (h2, w1)" "walk E h2 ss = Inr (h', ss1)"
    by (auto simp: and_then_eq_Inr)
  have "h1 = h" using parts(1) "2.prems"(2) by (auto simp: check_lifecycle_def Let_def and_then_eq_Inr split: rwork.splits)
  then show ?case using "2.IH"(1) [OF parts(2)] "2.IH"(2) [OF parts(3)] "2.prems"(2) by simp
next
  case (4 E h nm tg c th el)
  from "4.prems"(1) obtain h1 th' where th: "walk (nested_env E) h th = Inr (h1, th')"
    and rest: "(case el of None \<Rightarrow> Inr (h1, RIf c th' None)
       | Some b \<Rightarrow> and_then (walk (nested_env E) h1 b) (\<lambda>(h2, b'). Inr (h2, RIf c th' (Some b')))) = Inr (h', w')"
    by (auto simp: and_then_eq_Inr)
  have low: "\<not> wk_top (nested_env E)" by (simp add: nested_env_def)
  have "h1 = h" by (rule "4.IH"(1) [OF th low])
  show ?case
  proof (cases el)
    case None
    then show ?thesis using rest \<open>h1 = h\<close> by simp
  next
    case (Some b)
    with rest obtain b' where b: "walk (nested_env E) h1 b = Inr (h', b')" by (auto simp: and_then_eq_Inr)
    show ?thesis using "4.IH"(2) [OF Some b low] \<open>h1 = h\<close> by simp
  qed
qed (auto simp: and_then_eq_Inr nested_env_def group_env_def block_env_def is_group_def split: option.splits)

lemma walk_targets:
  "walk E h ss = Inr (h', ss') \<Longrightarrow> map rs_target (reach ss') = map rs_target (reach ss)"
  "walk_work E h nm tg w = Inr (h', w') \<Longrightarrow> map rs_target (reach_work w') = map rs_target (reach_work w)"
proof (induction E h ss and E h nm tg w arbitrary: h' ss' and h' w' rule: walk_walk_work.induct)
  case (2 E h nm tg rv rp w ss)
  then show ?case by (auto simp: and_then_eq_Inr)
qed (auto simp: and_then_eq_Inr split: option.splits)

section \<open>The top level\<close>

lemma top_step_hidden:
  assumes "walk E h [st] = Inr (h', out)" "\<not> h" "\<not> hides_steps (rs_work st)"
  shows "\<not> h'"
proof -
  obtain nm tg rv rp w where st: "st = RStep nm tg rv rp w" by (cases st)
  with assms(1) obtain h1 w1 where parts: "check_lifecycle E h st = Inr h1" "walk_work E h1 nm tg w = Inr (h', w1)"
    by (auto simp: and_then_eq_Inr)
  have w: "\<not> is_group w" using assms(3) st by (cases w) (simp_all add: is_group_def)
  with parts(1) st assms(2) have "\<not> h1" by (auto simp: check_lifecycle_def Let_def and_then_eq_Inr split: rwork.splits)
  then show ?thesis using walk_hidden(2) [OF parts(2)] w by simp
qed

lemma walk_top_each:
  "walk_top s p inst h ss = Inr (h', q, ss') \<Longrightarrow> i < length ss' \<Longrightarrow>
     \<exists>h1 h2. walk (env_for s Required (primary_in_force p (take i ss')) True None) h1 [ss' ! i] = Inr (h2, [ss' ! i]) \<and>
       (\<not> h \<longrightarrow> list_all (\<lambda>st. \<not> hides_steps (rs_work st)) ss' \<longrightarrow> \<not> h1)"
proof (induction s p inst h ss arbitrary: h' q ss' i rule: walk_top.induct)
  case (2 s p inst h st ss)
  from "2.prems"(1) obtain h1 out inst' h2 ss1 where parts:
    "walk (env_for s Required p True None) h [st] = Inr (h1, out)" "note_top_level inst h1 st = Inr (inst', h2)"
    "walk_top s (primary_after p st) inst' h2 ss = Inr (h', q, ss1)" "ss' = out @ ss1"
    by (auto simp: and_then_eq_Inr)
  obtain st' where st': "out = [st']" "hides_steps (rs_work st') = hides_steps (rs_work st)"
    "primary_after p st' = primary_after p st"
    using walk_one [OF parts(1)] by metis
  show ?case
  proof (cases i)
    case 0
    with walk_again(1) [OF parts(1)] parts(4) st'(1) show ?thesis by auto
  next
    case (Suc j)
    with "2.prems"(2) parts(4) st'(1) have j: "j < length ss1" by simp
    have "\<not> h \<Longrightarrow> \<not> hides_steps (rs_work st') \<Longrightarrow> \<not> h2"
      using top_step_hidden [OF parts(1)] parts(2) st'(2)
      by (auto simp: note_top_level_def Let_def split: rwork.splits if_splits)
    then show ?thesis using "2.IH" [OF parts(3) j] parts(4) st' Suc by auto
  qed
qed simp

lemma walk_top_installs:
  "walk_top s p inst h ss = Inr (h', q, ss') \<Longrightarrow> distinct (installs_in ss') \<and> set (installs_in ss') \<inter> set inst = {}"
proof (induction s p inst h ss arbitrary: h' q ss' rule: walk_top.induct)
  case (2 s p inst h st ss)
  from "2.prems" obtain h1 out inst' h2 ss1 where parts:
    "walk (env_for s Required p True None) h [st] = Inr (h1, out)" "note_top_level inst h1 st = Inr (inst', h2)"
    "walk_top s (primary_after p st) inst' h2 ss = Inr (h', q, ss1)" "ss' = out @ ss1"
    by (auto simp: and_then_eq_Inr)
  obtain st' where st': "out = [st']" "note_top_level inst h1 st' = note_top_level inst h1 st"
    using walk_one [OF parts(1)] by metis
  show ?case using "2.IH" [OF parts(3)] parts(2,4) st'
    by (cases "rs_work st'") (auto simp: note_top_level_def Let_def split: if_splits)
qed simp

lemma set_primary_declared:
  assumes "walk E h [st] = Inr (h', out)" "rs_work st = RSetPrimary t"
  shows "t \<in> set (lf_known (wk_facts E))"
proof -
  have "check_lifecycle E h st \<in> range Inr" using assms(1) by (cases st) (auto simp: and_then_eq_Inr)
  then have "check_set_primary E t st \<in> range Inr" using assms(2)
    by (cases "check_set_primary E t st") (auto simp: check_lifecycle_def Let_def)
  then obtain r where "check_target (lf_known (wk_facts E)) (AtSetPrimary (rs_name st) (rs_report st)) None True (Some t) = Inr r"
    by (auto simp: check_set_primary_def Let_def and_then_eq_Inr)
  then show ?thesis by (rule check_target_named)
qed

lemma primary_in_force_cases:
  "primary_in_force p ss = p \<or> (\<exists>i<length ss. \<exists>t. rs_work (ss ! i) = RSetPrimary t \<and> primary_in_force p ss = Some t)"
proof (induction ss arbitrary: p)
  case (Cons st ss)
  have after: "primary_after p st = p \<or> (\<exists>t. rs_work st = RSetPrimary t \<and> primary_after p st = Some t)"
    by (cases "rs_work st") (simp_all add: primary_after_def)
  show ?case using Cons.IH [of "primary_after p st"]
  proof
    assume "primary_in_force (primary_after p st) ss = primary_after p st"
    with after show ?thesis by (metis length_greater_0_conv list.distinct(1) nth_Cons_0 primary_in_force_simps(2))
  next
    assume "\<exists>i<length ss. \<exists>t. rs_work (ss ! i) = RSetPrimary t \<and> primary_in_force (primary_after p st) ss = Some t"
    then show ?thesis by (metis Suc_less_eq length_Cons nth_Cons_Suc primary_in_force_simps(2))
  qed
qed simp

lemma lifecycle_simps [simp]:
  "lf_known (lifecycle_of s) = target_names s" "lf_later (lifecycle_of s) = later_targets s"
  "lf_groups (lifecycle_of s) = device_groups s"
  by (simp_all add: lifecycle_of_def)

lemma env_for_simps [simp]:
  "wk_mode (env_for s m p tp e) = m" "wk_caller (env_for s m p tp e) = None" "wk_primary (env_for s m p tp e) = p"
  "wk_top (env_for s m p tp e) = tp" "wk_entry (env_for s m p tp e) = e" "wk_facts (env_for s m p tp e) = lifecycle_of s"
  by (simp_all add: env_for_def)

end
