(* ===== verification/Target_Properties.thy ===== *)
theory Target_Properties
  imports Target_Walks
begin

text \<open>
  The properties of the pass over a scenario's targets: the steps it lets a run reach all know one
  declared target, an omitted target follows \<open>setPrimaryTarget\<close>, the installs find a later member of the
  device's group, each once, the pass leaves its own result alone, and folded hooks run on the target
  whose configuration carries them.
\<close>

section \<open>Validation as a whole\<close>

lemma each_fixed: "(\<And>x. x \<in> set xs \<Longrightarrow> f x = Inr x) \<Longrightarrow> each f xs = Inr xs"
  by (induction xs) simp_all

lemma each_result: "each f xs = Inr ys \<Longrightarrow> y \<in> set ys \<Longrightarrow> \<exists>x\<in>set xs. f x = Inr y"
  by (induction xs arbitrary: ys) (auto simp: and_then_eq_Inr)

definition flat_scenario :: "target_scenario \<Rightarrow> bool" where
  "flat_scenario s \<longleftrightarrow> flat (ts_steps s) \<and> flat (ts_setup s) \<and> (\<forall>r\<in>set (ts_cleanup s). flat (ce_steps r)) \<and>
     (\<forall>e\<in>set (ts_screens s). flat (se_steps e))"

lemma expand_flat_scenario: "flat_scenario s \<Longrightarrow> expand_target_groups s = Inr s"
proof -
  assume flat: "flat_scenario s"
  have "each (\<lambda>r. and_then (expand_groups None False (ce_steps r)) (\<lambda>b. Inr (r\<lparr>ce_steps := b\<rparr>))) (ts_cleanup s) = Inr (ts_cleanup s)"
    using flat by (intro each_fixed) (simp add: flat_scenario_def flat_expand)
  moreover have "each (\<lambda>e. and_then (expand_groups None False (se_steps e)) (\<lambda>b. Inr (e\<lparr>se_steps := b\<rparr>))) (ts_screens s) = Inr (ts_screens s)"
    using flat by (intro each_fixed) (simp add: flat_scenario_def flat_expand)
  ultimately show ?thesis using flat by (simp add: expand_target_groups_def flat_scenario_def flat_expand)
qed

lemma expand_gives_flat:
  assumes "expand_target_groups s = Inr e"
  shows "flat_scenario e" "ts_targets e = ts_targets s" "ts_primary e = ts_primary s" "ts_installs e = ts_installs s"
    "ts_expect e = ts_expect s" "ts_inherit e = ts_inherit s"
proof -
  from assms obtain steps first rules screens where parts: "expand_groups None False (ts_steps s) = Inr steps"
    "expand_groups None False (ts_setup s) = Inr first"
    "each (\<lambda>r. and_then (expand_groups None False (ce_steps r)) (\<lambda>b. Inr (r\<lparr>ce_steps := b\<rparr>))) (ts_cleanup s) = Inr rules"
    "each (\<lambda>e. and_then (expand_groups None False (se_steps e)) (\<lambda>b. Inr (e\<lparr>se_steps := b\<rparr>))) (ts_screens s) = Inr screens"
    "e = s\<lparr>ts_steps := steps, ts_setup := first, ts_cleanup := rules, ts_screens := screens\<rparr>"
    by (auto simp: expand_target_groups_def and_then_eq_Inr)
  have "flat (ce_steps r)" if "r \<in> set rules" for r
    using each_result [OF parts(3) that] expanded_flat(1) by (auto simp: and_then_eq_Inr)
  moreover have "flat (se_steps q)" if "q \<in> set screens" for q
    using each_result [OF parts(4) that] expanded_flat(1) by (auto simp: and_then_eq_Inr)
  ultimately show "flat_scenario e" using expanded_flat(1) [OF parts(1)] expanded_flat(1) [OF parts(2)] parts(5)
    by (simp add: flat_scenario_def)
qed (use assms in \<open>auto simp: expand_target_groups_def and_then_eq_Inr\<close>)

lemma flat_kept:
  assumes "check_target_requirements e = Inr s'" "flat_scenario e"
  shows "flat_scenario s'"
proof -
  from assms(1) have "flat (ts_steps s')" "flat (ts_setup s')"
    "list_all2 (\<lambda>r r'. flat (ce_steps r) = flat (ce_steps r')) (ts_cleanup e) (ts_cleanup s')"
    "list_all2 (\<lambda>e e'. flat (se_steps e) = flat (se_steps e')) (ts_screens e) (ts_screens s')"
    using assms(2) by (auto simp: flat_scenario_def elim!: checked_parts)
  then show ?thesis using assms(2) unfolding flat_scenario_def list_all2_conv_all_nth all_set_conv_all_nth by metis
qed

lemma check_fixed:
  assumes "check_target_requirements e = Inr s'"
  shows "check_target_requirements s' = Inr s'"
  using assms
  by (rule checked_parts) (auto simp: check_target_requirements_def)

lemma validated:
  assumes "validate_targets s = Inr s'"
  shows "check_target_requirements s' = Inr s'" "flat_scenario s'" "target_names s' = target_names s"
    "device_groups s' = device_groups s" "later_targets s' = later_targets s" "ts_primary s' = ts_primary s"
    "ts_expect s' = ts_expect s" "ts_targets s' = ts_targets s" "ts_installs s' = ts_installs s"
    "ts_inherit s' = ts_inherit s"
proof -
  from assms obtain e where e: "expand_target_groups s = Inr e" "check_target_requirements e = Inr s'"
    by (auto simp: validate_targets_def and_then_eq_Inr)
  note flat = expand_gives_flat [OF e(1)]
  show "check_target_requirements s' = Inr s'" by (rule check_fixed [OF e(2)])
  show "flat_scenario s'" by (rule flat_kept [OF e(2) flat(1)])
  have same: "ts_targets s' = ts_targets s" "ts_installs s' = ts_installs s" "ts_primary s' = ts_primary s" "ts_expect s' = ts_expect s"
    using e(2) flat by (auto elim!: checked_parts)
  show "ts_inherit s' = ts_inherit s" using e(2) flat by (auto simp: check_target_requirements_def and_then_eq_Inr)
  show "target_names s' = target_names s" "device_groups s' = device_groups s" "later_targets s' = later_targets s"
    using same(1,2) by (simp_all add: target_names_def device_groups_def later_targets_def cong: list.case_cong)
  show "ts_primary s' = ts_primary s" "ts_expect s' = ts_expect s" "ts_targets s' = ts_targets s" "ts_installs s' = ts_installs s"
    by (rule same)+
qed

text \<open>C40: The pass over the targets of a scenario leaves its own result alone.  A scenario it accepted is
  accepted again wherever the pass is repeated (after setups are applied, components expanded or hooks
  folded), with the same resolved target on every step and the same final primary.
\<close>
theorem validating_again_changes_nothing:
  assumes "validate_targets s = Inr s'"
  shows "validate_targets s' = Inr s'"
  unfolding validate_targets_def expand_flat_scenario [OF validated(2) [OF assms]]
  by (simp add: validated(1) [OF assms])

definition bare_tap :: "string option \<Rightarrow> rstep" where
  "bare_tap tg = RStep None tg None None RAction"

definition two_apps :: target_scenario where
  "two_apps = \<lparr>ts_targets = [Sharing [''a'', ''b''], Bare ''c''], ts_primary = Some ''a'', ts_installs = [], ts_inherit = True,
     ts_steps = [bare_tap None, RStep (Some ''group'') (Some ''c'') None None (RSteps [bare_tap None, RStep None None None None (RIf None [bare_tap (Some ''a'')] None)]),
       RStep None None None None (RInstall ''b''), RStep None None None None (RSetPrimary ''b''),
       RStep None None None None (RForEach [bare_tap None]), RStep None (Some ''c'') None None (RWeb [bare_tap None])],
     ts_setup = [bare_tap (Some ''c'')], ts_cleanup = [\<lparr>ce_on = ''always'', ce_steps = [bare_tap None]\<rparr>],
     ts_screens = [\<lparr>se_target = Some ''c'', se_condition = None, se_steps = [bare_tap None]\<rparr>],
     ts_expect = [None, Some ''c''], ts_final = None\<rparr>"


definition checked :: "target_scenario \<Rightarrow> target_scenario" where
  "checked s = (case validate_targets s of Inr s' \<Rightarrow> s' | Inl e \<Rightarrow> s)"

lemma two_apps_accepted: "validate_targets two_apps = Inr (checked two_apps)"
  by code_simp

theorem validating_again_changes_nothing_witness: "validate_targets (checked two_apps) = Inr (checked two_apps)"
  by (rule validating_again_changes_nothing [OF two_apps_accepted])

section \<open>The target of a step\<close>

lemma declared_primary:
  assumes "check_primary_target s = Inr ()" "ts_primary s = Some p"
  shows "p \<in> set (target_names s)"
  using assms by (auto simp: check_primary_target_def split: list.splits)

lemma primary_declared:
  assumes ok: "check_target_requirements s = Inr s" and p: "primary_in_force (ts_primary s) (take i (ts_steps s)) = Some t"
  shows "t \<in> set (target_names s)"
proof -
  from ok obtain h where parts: "check_primary_target s = Inr ()"
    "walk_top s (ts_primary s) [] False (ts_steps s) = Inr (h, ts_final s, ts_steps s)"
    by (auto elim!: checked_parts)
  from primary_in_force_cases [of "ts_primary s" "take i (ts_steps s)"] show ?thesis
  proof
    assume "primary_in_force (ts_primary s) (take i (ts_steps s)) = ts_primary s"
    with p show ?thesis using declared_primary [OF parts(1)] by simp
  next
    assume "\<exists>j<length (take i (ts_steps s)). \<exists>u. rs_work (take i (ts_steps s) ! j) = RSetPrimary u \<and>
       primary_in_force (ts_primary s) (take i (ts_steps s)) = Some u"
    with p obtain j where j: "j < length (ts_steps s)" "rs_work (ts_steps s ! j) = RSetPrimary t" by auto
    from walk_top_each [OF parts(2) j(1)] obtain h1 h2 where
      "walk (env_for s Required (primary_in_force (ts_primary s) (take j (ts_steps s))) True None) h1 [ts_steps s ! j] = Inr (h2, [ts_steps s ! j])"
      by blast
    from set_primary_declared [OF this j(2)] show ?thesis by simp
  qed
qed

lemma settled_resolved:
  assumes "settles known p st" "\<And>t. p = Some t \<Longrightarrow> t \<in> set known" "[] \<notin> set known"
  shows "routing_only st \<or> (\<exists>t\<in>set known. resolved_target st = Some t)"
  using assms by (auto simp: settles_def resolved_target_def either_def split: option.splits)

lemma cleanup_walked:
  "walk_cleanup s h rs = Inr (h', rs) \<Longrightarrow> r \<in> set rs \<Longrightarrow>
     \<exists>h1 h2. walk (env_for s Required (ts_primary s) False None) h1 (ce_steps r) = Inr (h2, ce_steps r)"
proof (induction rs arbitrary: h)
  case (Cons x rs)
  from Cons.prems(1) obtain h1 b where parts: "walk (env_for s Required (ts_primary s) False None) h (ce_steps x) = Inr (h1, b)"
    "walk_cleanup s h1 rs = Inr (h', rs)" "x = x\<lparr>ce_steps := b\<rparr>"
    by (auto simp: and_then_eq_Inr)
  have "b = ce_steps x" using arg_cong [OF parts(3), of ce_steps] by simp
  then show ?case using Cons.IH [OF parts(2)] Cons.prems(2) parts(1) by auto
qed simp

lemma screens_walked:
  "walk_screens s h es = Inr (h', es) \<Longrightarrow> e \<in> set es \<Longrightarrow>
     \<exists>h1 h2. walk (env_for s Optional (ts_primary s) False (se_target e)) h1 (se_steps e) = Inr (h2, se_steps e)"
proof (induction es arbitrary: h)
  case (Cons x es)
  from Cons.prems(1) obtain h1 b where parts:
    "walk (env_for s Optional (ts_primary s) False (se_target x)) h (se_steps x) = Inr (h1, b)"
    "walk_screens s h1 es = Inr (h', es)" "x = x\<lparr>se_steps := b\<rparr>"
    by (auto simp: and_then_eq_Inr)
  have "b = se_steps x" using arg_cong [OF parts(3), of se_steps] by simp
  then show ?case using Cons.IH [OF parts(2)] Cons.prems(2) parts(1) by auto
qed simp

text \<open>Every list of the scenario, as the walk saw it.\<close>

lemma own_step_walked:
  assumes ok: "check_target_requirements s = Inr s" and st: "x \<in> set (own_steps s)"
  obtains m p tp h1 h2 where "walk (env_for s Required (primary_in_force (ts_primary s) (take m (ts_steps s))) tp None) h1 p = Inr (h2, p)"
    "x \<in> set p"
proof -
  from ok obtain h h1 h2 h3 where parts:
    "walk_top s (ts_primary s) [] False (ts_steps s) = Inr (h, ts_final s, ts_steps s)"
    "walk (env_for s Required (ts_primary s) False None) h (ts_setup s) = Inr (h1, ts_setup s)"
    "walk_cleanup s h1 (ts_cleanup s) = Inr (h2, ts_cleanup s)"
    by (auto elim!: checked_parts)
  from st consider "x \<in> set (ts_steps s)" | "x \<in> set (ts_setup s)" | r where "r \<in> set (ts_cleanup s)" "x \<in> set (ce_steps r)"
    by (auto simp: own_steps_def)
  then show ?thesis
  proof cases
    case 1
    then obtain i where "i < length (ts_steps s)" "x = ts_steps s ! i" by (auto simp: in_set_conv_nth)
    with walk_top_each [OF parts(1)] show ?thesis by (metis list.set_intros(1) that)
  next
    case 2
    with parts(2) show ?thesis by (intro that [of 0]) simp_all
  next
    case 3
    with cleanup_walked [OF parts(3)] obtain k1 k2 where
      "walk (env_for s Required (ts_primary s) False None) k1 (ce_steps r) = Inr (k2, ce_steps r)" by blast
    with 3 show ?thesis by (intro that [of 0]) simp_all
  qed
qed

lemma reach_some: "st \<in> set (reach ss) \<longleftrightarrow> (\<exists>x\<in>set ss. st \<in> set (reach [x]))"
proof (induction ss)
  case (Cons x xs)
  show ?case using Cons.IH reach_append [of "[x]" xs] by auto
qed simp

lemma inside_some: "st \<in> set (inside k ss) \<longleftrightarrow> (\<exists>x\<in>set ss. st \<in> set (inside k [x]))"
proof (induction ss)
  case (Cons x xs)
  show ?case using Cons.IH inside_append [of k "[x]" xs] by auto
qed simp

lemma expect_declared:
  assumes "each (check_target known AtExpect p True) es \<in> range Inr" "card (set known) \<ge> 2" "e \<in> set es"
  shows "(case e of None \<Rightarrow> p \<noteq> None | Some t \<Rightarrow> t \<in> set known)"
proof -
  obtain r where "check_target known AtExpect p True e = Inr r"
    using assms(1,3) by (induction es) (auto simp: and_then_eq_Inr image_iff)
  from check_target_several [OF this assms(2)] show ?thesis by (simp split: option.splits)
qed

text \<open>C6: In an accepted scenario that declares two or more targets, every step of its \<open>steps\<close>, \<open>setup\<close> and
  \<open>cleanup\<close>, those in \<open>if\<close> and \<open>forEach\<close> bodies included, resolves to a declared target unless it is a
  \<open>setPrimaryTarget\<close> or waits for a component to be put in; so does every \<open>expect\<close> entry, an omitted one
  through the final primary.  A step inside a \<open>web\<close> or \<open>app\<close> block names and resolves to none.
\<close>
theorem accepted_steps_know_their_target:
  assumes ok: "validate_targets s = Inr s'" and several: "card (set (target_names s)) \<ge> 2"
    and named: "[] \<notin> set (target_names s)"
  shows "(\<forall>st\<in>set (reach (own_steps s')). routing_only st \<or> (\<exists>t\<in>set (target_names s). resolved_target st = Some t)) \<and>
    (\<forall>st\<in>set (inside False (own_steps s' @ concat (map se_steps (ts_screens s')))). rs_target st = None \<and> rs_resolved st = None) \<and>
    (\<forall>e\<in>set (ts_expect s'). \<exists>t\<in>set (target_names s). either e (final_primary s') = Some t)"
proof (intro conjI ballI)
  note valid = validated [OF ok]
  note parts = valid(1)
  have known: "t \<in> set (target_names s)" if "primary_in_force (ts_primary s') (take i (ts_steps s')) = Some t" for i t
    using primary_declared [OF valid(1) that] valid(3) by simp
  {
    fix st assume "st \<in> set (reach (own_steps s'))"
    then obtain x where x: "x \<in> set (own_steps s')" "st \<in> set (reach [x])" using reach_some by blast
    then obtain m p tp h1 h2 where w:
      "walk (env_for s' Required (primary_in_force (ts_primary s') (take m (ts_steps s'))) tp None) h1 p = Inr (h2, p)" "x \<in> set p"
      using own_step_walked [OF valid(1)] by metis
    then have "st \<in> set (reach p)" using x(2) reach_some by blast
    with walk_settled(1) [OF w(1)] several valid(3)
    have "settles (target_names s) (primary_in_force (ts_primary s') (take m (ts_steps s'))) st" by simp
    then show "routing_only st \<or> (\<exists>t\<in>set (target_names s). resolved_target st = Some t)"
      using known named by (rule settled_resolved)
  next
    fix st assume "st \<in> set (inside False (own_steps s' @ concat (map se_steps (ts_screens s'))))"
    then obtain y where "y \<in> set (own_steps s' @ concat (map se_steps (ts_screens s')))" "st \<in> set (inside False [y])"
      using inside_some by blast
    then consider x where "x \<in> set (own_steps s')" "st \<in> set (inside False [x])"
      | e x where "e \<in> set (ts_screens s')" "x \<in> set (se_steps e)" "st \<in> set (inside False [x])"
      by auto
    then obtain E h1 h2 p where w: "walk E h1 p = Inr (h2, p)" "st \<in> set (inside False p)"
    proof cases
      case 1
      with own_step_walked [OF valid(1)] that inside_some show ?thesis by metis
    next
      case 2
      from parts obtain k h3 where "walk_screens s' k (ts_screens s') = Inr (h3, ts_screens s')" by (auto elim!: checked_parts)
      with screens_walked 2(1) obtain k1 k2 where
        "walk (env_for s' Optional (ts_primary s') False (se_target e)) k1 (se_steps e) = Inr (k2, se_steps e)" by blast
      with 2 that inside_some show ?thesis by metis
    qed
    from walk_inside(1) [OF w(1) _ w(2)] show "rs_target st = None" "rs_resolved st = None" by simp_all
  next
    fix e assume e: "e \<in> set (ts_expect s')"
    from parts have each: "each (check_target (target_names s') AtExpect (ts_final s') True) (ts_expect s') \<in> range Inr"
      and final: "ts_final s' = primary_in_force (ts_primary s') (ts_steps s')"
      by (auto elim!: checked_parts)
    have p: "t \<in> set (target_names s)" if "ts_final s' = Some t" for t
      using known [of "length (ts_steps s')" t] final that by simp
    have "(case e of None \<Rightarrow> ts_final s' \<noteq> None | Some t \<Rightarrow> t \<in> set (target_names s))"
      using expect_declared [OF each _ e] several unfolding valid(3) by simp
    then show "\<exists>t\<in>set (target_names s). either e (final_primary s') = Some t"
      using p named by (auto simp: either_def final_primary_def split: option.splits)
  }
qed

theorem accepted_steps_know_their_target_witness:
  "\<exists>t\<in>set (target_names two_apps). resolved_target (ts_steps (checked two_apps) ! 0) = Some t"
proof -
  let ?st = "ts_steps (checked two_apps) ! 0"
  have facts: "card (set (target_names two_apps)) \<ge> 2" "[] \<notin> set (target_names two_apps)"
    by (simp_all add: two_apps_def target_names_def device_groups_def)
  have st: "?st \<in> set (reach (own_steps (checked two_apps)))" "\<not> routing_only ?st" by code_simp+
  from accepted_steps_know_their_target [OF two_apps_accepted facts] st show ?thesis by blast
qed

section \<open>The primary in force\<close>

text \<open>C9: A top-level step of an accepted scenario that declares two or more targets, and every step of its
  conditional and loop bodies, that names no target resolves to the argument of the last
  \<open>setPrimaryTarget\<close> before it, or to \<open>primaryTarget\<close> when there is none; the final primary is the one
  after the last step.  No accepted step waits for a primary that was never set.
\<close>
theorem omitted_targets_follow_the_primary:
  assumes ok: "validate_targets s = Inr s'" and several: "card (set (target_names s)) \<ge> 2"
    and i: "i < length (ts_steps s')" and st: "st \<in> set (reach [ts_steps s' ! i])"
    and omitted: "rs_target st = None" "\<not> routing_only st"
  shows "rs_resolved st = primary_in_force (ts_primary s) (take i (ts_steps s')) \<and> rs_resolved st \<noteq> None \<and>
    ts_final s' = primary_in_force (ts_primary s) (ts_steps s')"
proof -
  note valid = validated [OF ok]
  from valid(1) obtain h where top: "walk_top s' (ts_primary s') [] False (ts_steps s') = Inr (h, ts_final s', ts_steps s')"
    and final: "ts_final s' = primary_in_force (ts_primary s') (ts_steps s')"
    by (auto elim!: checked_parts)
  from walk_top_each [OF top i] obtain h1 h2 where w:
    "walk (env_for s' Required (primary_in_force (ts_primary s') (take i (ts_steps s'))) True None) h1 [ts_steps s' ! i] = Inr (h2, [ts_steps s' ! i])"
    by blast
  have "settles (target_names s) (primary_in_force (ts_primary s') (take i (ts_steps s'))) st"
    using walk_settled(1) [OF w _ _ _ st] several by (simp add: valid(3))
  then show ?thesis using omitted final valid(6) by (simp add: settles_def)
qed

theorem omitted_targets_follow_the_primary_witness:
  "rs_resolved (bare_tap (Some ''b'')) = None \<and> rs_resolved (ts_steps (checked two_apps) ! 5) = Some ''b''"
proof -
  let ?st = "ts_steps (checked two_apps) ! 5"
  have facts: "card (set (target_names two_apps)) \<ge> 2" "(5::nat) < length (ts_steps (checked two_apps))"
    "?st \<in> set (reach [?st])" "rs_target ?st = None" "\<not> routing_only ?st"
    "primary_in_force (ts_primary two_apps) (take 5 (ts_steps (checked two_apps))) = Some ''b''"
    by code_simp+
  show ?thesis using omitted_targets_follow_the_primary [OF two_apps_accepted facts(1-5)] facts(6) by (simp add: bare_tap_def)
qed

section \<open>Installs\<close>

text \<open>The target a top-level step at position \<open>i\<close> runs on.\<close>

definition device_of :: "target_scenario \<Rightarrow> nat \<Rightarrow> rstep \<Rightarrow> string option" where
  "device_of s i st = either (rs_target st) (primary_in_force (ts_primary s) (take i (ts_steps s)))"

lemma install_checked:
  assumes "walk E h [st] = Inr (h', out)" "rs_work st = RInstall m" "\<not> h" "wk_mode E = Required" "wk_caller E = None"
  shows "m \<in> set (lf_later (wk_facts E)) \<and> (\<exists>g\<in>set (lf_groups (wk_facts E)). \<exists>d. either (rs_target st) (wk_primary E) = Some d \<and> d \<in> set g \<and> m \<in> set g)"
proof -
  have "check_lifecycle E h st \<in> range Inr" using assms(1) by (cases st) (auto simp: and_then_eq_Inr)
  then have "check_install_app E h m st = Inr ()" using assms(2)
    by (cases "check_install_app E h m st") (auto simp: check_lifecycle_def Let_def is_group_def)
  then have in_group: "m \<in> set (lf_later (wk_facts E))" "m \<in> set (group_holding (lf_groups (wk_facts E)) (install_device E st))"
    using assms(3) by (auto simp: check_install_app_def Let_def and_then_eq_Inr)
  have device: "install_device E st = either (either (rs_target st) None) (wk_primary E)"
    using assms(4,5) by (auto simp: install_device_def either_def Let_def)
  from in_group(2) obtain g d where g: "install_device E st = Some d" "d \<noteq> []" "List.find (\<lambda>g. d \<in> set g) (lf_groups (wk_facts E)) = Some g" "m \<in> set g"
    by (auto simp: group_holding_def either_def eq_commute [of "Some _" "List.find _ _"] split: if_splits option.splits)
  from find_Some_mem [OF g(3)] have "g \<in> set (lf_groups (wk_facts E))" "d \<in> set g" by simp_all
  moreover have "either (rs_target st) (wk_primary E) = Some d"
    using device g(1,2) by (auto simp: either_def split: if_splits)
  ultimately show ?thesis using in_group(1) g(4) by blast
qed

text \<open>C38: In an accepted scenario whose top-level steps call no component, every top-level \<open>installApp\<close> puts a
  later member of a device group on the device of a target of that same group, and no member is installed
  twice.
\<close>
theorem installs_find_a_later_member_once:
  assumes ok: "validate_targets s = Inr s'" and plain: "list_all (\<lambda>st. \<not> hides_steps (rs_work st)) (ts_steps s')"
  shows "distinct (installs_in (ts_steps s')) \<and>
    (\<forall>i<length (ts_steps s'). \<forall>m. rs_work (ts_steps s' ! i) = RInstall m \<longrightarrow>
       m \<in> set (later_targets s) \<and> (\<exists>g\<in>set (device_groups s). \<exists>d. device_of s' i (ts_steps s' ! i) = Some d \<and> d \<in> set g \<and> m \<in> set g))"
proof (intro conjI allI impI)
  note valid = validated [OF ok]
  from valid(1) obtain h where top: "walk_top s' (ts_primary s') [] False (ts_steps s') = Inr (h, ts_final s', ts_steps s')"
    by (auto elim!: checked_parts)
  show "distinct (installs_in (ts_steps s'))" using walk_top_installs [OF top] by simp
  fix i m assume i: "i < length (ts_steps s')" and m: "rs_work (ts_steps s' ! i) = RInstall m"
  from walk_top_each [OF top i] plain obtain h1 h2 where w:
    "walk (env_for s' Required (primary_in_force (ts_primary s') (take i (ts_steps s'))) True None) h1 [ts_steps s' ! i] = Inr (h2, [ts_steps s' ! i])"
    "\<not> h1"
    by blast
  from install_checked [OF w(1) m w(2)] valid
  have "m \<in> set (later_targets s)" "\<exists>g\<in>set (device_groups s). \<exists>d. device_of s' i (ts_steps s' ! i) = Some d \<and> d \<in> set g \<and> m \<in> set g"
    by (simp_all add: device_of_def)
  then show "m \<in> set (later_targets s)"
    "\<exists>g\<in>set (device_groups s). \<exists>d. device_of s' i (ts_steps s' ! i) = Some d \<and> d \<in> set g \<and> m \<in> set g" by this+
qed

theorem installs_find_a_later_member_once_witness:
  "distinct (installs_in (ts_steps (checked two_apps))) \<and> installs_in (ts_steps (checked two_apps)) = [''b''] \<and>
   ''b'' \<in> set (later_targets two_apps)"
proof -
  have facts: "list_all (\<lambda>st. \<not> hides_steps (rs_work st)) (ts_steps (checked two_apps))"
    "installs_in (ts_steps (checked two_apps)) = [''b'']" "(3::nat) < length (ts_steps (checked two_apps))"
    "rs_work (ts_steps (checked two_apps) ! 3) = RInstall ''b''"
    by code_simp+
  show ?thesis using installs_find_a_later_member_once [OF two_apps_accepted facts(1)] facts(2-4) by blast
qed

section \<open>Hooks\<close>

definition or_named :: "string \<Rightarrow> rstep \<Rightarrow> string option" where
  "or_named n st = Some (case rs_target st of None \<Rightarrow> n | Some t \<Rightarrow> t)"

lemma reach_map:
  "(\<And>x. x \<in> set b \<Longrightarrow> map f (reach [g x]) = map h (reach [x])) \<Longrightarrow> map f (reach (map g b)) = map h (reach b)"
proof (induction b)
  case (Cons x b)
  then show ?case using reach_append [of "[g x]" "map g b"] reach_append [of "[x]" b] by simp
qed simp

lemma fill_targets:
  "map rs_target (reach [fill_target n st]) = map (or_named n) (reach [st])"
  "map rs_target (reach_work (fill_work n w)) = map (or_named n) (reach_work w)"
proof (induction n st and n w rule: fill_target_fill_work.induct)
  case (2 n c th el)
  have "map rs_target (reach (map (fill_target n) th)) = map (or_named n) (reach th)" by (rule reach_map) (rule 2(1))
  moreover have "map rs_target (reach (map (fill_target n) b)) = map (or_named n) (reach b)" if "el = Some b" for b
    by (rule reach_map) (rule 2(2) [OF that])
  ultimately show ?case by (cases el) simp_all
next
  case (3 n b)
  then show ?case using reach_map [of b rs_target "fill_target n" "or_named n"] by simp
qed (simp_all add: or_named_def split: option.splits)

lemma flat_all: "flat ss \<longleftrightarrow> (\<forall>st\<in>set ss. flat [st])"
proof (induction ss)
  case (Cons x xs)
  show ?case using Cons.IH flat_append [of "[x]" xs] by simp
qed simp

lemma fill_flat:
  "flat [fill_target n st] = flat [st]"
  "flat_work (fill_work n w) = flat_work w"
proof (induction n st and n w rule: fill_target_fill_work.induct)
  case (2 n c th el)
  then show ?case
    using flat_all [of th] flat_all [of "map (fill_target n) th"] flat_all [of "the el"] flat_all [of "map (fill_target n) (the el)"]
    by (cases el) auto
next
  case (3 n b)
  then show ?case using flat_all [of b] flat_all [of "map (fill_target n) b"] by auto
qed simp_all

definition flat_hooks :: "hooks \<Rightarrow> bool" where
  "flat_hooks h \<longleftrightarrow> flat (hk_setup h) \<and> (\<forall>r\<in>set (hk_cleanup h). flat (ce_steps r))"

lemma map_fill_flat: "flat (map (fill_target n) ss) = flat ss"
  using flat_all [of ss] flat_all [of "map (fill_target n) ss"] fill_flat(1) by auto

lemma flat_concat: "flat (concat xss) \<longleftrightarrow> (\<forall>xs\<in>set xss. flat xs)"
  by (induction xss) simp_all

lemma folded_flat:
  assumes "flat_scenario s" "flat_hooks eff" "\<And>name h. effs name = Some h \<Longrightarrow> flat_hooks h"
  shows "flat_scenario (fold_hooks (hooks_for eff effs s) s)"
proof -
  have "flat_hooks (hooks_of eff effs name)" for name
    using assms(2,3) by (auto simp: hooks_of_def split: option.splits)
  then have "flat (fst (hooks_for eff effs s)) \<and> (\<forall>r\<in>set (snd (hooks_for eff effs s)). flat (ce_steps r))"
    using assms(2) by (auto simp: hooks_for_def flat_hooks_def flat_concat map_fill_flat stamped_rule_def)
  then show ?thesis using assms(1) by (auto simp: flat_scenario_def fold_hooks_def)
qed

lemma fold_keeps_steps:
  assumes ok: "check_target_requirements s = Inr s" and folded: "check_target_requirements (fold_hooks hk s) = Inr s''"
  shows "ts_steps s'' = ts_steps s \<and> ts_final s'' = ts_final s \<and>
    map rs_target (reach (ts_setup s'')) = map rs_target (reach (fst hk)) @ map rs_target (reach (ts_setup s))"
proof -
  let ?f = "fold_hooks hk s"
  have same: "target_names ?f = target_names s" "device_groups ?f = device_groups s" "later_targets ?f = later_targets s"
    "ts_primary ?f = ts_primary s" "ts_steps ?f = ts_steps s" "ts_setup ?f = fst hk @ ts_setup s"
    by (simp_all add: fold_hooks_def target_names_def device_groups_def later_targets_def cong: list.case_cong)
  have "lifecycle_of ?f = lifecycle_of s" using same by (simp add: lifecycle_of_def)
  then have env: "env_for ?f m p tp e = env_for s m p tp e" for m p tp e using same by (simp add: env_for_def)
  from ok obtain h where top: "walk_top s (ts_primary s) [] False (ts_steps s) = Inr (h, ts_final s, ts_steps s)"
    by (auto elim!: checked_parts)
  from folded obtain h1 primary steps h2 first where f:
    "walk_top ?f (ts_primary s) [] False (ts_steps s) = Inr (h1, primary, steps)"
    "walk (env_for ?f Required (ts_primary s) False None) h1 (fst hk @ ts_setup s) = Inr (h2, first)"
    "ts_steps s'' = steps" "ts_setup s'' = first" "ts_final s'' = primary"
    unfolding check_target_requirements_def same by (auto simp: and_then_eq_Inr)
  have "walk_top ?f (ts_primary s) [] False (ts_steps s) = Inr (h, ts_final s, ts_steps s)"
    using top walks_cong(1) [OF env same(1,4)] by simp
  with f(1) have "steps = ts_steps s" "primary = ts_final s" by simp_all
  with f(3-5) walk_targets(1) [OF f(2)] show ?thesis by simp
qed


definition seed_hooks :: hooks where
  "seed_hooks = \<lparr>hk_setup = [RStep None None None None (RForEach [bare_tap None])], hk_cleanup = []\<rparr>"


section \<open>What the pass lets through\<close>

text \<open>
  The once-per-scenario rule reads the top-level steps alone, while \<open>setup\<close> runs ahead of them: the same
  member installed in both is accepted, and the second install is refused by the roster at run time.
\<close>
lemma setup_install_escapes_the_once_rule:
  "\<exists>s'. validate_targets (two_apps\<lparr>ts_setup := [RStep None (Some ''a'') None None (RInstall ''b'')]\<rparr>) = Inr s' \<and>
     installs_in (ts_setup s' @ ts_steps s') = [''b'', ''b'']"
proof -
  let ?r = "validate_targets (two_apps\<lparr>ts_setup := [RStep None (Some ''a'') None None (RInstall ''b'')]\<rparr>)"
  have "case ?r of Inr s' \<Rightarrow> installs_in (ts_setup s' @ ts_steps s') = [''b'', ''b''] | Inl e \<Rightarrow> False" by code_simp
  then show ?thesis by (auto split: sum.splits)
qed

text \<open>
  The fill of a hook's blank targets does not descend into a target group: a step in an \<open>if\<close> body of the
  group resolves to the scenario's primary, not to the target the hook belongs to.
\<close>
lemma hook_group_bodies_escape_the_fill:
  "\<exists>s''. with_lifecycle_phases \<lparr>hk_setup = [], hk_cleanup = []\<rparr>
       (\<lambda>name. if name = ''c'' then Some \<lparr>hk_setup = [RStep None (Some ''c'') None None (RSteps [RStep None None None None (RForEach [bare_tap None])])], hk_cleanup = []\<rparr> else None)
       [] [checked two_apps] = Inr [s''] \<and>
     map resolved_target (reach (take 1 (ts_setup s''))) = [Some ''c'', Some ''a'']"
proof -
  let ?r = "with_lifecycle_phases \<lparr>hk_setup = [], hk_cleanup = []\<rparr>
       (\<lambda>name. if name = ''c'' then Some \<lparr>hk_setup = [RStep None (Some ''c'') None None (RSteps [RStep None None None None (RForEach [bare_tap None])])], hk_cleanup = []\<rparr> else None)
       [] [checked two_apps]"
  have "case ?r of Inr ss \<Rightarrow> length ss = 1 \<and> map resolved_target (reach (take 1 (ts_setup (hd ss)))) = [Some ''c'', Some ''a''] | Inl e \<Rightarrow> False"
    by code_simp
  then show ?thesis by (auto split: sum.splits simp: length_Suc_conv)
qed

end
