(* ===== verification/Group_Leases.thy ===== *)
theory Group_Leases
  imports Target_Properties Transition_Systems "HOL-Library.Product_Lexorder" "HOL-Library.Multiset"
begin

text \<open>
  The devices a scenario with declared targets takes: one lease for each device group, the other
  starting members joining it (\<open>_lease_targets\<close> of \<open>common/runner/pipeline.py\<close>), and the cap on the
  workers of a run that keeps them from starving each other (\<open>_pool_demand\<close> and
  \<open>_resolve_multi_target_workers\<close> of \<open>run/cli.py\<close>).  Whether a bring-up raises is a parameter.
\<close>

section \<open>Bringing the targets of a scenario up\<close>

definition starting_groups :: "target_scenario \<Rightarrow> string list list" where
  "starting_groups s = map (\<lambda>g. [n \<leftarrow> g. n \<notin> set (later_targets s)]) (device_groups s)"

text \<open>\<open>sorted(groups, key=lambda g: (targets[g[0]].actuator, g[0]))\<close>.\<close>

definition lease_order :: "(string \<Rightarrow> string) \<Rightarrow> target_scenario \<Rightarrow> string list list" where
  "lease_order actuator s = sort_key (\<lambda>g. (actuator (hd g), hd g)) (starting_groups s)"

text \<open>The members of one group, the last one leasing and the others joining; what is held, and whether all came up.\<close>

fun hold_each :: "(string \<Rightarrow> bool) \<Rightarrow> string list \<Rightarrow> string list \<Rightarrow> string list \<times> bool" where
  "hold_each comes_up [] held = (held, True)"
| "hold_each comes_up (n # ns) held = (if comes_up n then hold_each comes_up ns (held @ [n]) else (held, False))"

fun hold_groups :: "(string \<Rightarrow> bool) \<Rightarrow> string list list \<Rightarrow> string list \<Rightarrow> string list \<times> bool" where
  "hold_groups comes_up [] held = (held, True)"
| "hold_groups comes_up (g # gs) held =
     (case hold_each comes_up (rev g) held of
        (held', True) \<Rightarrow> hold_groups comes_up gs held'
      | (held', False) \<Rightarrow> (held', False))"

text \<open>\<open>Inl\<close>: the names released, in the order they are, before the failure goes on.\<close>

definition lease_targets :: "(string \<Rightarrow> bool) \<Rightarrow> (string \<Rightarrow> string) \<Rightarrow> target_scenario \<Rightarrow> string list + string list" where
  "lease_targets comes_up actuator s =
     (case hold_groups comes_up (lease_order actuator s) [] of (held, True) \<Rightarrow> Inr held | (held, False) \<Rightarrow> Inl (rev held))"

lemma hold_each_prefix:
  "hold_each up ns held = (held', ok) \<Longrightarrow> \<exists>ms. held' = held @ ms \<and> (\<exists>rest. ns = ms @ rest \<and> (ok \<longleftrightarrow> rest = []) \<and> (\<forall>m\<in>set ms. up m))"
proof (induction ns arbitrary: held)
  case (Cons n ns)
  show ?case
  proof (cases "up n")
    case True
    with Cons.prems have "hold_each up ns (held @ [n]) = (held', ok)" by simp
    from Cons.IH [OF this] True show ?thesis by fastforce
  next
    case False
    with Cons.prems show ?thesis by simp
  qed
qed simp

lemma hold_groups_prefix:
  "hold_groups up gs held = (held', ok) \<Longrightarrow>
     \<exists>ms. held' = held @ ms \<and> (\<exists>rest. concat (map rev gs) = ms @ rest \<and> (ok \<longrightarrow> rest = [])) \<and> (\<forall>m\<in>set ms. up m)"
proof (induction gs arbitrary: held)
  case (Cons g gs)
  obtain held1 ok1 where one: "hold_each up (rev g) held = (held1, ok1)" by fastforce
  from hold_each_prefix [OF one] obtain ms rest where ms: "held1 = held @ ms" "rev g = ms @ rest" "ok1 \<longleftrightarrow> rest = []" "\<forall>m\<in>set ms. up m"
    by blast
  show ?case
  proof (cases ok1)
    case True
    with Cons.prems one have "hold_groups up gs held1 = (held', ok)" by simp
    from Cons.IH [OF this] ms True show ?thesis by fastforce
  next
    case False
    with Cons.prems one have "held' = held1" "\<not> ok" by simp_all
    with ms show ?thesis by auto
  qed
qed simp

lemma hold_groups_all: "(\<And>n. n \<in> set (concat gs) \<Longrightarrow> up n) \<Longrightarrow> hold_groups up gs held = (held @ concat (map rev gs), True)"
proof (induction gs arbitrary: held)
  case (Cons g gs)
  have "hold_each up ns held = (held @ ns, True)" if "\<forall>n\<in>set ns. up n" for ns held
    using that by (induction ns arbitrary: held) simp_all
  with Cons show ?case by simp
qed simp

section \<open>What the device-group rules give\<close>

lemma count_list_distinct: "(\<forall>n\<in>set names. count_list names n \<le> 1) \<longleftrightarrow> distinct names"
proof (induction names)
  case (Cons x xs)
  have "(\<forall>n\<in>set (x # xs). count_list (x # xs) n \<le> 1) \<longleftrightarrow> x \<notin> set xs \<and> (\<forall>n\<in>set xs. count_list xs n \<le> 1)"
    using count_list_0_iff [of xs x] by auto
  with Cons.IH show ?case by simp
qed simp

lemma repeated_Nil: "repeated names = [] \<longleftrightarrow> distinct names"
proof -
  have "repeated names = [] \<longleftrightarrow> {n \<in> set names. count_list names n > 1} = {}"
    by (simp add: repeated_def sorted_list_of_set_eq_Nil_iff)
  also have "\<dots> \<longleftrightarrow> (\<forall>n\<in>set names. count_list names n \<le> 1)" by (auto simp: not_less)
  finally show ?thesis by (simp only: count_list_distinct)
qed

lemma each_unit: "each f xs = Inr rs \<Longrightarrow> x \<in> set xs \<Longrightarrow> f x \<in> range Inr"
  by (induction xs arbitrary: rs) (auto simp: and_then_eq_Inr)

lemma device_groups_ok:
  assumes "check_device_groups s = Inr ()"
  shows "distinct (target_names s)" "distinct (ts_installs s)" "g \<in> set (device_groups s) \<Longrightarrow> g \<noteq> []"
    "g \<in> set (tl (device_groups s)) \<Longrightarrow> length g \<ge> 2 \<Longrightarrow> set (ts_installs s) \<inter> set g \<noteq> {}"
proof -
  let ?small = "\<lambda>t. case t of Bare n \<Rightarrow> Inr () | Sharing g \<Rightarrow> ensure (length g \<ge> 2) (SmallGroup g)"
  let ?starts = "\<lambda>g. ensure (length g \<ge> 2 \<longrightarrow> set (ts_installs s) \<inter> set g \<noteq> {}) (NobodyStarts g)"
  from assms obtain rs qs where parts: "repeated (target_names s) = []" "each ?small (ts_targets s) = Inr rs"
    "repeated (ts_installs s) = []" "each ?starts (tl (device_groups s)) = Inr qs"
    by (auto simp: check_device_groups_def Let_def and_then_eq_Inr)
  show "distinct (target_names s)" "distinct (ts_installs s)" using parts(1,3) by (simp_all add: repeated_Nil)
  show "g \<noteq> []" if g: "g \<in> set (device_groups s)"
  proof -
    from g obtain t where "t \<in> set (ts_targets s)" "g = group_of_entry t" by (auto simp: device_groups_def)
    with each_unit [OF parts(2)] show ?thesis by (cases t) (fastforce simp: ensure_def split: if_splits)+
  qed
  show "set (ts_installs s) \<inter> set g \<noteq> {}" if "g \<in> set (tl (device_groups s))" "length g \<ge> 2"
    using each_unit [OF parts(4) that(1)] that(2) by (fastforce simp: ensure_def split: if_splits)
qed

lemma later_iff:
  "n \<in> set (later_targets s) \<longleftrightarrow> n \<noteq> hd (target_names s) \<and> n \<notin> set (ts_installs s) \<and> (\<exists>g\<in>set (device_groups s). length g \<ge> 2 \<and> n \<in> set g)"
proof -
  have "target_names s \<noteq> []" if "g \<in> set (device_groups s)" "n \<in> set g" for g
    using that unfolding target_names_def by fastforce
  then show ?thesis by (cases "target_names s") (auto simp: later_targets_def Let_def)
qed

lemma same_group:
  assumes "distinct (target_names s)" "g \<in> set (device_groups s)" "h \<in> set (device_groups s)" "n \<in> set g" "n \<in> set h"
  shows "g = h"
  using assms by (metis IntI distinct_concat_iff empty_iff in_set_conv_nth target_names_def)

lemma some_member_starts:
  assumes ok: "check_device_groups s = Inr ()" and g: "g \<in> set (device_groups s)"
  shows "\<exists>n\<in>set g. n \<notin> set (later_targets s)"
proof -
  note groups = device_groups_ok [OF ok]
  have "g \<noteq> []" by (rule groups(3) [OF g])
  show ?thesis
  proof (cases "length g \<ge> 2")
    case False
    obtain n where "n \<in> set g" using \<open>g \<noteq> []\<close> by (cases g) auto
    with False same_group [OF groups(1) g] show ?thesis by (metis later_iff)
  next
    case True
    obtain g0 gs where gs: "device_groups s = g0 # gs" using g by (cases "device_groups s") auto
    show ?thesis
    proof (cases "g = g0")
      case True
      with gs \<open>g \<noteq> []\<close> have "hd (target_names s) \<in> set g" by (simp add: target_names_def)
      then show ?thesis by (metis later_iff)
    next
      case False
      with g gs have "g \<in> set (tl (device_groups s))" by simp
      from groups(4) [OF this True] show ?thesis by (metis later_iff disjoint_iff)
    qed
  qed
qed

lemma starting_concat: "concat (starting_groups s) = [n \<leftarrow> target_names s. n \<notin> set (later_targets s)]"
  by (simp add: starting_groups_def target_names_def filter_concat comp_def)

lemma order_concat:
  "mset (concat (map rev (lease_order actuator s))) = mset [n \<leftarrow> target_names s. n \<notin> set (later_targets s)]"
proof -
  have "mset (concat (map rev gs)) = mset (concat gs)" for gs :: "string list list"
    by (induction gs) simp_all
  moreover have "mset (concat gs) = sum_mset (image_mset mset (mset gs))" for gs :: "string list list"
    by (induction gs) simp_all
  then have "mset (concat (sort_key f gs)) = mset (concat gs)" for gs :: "string list list" and f :: "string list \<Rightarrow> string \<times> string"
    by simp
  ultimately show ?thesis by (simp add: lease_order_def starting_concat [symmetric])
qed



section \<open>The cap on the workers of a run\<close>

record target_setup =
  tu_actuator :: string
  tu_lanes :: nat \<comment> \<open>\<open>len(udids)\<close>\<close>

definition actuator_of :: "(string, target_setup) dict \<Rightarrow> string \<Rightarrow> string" where
  "actuator_of setups name = (case dict_get setups name of Some t \<Rightarrow> tu_actuator t | None \<Rightarrow> [])"

definition lanes_of :: "(string, target_setup) dict \<Rightarrow> string \<Rightarrow> nat" where
  "lanes_of setups a = (case List.find (\<lambda>t. tu_actuator t = a) (map snd setups) of Some t \<Rightarrow> tu_lanes t | None \<Rightarrow> 0)"

definition get_count :: "(string, nat) dict \<Rightarrow> string \<Rightarrow> nat" where
  "get_count d k = (case dict_get d k of Some n \<Rightarrow> n | None \<Rightarrow> 0)"

fun count_pools :: "(string \<Rightarrow> string) \<Rightarrow> string list list \<Rightarrow> (string, nat) dict \<Rightarrow> (string, nat) dict" where
  "count_pools actuator [] d = d"
| "count_pools actuator (g # gs) d =
     count_pools actuator gs (dict_put (actuator (hd g)) (get_count d (actuator (hd g)) + 1) d)"

fun raise_demand :: "(string \<times> nat) list \<Rightarrow> (string, nat) dict \<Rightarrow> (string, nat) dict" where
  "raise_demand [] d = d"
| "raise_demand ((k, n) # kns) d = raise_demand kns (dict_put k (max (get_count d k) n) d)"

fun pool_demand :: "(string \<Rightarrow> string) \<Rightarrow> target_scenario list \<Rightarrow> (string, nat) dict \<Rightarrow> (string, nat) dict" where
  "pool_demand actuator [] d = d"
| "pool_demand actuator (s # ss) d = pool_demand actuator ss (raise_demand (count_pools actuator (device_groups s) []) d)"

text \<open>\<open>Inl\<close>: the pool that is too small, what a scenario needs of it, and what it has.\<close>

fun cap_workers :: "(string \<Rightarrow> nat) \<Rightarrow> (string \<times> nat) list \<Rightarrow> nat \<Rightarrow> string \<times> nat \<times> nat + nat" where
  "cap_workers lanes [] w = Inr w"
| "cap_workers lanes ((a, needed) # ds) w =
     (if needed > lanes a then Inl (a, needed, lanes a) else cap_workers lanes ds (min w (lanes a div needed)))"

definition resolve_multi_target_workers :: "target_scenario list \<Rightarrow> (string, target_setup) dict \<Rightarrow> nat \<Rightarrow> string \<times> nat \<times> nat + nat" where
  "resolve_multi_target_workers scenarios setups w =
     and_then (cap_workers (lanes_of setups) (pool_demand (actuator_of setups) scenarios []) w) (\<lambda>w'. Inr (max 1 w'))"

lemma get_count_put: "get_count (dict_put k n d) k' = (if k' = k then n else get_count d k')"
  by (simp add: get_count_def)

lemma count_pools_count:
  "get_count (count_pools actuator gs d) a = length [g \<leftarrow> gs. actuator (hd g) = a] + get_count d a"
  by (induction gs arbitrary: d) (auto simp: get_count_put)

lemma count_pools_wf: "dict_wf d \<Longrightarrow> dict_wf (count_pools actuator gs d)"
  by (induction gs arbitrary: d) simp_all

lemma raise_demand_wf: "dict_wf d \<Longrightarrow> dict_wf (raise_demand kns d)"
  by (induction kns arbitrary: d) auto

lemma raise_demand_grows: "get_count d a \<le> get_count (raise_demand kns d) a"
proof (induction kns arbitrary: d)
  case (Cons kn kns)
  obtain k n where kn: "kn = (k, n)" by fastforce
  have "get_count d a \<le> get_count (dict_put k (max (get_count d k) n) d) a" by (simp add: get_count_put)
  also have "\<dots> \<le> get_count (raise_demand (kn # kns) d) a" using Cons.IH kn by simp
  finally show ?case .
qed simp

lemma raise_demand_covers: "(k, n) \<in> set kns \<Longrightarrow> n \<le> get_count (raise_demand kns d) k"
proof (induction kns arbitrary: d)
  case (Cons kn kns)
  obtain k' n' where kn: "kn = (k', n')" by fastforce
  show ?case
  proof (cases "(k, n) = kn")
    case True
    have "n \<le> get_count (dict_put k (max (get_count d k) n) d) k" by (simp add: get_count_put)
    also have "\<dots> \<le> get_count (raise_demand kns (dict_put k (max (get_count d k) n) d)) k" by (rule raise_demand_grows)
    finally show ?thesis using True kn by simp
  next
    case False
    with Cons show ?thesis using kn by auto
  qed
qed simp

lemma pool_demand_wf: "dict_wf d \<Longrightarrow> dict_wf (pool_demand actuator ss d)"
  by (induction ss arbitrary: d) (simp_all add: raise_demand_wf)

lemma pool_demand_grows: "get_count d a \<le> get_count (pool_demand actuator ss d) a"
proof (induction ss arbitrary: d)
  case (Cons s ss)
  show ?case using raise_demand_grows [of d a "count_pools actuator (device_groups s) []"] Cons.IH by (metis order_trans pool_demand.simps(2))
qed simp

lemma get_count_mem: "dict_wf d \<Longrightarrow> get_count d k > 0 \<Longrightarrow> (k, get_count d k) \<in> set d"
  by (cases "dict_get d k") (simp_all add: get_count_def dict_get_iff [symmetric])

lemma pool_demand_covers:
  "s \<in> set ss \<Longrightarrow> length [g \<leftarrow> device_groups s. actuator (hd g) = a] \<le> get_count (pool_demand actuator ss d) a"
proof (induction ss arbitrary: d)
  case (Cons x ss)
  show ?case
  proof (cases "s = x")
    case True
    let ?c = "count_pools actuator (device_groups s) []" and ?n = "length [g \<leftarrow> device_groups s. actuator (hd g) = a]"
    have n: "get_count ?c a = ?n" unfolding count_pools_count by (simp add: get_count_def)
    have "?n \<le> get_count (raise_demand ?c d) a"
      using raise_demand_covers [of a "get_count ?c a" ?c d] get_count_mem [of ?c a] count_pools_wf [of "[]"] n
      by (cases "?n = 0") simp_all
    also have "\<dots> \<le> get_count (pool_demand actuator (x # ss) d) a" using pool_demand_grows True by simp
    finally show ?thesis .
  next
    case False
    with Cons show ?thesis by simp
  qed
qed simp

lemma cap_workers_fits:
  "cap_workers lanes ds w = Inr W \<Longrightarrow> (a, n) \<in> set ds \<Longrightarrow> n > 0 \<Longrightarrow> W * n \<le> lanes a \<and> n \<le> lanes a"
proof (induction ds arbitrary: w)
  case (Cons d ds)
  have small: "cap_workers lanes ds w' = Inr W \<Longrightarrow> W \<le> w'" for ds w'
    by (induction ds arbitrary: w') (auto split: if_splits, metis min.boundedE)
  obtain a' n' where d: "d = (a', n')" by fastforce
  with Cons.prems(1) have rest: "n' \<le> lanes a'" "cap_workers lanes ds (min w (lanes a' div n')) = Inr W"
    by (auto split: if_splits)
  show ?case
  proof (cases "(a, n) = d")
    case True
    have "W \<le> lanes a div n" using small [OF rest(2)] d True by simp
    then have "W * n \<le> lanes a" by (metis div_times_less_eq_dividend le_trans mult_le_mono1)
    then show ?thesis using rest(1) d True by simp
  next
    case False
    with Cons.prems Cons.IH [OF rest(2)] show ?thesis by simp
  qed
qed simp

section \<open>Workers leasing side by side\<close>

text \<open>
  A worker holds the first \<open>wl_held\<close> leases of the plan of its scenario; a plan lists the pool each lease
  comes from.  It takes the next lease when the pool has a free device, gives everything back when its
  scenario ends or a bring-up fails, and then starts on another scenario.
\<close>

record worker_lane =
  wl_plan :: "string list"
  wl_held :: nat

definition idle :: worker_lane where
  "idle = \<lparr>wl_plan = [], wl_held = 0\<rparr>"

definition plan_of :: "(string \<Rightarrow> string) \<Rightarrow> target_scenario \<Rightarrow> string list" where
  "plan_of actuator s = map (\<lambda>g. actuator (last g)) (lease_order actuator s)"

definition in_use :: "worker_lane list \<Rightarrow> string \<Rightarrow> nat" where
  "in_use ws a = sum_list (map (\<lambda>w. count_list (take (wl_held w) (wl_plan w)) a) ws)"

inductive lease_step :: "(string \<Rightarrow> nat) \<Rightarrow> string list list \<Rightarrow> worker_lane list \<Rightarrow> worker_lane list \<Rightarrow> bool"
  for lanes plans where
  acquire: "i < length ws \<Longrightarrow> wl_held (ws ! i) < length (wl_plan (ws ! i)) \<Longrightarrow>
     in_use ws (wl_plan (ws ! i) ! wl_held (ws ! i)) < lanes (wl_plan (ws ! i) ! wl_held (ws ! i)) \<Longrightarrow>
     lease_step lanes plans ws (ws[i := (ws ! i)\<lparr>wl_held := Suc (wl_held (ws ! i))\<rparr>])"
| give_back: "i < length ws \<Longrightarrow> lease_step lanes plans ws (ws[i := idle])"
| take_next: "i < length ws \<Longrightarrow> ws ! i = idle \<Longrightarrow> p \<in> set plans \<Longrightarrow>
     lease_step lanes plans ws (ws[i := \<lparr>wl_plan = p, wl_held = 0\<rparr>])"

definition lanes_ok :: "nat \<Rightarrow> string list list \<Rightarrow> worker_lane list \<Rightarrow> bool" where
  "lanes_ok W plans ws \<longleftrightarrow> length ws = W \<and>
     (\<forall>w\<in>set ws. (wl_plan w = [] \<or> wl_plan w \<in> set plans) \<and> wl_held w \<le> length (wl_plan w))"

lemma lease_step_ok: "lanes_ok W plans ws \<Longrightarrow> lease_step lanes plans ws ws' \<Longrightarrow> lanes_ok W plans ws'"
proof -
  assume ok: "lanes_ok W plans ws" and step: "lease_step lanes plans ws ws'"
  have put: "lanes_ok W plans (ws[i := w])"
    if "(wl_plan w = [] \<or> wl_plan w \<in> set plans) \<and> wl_held w \<le> length (wl_plan w)" for i w
    using ok that set_update_subset_insert [of ws i w] by (auto simp: lanes_ok_def)
  from step show ?thesis
  proof cases
    case (acquire i)
    have "ws ! i \<in> set ws" using acquire(2) by simp
    with ok have "wl_plan (ws ! i) = [] \<or> wl_plan (ws ! i) \<in> set plans" by (auto simp: lanes_ok_def)
    with acquire put show ?thesis by simp
  next
    case (give_back i)
    with put show ?thesis by (simp add: idle_def)
  next
    case (take_next i p)
    with put show ?thesis by simp
  qed
qed

interpretation leasing: invariant_system "\<lambda>ws. ws = replicate W idle" "lease_step lanes plans" "lanes_ok W plans"
  for W lanes plans
proof unfold_locales
  show "lanes_ok W plans ws" if "ws = replicate W idle" for ws
    using that by (simp add: lanes_ok_def idle_def)
qed (rule lease_step_ok)

lemma plan_counts:
  assumes ok: "check_device_groups s = Inr ()"
    and shared: "\<And>g m. g \<in> set (device_groups s) \<Longrightarrow> m \<in> set g \<Longrightarrow> actuator m = actuator (hd g)"
  shows "count_list (plan_of actuator s) a = length [g \<leftarrow> device_groups s. actuator (hd g) = a]"
proof -
  let ?starting = "\<lambda>g. [n \<leftarrow> g. n \<notin> set (later_targets s)]"
  have "actuator (last (?starting g)) = actuator (hd g)" if g: "g \<in> set (device_groups s)" for g
  proof -
    have "?starting g \<noteq> []" using some_member_starts [OF ok g] by (auto simp: filter_empty_conv)
    then have "last (?starting g) \<in> set g" using last_in_set by fastforce
    then show ?thesis by (rule shared [OF g])
  qed
  then have "map (\<lambda>g. actuator (last g)) (starting_groups s) = map (\<lambda>g. actuator (hd g)) (device_groups s)"
    by (simp add: starting_groups_def)
  moreover have "mset (plan_of actuator s) = image_mset (\<lambda>g. actuator (last g)) (mset (starting_groups s))"
    by (simp add: plan_of_def lease_order_def)
  ultimately have "mset (plan_of actuator s) = mset (map (\<lambda>g. actuator (hd g)) (device_groups s))" by (metis mset_map)
  then have "count_list (plan_of actuator s) a = count_list (map (\<lambda>g. actuator (hd g)) (device_groups s)) a"
    by (metis count_mset)
  also have "count_list (map f gs) a = length [g \<leftarrow> gs. f g = a]" for f :: "string list \<Rightarrow> string" and gs
    by (induction gs) simp_all
  finally show ?thesis .
qed

lemma sum_list_below:
  "(\<And>x. x \<in> set xs \<Longrightarrow> f x \<le> n) \<Longrightarrow> x \<in> set xs \<Longrightarrow> f x < (n::nat) \<Longrightarrow> sum_list (map f xs) < length xs * n"
proof (induction xs)
  case (Cons y ys)
  have le: "sum_list (map f ys) \<le> length ys * n"
    using sum_list_mono [of ys f "\<lambda>_. n"] Cons.prems(1) by (simp add: sum_list_triv)
  show ?case
  proof (cases "x = y")
    case True
    with Cons.prems(3) le show ?thesis by simp
  next
    case False
    with Cons have "sum_list (map f ys) < length ys * n" by simp
    moreover have "f y \<le> n" using Cons.prems(1) by simp
    ultimately show ?thesis by simp
  qed
qed simp

lemma count_take: "k < length xs \<Longrightarrow> count_list (take k xs) (xs ! k) < count_list xs (xs ! k)"
  using arg_cong [OF id_take_nth_drop [of k xs], of "\<lambda>ys. count_list ys (xs ! k)"] by simp

text \<open>C7: With the workers of a run capped as the command line does, no lease request ever waits: whatever
  the interleaving of the workers, if one still has a lease of its scenario to take, the pool of that
  lease has a free device.  The members of a group share their actuator, which the preflight of the
  command line refuses otherwise.
\<close>
theorem capped_workers_never_wait:
  assumes accepted: "\<forall>s\<in>set scenarios. \<exists>s0. validate_targets s0 = Inr s"
    and shared: "\<forall>s\<in>set scenarios. \<forall>g\<in>set (device_groups s). \<forall>m\<in>set g. actuator_of setups m = actuator_of setups (hd g)"
    and capped: "resolve_multi_target_workers scenarios setups w = Inr W"
    and run: "(lease_step (lanes_of setups) (map (plan_of (actuator_of setups)) scenarios))\<^sup>*\<^sup>* (replicate W idle) ws"
    and i: "i < length ws" "wl_held (ws ! i) < length (wl_plan (ws ! i))"
  shows "in_use ws (wl_plan (ws ! i) ! wl_held (ws ! i)) < lanes_of setups (wl_plan (ws ! i) ! wl_held (ws ! i))"
proof -
  let ?act = "actuator_of setups" and ?a = "wl_plan (ws ! i) ! wl_held (ws ! i)"
  let ?demand = "pool_demand ?act scenarios []"
  let ?n = "get_count ?demand ?a"
  let ?f = "\<lambda>w. count_list (take (wl_held w) (wl_plan w)) ?a"
  have inv: "lanes_ok W (map (plan_of ?act) scenarios) ws" by (rule leasing.runs_inv [OF refl run])
  have plan_le: "count_list (wl_plan l) ?a \<le> ?n" if "l \<in> set ws" for l
  proof (cases "wl_plan l = []")
    case False
    with inv that obtain s where s: "s \<in> set scenarios" "wl_plan l = plan_of ?act s" by (auto simp: lanes_ok_def)
    from accepted s(1) obtain s0 where "validate_targets s0 = Inr s" by blast
    then have "check_device_groups s = Inr ()" using validated(1) by (auto elim!: checked_parts)
    from plan_counts [OF this, of ?act ?a] shared s have "count_list (wl_plan l) ?a = length [g \<leftarrow> device_groups s. ?act (hd g) = ?a]"
      by simp
    then show ?thesis using pool_demand_covers [OF s(1), of ?act ?a "[]"] by simp
  qed simp
  have below: "?f l \<le> ?n" if "l \<in> set ws" for l
  proof -
    have "?f l \<le> count_list (wl_plan l) ?a" by (metis append_take_drop_id count_list_append le_add1)
    with plan_le [OF that] show ?thesis by simp
  qed
  have mem: "ws ! i \<in> set ws" using i(1) by simp
  have strict: "?f (ws ! i) < ?n" using count_take [OF i(2)] plan_le [OF mem] by simp
  have "in_use ws ?a < length ws * ?n"
    unfolding in_use_def by (rule sum_list_below [where x = "ws ! i"]) (use below mem strict in auto)
  moreover from capped obtain w' where w': "cap_workers (lanes_of setups) ?demand w = Inr w'" "W = max 1 w'"
    by (auto simp: resolve_multi_target_workers_def and_then_eq_Inr)
  have "?n > 0" using strict by simp
  from get_count_mem [OF pool_demand_wf this] have "(?a, ?n) \<in> set ?demand" by simp
  from cap_workers_fits [OF w'(1) this \<open>?n > 0\<close>] have "W * ?n \<le> lanes_of setups ?a" using w'(2) by (simp add: max_def)
  moreover have "length ws = W" using inv by (simp add: lanes_ok_def)
  ultimately show ?thesis by simp
qed

definition two_pools :: "(string, target_setup) dict" where
  "two_pools = [(''a'', \<lparr>tu_actuator = ''xcuitest'', tu_lanes = 2\<rparr>), (''b'', \<lparr>tu_actuator = ''xcuitest'', tu_lanes = 2\<rparr>),
     (''c'', \<lparr>tu_actuator = ''adb'', tu_lanes = 3\<rparr>)]"

theorem capped_workers_never_wait_witness:
  "resolve_multi_target_workers [checked two_apps] two_pools 5 = Inr 2 \<and>
   in_use [\<lparr>wl_plan = [''adb'', ''xcuitest''], wl_held = 0\<rparr>, idle] ''adb'' < lanes_of two_pools ''adb''"
proof -
  let ?plans = "map (plan_of (actuator_of two_pools)) [checked two_apps]"
  have facts: "resolve_multi_target_workers [checked two_apps] two_pools 5 = Inr 2"
    "?plans = [[''adb'', ''xcuitest'']]"
    "\<forall>s\<in>set [checked two_apps]. \<forall>g\<in>set (device_groups s). \<forall>m\<in>set g. actuator_of two_pools m = actuator_of two_pools (hd g)"
    by code_simp+
  have step: "lease_step (lanes_of two_pools) ?plans (replicate 2 idle) [\<lparr>wl_plan = [''adb'', ''xcuitest''], wl_held = 0\<rparr>, idle]"
    using lease_step.take_next [of 0 "replicate 2 idle" "[''adb'', ''xcuitest'']" ?plans "lanes_of two_pools"] facts(2)
    by (simp add: numeral_2_eq_2)
  then have run: "(lease_step (lanes_of two_pools) ?plans)\<^sup>*\<^sup>* (replicate 2 idle) [\<lparr>wl_plan = [''adb'', ''xcuitest''], wl_held = 0\<rparr>, idle]"
    by (rule r_into_rtranclp)
  have accepted: "\<forall>s\<in>set [checked two_apps]. \<exists>s0. validate_targets s0 = Inr s" using two_apps_accepted by auto
  show ?thesis
    using capped_workers_never_wait [OF accepted facts(3) facts(1) run, of 0] facts(1) by simp
qed

end
