(* ===== verification/Group_Roster.thy ===== *)
theory Group_Roster
  imports Target_Properties Group_Leases Roster
begin

text \<open>
  A device group at run time: the roster a scenario starts with and what an \<open>installApp\<close> retires
  (\<open>_roster_for\<close> of \<open>common/runner/pipeline.py\<close>), and the walk of the command line that refuses a
  \<open>setPrimaryTarget\<close> to a retired member before any device is leased (\<open>_retired_primary_problems\<close> of
  \<open>run/cli.py\<close>).  \<open>ident\<close> is the application identifier of a target's configuration.
\<close>

section \<open>The walk before the run\<close>

definition group_with :: "string list list \<Rightarrow> string \<Rightarrow> string list" where
  "group_with groups n = (case List.find (\<lambda>g. n \<in> set g) groups of Some g \<Rightarrow> g | None \<Rightarrow> [])"

definition newly_retired :: "(string \<Rightarrow> string option) \<Rightarrow> string list list \<Rightarrow> string list \<Rightarrow> string \<Rightarrow> string list" where
  "newly_retired ident groups installed m = (case ident m of
     None \<Rightarrow> []
   | Some i \<Rightarrow> [x \<leftarrow> group_with groups m. x \<noteq> m \<and> x \<in> set installed \<and> ident x = Some i])"

fun retired_walk :: "(string \<Rightarrow> string option) \<Rightarrow> string list list \<Rightarrow> string list \<Rightarrow> string list \<Rightarrow> rstep list \<Rightarrow> string list" where
  "retired_walk ident groups installed retired [] = []"
| "retired_walk ident groups installed retired (st # ss) = (case rs_work st of
     RInstall m \<Rightarrow> retired_walk ident groups (m # installed) (newly_retired ident groups installed m @ retired) ss
   | RSetPrimary t \<Rightarrow> (if t \<in> set retired then [t] else []) @ retired_walk ident groups installed retired ss
   | _ \<Rightarrow> retired_walk ident groups installed retired ss)"

definition retired_primary_problems :: "(string \<Rightarrow> string option) \<Rightarrow> target_scenario \<Rightarrow> string list" where
  "retired_primary_problems ident s =
     retired_walk ident (device_groups s) [m \<leftarrow> target_names s. m \<notin> set (later_targets s)] [] (ts_setup s @ ts_steps s)"

section \<open>The run\<close>

definition roster_for :: "interrupt list \<Rightarrow> target_scenario \<Rightarrow> roster option" where
  "roster_for entries s = (case target_names s of
     [] \<Rightarrow> None
   | n # ns \<Rightarrow> Some \<lparr>ro_primary = n, ro_entries = entries, ro_status = map (\<lambda>m. (m, NotInstalled)) (remdups (later_targets s))\<rparr>)"

text \<open>The closure \<open>install\<close> of the pipeline: the members whose build the new one replaces.\<close>

definition install_build :: "(string \<Rightarrow> string option) \<Rightarrow> string list list \<Rightarrow> string \<Rightarrow> string \<Rightarrow> bool \<Rightarrow> (roster, string list) prog" where
  "install_build ident groups device member keep_data =
     (case List.find (\<lambda>g. device \<in> set g) groups of
        None \<Rightarrow> raise (OtherError ''StopIteration'')
      | Some g \<Rightarrow> ret (case ident member of None \<Rightarrow> [] | Some i \<Rightarrow> [m \<leftarrow> g. m \<noteq> member \<and> ident m = Some i]))"

definition update_roster :: "(roster \<Rightarrow> roster) \<Rightarrow> (roster, unit) prog" where
  "update_roster f r = (Ret (), f r)"

text \<open>
  The top-level steps that touch the roster, each with the targets that came up before it: a member
  that is installed runs from its first \<open>foreground\<close> on.
\<close>

fun come_up :: "string list \<Rightarrow> roster \<Rightarrow> roster" where
  "come_up [] r = r"
| "come_up (n # ns) r = come_up ns (if status_of r n = Installed then mark_status n Running r else r)"

definition roster_step :: "(string \<Rightarrow> string option) \<Rightarrow> string list list \<Rightarrow> rstep \<Rightarrow> (roster, string option) prog" where
  "roster_step ident groups st r = (case rs_work st of
     RInstall m \<Rightarrow> (case resolved_target st of
         Some d \<Rightarrow> install_member (Some (install_build ident groups)) r update_roster d m True r
       | None \<Rightarrow> (Ret (Some ''no device''), r))
   | RSetPrimary t \<Rightarrow> move_primary r update_roster t r
   | _ \<Rightarrow> (Ret None, r))"

fun roster_run :: "(string \<Rightarrow> string option) \<Rightarrow> string list list \<Rightarrow> (rstep \<times> string list) list \<Rightarrow> (roster, string option) prog" where
  "roster_run ident groups [] = ret None"
| "roster_run ident groups ((st, up) # rest) = seq (update_roster (come_up up)) (\<lambda>_.
     seq (roster_step ident groups st) (\<lambda>problem. case problem of Some p \<Rightarrow> ret (Some p) | None \<Rightarrow> roster_run ident groups rest))"

section \<open>The walk follows the roster\<close>

definition follows :: "string list \<Rightarrow> string list \<Rightarrow> string list \<Rightarrow> roster \<Rightarrow> bool" where
  "follows names installed retired r \<longleftrightarrow>
     (\<forall>n\<in>set names. (status_of r n = Retired \<longleftrightarrow> n \<in> set retired) \<and> (status_of r n \<noteq> NotInstalled \<longleftrightarrow> n \<in> set installed))"

lemma come_up_follows: "follows names installed retired r \<Longrightarrow> follows names installed retired (come_up ns r)"
proof (induction ns arbitrary: r)
  case (Cons n ns)
  let ?r = "if status_of r n = Installed then mark_status n Running r else r"
  have "status_of ?r x = Retired \<longleftrightarrow> status_of r x = Retired" "status_of ?r x = NotInstalled \<longleftrightarrow> status_of r x = NotInstalled" for x
    by (simp_all add: status_of_mark)
  then have "follows names installed retired ?r" using Cons.prems by (simp add: follows_def)
  from Cons.IH [OF this] show ?case by simp
qed simp

lemma status_of_retire:
  "status_of (retire_others os r) n = (if n \<in> set os \<and> status_of r n \<noteq> NotInstalled then Retired else status_of r n)"
proof (induction os arbitrary: r)
  case (Cons o' os)
  have "status_of (if status_of r o' \<noteq> NotInstalled then mark_status o' Retired r else r) n =
      (if n = o' \<and> status_of r n \<noteq> NotInstalled then Retired else status_of r n)"
    by (simp add: status_of_mark)
  then show ?case unfolding retire_others.simps Cons.IH by simp
qed simp

lemma find_group:
  assumes "distinct (target_names s)" "g \<in> set (device_groups s)" "n \<in> set g"
  shows "List.find (\<lambda>g. n \<in> set g) (device_groups s) = Some g"
proof -
  obtain h where h: "List.find (\<lambda>g. n \<in> set g) (device_groups s) = Some h"
    using assms(2,3) by (cases "List.find (\<lambda>g. n \<in> set g) (device_groups s)") (auto simp: find_None_iff)
  from find_Some_mem [OF h] same_group [OF assms(1,2) _ assms(3)] have "h = g" by blast
  with h show ?thesis by simp
qed

text \<open>What the run needs of its installs: the device and the member are of one group.\<close>

definition placed :: "target_scenario \<Rightarrow> rstep \<Rightarrow> bool" where
  "placed s st \<longleftrightarrow> (\<forall>m. rs_work st = RInstall m \<longrightarrow> m \<in> set (later_targets s) \<and>
     (\<exists>g\<in>set (device_groups s). \<exists>d. resolved_target st = Some d \<and> d \<in> set g \<and> m \<in> set g))"

definition set_declared :: "target_scenario \<Rightarrow> rstep \<Rightarrow> bool" where
  "set_declared s st \<longleftrightarrow> (\<forall>t. rs_work st = RSetPrimary t \<longrightarrow> t \<in> set (target_names s))"

lemma install_follows:
  assumes names: "distinct (target_names s)" and placed: "placed s st" and st: "rs_work st = RInstall m"
    and follows: "follows (target_names s) installed retired r" and new: "m \<notin> set installed"
  obtains r' where "roster_step ident (device_groups s) st r = (Ret None, r')"
    "follows (target_names s) (m # installed) (newly_retired ident (device_groups s) installed m @ retired) r'"
proof -
  from placed st obtain g d where g: "g \<in> set (device_groups s)" "resolved_target st = Some d" "d \<in> set g" "m \<in> set g"
    by (auto simp: placed_def)
  have m: "m \<in> set (target_names s)" using g by (auto simp: target_names_def)
  with follows new have fresh: "status_of r m = NotInstalled" by (auto simp: follows_def)
  let ?os = "case ident m of None \<Rightarrow> [] | Some i \<Rightarrow> [x \<leftarrow> g. x \<noteq> m \<and> ident x = Some i]"
  let ?r = "mark_status m Installed (retire_others ?os r)"
  have "roster_step ident (device_groups s) st r = (Ret None, ?r)"
    using st g(2) fresh find_group [OF names g(1,3)]
    by (simp add: roster_step_def install_member_def install_build_def seq_def ret_def update_roster_def)
  moreover have "follows (target_names s) (m # installed) (newly_retired ident (device_groups s) installed m @ retired) ?r"
  proof -
    have "set (newly_retired ident (device_groups s) installed m) = set ?os \<inter> set installed"
      using find_group [OF names g(1,4)] by (auto simp: newly_retired_def group_with_def split: option.splits)
    moreover have "m \<notin> set ?os" by (auto split: option.splits)
    moreover have "set ?os \<subseteq> set (target_names s)" using g(1) by (auto simp: target_names_def split: option.splits)
    moreover have "m \<notin> set retired" using follows fresh m unfolding follows_def by (metis member_status.distinct(5))
    ultimately show ?thesis using follows unfolding follows_def status_of_mark status_of_retire by auto
  qed
  ultimately show ?thesis by (rule that)
qed

lemma walk_is_exact:
  assumes names: "distinct (target_names s)"
  shows "\<forall>st\<in>fst ` set evs. placed s st \<and> set_declared s st \<Longrightarrow> distinct (installs_in (map fst evs)) \<Longrightarrow>
     set (installs_in (map fst evs)) \<inter> set installed = {} \<Longrightarrow> follows (target_names s) installed retired r \<Longrightarrow>
     (fst (roster_run ident (device_groups s) evs r) = Ret None \<longleftrightarrow>
      retired_walk ident (device_groups s) installed retired (map fst evs) = [])"
proof (induction evs arbitrary: installed retired r)
  case Nil
  show ?case by (simp add: ret_def)
next
  case (Cons ev evs)
  obtain st up where ev: "ev = (st, up)" by fastforce
  let ?r = "come_up up r"
  have follows: "follows (target_names s) installed retired ?r" by (rule come_up_follows [OF Cons.prems(4)])
  show ?case
  proof (cases "rs_work st")
    case (RInstall m)
    have "placed s st" "m \<notin> set installed" using Cons.prems(1,3) ev RInstall by simp_all
    from install_follows [OF names this(1) RInstall follows this(2), of ident] obtain r' where
      r': "roster_step ident (device_groups s) st ?r = (Ret None, r')"
      "follows (target_names s) (m # installed) (newly_retired ident (device_groups s) installed m @ retired) r'" .
    from Cons.IH [OF _ _ _ r'(2)] Cons.prems(1-3) ev RInstall show ?thesis
      using r'(1) by (simp add: seq_def update_roster_def)
  next
    case (RSetPrimary t)
    have t: "t \<in> set (target_names s)" using Cons.prems(1) ev RSetPrimary by (simp add: set_declared_def)
    show ?thesis
    proof (cases "t \<in> set retired")
      case True
      with follows t have "status_of ?r t = Retired" by (simp add: follows_def)
      with True RSetPrimary ev show ?thesis
        by (simp add: roster_step_def move_primary_def seq_def ret_def update_roster_def)
    next
      case False
      with follows t have "status_of ?r t \<noteq> Retired" by (simp add: follows_def)
      then have "roster_step ident (device_groups s) st ?r = (Ret None, ?r\<lparr>ro_primary := t\<rparr>)"
        using RSetPrimary by (simp add: roster_step_def move_primary_def seq_def ret_def update_roster_def)
      moreover have "follows (target_names s) installed retired (?r\<lparr>ro_primary := t\<rparr>)"
        using follows by (simp add: follows_def status_of_def)
      from Cons.IH [OF _ _ _ this] Cons.prems(1-3) ev RSetPrimary
      have "fst (roster_run ident (device_groups s) evs (?r\<lparr>ro_primary := t\<rparr>)) = Ret None \<longleftrightarrow>
          retired_walk ident (device_groups s) installed retired (map fst evs) = []" by simp
      ultimately show ?thesis using False RSetPrimary ev by (simp add: seq_def update_roster_def)
    qed
  qed (use Cons.IH [OF _ _ _ follows] Cons.prems(1-3) ev in \<open>simp_all add: roster_step_def seq_def update_roster_def\<close>)
qed

section \<open>Accepted scenarios place their installs\<close>

lemma walk_each:
  "walk E h ss = Inr (h', ss) \<Longrightarrow> \<not> wk_top E \<Longrightarrow> st \<in> set ss \<Longrightarrow> walk E h [st] = Inr (h, [st])"
proof (induction ss)
  case (Cons x xs)
  obtain nm tg rv rp w where x: "x = RStep nm tg rv rp w" by (cases x)
  from Cons.prems(1) x obtain h1 r h2 w1 where parts: "check_lifecycle E h x = Inr h1"
    "check_step_target (lf_known (wk_facts E)) (wk_mode E) (wk_primary E) (wk_caller E) x = Inr r"
    "walk_work E h1 nm tg w = Inr (h2, w1)" "walk E h2 xs = Inr (h', xs)" "r = rv" "w1 = w"
    by (auto simp: and_then_eq_Inr)
  have one: "walk E h [x] = Inr (h2, [x])" using parts x by simp
  from walk_hidden(1) [OF this Cons.prems(2)] have "h2 = h" .
  with Cons one parts(4) show ?case by auto
qed simp

lemma walk_top_hidden:
  "walk_top s p inst h ss = Inr (h', q, ss') \<Longrightarrow> \<not> h \<Longrightarrow> list_all (\<lambda>st. \<not> hides_steps (rs_work st)) ss' \<Longrightarrow> \<not> h'"
proof (induction s p inst h ss arbitrary: h' q ss' rule: walk_top.induct)
  case (2 s p inst h st ss)
  from "2.prems"(1) obtain h1 out inst' h2 ss1 where parts:
    "walk (env_for s Required p True None) h [st] = Inr (h1, out)" "note_top_level inst h1 st = Inr (inst', h2)"
    "walk_top s (primary_after p st) inst' h2 ss = Inr (h', q, ss1)" "ss' = out @ ss1"
    by (auto simp: and_then_eq_Inr)
  obtain st' where st': "out = [st']" "hides_steps (rs_work st') = hides_steps (rs_work st)"
    using walk_one [OF parts(1)] by metis
  have "\<not> h2" using top_step_hidden [OF parts(1)] parts(2,4) st' "2.prems"(2,3)
    by (auto simp: note_top_level_def Let_def split: rwork.splits if_splits)
  then show ?case using "2.IH" [OF parts(3)] parts(4) "2.prems"(3) by simp
qed simp

lemma walked_placed:
  assumes ok: "check_target_requirements s = Inr s"
    and w: "walk (env_for s Required p tp None) False [st] = Inr (h, [st])"
    and p: "\<And>t. p = Some t \<Longrightarrow> t \<in> set (target_names s)" and named: "[] \<notin> set (target_names s)"
  shows "placed s st \<and> set_declared s st"
proof -
  have "placed s st"
    unfolding placed_def
  proof (intro allI impI)
    fix m assume m: "rs_work st = RInstall m"
    from install_checked [OF w m] obtain g d where g: "m \<in> set (later_targets s)" "g \<in> set (device_groups s)"
      "either (rs_target st) p = Some d" "d \<in> set g" "m \<in> set g"
      by auto
    from ok have groups: "check_device_groups s = Inr ()" by (auto elim!: checked_parts)
    from g(1) obtain g' where g': "g' \<in> set (device_groups s)" "length g' \<ge> 2" by (auto simp: later_iff)
    have "distinct (target_names s)" by (rule device_groups_ok(1) [OF groups])
    then have "card (set g') \<ge> 2" using g' distinct_card [of g'] by (simp add: target_names_def distinct_concat_iff)
    moreover have "set g' \<subseteq> set (target_names s)" using g'(1) by (auto simp: target_names_def)
    ultimately have several: "card (set (target_names s)) \<ge> 2" by (meson List.finite_set card_mono le_trans)
    have "settles (target_names s) p st" using walk_settled(1) [OF w _ _ _ reach_mem] several by simp
    then have "resolved_target st = either (rs_target st) p"
      using m p named by (auto simp: settles_def routing_only_def resolved_target_def either_def split: option.splits)
    with g show "m \<in> set (later_targets s) \<and> (\<exists>g\<in>set (device_groups s). \<exists>d. resolved_target st = Some d \<and> d \<in> set g \<and> m \<in> set g)"
      by auto
  qed
  moreover have "set_declared s st" using set_primary_declared [OF w] by (simp add: set_declared_def)
  ultimately show ?thesis by blast
qed

lemma lifecycle_steps_placed:
  assumes ok: "check_target_requirements s = Inr s" and plain: "list_all (\<lambda>st. \<not> hides_steps (rs_work st)) (ts_steps s)"
    and named: "[] \<notin> set (target_names s)" and st: "st \<in> set (ts_setup s @ ts_steps s)"
  shows "placed s st \<and> set_declared s st"
proof -
  from ok obtain h h1 where parts: "walk_top s (ts_primary s) [] False (ts_steps s) = Inr (h, ts_final s, ts_steps s)"
    "walk (env_for s Required (ts_primary s) False None) h (ts_setup s) = Inr (h1, ts_setup s)"
    by (auto elim!: checked_parts)
  have hidden: "\<not> h" by (rule walk_top_hidden [OF parts(1) _ plain]) simp
  have declared: "t \<in> set (target_names s)" if "primary_in_force (ts_primary s) (take i (ts_steps s)) = Some t" for i t
    by (rule primary_declared [OF ok that])
  from st consider "st \<in> set (ts_setup s)" | i where "i < length (ts_steps s)" "st = ts_steps s ! i"
    by (auto simp: in_set_conv_nth)
  then show ?thesis
  proof cases
    case 1
    from walk_each [OF parts(2) _ 1] hidden have "walk (env_for s Required (ts_primary s) False None) False [st] = Inr (False, [st])"
      by simp
    from walked_placed [OF ok this _ named] declared [of 0] show ?thesis by simp
  next
    case 2
    from walk_top_each [OF parts(1) 2(1)] plain 2(2) obtain k1 k2 where
      "walk (env_for s Required (primary_in_force (ts_primary s) (take i (ts_steps s))) True None) k1 [st] = Inr (k2, [st])" "\<not> k1"
      by blast
    with walked_placed [OF ok _ declared named] show ?thesis by simp
  qed
qed



end
